(* ===== verification/Prelude.thy ===== *)
theory Prelude
  imports Main "HOL-Library.Word" "HOL-Library.Monad_Syntax"
begin

text \<open>
  Shared vocabulary of the development: the fixed-width integer types of the C code, memory
  copies into and out of byte buffers as fallible operations, and the circular view of a buffer
  that both byte queues of the program use.

  An operation that C leaves undefined (a copy past the end of an array, a null or dangling
  pointer, a division by zero) is the value \<open>None\<close>; a return code of the source is a number
  inside \<open>Some\<close>.
\<close>

unbundle bit_operations_syntax

type_synonym u8 = "8 word"
type_synonym u16 = "16 word"
type_synonym u32 = "32 word"
type_synonym ptr = nat

named_theorems mem_simps \<open>rewriting of buffer reads and writes\<close>
named_theorems ring_simps \<open>the circular view of a buffer\<close>

section \<open>Unsigned 32-bit arithmetic on natural numbers\<close>

definition wrap32 :: "nat \<Rightarrow> nat" where
  "wrap32 n = n mod 2 ^ 32"

lemma wrap32_small [simp]: "n < 2 ^ 32 \<Longrightarrow> wrap32 n = n"
  by (simp add: wrap32_def)

lemma wrap32_bound: "wrap32 n < 2 ^ 32"
  by (simp add: wrap32_def)

definition sub32 :: "nat \<Rightarrow> nat \<Rightarrow> nat" where
  "sub32 a n = wrap32 (a + 2 ^ 32 - n)"

lemma sub32_small [simp]: "n \<le> a \<Longrightarrow> a < 2 ^ 32 \<Longrightarrow> sub32 a n = a - n"
proof -
  assume "n \<le> a" "a < 2 ^ 32"
  then have "a + 2 ^ 32 - n = (a - n) + 2 ^ 32" by simp
  with \<open>a < 2 ^ 32\<close> show ?thesis
    by (simp only: sub32_def wrap32_def mod_add_self2) simp
qed

lemma unat_of_nat_u16: "n < 65536 \<Longrightarrow> unat (of_nat n :: u16) = n"
  by (simp add: unat_of_nat)

section \<open>Memory copies\<close>

text \<open>
  \<open>mem_read off n b\<close> is what \<^verbatim>\<open>memcpy(dst, &b[off], n)\<close> delivers, \<open>mem_write off xs b\<close> is
  \<open>b\<close> after \<^verbatim>\<open>memcpy(&b[off], xs, n)\<close>; both are \<open>None\<close> where the copy leaves the buffer.
\<close>

definition mem_read :: "nat \<Rightarrow> nat \<Rightarrow> 'a list \<Rightarrow> 'a list option" where
  "mem_read off n b = (if off + n \<le> length b then Some (take n (drop off b)) else None)"

definition mem_write :: "nat \<Rightarrow> 'a list \<Rightarrow> 'a list \<Rightarrow> 'a list option" where
  "mem_write off xs b =
     (if off + length xs \<le> length b
      then Some (take off b @ xs @ drop (off + length xs) b) else None)"

lemma mem_read_Some [mem_simps]:
  "off + n \<le> length b \<Longrightarrow> mem_read off n b = Some (take n (drop off b))"
  by (simp add: mem_read_def)

lemma mem_write_Some [mem_simps]:
  "off + length xs \<le> length b \<Longrightarrow>
    mem_write off xs b = Some (take off b @ xs @ drop (off + length xs) b)"
  by (simp add: mem_write_def)

lemma mem_write_length: "mem_write off xs b = Some b' \<Longrightarrow> length b' = length b"
  by (auto simp: mem_write_def split: if_splits)

lemma mem_write_nth:
  assumes "mem_write off xs b = Some b'" and "i < length b"
  shows "b' ! i = (if off \<le> i \<and> i < off + length xs then xs ! (i - off) else b ! i)"
  using assms by (auto simp: mem_write_def nth_append split: if_splits)

lemma mem_write_exact:
  assumes "mem_write off xs b = Some b'"
  shows "mem_read off (length xs) b' = Some xs"
  using assms by (auto simp: mem_write_def mem_read_def split: if_splits)

lemma Option_bind_Some_iff:
  "Option.bind m f = Some y \<longleftrightarrow> (\<exists>x. m = Some x \<and> f x = Some y)"
  by (cases m) auto

section \<open>The circular view of a buffer\<close>

text \<open>
  \<open>ring_view r n m b\<close> lists the \<open>n\<close> cells that follow position \<open>r\<close> of the buffer \<open>b\<close>
  used as a ring of size \<open>m\<close>.
\<close>

definition ring_view :: "nat \<Rightarrow> nat \<Rightarrow> nat \<Rightarrow> 'a list \<Rightarrow> 'a list" where
  "ring_view r n m b = map (\<lambda>i. b ! ((r + i) mod m)) [0..<n]"

lemma length_ring_view [simp]: "length (ring_view r n m b) = n"
  by (simp add: ring_view_def)

lemma ring_view_0 [simp]: "ring_view r 0 m b = []"
  by (simp add: ring_view_def)

lemma nth_ring_view [simp]: "i < n \<Longrightarrow> ring_view r n m b ! i = b ! ((r + i) mod m)"
  by (simp add: ring_view_def)

lemma ring_view_mod [ring_simps]: "ring_view (r mod m) n m b = ring_view r n m b"
  by (simp add: ring_view_def mod_add_left_eq)

lemma ring_view_append [ring_simps]:
  "ring_view r (k + n) m b = ring_view r k m b @ ring_view (r + k) n m b"
  by (rule nth_equalityI) (auto simp: nth_append ac_simps)

lemma take_ring_view: "k \<le> n \<Longrightarrow> take k (ring_view r n m b) = ring_view r k m b"
  by (rule nth_equalityI) auto

lemma drop_ring_view: "k \<le> n \<Longrightarrow> drop k (ring_view r n m b) = ring_view (r + k) (n - k) m b"
  by (rule nth_equalityI) (auto simp: ac_simps)

lemma ring_view_linear:
  assumes "r + n \<le> m" and "m \<le> length b"
  shows "ring_view r n m b = take n (drop r b)"
  using assms by (intro nth_equalityI) auto

lemma ring_view_cong:
  assumes "\<And>i. i < n \<Longrightarrow> b ! ((r + i) mod m) = b' ! ((r + i) mod m)"
  shows "ring_view r n m b = ring_view r n m b'"
  using assms by (intro nth_equalityI) auto

text \<open>A window of a ring of size \<open>m\<close> that has not wrapped, or has wrapped once.\<close>

lemma ring_index_cases:
  assumes "(r::nat) < m" and "i < m"
  shows "(r + i) mod m = (if r + i < m then r + i else r + i - m)"
  using assms by (simp add: mod_if)

text \<open>Writing one linear piece of the ring keeps a window that does not meet it.\<close>

lemma ring_view_write_disjoint:
  assumes "mem_write off xs b = Some b'" and "0 < m" and "m \<le> length b"
    and "\<And>i. i < n \<Longrightarrow> (r + i) mod m < off \<or> off + length xs \<le> (r + i) mod m"
  shows "ring_view r n m b' = ring_view r n m b"
proof (rule ring_view_cong)
  fix i assume "i < n"
  moreover have "(r + i) mod m < length b"
    using assms(2,3) by (meson mod_less_divisor order_less_le_trans)
  ultimately show "b' ! ((r + i) mod m) = b ! ((r + i) mod m)"
    using mem_write_nth [OF assms(1)] assms(4) by force
qed

lemma ring_view_write_same:
  assumes "mem_write off xs b = Some b'" and "off + length xs \<le> m" and "m \<le> length b"
  shows "ring_view off (length xs) m b' = xs"
proof -
  have "ring_view off (length xs) m b' = take (length xs) (drop off b')"
    using assms mem_write_length [OF assms(1)] by (intro ring_view_linear) auto
  also have "\<dots> = xs"
    using mem_write_exact [OF assms(1)] by (auto simp: mem_read_def split: if_splits)
  finally show ?thesis .
qed


text \<open>A window that grows by one cell at either end.\<close>

lemma ring_index_inj:
  "h < m \<Longrightarrow> i < m \<Longrightarrow> j < m \<Longrightarrow> (h + i) mod m = (h + j) mod m \<longleftrightarrow> i = (j :: nat)"
  by (auto simp: mod_if split: if_splits)

lemma ring_view_snoc:
  assumes "h < m" and "n < m" and "m \<le> length b"
  shows "ring_view h (Suc n) m (b[(h + n) mod m := x]) = ring_view h n m b @ [x]"
proof (rule nth_equalityI)
  fix i assume "i < length (ring_view h (Suc n) m (b[(h + n) mod m := x]))"
  moreover have "(h + n) mod m < length b"
    using order_less_le_trans [OF _ assms(3), of "(h + n) mod m"] assms(1) by simp
  ultimately show "ring_view h (Suc n) m (b[(h + n) mod m := x]) ! i = (ring_view h n m b @ [x]) ! i"
    using assms ring_index_inj [of h m i n] by (auto simp: nth_append nth_list_update less_Suc_eq)
qed simp

lemma ring_view_Cons:
  "0 < n \<Longrightarrow> ring_view h n m b = b ! (h mod m) # ring_view (Suc h) (n - 1) m b"
  by (rule nth_equalityI) (auto simp: nth_Cons split: nat.splits)

lemma ring_view_update_head:
  assumes "h < m" and "n < m" and "m \<le> length b"
  shows "ring_view h (Suc n) m (b[h := x]) = x # ring_view (Suc h) n m b"
proof -
  have "ring_view (Suc h) n m (b[h := x]) = ring_view (Suc h) n m b"
  proof (rule ring_view_cong)
    fix i assume "i < n"
    then have "(Suc h + i) mod m \<noteq> h"
      using assms ring_index_inj [of h m "Suc i" 0] by auto
    then show "b[h := x] ! ((Suc h + i) mod m) = b ! ((Suc h + i) mod m)" by simp
  qed
  then show ?thesis using assms by (simp add: ring_view_Cons [of "Suc n" h])
qed


lemma ring_view_update:
  assumes "h < m" and "k < n" and "n \<le> m" and "m \<le> length b"
  shows "ring_view h n m (b[(h + k) mod m := x]) = (ring_view h n m b)[k := x]"
proof (rule nth_equalityI)
  fix i assume "i < length (ring_view h n m (b[(h + k) mod m := x]))"
  moreover have "(h + k) mod m < length b"
    using order_less_le_trans [OF _ assms(4), of "(h + k) mod m"] assms(1) by simp
  ultimately show "ring_view h n m (b[(h + k) mod m := x]) ! i = (ring_view h n m b)[k := x] ! i"
    using assms ring_index_inj [of h m i k] by (auto simp: nth_list_update)
qed simp

text \<open>A copy that may cross the end of the ring delivers a window of the ring.\<close>

lemma ring_read_wrap:
  assumes "m \<le> length b" and "r < m" and "n \<le> m" and "m \<le> r + n"
  shows "take (m - r) (drop r b) @ take (n + r - m) b = ring_view r n m b"
  using assms by (intro nth_equalityI) (auto simp: nth_append mod_if ac_simps)

text \<open>A window of the ring after one linear write right behind it.\<close>

lemma ring_append_linear:
  assumes "mem_write w xs b = Some b'" and "m \<le> length b" and "r < m" and "w = (r + n) mod m"
    and "n + length xs \<le> m" and "w + length xs \<le> m"
  shows "ring_view r (n + length xs) m b' = ring_view r n m b @ xs"
proof -
  have "ring_view r n m b' = ring_view r n m b"
    using assms by (intro ring_view_write_disjoint [OF assms(1)]) (auto simp: mod_if split: if_splits)
  moreover have "ring_view (r + n) (length xs) m b' = xs"
    using ring_view_write_same [OF assms(1,6,2)] assms(4) by (simp add: ring_simps)
  ultimately show ?thesis by (simp add: ring_view_append)
qed

lemma ring_append_wrap:
  assumes "mem_write w (take (m - w) xs) b = Some b1" and "mem_write 0 (drop (m - w) xs) b1 = Some b2"
    and "m \<le> length b" and "r < m" and "w = (r + n) mod m"
    and "n + length xs \<le> m" and "m \<le> w + length xs"
  shows "ring_view r (n + length xs) m b2 = ring_view r n m b @ xs"
proof -
  let ?k = "m - w"
  have w: "w < m" using assms(4,5) by simp
  have k: "length (take ?k xs) = ?k" using assms(7) by simp
  have 1: "ring_view r (n + ?k) m b1 = ring_view r n m b @ take ?k xs"
    using ring_append_linear [OF assms(1,3,4,5)] assms(6) w k by simp
  have "(r + (n + ?k)) mod m = (w + ?k) mod m"
    unfolding assms(5) by (simp add: mod_simps ac_simps)
  then have 0: "0 = (r + (n + ?k)) mod m" using w by simp
  have "ring_view r (n + ?k + length (drop ?k xs)) m b2 = ring_view r (n + ?k) m b1 @ drop ?k xs"
    using assms(3,4,6,7) w mem_write_length [OF assms(1)]
    by (intro ring_append_linear [OF assms(2) _ _ 0]) auto
  moreover have "n + ?k + length (drop ?k xs) = n + length xs" using assms(7) by simp
  ultimately show ?thesis by (simp add: 1)
qed

end
