(* ===== verification/ByteQueue.thy ===== *)
theory ByteQueue
  imports Prelude
begin

text \<open>
  The contract of a bounded byte queue, shared by the receive FIFO of the socket protocol
  (theory \<open>CmdFifo\<close>, \<^verbatim>\<open>packsocket/packsocket.c\<close>) and by the ring buffer of the common
  utilities (theory \<open>RingBuf\<close>, \<^verbatim>\<open>common/ringBuf.h\<close>). The abstract queue is the list of the
  bytes not yet taken; \<open>byte_queue\<close> states what a provider promises for one operation and
  derives what a client relies on for a whole sequence of operations.
\<close>

datatype queue_op = Put "u8 list" | Get nat

text \<open>The specification: a byte list with a limit on its free room.\<close>

primrec spec_run :: "queue_op list \<Rightarrow> u8 list \<Rightarrow> nat \<Rightarrow> (u8 list list \<times> u8 list) option" where
  "spec_run [] bs free = Some ([], bs)"
| "spec_run (x # ops) bs free =
     (case x of
        Put xs \<Rightarrow>
          if length xs \<le> free then spec_run ops (bs @ xs) (free - length xs) else None
      | Get n \<Rightarrow>
          if n \<le> length bs
          then map_option (\<lambda>(outs, rest). (take n bs # outs, rest))
                 (spec_run ops (drop n bs) (free + n))
          else None)"

text \<open>The same sequence run on an implementation.\<close>

primrec queue_run ::
  "(u8 list \<Rightarrow> 'q \<Rightarrow> 'q option) \<Rightarrow> (nat \<Rightarrow> 'q \<Rightarrow> (u8 list \<times> 'q) option)
    \<Rightarrow> queue_op list \<Rightarrow> 'q \<Rightarrow> (u8 list list \<times> 'q) option" where
  "queue_run put get [] q = Some ([], q)"
| "queue_run put get (x # ops) q =
     (case x of
        Put xs \<Rightarrow> Option.bind (put xs q) (queue_run put get ops)
      | Get n \<Rightarrow>
          Option.bind (get n q) (\<lambda>(out, q').
            map_option (\<lambda>(outs, r). (out # outs, r)) (queue_run put get ops q')))"

locale byte_queue =
  fixes inv :: "'q \<Rightarrow> bool"
    and contents :: "'q \<Rightarrow> u8 list"
    and room :: "'q \<Rightarrow> nat"
    and put :: "u8 list \<Rightarrow> 'q \<Rightarrow> 'q option"
    and get :: "nat \<Rightarrow> 'q \<Rightarrow> (u8 list \<times> 'q) option"
  assumes put_law:
    "inv q \<Longrightarrow> length xs \<le> room q \<Longrightarrow>
      \<exists>q'. put xs q = Some q' \<and> inv q' \<and> contents q' = contents q @ xs
        \<and> room q' = room q - length xs"
    and get_law:
    "inv q \<Longrightarrow> n \<le> length (contents q) \<Longrightarrow>
      \<exists>q'. get n q = Some (take n (contents q), q') \<and> inv q'
        \<and> contents q' = drop n (contents q) \<and> room q' = room q + n"
begin

text \<open>Every run the specification allows is a run of the implementation, with the same output.\<close>

lemma run_refines:
  assumes "inv q" and "spec_run ops (contents q) (room q) = Some (outs, rest)"
  shows "\<exists>q'. queue_run put get ops q = Some (outs, q') \<and> inv q' \<and> contents q' = rest"
  using assms
proof (induction ops arbitrary: q outs)
  case Nil
  then show ?case by simp
next
  case (Cons x ops)
  show ?case
  proof (cases x)
    case (Put xs)
    with Cons.prems have le: "length xs \<le> room q"
      and run: "spec_run ops (contents q @ xs) (room q - length xs) = Some (outs, rest)"
      by (auto split: if_splits)
    from put_law [OF Cons.prems(1) le] obtain q1 where
      q1: "put xs q = Some q1" "inv q1" "contents q1 = contents q @ xs" "room q1 = room q - length xs"
      by blast
    with run have "spec_run ops (contents q1) (room q1) = Some (outs, rest)" by simp
    from Cons.IH [OF q1(2) this] q1(1) Put show ?thesis by simp
  next
    case (Get n)
    with Cons.prems obtain outs' where le: "n \<le> length (contents q)"
      and outs: "outs = take n (contents q) # outs'"
      and run: "spec_run ops (drop n (contents q)) (room q + n) = Some (outs', rest)"
      by (auto split: if_splits)
    from get_law [OF Cons.prems(1) le] obtain q1 where
      q1: "get n q = Some (take n (contents q), q1)" "inv q1"
        "contents q1 = drop n (contents q)" "room q1 = room q + n"
      by blast
    with run have "spec_run ops (contents q1) (room q1) = Some (outs', rest)" by simp
    from Cons.IH [OF q1(2) this] q1(1) Get outs show ?thesis by auto
  qed
qed

text \<open>Bytes come out in the order in which they went in, whatever the chunks were.\<close>

lemma put_chunks:
  assumes "inv q" and "length (concat chunks) \<le> room q"
  shows "\<exists>q'. queue_run put get (map Put chunks) q = Some ([], q') \<and> inv q'
           \<and> contents q' = contents q @ concat chunks"
proof -
  have "spec_run (map Put chunks) bs free = Some ([], bs @ concat chunks)"
    if "length (concat chunks) \<le> free" for bs free
    using that by (induction chunks arbitrary: bs free) auto
  with run_refines [OF assms(1)] assms(2) show ?thesis by blast
qed

lemma put_get:
  assumes "inv q" and "contents q = []" and "length xs \<le> room q"
  shows "\<exists>q' q''. put xs q = Some q' \<and> get (length xs) q' = Some (xs, q'') \<and> inv q''
           \<and> contents q'' = [] \<and> room q'' = room q"
proof -
  from put_law [OF assms(1,3)] assms(2) obtain q' where
    q': "put xs q = Some q'" "inv q'" "contents q' = xs" "room q' = room q - length xs" by auto
  from get_law [OF q'(2), of "length xs"] q' assms(3) show ?thesis by auto
qed

end

end
