(* ===== verification/Crc.thy ===== *)
theory Crc
  imports Prelude
begin

text \<open>
  The checksum both wire protocols use and the byte order of the socket protocol:
  \<^verbatim>\<open>crc32_le\<close> of \<^verbatim>\<open>util/util.c\<close>, its copy \<^verbatim>\<open>jcrc32_le\<close> of \<^verbatim>\<open>hw/common/source/comUart.c\<close>, and
  \<^verbatim>\<open>short2buffer\<close> / \<^verbatim>\<open>int2buffer\<close> of \<^verbatim>\<open>packsocket/packsocket.c\<close>. \<^verbatim>\<open>unsigned long\<close> is 32 bits wide
  on the target (\<^verbatim>\<open>arm-xilinx-linux-gnueabi\<close>).
\<close>

definition CRCPOLY_LE :: u32 where "CRCPOLY_LE = 0xedb88320"

text \<open>One turn of the inner loop: \<^verbatim>\<open>crc = (crc >> 1) ^ ((crc & 1) ? CRCPOLY_LE : 0)\<close>.\<close>

definition crc_bit :: "u32 \<Rightarrow> u32" where
  "crc_bit c = drop_bit 1 c XOR (if c AND 1 \<noteq> 0 then CRCPOLY_LE else 0)"

primrec crc_bits :: "nat \<Rightarrow> u32 \<Rightarrow> u32" where
  "crc_bits 0 c = c"
| "crc_bits (Suc n) c = crc_bits n (crc_bit c)"

primrec crc32_le :: "u32 \<Rightarrow> u8 list \<Rightarrow> u32" where
  "crc32_le c [] = c"
| "crc32_le c (b # bs) = crc32_le (crc_bits 8 (c XOR ucast b)) bs"

definition jcrc32_le :: "u32 \<Rightarrow> u8 list \<Rightarrow> u32" where
  "jcrc32_le c p = foldl (\<lambda>crc b. crc_bits 8 (crc XOR ucast b)) c p"

definition short2buffer :: "u16 \<Rightarrow> u8 list" where
  "short2buffer d = [ucast (drop_bit 8 d AND 0xFF), ucast (d AND 0xFF)]"

definition int2buffer :: "u32 \<Rightarrow> u8 list" where
  "int2buffer d = [ucast (drop_bit 24 d), ucast (drop_bit 16 d AND 0xFF),
                   ucast (drop_bit 8 d AND 0xFF), ucast (d AND 0xFF)]"

text \<open>The reading side: \<^verbatim>\<open>p[i]<<8 | p[i+1]\<close> and its four-byte form.\<close>

definition get_short :: "u8 list \<Rightarrow> nat \<Rightarrow> u16" where
  "get_short p i = push_bit 8 (ucast (p ! i)) OR ucast (p ! (i + 1))"

definition get_int :: "u8 list \<Rightarrow> nat \<Rightarrow> u32" where
  "get_int p i = push_bit 24 (ucast (p ! i)) OR push_bit 16 (ucast (p ! (i + 1)))
     OR push_bit 8 (ucast (p ! (i + 2))) OR ucast (p ! (i + 3))"

lemma length_short2buffer [simp]: "length (short2buffer d) = 2"
  by (simp add: short2buffer_def)

lemma length_int2buffer [simp]: "length (int2buffer d) = 4"
  by (simp add: int2buffer_def)

lemma and_0xFF: "x AND 0xFF = take_bit 8 (x :: 'a::len word)"
  by (simp add: take_bit_eq_mask mask_eq_exp_minus_1)

lemma get_short_buffer: "get_short (short2buffer d) 0 = d"
  by (rule bit_word_eqI)
    (auto simp: get_short_def short2buffer_def and_0xFF bit_simps; arith?)

lemma get_int_buffer: "get_int (int2buffer d) 0 = d"
proof (rule bit_word_eqI)
  fix n assume "n < LENGTH(32)"
  then consider "n < 8" | "8 \<le> n" "n < 16" | "16 \<le> n" "n < 24" | "24 \<le> n" "n < 32"
    by fastforce
  then show "bit (get_int (int2buffer d) 0) n = bit d n"
    by cases (auto simp: get_int_def int2buffer_def and_0xFF bit_simps)
qed

lemma get_short_append1: "i + 1 < length xs \<Longrightarrow> get_short (xs @ ys) i = get_short xs i"
  by (simp add: get_short_def nth_append)

lemma get_short_append2: "get_short (xs @ ys) (length xs + i) = get_short ys i"
  by (simp add: get_short_def nth_append)

lemma get_int_append1: "i + 3 < length xs \<Longrightarrow> get_int (xs @ ys) i = get_int xs i"
  by (simp add: get_int_def nth_append)

lemma get_int_append2: "get_int (xs @ ys) (length xs + i) = get_int ys i"
  by (simp add: get_int_def nth_append)

text \<open>Reading a field of a header that is a sequence of encoded fields.\<close>

named_theorems wire_simps \<open>reading the fields of an encoded header\<close>

lemma get_short_first [wire_simps]: "get_short (short2buffer d @ xs) 0 = d"
  using get_short_append1 [of 0 "short2buffer d" xs] by (simp add: get_short_buffer)

lemma get_int_first [wire_simps]: "get_int (int2buffer d @ xs) 0 = d"
  using get_int_append1 [of 0 "int2buffer d" xs] by (simp add: get_int_buffer)

lemma get_int_last [wire_simps]: "get_int (int2buffer d) 0 = d"
  by (rule get_int_buffer)

lemma get_short_skip [wire_simps]:
  "length xs \<le> i \<Longrightarrow> get_short (xs @ ys) i = get_short ys (i - length xs)"
  using get_short_append2 [of xs ys "i - length xs"] by simp

lemma get_int_skip [wire_simps]:
  "length xs \<le> i \<Longrightarrow> get_int (xs @ ys) i = get_int ys (i - length xs)"
  using get_int_append2 [of xs ys "i - length xs"] by simp

section \<open>The checksum\<close>

lemma crc32_le_append: "crc32_le c (xs @ ys) = crc32_le (crc32_le c xs) ys"
  by (induction xs arbitrary: c) auto

lemma jcrc32_le_eq: "jcrc32_le c p = crc32_le c p"
  unfolding jcrc32_le_def by (induction p arbitrary: c) auto

text \<open>
  A register step loses nothing: the polynomial has its top bit set, so that bit of the result
  tells whether the polynomial was added, and the shifted register can be recovered.
\<close>

lemma crc_bit_alt: "crc_bit c = drop_bit 1 c XOR (if odd c then CRCPOLY_LE else 0)"
  by (simp add: crc_bit_def and_one_eq odd_iff_mod_2_eq_one)

lemma xor_cancel_right: "(x :: 'a::len word) XOR z = y XOR z \<longleftrightarrow> x = y"
  by (metis xor.assoc xor.right_neutral xor_self_eq)

lemma crc_bit_top: "bit (crc_bit c) 31 \<longleftrightarrow> bit c 0"
  by (auto simp: crc_bit_alt CRCPOLY_LE_def bit_simps bit_0 dest: bit_imp_le_length)

lemma crc_bit_inj:
  assumes "crc_bit c = crc_bit d"
  shows "c = d"
proof (rule bit_word_eqI)
  fix n assume "n < LENGTH(32)"
  have low: "bit c 0 = bit d 0"
    using assms crc_bit_top by metis
  then have "drop_bit 1 c = drop_bit 1 d"
    using assms by (auto simp: crc_bit_alt bit_0 xor_cancel_right split: if_splits)
  then have "bit c (Suc m) = bit d (Suc m)" for m
    by (metis bit_drop_bit_eq comp_apply plus_1_eq_Suc)
  with low show "bit c n = bit d n" by (cases n) auto
qed

lemma crc_bits_inj: "crc_bits n c = crc_bits n d \<Longrightarrow> c = d"
  by (induction n arbitrary: c d) (auto dest: crc_bit_inj)

lemma ucast_eq_iff_8_32: "(ucast (a :: u8) :: u32) = ucast b \<longleftrightarrow> a = b"
proof
  assume eq: "(ucast a :: u32) = ucast b"
  show "a = b"
  proof (rule bit_word_eqI)
    fix n assume "n < LENGTH(8)"
    moreover have "bit (ucast a :: u32) n = bit (ucast b :: u32) n" by (simp add: eq)
    ultimately show "bit a n = bit b n" by (simp add: bit_simps)
  qed
qed simp

lemma xor_ucast_cancel: "(c :: u32) XOR ucast (a :: u8) = c XOR ucast b \<longleftrightarrow> a = b"
  using xor_cancel_right [of "ucast a" c "ucast b"] by (simp add: xor.commute ucast_eq_iff_8_32)

lemma crc32_le_inj_init: "crc32_le c xs = crc32_le d xs \<Longrightarrow> c = d"
proof (induction xs arbitrary: c d)
  case Nil
  then show ?case by simp
next
  case (Cons x xs)
  then have "c XOR ucast x = d XOR ucast x" by (auto dest: crc_bits_inj)
  then show ?case by (simp add: xor_cancel_right)
qed

lemma crc32_le_one_byte:
  assumes "a \<noteq> b"
  shows "crc32_le c (xs @ a # ys) \<noteq> crc32_le c (xs @ b # ys)"
  using assms by (auto simp: crc32_le_append xor_ucast_cancel dest!: crc32_le_inj_init crc_bits_inj)

end
