(* ===== verification/CmdFifo.thy ===== *)
theory CmdFifo
  imports ByteQueue Crc
begin

text \<open>
  The receive FIFO of the socket protocol (\<^verbatim>\<open>cmd_fifo_t\<close> and its operations in
  \<^verbatim>\<open>packsocket/packsocket.c\<close>). The fields are the \<^verbatim>\<open>unsigned int\<close>s of the source, as natural
  numbers with the wrap-around written out. \<open>fifo_bytes\<close> is the list of the bytes written and
  not yet read.
\<close>

record cmd_fifo =
  ff_cmd :: "u8 list"
  ff_read :: nat
  ff_write :: nat
  ff_len :: nat
  ff_maxLen :: nat
  ff_bInit :: nat

definition FIFO_MAX_LEN :: nat where "FIFO_MAX_LEN = 40960"

definition SYNC_HEAD :: u16 where "SYNC_HEAD = 0x4747"

definition HEAD_SIZE :: nat where "HEAD_SIZE = 16"

text \<open>The queue part of \<^verbatim>\<open>init_cmd_fifo\<close> (the list head is reset in \<open>PackSocket\<close>).\<close>

definition init_cmd_fifo :: "cmd_fifo \<Rightarrow> cmd_fifo" where
  "init_cmd_fifo f =
     (if ff_bInit f \<noteq> 1
      then f\<lparr>ff_len := 0, ff_maxLen := FIFO_MAX_LEN, ff_read := 0, ff_write := 0, ff_bInit := 1\<rparr>
      else f)"

definition write_cmd_fifo :: "cmd_fifo \<Rightarrow> u8 list \<Rightarrow> (int \<times> cmd_fifo) option" where
  "write_cmd_fifo f data =
     (let len = length data in
      if wrap32 (ff_len f + len) > ff_maxLen f then Some (-1, f)
      else do {
        f' \<leftarrow>
          (if ff_write f \<ge> ff_read f then
             if wrap32 (ff_write f + len) < ff_maxLen f then do {
               b \<leftarrow> mem_write (ff_write f) data (ff_cmd f);
               Some (f\<lparr>ff_cmd := b, ff_write := wrap32 (ff_write f + len)\<rparr>)
             }
             else if ff_maxLen f < ff_write f \<or> len < ff_maxLen f - ff_write f then None
             else do {
               let len1 = ff_maxLen f - ff_write f;
               b1 \<leftarrow> mem_write (ff_write f) (take len1 data) (ff_cmd f);
               b2 \<leftarrow> mem_write 0 (drop len1 data) b1;
               Some (f\<lparr>ff_cmd := b2, ff_write := len - len1\<rparr>)
             }
           else do {
             b \<leftarrow> mem_write (ff_write f) data (ff_cmd f);
             Some (f\<lparr>ff_cmd := b, ff_write := wrap32 (ff_write f + len)\<rparr>)
           });
        if ff_maxLen f = 0 then None
        else Some (0, f'\<lparr>ff_len := wrap32 (ff_len f + len),
                         ff_write := ff_write f' mod ff_maxLen f\<rparr>)
      })"

text \<open>
  Copying \<open>n\<close> bytes from the read position, across the end of the array if need be: the two
  copies of \<^verbatim>\<open>read_cmd_fifo\<close>.
\<close>

definition read_cmd_fifo :: "cmd_fifo \<Rightarrow> nat \<Rightarrow> (u8 list \<times> cmd_fifo) option" where
  "read_cmd_fifo f len = do {
     buf \<leftarrow>
       (if wrap32 (ff_read f + len) > ff_maxLen f then
          if ff_maxLen f < ff_read f \<or> len < ff_maxLen f - ff_read f then None
          else do {
            let len1 = ff_maxLen f - ff_read f;
            x \<leftarrow> mem_read (ff_read f) len1 (ff_cmd f);
            y \<leftarrow> mem_read 0 (len - len1) (ff_cmd f);
            Some (x @ y)
          }
        else mem_read (ff_read f) len (ff_cmd f));
     if ff_maxLen f = 0 then None
     else Some (buf, f\<lparr>ff_read := wrap32 (ff_read f + len) mod ff_maxLen f,
                       ff_len := sub32 (ff_len f) len\<rparr>)
   }"

text \<open>
  \<^verbatim>\<open>read_cmd_try_read\<close>: the outer \<open>None\<close> is a copy out of bounds, the inner one the return
  value -1, and \<open>Some len\<close> the length of the frame that waits in the FIFO.
\<close>

definition read_cmd_try_read :: "cmd_fifo \<Rightarrow> nat option option" where
  "read_cmd_try_read f =
     (if ff_len f \<ge> HEAD_SIZE + 4 then
        do {
          let len1 = ff_maxLen f - ff_read f;
          cmd \<leftarrow>
            (if len1 > HEAD_SIZE \<or> ff_maxLen f < ff_read f
             then mem_read (ff_read f) HEAD_SIZE (ff_cmd f)
             else do {
               x \<leftarrow> mem_read (ff_read f) len1 (ff_cmd f);
               y \<leftarrow> mem_read 0 (HEAD_SIZE - len1) (ff_cmd f);
               Some (x @ y)
             });
          if get_short cmd 0 = SYNC_HEAD then
            let validLen = get_short cmd 14 in
            if ff_len f \<ge> HEAD_SIZE + unat validLen + 4
            then Some (Some (HEAD_SIZE + unat validLen + 4))
            else Some None
          else Some None
        }
      else Some None)"

section \<open>Invariant and abstraction\<close>

definition fifo_inv :: "cmd_fifo \<Rightarrow> bool" where
  "fifo_inv f \<longleftrightarrow> 0 < ff_maxLen f \<and> ff_maxLen f \<le> length (ff_cmd f) \<and> ff_maxLen f < 2 ^ 30
     \<and> ff_read f < ff_maxLen f \<and> ff_len f \<le> ff_maxLen f
     \<and> ff_write f = (ff_read f + ff_len f) mod ff_maxLen f \<and> ff_bInit f = 1"

definition fifo_bytes :: "cmd_fifo \<Rightarrow> u8 list" where
  "fifo_bytes f = ring_view (ff_read f) (ff_len f) (ff_maxLen f) (ff_cmd f)"

definition fifo_room :: "cmd_fifo \<Rightarrow> nat" where
  "fifo_room f = ff_maxLen f - ff_len f"

lemma length_fifo_bytes [simp]: "length (fifo_bytes f) = ff_len f"
  by (simp add: fifo_bytes_def)

lemma fifo_invD:
  assumes "fifo_inv f"
  shows "0 < ff_maxLen f" "ff_maxLen f \<le> length (ff_cmd f)" "ff_maxLen f < 2 ^ 30"
    "ff_read f < ff_maxLen f" "ff_len f \<le> ff_maxLen f" "ff_write f < ff_maxLen f" "ff_bInit f = 1"
    "ff_write f = (if ff_read f + ff_len f < ff_maxLen f then ff_read f + ff_len f
                   else ff_read f + ff_len f - ff_maxLen f)"
  using assms by (auto simp: fifo_inv_def mod_if)

lemma read_cmd_fifo_law:
  assumes "fifo_inv f" and "n \<le> ff_len f"
  shows "\<exists>f'. read_cmd_fifo f n = Some (take n (fifo_bytes f), f') \<and> fifo_inv f'
           \<and> fifo_bytes f' = drop n (fifo_bytes f) \<and> fifo_room f' = fifo_room f + n
           \<and> ff_len f' = ff_len f - n"
proof -
  note inv = fifo_invD [OF assms(1)]
  let ?m = "ff_maxLen f"
  let ?r = "ff_read f"
  define buf where "buf =
    (if ?r + n > ?m then take (?m - ?r) (drop ?r (ff_cmd f)) @ take (n - (?m - ?r)) (ff_cmd f)
     else take n (drop ?r (ff_cmd f)))"
  have buf: "buf = take n (fifo_bytes f)"
    using inv assms(2) by (auto simp: buf_def fifo_bytes_def take_ring_view ring_read_wrap ring_view_linear)
  define f' where "f' = f\<lparr>ff_read := (?r + n) mod ?m, ff_len := ff_len f - n\<rparr>"
  have "read_cmd_fifo f n = Some (buf, f')"
    using inv assms(2) by (auto simp: read_cmd_fifo_def mem_read_def buf_def f'_def Let_def)
  moreover have "((?r + n) mod ?m + (ff_len f - n)) mod ?m = (?r + ff_len f) mod ?m"
    using assms(2) by (metis add.assoc le_add_diff_inverse mod_add_left_eq)
  then have "fifo_inv f'"
    using assms by (auto simp: fifo_inv_def f'_def)
  moreover have "fifo_bytes f' = drop n (fifo_bytes f)"
    using inv assms(2) by (simp add: fifo_bytes_def f'_def drop_ring_view ring_simps)
  ultimately show ?thesis
    using inv assms(2) buf by (auto simp: fifo_room_def f'_def)
qed

definition fifo_put :: "u8 list \<Rightarrow> cmd_fifo \<Rightarrow> cmd_fifo option" where
  "fifo_put xs f = do {
     (ret, f') \<leftarrow> write_cmd_fifo f xs;
     if ret = 0 then Some f' else None }"

lemma write_cmd_fifo_law:
  assumes "fifo_inv f" and "length xs \<le> fifo_room f"
  shows "\<exists>f'. write_cmd_fifo f xs = Some (0, f') \<and> fifo_inv f'
           \<and> fifo_bytes f' = fifo_bytes f @ xs \<and> fifo_room f' = fifo_room f - length xs
           \<and> ff_len f' = ff_len f + length xs"
proof -
  note inv = fifo_invD [OF assms(1)]
  let ?m = "ff_maxLen f" and ?w = "ff_write f" and ?n = "length xs"
  have w: "?w = (ff_read f + ff_len f) mod ?m" using assms(1) by (simp add: fifo_inv_def)
  have n: "ff_len f + ?n \<le> ?m" using assms(2) inv(5) by (simp add: fifo_room_def)
  have "\<exists>b. write_cmd_fifo f xs =
          Some (0, f\<lparr>ff_cmd := b, ff_len := ff_len f + ?n, ff_write := (?w + ?n) mod ?m\<rparr>)
        \<and> length b = length (ff_cmd f)
        \<and> ring_view (ff_read f) (ff_len f + ?n) ?m b = fifo_bytes f @ xs"
  proof (cases "?w + ?n \<le> ?m \<and> (?w + ?n < ?m \<or> ?w < ff_read f)")
    case True
    then obtain b where b: "mem_write ?w xs (ff_cmd f) = Some b"
      using inv by (auto simp: mem_simps)
    from ring_append_linear [OF b inv(2,4) w n] True
    have "ring_view (ff_read f) (ff_len f + ?n) ?m b = fifo_bytes f @ xs"
      by (simp add: fifo_bytes_def)
    then show ?thesis
      using True b inv(1-3) n mem_write_length [OF b]
      by (intro exI [of _ b]) (auto simp: write_cmd_fifo_def Let_def)
  next
    case False
    then have ge: "ff_read f \<le> ?w" "?m \<le> ?w + ?n"
      using inv n by (auto split: if_splits)
    let ?k = "?m - ?w"
    obtain b1 where b1: "mem_write ?w (take ?k xs) (ff_cmd f) = Some b1"
      using inv ge by (auto simp: mem_simps)
    obtain b2 where b2: "mem_write 0 (drop ?k xs) b1 = Some b2"
      using inv ge n mem_write_length [OF b1] by (auto simp: mem_simps)
    from ring_append_wrap [OF b1 b2 inv(2,4) w n ge(2)]
    have "ring_view (ff_read f) (ff_len f + ?n) ?m b2 = fifo_bytes f @ xs"
      by (simp add: fifo_bytes_def)
    moreover have "(?w + ?n) mod ?m = (?n - ?k) mod ?m"
    proof -
      have "?w + ?n = ?m + (?n - ?k)" using ge inv(6) by linarith
      then show ?thesis by (simp only: mod_add_self1)
    qed
    ultimately show ?thesis
      using ge b1 b2 inv(1-3,6) n mem_write_length [OF b1] mem_write_length [OF b2]
      by (intro exI [of _ b2]) (auto simp: write_cmd_fifo_def Let_def)
  qed
  then obtain b where b: "write_cmd_fifo f xs =
      Some (0, f\<lparr>ff_cmd := b, ff_len := ff_len f + ?n, ff_write := (?w + ?n) mod ?m\<rparr>)"
    "length b = length (ff_cmd f)"
    "ring_view (ff_read f) (ff_len f + ?n) ?m b = fifo_bytes f @ xs" by blast
  let ?f = "f\<lparr>ff_cmd := b, ff_len := ff_len f + ?n, ff_write := (?w + ?n) mod ?m\<rparr>"
  have "(?w + ?n) mod ?m = (ff_read f + (ff_len f + ?n)) mod ?m"
    by (simp add: w mod_simps add.assoc)
  then have "fifo_inv ?f"
    using inv(1-5,7) n b(2) by (simp add: fifo_inv_def)
  moreover have "fifo_bytes ?f = fifo_bytes f @ xs" "fifo_room ?f = fifo_room f - ?n"
    using b(3) by (simp_all add: fifo_bytes_def fifo_room_def)
  ultimately show ?thesis using b(1) by simp
qed

interpretation fifo: byte_queue fifo_inv fifo_bytes fifo_room fifo_put "\<lambda>n f. read_cmd_fifo f n"
proof (unfold_locales, goal_cases)
  case (1 f xs)
  from write_cmd_fifo_law [OF 1] show ?case by (auto simp: fifo_put_def)
next
  case (2 f n)
  then show ?case using read_cmd_fifo_law [of f n] by auto
qed

section \<open>The frame at the head of the queue\<close>

text \<open>What \<^verbatim>\<open>read_cmd_try_read\<close> decides, on the bytes of the queue.\<close>

definition frame_len :: "u8 list \<Rightarrow> nat option" where
  "frame_len bs =
     (if HEAD_SIZE + 4 \<le> length bs \<and> get_short bs 0 = SYNC_HEAD
         \<and> HEAD_SIZE + unat (get_short bs 14) + 4 \<le> length bs
      then Some (HEAD_SIZE + unat (get_short bs 14) + 4) else None)"

lemma get_short_take: "i + 1 < n \<Longrightarrow> get_short (take n bs) i = get_short bs i"
  by (simp add: get_short_def)

lemma read_cmd_try_read_law:
  assumes "fifo_inv f"
  shows "read_cmd_try_read f = Some (frame_len (fifo_bytes f))"
proof (cases "ff_len f \<ge> HEAD_SIZE + 4")
  case True
  note inv = fifo_invD [OF assms]
  let ?cmd = "take HEAD_SIZE (fifo_bytes f)"
  have "(if ff_maxLen f - ff_read f > HEAD_SIZE \<or> ff_maxLen f < ff_read f
         then mem_read (ff_read f) HEAD_SIZE (ff_cmd f)
         else do { x \<leftarrow> mem_read (ff_read f) (ff_maxLen f - ff_read f) (ff_cmd f);
                   y \<leftarrow> mem_read 0 (HEAD_SIZE - (ff_maxLen f - ff_read f)) (ff_cmd f);
                   Some (x @ y) }) = Some ?cmd"
    using inv True ring_read_wrap [OF inv(2,4), of HEAD_SIZE]
    by (auto simp: mem_simps fifo_bytes_def take_ring_view ring_view_linear not_less)
  then show ?thesis
    using True by (auto simp: read_cmd_try_read_def frame_len_def Let_def get_short_take HEAD_SIZE_def)
next
  case False
  then show ?thesis by (simp add: read_cmd_try_read_def frame_len_def)
qed

lemma frame_len_SomeD:
  assumes "frame_len bs = Some n"
  shows "n \<le> length bs" "20 \<le> n" "get_short bs 0 = SYNC_HEAD" "n = 20 + unat (get_short bs 14)"
  using assms by (auto simp: frame_len_def HEAD_SIZE_def split: if_splits)

lemma frame_len_append: "frame_len bs = Some n \<Longrightarrow> frame_len (bs @ cs) = Some n"
  by (auto simp: frame_len_def get_short_append1 HEAD_SIZE_def split: if_splits)

section \<open>Properties\<close>

text \<open>
  C8: the FIFO refines the byte-queue specification: every sequence of writes and reads the
  specification allows runs on the circular buffer without leaving it, wrap-around included, and
  gives the same bytes.
\<close>

theorem fifo_refines_byte_queue:
  assumes "fifo_inv f" and "spec_run ops (fifo_bytes f) (fifo_room f) = Some (outs, rest)"
  shows "\<exists>f'. queue_run fifo_put (\<lambda>n f. read_cmd_fifo f n) ops f = Some (outs, f')
    \<and> fifo_inv f' \<and> fifo_bytes f' = rest"
  using assms by (rule fifo.run_refines)

lemma fifo_refines_byte_queue_witness:
  "\<exists>f'. queue_run fifo_put (\<lambda>n f. read_cmd_fifo f n) [Put [3, 4, 5], Get 4]
      \<lparr>ff_cmd = [0, 0, 0, 1, 2], ff_read = 3, ff_write = 0, ff_len = 2, ff_maxLen = 5, ff_bInit = 1\<rparr>
    = Some ([[1, 2, 3, 4]], f') \<and> fifo_inv f' \<and> fifo_bytes f' = [5]"
  by (rule fifo_refines_byte_queue)
    (simp_all add: fifo_inv_def fifo_bytes_def fifo_room_def ring_view_def upt_rec)

end
