(* ===== verification/PackList.thy ===== *)
theory PackList
  imports CmdFifo
begin

text \<open>
  The list of received fragments (\<^verbatim>\<open>socket_cmd_list_t\<close>) of \<^verbatim>\<open>packsocket/packsocket.c\<close>, on an
  explicit heap: a map from addresses to nodes, where \<^verbatim>\<open>free\<close> removes the address, so that
  following a dangling pointer is \<open>None\<close>. The pointer operations are related to operations on
  the list of fragments by \<open>is_list\<close>.
\<close>

record socket_cmd_info =
  si_sync :: u16
  si_cmd :: u16
  si_ipnum :: u32
  si_curNo :: u16
  si_lastNo :: u16
  si_type :: u16
  si_length :: u16
  si_pValid :: "u8 list option"
  si_crc :: u32

record list_node =
  nd_info :: socket_cmd_info
  nd_next :: ptr

type_synonym list_heap = "ptr \<rightharpoonup> list_node"

section \<open>The pointer operations\<close>

text \<open>\<^verbatim>\<open>_addRecvList\<close>: the loop that looks for the last node, then the link.\<close>

partial_function (option) last_node :: "list_heap \<Rightarrow> ptr \<Rightarrow> ptr \<Rightarrow> ptr option" where
  "last_node h prev temp =
     (if temp = 0 then Some prev
      else case h temp of None \<Rightarrow> None | Some nd \<Rightarrow> last_node h temp (nd_next nd))"

definition addRecvList :: "list_heap \<Rightarrow> ptr \<Rightarrow> ptr \<Rightarrow> (list_heap \<times> ptr) option" where
  "addRecvList h head pSocketList =
     (if head = 0 then Some (h, pSocketList)
      else do {
        prev \<leftarrow> last_node h 0 head;
        nd \<leftarrow> h prev;
        Some (h(prev \<mapsto> nd\<lparr>nd_next := pSocketList\<rparr>), head) })"

text \<open>\<^verbatim>\<open>_checkRecvList2\<close>, with its two counters.\<close>

partial_function (option) checkRecvList2 :: "list_heap \<Rightarrow> u16 \<Rightarrow> ptr \<Rightarrow> int \<Rightarrow> int \<Rightarrow> int option" where
  "checkRecvList2 h cmd p totalnum num =
     (if p = 0 then Some 0
      else case h p of
        None \<Rightarrow> None
      | Some nd \<Rightarrow>
          (let match = (si_cmd (nd_info nd) = cmd);
               num' = (if match then num + 1 else num);
               totalnum' = (if match \<and> totalnum = -1 then uint (si_lastNo (nd_info nd)) + 1 else totalnum)
           in if num' = totalnum' then Some 1
              else checkRecvList2 h cmd (nd_next nd) totalnum' num'))"

text \<open>\<^verbatim>\<open>_destoryRecvList2\<close>: head and tail are relinked, a node between two others is not.\<close>

partial_function (option) destoryRecvList2 ::
  "u16 \<Rightarrow> list_heap \<Rightarrow> ptr \<Rightarrow> ptr \<Rightarrow> ptr \<Rightarrow> (list_heap \<times> ptr) option" where
  "destoryRecvList2 cmd h head prev tmp =
     (if tmp = 0 then Some (h, head)
      else case h tmp of
        None \<Rightarrow> None
      | Some nd \<Rightarrow>
          (if si_cmd (nd_info nd) = cmd then
             (let head' = (if prev = 0 then nd_next nd else head) in
              if nd_next nd = 0 \<and> prev \<noteq> 0 then
                (case h prev of
                   None \<Rightarrow> None
                 | Some pn \<Rightarrow>
                     destoryRecvList2 cmd ((h(prev \<mapsto> pn\<lparr>nd_next := 0\<rparr>))(tmp := None))
                       head' prev (nd_next nd))
              else destoryRecvList2 cmd (h(tmp := None)) head' prev (nd_next nd))
           else destoryRecvList2 cmd h head tmp (nd_next nd)))"

text \<open>\<^verbatim>\<open>_destoryRecvList\<close>: the whole list is freed.\<close>

partial_function (option) destoryRecvList :: "list_heap \<Rightarrow> ptr \<Rightarrow> list_heap option" where
  "destoryRecvList h p =
     (if p = 0 then Some h
      else case h p of None \<Rightarrow> None | Some nd \<Rightarrow> destoryRecvList (h(p := None)) (nd_next nd))"

text \<open>
  \<^verbatim>\<open>_addcmd\<close>: the payload grows by \<open>len\<close> bytes copied from \<open>pcmd\<close>; and the loop of
  \<^verbatim>\<open>parseSocketCmd\<close> that applies it to the fragments of one command.
\<close>

definition addcmd :: "u8 list \<Rightarrow> u8 list option \<Rightarrow> nat \<Rightarrow> u8 list option" where
  "addcmd acc pcmd len =
     (case pcmd of None \<Rightarrow> None | Some bs \<Rightarrow> map_option (\<lambda>xs. acc @ xs) (mem_read 0 len bs))"

partial_function (option) collect_cmd :: "list_heap \<Rightarrow> u16 \<Rightarrow> ptr \<Rightarrow> u8 list \<Rightarrow> u8 list option" where
  "collect_cmd h cmd p acc =
     (if p = 0 then Some acc
      else case h p of
        None \<Rightarrow> None
      | Some nd \<Rightarrow>
          (if unat (si_length (nd_info nd)) > 0 \<and> si_cmd (nd_info nd) = cmd then
             (case addcmd acc (si_pValid (nd_info nd)) (unat (si_length (nd_info nd))) of
                None \<Rightarrow> None
              | Some acc' \<Rightarrow> collect_cmd h cmd (nd_next nd) acc')
           else collect_cmd h cmd (nd_next nd) acc))"

section \<open>The list a heap represents\<close>

type_synonym frag = "ptr \<times> socket_cmd_info"

definition first_ptr :: "frag list \<Rightarrow> ptr" where
  "first_ptr xs = (case xs of [] \<Rightarrow> 0 | x # _ \<Rightarrow> fst x)"

lemma first_ptr_simps [simp]: "first_ptr [] = 0" "first_ptr (x # xs) = fst x"
  by (simp_all add: first_ptr_def)

primrec is_list :: "list_heap \<Rightarrow> frag list \<Rightarrow> bool" where
  "is_list h [] = True"
| "is_list h (x # xs) =
     (fst x \<noteq> 0 \<and> h (fst x) = Some \<lparr>nd_info = snd x, nd_next = first_ptr xs\<rparr> \<and> is_list h xs)"

lemma is_list_frame:
  "p \<notin> fst ` set xs \<Longrightarrow> is_list (h(p := v)) xs = is_list h xs"
  by (induction xs) auto

lemma first_ptr_0_iff: "is_list h xs \<Longrightarrow> first_ptr xs = 0 \<longleftrightarrow> xs = []"
  by (cases xs) auto

lemma is_list_snoc_link:
  assumes "is_list h (xs @ [(a, i)])" and "distinct (map fst (xs @ [(a, i)]))"
    and "p \<notin> insert a (fst ` set xs)" and "p \<noteq> 0" and "h p = Some \<lparr>nd_info = j, nd_next = 0\<rparr>"
  shows "is_list (h(a \<mapsto> \<lparr>nd_info = i, nd_next = p\<rparr>)) (xs @ [(a, i), (p, j)])"
  using assms
proof (induction xs)
  case Nil
  then show ?case by auto
next
  case (Cons x xs)
  then have "first_ptr (xs @ [(a, i), (p, j)]) = first_ptr (xs @ [(a, i)])"
    by (cases xs) auto
  with Cons show ?case by auto
qed

lemma last_node_is_list:
  assumes "is_list h (xs @ [(a, i)])"
  shows "last_node h prev (first_ptr (xs @ [(a, i)])) = Some a"
  using assms
proof (induction xs arbitrary: prev)
  case Nil
  then show ?case by (simp add: last_node.simps [of h prev a] last_node.simps [of h a 0])
next
  case (Cons x xs)
  then show ?case by (simp add: last_node.simps [of h prev "fst x"])
qed

lemma addRecvList_is_list:
  assumes "is_list h xs" and "distinct (map fst xs)"
    and "p \<noteq> 0" and "p \<notin> fst ` set xs" and "h p = Some \<lparr>nd_info = j, nd_next = 0\<rparr>"
  shows "\<exists>h'. addRecvList h (first_ptr xs) p = Some (h', first_ptr (xs @ [(p, j)]))
           \<and> is_list h' (xs @ [(p, j)]) \<and> dom h' = dom h
           \<and> (\<forall>q. q \<notin> fst ` set xs \<longrightarrow> h' q = h q)"
proof (cases xs rule: rev_cases)
  case Nil
  then show ?thesis using assms by (simp add: addRecvList_def)
next
  case (snoc ys y)
  obtain a i where y: "y = (a, i)" by force
  have last: "last_node h 0 (first_ptr xs) = Some a"
    using last_node_is_list assms(1) snoc y by blast
  have a: "h a = Some \<lparr>nd_info = i, nd_next = 0\<rparr>"
    using assms(1) unfolding snoc y by (induction ys) auto
  have "is_list (h(a \<mapsto> \<lparr>nd_info = i, nd_next = p\<rparr>)) (ys @ [(a, i), (p, j)])"
    using assms snoc y by (intro is_list_snoc_link) auto
  moreover have "first_ptr xs \<noteq> 0" using assms(1) snoc first_ptr_0_iff by blast
  moreover have "first_ptr (xs @ [(p, j)]) = first_ptr xs" using snoc by (cases ys) auto
  ultimately show ?thesis
    using last a snoc y by (auto simp: addRecvList_def)
qed

section \<open>Completeness test and payload\<close>

definition frags_of :: "u16 \<Rightarrow> frag list \<Rightarrow> socket_cmd_info list" where
  "frags_of cmd xs = filter (\<lambda>i. si_cmd i = cmd) (map snd xs)"

lemma frags_of_simps [simp]:
  "frags_of cmd [] = []"
  "frags_of cmd (x # xs) = (if si_cmd (snd x) = cmd then snd x # frags_of cmd xs else frags_of cmd xs)"
  "frags_of cmd (xs @ ys) = frags_of cmd xs @ frags_of cmd ys"
  by (simp_all add: frags_of_def)

definition complete :: "socket_cmd_info list \<Rightarrow> bool" where
  "complete is \<longleftrightarrow> is \<noteq> [] \<and> unat (si_lastNo (hd is)) < length is"

lemma checkRecvList2_counting:
  assumes "is_list h xs" and "k < t" and "0 \<le> k"
  shows "checkRecvList2 h cmd (first_ptr xs) t k =
    Some (if t \<le> k + int (length (frags_of cmd xs)) then 1 else 0)"
  using assms
proof (induction xs arbitrary: k)
  case Nil
  then show ?case by (simp add: checkRecvList2.simps [of h cmd 0])
next
  case (Cons x xs)
  have "checkRecvList2 h cmd (first_ptr xs) t (k + 1) =
      Some (if t \<le> k + 1 + int (length (frags_of cmd xs)) then 1 else 0)" if "k + 1 < t"
    using Cons that by auto
  with Cons show ?case
    by (auto simp: checkRecvList2.simps [of h cmd "fst x"] Let_def)
qed

lemma uint_le_int: "uint w \<le> int n \<longleftrightarrow> unat w \<le> n"
  by (simp add: uint_nat del: of_nat_unat)

lemma checkRecvList2_law:
  assumes "is_list h xs"
  shows "checkRecvList2 h cmd (first_ptr xs) (-1) 0 = Some (if complete (frags_of cmd xs) then 1 else 0)"
  using assms
proof (induction xs)
  case Nil
  then show ?case by (simp add: checkRecvList2.simps [of h cmd 0] complete_def)
next
  case (Cons x xs)
  show ?case
  proof (cases "si_cmd (snd x) = cmd")
    case True
    let ?t = "uint (si_lastNo (snd x)) + 1"
    have "checkRecvList2 h cmd (first_ptr xs) ?t 1 =
        Some (if ?t \<le> 1 + int (length (frags_of cmd xs)) then 1 else 0)" if "1 < ?t"
      using Cons that by (intro checkRecvList2_counting) auto
    moreover have "1 < ?t \<or> ?t = 1"
      using uint_ge_0 [of "si_lastNo (snd x)"] by linarith
    ultimately show ?thesis
      using True Cons.prems
      by (auto simp: checkRecvList2.simps [of h cmd "fst x"] Let_def complete_def uint_le_int
          less_Suc_eq_le uint_0_iff)
  next
    case False
    with Cons show ?thesis by (simp add: checkRecvList2.simps [of h cmd "fst x"] Let_def)
  qed
qed

text \<open>Fragments as \<^verbatim>\<open>parseSocketCmd\<close> builds them: a payload exactly when the length is positive.\<close>

definition info_ok :: "socket_cmd_info \<Rightarrow> bool" where
  "info_ok i \<longleftrightarrow> (case si_pValid i of None \<Rightarrow> si_length i = 0
                   | Some bs \<Rightarrow> length bs = unat (si_length i))"

definition payload :: "socket_cmd_info \<Rightarrow> u8 list" where
  "payload i = (case si_pValid i of None \<Rightarrow> [] | Some bs \<Rightarrow> bs)"

lemma collect_cmd_law:
  assumes "is_list h xs" and "\<forall>x \<in> set xs. info_ok (snd x)"
  shows "collect_cmd h cmd (first_ptr xs) acc = Some (acc @ concat (map payload (frags_of cmd xs)))"
  using assms
proof (induction xs arbitrary: acc)
  case Nil
  then show ?case by (simp add: collect_cmd.simps [of h cmd 0])
next
  case (Cons x xs)
  then show ?case
    by (auto simp: collect_cmd.simps [of h cmd "fst x"] addcmd_def mem_read_def info_ok_def payload_def
        unat_eq_0 split: option.splits)
qed

section \<open>Removing the fragments of one command\<close>

text \<open>
  On any well-formed list the removal returns, and frees exactly the fragments of the command.
  A kept node that is followed by a later kept node is left as it was, whatever was removed
  between the two.
\<close>

definition no_cmd :: "u16 \<Rightarrow> frag list \<Rightarrow> bool" where
  "no_cmd cmd xs \<longleftrightarrow> (\<forall>x \<in> set xs. si_cmd (snd x) \<noteq> cmd)"

definition all_cmd :: "u16 \<Rightarrow> frag list \<Rightarrow> bool" where
  "all_cmd cmd xs \<longleftrightarrow> (\<forall>x \<in> set xs. si_cmd (snd x) = cmd)"

lemma destory_unfold:
  "destoryRecvList2 cmd h hp prev 0 = Some (h, hp)"
  "\<lbrakk>is_list h (x # xs); si_cmd (snd x) \<noteq> cmd\<rbrakk> \<Longrightarrow>
    destoryRecvList2 cmd h hp prev (fst x) = destoryRecvList2 cmd h hp (fst x) (first_ptr xs)"
  "\<lbrakk>is_list h (x # xs); si_cmd (snd x) = cmd; xs \<noteq> [] \<or> prev = 0\<rbrakk> \<Longrightarrow>
    destoryRecvList2 cmd h hp prev (fst x) =
      destoryRecvList2 cmd (h(fst x := None)) (if prev = 0 then first_ptr xs else hp) prev (first_ptr xs)"
  "\<lbrakk>is_list h [x]; si_cmd (snd x) = cmd; prev \<noteq> 0; h prev = Some pn\<rbrakk> \<Longrightarrow>
    destoryRecvList2 cmd h hp prev (fst x) = Some ((h(prev \<mapsto> pn\<lparr>nd_next := 0\<rparr>))(fst x := None), hp)"
  by (auto simp: destoryRecvList2.simps [of cmd h hp prev] Let_def first_ptr_0_iff
      destoryRecvList2.simps [of cmd _ _ _ 0])

lemma destory_frees:
  assumes "is_list h xs" and "distinct (map fst xs)" and "prev \<notin> fst ` set xs"
    and "prev = 0 \<or> h prev = Some pn"
  shows "\<exists>h' hp'. destoryRecvList2 cmd h hp prev (first_ptr xs) = Some (h', hp')
    \<and> (\<forall>x \<in> set xs. si_cmd (snd x) = cmd \<longrightarrow> h' (fst x) = None)
    \<and> (\<forall>q. q \<notin> fst ` set xs \<longrightarrow> q \<noteq> prev \<longrightarrow> h' q = h q)
    \<and> (\<not> all_cmd cmd xs \<longrightarrow> h' prev = h prev)
    \<and> (\<forall>ys x zs. xs = ys @ x # zs \<longrightarrow> si_cmd (snd x) \<noteq> cmd \<longrightarrow> \<not> all_cmd cmd zs
          \<longrightarrow> h' (fst x) = h (fst x))"
  using assms
proof (induction xs arbitrary: h hp prev pn)
  case Nil
  then show ?case by (simp add: destory_unfold all_cmd_def)
next
  case (Cons x xs)
  show ?case
  proof (cases "si_cmd (snd x) = cmd")
    case match: True
    show ?thesis
    proof (cases "xs \<noteq> [] \<or> prev = 0")
      case True
      have "is_list (h(fst x := None)) xs" "prev = 0 \<or> (h(fst x := None)) prev = Some pn"
        using Cons.prems by (auto simp: is_list_frame)
      moreover have "distinct (map fst xs)" "prev \<notin> fst ` set xs" using Cons.prems by auto
      ultimately
      obtain h' hp' where *:
        "destoryRecvList2 cmd (h(fst x := None)) (if prev = 0 then first_ptr xs else hp) prev
           (first_ptr xs) = Some (h', hp')"
        "\<forall>x \<in> set xs. si_cmd (snd x) = cmd \<longrightarrow> h' (fst x) = None"
        "\<forall>q. q \<notin> fst ` set xs \<longrightarrow> q \<noteq> prev \<longrightarrow> h' q = (h(fst x := None)) q"
        "\<not> all_cmd cmd xs \<longrightarrow> h' prev = (h(fst x := None)) prev"
        "\<forall>ys y zs. xs = ys @ y # zs \<longrightarrow> si_cmd (snd y) \<noteq> cmd \<longrightarrow> \<not> all_cmd cmd zs
          \<longrightarrow> h' (fst y) = (h(fst x := None)) (fst y)"
        using Cons.IH [of "h(fst x := None)" prev pn "if prev = 0 then first_ptr xs else hp"] by blast
      have "destoryRecvList2 cmd h hp prev (first_ptr (x # xs)) = Some (h', hp')"
        using destory_unfold(3) [OF Cons.prems(1) match True] *(1) by simp
      moreover have "h' (fst y) = h (fst y)"
        if "x # xs = ys @ y # zs" "si_cmd (snd y) \<noteq> cmd" "\<not> all_cmd cmd zs" for ys y zs
      proof (cases ys)
        case Nil
        with that match show ?thesis by simp
      next
        case (Cons z zs')
        then have xs: "xs = zs' @ y # zs" and "fst y \<noteq> fst x" using that(1) Cons.prems(2) by auto
        then show ?thesis using *(5) [rule_format, OF xs that(2,3)] by simp
      qed
      ultimately show ?thesis
        using *(2-4) Cons.prems match by (intro exI [of _ h'] exI [of _ hp']) (auto simp: all_cmd_def)
    next
      case False
      then have "xs = []" "prev \<noteq> 0" "h prev = Some pn" using Cons.prems by auto
      with Cons.prems match show ?thesis
        by (auto simp: destory_unfold(4) all_cmd_def Cons_eq_append_conv)
    qed
  next
    case False
    have x: "fst x \<notin> fst ` set xs" "h (fst x) = Some \<lparr>nd_info = snd x, nd_next = first_ptr xs\<rparr>"
      using Cons.prems by auto
    have "is_list h xs" "distinct (map fst xs)" using Cons.prems by auto
    with x obtain h' hp' where *:
      "destoryRecvList2 cmd h hp (fst x) (first_ptr xs) = Some (h', hp')"
      "\<forall>x \<in> set xs. si_cmd (snd x) = cmd \<longrightarrow> h' (fst x) = None"
      "\<forall>q. q \<notin> fst ` set xs \<longrightarrow> q \<noteq> fst x \<longrightarrow> h' q = h q"
      "\<not> all_cmd cmd xs \<longrightarrow> h' (fst x) = h (fst x)"
      "\<forall>ys y zs. xs = ys @ y # zs \<longrightarrow> si_cmd (snd y) \<noteq> cmd \<longrightarrow> \<not> all_cmd cmd zs
        \<longrightarrow> h' (fst y) = h (fst y)"
      using Cons.IH [of h "fst x" "\<lparr>nd_info = snd x, nd_next = first_ptr xs\<rparr>" hp] by blast
    have "destoryRecvList2 cmd h hp prev (first_ptr (x # xs)) = Some (h', hp')"
      using destory_unfold(2) [OF Cons.prems(1) False] *(1) by simp
    moreover have "h' (fst y) = h (fst y)"
      if "x # xs = ys @ y # zs" "si_cmd (snd y) \<noteq> cmd" "\<not> all_cmd cmd zs" for ys y zs
    proof (cases ys)
      case Nil
      with that *(4) show ?thesis by simp
    next
      case (Cons z zs')
      then have xs: "xs = zs' @ y # zs" using that(1) by auto
      show ?thesis by (rule *(5) [rule_format, OF xs that(2,3)])
    qed
    ultimately show ?thesis
      using *(2,3) Cons.prems False by (intro exI [of _ h'] exI [of _ hp']) auto
  qed
qed

text \<open>
  When no removed fragment lies between two kept ones, the list that is left is the list of the
  kept fragments.
\<close>

lemma destory_lead:
  assumes "is_list h (as @ bs)" and "distinct (map fst (as @ bs))" and "all_cmd cmd as"
  shows "destoryRecvList2 cmd h hp 0 (first_ptr (as @ bs)) =
    destoryRecvList2 cmd (h |` (- fst ` set as)) (if as = [] then hp else first_ptr bs) 0 (first_ptr bs)"
  using assms
proof (induction as arbitrary: h hp)
  case Nil
  then show ?case by (simp add: restrict_map_def)
next
  case (Cons x as)
  have upd: "(h(fst x := None)) |` (- fst ` set as) = h |` (- fst ` set (x # as))"
    by (auto simp: restrict_map_def)
  have "fst x \<notin> fst ` set (as @ bs)" using Cons.prems(2) by auto
  then have "is_list (h(fst x := None)) (as @ bs)" "distinct (map fst (as @ bs))" "all_cmd cmd as"
    using Cons.prems is_list_frame [of "fst x" "as @ bs" h None] by (auto simp: all_cmd_def)
  note IH = Cons.IH [OF this, of "first_ptr (as @ bs)"]
  have "destoryRecvList2 cmd h hp 0 (first_ptr ((x # as) @ bs)) =
      destoryRecvList2 cmd (h(fst x := None)) (first_ptr (as @ bs)) 0 (first_ptr (as @ bs))"
    using destory_unfold(3) [of h x "as @ bs" cmd 0 hp] Cons.prems by (simp add: all_cmd_def)
  then show ?case
    unfolding IH upd by (cases "as = []") simp_all
qed

lemma destory_skip:
  assumes "is_list h (bs @ cs)" and "no_cmd cmd bs"
  shows "destoryRecvList2 cmd h hp prev (first_ptr (bs @ cs)) =
    destoryRecvList2 cmd h hp (if bs = [] then prev else fst (last bs)) (first_ptr cs)"
  using assms
proof (induction bs arbitrary: prev)
  case Nil
  then show ?case by simp
next
  case (Cons x bs)
  from Cons.IH [of "fst x"] Cons.prems show ?case
    using destory_unfold(2) [of h x "bs @ cs" cmd hp prev] by (simp add: no_cmd_def)
qed

lemma destory_trail:
  assumes "is_list h cs" and "distinct (map fst cs)" and "all_cmd cmd cs" and "cs \<noteq> []"
    and "prev \<notin> fst ` set cs" and "prev \<noteq> 0" and "h prev = Some pn"
  shows "destoryRecvList2 cmd h hp prev (first_ptr cs) =
    Some ((h(prev \<mapsto> pn\<lparr>nd_next := 0\<rparr>)) |` (- fst ` set cs), hp)"
  using assms
proof (induction cs arbitrary: h)
  case Nil
  then show ?case by simp
next
  case (Cons x cs)
  let ?h = "\<lambda>h. h(prev \<mapsto> pn\<lparr>nd_next := 0\<rparr>)"
  show ?case
  proof (cases "cs = []")
    case True
    have "(?h h)(fst x := None) = ?h h |` (- fst ` set [x])" by (auto simp: restrict_map_def)
    with True Cons.prems show ?thesis
      using destory_unfold(4) [of h x cmd prev pn hp]
      by (simp add: all_cmd_def del: fun_upd_apply)
  next
    case False
    have "is_list (h(fst x := None)) cs" "(h(fst x := None)) prev = Some pn"
      using Cons.prems by (auto simp: is_list_frame)
    then have "destoryRecvList2 cmd (h(fst x := None)) hp prev (first_ptr cs) =
        Some (?h (h(fst x := None)) |` (- fst ` set cs), hp)"
      using Cons.prems False by (intro Cons.IH) (simp_all add: all_cmd_def del: fun_upd_apply)
    moreover have "?h (h(fst x := None)) |` (- fst ` set cs) = ?h h |` (- fst ` set (x # cs))"
      using Cons.prems by (auto simp: restrict_map_def)
    moreover have "destoryRecvList2 cmd h hp prev (first_ptr (x # cs)) =
        destoryRecvList2 cmd (h(fst x := None)) hp prev (first_ptr cs)"
      using destory_unfold(3) [of h x cs cmd prev hp] Cons.prems False by (simp add: all_cmd_def)
    ultimately show ?thesis by (simp only:)
  qed
qed

lemma is_list_restrict: "fst ` set xs \<subseteq> A \<Longrightarrow> is_list (h |` A) xs = is_list h xs"
  by (induction xs) (auto simp: restrict_map_def)

lemma is_list_cut:
  assumes "is_list h (bs @ cs)" and "bs \<noteq> []" and "distinct (map fst bs)"
    and "h (fst (last bs)) = Some pn"
  shows "is_list (h(fst (last bs) \<mapsto> pn\<lparr>nd_next := 0\<rparr>)) bs"
  using assms
proof (induction bs)
  case Nil
  then show ?case by simp
next
  case (Cons x bs)
  have fp: "first_ptr (bs @ cs) = first_ptr bs" if "bs \<noteq> []" using that by (cases bs) auto
  have "fst (last bs) \<in> fst ` set bs" if "bs \<noteq> []" using that by simp
  then have "fst x \<noteq> fst (last bs)" if "bs \<noteq> []" using that Cons.prems(3) by auto
  with Cons fp show ?case by (cases "bs = []") auto
qed

lemma is_list_last:
  "is_list h (bs @ cs) \<Longrightarrow> bs \<noteq> [] \<Longrightarrow>
    fst (last bs) \<noteq> 0 \<and> (\<exists>pn. h (fst (last bs)) = Some pn)"
  by (induction bs) auto

lemma destory_law:
  assumes "is_list h (as @ bs @ cs)" and "distinct (map fst (as @ bs @ cs))"
    and "all_cmd cmd as" and "no_cmd cmd bs" and "all_cmd cmd cs"
  shows "\<exists>h'. destoryRecvList2 cmd h (first_ptr (as @ bs @ cs)) 0 (first_ptr (as @ bs @ cs))
            = Some (h', first_ptr bs) \<and> is_list h' bs
           \<and> (\<forall>q. q \<notin> fst ` set (as @ bs @ cs) \<longrightarrow> h' q = h q)"
proof (cases "bs = []")
  case True
  have "destoryRecvList2 cmd h (first_ptr (as @ cs)) 0 (first_ptr ((as @ cs) @ [])) =
      destoryRecvList2 cmd (h |` (- fst ` set (as @ cs))) 0 0 0"
    using assms True by (subst destory_lead) (auto simp: all_cmd_def)
  then show ?thesis using True by (auto simp: destory_unfold(1) restrict_map_def)
next
  case False
  let ?h = "h |` (- fst ` set as)"
  have l: "is_list h (as @ bs @ cs) \<Longrightarrow> is_list h (bs @ cs)" by (induction as) auto
  have disj: "fst ` set (bs @ cs) \<subseteq> - fst ` set as" using assms(2) by auto
  have bc: "is_list ?h (bs @ cs)"
    using l assms(1) by (simp only: is_list_restrict [OF disj])
  have fb: "first_ptr (bs @ cs) = first_ptr bs" using False by (cases bs) auto
  have run: "destoryRecvList2 cmd h (first_ptr (as @ bs @ cs)) 0 (first_ptr (as @ bs @ cs)) =
      destoryRecvList2 cmd ?h (first_ptr bs) (fst (last bs)) (first_ptr cs)"
    using destory_lead [OF assms(1,2,3)] destory_skip [OF bc assms(4)] False fb
    by (cases "as = []") auto
  from is_list_last [OF bc False] obtain pn where
    pn: "fst (last bs) \<noteq> 0" "?h (fst (last bs)) = Some pn" by blast
  show ?thesis
  proof (cases "cs = []")
    case True
    then show ?thesis using run bc by (auto simp: destory_unfold(1) restrict_map_def)
  next
    case cs: False
    have lc: "is_list ?h (bs @ cs) \<Longrightarrow> is_list ?h cs" by (induction bs) auto
    have last: "fst (last bs) \<in> fst ` set bs" using False by simp
    with assms(2) have nc: "fst (last bs) \<notin> fst ` set cs" by auto
    let ?h' = "(?h(fst (last bs) \<mapsto> pn\<lparr>nd_next := 0\<rparr>)) |` (- fst ` set cs)"
    have "destoryRecvList2 cmd ?h (first_ptr bs) (fst (last bs)) (first_ptr cs) = Some (?h', first_ptr bs)"
      using assms lc [OF bc] cs nc pn by (intro destory_trail) auto
    moreover have "is_list ?h' bs"
      using is_list_cut [OF bc False _ pn(2)] assms(2) by (subst is_list_restrict) auto
    ultimately show ?thesis
      using run last by (auto simp: restrict_map_def)
  qed
qed

lemma destory_head_kept:
  assumes "destoryRecvList2 cmd h hp prev (first_ptr us) = Some (h2, hp2)"
    and "is_list h us" "distinct (map fst us)" "prev \<noteq> 0" "prev \<notin> fst ` set us" "h prev = Some pn"
  shows "hp2 = hp"
  using assms
proof (induction us arbitrary: h prev pn)
  case Nil
  then show ?case by (simp add: destory_unfold(1))
next
  case (Cons y us)
  consider (last) "si_cmd (snd y) = cmd" "us = []" | (drop) "si_cmd (snd y) = cmd" "us \<noteq> []"
    | (keep) "si_cmd (snd y) \<noteq> cmd" by blast
  then show ?case
  proof cases
    case last
    with Cons.prems show ?thesis by (simp add: destory_unfold(4))
  next
    case drop
    have "is_list (h(fst y := None)) us" "(h(fst y := None)) prev = Some pn"
      using Cons.prems by (auto simp: is_list_frame)
    with Cons.prems drop destory_unfold(3) [of h y us cmd prev hp] show ?thesis
      by (intro Cons.IH [of "h(fst y := None)" prev pn]) (simp_all del: fun_upd_apply)
  next
    case keep
    with Cons.prems destory_unfold(2) [of h y us cmd hp prev] show ?thesis
      by (intro Cons.IH [of h "fst y"]) auto
  qed
qed

lemma is_list_nonzero: "is_list h xs \<Longrightarrow> 0 \<notin> fst ` set xs"
  by (induction xs) auto

text \<open>
  A fragment removed from between two kept ones leaves the first of them pointing at freed
  memory, so the next walk over the list is undefined.
\<close>

lemma destory_dangling:
  assumes "is_list h (x # z # zs)" and "distinct (map fst (x # z # zs))"
    and "si_cmd (snd x) \<noteq> cmd" and "si_cmd (snd z) = cmd" and "\<not> all_cmd cmd zs"
  shows "\<exists>h'. destoryRecvList2 cmd h (fst x) 0 (fst x) = Some (h', fst x)
           \<and> h' (fst x) = h (fst x) \<and> h' (fst z) = None"
proof -
  from destory_frees [where prev = 0 and hp = "fst x" and cmd = cmd,
      OF assms(1,2) is_list_nonzero [OF assms(1)]]
  obtain h' hp where
    h': "destoryRecvList2 cmd h (fst x) 0 (fst x) = Some (h', hp)"
      "\<forall>y \<in> set (x # z # zs). si_cmd (snd y) = cmd \<longrightarrow> h' (fst y) = None"
      "\<forall>ys y us. x # z # zs = ys @ y # us \<longrightarrow> si_cmd (snd y) \<noteq> cmd \<longrightarrow> \<not> all_cmd cmd us
         \<longrightarrow> h' (fst y) = h (fst y)"
    unfolding first_ptr_simps by blast
  have kept: "h' (fst x) = h (fst x)"
    using h'(3) [rule_format, of "[]" x "z # zs"] assms(3-5) by (simp add: all_cmd_def)
  have "destoryRecvList2 cmd h (fst x) (fst x) (first_ptr (z # zs)) = Some (h', hp)"
    using h'(1) destory_unfold(2) [OF assms(1,3), of "fst x" 0] by simp
  from destory_head_kept [OF this] assms(1,2) have hp: "hp = fst x" by auto
  have "h' (fst z) = None" using h'(2) assms(4) by simp
  then show ?thesis using h'(1) hp kept by blast
qed

lemma dangling_walk:
  assumes "h p = Some nd" and "nd_next nd = q" and "p \<noteq> 0" and "q \<noteq> 0" and "h q = None"
  shows "last_node h prev p = None"
  using assms by (simp add: last_node.simps [of h prev p] last_node.simps [of h p q])

end
