(* ===== verification/PackSocket.thy ===== *)
theory PackSocket
  imports PackList
begin

text \<open>
  The socket protocol of \<^verbatim>\<open>packsocket/packsocket.c\<close>: framing on the sending side, the receive
  FIFO, and \<^verbatim>\<open>parseSocketCmd\<close>, which takes frames out of the FIFO, keeps their payloads as
  fragments and delivers a command when its last fragment has come. \<^verbatim>\<open>malloc\<close> returns the next
  address never used before (\<open>sk_brk\<close>) and does not fail, as the source assumes.
\<close>

record socket_cmd =
  sc_cmd :: u16
  sc_type :: u16
  sc_ipnum :: u32
  sc_pcmd :: "u8 list"

record socket_cmd_class =
  sk_heap :: list_heap
  sk_head :: ptr
  sk_brk :: ptr
  sk_fifo :: cmd_fifo
  sk_sendPackageLen :: int
  sk_recvFifoLen :: int

definition PACKAGE_MAX_LEN :: int where "PACKAGE_MAX_LEN = 1600"

definition getPackageMaxLen :: int where "getPackageMaxLen = PACKAGE_MAX_LEN"

text \<open>
  \<^verbatim>\<open>init_socket_cmd_class\<close> on a zero-initialised object: the queue array gets its memory, the
  queue itself is set up on first use.
\<close>

definition init_socket_cmd_class :: "int \<Rightarrow> nat \<Rightarrow> socket_cmd_class" where
  "init_socket_cmd_class sendpackageLen recvFifoLen =
     \<lparr>sk_heap = Map.empty, sk_head = 0, sk_brk = 1,
      sk_fifo = \<lparr>ff_cmd = replicate recvFifoLen 0, ff_read = 0, ff_write = 0, ff_len = 0,
                 ff_maxLen = 0, ff_bInit = 0\<rparr>,
      sk_sendPackageLen = sendpackageLen, sk_recvFifoLen = int recvFifoLen\<rparr>"

text \<open>\<^verbatim>\<open>init_cmd_fifo\<close> with \<^verbatim>\<open>_initRecvCmdList\<close>.\<close>

definition ensure_init :: "socket_cmd_class \<Rightarrow> socket_cmd_class" where
  "ensure_init s =
     (if ff_bInit (sk_fifo s) \<noteq> 1
      then s\<lparr>sk_fifo := init_cmd_fifo (sk_fifo s), sk_head := 0\<rparr> else s)"

section \<open>Sending\<close>

text \<open>
  The frame \<^verbatim>\<open>sendSocketCmd\<close> builds. \<^verbatim>\<open>length\<close> is an \<^verbatim>\<open>unsigned short\<close>, so it and the bytes
  sent are the length modulo 65536; the copy of the payload reads \<open>len\<close> bytes.
\<close>

definition sock_frame ::
  "u32 \<Rightarrow> u32 \<Rightarrow> u16 \<Rightarrow> u16 \<Rightarrow> u8 list \<Rightarrow> u32 \<Rightarrow> u8 list option" where
  "sock_frame typeCmd ipnum curNo lastNo pData len = do {
     pValid \<leftarrow> (if len = 0 then Some [] else mem_read 0 (unat len) pData);
     let length16 = (ucast len :: u16);
     let valid = take (unat length16) pValid;
     let crc = (if len = 0 then 0 else crc32_le CRCPOLY_LE valid);
     Some (short2buffer SYNC_HEAD @ short2buffer (ucast (typeCmd AND 0xFFFF)) @ int2buffer ipnum
           @ short2buffer curNo @ short2buffer lastNo @ short2buffer (ucast (drop_bit 16 typeCmd))
           @ short2buffer length16 @ valid @ int2buffer crc)
   }"

text \<open>
  \<^verbatim>\<open>sendSocketCmd\<close>, with the system call \<open>send\<close> as a parameter that returns its result for
  the bytes it is given. The value is the return code and the bytes handed over.
\<close>

definition sendSocketCmd ::
  "(u8 list \<Rightarrow> int) \<Rightarrow> int \<Rightarrow> u32 \<Rightarrow> u32 \<Rightarrow> u16 \<Rightarrow> u16 \<Rightarrow> u8 list \<Rightarrow> u32
     \<Rightarrow> (int \<times> u8 list option) option" where
  "sendSocketCmd send sendFd typeCmd ipnum curNo lastNo pData len =
     (if sendFd = -1 then Some (-1, None)
      else do {
        bytes \<leftarrow> sock_frame typeCmd ipnum curNo lastNo pData len;
        Some (if send bytes \<le> 0 then -1 else 0, Some bytes)
      })"

section \<open>Receiving\<close>

definition recvSocketCmd :: "socket_cmd_class \<Rightarrow> u8 list \<Rightarrow> socket_cmd_class option" where
  "recvSocketCmd s pData =
     (let s' = ensure_init s in
      do {
        (ret, f) \<leftarrow> write_cmd_fifo (sk_fifo s') pData;
        if ret < 0 then Some s' else Some (s'\<lparr>sk_fifo := f\<rparr>)
      })"

text \<open>The fields of a frame, as \<^verbatim>\<open>parseSocketCmd\<close> reads them from its buffer.\<close>

definition decode_frame :: "u8 list \<Rightarrow> socket_cmd_info" where
  "decode_frame buf =
     (let validLen = get_short buf 14 in
      \<lparr>si_sync = SYNC_HEAD, si_cmd = get_short buf 2, si_ipnum = get_int buf 4,
       si_curNo = get_short buf 8, si_lastNo = get_short buf 10, si_type = get_short buf 12,
       si_length = validLen,
       si_pValid = (if unat validLen > 0 then Some (take (unat validLen) (drop HEAD_SIZE buf)) else None),
       si_crc = get_int buf (unat validLen + 16)\<rparr>)"

definition frame_crc_ok :: "u8 list \<Rightarrow> bool" where
  "frame_crc_ok buf =
     (let validLen = unat (get_short buf 14); crc = get_int buf (validLen + 16) in
      crc = 0 \<or> crc = crc32_le CRCPOLY_LE (take validLen (drop HEAD_SIZE buf)))"

text \<open>A new list node for a fragment, appended to the list.\<close>

definition add_fragment :: "socket_cmd_class \<Rightarrow> socket_cmd_info \<Rightarrow> socket_cmd_class option" where
  "add_fragment s info = do {
     let p = sk_brk s;
     (h, head) \<leftarrow> addRecvList ((sk_heap s)(p \<mapsto> \<lparr>nd_info = info, nd_next = 0\<rparr>)) (sk_head s) p;
     Some (s\<lparr>sk_heap := h, sk_head := head, sk_brk := p + 1\<rparr>)
   }"

text \<open>A frame is dropped when its checksum is neither zero nor right, and is a fragment otherwise.\<close>

definition absorb_frame :: "socket_cmd_class \<Rightarrow> u8 list \<Rightarrow> socket_cmd_class option" where
  "absorb_frame s buf = (if frame_crc_ok buf then add_fragment s (decode_frame buf) else Some s)"

partial_function (option) parse_loop ::
  "socket_cmd_class \<Rightarrow> (socket_cmd option \<times> socket_cmd_class) option" where
  "parse_loop s = do {
     readLen \<leftarrow> read_cmd_try_read (sk_fifo s);
     case readLen of
       None \<Rightarrow> Some (None, s)
     | Some len \<Rightarrow> do {
         (buf, f) \<leftarrow> read_cmd_fifo (sk_fifo s) len;
         let info = decode_frame buf;
         s2 \<leftarrow> absorb_frame (s\<lparr>sk_fifo := f\<rparr>) buf;
         ready \<leftarrow> checkRecvList2 (sk_heap s2) (si_cmd info) (sk_head s2) (-1) 0;
         if ready \<noteq> 0 then do {
           pcmd \<leftarrow> collect_cmd (sk_heap s2) (si_cmd info) (sk_head s2) [];
           (h, head) \<leftarrow> destoryRecvList2 (si_cmd info) (sk_heap s2) (sk_head s2) 0 (sk_head s2);
           Some (Some \<lparr>sc_cmd = si_cmd info, sc_type = si_type info, sc_ipnum = si_ipnum info,
                       sc_pcmd = pcmd\<rparr>,
                 s2\<lparr>sk_heap := h, sk_head := head\<rparr>)
         }
         else parse_loop s2
       }
   }"

definition parseSocketCmd ::
  "socket_cmd_class \<Rightarrow> (socket_cmd option \<times> socket_cmd_class) option" where
  "parseSocketCmd s = parse_loop (ensure_init s)"

section \<open>The state a class represents\<close>

text \<open>\<open>sock_rep s bs xs\<close>: the bytes not yet parsed are \<open>bs\<close>, the pending fragments are \<open>xs\<close>.\<close>

definition sock_rep :: "socket_cmd_class \<Rightarrow> u8 list \<Rightarrow> frag list \<Rightarrow> bool" where
  "sock_rep s bs xs \<longleftrightarrow> fifo_inv (sk_fifo s) \<and> fifo_bytes (sk_fifo s) = bs
     \<and> is_list (sk_heap s) xs \<and> distinct (map fst xs) \<and> sk_head s = first_ptr xs
     \<and> (\<forall>x \<in> set xs. fst x < sk_brk s \<and> info_ok (snd x)) \<and> 0 < sk_brk s"

lemma sock_repD:
  assumes "sock_rep s bs xs"
  shows "fifo_inv (sk_fifo s)" "fifo_bytes (sk_fifo s) = bs" "is_list (sk_heap s) xs"
    "distinct (map fst xs)" "sk_head s = first_ptr xs" "\<forall>x \<in> set xs. info_ok (snd x)"
    "sk_brk s \<notin> fst ` set xs" "0 < sk_brk s" "ensure_init s = s"
  using assms fifo_invD(7) [of "sk_fifo s"] by (auto simp: sock_rep_def ensure_init_def)

lemma decode_frame_ok:
  "frame_len bs = Some n \<Longrightarrow> info_ok (decode_frame (take n bs))"
  by (auto simp: info_ok_def decode_frame_def Let_def frame_len_def HEAD_SIZE_def get_short_take
      unat_eq_0 split: if_splits)

lemma add_fragment_rep:
  assumes "sock_rep s bs xs" and "info_ok info"
  shows "\<exists>s'. add_fragment s info = Some s' \<and> sock_rep s' bs (xs @ [(sk_brk s, info)])
           \<and> sk_fifo s' = sk_fifo s \<and> sk_brk s' = sk_brk s + 1"
proof -
  note r = sock_repD [OF assms(1)]
  let ?p = "sk_brk s"
  let ?h = "(sk_heap s)(?p \<mapsto> \<lparr>nd_info = info, nd_next = 0\<rparr>)"
  have "is_list ?h xs" using r by (simp add: is_list_frame del: fun_upd_apply)
  from addRecvList_is_list [OF this r(4) _ r(7)] r(8) obtain h' where
    h': "addRecvList ?h (first_ptr xs) ?p = Some (h', first_ptr (xs @ [(?p, info)]))"
    "is_list h' (xs @ [(?p, info)])" by fastforce
  then show ?thesis
    using r assms by (auto simp: add_fragment_def sock_rep_def Let_def)
qed

text \<open>The fragments after the frame \<open>buf\<close> has been taken in.\<close>

definition pending :: "ptr \<Rightarrow> u8 list \<Rightarrow> frag list \<Rightarrow> frag list" where
  "pending p buf xs = (if frame_crc_ok buf then xs @ [(p, decode_frame buf)] else xs)"

lemma parse_loop_none:
  assumes "sock_rep s bs xs" and "frame_len bs = None"
  shows "parse_loop s = Some (None, s)"
  using assms read_cmd_try_read_law [of "sk_fifo s"] sock_repD [OF assms(1)]
  by (simp add: parse_loop.simps [of s])

lemma parse_loop_take:
  assumes "sock_rep s bs xs" and "frame_len bs = Some n"
  defines "buf \<equiv> take n bs"
  defines "xs' \<equiv> pending (sk_brk s) buf xs"
  shows "\<exists>s2. sock_rep s2 (drop n bs) xs' \<and> sk_brk s \<le> sk_brk s2
    \<and> fifo_room (sk_fifo s2) = fifo_room (sk_fifo s) + n
    \<and> parse_loop s =
        (if complete (frags_of (si_cmd (decode_frame buf)) xs') then do {
           (h, head) \<leftarrow> destoryRecvList2 (si_cmd (decode_frame buf)) (sk_heap s2) (sk_head s2) 0 (sk_head s2);
           Some (Some \<lparr>sc_cmd = si_cmd (decode_frame buf), sc_type = si_type (decode_frame buf),
                       sc_ipnum = si_ipnum (decode_frame buf),
                       sc_pcmd = concat (map payload (frags_of (si_cmd (decode_frame buf)) xs'))\<rparr>,
                 s2\<lparr>sk_heap := h, sk_head := head\<rparr>) }
         else parse_loop s2)"
proof -
  note r = sock_repD [OF assms(1)]
  have len: "n \<le> ff_len (sk_fifo s)"
    using frame_len_SomeD(1) [OF assms(2)] r(2) length_fifo_bytes [of "sk_fifo s"] by simp
  from read_cmd_fifo_law [OF r(1) len] obtain f where
    f: "read_cmd_fifo (sk_fifo s) n = Some (buf, f)" "fifo_inv f" "fifo_bytes f = drop n bs"
      "fifo_room f = fifo_room (sk_fifo s) + n"
    using r(2) by (auto simp: buf_def)
  define s1 where "s1 = s\<lparr>sk_fifo := f\<rparr>"
  have s1: "sock_rep s1 (drop n bs) xs"
    using assms(1) f by (simp add: sock_rep_def s1_def)
  have "\<exists>s2. absorb_frame s1 buf = Some s2
      \<and> sock_rep s2 (drop n bs) xs' \<and> sk_brk s \<le> sk_brk s2 \<and> sk_fifo s2 = f"
    using add_fragment_rep [OF s1 decode_frame_ok [OF assms(2)]] s1
    by (auto simp: xs'_def pending_def s1_def buf_def absorb_frame_def)
  then obtain s2 where
    s2: "absorb_frame (s\<lparr>sk_fifo := f\<rparr>) buf = Some s2"
      "sock_rep s2 (drop n bs) xs'" "sk_brk s \<le> sk_brk s2" "sk_fifo s2 = f"
    unfolding s1_def by blast
  note r2 = sock_repD [OF s2(2)]
  have peek: "read_cmd_try_read (sk_fifo s) = Some (Some n)"
    using read_cmd_try_read_law [OF r(1)] r(2) assms(2) by simp
  show ?thesis
    using s2 f(4) collect_cmd_law [OF r2(3,6)] checkRecvList2_law [OF r2(3)] r2(5)
    by (intro exI [of _ s2]) (simp add: parse_loop.simps [of s] peek f(1) Let_def)
qed

lemma parse_loop_deliver:
  assumes "sock_rep s bs xs" and "frame_len bs = Some n"
    and "pending (sk_brk s) (take n bs) xs = as @ ys @ cs"
    and "cmd = si_cmd (decode_frame (take n bs))"
    and "all_cmd cmd as" "no_cmd cmd ys" "all_cmd cmd cs"
    and "complete (frags_of cmd (as @ cs))"
  shows "\<exists>s'. parse_loop s =
      Some (Some \<lparr>sc_cmd = cmd, sc_type = si_type (decode_frame (take n bs)),
                  sc_ipnum = si_ipnum (decode_frame (take n bs)),
                  sc_pcmd = concat (map payload (map snd (as @ cs)))\<rparr>, s')
    \<and> sock_rep s' (drop n bs) ys \<and> fifo_room (sk_fifo s') = fifo_room (sk_fifo s) + n"
proof -
  from parse_loop_take [OF assms(1,2)] obtain s2 where
    s2: "sock_rep s2 (drop n bs) (as @ ys @ cs)"
    and room: "fifo_room (sk_fifo s2) = fifo_room (sk_fifo s) + n"
    and eq: "parse_loop s =
        (if complete (frags_of cmd (as @ ys @ cs)) then do {
           (h, head) \<leftarrow> destoryRecvList2 cmd (sk_heap s2) (sk_head s2) 0 (sk_head s2);
           Some (Some \<lparr>sc_cmd = cmd, sc_type = si_type (decode_frame (take n bs)),
                       sc_ipnum = si_ipnum (decode_frame (take n bs)),
                       sc_pcmd = concat (map payload (frags_of cmd (as @ ys @ cs)))\<rparr>,
                 s2\<lparr>sk_heap := h, sk_head := head\<rparr>) }
         else parse_loop s2)"
    unfolding assms(3,4) by blast
  note r2 = sock_repD [OF s2]
  from destory_law [OF r2(3,4) assms(5-7)] obtain h' where
    h': "destoryRecvList2 cmd (sk_heap s2) (sk_head s2) 0 (sk_head s2) = Some (h', first_ptr ys)"
      "is_list h' ys" unfolding r2(5) by blast
  have all: "frags_of cmd zs = map snd zs" if "all_cmd cmd zs" for zs
    using that by (induction zs) (auto simp: all_cmd_def)
  have none: "frags_of cmd zs = []" if "no_cmd cmd zs" for zs
    using that by (induction zs) (auto simp: no_cmd_def)
  have "frags_of cmd (as @ ys @ cs) = frags_of cmd (as @ cs)"
    "frags_of cmd (as @ cs) = map snd (as @ cs)" by (simp_all add: all none assms(5-7))
  moreover have "sock_rep (s2\<lparr>sk_heap := h', sk_head := first_ptr ys\<rparr>) (drop n bs) ys"
    using s2 h'(2) by (auto simp: sock_rep_def)
  ultimately show ?thesis using eq h'(1) assms(8) room by auto
qed

section \<open>What the receiver makes of a sent frame\<close>

lemma ucast_of_nat_u16: "n < 65536 \<Longrightarrow> (ucast (of_nat n :: u32) :: u16) = of_nat n"
  by (simp add: unsigned_of_nat, rule arg_cong [where f = of_nat], rule take_bit_nat_eq_self) simp

lemma sock_frame_bytes:
  assumes "length p < 65536"
  shows "sock_frame tc ip cur lst p (of_nat (length p)) =
    Some (short2buffer SYNC_HEAD @ short2buffer (ucast (tc AND 0xFFFF)) @ int2buffer ip
          @ short2buffer cur @ short2buffer lst @ short2buffer (ucast (drop_bit 16 tc))
          @ short2buffer (of_nat (length p)) @ p
          @ int2buffer (if p = [] then 0 else crc32_le CRCPOLY_LE p))"
proof -
  define n where "n = (of_nat (length p) :: u32)"
  have n: "unat n = length p" "n = 0 \<longleftrightarrow> p = []"
    using assms by (simp_all add: n_def unat_of_nat flip: unat_eq_0)
  have n16: "(ucast n :: u16) = of_nat (length p)"
    unfolding n_def by (rule ucast_of_nat_u16 [OF assms])
  have "unat (of_nat (length p) :: u16) = length p"
    using assms by (simp add: unat_of_nat)
  then have t: "take (unat (of_nat (length p) :: u16)) p = p" by simp
  have rd: "(if n = 0 then Some [] else mem_read 0 (unat n) p) = Some p"
    using n by (auto simp: mem_read_def)
  show ?thesis
    unfolding n_def [symmetric] sock_frame_def rd n16 by (simp add: Let_def t n(2))
qed

lemma sock_frame_received:
  assumes "sock_frame tc ip cur lst p (of_nat (length p)) = Some fr" and "length p < 65536"
  shows "length fr = 20 + length p"
    and "frame_len (fr @ rest) = Some (length fr)"
    and "frame_crc_ok fr"
    and "decode_frame fr =
      \<lparr>si_sync = SYNC_HEAD, si_cmd = ucast (tc AND 0xFFFF), si_ipnum = ip, si_curNo = cur,
       si_lastNo = lst, si_type = ucast (drop_bit 16 tc), si_length = of_nat (length p),
       si_pValid = (if p = [] then None else Some p),
       si_crc = (if p = [] then 0 else crc32_le CRCPOLY_LE p)\<rparr>"
proof -
  let ?crc = "if p = [] then 0 else crc32_le CRCPOLY_LE p"
  have fr: "fr = short2buffer SYNC_HEAD @ short2buffer (ucast (tc AND 0xFFFF)) @ int2buffer ip
          @ short2buffer cur @ short2buffer lst @ short2buffer (ucast (drop_bit 16 tc))
          @ short2buffer (of_nat (length p)) @ p @ int2buffer ?crc"
    using assms(1) by (simp add: sock_frame_bytes [OF assms(2)])
  have len: "unat (of_nat (length p) :: u16) = length p"
    using assms(2) by (simp add: unat_of_nat)
  have f14: "get_short (fr @ rest) 14 = of_nat (length p)" for rest
    unfolding fr append_assoc by (simp add: wire_simps)
  have f0: "get_short (fr @ rest) 0 = SYNC_HEAD" for rest
    unfolding fr append_assoc by (simp add: wire_simps)
  have crc: "get_int fr (length p + 16) = ?crc"
    unfolding fr append_assoc by (simp add: wire_simps)
  have pay: "take (length p) (drop 16 fr) = p"
    unfolding fr append_assoc by (simp add: wire_simps)
  show lfr: "length fr = 20 + length p" by (simp add: fr)
  show "frame_len (fr @ rest) = Some (length fr)"
    by (simp add: frame_len_def HEAD_SIZE_def f0 f14 len lfr)
  note f14' = f14 [of "[]", simplified]
  show "frame_crc_ok fr"
    by (simp add: frame_crc_ok_def Let_def f14' len crc pay HEAD_SIZE_def)
  have "get_short fr 2 = ucast (tc AND 0xFFFF)" "get_int fr 4 = ip" "get_short fr 8 = cur"
    "get_short fr 10 = lst" "get_short fr 12 = ucast (drop_bit 16 tc)"
    unfolding fr append_assoc by (simp_all add: wire_simps)
  then show "decode_frame fr =
      \<lparr>si_sync = SYNC_HEAD, si_cmd = ucast (tc AND 0xFFFF), si_ipnum = ip, si_curNo = cur,
       si_lastNo = lst, si_type = ucast (drop_bit 16 tc), si_length = of_nat (length p),
       si_pValid = (if p = [] then None else Some p), si_crc = ?crc\<rparr>"
    by (simp add: decode_frame_def Let_def f14' len crc pay HEAD_SIZE_def)
qed

section \<open>Messages\<close>

text \<open>The frames of one command, from the payload number \<open>k\<close> on.\<close>

fun message_frames :: "u32 \<Rightarrow> u32 \<Rightarrow> nat \<Rightarrow> nat \<Rightarrow> u8 list list \<Rightarrow> u8 list list option" where
  "message_frames tc ip k lst [] = Some []"
| "message_frames tc ip k lst (p # ps) = do {
     fr \<leftarrow> sock_frame tc ip (of_nat k) (of_nat lst) p (of_nat (length p));
     frs \<leftarrow> message_frames tc ip (Suc k) lst ps;
     Some (fr # frs) }"

end
