(* ===== verification/PackService.thy ===== *)
theory PackService
  imports PackSocket
begin

text \<open>
  The receive loop of one connection (\<^verbatim>\<open>server_start\<close> of \<^verbatim>\<open>client.c\<close>) over the socket protocol:
  every chunk \<^verbatim>\<open>recv\<close> returns is put into the FIFO, and all complete commands are taken out
  and handed on before the next \<^verbatim>\<open>recv\<close>. The theorems state what the service delivers for a
  stream of well-formed messages, whatever the chunks, and where it stops delivering.
\<close>

section \<open>The loop\<close>

partial_function (option) drain ::
  "socket_cmd_class \<Rightarrow> (socket_cmd list \<times> socket_cmd_class) option" where
  "drain s = do {
     (pSocketCmd, s1) \<leftarrow> parseSocketCmd s;
     case pSocketCmd of
       None \<Rightarrow> Some ([], s1)
     | Some m \<Rightarrow> do {
         (ms, s2) \<leftarrow> drain s1;
         Some (m # ms, s2)
       }
   }"

text \<open>
  The argument lists what the successive calls of \<^verbatim>\<open>recv\<close> return; the empty list stands for a
  result that is zero or negative, which ends the connection.
\<close>

primrec serve ::
  "u8 list list \<Rightarrow> socket_cmd_class \<Rightarrow> (socket_cmd list \<times> socket_cmd_class) option" where
  "serve [] s = Some ([], s)"
| "serve (arg # args) s =
     (if arg = [] then Some ([], s)
      else do {
        s1 \<leftarrow> recvSocketCmd s arg;
        (ms, s2) \<leftarrow> drain s1;
        (ms', s3) \<leftarrow> serve args s2;
        Some (ms @ ms', s3)
      })"

section \<open>Single operations on the represented state\<close>

lemma init_rep:
  "sock_rep (ensure_init (init_socket_cmd_class n FIFO_MAX_LEN)) [] []
   \<and> fifo_room (sk_fifo (ensure_init (init_socket_cmd_class n FIFO_MAX_LEN))) = FIFO_MAX_LEN"
  by (simp add: sock_rep_def ensure_init_def init_socket_cmd_class_def init_cmd_fifo_def
      fifo_inv_def fifo_bytes_def fifo_room_def FIFO_MAX_LEN_def)

lemma recv_law:
  assumes "sock_rep s bs xs" and "length arg \<le> fifo_room (sk_fifo s)"
  shows "\<exists>s'. recvSocketCmd s arg = Some s' \<and> sock_rep s' (bs @ arg) xs
    \<and> fifo_room (sk_fifo s') = fifo_room (sk_fifo s) - length arg"
proof -
  note r = sock_repD [OF assms(1)]
  from write_cmd_fifo_law [OF r(1) assms(2)] obtain f where
    f: "write_cmd_fifo (sk_fifo s) arg = Some (0, f)" "fifo_inv f" "fifo_bytes f = bs @ arg"
      "fifo_room f = fifo_room (sk_fifo s) - length arg"
    using r(2) by auto
  then show ?thesis
    using assms(1) r(9) by (auto simp: recvSocketCmd_def Let_def sock_rep_def)
qed

lemma recv_full:
  assumes "sock_rep s bs xs" and "fifo_room (sk_fifo s) < length arg" and "length arg < 2 ^ 30"
  shows "recvSocketCmd s arg = Some s"
proof -
  note r = sock_repD [OF assms(1)]
  have "ff_maxLen (sk_fifo s) < wrap32 (ff_len (sk_fifo s) + length arg)"
    using fifo_invD [OF r(1)] assms(2,3) by (simp add: fifo_room_def)
  then have "write_cmd_fifo (sk_fifo s) arg = Some (-1, sk_fifo s)"
    by (simp add: write_cmd_fifo_def)
  then show ?thesis using r(9) by (simp add: recvSocketCmd_def)
qed

lemma parse_rep: "sock_rep s bs xs \<Longrightarrow> parseSocketCmd s = parse_loop s"
  by (simp add: parseSocketCmd_def sock_repD(9))

lemma drain_none:
  assumes "sock_rep s bs xs" and "frame_len bs = None"
  shows "drain s = Some ([], s)"
  using parse_loop_none [OF assms] by (simp add: drain.simps [of s] parse_rep [OF assms(1)])


section \<open>Where the service stops delivering\<close>

text \<open>
  Bytes at the head of the FIFO that are not a sync word, or announce a frame larger than the
  FIFO, are never removed.
\<close>

definition wedged :: "u8 list \<Rightarrow> bool" where
  "wedged bs \<longleftrightarrow> (2 \<le> length bs \<and> get_short bs 0 \<noteq> SYNC_HEAD)
     \<or> (16 \<le> length bs \<and> FIFO_MAX_LEN < HEAD_SIZE + unat (get_short bs 14) + 4)"

lemma wedged_append: "wedged bs \<Longrightarrow> wedged (bs @ cs)"
  by (auto simp: wedged_def get_short_append1)

lemma wedged_no_frame: "wedged bs \<Longrightarrow> length bs \<le> FIFO_MAX_LEN \<Longrightarrow> frame_len bs = None"
  by (auto simp: wedged_def frame_len_def)

lemma serve_wedged:
  assumes "sock_rep s bs xs" and "wedged bs" and "length bs + fifo_room (sk_fifo s) = FIFO_MAX_LEN"
    and "\<forall>arg \<in> set args. length arg \<le> FIFO_MAX_LEN div 2"
  shows "\<exists>s' bs'. serve args s = Some ([], s') \<and> sock_rep s' bs' xs \<and> wedged bs'
    \<and> length bs' + fifo_room (sk_fifo s') = FIFO_MAX_LEN"
  using assms
proof (induction args arbitrary: s bs)
  case Nil
  then show ?case by auto
next
  case (Cons arg args)
  show ?case
  proof (cases "arg = []")
    case True
    with Cons.prems show ?thesis by auto
  next
    case False
    have "\<exists>s1 bs1. recvSocketCmd s arg = Some s1 \<and> sock_rep s1 bs1 xs \<and> wedged bs1
        \<and> length bs1 + fifo_room (sk_fifo s1) = FIFO_MAX_LEN"
    proof (cases "length arg \<le> fifo_room (sk_fifo s)")
      case True
      from recv_law [OF Cons.prems(1) True] wedged_append [OF Cons.prems(2), of arg] Cons.prems(3) True
      show ?thesis by (metis add.assoc le_add_diff_inverse length_append)
    next
      case False
      moreover have "length arg < 2 ^ 30" using Cons.prems(4) by (simp add: FIFO_MAX_LEN_def)
      ultimately show ?thesis using recv_full [OF Cons.prems(1)] Cons.prems by auto
    qed
    then obtain s1 bs1 where
      s1: "recvSocketCmd s arg = Some s1" "sock_rep s1 bs1 xs" "wedged bs1"
        "length bs1 + fifo_room (sk_fifo s1) = FIFO_MAX_LEN" by blast
    have "drain s1 = Some ([], s1)"
      using s1 by (intro drain_none [OF s1(2)] wedged_no_frame) auto
    with Cons.IH [OF s1(2-4)] Cons.prems(4) s1(1) False show ?thesis by auto
  qed
qed

section \<open>A stream of frames\<close>

text \<open>
  What taking the fragments \<open>js\<close> in, one after the other, delivers when the fragments \<open>is\<close> are
  pending: a command as soon as the pending fragments are as many as the first of them says.
\<close>

definition deliver :: "socket_cmd_info list \<Rightarrow> socket_cmd" where
  "deliver is =
     \<lparr>sc_cmd = si_cmd (last is), sc_type = si_type (last is), sc_ipnum = si_ipnum (last is),
      sc_pcmd = concat (map payload is)\<rparr>"

fun spec_stream ::
  "socket_cmd_info list \<Rightarrow> socket_cmd_info list \<Rightarrow> socket_cmd list \<times> socket_cmd_info list" where
  "spec_stream is [] = ([], is)"
| "spec_stream is (j # js) =
     (let is' = is @ [j] in
      if complete is'
      then (let (ms, rest) = spec_stream [] js in (deliver is' # ms, rest))
      else spec_stream is' js)"

text \<open>The fragments of a command are not interleaved with those of another.\<close>

fun orderly :: "socket_cmd_info list \<Rightarrow> socket_cmd_info list \<Rightarrow> bool" where
  "orderly is [] = True"
| "orderly is (j # js) =
     ((\<forall>i \<in> set is. si_cmd i = si_cmd j)
      \<and> (if complete (is @ [j]) then orderly [] js else orderly (is @ [j]) js))"

text \<open>A frame the receiver accepts, within the half of the FIFO that one \<^verbatim>\<open>recv\<close> may fill.\<close>

definition good_frame :: "u8 list \<Rightarrow> bool" where
  "good_frame fr \<longleftrightarrow> frame_len fr = Some (length fr) \<and> frame_crc_ok fr
     \<and> length fr \<le> FIFO_MAX_LEN div 2"

lemma frags_of_all: "all_cmd cmd xs \<Longrightarrow> frags_of cmd xs = map snd xs"
  by (induction xs) (auto simp: all_cmd_def)

lemma drain_frames:
  assumes "sock_rep s (concat frs @ rest) xs" and "\<forall>fr \<in> set frs. good_frame fr"
    and "frame_len rest = None" and "orderly (map snd xs) (map decode_frame frs)"
  shows "\<exists>s' xs'. drain s = Some (fst (spec_stream (map snd xs) (map decode_frame frs)), s')
    \<and> sock_rep s' rest xs' \<and> map snd xs' = snd (spec_stream (map snd xs) (map decode_frame frs))
    \<and> fifo_room (sk_fifo s') = fifo_room (sk_fifo s) + length (concat frs)"
  using assms
proof (induction frs arbitrary: s xs)
  case Nil
  with drain_none [of s rest xs] show ?case by auto
next
  case (Cons fr frs)
  let ?j = "decode_frame fr"
  have good: "frame_len fr = Some (length fr)" "frame_crc_ok fr"
    using Cons.prems(2) by (auto simp: good_frame_def)
  have fl: "frame_len (concat (fr # frs) @ rest) = Some (length fr)"
    using frame_len_append [OF good(1), of "concat frs @ rest"] by simp
  have td: "take (length fr) (concat (fr # frs) @ rest) = fr"
    "drop (length fr) (concat (fr # frs) @ rest) = concat frs @ rest" by simp_all
  have pend: "pending (sk_brk s) fr xs = xs @ [(sk_brk s, ?j)]"
    by (simp add: pending_def good(2))
  have all: "all_cmd (si_cmd ?j) (xs @ [(sk_brk s, ?j)])"
    using Cons.prems(4) by (auto simp: all_cmd_def)
  note fo = frags_of_all [OF all]
  show ?case
  proof (cases "complete (map snd xs @ [?j])")
    case True
    have "\<exists>s'. parse_loop s = Some (Some (deliver (map snd xs @ [?j])), s')
      \<and> sock_rep s' (concat frs @ rest) [] \<and> fifo_room (sk_fifo s') = fifo_room (sk_fifo s) + length fr"
      using parse_loop_deliver [OF Cons.prems(1) fl, unfolded td,
          of "xs @ [(sk_brk s, ?j)]" "[]" "[]" "si_cmd ?j"] pend all fo True
      by (simp add: deliver_def no_cmd_def all_cmd_def)
    then obtain s1 where
      s1: "parse_loop s = Some (Some (deliver (map snd xs @ [?j])), s1)"
        "sock_rep s1 (concat frs @ rest) []" "fifo_room (sk_fifo s1) = fifo_room (sk_fifo s) + length fr"
      by blast
    with Cons.IH [OF s1(2)] Cons.prems True show ?thesis
      by (auto simp: drain.simps [of s] parse_rep [OF Cons.prems(1)] Let_def split: prod.splits)
  next
    case False
    have "\<exists>s2. parse_loop s = parse_loop s2 \<and> sock_rep s2 (concat frs @ rest) (xs @ [(sk_brk s, ?j)])
      \<and> fifo_room (sk_fifo s2) = fifo_room (sk_fifo s) + length fr"
      using parse_loop_take [OF Cons.prems(1) fl, unfolded td pend fo] False by auto
    then obtain s2 where
      s2: "parse_loop s = parse_loop s2" "sock_rep s2 (concat frs @ rest) (xs @ [(sk_brk s, ?j)])"
        "fifo_room (sk_fifo s2) = fifo_room (sk_fifo s) + length fr" by blast
    have "drain s = drain s2"
      by (simp add: drain.simps [of s] drain.simps [of s2] parse_rep [OF Cons.prems(1)]
          parse_rep [OF s2(2)] s2(1))
    with Cons.IH [OF s2(2)] Cons.prems False s2(3) show ?thesis by (auto simp: Let_def)
  qed
qed


lemma good_frame_prefix:
  assumes "good_frame fr" and "fr = bs @ cs" and "cs \<noteq> []"
  shows "frame_len bs = None"
proof (rule ccontr)
  assume "frame_len bs \<noteq> None"
  then obtain n where n: "frame_len bs = Some n" by blast
  from frame_len_append [OF n, of cs] assms(1,2) have "n = length fr" by (simp add: good_frame_def)
  with frame_len_SomeD(1) [OF n] assms(2,3) show False by simp
qed

lemma split_at_frame:
  assumes "\<forall>fr \<in> set frs. good_frame fr" and "bs @ ys = concat frs"
  shows "\<exists>frs1 frs2 rest. frs = frs1 @ frs2 \<and> bs = concat frs1 @ rest \<and> rest @ ys = concat frs2
    \<and> frame_len rest = None"
  using assms
proof (induction frs arbitrary: bs)
  case Nil
  then show ?case by (simp add: frame_len_def HEAD_SIZE_def)
next
  case (Cons fr frs)
  show ?case
  proof (cases "length fr \<le> length bs")
    case True
    with Cons.prems(2) obtain bs' where bs': "bs = fr @ bs'" "bs' @ ys = concat frs"
      by (auto simp: append_eq_append_conv2)
    from Cons.IH [OF _ bs'(2)] Cons.prems(1) obtain frs1 frs2 rest where
      "frs = frs1 @ frs2" "bs' = concat frs1 @ rest" "rest @ ys = concat frs2" "frame_len rest = None"
      by auto
    with bs'(1) show ?thesis
      by (intro exI [of _ "fr # frs1"] exI [of _ frs2] exI [of _ rest]) auto
  next
    case False
    with Cons.prems(2) obtain cs where "fr = bs @ cs" "cs \<noteq> []"
      by (auto simp: append_eq_append_conv2)
    with good_frame_prefix [of fr bs cs] Cons.prems show ?thesis
      by (intro exI [of _ "[]"] exI [of _ "fr # frs"] exI [of _ bs]) auto
  qed
qed

lemma spec_stream_append:
  "spec_stream is (js @ ks) =
    (let (ms, is') = spec_stream is js; (ms', is'') = spec_stream is' ks in (ms @ ms', is''))"
  by (induction js arbitrary: "is") (auto simp: Let_def split: prod.splits)

lemma orderly_append:
  "orderly is (js @ ks) \<longleftrightarrow> orderly is js \<and> orderly (snd (spec_stream is js)) ks"
  by (induction js arbitrary: "is") (auto simp: Let_def split: prod.splits)

lemma serve_stream:
  assumes "sock_rep s bs xs" and "length bs + fifo_room (sk_fifo s) = FIFO_MAX_LEN"
    and "frame_len bs = None" and "\<forall>fr \<in> set frs. good_frame fr"
    and "\<forall>arg \<in> set args. arg \<noteq> [] \<and> length arg \<le> FIFO_MAX_LEN div 2"
    and "bs @ concat args = concat frs" and "orderly (map snd xs) (map decode_frame frs)"
  shows "\<exists>s' xs'. serve args s = Some (fst (spec_stream (map snd xs) (map decode_frame frs)), s')
    \<and> sock_rep s' [] xs' \<and> map snd xs' = snd (spec_stream (map snd xs) (map decode_frame frs))
    \<and> fifo_room (sk_fifo s') = FIFO_MAX_LEN"
  using assms
proof (induction args arbitrary: s bs xs frs)
  case Nil
  have "frs = []"
  proof (cases frs)
    case (Cons fr frs')
    with frame_len_append [of fr "length fr" "concat frs'"] Nil show ?thesis
      by (simp add: good_frame_def)
  qed
  with Nil show ?case by auto
next
  case (Cons arg args)
  from split_at_frame [OF Cons.prems(4), of "bs @ arg" "concat args"] Cons.prems(6)
  obtain frs1 frs2 rest where
    sp: "frs = frs1 @ frs2" "bs @ arg = concat frs1 @ rest" "rest @ concat args = concat frs2"
      "frame_len rest = None" by auto
  have "length bs \<le> FIFO_MAX_LEN div 2"
  proof (cases frs)
    case (Cons fr frs')
    then have fr: "frame_len (fr @ concat frs') = Some (length fr)" "length fr \<le> FIFO_MAX_LEN div 2"
      using Cons.prems(4) frame_len_append by (auto simp: good_frame_def)
    show ?thesis
    proof (rule ccontr)
      assume "\<not> ?thesis"
      with fr(2) Cons.prems(6) Cons obtain cs where "bs = fr @ cs"
        by (auto simp: append_eq_append_conv2)
      moreover have "frame_len fr = Some (length fr)"
        using Cons.prems(4) Cons by (auto simp: good_frame_def)
      ultimately show False using Cons.prems(3) frame_len_append [of fr "length fr" cs] by simp
    qed
  qed (use Cons.prems(6) in simp)
  then have "length arg \<le> fifo_room (sk_fifo s)"
    using Cons.prems(2,5) by (auto simp: FIFO_MAX_LEN_def)
  from recv_law [OF Cons.prems(1) this] obtain s1 where
    s1: "recvSocketCmd s arg = Some s1" "sock_rep s1 (concat frs1 @ rest) xs"
      "length (bs @ arg) + fifo_room (sk_fifo s1) = FIFO_MAX_LEN"
    unfolding sp(2) [symmetric] using Cons.prems(2) \<open>length arg \<le> _\<close> by auto
  from Cons.prems(7) have ord: "orderly (map snd xs) (map decode_frame frs1)"
    "orderly (snd (spec_stream (map snd xs) (map decode_frame frs1))) (map decode_frame frs2)"
    by (simp_all add: sp(1) orderly_append)
  from drain_frames [OF s1(2) _ sp(4) ord(1)] Cons.prems(4) obtain s2 ys where
    s2: "drain s1 = Some (fst (spec_stream (map snd xs) (map decode_frame frs1)), s2)"
      "sock_rep s2 rest ys" "map snd ys = snd (spec_stream (map snd xs) (map decode_frame frs1))"
      "fifo_room (sk_fifo s2) = fifo_room (sk_fifo s1) + length (concat frs1)"
    unfolding sp(1) by auto
  have "length rest + fifo_room (sk_fifo s2) = FIFO_MAX_LEN"
    using s1(3) s2(4) unfolding sp(2) by simp
  from Cons.IH [OF s2(2) this sp(4) _ _ sp(3)] Cons.prems(4,5) ord(2) sp(1) s2(3) obtain s3 zs where
    "serve args s2 = Some (fst (spec_stream (map snd ys) (map decode_frame frs2)), s3)"
    "sock_rep s3 [] zs" "map snd zs = snd (spec_stream (map snd ys) (map decode_frame frs2))"
    "fifo_room (sk_fifo s3) = FIFO_MAX_LEN" by auto
  with s1(1) s2(1,3) Cons.prems(5) show ?case
    by (intro exI [of _ s3] exI [of _ zs])
      (simp add: sp(1) spec_stream_append Let_def split: prod.splits)
qed


section \<open>Messages\<close>

text \<open>A message is a type and command word, an address and the payloads of its fragments.\<close>

type_synonym message = "u32 \<times> u32 \<times> u8 list list"

primrec stream_frames :: "message list \<Rightarrow> u8 list list option" where
  "stream_frames [] = Some []"
| "stream_frames (m # ms) =
     (case m of (tc, ip, ps) \<Rightarrow> do {
        frs \<leftarrow> message_frames tc ip 0 (length ps - 1) ps;
        rest \<leftarrow> stream_frames ms;
        Some (frs @ rest) })"

definition message_ok :: "message \<Rightarrow> bool" where
  "message_ok m = (case m of (tc, ip, ps) \<Rightarrow>
     ps \<noteq> [] \<and> length ps \<le> 65536 \<and> (\<forall>p \<in> set ps. length p \<le> FIFO_MAX_LEN div 2 - 20))"

definition delivered :: "message \<Rightarrow> socket_cmd" where
  "delivered m = (case m of (tc, ip, ps) \<Rightarrow>
     \<lparr>sc_cmd = ucast (tc AND 0xFFFF), sc_type = ucast (drop_bit 16 tc), sc_ipnum = ip,
      sc_pcmd = concat ps\<rparr>)"

lemma good_sock_frame:
  assumes "sock_frame tc ip cur lst p (of_nat (length p)) = Some fr"
    and "length p \<le> FIFO_MAX_LEN div 2 - 20"
  shows "good_frame fr"
proof -
  have "length p < 65536" using assms(2) by (simp add: FIFO_MAX_LEN_def)
  from sock_frame_received [OF assms(1) this] assms(2) show ?thesis
    using sock_frame_received(2) [OF assms(1) \<open>length p < 65536\<close>, of "[]"]
    by (simp add: good_frame_def FIFO_MAX_LEN_def)
qed

lemma message_spec:
  assumes "message_frames tc ip k lst ps = Some frs" and "ps \<noteq> []" and "lst < 65536"
    and "length is + length ps = Suc lst"
    and "\<forall>p \<in> set ps. length p \<le> FIFO_MAX_LEN div 2 - 20"
    and "\<forall>i \<in> set is. si_cmd i = ucast (tc AND 0xFFFF) \<and> si_lastNo i = of_nat lst"
  shows "(\<forall>fr \<in> set frs. good_frame fr) \<and> orderly is (map decode_frame frs)
    \<and> spec_stream is (map decode_frame frs) =
       ([\<lparr>sc_cmd = ucast (tc AND 0xFFFF), sc_type = ucast (drop_bit 16 tc), sc_ipnum = ip,
          sc_pcmd = concat (map payload is) @ concat ps\<rparr>], [])"
  using assms
proof (induction ps arbitrary: "is" k frs)
  case Nil
  then show ?case by simp
next
  case (Cons p ps)
  from Cons.prems(1) obtain fr frs' where
    fr: "sock_frame tc ip (of_nat k) (of_nat lst) p (of_nat (length p)) = Some fr"
    and frs': "message_frames tc ip (Suc k) lst ps = Some frs'" and frs: "frs = fr # frs'"
    by (auto simp: Option_bind_Some_iff)
  have p: "length p < 65536" using Cons.prems(5) by (simp add: FIFO_MAX_LEN_def)
  have j: "si_cmd (decode_frame fr) = ucast (tc AND 0xFFFF)" "si_ipnum (decode_frame fr) = ip"
    "si_lastNo (decode_frame fr) = of_nat lst" "si_type (decode_frame fr) = ucast (drop_bit 16 tc)"
    "payload (decode_frame fr) = p"
    by (simp_all add: sock_frame_received(4) [OF fr p] payload_def)
  have good: "good_frame fr" using good_sock_frame [OF fr] Cons.prems(5) by simp
  let ?is = "is @ [decode_frame fr]"
  have lst: "unat (of_nat lst :: u16) = lst" using Cons.prems(3) by (simp add: unat_of_nat)
  have "si_lastNo (hd ?is) = of_nat lst" using Cons.prems(6) by (cases "is") (auto simp: j)
  then have cpl: "complete ?is \<longleftrightarrow> ps = []"
    using Cons.prems(4) by (cases ps) (auto simp: complete_def lst)
  show ?case
  proof (cases "ps = []")
    case True
    with cpl frs' good Cons.prems(6) show ?thesis
      by (auto simp: frs j deliver_def)
  next
    case False
    with Cons.IH [OF frs' False Cons.prems(3), of ?is] cpl good Cons.prems(4-6) show ?thesis
      by (auto simp: frs j Let_def)
  qed
qed

lemma stream_spec:
  assumes "stream_frames ms = Some frs" and "\<forall>m \<in> set ms. message_ok m"
  shows "(\<forall>fr \<in> set frs. good_frame fr) \<and> orderly [] (map decode_frame frs)
    \<and> spec_stream [] (map decode_frame frs) = (map delivered ms, [])"
  using assms
proof (induction ms arbitrary: frs)
  case Nil
  then show ?case by simp
next
  case (Cons m ms)
  obtain tc ip ps where m: "m = (tc, ip, ps)" by (cases m)
  with Cons.prems(1) obtain frs1 frs2 where
    "message_frames tc ip 0 (length ps - 1) ps = Some frs1" "stream_frames ms = Some frs2"
    and frs: "frs = frs1 @ frs2" by (auto simp: Option_bind_Some_iff)
  moreover have "ps \<noteq> []" "length ps - 1 < 65536" "\<forall>p \<in> set ps. length p \<le> FIFO_MAX_LEN div 2 - 20"
    using Cons.prems(2) m by (auto simp: message_ok_def)
  ultimately show ?case
    using message_spec [of tc ip 0 "length ps - 1" ps frs1 "[]"] Cons.IH [of frs2] Cons.prems(2)
    by (auto simp: orderly_append spec_stream_append m delivered_def)
qed

lemma serve_from_init:
  assumes "args \<noteq> []" and "hd args \<noteq> []"
  shows "serve args s = serve args (ensure_init s)"
proof -
  have "ensure_init (ensure_init s) = ensure_init s"
    by (simp add: ensure_init_def init_cmd_fifo_def)
  with assms show ?thesis by (cases args) (simp_all add: recvSocketCmd_def)
qed


section \<open>Properties\<close>

text \<open>
  C1: the byte stream of any sequence of well-formed messages, cut into chunks at any places, is
  turned back into exactly these messages in their order, and nothing stays pending: the FIFO is
  empty, the fragment list is empty, and no chunk is refused for lack of room.
\<close>

theorem stream_delivered:
  assumes "stream_frames ms = Some frs" and "\<forall>m \<in> set ms. message_ok m"
    and "args \<noteq> []" and "\<forall>arg \<in> set args. arg \<noteq> [] \<and> length arg \<le> FIFO_MAX_LEN div 2"
    and "concat args = concat frs"
  shows "\<exists>s'. serve args (init_socket_cmd_class n FIFO_MAX_LEN) = Some (map delivered ms, s')
    \<and> sock_rep s' [] [] \<and> fifo_room (sk_fifo s') = FIFO_MAX_LEN"
proof -
  let ?s = "ensure_init (init_socket_cmd_class n FIFO_MAX_LEN)"
  have eq: "serve args (init_socket_cmd_class n FIFO_MAX_LEN) = serve args ?s"
    using assms(3,4) by (intro serve_from_init) (cases args, auto)
  have "sock_rep ?s [] []" "length ([] :: u8 list) + fifo_room (sk_fifo ?s) = FIFO_MAX_LEN"
    using init_rep by simp_all
  from serve_stream [OF this _ _ assms(4), of frs] stream_spec [OF assms(1,2)] assms(5) show ?thesis
    by (auto simp: eq frame_len_def HEAD_SIZE_def)
qed

lemma stream_delivered_witness:
  "\<exists>s'. serve [[71, 71, 0, 2, 0], [0, 0, 7, 0, 0, 0, 1, 0, 1, 0, 2, 1, 2, 22, 32, 75, 237, 71, 71, 0],
      [2, 0, 0, 0, 7, 0, 1, 0, 1, 0, 1, 0, 1, 3, 162, 138, 201, 241]]
      (init_socket_cmd_class 1600 FIFO_MAX_LEN) =
    Some ([\<lparr>sc_cmd = 2, sc_type = 1, sc_ipnum = 7, sc_pcmd = [1, 2, 3]\<rparr>], s')
    \<and> sock_rep s' [] [] \<and> fifo_room (sk_fifo s') = FIFO_MAX_LEN"
proof -
  let ?m = "(0x00010002, 7, [[1, 2], [3]]) :: message"
  have "stream_frames [?m] = Some
      [[71, 71, 0, 2, 0, 0, 0, 7, 0, 0, 0, 1, 0, 1, 0, 2, 1, 2, 22, 32, 75, 237],
       [71, 71, 0, 2, 0, 0, 0, 7, 0, 1, 0, 1, 0, 1, 0, 1, 3, 162, 138, 201, 241]]"
    by code_simp
  moreover have "\<forall>m \<in> set [?m]. message_ok m" by (simp add: message_ok_def FIFO_MAX_LEN_def)
  moreover have "map delivered [?m] = [\<lparr>sc_cmd = 2, sc_type = 1, sc_ipnum = 7, sc_pcmd = [1, 2, 3]\<rparr>]"
    by (simp add: delivered_def)
  ultimately show ?thesis
    using stream_delivered [of "[?m]" _ "[[71, 71, 0, 2, 0],
      [0, 0, 7, 0, 0, 0, 1, 0, 1, 0, 2, 1, 2, 22, 32, 75, 237, 71, 71, 0],
      [2, 0, 0, 0, 7, 0, 1, 0, 1, 0, 1, 0, 1, 3, 162, 138, 201, 241]]" 1600]
    by (simp add: FIFO_MAX_LEN_def)
qed

text \<open>
  A frame whose payload lost one byte's value on the way is dropped, so that nothing of it is
  delivered or kept, as long as the checksum it carries is not zero.
\<close>

theorem corrupt_frame_dropped:
  assumes "sock_frame tc ip cur lst (us @ a # vs) (of_nat (length (us @ a # vs))) = Some fr"
    and "length (us @ a # vs) \<le> FIFO_MAX_LEN div 2 - 20"
    and "a \<noteq> b" and "crc32_le CRCPOLY_LE (us @ a # vs) \<noteq> 0"
  shows "\<exists>s'. serve [fr[16 + length us := b]] (init_socket_cmd_class n FIFO_MAX_LEN) = Some ([], s')
    \<and> sock_rep s' [] []"
proof -
  let ?p = "us @ a # vs" and ?q = "us @ b # vs"
  let ?crc = "crc32_le CRCPOLY_LE ?p"
  have p: "length ?p < 65536" using assms(2) by (simp add: FIFO_MAX_LEN_def)
  define H where "H = short2buffer SYNC_HEAD @ short2buffer (ucast (tc AND 0xFFFF)) @ int2buffer ip
          @ short2buffer cur @ short2buffer lst @ short2buffer (ucast (drop_bit 16 tc))
          @ short2buffer (of_nat (length ?p))"
  have H: "length H = 16" "get_short (H @ ys) 14 = of_nat (length ?p)"
    "get_short (H @ ys) 0 = SYNC_HEAD" for ys
    unfolding H_def append_assoc by (simp_all add: wire_simps)
  have "fr = H @ us @ a # vs @ int2buffer ?crc"
    using assms(1) sock_frame_bytes [OF p, of tc ip cur lst] by (simp add: H_def)
  then have fr': "fr[16 + length us := b] = H @ us @ b # vs @ int2buffer ?crc"
    using H(1) by (simp add: list_update_append)
  define fr2 where "fr2 = H @ us @ b # vs @ int2buffer ?crc"
  have len: "unat (of_nat (length ?p) :: u16) = length ?p" by (rule unat_of_nat_u16 [OF p])
  have lfr: "length fr2 = 20 + length ?p" by (simp add: fr2_def H(1))
  have g: "get_short fr2 14 = of_nat (length ?p)" "get_short fr2 0 = SYNC_HEAD"
    unfolding fr2_def by (rule H)+
  have fl: "frame_len fr2 = Some (length fr2)"
    by (simp only: frame_len_def lfr g len) (simp add: HEAD_SIZE_def)
  have "get_int (H @ ?q @ int2buffer ?crc) (length ?p + 16) = ?crc"
    using H(1) get_int_append2 [of "H @ ?q" "int2buffer ?crc" 0] by (simp add: get_int_buffer add.commute)
  moreover have "take (length ?p) (drop HEAD_SIZE fr2) = ?q"
    using H(1) by (simp add: fr2_def HEAD_SIZE_def)
  moreover have "fr2 = H @ ?q @ int2buffer ?crc" by (simp add: fr2_def)
  ultimately have bad: "\<not> frame_crc_ok fr2"
    using assms(4) crc32_le_one_byte [OF assms(3)] unfolding frame_crc_ok_def Let_def g(1) by (simp only: len) simp
  let ?s = "ensure_init (init_socket_cmd_class n FIFO_MAX_LEN)"
  have le: "length fr2 \<le> fifo_room (sk_fifo ?s)"
    using init_rep [of n] lfr assms(2) by (simp add: FIFO_MAX_LEN_def)
  from recv_law [OF conjunct1 [OF init_rep] le] obtain s1 where
    s1: "recvSocketCmd ?s fr2 = Some s1" "sock_rep s1 fr2 []" by auto
  from parse_loop_take [OF s1(2) fl] bad obtain s2 where
    s2: "sock_rep s2 [] []" "parse_loop s1 = parse_loop s2"
    by (auto simp: pending_def complete_def)
  have "drain s1 = drain s2"
    by (simp only: drain.simps [of s1] drain.simps [of s2] parse_rep [OF s1(2)] parse_rep [OF s2(1)] s2(2))
  moreover have "drain s2 = Some ([], s2)"
    by (rule drain_none [OF s2(1)]) (simp add: frame_len_def HEAD_SIZE_def)
  ultimately show ?thesis
    using s1(1) s2(1) serve_from_init [of "[fr2]" "init_socket_cmd_class n FIFO_MAX_LEN"] lfr
    unfolding fr' fr2_def [symmetric] by auto
qed


lemma corrupt_frame_dropped_witness:
  "\<exists>s'. serve [[71, 71, 0, 2, 0, 0, 0, 7, 0, 0, 0, 0, 0, 1, 0, 2, 1, 9, 22, 32, 75, 237]]
      (init_socket_cmd_class 1600 FIFO_MAX_LEN) = Some ([], s') \<and> sock_rep s' [] []"
proof -
  have fr: "sock_frame 0x00010002 7 0 0 ([1] @ 2 # []) (of_nat (length ([1] @ 2 # [] :: u8 list))) =
      Some [71, 71, 0, 2, 0, 0, 0, 7, 0, 0, 0, 0, 0, 1, 0, 2, 1, 2, 22, 32, 75, 237]"
    by code_simp
  have crc: "crc32_le CRCPOLY_LE ([1] @ 2 # []) \<noteq> 0" by code_simp
  have "\<exists>s'. serve [[71, 71, 0, 2, 0, 0, 0, 7, 0, 0, 0, 0, 0, 1, 0, 2, 1, 2, 22, 32, 75, 237]
      [16 + length [1 :: u8] := 9]] (init_socket_cmd_class 1600 FIFO_MAX_LEN) = Some ([], s')
      \<and> sock_rep s' [] []"
    by (rule corrupt_frame_dropped [OF fr _ _ crc]) (simp_all add: FIFO_MAX_LEN_def)
  then show ?thesis by (simp del: serve.simps)
qed

text \<open>
  C6: there is no resynchronisation. Once the first bytes of a connection are not the sync word,
  or announce a frame larger than the FIFO, no command is delivered for any bytes that follow.
\<close>

theorem wedged_forever:
  assumes "wedged arg" and "\<forall>x \<in> set (arg # args). length x \<le> FIFO_MAX_LEN div 2"
  shows "\<exists>s'. serve (arg # args) (init_socket_cmd_class n FIFO_MAX_LEN) = Some ([], s')"
proof -
  let ?s = "ensure_init (init_socket_cmd_class n FIFO_MAX_LEN)"
  have "arg \<noteq> []" using assms(1) by (auto simp: wedged_def)
  then have eq: "serve (arg # args) (init_socket_cmd_class n FIFO_MAX_LEN) = serve (arg # args) ?s"
    by (intro serve_from_init) auto
  have fit: "length arg \<le> FIFO_MAX_LEN" using assms(2) by (auto simp: FIFO_MAX_LEN_def)
  with recv_law [OF conjunct1 [OF init_rep]] init_rep [of n] obtain s1 where
    s1: "recvSocketCmd ?s arg = Some s1" "sock_rep s1 arg []"
      "length arg + fifo_room (sk_fifo s1) = FIFO_MAX_LEN"
    by (metis append_Nil le_add_diff_inverse)
  have "drain s1 = Some ([], s1)"
    by (rule drain_none [OF s1(2) wedged_no_frame [OF assms(1) fit]])
  with serve_wedged [OF s1(2) assms(1) s1(3), of args] assms(2) s1(1) \<open>arg \<noteq> []\<close> show ?thesis
    unfolding eq by auto
qed

lemma wedged_forever_witness:
  "\<exists>s'. serve [[0, 0], [71, 71, 0, 2, 0, 0, 0, 7, 0, 0, 0, 0, 0, 1, 0, 0, 0, 0, 0, 0]]
    (init_socket_cmd_class 1600 FIFO_MAX_LEN) = Some ([], s')"
  by (rule wedged_forever) (simp_all add: wedged_def get_short_def SYNC_HEAD_def FIFO_MAX_LEN_def)

text \<open>A list whose head points at freed memory makes the next accepted frame undefined.\<close>

lemma dangling_absorb:
  assumes "fifo_inv (sk_fifo s)" and "fifo_bytes (sk_fifo s) = fr" and "good_frame fr"
    and "sk_heap s (sk_head s) = Some nd" and "nd_next nd = q" and "q \<noteq> 0"
    and "sk_heap s q = None" and "q \<noteq> sk_brk s" and "sk_head s \<noteq> sk_brk s" and "sk_head s \<noteq> 0"
  shows "parse_loop s = None"
proof -
  have fl: "frame_len fr = Some (length fr)" using assms(3) by (simp add: good_frame_def)
  have peek: "read_cmd_try_read (sk_fifo s) = Some (Some (length fr))"
    using read_cmd_try_read_law [OF assms(1)] assms(2) fl by simp
  from read_cmd_fifo_law [OF assms(1), of "length fr"] assms(2) length_fifo_bytes [of "sk_fifo s"]
  obtain f where f: "read_cmd_fifo (sk_fifo s) (length fr) = Some (fr, f)" by auto
  have "last_node ((sk_heap s)(sk_brk s \<mapsto> n)) 0 (sk_head s) = None" for n
    using assms(4-10) by (intro dangling_walk) auto
  then have "absorb_frame (s\<lparr>sk_fifo := f\<rparr>) fr = None"
    using assms(3,10) by (simp add: absorb_frame_def good_frame_def add_fragment_def addRecvList_def Let_def)
  then show ?thesis by (simp add: parse_loop.simps [of s] peek f Let_def)
qed

text \<open>A receiver whose queue is empty and whose first fragment points to a freed node.\<close>

definition dangling :: "socket_cmd_class \<Rightarrow> bool" where
  "dangling s \<longleftrightarrow> fifo_inv (sk_fifo s) \<and> fifo_bytes (sk_fifo s) = [] \<and> ensure_init s = s \<and>
     fifo_room (sk_fifo s) = FIFO_MAX_LEN \<and> sk_head s \<noteq> 0 \<and> sk_head s \<noteq> sk_brk s \<and>
     (\<exists>nd q. sk_heap s (sk_head s) = Some nd \<and> nd_next nd = q \<and> q \<noteq> 0 \<and> sk_heap s q = None \<and> q \<noteq> sk_brk s)"

lemma dangling_next_frame:
  assumes "dangling s" and "good_frame fr" and "length fr \<le> FIFO_MAX_LEN"
  shows "\<exists>s'. recvSocketCmd s fr = Some s' \<and> drain s' = None"
proof -
  have inv: "fifo_inv (sk_fifo s)" "fifo_bytes (sk_fifo s) = []" and room: "length fr \<le> fifo_room (sk_fifo s)"
    using assms by (auto simp: dangling_def)
  from write_cmd_fifo_law [OF inv(1) room] inv(2) obtain f where
    f: "write_cmd_fifo (sk_fifo s) fr = Some (0, f)" "fifo_inv f" "fifo_bytes f = fr" by auto
  define s' where "s' = s\<lparr>sk_fifo := f\<rparr>"
  have s': "recvSocketCmd s fr = Some s'" "ensure_init s' = s'"
    using f fifo_invD(7) [OF f(2)] fifo_invD(7) [OF inv(1)]
    by (simp_all add: recvSocketCmd_def s'_def ensure_init_def)
  obtain nd q where "sk_heap s (sk_head s) = Some nd" "nd_next nd = q" "q \<noteq> 0" "sk_heap s q = None"
      "q \<noteq> sk_brk s" "sk_head s \<noteq> sk_brk s" "sk_head s \<noteq> 0"
    using assms(1) by (auto simp: dangling_def)
  then have "parse_loop s' = None"
    by (intro dangling_absorb [where fr = fr and q = q and nd = nd]) (use f assms(2) in \<open>auto simp: s'_def\<close>)
  then show ?thesis using s' by (intro exI [of _ s']) (simp add: drain.simps [of s'] parseSocketCmd_def)
qed

text \<open>A frame that completes nothing is kept.\<close>

lemma parse_loop_park:
  assumes "sock_rep s (fr @ rest) xs" and "frame_len (fr @ rest) = Some (length fr)" and "frame_crc_ok fr"
    and "\<And>p. \<not> complete (frags_of (si_cmd (decode_frame fr)) (xs @ [(p, decode_frame fr)]))"
  shows "\<exists>s' p. sock_rep s' rest (xs @ [(p, decode_frame fr)]) \<and> parse_loop s = parse_loop s' \<and>
    fifo_room (sk_fifo s') = fifo_room (sk_fifo s) + length fr"
  using parse_loop_take [OF assms(1,2)] assms(3,4) by (auto simp: pending_def)

text \<open>Three commands pending, of which the second is completed: its node is freed and still pointed to.\<close>

lemma middle_completes:
  assumes "sock_rep s fr [(p, ja), (q, jb), (r, jc)]" and "frame_len fr = Some (length fr)" and "frame_crc_ok fr"
    and "jd = decode_frame fr" and "si_cmd jd = si_cmd jb" and "si_lastNo jb = 1"
    and "si_cmd ja \<noteq> si_cmd jb" and "si_cmd jc \<noteq> si_cmd jb"
    and "FIFO_MAX_LEN = fifo_room (sk_fifo s) + length fr"
  shows "\<exists>m s'. parse_loop s = Some (Some m, s') \<and> parse_loop s' = Some (None, s') \<and> dangling s'"
proof -
  have take: "take (length fr) fr = fr" "drop (length fr) fr = []" by simp_all
  from parse_loop_take [OF assms(1,2), unfolded take] assms(3-8)
  obtain s4 t where
    s4: "sock_rep s4 [] [(p, ja), (q, jb), (r, jc), (t, jd)]"
    and room4: "fifo_room (sk_fifo s4) = fifo_room (sk_fifo s) + length fr"
    and run: "\<exists>m. parse_loop s = do {
        (h, head) \<leftarrow> destoryRecvList2 (si_cmd jb) (sk_heap s4) (sk_head s4) 0 (sk_head s4);
        Some (Some m, s4\<lparr>sk_heap := h, sk_head := head\<rparr>) }"
    by (auto simp: pending_def complete_def)
  note r4 = sock_repD [OF s4]
  from destory_dangling [OF r4(3,4), of "si_cmd jb"] assms(5,7,8) obtain h where
    h: "destoryRecvList2 (si_cmd jb) (sk_heap s4) p 0 p = Some (h, p)"
      "h p = sk_heap s4 p" "h q = None" by (auto simp: all_cmd_def)
  define s5 where "s5 = s4\<lparr>sk_heap := h, sk_head := p\<rparr>"
  from run r4(5) h(1) obtain m where m: "parse_loop s = Some (Some m, s5)" by (auto simp: s5_def)
  have f5: "fifo_inv (sk_fifo s5)" "fifo_bytes (sk_fifo s5) = []" "ensure_init s5 = s5"
    using r4(1,2) fifo_invD(7) [OF r4(1)] by (simp_all add: s5_def ensure_init_def)
  have "parse_loop s5 = Some (None, s5)"
    using read_cmd_try_read_law [OF f5(1)] f5(2)
    by (simp add: parse_loop.simps [of s5] frame_len_def HEAD_SIZE_def)
  moreover have "p \<noteq> 0" "q \<noteq> 0" "p < sk_brk s4" "q < sk_brk s4"
    "sk_heap s4 p = Some \<lparr>nd_info = ja, nd_next = q\<rparr>"
    using s4 by (auto simp: sock_rep_def)
  then have "dangling s5"
    using f5 h(2,3) room4 assms(9) by (auto simp: dangling_def s5_def)
  ultimately show ?thesis using m by blast
qed

text \<open>
  C7: with the fragments of three commands interleaved, completing the second one frees a node in
  the middle of the list that its predecessor still points to; the next frame makes the receiver
  walk into freed memory.
\<close>

theorem interleaved_use_after_free:
  assumes "sock_frame ta ipa 0 1 pa (of_nat (length pa)) = Some fa"
    and "sock_frame tb ipb 0 1 pb (of_nat (length pb)) = Some fb"
    and "sock_frame tc ipc 0 1 pc (of_nat (length pc)) = Some fc"
    and "sock_frame tb ipd 1 1 pd (of_nat (length pd)) = Some fd"
    and "sock_frame te ipe cure lste pe (of_nat (length pe)) = Some fe"
    and "\<forall>p \<in> {pa, pb, pc, pd, pe}. length p \<le> 4096"
    and "distinct [ucast (ta AND 0xFFFF) :: u16, ucast (tb AND 0xFFFF), ucast (tc AND 0xFFFF)]"
  shows "serve [fa @ fb @ fc @ fd, fe] (init_socket_cmd_class n FIFO_MAX_LEN) = None"
proof -
  let ?s = "ensure_init (init_socket_cmd_class n FIFO_MAX_LEN)"
  have len: "length pa < 65536" "length pb < 65536" "length pc < 65536" "length pd < 65536"
    "length pe < 65536" using assms(6) by auto
  note A = sock_frame_received [OF assms(1) len(1)] and B = sock_frame_received [OF assms(2) len(2)]
    and C = sock_frame_received [OF assms(3) len(3)] and D = sock_frame_received [OF assms(4) len(4)]
    and E = sock_frame_received [OF assms(5) len(5)]
  define ja jb jc where j: "ja = decode_frame fa" "jb = decode_frame fb" "jc = decode_frame fc"
  have cmd: "si_cmd ja = ucast (ta AND 0xFFFF)" "si_cmd jb = ucast (tb AND 0xFFFF)"
    "si_cmd jc = ucast (tc AND 0xFFFF)" "si_cmd (decode_frame fd) = si_cmd jb"
    "si_lastNo ja = 1" "si_lastNo jb = 1" "si_lastNo jc = 1"
    by (simp_all add: j A(4) B(4) C(4) D(4))
  have ne: "si_cmd ja \<noteq> si_cmd jb" "si_cmd jc \<noteq> si_cmd jb" "si_cmd ja \<noteq> si_cmd jc"
    using assms(7) by (auto simp: cmd)
  have room: "length (fa @ fb @ fc @ fd) \<le> fifo_room (sk_fifo ?s)"
    using init_rep [of n] assms(6) by (simp add: A(1) B(1) C(1) D(1) FIFO_MAX_LEN_def)
  from recv_law [OF conjunct1 [OF init_rep] room] obtain s0 where
    s0: "recvSocketCmd ?s (fa @ fb @ fc @ fd) = Some s0" "sock_rep s0 (fa @ fb @ fc @ fd) []"
      "fifo_room (sk_fifo s0) = FIFO_MAX_LEN - length (fa @ fb @ fc @ fd)"
    using init_rep [of n] by auto
  obtain s1 p where s1: "sock_rep s1 (fb @ fc @ fd) [(p, ja)]" "parse_loop s0 = parse_loop s1"
      "fifo_room (sk_fifo s1) = fifo_room (sk_fifo s0) + length fa"
    using parse_loop_park [OF s0(2) A(2,3)] by (auto simp: complete_def j [symmetric] cmd)
  obtain s2 q where s2: "sock_rep s2 (fc @ fd) [(p, ja), (q, jb)]" "parse_loop s1 = parse_loop s2"
      "fifo_room (sk_fifo s2) = fifo_room (sk_fifo s1) + length fb"
    using parse_loop_park [OF s1(1) B(2,3)] ne by (auto simp: complete_def j [symmetric] cmd)
  obtain s3 r where s3: "sock_rep s3 fd [(p, ja), (q, jb), (r, jc)]" "parse_loop s2 = parse_loop s3"
      "fifo_room (sk_fifo s3) = fifo_room (sk_fifo s2) + length fc"
    using parse_loop_park [OF s2(1) C(2,3)] ne by (auto simp: complete_def j [symmetric] cmd)
  have "FIFO_MAX_LEN = fifo_room (sk_fifo s3) + length fd"
    using room s0(3) s1(3) s2(3) s3(3) init_rep [of n] by simp
  from middle_completes [OF s3(1) D(2) [of "[]", simplified] D(3) refl cmd(4,6) ne(1,2) this]
  obtain m s5 where s5: "parse_loop s3 = Some (Some m, s5)" "parse_loop s5 = Some (None, s5)" "dangling s5" by blast
  then have d0: "drain s0 = Some ([m], s5)"
    using s1(2) s2(2) s3(2)
    by (simp add: drain.simps [of s0] drain.simps [of s5] parseSocketCmd_def dangling_def sock_repD(9) [OF s0(2)])
  have "good_frame fe" "length fe \<le> FIFO_MAX_LEN"
    using good_sock_frame [OF assms(5)] assms(6) by (simp_all add: E(1) FIFO_MAX_LEN_def)
  from dangling_next_frame [OF s5(3) this] obtain s6 where "recvSocketCmd s5 fe = Some s6" "drain s6 = None" by blast
  moreover have "fe \<noteq> []" "fa \<noteq> []" using A(1) E(1) by auto
  ultimately show ?thesis
    using s0(1) d0 serve_from_init [of "[fa @ fb @ fc @ fd, fe]" "init_socket_cmd_class n FIFO_MAX_LEN"] by simp
qed

lemma interleaved_use_after_free_witness:
  "serve [[71, 71, 0, 1, 0, 0, 0, 0, 0, 0, 0, 1, 0, 0, 0, 0, 0, 0, 0, 0] @
      [71, 71, 0, 2, 0, 0, 0, 0, 0, 0, 0, 1, 0, 0, 0, 0, 0, 0, 0, 0] @
      [71, 71, 0, 3, 0, 0, 0, 0, 0, 0, 0, 1, 0, 0, 0, 0, 0, 0, 0, 0] @
      [71, 71, 0, 2, 0, 0, 0, 0, 0, 1, 0, 1, 0, 0, 0, 0, 0, 0, 0, 0], [71, 71, 0, 9, 0, 0, 0, 0, 0, 0, 0, 0, 0, 0, 0, 0, 0, 0, 0, 0]]
    (init_socket_cmd_class 1600 FIFO_MAX_LEN) = None"
proof -
  have "sock_frame 1 0 0 1 [] (of_nat (length ([] :: u8 list))) = Some [71, 71, 0, 1, 0, 0, 0, 0, 0, 0, 0, 1, 0, 0, 0, 0, 0, 0, 0, 0]"
    by code_simp
  moreover have "sock_frame 2 0 0 1 [] (of_nat (length ([] :: u8 list))) = Some [71, 71, 0, 2, 0, 0, 0, 0, 0, 0, 0, 1, 0, 0, 0, 0, 0, 0, 0, 0]" by code_simp
  moreover have "sock_frame 3 0 0 1 [] (of_nat (length ([] :: u8 list))) = Some [71, 71, 0, 3, 0, 0, 0, 0, 0, 0, 0, 1, 0, 0, 0, 0, 0, 0, 0, 0]" by code_simp
  moreover have "sock_frame 2 0 1 1 [] (of_nat (length ([] :: u8 list))) = Some [71, 71, 0, 2, 0, 0, 0, 0, 0, 1, 0, 1, 0, 0, 0, 0, 0, 0, 0, 0]" by code_simp
  moreover have "sock_frame 9 0 0 0 [] (of_nat (length ([] :: u8 list))) = Some [71, 71, 0, 9, 0, 0, 0, 0, 0, 0, 0, 0, 0, 0, 0, 0, 0, 0, 0, 0]" by code_simp
  ultimately show ?thesis by (rule interleaved_use_after_free) simp_all
qed

end
