(* ===== verification/Uart.thy ===== *)
theory Uart
  imports Crc
begin

text \<open>
  The serial-line protocol of \<^verbatim>\<open>hw/common/source/comUart.c\<close>: packing a payload into a frame with
  byte stuffing and a checksum, unpacking it, and the byte-driven machine that finds frames in
  what the port delivers. Buffers have the sizes of the source; an access outside is \<open>None\<close>.
\<close>

definition UART_BUF_SIZE :: nat where "UART_BUF_SIZE = 1100"

definition MAX_BUFF_SIZE :: nat where "MAX_BUFF_SIZE = 2048"

definition FLAG_TRANS :: u8 where "FLAG_TRANS = 0x20"

section \<open>Packing\<close>

definition stuff_byte :: "u8 \<Rightarrow> u8 list" where
  "stuff_byte b = (if b = 0x7d then [0x7d, 0x5d] else if b = 0x7e then [0x7d, 0x5e] else [b])"

definition stuff :: "u8 list \<Rightarrow> u8 list" where
  "stuff bs = concat (map stuff_byte bs)"

text \<open>The bytes of a little-endian half word and word, as the processor stores them.\<close>

definition le16 :: "u16 \<Rightarrow> u8 list" where
  "le16 w = [ucast w, ucast (drop_bit 8 w)]"

definition le32 :: "u32 \<Rightarrow> u8 list" where
  "le32 w = [ucast w, ucast (drop_bit 8 w), ucast (drop_bit 16 w), ucast (drop_bit 24 w)]"

definition uart_fcs :: "u8 list \<Rightarrow> u32" where
  "uart_fcs d = NOT (jcrc32_le (NOT 0) d)"

text \<open>The frame that \<^verbatim>\<open>datapack\<close> writes; \<open>cap\<close> is the size of the buffer it writes to.\<close>

definition frame_of :: "u8 list \<Rightarrow> u8 list" where
  "frame_of d =
     (let body = stuff d @ stuff (le32 (uart_fcs d)) in
      [0x55, 0xAA] @ le16 (of_nat (length body + 4)) @ [0x7e, 0x7e] @ body @ [0x7e, 0x7e])"

definition datapack :: "u8 list \<Rightarrow> nat \<Rightarrow> u8 list option" where
  "datapack inBuf cap = (if length (frame_of inBuf) \<le> cap then Some (frame_of inBuf) else None)"

section \<open>Unpacking\<close>

datatype frame_state = OUTSIDE_FRAME | LINK_ESCAPE | INSIDE_FRAME

datatype unpack_action = Skip frame_state | Emit u8 frame_state | Frame_error

text \<open>
  The body of the loop of \<^verbatim>\<open>dataunpack\<close> for one byte; \<open>at_end\<close> tells whether it is the last byte
  but one of the announced length.
\<close>

definition inside_byte :: "bool \<Rightarrow> u8 \<Rightarrow> unpack_action" where
  "inside_byte at_end byte =
     (if byte = 0x7d then Skip LINK_ESCAPE
      else if byte = 0x7e then (if at_end then Skip OUTSIDE_FRAME else Frame_error)
      else Emit byte INSIDE_FRAME)"

definition unpack_byte :: "frame_state \<Rightarrow> bool \<Rightarrow> u8 \<Rightarrow> unpack_action" where
  "unpack_byte state at_end byte =
     (case state of
        OUTSIDE_FRAME \<Rightarrow> if byte = 0x7e then Skip OUTSIDE_FRAME else inside_byte at_end byte
      | INSIDE_FRAME \<Rightarrow> inside_byte at_end byte
      | LINK_ESCAPE \<Rightarrow>
          if byte = 0x5e \<or> byte = 0x5d then Emit (byte XOR FLAG_TRANS) INSIDE_FRAME
          else Frame_error)"

text \<open>
  The loop: \<open>k\<close> iterations are left, \<open>ins\<close> is the rest of the input array, \<open>cap\<close> the size of the
  output array, \<open>data\<close> what has been written to it. \<open>Inl\<close> is an early return.
\<close>

fun unpack_loop ::
  "nat \<Rightarrow> u8 list \<Rightarrow> frame_state \<Rightarrow> nat \<Rightarrow> u8 list \<Rightarrow> (int \<times> u8 list + u8 list) option" where
  "unpack_loop 0 ins state cap data = Some (Inr data)"
| "unpack_loop (Suc k) [] state cap data = None"
| "unpack_loop (Suc k) (byte # ins) state cap data =
     (case unpack_byte state (k = 1) byte of
        Skip state' \<Rightarrow> unpack_loop k ins state' cap data
      | Emit b state' \<Rightarrow>
          if length data < cap then unpack_loop k ins state' cap (data @ [b]) else None
      | Frame_error \<Rightarrow> Some (Inl (0, data)))"

text \<open>
  \<^verbatim>\<open>dataunpack\<close>: the return code and the bytes left in the output array. With fewer than four
  bytes decoded the checksum runs over a negative length, out of every array.
\<close>

definition get_le16 :: "u8 list \<Rightarrow> nat \<Rightarrow> u16" where
  "get_le16 buf i = ucast (buf ! i) OR push_bit 8 (ucast (buf ! (i + 1)))"

definition dataunpack :: "u8 list \<Rightarrow> nat \<Rightarrow> (int \<times> u8 list) option" where
  "dataunpack inBuf cap =
     (if length inBuf < 4 then None
      else if inBuf ! 0 \<noteq> 0x55 \<and> inBuf ! 1 \<noteq> 0xaa then Some (0, [])
      else do {
        r \<leftarrow> unpack_loop (unat (get_le16 inBuf 2)) (drop 4 inBuf) OUTSIDE_FRAME cap [];
        case r of
          Inl r \<Rightarrow> Some r
        | Inr data \<Rightarrow>
            if length data < 4 then None
            else
              let len = length data - 4 in
              if le32 (uart_fcs (take len data)) = drop len data then Some (int len, data)
              else Some (-2, data)
      })"

section \<open>Round trip\<close>

lemma length_le32 [simp]: "length (le32 w) = 4"
  by (simp add: le32_def)

lemma stuff_simps [simp]:
  "stuff [] = []" "stuff (b # bs) = stuff_byte b @ stuff bs" "stuff (as @ bs) = stuff as @ stuff bs"
  by (simp_all add: stuff_def)

lemma stuff_byte_length: "1 \<le> length (stuff_byte b)" "length (stuff_byte b) \<le> 2"
  by (simp_all add: stuff_byte_def)

lemma stuff_length: "length bs \<le> length (stuff bs)" "length (stuff bs) \<le> 2 * length bs"
proof (induction bs)
  case (Cons b bs)
  { case 1 with Cons stuff_byte_length(1) [of b] show ?case by (simp del: One_nat_def) }
  { case 2 with Cons stuff_byte_length(2) [of b] show ?case by simp }
qed simp_all

lemma stuff_no_flag: "0x7e \<notin> set (stuff bs)"
  by (induction bs) (auto simp: stuff_byte_def)

text \<open>The loop undoes the stuffing of one byte, then of a string.\<close>

lemma unpack_stuff_byte:
  assumes "state \<noteq> LINK_ESCAPE" and "length data < cap"
  shows "unpack_loop (length (stuff_byte b) + k) (stuff_byte b @ ins) state cap data =
    unpack_loop k ins INSIDE_FRAME cap (data @ [b])"
proof -
  consider "b = 0x7d" | "b = 0x7e" | "b \<noteq> 0x7d" "b \<noteq> 0x7e" by blast
  then show ?thesis
    using assms
    by cases (auto simp: stuff_byte_def unpack_byte_def inside_byte_def FLAG_TRANS_def
        split: frame_state.splits)
qed

lemma unpack_stuff:
  assumes "state \<noteq> LINK_ESCAPE" and "length data + length bs \<le> cap"
  shows "unpack_loop (length (stuff bs) + k) (stuff bs @ ins) state cap data =
    unpack_loop k ins (if bs = [] then state else INSIDE_FRAME) cap (data @ bs)"
  using assms
proof (induction bs arbitrary: state data)
  case (Cons b bs)
  have "unpack_loop (length (stuff_byte b) + (length (stuff bs) + k)) (stuff_byte b @ stuff bs @ ins)
      state cap data = unpack_loop (length (stuff bs) + k) (stuff bs @ ins) INSIDE_FRAME cap (data @ [b])"
    using Cons.prems by (intro unpack_stuff_byte) auto
  with Cons.IH [of INSIDE_FRAME "data @ [b]"] Cons.prems show ?case by (simp add: add.assoc)
qed simp

lemma get_le16_le16: "get_le16 (le16 w @ xs) 0 = w"
proof (rule bit_word_eqI)
  fix n assume "n < LENGTH(16)"
  then consider "n < 8" | "8 \<le> n" "n < 16" by fastforce
  then show "bit (get_le16 (le16 w @ xs) 0) n = bit w n"
    by cases (auto simp: get_le16_def le16_def bit_simps)
qed

text \<open>A frame with any check word, of which \<open>frame_of\<close> has the right one.\<close>

definition frame_with :: "u8 list \<Rightarrow> u32 \<Rightarrow> u8 list" where
  "frame_with d c = 0x55 # 0xAA # le16 (of_nat (length (stuff (d @ le32 c)) + 4))
     @ 0x7e # 0x7e # stuff (d @ le32 c) @ [0x7e, 0x7e]"

lemma frame_of_with: "frame_of d = frame_with d (uart_fcs d)"
  by (simp add: frame_of_def frame_with_def Let_def)

lemma frame_of_parts:
  "frame_of d = 0x55 # 0xAA # le16 (of_nat (length (stuff (d @ le32 (uart_fcs d))) + 4))
     @ 0x7e # 0x7e # stuff (d @ le32 (uart_fcs d)) @ [0x7e, 0x7e]"
  by (simp add: frame_of_with frame_with_def)

lemma length_frame_with: "length (frame_with d c) = length (stuff (d @ le32 c)) + 8"
  by (simp add: frame_with_def le16_def)

lemma length_frame_of: "length (frame_of d) = length (stuff (d @ le32 (uart_fcs d))) + 8"
  by (simp add: frame_of_with length_frame_with)

lemma frame_with_length: "length d + 12 \<le> length (frame_with d c)" "length (frame_with d c) \<le> 2 * length d + 16"
  using stuff_length [of "d @ le32 c"] by (simp_all add: length_frame_with)

lemma frame_of_length: "length d + 12 \<le> length (frame_of d)" "length (frame_of d) \<le> 2 * length d + 16"
  by (simp_all add: frame_of_with frame_with_length)

definition get_le32 :: "u8 list \<Rightarrow> nat \<Rightarrow> u32" where
  "get_le32 b i = ucast (b ! i) OR push_bit 8 (ucast (b ! (i + 1))) OR push_bit 16 (ucast (b ! (i + 2)))
     OR push_bit 24 (ucast (b ! (i + 3)))"

lemma get_le32_le32: "get_le32 (le32 w @ xs) 0 = w"
proof -
  let ?b = "\<lambda>k. ucast (ucast (drop_bit k w) :: u8) :: u32"
  have "?b 0 OR push_bit 8 (?b 8) OR push_bit 16 (?b 16) OR push_bit 24 (?b 24) = w"
  proof (rule bit_word_eqI)
    fix n assume "n < LENGTH(32)"
    then consider "n < 8" | "8 \<le> n" "n < 16" | "16 \<le> n" "n < 24" | "24 \<le> n" "n < 32"
      by fastforce
    then show "bit (?b 0 OR push_bit 8 (?b 8) OR push_bit 16 (?b 16) OR push_bit 24 (?b 24)) n = bit w n"
      by cases (simp_all add: bit_simps less_diff_conv2)
  qed
  moreover have "get_le32 (le32 w @ xs) 0 = ?b 0 OR push_bit 8 (?b 8) OR push_bit 16 (?b 16) OR push_bit 24 (?b 24)"
    unfolding get_le32_def le32_def by (simp only: append_Cons nth_Cons_0 add_0 nth_Cons_Suc One_nat_def
        numeral_2_eq_2 numeral_3_eq_3 drop_bit_0 id_apply)
  ultimately show ?thesis by metis
qed

lemma le32_inj: "le32 c = le32 c' \<longleftrightarrow> c = c'"
  by (metis get_le32_le32)

lemma unpack_frame_with:
  assumes "length (frame_with d c) < 65536" and "length d + 4 \<le> cap"
  shows "dataunpack (frame_with d c @ rest) cap
    = Some (if c = uart_fcs d then int (length d) else -2, d @ le32 c)"
proof -
  let ?bs = "d @ le32 c"
  let ?n = "length (stuff ?bs) + 4"
  have fr: "frame_with d c @ rest =
      0x55 # 0xAA # le16 (of_nat ?n) @ 0x7e # 0x7e # stuff ?bs @ 0x7e # 0x7e # rest"
    by (simp add: frame_with_def)
  have "?n < 65536" using assms(1) by (simp add: length_frame_with)
  then have n: "unat (of_nat ?n :: u16) = ?n" by (rule unat_of_nat_u16)
  have len: "get_le16 (frame_with d c @ rest) 2 = of_nat ?n"
    using get_le16_le16 [of "of_nat ?n"] unfolding fr by (simp add: get_le16_def numeral_2_eq_2)
  have drop: "drop 4 (frame_with d c @ rest) = 0x7e # 0x7e # stuff ?bs @ 0x7e # 0x7e # rest"
    unfolding fr by (simp add: le16_def numeral_eq_Suc)
  have "unpack_loop ?n (drop 4 (frame_with d c @ rest)) OUTSIDE_FRAME cap [] =
      unpack_loop (length (stuff ?bs) + 2) (stuff ?bs @ 0x7e # 0x7e # rest) OUTSIDE_FRAME cap []"
    unfolding drop by (simp add: numeral_eq_Suc unpack_byte_def)
  also have "\<dots> = unpack_loop 2 (0x7e # 0x7e # rest) INSIDE_FRAME cap ?bs"
    using unpack_stuff [of OUTSIDE_FRAME "[]" ?bs cap 2] assms(2) by (simp add: le32_def)
  also have "\<dots> = Some (Inr ?bs)"
    by (simp add: numeral_eq_Suc unpack_byte_def inside_byte_def)
  finally have "unpack_loop (unat (get_le16 (frame_with d c @ rest) 2)) (drop 4 (frame_with d c @ rest))
      OUTSIDE_FRAME cap [] = Some (Inr ?bs)" unfolding len n .
  moreover have "4 \<le> length (frame_with d c @ rest)" "(frame_with d c @ rest) ! 0 = 0x55"
    using frame_with_length(1) [of d c] by (simp_all add: fr)
  ultimately show ?thesis by (auto simp: dataunpack_def Let_def le32_inj)
qed

lemma unpack_frame:
  assumes "length (frame_of d) < 65536" and "length d + 4 \<le> cap"
  shows "dataunpack (frame_of d @ rest) cap = Some (int (length d), d @ le32 (uart_fcs d))"
  using unpack_frame_with [of d "uart_fcs d" cap rest] assms by (simp add: frame_of_with)


section \<open>Properties\<close>

text \<open>
  C9: unpacking returns what was packed: for every payload, escape and flag bytes included, the
  frame that \<^verbatim>\<open>datapack\<close> writes is accepted by \<^verbatim>\<open>dataunpack\<close>, which gives the payload and its length,
  whatever follows the frame in the buffer.
\<close>

theorem unpack_datapack:
  assumes "datapack d cap1 = Some fr" and "length fr < 65536" and "length d + 4 \<le> cap2"
  shows "\<exists>out. dataunpack (fr @ rest) cap2 = Some (int (length d), out) \<and> take (length d) out = d"
  using assms unpack_frame [of d cap2 rest] by (auto simp: datapack_def split: if_splits)

lemma unpack_datapack_witness:
  "\<exists>out. dataunpack (frame_of [1, 0x7e, 0x7d] @ [9, 9]) 16 = Some (3, out)
    \<and> take 3 out = [1, 0x7e, 0x7d]"
proof -
  have "length (frame_of [1, 0x7e, 0x7d]) \<le> 22" using frame_of_length(2) [of "[1, 0x7e, 0x7d]"] by simp
  then have "datapack [1, 0x7e, 0x7d] 100 = Some (frame_of [1, 0x7e, 0x7d])"
    "length (frame_of [1, 0x7e, 0x7d]) < 65536" by (simp_all add: datapack_def)
  from unpack_datapack [OF this, of 16 "[9, 9]"] show ?thesis by (simp add: numeral_3_eq_3)
qed

end
