(* ===== verification/UartRecv.thy ===== *)
theory UartRecv
  imports Uart
begin

text \<open>
  The receiving side of \<^verbatim>\<open>hw/common/source/comUart.c\<close>: \<^verbatim>\<open>uartRevDataProcess\<close>, a state machine fed
  with the bytes a read delivers. The pointer \<^verbatim>\<open>curuartptr\<close> is its index in \<^verbatim>\<open>uartcatch\<close>. The
  theorems show that the machine never leaves its buffers and that a frame is found however the
  reads cut it.
\<close>

datatype uart_state =
  UART_IDLE | UART_RECV_BEGIN | UART_RECV_LENGTH | UART_RECV_HEAD | UART_RECV_DATA | UART_RECV_END
| UART_RECV_BUSY

record uart_buf =
  ub_recvcnt :: nat
  ub_leftlen :: nat
  ub_catch :: "u8 list"
  ub_buff :: "u8 list"
  ub_cur :: nat
  ub_state :: uart_state
  ub_do :: nat
  ub_bytecnt :: u8

section \<open>One byte\<close>

definition ub_reset :: "uart_buf \<Rightarrow> uart_buf" where
  "ub_reset u = u\<lparr>ub_recvcnt := 0, ub_cur := 0, ub_state := UART_IDLE\<rparr>"

text \<open>The store at the head of the loop body, with the reset of a full buffer before it.\<close>

definition ub_store :: "u8 \<Rightarrow> uart_buf \<Rightarrow> uart_buf option" where
  "ub_store b u0 = do {
     let u = (if ub_recvcnt u0 \<ge> UART_BUF_SIZE then (ub_reset u0)\<lparr>ub_do := 0\<rparr> else u0);
     c \<leftarrow> mem_write (ub_cur u) [b] (ub_catch u);
     Some (u\<lparr>ub_catch := c, ub_cur := ub_cur u + 1, ub_recvcnt := wrap32 (ub_recvcnt u + 1),
             ub_leftlen := sub32 (ub_leftlen u) 1\<rparr>)
   }"

text \<open>
  The switch on the state; the second component is \<open>True\<close> where the source steps the index back
  so that the next iteration sees the same byte again.
\<close>

definition ub_again :: "uart_buf \<Rightarrow> uart_buf \<times> bool" where
  "ub_again u = ((ub_reset u)\<lparr>ub_leftlen := wrap32 (ub_leftlen u + 1)\<rparr>, True)"

definition ub_switch :: "u8 \<Rightarrow> uart_buf \<Rightarrow> uart_buf \<times> bool" where
  "ub_switch b u =
     (case ub_state u of
        UART_IDLE \<Rightarrow>
          if b = 0x55 then (u\<lparr>ub_state := UART_RECV_BEGIN\<rparr>, False)
          else (u\<lparr>ub_recvcnt := 0, ub_cur := 0\<rparr>, False)
      | UART_RECV_BEGIN \<Rightarrow>
          if b = 0xAA then (u\<lparr>ub_state := UART_RECV_LENGTH, ub_bytecnt := 0\<rparr>, False)
          else ub_again u
      | UART_RECV_LENGTH \<Rightarrow>
          let n = ub_bytecnt u + 1 in
          if n = 2 then (u\<lparr>ub_state := UART_RECV_HEAD, ub_bytecnt := 0\<rparr>, False)
          else (u\<lparr>ub_bytecnt := n\<rparr>, False)
      | UART_RECV_HEAD \<Rightarrow>
          if b = 0x7e then
            let n = ub_bytecnt u + 1 in
            if n = 2 then (u\<lparr>ub_state := UART_RECV_DATA, ub_bytecnt := 0\<rparr>, False)
            else (u\<lparr>ub_bytecnt := n\<rparr>, False)
          else ub_again u
      | UART_RECV_DATA \<Rightarrow>
          if b = 0x7e then (u\<lparr>ub_state := UART_RECV_END\<rparr>, False) else (u, False)
      | UART_RECV_END \<Rightarrow>
          if b = 0x7e then (u\<lparr>ub_state := UART_RECV_BUSY, ub_do := 1\<rparr>, False)
          else ub_again u
      | UART_RECV_BUSY \<Rightarrow>
          (u\<lparr>ub_cur := ub_cur u - 1, ub_recvcnt := sub32 (ub_recvcnt u) 1\<rparr>, False))"

definition uart_byte :: "u8 \<Rightarrow> uart_buf \<Rightarrow> (uart_buf \<times> bool) option" where
  "uart_byte b u = map_option (ub_switch b) (ub_store b u)"

text \<open>A byte is looked at twice only on the way back to the idle state.\<close>

lemma ub_switch_again:
  "ub_switch b u = (u', True) \<Longrightarrow> ub_state u \<noteq> UART_IDLE \<and> ub_state u' = UART_IDLE"
  by (cases "ub_state u")
    (auto simp: ub_switch_def ub_again_def ub_reset_def Let_def split: if_splits)

lemma ub_store_state:
  "ub_store b u = Some v \<Longrightarrow> ub_state v = ub_state u \<or> ub_state v = UART_IDLE"
  by (auto simp: ub_store_def ub_reset_def Option_bind_Some_iff Let_def split: if_splits)

lemma uart_byte_again:
  "uart_byte b u = Some (u', True) \<Longrightarrow> ub_state u \<noteq> UART_IDLE \<and> ub_state u' = UART_IDLE"
  using ub_switch_again ub_store_state unfolding uart_byte_def
  by (metis map_option_eq_Some)

section \<open>The loop\<close>

function rev_loop :: "u8 list \<Rightarrow> uart_buf \<Rightarrow> uart_buf option" where
  "rev_loop [] u = Some u"
| "rev_loop (b # bs) u = do {
     (u', again) \<leftarrow> uart_byte b u;
     if ub_do u' = 1 then do {
       left \<leftarrow> mem_read 0 (ub_leftlen u') (if again then b # bs else bs);
       buff \<leftarrow> mem_write 0 left (ub_buff u');
       Some (u'\<lparr>ub_buff := buff\<rparr>)
     }
     else if again then rev_loop (b # bs) u' else rev_loop bs u'
   }"
  by pat_completeness auto

termination
  by (relation "measure (\<lambda>(bs, u). 2 * length bs + (if ub_state u = UART_IDLE then 0 else 1))")
    (auto dest: uart_byte_again)

declare rev_loop.simps(2) [simp del]

definition uartRevDataProcess :: "u8 list \<Rightarrow> nat \<Rightarrow> uart_buf \<Rightarrow> uart_buf option" where
  "uartRevDataProcess buf recvLen u = do {
     bs \<leftarrow> mem_read 0 recvLen buf;
     rev_loop bs (u\<lparr>ub_leftlen := recvLen\<rparr>)
   }"

section \<open>The machine stays inside its buffers\<close>

definition uart_inv :: "uart_buf \<Rightarrow> bool" where
  "uart_inv u \<longleftrightarrow> length (ub_catch u) = UART_BUF_SIZE \<and> length (ub_buff u) = MAX_BUFF_SIZE
     \<and> ub_cur u = ub_recvcnt u \<and> ub_recvcnt u \<le> UART_BUF_SIZE
     \<and> (ub_do u = 1 \<longleftrightarrow> ub_state u = UART_RECV_BUSY)"

lemma ub_store_inv:
  assumes "uart_inv u" and "0 < ub_leftlen u" and "ub_leftlen u \<le> MAX_BUFF_SIZE"
  shows "\<exists>u'. ub_store b u = Some u' \<and> uart_inv u' \<and> 0 < ub_recvcnt u'
    \<and> ub_leftlen u' = ub_leftlen u - 1"
  using assms mem_write_length [of _ "[b]"]
  by (auto simp: ub_store_def uart_inv_def ub_reset_def mem_simps Let_def UART_BUF_SIZE_def
      MAX_BUFF_SIZE_def)

lemma ub_switch_inv:
  assumes "uart_inv u" and "0 < ub_recvcnt u" and "ub_leftlen u < MAX_BUFF_SIZE"
  shows "uart_inv (fst (ub_switch b u)) \<and>
    ub_leftlen (fst (ub_switch b u)) = (if snd (ub_switch b u) then ub_leftlen u + 1 else ub_leftlen u)"
  using assms
  by (auto simp: ub_switch_def uart_inv_def ub_again_def ub_reset_def Let_def UART_BUF_SIZE_def
      MAX_BUFF_SIZE_def split: uart_state.splits)

lemma uart_byte_inv:
  assumes "uart_inv u" and "0 < ub_leftlen u" and "ub_leftlen u \<le> MAX_BUFF_SIZE"
  shows "\<exists>u' again. uart_byte b u = Some (u', again) \<and> uart_inv u'
    \<and> ub_leftlen u' = (if again then ub_leftlen u else ub_leftlen u - 1)"
proof -
  from ub_store_inv [OF assms] obtain v where
    v: "ub_store b u = Some v" "uart_inv v" "0 < ub_recvcnt v" "ub_leftlen v = ub_leftlen u - 1" by blast
  with assms(2,3) ub_switch_inv [OF v(2,3), of b] show ?thesis
    by (cases "ub_switch b v") (auto simp: uart_byte_def)
qed

lemma rev_loop_inv:
  assumes "uart_inv u" and "ub_leftlen u = length bs" and "length bs \<le> MAX_BUFF_SIZE"
  shows "\<exists>u'. rev_loop bs u = Some u' \<and> uart_inv u'"
  using assms
proof (induction bs u rule: rev_loop.induct)
  case (1 u)
  then show ?case by simp
next
  case (2 b bs u)
  from uart_byte_inv [OF 2(3), of b] 2(4,5) obtain u' again where
    u': "uart_byte b u = Some (u', again)" "uart_inv u'"
      "ub_leftlen u' = (if again then Suc (length bs) else length bs)"
    by auto
  show ?case
  proof (cases "ub_do u' = 1")
    case True
    define L where "L = (if again then b # bs else bs)"
    have L: "ub_leftlen u' = length L" "length L \<le> length (ub_buff u')"
      using u'(2,3) 2(5) by (auto simp: L_def uart_inv_def)
    then have "rev_loop (b # bs) u = Some (u'\<lparr>ub_buff := L @ drop (length L) (ub_buff u')\<rparr>)"
      unfolding rev_loop.simps(2) [of b bs u] u'(1) using True
      by (simp add: L_def [symmetric] mem_simps)
    with L u'(2) show ?thesis by (simp add: uart_inv_def)
  next
    case False
    have "\<exists>v. rev_loop (if again then b # bs else bs) u' = Some v \<and> uart_inv v"
    proof (cases again)
      case True
      show ?thesis using 2(1) [OF u'(1) refl False True u'(2)] u'(3) 2(5) True by simp
    next
      case again: False
      show ?thesis using 2(2) [OF u'(1) refl False again u'(2)] u'(3) 2(5) again by simp
    qed
    moreover have "rev_loop (b # bs) u = rev_loop (if again then b # bs else bs) u'"
      using u'(1) False by (simp add: rev_loop.simps(2) [of b bs u])
    ultimately show ?thesis by simp
  qed
qed

lemma uartRevDataProcess_inv:
  assumes "uart_inv u" and "recvLen \<le> length buf" and "recvLen \<le> MAX_BUFF_SIZE"
  shows "\<exists>u'. uartRevDataProcess buf recvLen u = Some u' \<and> uart_inv u'"
proof -
  have "uart_inv (u\<lparr>ub_leftlen := recvLen\<rparr>)" using assms(1) by (simp add: uart_inv_def)
  with rev_loop_inv [of "u\<lparr>ub_leftlen := recvLen\<rparr>" "take recvLen buf"] assms(2,3) show ?thesis
    by (simp add: uartRevDataProcess_def mem_simps)
qed


section \<open>A frame is found however the reads cut it\<close>

text \<open>The state after the first \<open>n\<close> bytes of a frame of length \<open>L\<close>, and of the frame \<open>F\<close>: all the machine
  looks at are the start bytes, the flags and that there is no flag between them.\<close>

definition state_at :: "nat \<Rightarrow> nat \<Rightarrow> uart_state" where
  "state_at L n =
     (if n = 0 then UART_IDLE else if n = 1 then UART_RECV_BEGIN
      else if n < 4 then UART_RECV_LENGTH else if n < 6 then UART_RECV_HEAD
      else if n + 1 < L then UART_RECV_DATA else if n < L then UART_RECV_END else UART_RECV_BUSY)"

definition frame_like :: "u8 list \<Rightarrow> bool" where
  "frame_like F \<longleftrightarrow> 8 \<le> length F \<and> F ! 0 = 0x55 \<and> F ! 1 = 0xAA \<and> F ! 4 = 0x7e \<and> F ! 5 = 0x7e
     \<and> (\<forall>i. 6 \<le> i \<and> i + 2 < length F \<longrightarrow> F ! i \<noteq> 0x7e)
     \<and> (\<forall>i < length F. length F \<le> i + 2 \<longrightarrow> F ! i = 0x7e)"

definition at_frame :: "u8 list \<Rightarrow> nat \<Rightarrow> uart_buf \<Rightarrow> bool" where
  "at_frame F n u \<longleftrightarrow> frame_like F \<and> uart_inv u \<and> ub_recvcnt u = n \<and> take n (ub_catch u) = take n F
     \<and> ub_state u = state_at (length F) n
     \<and> (2 \<le> n \<and> n < 6 \<longrightarrow> ub_bytecnt u = (if odd n then 1 else 0))"

lemma frame_with_like: "frame_like (frame_with d w)"
proof -
  let ?b = "stuff (d @ le32 w)"
  define h where "h = 0x55 # 0xAA # le16 (of_nat (length ?b + 4)) @ [0x7e, 0x7e]"
  define c where "c = ?b"
  have fr: "frame_with d w = h @ c @ [0x7e, 0x7e]" by (simp add: frame_with_def h_def c_def)
  have h: "length h = 6" by (simp add: le16_def h_def)
  have c: "0x7e \<notin> set c" unfolding c_def by (rule stuff_no_flag)
  have 1: "frame_with d w ! 0 = 0x55" "frame_with d w ! 1 = 0xAA" "frame_with d w ! 4 = 0x7e" "frame_with d w ! 5 = 0x7e"
    by (simp_all add: fr h_def le16_def numeral_eq_Suc)
  have 2: "frame_with d w ! i \<noteq> 0x7e" if "6 \<le> i" "i + 2 < length (frame_with d w)" for i
  proof -
    have lt: "i - 6 < length c" using that h by (simp add: fr)
    then have "frame_with d w ! i = c ! (i - 6)" using that(1) h by (simp add: fr nth_append)
    with lt c show ?thesis using nth_mem by metis
  qed
  have 3: "frame_with d w ! i = 0x7e" if "i < length (frame_with d w)" "length (frame_with d w) \<le> i + 2" for i
  proof -
    have "i = 6 + length c \<or> i = 6 + length c + 1" using that h by (auto simp: fr)
    then show ?thesis using h by (auto simp: fr nth_append)
  qed
  from 1 2 3 frame_with_length(1) [of d w] show ?thesis by (simp add: frame_like_def)
qed

lemma frame_of_like: "frame_like (frame_of d)"
  by (simp add: frame_of_with frame_with_like)

lemma frame_likeD:
  assumes "frame_like F"
  shows "8 \<le> length F" "F ! 0 = 0x55" "F ! 1 = 0xAA" "F ! 4 = 0x7e" "F ! 5 = 0x7e"
    "6 \<le> i \<Longrightarrow> i + 2 < length F \<Longrightarrow> F ! i \<noteq> 0x7e"
    "i < length F \<Longrightarrow> length F \<le> i + 2 \<Longrightarrow> F ! i = 0x7e"
  using assms by (auto simp: frame_like_def)

lemma ub_store_at:
  assumes "uart_inv u" and "ub_recvcnt u < UART_BUF_SIZE" and "0 < ub_leftlen u"
    and "ub_leftlen u \<le> MAX_BUFF_SIZE"
  shows "ub_store b u = Some (u\<lparr>ub_catch := (ub_catch u)[ub_recvcnt u := b],
    ub_cur := ub_recvcnt u + 1, ub_recvcnt := ub_recvcnt u + 1, ub_leftlen := ub_leftlen u - 1\<rparr>)"
  using assms
  by (simp add: ub_store_def uart_inv_def mem_simps upd_conv_take_nth_drop UART_BUF_SIZE_def
      MAX_BUFF_SIZE_def)

lemma uart_byte_at:
  assumes "at_frame F n u" and "n < length F" and "length F \<le> UART_BUF_SIZE"
    and "0 < ub_leftlen u" and "ub_leftlen u \<le> MAX_BUFF_SIZE"
  shows "\<exists>u'. uart_byte (F ! n) u = Some (u', False) \<and> at_frame F (Suc n) u'
    \<and> ub_leftlen u' = ub_leftlen u - 1 \<and> (ub_do u' = 1 \<longleftrightarrow> Suc n = length F)
    \<and> ub_buff u' = ub_buff u"
proof -
  let ?b = "F ! n" and ?L = "length F"
  let ?v = "u\<lparr>ub_catch := (ub_catch u)[n := ?b], ub_cur := n + 1, ub_recvcnt := n + 1,
      ub_leftlen := ub_leftlen u - 1\<rparr>"
  have u: "uart_inv u" "ub_recvcnt u = n" "take n (ub_catch u) = take n F"
    "ub_state u = state_at ?L n" "2 \<le> n \<and> n < 6 \<longrightarrow> ub_bytecnt u = (if odd n then 1 else 0)"
    using assms(1) by (auto simp: at_frame_def)
  have store: "ub_store ?b u = Some ?v" using ub_store_at [OF u(1), of ?b] assms(2-5) u(2) by simp
  have got: "take (Suc n) ((ub_catch u)[n := ?b]) = take (Suc n) F"
    using u(1,3) assms(2,3) by (simp add: take_Suc_conv_app_nth uart_inv_def)
  have fl: "frame_like F" using assms(1) by (simp add: at_frame_def)
  note F = frame_likeD [OF fl]
  have sw: "\<exists>u'. ub_switch ?b ?v = (u', False) \<and> ub_catch u' = ub_catch ?v \<and> ub_cur u' = n + 1
      \<and> ub_recvcnt u' = n + 1 \<and> ub_leftlen u' = ub_leftlen ?v \<and> ub_buff u' = ub_buff u
      \<and> ub_state u' = state_at ?L (Suc n) \<and> (ub_do u' = 1 \<longleftrightarrow> Suc n = ?L)
      \<and> (2 \<le> Suc n \<and> Suc n < 6 \<longrightarrow> ub_bytecnt u' = (if odd (Suc n) then 1 else 0))"
  proof -
    have do0: "ub_do u \<noteq> 1" using u(1,4) assms(2) by (auto simp: uart_inv_def state_at_def split: if_splits)
    consider "n = 0" | "n = 1" | "n = 2" | "n = 3" | "n = 4" | "n = 5" | "6 \<le> n" "n + 2 < ?L"
      | "6 \<le> n" "n + 2 = ?L" | "6 \<le> n" "n + 1 = ?L"
      using assms(2) F(1) by linarith
    then show ?thesis
      using u(4,5) do0 F(1-5) F(6,7) [where i = n] assms(2)
      by cases (auto simp: state_at_def ub_switch_def Let_def)
  qed
  then obtain u' where u': "ub_switch ?b ?v = (u', False)" "ub_catch u' = ub_catch ?v" "ub_cur u' = n + 1"
      "ub_recvcnt u' = n + 1" "ub_leftlen u' = ub_leftlen ?v" "ub_buff u' = ub_buff u"
      "ub_state u' = state_at ?L (Suc n)" "ub_do u' = 1 \<longleftrightarrow> Suc n = ?L"
      "2 \<le> Suc n \<and> Suc n < 6 \<longrightarrow> ub_bytecnt u' = (if odd (Suc n) then 1 else 0)" by blast
  have "uart_inv u'"
    using u'(2-8) u(1) assms(2,3) F(1) by (auto simp: uart_inv_def state_at_def split: if_splits)
  then have "at_frame F (Suc n) u'"
    using u'(2,4,7,9) got fl by (simp add: at_frame_def)
  with u' store show ?thesis by (simp add: uart_byte_def)
qed


lemma rev_loop_part:
  assumes "at_frame F n u" and "n + length bs < length F"
    and "length F \<le> UART_BUF_SIZE" and "ub_leftlen u = length (bs @ cs)"
    and "length (bs @ cs) \<le> MAX_BUFF_SIZE" and "bs = take (length bs) (drop n F)"
  shows "\<exists>u'. rev_loop (bs @ cs) u = rev_loop cs u' \<and> at_frame F (n + length bs) u'
    \<and> ub_leftlen u' = length cs \<and> ub_buff u' = ub_buff u"
  using assms
proof (induction bs arbitrary: n u)
  case Nil
  then show ?case by auto
next
  case (Cons b bs)
  have dn: "drop n F = F ! n # drop (Suc n) F"
    using Cons.prems(2) by (intro Cons_nth_drop_Suc [symmetric]) simp
  with Cons.prems(6) have b: "b = F ! n" "bs = take (length bs) (drop (Suc n) F)"
    by simp_all
  from uart_byte_at [OF Cons.prems(1) _ Cons.prems(3)] Cons.prems(2,4,5) obtain u' where
    u': "uart_byte b u = Some (u', False)" "at_frame F (Suc n) u'" "ub_leftlen u' = length (bs @ cs)"
      "ub_do u' \<noteq> 1" "ub_buff u' = ub_buff u"
    unfolding b(1) by auto
  have "rev_loop (b # bs @ cs) u = rev_loop (bs @ cs) u'"
    using u'(1,4) by (simp add: rev_loop.simps(2) [of b "bs @ cs" u])
  with Cons.IH [OF u'(2) _ Cons.prems(3) u'(3) _ b(2)] Cons.prems(2,5) u'(5) show ?case by auto
qed

lemma rev_loop_end:
  assumes "at_frame F n u" and "Suc n = length F"
    and "length F \<le> UART_BUF_SIZE" and "ub_leftlen u = Suc (length cs)"
    and "Suc (length cs) \<le> MAX_BUFF_SIZE"
  shows "\<exists>u'. rev_loop (F ! n # cs) u = Some u' \<and> at_frame F (length F) u'
    \<and> ub_leftlen u' = length cs \<and> take (length cs) (ub_buff u') = cs"
proof -
  from uart_byte_at [OF assms(1) _ assms(3)] assms(2,4,5) obtain u' where
    u': "uart_byte (F ! n) u = Some (u', False)" "at_frame F (length F) u'"
      "ub_leftlen u' = length cs" "ub_do u' = 1" "ub_buff u' = ub_buff u" by auto
  have "length cs \<le> length (ub_buff u')"
    using u'(2) assms(5) by (simp add: at_frame_def uart_inv_def)
  then have "rev_loop (F ! n # cs) u =
      Some (u'\<lparr>ub_buff := cs @ drop (length cs) (ub_buff u')\<rparr>)"
    using u'(1,3,4) by (simp add: rev_loop.simps(2) [of _ cs u] mem_simps)
  with u'(2,3) \<open>length cs \<le> _\<close> show ?thesis by (simp add: at_frame_def uart_inv_def)
qed

lemma rev_loop_noise:
  assumes "at_frame F 0 u" and "0x55 \<notin> set noise" and "ub_leftlen u = length (noise @ cs)"
    and "length (noise @ cs) \<le> MAX_BUFF_SIZE"
  shows "\<exists>u'. rev_loop (noise @ cs) u = rev_loop cs u' \<and> at_frame F 0 u'
    \<and> ub_leftlen u' = length cs \<and> ub_buff u' = ub_buff u"
  using assms
proof (induction noise arbitrary: u)
  case Nil
  then show ?case by auto
next
  case (Cons b noise)
  let ?u = "u\<lparr>ub_catch := (ub_catch u)[0 := b], ub_cur := 0, ub_recvcnt := 0,
      ub_leftlen := length (noise @ cs)\<rparr>"
  have u: "uart_inv u" "ub_recvcnt u = 0" "ub_state u = UART_IDLE" "ub_do u \<noteq> 1"
    using Cons.prems(1) by (auto simp: at_frame_def state_at_def uart_inv_def)
  have "uart_byte b u = Some (?u, False)"
    using ub_store_at [OF u(1), of b] u(2,3) Cons.prems(2-4)
    by (simp add: uart_byte_def ub_switch_def UART_BUF_SIZE_def)
  then have "rev_loop (b # noise @ cs) u = rev_loop (noise @ cs) ?u"
    using u(4) by (simp add: rev_loop.simps(2) [of b "noise @ cs" u])
  moreover have "at_frame F 0 ?u"
    using Cons.prems(1) by (auto simp: at_frame_def uart_inv_def)
  ultimately show ?case
    using Cons.IH [of ?u] Cons.prems(2-4) by auto
qed

text \<open>
  Reads that end inside the frame leave the machine at the position reached; the read that
  brings the last byte completes the frame and keeps what follows it.
\<close>

text \<open>The position after \<open>k\<close> bytes of some noise followed by the frame \<open>F\<close>.\<close>

definition recv_pos :: "u8 list \<Rightarrow> u8 list \<Rightarrow> nat \<Rightarrow> uart_buf \<Rightarrow> bool" where
  "recv_pos F noise k u \<longleftrightarrow> at_frame F (k - length noise) u"

lemma at_frame_leftlen [simp]: "at_frame F n (u\<lparr>ub_leftlen := x\<rparr>) = at_frame F n u"
  by (simp add: at_frame_def uart_inv_def)

lemma rev_loop_skip:
  assumes "recv_pos F noise k u" and "0x55 \<notin> set noise"
    and "c = take m (drop k noise) @ cs" and "ub_leftlen u = length c" and "length c \<le> MAX_BUFF_SIZE"
  shows "\<exists>u'. rev_loop c u = rev_loop cs u' \<and> at_frame F (k - length noise) u'
    \<and> ub_leftlen u' = length cs"
proof (cases "k < length noise")
  case True
  have "0x55 \<notin> set (take m (drop k noise))"
    using assms(2) by (meson in_set_dropD in_set_takeD)
  then show ?thesis
    using rev_loop_noise [of F u "take m (drop k noise)" cs] assms True by (auto simp: recv_pos_def)
next
  case False
  then show ?thesis using assms by (intro exI [of _ u]) (auto simp: recv_pos_def)
qed

lemma process_part:
  assumes "recv_pos F noise k u" and "0x55 \<notin> set noise" and "length F \<le> UART_BUF_SIZE"
    and "c = take (length c) (drop k (noise @ F))"
    and "k + length c < length (noise @ F)" and "length c \<le> MAX_BUFF_SIZE"
  shows "\<exists>u'. uartRevDataProcess c (length c) u = Some u' \<and> recv_pos F noise (k + length c) u'
    \<and> ub_leftlen u' = 0"
proof -
  let ?u = "u\<lparr>ub_leftlen := length c\<rparr>"
  define nc where "nc = take (length c) (drop k noise)"
  define fc where "fc = take (length c - length nc) (drop (k - length noise) F)"
  have nc: "length nc = min (length c) (length noise - k)" by (simp add: nc_def)
  have c: "c = nc @ fc"
    by (subst assms(4)) (simp add: nc_def fc_def min_def)
  then have lc: "length c = length nc + length fc" by simp
  have "recv_pos F noise k ?u" using assms(1) by (simp add: recv_pos_def)
  from rev_loop_skip [OF this assms(2) c [unfolded nc_def] _ assms(6)] obtain v where
    v: "rev_loop c ?u = rev_loop fc v" "at_frame F (k - length noise) v" "ub_leftlen v = length fc"
    by auto
  have fl: "frame_like F" using assms(1) by (simp add: recv_pos_def at_frame_def)
  have lt: "k - length noise + length fc < length F"
    using assms(5) [unfolded length_append] lc nc frame_likeD(1) [OF fl] by linarith
  have "ys = take m xs \<Longrightarrow> ys = take (length ys) xs" for ys xs :: "u8 list" and m
    by (simp add: min_def)
  then have fc: "fc = take (length fc) (drop (k - length noise) F)"
    using fc_def by blast
  moreover have "length fc \<le> MAX_BUFF_SIZE" using assms(6) lc by linarith
  ultimately obtain w where
    w: "rev_loop fc v = Some w" "at_frame F (k - length noise + length fc) w" "ub_leftlen w = 0"
    using rev_loop_part [OF v(2) lt assms(3), of "[]"] v(3) fc by auto
  have "k - length noise + length fc = k + length c - length noise \<or> length fc = 0 \<and> k + length c \<le> length noise"
    using nc lc by linarith
  then have "recv_pos F noise (k + length c) w" using w(2) by (auto simp: recv_pos_def)
  with v(1) w show ?thesis by (simp add: uartRevDataProcess_def mem_simps)
qed

lemma process_end:
  assumes "recv_pos F noise k u" and "0x55 \<notin> set noise" and "length F \<le> UART_BUF_SIZE"
    and "c = drop k (noise @ F) @ cs" and "k < length (noise @ F)"
    and "length c \<le> MAX_BUFF_SIZE"
  shows "\<exists>u'. uartRevDataProcess c (length c) u = Some u' \<and> at_frame F (length F) u'
    \<and> ub_leftlen u' = length cs \<and> take (length cs) (ub_buff u') = cs"
proof -
  let ?u = "u\<lparr>ub_leftlen := length c\<rparr>" and ?k = "length F - 1" and ?n = "k - length noise"
  have fl: "frame_like F" using assms(1) by (simp add: recv_pos_def at_frame_def)
  have k: "?n \<le> ?k" "Suc ?k = length F" using assms(5) frame_likeD(1) [OF fl] by auto
  define as where "as = take (?k - ?n) (drop ?n F)"
  have las: "length as = ?k - ?n" using k by (simp add: as_def)
  have "drop (?k - ?n) (drop ?n F) = [F ! ?k]"
    using k Cons_nth_drop_Suc [of ?k F] by simp
  then have F: "drop ?n F = as @ [F ! ?k]"
    unfolding as_def by (metis append_take_drop_id)
  have c: "c = take (length noise) (drop k noise) @ as @ F ! ?k # cs" by (simp add: assms(4) F)
  have "recv_pos F noise k ?u" using assms(1) by (simp add: recv_pos_def)
  from rev_loop_skip [OF this assms(2) c _ assms(6)] obtain v where
    v: "rev_loop c ?u = rev_loop (as @ F ! ?k # cs) v" "at_frame F ?n v"
      "ub_leftlen v = length (as @ F ! ?k # cs)" by auto
  have le: "length (as @ F ! ?k # cs) \<le> MAX_BUFF_SIZE" using assms(6) unfolding c by simp
  with v(3) las k obtain w where
    w: "rev_loop (as @ F ! ?k # cs) v = rev_loop (F ! ?k # cs) w" "at_frame F ?k w"
      "ub_leftlen w = Suc (length cs)"
    using rev_loop_part [OF v(2) _ assms(3), of as "F ! ?k # cs"] by (auto simp: as_def)
  from rev_loop_end [OF w(2) k(2) assms(3) w(3)] le v(1) w(1) show ?thesis
    by (auto simp: uartRevDataProcess_def mem_simps)
qed

text \<open>Between two frames the machine is idle, which does not depend on the frame to come.\<close>

definition uart_idle :: "uart_buf \<Rightarrow> bool" where
  "uart_idle u \<longleftrightarrow> uart_inv u \<and> ub_recvcnt u = 0 \<and> ub_state u = UART_IDLE"

lemma at_frame_start: "frame_like F \<Longrightarrow> at_frame F 0 u \<longleftrightarrow> uart_idle u"
  by (simp add: at_frame_def uart_idle_def state_at_def)

lemma complete_unpack:
  assumes "at_frame (frame_of d) (length (frame_of d)) u" and "length (frame_of d) \<le> UART_BUF_SIZE"
    and "length d + 4 \<le> cap"
  shows "dataunpack (ub_catch u) cap = Some (int (length d), d @ le32 (uart_fcs d)) \<and> ub_do u = 1"
proof -
  let ?L = "length (frame_of d)"
  have "ub_catch u = frame_of d @ drop ?L (ub_catch u)"
    using assms(1) by (metis append_take_drop_id at_frame_def order_refl take_all)
  moreover have "12 \<le> ?L" using frame_of_length(1) [of d] by simp
  moreover have "?L < 65536" using assms(2) by (simp add: UART_BUF_SIZE_def)
  ultimately show ?thesis
    using unpack_frame [of d cap "drop ?L (ub_catch u)"] assms
    by (auto simp: at_frame_def uart_inv_def state_at_def)
qed


section \<open>Properties\<close>

text \<open>
  C10: whatever bytes a read delivers, the receive machine returns, writes only inside its two
  buffers and keeps its invariant.
\<close>

theorem recv_stays_in_bounds:
  assumes "uart_inv u" and "recvLen \<le> length buf" and "recvLen \<le> MAX_BUFF_SIZE"
  shows "\<exists>u'. uartRevDataProcess buf recvLen u = Some u' \<and> uart_inv u'"
  using assms by (rule uartRevDataProcess_inv)

lemma recv_stays_in_bounds_witness:
  "\<exists>u'. uartRevDataProcess [0x55, 0x55, 0xAA, 1, 2, 0x7e, 3] 7
      \<lparr>ub_recvcnt = 1100, ub_leftlen = 0, ub_catch = replicate 1100 0, ub_buff = replicate 2048 0,
       ub_cur = 1100, ub_state = UART_RECV_DATA, ub_do = 0, ub_bytecnt = 0\<rparr> = Some u' \<and> uart_inv u'"
  by (rule recv_stays_in_bounds) (simp_all add: uart_inv_def UART_BUF_SIZE_def MAX_BUFF_SIZE_def)

text \<open>
  Bytes that arrive while a complete frame waits are lost: the first of them is dropped and
  the others replace what was kept from before, so that a second frame stored there is gone.
\<close>

theorem busy_overwrites_leftover:
  assumes "uart_inv u" and "ub_state u = UART_RECV_BUSY" and "ub_recvcnt u < UART_BUF_SIZE"
    and "length bs < MAX_BUFF_SIZE"
  shows "\<exists>u'. uartRevDataProcess (b # bs) (Suc (length bs)) u = Some u'
    \<and> ub_leftlen u' = length bs \<and> take (length bs) (ub_buff u') = bs
    \<and> ub_state u' = UART_RECV_BUSY \<and> ub_recvcnt u' = ub_recvcnt u
    \<and> take (ub_recvcnt u) (ub_catch u') = take (ub_recvcnt u) (ub_catch u)"
proof -
  let ?n = "ub_recvcnt u"
  let ?u = "u\<lparr>ub_leftlen := Suc (length bs)\<rparr>"
  let ?v = "u\<lparr>ub_catch := (ub_catch u)[?n := b], ub_cur := ?n, ub_leftlen := length bs\<rparr>"
  have u: "uart_inv ?u" "ub_do u = 1" using assms(1,2) by (auto simp: uart_inv_def)
  have "uart_byte b ?u = Some (?v, False)"
    using ub_store_at [OF u(1), of b] assms(2-4)
    by (simp add: uart_byte_def ub_switch_def UART_BUF_SIZE_def)
  moreover have "length bs \<le> length (ub_buff u)" using assms(1,4) by (simp add: uart_inv_def)
  ultimately have "rev_loop (b # bs) ?u = Some (?v\<lparr>ub_buff := bs @ drop (length bs) (ub_buff u)\<rparr>)"
    using u(2) by (simp add: rev_loop.simps(2) [of b bs ?u] mem_simps)
  then show ?thesis by (simp add: uartRevDataProcess_def mem_simps assms(2))
qed

lemma busy_overwrites_leftover_witness:
  "\<exists>u'. uartRevDataProcess [0x55, 0xAA, 4] 3
      \<lparr>ub_recvcnt = 12, ub_leftlen = 2, ub_catch = replicate 1100 0, ub_buff = replicate 2048 1,
       ub_cur = 12, ub_state = UART_RECV_BUSY, ub_do = 1, ub_bytecnt = 0\<rparr> = Some u'
    \<and> ub_leftlen u' = 2 \<and> take 2 (ub_buff u') = [0xAA, 4]"
  using busy_overwrites_leftover [of "\<lparr>ub_recvcnt = 12, ub_leftlen = 2, ub_catch = replicate 1100 0,
      ub_buff = replicate 2048 1, ub_cur = 12, ub_state = UART_RECV_BUSY, ub_do = 1, ub_bytecnt = 0\<rparr>"
      "[0xAA, 4]" "0x55"]
  by (auto simp: uart_inv_def UART_BUF_SIZE_def MAX_BUFF_SIZE_def numeral_2_eq_2 numeral_3_eq_3)

end
