(* ===== verification/UartPort.thy ===== *)
theory UartPort
  imports UartRecv
begin

text \<open>
  The port table \<^verbatim>\<open>gsUartInfo\<close> of \<^verbatim>\<open>hw/common/source/comUart.c\<close> and the operations on it: opening and
  configuring a port, sending a packed payload, and one poll of the receiver. What the kernel
  answers (\<^verbatim>\<open>open\<close>, \<^verbatim>\<open>select\<close>, \<^verbatim>\<open>read\<close>, \<^verbatim>\<open>tcsetattr\<close>) is an argument of the operation that asks.
\<close>

record uart_info =
  ui_fd :: int
  ui_name :: string
  ui_serial :: int
  ui_buf :: uart_buf

definition MAX_UART_CNT :: nat where "MAX_UART_CNT = 3"

definition LCD_UART :: nat where "LCD_UART = 2"
definition PWR_UART :: nat where "PWR_UART = 1"
definition BOX_UART :: nat where "BOX_UART = 0"

definition SUCCESS :: int where "SUCCESS = 0"
definition FAILED :: int where "FAILED = -1"

definition ub_zero :: uart_buf where
  "ub_zero = \<lparr>ub_recvcnt = 0, ub_leftlen = 0, ub_catch = replicate UART_BUF_SIZE 0,
     ub_buff = replicate MAX_BUFF_SIZE 0, ub_cur = 0, ub_state = UART_IDLE, ub_do = 0, ub_bytecnt = 0\<rparr>"

definition gsUartInfo_init :: "uart_info list" where
  "gsUartInfo_init =
     [\<lparr>ui_fd = -1, ui_name = ''ttyPS0'', ui_serial = 0, ui_buf = ub_zero\<rparr>,
      \<lparr>ui_fd = -1, ui_name = ''ttyPS1'', ui_serial = 1, ui_buf = ub_zero\<rparr>,
      \<lparr>ui_fd = -1, ui_name = ''ttyACM0'', ui_serial = 2, ui_buf = ub_zero\<rparr>]"

definition getPwrUartNo :: "uart_info list \<Rightarrow> int" where
  "getPwrUartNo tab = ui_serial (tab ! PWR_UART)"
definition getLcdUartNo :: "uart_info list \<Rightarrow> int" where
  "getLcdUartNo tab = ui_serial (tab ! LCD_UART)"
definition getBoxUartNo :: "uart_info list \<Rightarrow> int" where
  "getBoxUartNo tab = ui_serial (tab ! BOX_UART)"

section \<open>Looking a port up\<close>

text \<open>The search loop all operations start with: the index, or \<open>MAX_UART_CNT\<close> when not found.\<close>

fun search_serial :: "int \<Rightarrow> uart_info list \<Rightarrow> nat \<Rightarrow> nat" where
  "search_serial no [] serial = serial"
| "search_serial no (u # us) serial = (if no = ui_serial u then serial else search_serial no us (Suc serial))"

definition find_serial :: "int \<Rightarrow> uart_info list \<Rightarrow> nat" where
  "find_serial no tab = search_serial no (take MAX_UART_CNT tab) 0"

text \<open>\<^verbatim>\<open>FindSeiralInUartInfo\<close> keeps the last match; \<^verbatim>\<open>uartGetSerialfd\<close> looks at five entries.\<close>

definition FindSeiralInUartInfo :: "int \<Rightarrow> uart_info list \<Rightarrow> int" where
  "FindSeiralInUartInfo no tab =
     fold (\<lambda>i nIndex. if no = ui_serial (tab ! i) then int i else nIndex) [0..<MAX_UART_CNT] (-1)"

fun serialfd_loop :: "int \<Rightarrow> nat \<Rightarrow> uart_info list \<Rightarrow> int option" where
  "serialfd_loop no 0 us = Some (-1)"
| "serialfd_loop no (Suc k) [] = None"
| "serialfd_loop no (Suc k) (u # us) = (if no = ui_serial u then Some (ui_fd u) else serialfd_loop no k us)"

definition uartGetSerialfd :: "int \<Rightarrow> uart_info list \<Rightarrow> int option" where
  "uartGetSerialfd no tab = serialfd_loop no 5 tab"

section \<open>Initialisation and line settings\<close>

definition ub_clear :: "uart_buf \<Rightarrow> uart_buf" where
  "ub_clear u = u\<lparr>ub_do := 0, ub_recvcnt := 0, ub_bytecnt := 0, ub_state := UART_IDLE, ub_cur := 0\<rparr>"

definition uartInitInfo :: "uart_info list \<Rightarrow> uart_info list" where
  "uartInitInfo tab =
     map (\<lambda>u. u\<lparr>ui_fd := -1, ui_buf := (ub_clear (ui_buf u))\<lparr>ub_leftlen := 0\<rparr>\<rparr>) (take MAX_UART_CNT tab)
     @ drop MAX_UART_CNT tab"

text \<open>The settings of a line, with the flag bits of the Linux header \<^verbatim>\<open>termios.h\<close>.\<close>

record termios =
  c_iflag :: u32
  c_oflag :: u32
  c_cflag :: u32
  c_lflag :: u32
  c_vtime :: nat
  c_vmin :: nat
  c_ispeed :: nat
  c_ospeed :: nat

text \<open>The table \<^verbatim>\<open>gsname_arr\<close> with the codes of \<^verbatim>\<open>gsspeed_arr\<close>.\<close>

definition gsspeed_arr :: "nat list" where
  "gsspeed_arr = [15, 14, 13, 12, 11, 9, 7, 4098, 14, 13, 12, 11, 9, 7]"

definition gsname_arr :: "int list" where
  "gsname_arr =
     [38400, 19200, 9600, 4800, 2400, 1200, 300, 115200, 19200, 9600, 4800, 2400, 1200, 300]"

text \<open>\<open>dev\<close> is the setting of the line, \<open>opt\<close> the local copy; \<open>status\<close> is what \<^verbatim>\<open>tcsetattr\<close> returns.\<close>

fun speed_loop :: "int \<Rightarrow> int \<Rightarrow> (int \<times> nat) list \<Rightarrow> termios \<Rightarrow> termios \<Rightarrow> termios" where
  "speed_loop status speed [] opt dev = dev"
| "speed_loop status speed ((name, code) # rest) opt dev =
     (if speed = name then
        let opt' = opt\<lparr>c_ispeed := code, c_ospeed := code\<rparr> in
        if status \<noteq> 0 then dev else speed_loop status speed rest opt' opt'
      else speed_loop status speed rest opt dev)"

definition uartSetSpeed :: "int \<Rightarrow> int \<Rightarrow> termios \<Rightarrow> termios" where
  "uartSetSpeed status speed dev = speed_loop status speed (zip gsname_arr gsspeed_arr) dev dev"

definition CSIZE :: u32 where "CSIZE = 0x30"
definition CS7 :: u32 where "CS7 = 0x20"
definition CS8 :: u32 where "CS8 = 0x30"
definition CSTOPB :: u32 where "CSTOPB = 0x40"
definition CREAD :: u32 where "CREAD = 0x80"
definition PARENB :: u32 where "PARENB = 0x100"
definition PARODD :: u32 where "PARODD = 0x200"
definition CLOCAL :: u32 where "CLOCAL = 0x800"
definition CRTSCTS :: u32 where "CRTSCTS = 0x80000000"
definition INPCK :: u32 where "INPCK = 0x10"
definition INLCR :: u32 where "INLCR = 0x40"
definition ICRNL :: u32 where "ICRNL = 0x100"
definition IXON :: u32 where "IXON = 0x400"
definition IXANY :: u32 where "IXANY = 0x800"
definition IXOFF :: u32 where "IXOFF = 0x1000"
definition ISIG :: u32 where "ISIG = 1"
definition ICANON :: u32 where "ICANON = 2"
definition ECHO :: u32 where "ECHO = 8"
definition ECHOE :: u32 where "ECHOE = 0x10"
definition IEXTEN :: u32 where "IEXTEN = 0x8000"
definition OPOST :: u32 where "OPOST = 1"
definition ONLCR :: u32 where "ONLCR = 4"
definition OCRNL :: u32 where "OCRNL = 8"

lemmas termios_bits = CSIZE_def CS7_def CS8_def CSTOPB_def CREAD_def PARENB_def PARODD_def CLOCAL_def
  CRTSCTS_def INPCK_def INLCR_def ICRNL_def IXON_def IXANY_def IXOFF_def ISIG_def ICANON_def
  ECHO_def ECHOE_def IEXTEN_def OPOST_def ONLCR_def OCRNL_def

definition set_databits :: "int \<Rightarrow> termios \<Rightarrow> termios option" where
  "set_databits databits opt =
     (let opt = opt\<lparr>c_cflag := c_cflag opt AND NOT CSIZE\<rparr> in
      if databits = 7 then Some (opt\<lparr>c_cflag := c_cflag opt OR CS7\<rparr>)
      else if databits = 8 then Some (opt\<lparr>c_cflag := c_cflag opt OR CS8\<rparr>)
      else None)"

definition set_parity :: "char \<Rightarrow> termios \<Rightarrow> termios option" where
  "set_parity parity opt =
     (if parity \<in> {CHR ''n'', CHR ''N''} then
        Some (opt\<lparr>c_cflag := c_cflag opt AND NOT PARENB, c_iflag := c_iflag opt AND NOT INPCK\<rparr>)
      else if parity \<in> {CHR ''o'', CHR ''O''} then
        Some (opt\<lparr>c_cflag := c_cflag opt OR (PARODD OR PARENB), c_iflag := c_iflag opt OR INPCK\<rparr>)
      else if parity \<in> {CHR ''e'', CHR ''E''} then
        Some (opt\<lparr>c_cflag := (c_cflag opt OR PARENB) AND NOT PARODD, c_iflag := c_iflag opt OR INPCK\<rparr>)
      else if parity \<in> {CHR ''S'', CHR ''s''} then
        Some (opt\<lparr>c_cflag := (c_cflag opt AND NOT PARENB) AND NOT CSTOPB\<rparr>)
      else None)"

definition set_stopbits :: "int \<Rightarrow> termios \<Rightarrow> termios option" where
  "set_stopbits stopbits opt =
     (if stopbits = 1 then Some (opt\<lparr>c_cflag := c_cflag opt AND NOT CSTOPB\<rparr>)
      else if stopbits = 2 then Some (opt\<lparr>c_cflag := c_cflag opt OR CSTOPB\<rparr>)
      else None)"

definition set_raw :: "char \<Rightarrow> termios \<Rightarrow> termios" where
  "set_raw parity opt =
     (let iflag = (if parity \<noteq> CHR ''n'' then c_iflag opt OR INPCK else c_iflag opt);
          lflag = c_lflag opt AND NOT (ICANON OR ECHO OR ECHOE OR ISIG OR INLCR OR ICRNL OR IEXTEN);
          cflag = c_cflag opt OR (CLOCAL OR CREAD);
          lflag = lflag AND NOT (ICANON OR ECHO OR ECHOE OR ISIG);
          oflag = c_oflag opt AND NOT OPOST;
          oflag = oflag AND NOT (ONLCR OR OCRNL);
          iflag = iflag AND NOT (ICRNL OR INLCR);
          iflag = iflag AND NOT (IXON OR IXOFF OR IXANY);
          cflag = cflag AND NOT CRTSCTS in
      opt\<lparr>c_iflag := iflag, c_lflag := lflag, c_cflag := cflag, c_oflag := oflag,
          c_vtime := 0, c_vmin := 0\<rparr>)"

text \<open>
  \<^verbatim>\<open>uartSetParity\<close>: \<open>getst\<close> and \<open>setst\<close> are the results of \<^verbatim>\<open>tcgetattr\<close> and \<^verbatim>\<open>tcsetattr\<close>; the
  value is the return code and the setting of the line afterwards.
\<close>

definition uartSetParity ::
  "int \<Rightarrow> int \<Rightarrow> int \<Rightarrow> int \<Rightarrow> char \<Rightarrow> termios \<Rightarrow> int \<times> termios" where
  "uartSetParity getst setst databits stopbits parity dev =
     (if getst \<noteq> 0 then (-1, dev)
      else case Option.bind (Option.bind (set_databits databits dev) (set_parity parity))
                  (set_stopbits stopbits) of
        None \<Rightarrow> (-1, dev)
      | Some opt \<Rightarrow> if setst \<noteq> 0 then (-1, dev) else (0, set_raw parity opt))"

definition uartOpenAndSetData ::
  "int \<Rightarrow> int \<Rightarrow> int \<Rightarrow> int \<Rightarrow> int \<Rightarrow> int \<Rightarrow> char \<Rightarrow> termios \<Rightarrow> int \<times> termios" where
  "uartOpenAndSetData fd getst setst baud databit stopbit ecc dev =
     (if fd < 0 then (fd, dev)
      else
        let dev1 = uartSetSpeed setst baud dev;
            (ret, dev2) = uartSetParity getst setst databit stopbit ecc dev1 in
        if ret < 0 then (-1, dev2) else (fd, dev2))"

definition uartOpenAndSet :: "int \<Rightarrow> int \<Rightarrow> int \<Rightarrow> termios \<Rightarrow> int \<times> termios" where
  "uartOpenAndSet fd getst setst dev = uartOpenAndSetData fd getst setst 115200 8 1 (CHR ''N'') dev"

text \<open>\<^verbatim>\<open>uartInitTty\<close>; the argument \<open>fd\<close> is what \<^verbatim>\<open>uartOpenAndSet\<close> returns for the port.\<close>

definition uartInitTty :: "(string \<Rightarrow> int) \<Rightarrow> int \<Rightarrow> uart_info list \<Rightarrow> int \<times> uart_info list" where
  "uartInitTty openset serialNo tab =
     (let serial = find_serial serialNo tab in
      if serial \<ge> MAX_UART_CNT then (-1, tab)
      else
        let fd = openset (''/dev/'' @ ui_name (tab ! serial));
            tab' = tab[serial := (tab ! serial)\<lparr>ui_fd := fd\<rparr>] in
        (if fd < 0 then -2 else 0, tab'))"

definition uartInit :: "(string \<Rightarrow> int) \<Rightarrow> uart_info list \<Rightarrow> uart_info list" where
  "uartInit openset tab =
     fold (\<lambda>i t. if ui_serial (t ! i) \<ge> 0 then snd (uartInitTty openset (ui_serial (t ! i)) t) else t)
       [0..<MAX_UART_CNT] (uartInitInfo tab)"


text \<open>Comparing two words of this size bit by bit.\<close>

lemma word32_eqI:
  assumes "list_all (\<lambda>n. bit (x :: u32) n = bit y n) [0..<32]"
  shows "x = y"
  by (rule bit_word_eqI) (use assms in \<open>simp add: list_all_iff\<close>)

section \<open>Properties\<close>

text \<open>
  Opening a port that the kernel grants leaves the line at 115200 baud, 8 data bits, no
  parity bit, one stop bit and no hardware flow control, without echo or line editing, and
  reading without waiting. The upper-case parity letter leaves the parity check of the input on.
\<close>

theorem open_line_setting:
  "\<exists>dev'. uartOpenAndSet (int fd) 0 0 dev = (int fd, dev') \<and> c_ispeed dev' = 4098 \<and> c_ospeed dev' = 4098
    \<and> c_cflag dev' AND (CSIZE OR PARENB OR CSTOPB OR CRTSCTS) = CS8
    \<and> c_cflag dev' AND (CREAD OR CLOCAL) = CREAD OR CLOCAL
    \<and> c_lflag dev' AND (ICANON OR ECHO OR ISIG) = 0 \<and> c_vmin dev' = 0 \<and> c_vtime dev' = 0
    \<and> c_iflag dev' AND INPCK = INPCK"
proof -
  define dev1 where "dev1 = dev\<lparr>c_ispeed := 4098, c_ospeed := 4098\<rparr>"
  have speed: "uartSetSpeed 0 115200 dev = dev1"
    by (simp add: uartSetSpeed_def gsname_arr_def gsspeed_arr_def Let_def dev1_def)
  define opt where "opt = dev1\<lparr>c_iflag := c_iflag dev1 AND NOT INPCK,
      c_cflag := (((c_cflag dev1 AND NOT CSIZE) OR CS8) AND NOT PARENB) AND NOT CSTOPB\<rparr>"
  have "uartSetParity 0 0 8 1 (CHR ''N'') dev1 = (0, set_raw (CHR ''N'') opt)"
    by (simp add: uartSetParity_def set_databits_def set_parity_def set_stopbits_def Let_def opt_def)
  then have run: "uartOpenAndSet (int fd) 0 0 dev = (int fd, set_raw (CHR ''N'') opt)"
    by (simp add: uartOpenAndSet_def uartOpenAndSetData_def speed)
  have "c_cflag (set_raw (CHR ''N'') opt) AND (CSIZE OR PARENB OR CSTOPB OR CRTSCTS) = CS8"
    "c_cflag (set_raw (CHR ''N'') opt) AND (CREAD OR CLOCAL) = CREAD OR CLOCAL"
    "c_lflag (set_raw (CHR ''N'') opt) AND (ICANON OR ECHO OR ISIG) = 0"
    "c_iflag (set_raw (CHR ''N'') opt) AND INPCK = INPCK"
    by (rule word32_eqI, simp add: upt_rec set_raw_def Let_def opt_def termios_bits bit_simps)+
  then show ?thesis unfolding run by (simp add: set_raw_def Let_def opt_def dev1_def)
qed

end
