(* ===== verification/UartLink.thy ===== *)
theory UartLink
  imports UartPort
begin

text \<open>
  Sending and receiving over the ports of \<^verbatim>\<open>hw/common/source/comUart.c\<close>, and the request/answer
  exchange with a board built on them.
\<close>

section \<open>Sending\<close>

text \<open>
  \<^verbatim>\<open>uartWriteData\<close>: the return code and the bytes given to \<^verbatim>\<open>write\<close>. The payload is packed into
  a local array of \<open>UART_BUF_SIZE\<close> bytes; \<open>None\<close> is a write past its end, or a read past the
  end of the payload.
\<close>

definition payload_bytes :: "u8 list \<Rightarrow> int \<Rightarrow> u8 list option" where
  "payload_bytes pBuf writeLen = (if writeLen < 0 then None else mem_read 0 (nat writeLen) pBuf)"

definition uartWriteData ::
  "int \<Rightarrow> u8 list option \<Rightarrow> int \<Rightarrow> uart_info list \<Rightarrow> (int \<times> u8 list) option" where
  "uartWriteData serialNo pBuf writeLen tab =
     (if writeLen > 1080 then Some (2, [])
      else
        let serial = find_serial serialNo tab in
        if serial \<ge> MAX_UART_CNT then Some (3, [])
        else case pBuf of
          None \<Rightarrow> Some (4, [])
        | Some bs \<Rightarrow> do {
            d \<leftarrow> payload_bytes bs writeLen;
            outBuf \<leftarrow> datapack d UART_BUF_SIZE;
            Some (if ui_fd (tab ! serial) \<ge> 0 then (0, outBuf) else (1, []))
          })"

definition uartWriteDataNoCrc ::
  "int \<Rightarrow> u8 list option \<Rightarrow> int \<Rightarrow> uart_info list \<Rightarrow> (int \<times> u8 list) option" where
  "uartWriteDataNoCrc serialno pBuf writeLen tab =
     (if writeLen > 1080 then Some (2, [])
      else
        let serial = find_serial serialno tab in
        if serial \<ge> MAX_UART_CNT then Some (3, [])
        else case pBuf of
          None \<Rightarrow> Some (4, [])
        | Some bs \<Rightarrow>
            if ui_fd (tab ! serial) \<ge> 0 then map_option (Pair 0) (payload_bytes bs writeLen)
            else Some (1, []))"

text \<open>
  \<^verbatim>\<open>__writeData\<close>: the buffer in pieces of at most 16 bytes; the result of a \<^verbatim>\<open>write\<close> is only
  printed. A negative length never becomes zero by these steps.
\<close>

fun writeData_loop :: "nat \<Rightarrow> u8 list \<Rightarrow> u8 list list" where
  "writeData_loop 0 bs = []"
| "writeData_loop (Suc k) bs =
     (let sendlen = (if Suc k \<ge> 16 then 16 else Suc k) in
      take sendlen bs # writeData_loop (Suc k - sendlen) (drop sendlen bs))"

section \<open>Receiving\<close>

definition set_buf :: "nat \<Rightarrow> uart_buf \<Rightarrow> uart_info list \<Rightarrow> uart_info list" where
  "set_buf i b tab = tab[i := (tab ! i)\<lparr>ui_buf := b\<rparr>]"

text \<open>
  What one poll finds: the result of \<^verbatim>\<open>select\<close> and, when that is positive, what \<^verbatim>\<open>read\<close> delivers
  (nothing when it fails).
\<close>

type_synonym poll = "int \<times> u8 list"

definition feed_poll :: "poll \<Rightarrow> uart_buf \<Rightarrow> uart_buf option" where
  "feed_poll p b = do {
     b1 \<leftarrow> (if ub_leftlen b > 0 then uartRevDataProcess (ub_buff b) (ub_leftlen b) b else Some b);
     if fst p > 0 \<and> snd p \<noteq> [] then uartRevDataProcess (snd p) (length (snd p)) b1 else Some b1
   }"

text \<open>
  \<^verbatim>\<open>uartReadData\<close>: return code, output bytes and table. A closed port puts a negative descriptor
  into the descriptor set, which is undefined.
\<close>

definition uartReadData ::
  "int \<Rightarrow> poll \<Rightarrow> nat option \<Rightarrow> uart_info list \<Rightarrow> (int \<times> u8 list \<times> uart_info list) option" where
  "uartReadData serialNo p pOutBuf tab =
     (let serial = find_serial serialNo tab in
      if serial \<ge> MAX_UART_CNT then Some (-4, [], tab)
      else case pOutBuf of
        None \<Rightarrow> Some (-3, [], tab)
      | Some cap \<Rightarrow>
          if ui_fd (tab ! serial) < 0 then None
          else do {
            b \<leftarrow> feed_poll p (ui_buf (tab ! serial));
            if ub_do b = 1 then do {
              (ret, out) \<leftarrow> dataunpack (ub_catch b) cap;
              Some (ret, out, set_buf serial (ub_clear b) tab)
            }
            else Some (-1, [], set_buf serial b tab)
          })"

definition uartClearData :: "int \<Rightarrow> poll \<Rightarrow> uart_info list \<Rightarrow> (int \<times> uart_info list) option" where
  "uartClearData serialNo p tab =
     (let serial = find_serial serialNo tab in
      if serial \<ge> MAX_UART_CNT then Some (-1, tab)
      else if ui_fd (tab ! serial) < 0 then Some (-2, tab)
      else if fst p \<le> 0 then Some (0, tab)
      else do {
        let b = ui_buf (tab ! serial);
        c \<leftarrow> mem_write 0 (snd p) (ub_catch b);
        Some (0, set_buf serial (ub_clear (b\<lparr>ub_catch := c\<rparr>)) tab)
      })"

definition openUart ::
  "(string \<Rightarrow> int) \<Rightarrow> poll \<Rightarrow> int \<Rightarrow> uart_info list \<Rightarrow> (int \<times> uart_info list) option" where
  "openUart openset p nIndex tab =
     (if nIndex \<ge> int MAX_UART_CNT \<or> nIndex < 0 then Some (FAILED, tab)
      else do {
        let i = nat nIndex;
        let b = (ub_clear (ui_buf (tab ! i)))\<lparr>ub_leftlen := 0\<rparr>;
        let tab1 = tab[i := (tab ! i)\<lparr>ui_buf := b, ui_fd := openset (''/dev/'' @ ui_name (tab ! i))\<rparr>];
        (_, tab2) \<leftarrow> uartClearData (ui_serial (tab1 ! i)) p tab1;
        Some (SUCCESS, tab2)
      })"

text \<open>
  \<^verbatim>\<open>closeUart\<close> lets the index \<open>MAX_UART_CNT\<close> through, which is past the table. Its \<^verbatim>\<open>memset\<close> also
  makes the write pointer null, which the model does not tell from the start of the buffer.
\<close>

definition closeUart :: "poll \<Rightarrow> int \<Rightarrow> uart_info list \<Rightarrow> uart_info list option" where
  "closeUart p nIndex tab =
     (if nIndex > int MAX_UART_CNT \<or> nIndex < 0 then Some tab
      else if nat nIndex \<ge> length tab then None
      else do {
        let i = nat nIndex;
        (_, tab1) \<leftarrow> uartClearData (ui_serial (tab ! i)) p tab;
        Some (tab1[i := (tab1 ! i)\<lparr>ui_buf := ub_zero, ui_fd := -1\<rparr>])
      })"

section \<open>Exchange with a board\<close>

definition uartSendMsgToBoard ::
  "int \<Rightarrow> u8 list option \<Rightarrow> u16 \<Rightarrow> poll \<Rightarrow> uart_info list \<Rightarrow> (int \<times> u8 list \<times> uart_info list) option" where
  "uartSendMsgToBoard serialNo pBuf nLen p tab =
     (if serialNo \<ge> 0 then do {
        (_, tab1) \<leftarrow> uartClearData serialNo p tab;
        (ret, out) \<leftarrow> uartWriteData serialNo pBuf (int (unat nLen)) tab1;
        Some (ret, out, tab1)
      }
      else Some (FAILED, [], tab))"

text \<open>
  \<^verbatim>\<open>uartWaitRecvData\<close>: one list element per turn of the loop, the poll of that turn and whether
  time is left after it. The value is the return code (0 success, 1 timeout), the answer and
  the table; \<open>None\<close> also when the list ends before the loop does.
\<close>

fun uartWaitRecvData ::
  "int \<Rightarrow> nat \<Rightarrow> (poll \<times> bool) list \<Rightarrow> uart_info list \<Rightarrow> (int \<times> u8 list \<times> uart_info list) option" where
  "uartWaitRecvData no cap [] tab = None"
| "uartWaitRecvData no cap ((p, time_left) # turns) tab = do {
     (readlen, out, tab1) \<leftarrow> uartReadData no p (Some cap) tab;
     if readlen > 0 then Some (0, take (nat readlen) out, tab1)
     else if time_left then uartWaitRecvData no cap turns tab1
     else Some (1, [], tab1)
   }"

text \<open>
  \<^verbatim>\<open>uartProcNormalCmd\<close>: the return code, the bytes sent, the answer passed on (when a node was
  given and the answer came), and the table.
\<close>

definition uartProcNormalCmd ::
  "int \<Rightarrow> u8 list option \<Rightarrow> u16 \<Rightarrow> bool \<Rightarrow> poll \<Rightarrow> (poll \<times> bool) list \<Rightarrow> uart_info list
     \<Rightarrow> (int \<times> u8 list \<times> u8 list option \<times> uart_info list) option" where
  "uartProcNormalCmd no pBuf nLen pNode p turns tab = do {
     (sent, bytes, tab1) \<leftarrow> uartSendMsgToBoard no pBuf nLen p tab;
     (ret, answer, tab2) \<leftarrow>
       (if sent = 0 then uartWaitRecvData no 1024 turns tab1
        else Some (SUCCESS, [], tab1));
     Some (ret, bytes, if pNode \<and> ret = 0 then Some answer else None, tab2)
   }"

definition uartProcNormalCmdNoWait ::
  "int \<Rightarrow> u8 list option \<Rightarrow> u16 \<Rightarrow> poll \<Rightarrow> uart_info list \<Rightarrow> (int \<times> u8 list \<times> uart_info list) option" where
  "uartProcNormalCmdNoWait no pBuf nLen p tab = do {
     (sent, bytes, tab1) \<leftarrow> uartSendMsgToBoard no pBuf nLen p tab;
     Some (if sent = 0 then SUCCESS else FAILED, bytes, tab1)
   }"


section \<open>An answer arrives\<close>

definition port_at :: "int \<Rightarrow> nat \<Rightarrow> uart_info list \<Rightarrow> bool" where
  "port_at no i tab \<longleftrightarrow> find_serial no tab = i \<and> i < MAX_UART_CNT \<and> length tab = MAX_UART_CNT
     \<and> ui_fd (tab ! i) \<ge> 0"

lemma search_serial_cong:
  "map ui_serial us = map ui_serial vs \<Longrightarrow> search_serial no us k = search_serial no vs k"
proof (induction us arbitrary: vs k)
  case (Cons u us)
  then show ?case by (cases vs) auto
qed simp

lemma port_at_set_buf [simp]: "port_at no i (set_buf i b tab) = port_at no i tab"
proof (cases "i < length tab")
  case True
  have "map ui_serial (take n (set_buf i b tab)) = map ui_serial (take n tab)" for n
    by (rule nth_equalityI) (auto simp: set_buf_def nth_list_update True)
  from search_serial_cong [OF this] True show ?thesis
    by (simp add: port_at_def find_serial_def set_buf_def)
qed (simp add: set_buf_def list_update_beyond)

lemma nth_set_buf [simp]: "i < length tab \<Longrightarrow> ui_buf (set_buf i b tab ! i) = b"
  by (simp add: set_buf_def)

text \<open>What a poll adds to the bytes received.\<close>

definition poll_bytes :: "poll \<Rightarrow> u8 list" where
  "poll_bytes p = (if fst p > 0 then snd p else [])"

lemma feed_poll_empty: "ub_leftlen b = 0 \<Longrightarrow> poll_bytes p = [] \<Longrightarrow> feed_poll p b = Some b"
  by (auto simp: feed_poll_def poll_bytes_def)

lemma feed_poll_bytes:
  "ub_leftlen b = 0 \<Longrightarrow> poll_bytes p \<noteq> [] \<Longrightarrow>
    feed_poll p b = uartRevDataProcess (poll_bytes p) (length (poll_bytes p)) b"
  by (auto simp: feed_poll_def poll_bytes_def split: if_splits)

lemma at_frame_not_done:
  "at_frame F n b \<Longrightarrow> n < length F \<Longrightarrow> ub_do b \<noteq> 1"
  by (auto simp: at_frame_def uart_inv_def state_at_def split: if_splits)

lemma ub_clear_idle: "uart_inv b \<Longrightarrow> uart_idle (ub_clear b)"
  by (simp add: uart_idle_def uart_inv_def ub_clear_def)

lemma wait_recv:
  assumes "port_at no i tab" and "recv_pos (frame_of d) noise k (ui_buf (tab ! i))"
    and "ub_leftlen (ui_buf (tab ! i)) = 0" and "0x55 \<notin> set noise" and "d \<noteq> []"
    and "length (frame_of d) \<le> UART_BUF_SIZE" and "length d + 4 \<le> cap"
    and "\<forall>p \<in> set ps. length (poll_bytes p) \<le> MAX_BUFF_SIZE"
    and "concat (map poll_bytes ps) = drop k (noise @ frame_of d)"
    and "k < length (noise @ frame_of d)"
  shows "\<exists>tab'. uartWaitRecvData no cap (map (\<lambda>p. (p, True)) ps) tab = Some (0, d, tab')
    \<and> port_at no i tab' \<and> uart_idle (ui_buf (tab' ! i)) \<and> ub_leftlen (ui_buf (tab' ! i)) = 0"
  using assms
proof (induction ps arbitrary: tab k)
  case Nil
  from Nil(9,10) show ?case by auto
next
  case (Cons p ps)
  let ?b = "ui_buf (tab ! i)" and ?c = "poll_bytes p" and ?N = "length (noise @ frame_of d)"
  have tab: "find_serial no tab = i" "i < MAX_UART_CNT" "i < length tab" "ui_fd (tab ! i) \<ge> 0"
    using Cons.prems(1) by (auto simp: port_at_def)
  have c: "?c = take (length ?c) (drop k (noise @ frame_of d))"
    using Cons.prems(9) by (metis append_eq_conv_conj concat.simps(2) list.simps(9))
  have rest: "concat (map poll_bytes ps) = drop (k + length ?c) (noise @ frame_of d)"
    using Cons.prems(9) by (metis append_eq_conv_conj concat.simps(2) drop_drop add.commute list.simps(9))
  have le: "length ?c \<le> MAX_BUFF_SIZE" using Cons.prems(8) by simp
  have "k + length ?c \<le> ?N"
  proof -
    have "length ?c \<le> ?N - k" by (metis c length_drop length_take min.cobounded1)
    then show ?thesis using Cons.prems(10) by linarith
  qed
  then consider (part) "k + length ?c < ?N" | (full) "k + length ?c = ?N" by linarith
  then show ?case
  proof cases
    case part
    have "\<exists>b. feed_poll p ?b = Some b \<and> recv_pos (frame_of d) noise (k + length ?c) b \<and> ub_leftlen b = 0"
    proof (cases "?c = []")
      case True
      with feed_poll_empty [OF Cons.prems(3) True] Cons.prems(2,3) show ?thesis by simp
    next
      case False
      with process_part [OF Cons.prems(2,4,6) c part le] feed_poll_bytes [OF Cons.prems(3) False]
      show ?thesis by simp
    qed
    then obtain b where
      b: "feed_poll p ?b = Some b" "recv_pos (frame_of d) noise (k + length ?c) b" "ub_leftlen b = 0" by blast
    have "ub_do b \<noteq> 1"
      using b(2) part frame_of_length(1) [of d]
      by (intro at_frame_not_done [of "frame_of d" "k + length ?c - length noise"]) (auto simp: recv_pos_def)
    with b(1) tab have "uartReadData no p (Some cap) tab = Some (-1, [], set_buf i b tab)"
      by (simp add: uartReadData_def Let_def)
    then have "uartWaitRecvData no cap (map (\<lambda>p. (p, True)) (p # ps)) tab =
        uartWaitRecvData no cap (map (\<lambda>p. (p, True)) ps) (set_buf i b tab)" by simp
    with Cons.IH [of "set_buf i b tab" "k + length ?c"] Cons.prems b(2,3) rest part tab
    show ?thesis by simp
  next
    case full
    have ne: "?c \<noteq> []" using full Cons.prems(10) by auto
    have "?c = drop k (noise @ frame_of d) @ []" using c full by simp
    from process_end [OF Cons.prems(2,4,6) this Cons.prems(10) le] obtain b where
      b: "feed_poll p ?b = Some b" "at_frame (frame_of d) (length (frame_of d)) b" "ub_leftlen b = 0"
      using feed_poll_bytes [OF Cons.prems(3) ne] by auto
    from complete_unpack [OF b(2) Cons.prems(6,7)] b(1) tab
    have "uartReadData no p (Some cap) tab =
        Some (int (length d), d @ le32 (uart_fcs d), set_buf i (ub_clear b) tab)"
      by (simp add: uartReadData_def Let_def)
    then have "uartWaitRecvData no cap (map (\<lambda>p. (p, True)) (p # ps)) tab =
        Some (0, d, set_buf i (ub_clear b) tab)"
      using Cons.prems(5) by simp
    moreover have "uart_idle (ub_clear b)" using b(2) by (intro ub_clear_idle) (simp add: at_frame_def)
    moreover have "ub_leftlen (ub_clear b) = 0" using b(3) by (simp add: ub_clear_def)
    ultimately show ?thesis using Cons.prems(1) tab(3) by auto
  qed
qed


section \<open>Properties\<close>

text \<open>A table with the first port open, for the instances below.\<close>

definition open_table :: "uart_info list" where
  "open_table = gsUartInfo_init[0 := (gsUartInfo_init ! 0)\<lparr>ui_fd := 5\<rparr>]"

lemma open_table_port: "port_at 0 0 open_table" "uart_idle (ui_buf (open_table ! 0))"
    "ub_leftlen (ui_buf (open_table ! 0)) = 0"
  by (simp_all add: port_at_def open_table_def gsUartInfo_init_def find_serial_def MAX_UART_CNT_def
      uart_idle_def uart_inv_def ub_zero_def)

lemma write_fits:
  assumes "port_at no i tab" and "length d \<le> 1080" and "length (frame_of d) \<le> UART_BUF_SIZE"
  shows "uartWriteData no (Some d) (int (length d)) tab = Some (0, frame_of d)"
  using assms by (simp add: uartWriteData_def payload_bytes_def mem_simps datapack_def Let_def port_at_def)

lemma write_ok:
  assumes "port_at no i tab" and "length d \<le> 542"
  shows "uartWriteData no (Some d) (int (length d)) tab = Some (0, frame_of d)"
  using assms frame_of_length(2) [of d] by (intro write_fits) (simp_all add: UART_BUF_SIZE_def)

text \<open>A request goes out as one frame, and an answer comes back whole.\<close>

lemma board_sent:
  assumes "port_at no i tab" and "0 \<le> no" and "fst p \<le> 0" and "length req \<le> 1080"
    and "length (frame_of req) \<le> UART_BUF_SIZE"
  shows "uartSendMsgToBoard no (Some req) (of_nat (length req)) p tab = Some (0, frame_of req, tab)"
proof -
  have n: "uint (of_nat (length req) :: u16) = int (length req)"
    using unat_of_nat_u16 [of "length req"] assms(4) by (simp add: uint_nat del: of_nat_unat)
  have "uartClearData no p tab = Some (0, tab)"
    using assms(1,3) by (simp add: uartClearData_def Let_def port_at_def)
  then show ?thesis
    using assms(2) by (simp add: uartSendMsgToBoard_def n write_fits [OF assms(1,4,5)])
qed

lemma board_answer_fits:
  assumes "port_at no i tab" and "uart_idle (ui_buf (tab ! i))" and "ub_leftlen (ui_buf (tab ! i)) = 0"
    and "0x55 \<notin> set noise" and "d \<noteq> []" and "length d \<le> 1020" and "length (frame_of d) \<le> UART_BUF_SIZE"
    and "\<forall>p \<in> set ps. length (poll_bytes p) \<le> MAX_BUFF_SIZE"
    and "concat (map poll_bytes ps) = noise @ frame_of d"
  shows "\<exists>tab'. uartWaitRecvData no 1024 (map (\<lambda>p. (p, True)) ps) tab = Some (0, d, tab')
    \<and> port_at no i tab' \<and> uart_idle (ui_buf (tab' ! i)) \<and> ub_leftlen (ui_buf (tab' ! i)) = 0"
proof -
  have "recv_pos (frame_of d) noise 0 (ui_buf (tab ! i))"
    using assms(2) by (simp add: recv_pos_def at_frame_start [OF frame_of_like])
  moreover have "length d + 4 \<le> 1024" using assms(6) by simp
  moreover have "0 < length (noise @ frame_of d)" using frame_of_length(1) [of d] by (cases "frame_of d") auto
  ultimately show ?thesis
    using wait_recv [OF assms(1) _ assms(3,4,5) _ _ assms(8), of 0 1024] assms(7,9) by simp
qed

lemma short_frame_fits: "length d \<le> 542 \<Longrightarrow> length (frame_of d) \<le> UART_BUF_SIZE"
  using frame_of_length(2) [of d] by (simp add: UART_BUF_SIZE_def)

lemma board_answer:
  assumes "port_at no i tab" and "uart_idle (ui_buf (tab ! i))" and "ub_leftlen (ui_buf (tab ! i)) = 0"
    and "0x55 \<notin> set noise" and "d \<noteq> []" and "length d \<le> 542"
    and "\<forall>p \<in> set ps. length (poll_bytes p) \<le> MAX_BUFF_SIZE"
    and "concat (map poll_bytes ps) = noise @ frame_of d"
  shows "\<exists>tab'. uartWaitRecvData no 1024 (map (\<lambda>p. (p, True)) ps) tab = Some (0, d, tab')
    \<and> port_at no i tab' \<and> uart_idle (ui_buf (tab' ! i)) \<and> ub_leftlen (ui_buf (tab' ! i)) = 0"
  using assms(6) by (intro board_answer_fits [OF assms(1-5) _ short_frame_fits assms(7,8)]) simp_all

lemma write_overruns:
  assumes "port_at no i tab" and "length d \<le> 1080" and "UART_BUF_SIZE < length (frame_of d)"
  shows "uartWriteData no (Some d) (int (length d)) tab = None"
  using assms by (simp add: uartWriteData_def payload_bytes_def mem_simps datapack_def Let_def port_at_def)

lemma board_overrun:
  assumes "port_at no i tab" and "0 \<le> no" and "fst p \<le> 0" and "length req \<le> 1080"
    and "UART_BUF_SIZE < length (frame_of req)"
  shows "uartSendMsgToBoard no (Some req) (of_nat (length req)) p tab = None"
proof -
  have n: "uint (of_nat (length req) :: u16) = int (length req)"
    using unat_of_nat_u16 [of "length req"] assms(4) by (simp add: uint_nat del: of_nat_unat)
  have "uartClearData no p tab = Some (0, tab)"
    using assms(1,3) by (simp add: uartClearData_def Let_def port_at_def)
  then show ?thesis
    using assms(2) by (simp add: uartSendMsgToBoard_def n write_overruns [OF assms(1,4,5)])
qed

text \<open>
  C11: the exchange with a board over a port on which nothing waits. A request of up to 1080 bytes,
  the limit of the code, whose frame fits the buffer of 1100 bytes, as that of every request of up to
  542 bytes does, is sent as one frame; when the board then sends some noise without the start byte
  and the frame of a non-empty answer of up to 1020 bytes, whose frame fits the buffer too, and time
  is left after every poll, the exchange succeeds with exactly that answer, in whatever pieces the
  polls deliver it and however many polls find nothing, and the port is ready for the next exchange.
  A request within the limit of the code whose frame does not fit overruns the buffer.
\<close>

theorem board_exchange:
  assumes "port_at no i tab" and "0 \<le> no" and "uart_idle (ui_buf (tab ! i))"
    and "ub_leftlen (ui_buf (tab ! i)) = 0" and "fst p \<le> 0"
    and "length req \<le> 1080" and "0x55 \<notin> set noise" and "d \<noteq> []" and "length d \<le> 1020"
    and "length (frame_of d) \<le> UART_BUF_SIZE"
    and "\<forall>p \<in> set ps. length (poll_bytes p) \<le> MAX_BUFF_SIZE"
    and "concat (map poll_bytes ps) = noise @ frame_of d"
  shows "if length (frame_of req) \<le> UART_BUF_SIZE
    then \<exists>tab'. uartProcNormalCmd no (Some req) (of_nat (length req)) True p
        (map (\<lambda>p. (p, True)) ps) tab = Some (0, frame_of req, Some d, tab')
      \<and> port_at no i tab' \<and> uart_idle (ui_buf (tab' ! i)) \<and> ub_leftlen (ui_buf (tab' ! i)) = 0
    else uartProcNormalCmd no (Some req) (of_nat (length req)) True p (map (\<lambda>p. (p, True)) ps) tab = None"
proof (cases "length (frame_of req) \<le> UART_BUF_SIZE")
  case True
  then show ?thesis
    using board_sent [OF assms(1,2,5,6)] board_answer_fits [OF assms(1,3,4,7-12)] by (auto simp: uartProcNormalCmd_def)
next
  case False
  then show ?thesis
    using board_overrun [OF assms(1,2,5,6)] by (simp add: uartProcNormalCmd_def)
qed

lemma board_exchange_witness:
  "\<exists>tab'. uartProcNormalCmd 0 (Some [1, 2]) 2 True (0, [])
      [((1, [9]), True), ((0, []), True), ((1, frame_of [7]), True)] open_table
    = Some (0, frame_of [1, 2], Some [7], tab')"
proof -
  have "length (frame_of [7]) \<le> 18" "length (frame_of [1, 2]) \<le> 20"
    using frame_of_length(2) [of "[7]"] frame_of_length(2) [of "[1, 2]"] by simp_all
  then show ?thesis
    using board_exchange [OF open_table_port(1) _ open_table_port(2,3), of "(0, [])" "[1, 2]" "[9]" "[7]"
        "[(1, [9]), (0, []), (1, frame_of [7])]"]
    by (auto simp: poll_bytes_def MAX_BUFF_SIZE_def UART_BUF_SIZE_def)
qed

text \<open>
  The limit of 1080 payload bytes does not fit the 1100 bytes of the local frame buffer. Up
  to 542 bytes every payload fits; from 545 flag bytes on the packed frame runs over its end.
\<close>

theorem write_buffer_bound:
  assumes "port_at no i tab"
  shows "(\<forall>d. length d \<le> 542 \<longrightarrow>
      uartWriteData no (Some d) (int (length d)) tab = Some (0, frame_of d))
    \<and> (\<forall>n. 545 \<le> n \<and> n \<le> 1080 \<longrightarrow>
      uartWriteData no (Some (replicate n 0x7e)) (int n) tab = None)"
proof (intro conjI allI impI)
  show "uartWriteData no (Some d) (int (length d)) tab = Some (0, frame_of d)" if "length d \<le> 542" for d
    using write_ok [OF assms that] .
  fix n :: nat assume n: "545 \<le> n \<and> n \<le> 1080"
  have "length (stuff (replicate k 0x7e)) = 2 * k" for k
    by (induction k) (simp_all add: stuff_byte_def)
  then have "2 * n + 12 \<le> length (frame_of (replicate n 0x7e))"
    using stuff_length(1) [of "le32 (uart_fcs (replicate n 0x7e))"] by (simp add: length_frame_of)
  with n have "UART_BUF_SIZE < length (frame_of (replicate n 0x7e))" by (simp add: UART_BUF_SIZE_def)
  with n assms show "uartWriteData no (Some (replicate n 0x7e)) (int n) tab = None"
    by (simp add: uartWriteData_def payload_bytes_def mem_simps datapack_def Let_def port_at_def)
qed

lemma write_buffer_bound_witness:
  "uartWriteData 0 (Some (replicate 1024 0x7e)) 1024 open_table = None"
  using write_buffer_bound [OF open_table_port(1)] by (auto dest!: conjunct2 spec [of _ 1024])

text \<open>
  A board can crash the program with eight bytes: the machine accepts a frame with nothing
  between its flags, and unpacking it runs the checksum over a negative length.
\<close>

theorem empty_frame_undefined:
  assumes "port_at no i tab" and "uart_idle (ui_buf (tab ! i))"
    and "ub_leftlen (ui_buf (tab ! i)) = 0"
  shows "uartReadData no (1, [0x55, 0xAA, 4, 0, 0x7e, 0x7e, 0x7e, 0x7e]) (Some cap) tab = None"
proof -
  let ?F = "[0x55, 0xAA, 4, 0, 0x7e, 0x7e, 0x7e, 0x7e] :: u8 list"
  let ?b = "ui_buf (tab ! i)"
  have fl: "frame_like ?F"
    by (auto simp: frame_like_def less_Suc_eq numeral_eq_Suc)
  then have "recv_pos ?F [] 0 ?b" using assms(2) by (simp add: recv_pos_def at_frame_start)
  moreover have len: "length ?F = 8" by simp
  ultimately obtain b where b: "uartRevDataProcess ?F 8 ?b = Some b" "at_frame ?F 8 b"
    using process_end [of ?F "[]" 0 ?b ?F "[]", unfolded len]
    by (auto simp: UART_BUF_SIZE_def MAX_BUFF_SIZE_def)
  have "ub_catch b = ?F @ drop 8 (ub_catch b)"
    using b(2) append_take_drop_id [of 8 "ub_catch b"] by (simp add: at_frame_def)
  moreover have "dataunpack (?F @ rest) cap = None" for rest
  proof -
    have "get_le16 (?F @ rest) 2 = 4" by (simp add: get_le16_def)
    moreover have "unpack_loop 4 (drop 4 (?F @ rest)) OUTSIDE_FRAME cap [] = Some (Inr [])"
      by (simp add: numeral_eq_Suc unpack_byte_def)
    ultimately show ?thesis by (simp add: dataunpack_def)
  qed
  ultimately have "dataunpack (ub_catch b) cap = None" by metis
  moreover have "ub_do b = 1" using b(2) by (simp add: at_frame_def uart_inv_def state_at_def)
  moreover have "poll_bytes (1, ?F) = ?F" by (simp add: poll_bytes_def)
  then have "feed_poll (1, ?F) ?b = Some b"
    using feed_poll_bytes [OF assms(3), of "(1, ?F)"] b(1) len by (simp only:) simp
  ultimately show ?thesis
    using assms(1) by (simp add: uartReadData_def Let_def port_at_def)
qed

lemma empty_frame_undefined_witness:
  "uartReadData 0 (1, [0x55, 0xAA, 4, 0, 0x7e, 0x7e, 0x7e, 0x7e]) (Some 1024) open_table = None"
  by (rule empty_frame_undefined [OF open_table_port])

text \<open>
  An exchange over a port that is not open reports success, with an empty answer: the
  return code of the failed transmission is not passed on.
\<close>

theorem unsent_reports_success:
  assumes "find_serial no tab < MAX_UART_CNT" and "ui_fd (tab ! find_serial no tab) < 0" and "0 \<le> no"
    and "length req \<le> 542"
  shows "uartProcNormalCmd no (Some req) (of_nat (length req)) True p turns tab =
    Some (0, [], Some [], tab)"
proof -
  have n: "uint (of_nat (length req) :: u16) = int (length req)"
    using unat_of_nat_u16 [of "length req"] assms(4) by (simp add: uint_nat del: of_nat_unat)
  have "length (frame_of req) \<le> UART_BUF_SIZE"
    using frame_of_length(2) [of req] assms(4) by (simp add: UART_BUF_SIZE_def)
  then have "uartWriteData no (Some req) (int (length req)) tab = Some (1, [])"
    using assms by (simp add: uartWriteData_def payload_bytes_def mem_simps datapack_def Let_def)
  then show ?thesis
    using assms(1-3)
    by (simp add: uartProcNormalCmd_def uartSendMsgToBoard_def uartClearData_def n Let_def SUCCESS_def)
qed

lemma unsent_reports_success_witness:
  "uartProcNormalCmd 1 (Some [1, 2]) 2 True (0, []) [] gsUartInfo_init = Some (0, [], Some [], gsUartInfo_init)"
  using unsent_reports_success [of 1 gsUartInfo_init "[1, 2]" "(0, [])" "[]"]
  by (simp add: gsUartInfo_init_def find_serial_def MAX_UART_CNT_def)


text \<open>
  Two operations look past the table. For a serial number that is in no entry
  \<^verbatim>\<open>uartGetSerialfd\<close> reads a fourth one, and \<^verbatim>\<open>closeUart\<close> accepts the index 3.
\<close>

theorem table_overrun:
  assumes "length tab = MAX_UART_CNT" and "find_serial no tab = MAX_UART_CNT"
  shows "uartGetSerialfd no tab = None \<and> closeUart p 3 tab = None"
proof -
  obtain a b c where tab: "tab = [a, b, c]"
    using assms(1) by (auto simp: MAX_UART_CNT_def length_Suc_conv numeral_3_eq_3)
  with assms(2) show ?thesis
    by (auto simp: uartGetSerialfd_def find_serial_def MAX_UART_CNT_def numeral_eq_Suc closeUart_def
        split: if_splits)
qed

lemma table_overrun_witness:
  "uartGetSerialfd 9 gsUartInfo_init = None \<and> closeUart (0, []) 3 gsUartInfo_init = None"
  by (rule table_overrun) (simp_all add: gsUartInfo_init_def MAX_UART_CNT_def find_serial_def)

end
