(* ===== verification/Deque.thy ===== *)
theory Deque
  imports Prelude "HOL-Library.Multiset"
begin

text \<open>
  The contract of a bounded double-ended queue that drops the item at the other end when it is
  full. An operation that adds an item also returns the items it handed to the queue's delete function;
  a queue without one drops them silently.
\<close>

primrec pushes :: "('b \<Rightarrow> 'q \<Rightarrow> 'a list \<times> 'q) \<Rightarrow> 'b list \<Rightarrow> 'q \<Rightarrow> 'a list \<times> 'q" where
  "pushes push [] q = ([], q)"
| "pushes push (x # xs) q =
     (let (del, q1) = push x q; (dels, q2) = pushes push xs q1 in (del @ dels, q2))"

fun pops :: "('q \<Rightarrow> 'a option \<times> 'q) \<Rightarrow> nat \<Rightarrow> 'q \<Rightarrow> 'a list \<times> 'q" where
  "pops pop 0 q = ([], q)"
| "pops pop (Suc n) q =
     (case pop q of
        (None, q1) \<Rightarrow> ([], q1)
      | (Some x, q1) \<Rightarrow> (let (xs, q2) = pops pop n q1 in (x # xs, q2)))"

text \<open>Pushes at either end, one after the other.\<close>

datatype 'a push_step = At_tail 'a | At_head 'a

fun pushed :: "'a push_step \<Rightarrow> 'a" where
  "pushed (At_tail x) = x"
| "pushed (At_head x) = x"

fun push_at :: "('a \<Rightarrow> 'q \<Rightarrow> 'a list \<times> 'q) \<Rightarrow> ('a \<Rightarrow> 'q \<Rightarrow> 'a list \<times> 'q) \<Rightarrow> 'a push_step \<Rightarrow> 'q \<Rightarrow> 'a list \<times> 'q" where
  "push_at tail head (At_tail x) q = tail x q"
| "push_at tail head (At_head x) q = head x q"

locale bounded_deque =
  fixes inv :: "'q \<Rightarrow> bool"
    and contents :: "'q \<Rightarrow> 'a list"
    and capacity :: "'q \<Rightarrow> nat"
    and owns :: "'q \<Rightarrow> bool"
    and push_tail :: "'a \<Rightarrow> 'q \<Rightarrow> 'a list \<times> 'q"
    and push_head :: "'a \<Rightarrow> 'q \<Rightarrow> 'a list \<times> 'q"
    and pop_head :: "'q \<Rightarrow> 'a option \<times> 'q"
    and pop_tail :: "'q \<Rightarrow> 'a option \<times> 'q"
  assumes room: "inv q \<Longrightarrow> 0 < capacity q \<and> length (contents q) \<le> capacity q"
    and push_tail_law:
    "inv q \<Longrightarrow> push_tail x q = (del, q') \<Longrightarrow> inv q' \<and> capacity q' = capacity q \<and> owns q' = owns q
      \<and> (if length (contents q) < capacity q then del = [] \<and> contents q' = contents q @ [x]
         else del = (if owns q then [hd (contents q)] else []) \<and> contents q' = tl (contents q) @ [x])"
    and push_head_law:
    "inv q \<Longrightarrow> push_head x q = (del, q') \<Longrightarrow> inv q' \<and> capacity q' = capacity q \<and> owns q' = owns q
      \<and> (if length (contents q) < capacity q then del = [] \<and> contents q' = x # contents q
         else del = (if owns q then [last (contents q)] else []) \<and> contents q' = x # butlast (contents q))"
    and pop_head_law:
    "inv q \<Longrightarrow> pop_head q = (r, q') \<Longrightarrow> inv q' \<and> capacity q' = capacity q \<and> owns q' = owns q
      \<and> (if contents q = [] then r = None \<and> contents q' = []
         else r = Some (hd (contents q)) \<and> contents q' = tl (contents q))"
    and pop_tail_law:
    "inv q \<Longrightarrow> pop_tail q = (r, q') \<Longrightarrow> inv q' \<and> capacity q' = capacity q \<and> owns q' = owns q
      \<and> (if contents q = [] then r = None \<and> contents q' = []
         else r = Some (last (contents q)) \<and> contents q' = butlast (contents q))"
begin

text \<open>
  What pushes drop, followed by what is stored, is what was stored before and the new items; only as
  many are dropped as do not fit, and the delete function gets exactly the dropped ones, if there is one.
\<close>

lemma pushes_conserve:
  assumes "inv q" and "pushes push_tail xs q = (dels, q')"
  obtains lost where "inv q'" "capacity q' = capacity q" "owns q' = owns q" "dels = (if owns q then lost else [])"
    "lost @ contents q' = contents q @ xs" "length (contents q') = min (capacity q) (length (contents q) + length xs)"
proof -
  have "\<exists>lost. inv q' \<and> capacity q' = capacity q \<and> owns q' = owns q \<and> dels = (if owns q then lost else [])
    \<and> lost @ contents q' = contents q @ xs
    \<and> length (contents q') = min (capacity q) (length (contents q) + length xs)"
    using assms
  proof (induction xs arbitrary: q dels)
    case Nil
    with room [of q] show ?case by auto
  next
    case (Cons x xs)
    obtain del q1 where q1: "push_tail x q = (del, q1)" by fastforce
    with Cons.prems(2) obtain dels' where
      run: "pushes push_tail xs q1 = (dels', q')" and dels: "dels = del @ dels'"
      by (auto split: prod.splits)
    note law = push_tail_law [OF Cons.prems(1) q1]
    from Cons.IH [OF _ run] law obtain lost where
      IH: "inv q'" "capacity q' = capacity q" "owns q' = owns q" "dels' = (if owns q then lost else [])"
        "lost @ contents q' = contents q1 @ xs"
        "length (contents q') = min (capacity q) (length (contents q1) + length xs)" by auto
    note room = room [OF Cons.prems(1)]
    show ?case
    proof (cases "length (contents q) < capacity q")
      case True
      with law IH dels show ?thesis by auto
    next
      case False
      with room have "contents q \<noteq> []" by auto
      with law IH dels False room show ?thesis
        by (intro exI [of _ "hd (contents q) # lost"]) (auto simp: min_def)
    qed
  qed
  then show thesis using that by blast
qed

lemma push_steps_conserve:
  assumes "inv q" and "pushes (push_at push_tail push_head) steps q = (dels, q')"
  obtains lost where "inv q'" "capacity q' = capacity q" "owns q' = owns q" "dels = (if owns q then lost else [])"
    "mset lost + mset (contents q') = mset (contents q) + mset (map pushed steps)"
    "length (contents q') = min (capacity q) (length (contents q) + length steps)"
proof -
  have "\<exists>lost. inv q' \<and> capacity q' = capacity q \<and> owns q' = owns q \<and> dels = (if owns q then lost else [])
    \<and> mset lost + mset (contents q') = mset (contents q) + mset (map pushed steps)
    \<and> length (contents q') = min (capacity q) (length (contents q) + length steps)"
    using assms
  proof (induction steps arbitrary: q dels)
    case Nil
    with room [of q] show ?case by auto
  next
    case (Cons st steps)
    obtain del q1 where q1: "push_at push_tail push_head st q = (del, q1)" by fastforce
    with Cons.prems(2) obtain dels' where
      run: "pushes (push_at push_tail push_head) steps q1 = (dels', q')" and dels: "dels = del @ dels'"
      by (auto split: prod.splits)
    note room = room [OF Cons.prems(1)]
    have one: "\<exists>out. inv q1 \<and> capacity q1 = capacity q \<and> owns q1 = owns q \<and> del = (if owns q then out else [])
      \<and> mset out + mset (contents q1) = mset (contents q) + {#pushed st#}
      \<and> length (contents q1) = min (capacity q) (length (contents q) + 1)"
    proof (cases "length (contents q) < capacity q")
      case True
      then show ?thesis
        using q1 push_tail_law [OF Cons.prems(1)] push_head_law [OF Cons.prems(1)] by (cases st) fastforce+
    next
      case False
      with room have ne: "contents q \<noteq> []" and full: "length (contents q) = capacity q" by auto
      show ?thesis
      proof (cases st)
        case (At_tail x)
        then show ?thesis
          using q1 push_tail_law [OF Cons.prems(1), of x del q1] False ne full
          by (intro exI [of _ "[hd (contents q)]"]) (cases "contents q", auto)
      next
        case (At_head x)
        have "mset (contents q) = mset (butlast (contents q)) + {#last (contents q)#}"
          using ne by (metis append_butlast_last_id mset_append mset_single_iff_right)
        then show ?thesis
          using At_head q1 push_head_law [OF Cons.prems(1), of x del q1] False ne full room
          by (intro exI [of _ "[last (contents q)]"]) auto
      qed
    qed
    then obtain out where o: "inv q1" "capacity q1 = capacity q" "owns q1 = owns q" "del = (if owns q then out else [])"
      "mset out + mset (contents q1) = mset (contents q) + {#pushed st#}"
      "length (contents q1) = min (capacity q) (length (contents q) + 1)" by blast
    from Cons.IH [OF o(1) run] o(2,3) obtain lost where
      IH: "inv q'" "capacity q' = capacity q" "owns q' = owns q" "dels' = (if owns q then lost else [])"
        "mset lost + mset (contents q') = mset (contents q1) + mset (map pushed steps)"
        "length (contents q') = min (capacity q) (length (contents q1) + length steps)" by auto
    have "mset (out @ lost) + mset (contents q') = mset (contents q) + mset (map pushed (st # steps))"
    proof -
      have "mset (out @ lost) + mset (contents q') = mset out + (mset lost + mset (contents q'))"
        by (simp add: union_assoc)
      also have "\<dots> = (mset out + mset (contents q1)) + mset (map pushed steps)"
        unfolding IH(5) by (simp add: union_assoc)
      also have "\<dots> = mset (contents q) + mset (map pushed (st # steps))"
        unfolding o(5) by simp
      finally show ?thesis .
    qed
    moreover have "length (contents q') = min (capacity q) (length (contents q) + length (st # steps))"
      using IH(6) o(6) by (simp add: min_def)
    ultimately show ?case using IH(1-4) o(4) dels by (intro exI [of _ "out @ lost"]) auto
  qed
  then show thesis using that by blast
qed

text \<open>Items come out at the head in the order they went in at the tail.\<close>

lemma pops_all:
  assumes "inv q"
  shows "\<exists>q'. pops pop_head (length (contents q)) q = (contents q, q') \<and> inv q' \<and> contents q' = []"
  using assms
proof (induction "contents q" arbitrary: q)
  case Nil
  then show ?case by simp
next
  case (Cons x xs)
  have c: "contents q = x # xs" using Cons.hyps(2) by simp
  obtain r q1 where q1: "pop_head q = (r, q1)" by fastforce
  from pop_head_law [OF Cons.prems q1] c have
    law: "r = Some x" "inv q1" "contents q1 = xs" by simp_all
  from Cons.hyps(1) [of q1] law(2,3) obtain q' where
    "pops pop_head (length xs) q1 = (xs, q')" "inv q'" "contents q' = []" by auto
  with c q1 law(1) show ?case by simp
qed

lemma fifo_order:
  assumes "inv q" and "contents q = []" and "length xs \<le> capacity q"
  shows "\<exists>q1 q2. pushes push_tail xs q = ([], q1) \<and> pops pop_head (length xs) q1 = (xs, q2)
    \<and> contents q2 = []"
proof -
  obtain dels q1 where q1: "pushes push_tail xs q = (dels, q1)" by fastforce
  obtain lost where p: "inv q1" "dels = (if owns q then lost else [])" "lost @ contents q1 = contents q @ xs"
    "length (contents q1) = min (capacity q) (length (contents q) + length xs)"
    using pushes_conserve [OF assms(1) q1] .
  then have "lost = [] \<and> contents q1 = xs"
    using assms(2,3) by (metis add_0 append_Nil append_eq_append_conv list.size(3) min.absorb2)
  with q1 pops_all [of q1] p show ?thesis by auto
qed

end

end
