(* ===== verification/LoopList.thy ===== *)
theory LoopList
  imports Deque
begin

text \<open>
  The loop queue of \<^verbatim>\<open>loop/loop.c\<close>: an array of \<open>size\<close> items used as a ring that holds at most
  \<open>size - 1\<close> of them. Whether the queue was created with a \<^verbatim>\<open>del_func\<close> is \<open>ll_del\<close>; an operation returns
  the items the source calls it on, so a queue without one drops what does not fit silently. Loops over the ring are partial functions; that they end is proved.
\<close>

record 'a loop_list =
  ll_size :: nat
  ll_head :: nat
  ll_tail :: nat
  ll_items :: "'a list"
  ll_del :: bool

text \<open>\<^verbatim>\<open>malloc\<close> leaves the items as they happen to be: they are the argument \<open>mem\<close>.\<close>

definition loop_create :: "nat \<Rightarrow> bool \<Rightarrow> 'a list \<Rightarrow> 'a loop_list" where
  "loop_create sz del mem = \<lparr>ll_size = sz, ll_head = 0, ll_tail = 0, ll_items = take sz mem, ll_del = del\<rparr>"

definition loop_push_to_tail :: "'a \<Rightarrow> 'a loop_list \<Rightarrow> 'a list \<times> 'a loop_list" where
  "loop_push_to_tail data l =
     (let (del, l1) =
            (if (ll_tail l + 1) mod ll_size l = ll_head l
             then (if ll_del l then [ll_items l ! ll_head l] else [], l\<lparr>ll_head := (ll_head l + 1) mod ll_size l\<rparr>)
             else ([], l)) in
      (del, l1\<lparr>ll_items := (ll_items l1)[ll_tail l1 := data],
               ll_tail := (ll_tail l1 + 1) mod ll_size l1\<rparr>))"

definition loop_push_to_head :: "'a \<Rightarrow> 'a loop_list \<Rightarrow> 'a list \<times> 'a loop_list" where
  "loop_push_to_head data l =
     (let (del, l1) =
            (if (ll_size l + ll_head l - 1) mod ll_size l = ll_tail l
             then (let t = (ll_size l + ll_tail l - 1) mod ll_size l in
                   (if ll_del l then [ll_items l ! t] else [], l\<lparr>ll_tail := t\<rparr>))
             else ([], l));
          h = (ll_size l1 + ll_head l1 - 1) mod ll_size l1 in
      (del, l1\<lparr>ll_head := h, ll_items := (ll_items l1)[h := data]\<rparr>))"

definition loop_pop_from_head :: "'a loop_list \<Rightarrow> 'a option \<times> 'a loop_list" where
  "loop_pop_from_head l =
     (if ll_tail l \<noteq> ll_head l
      then (Some (ll_items l ! ll_head l), l\<lparr>ll_head := (ll_head l + 1) mod ll_size l\<rparr>)
      else (None, l))"

definition loop_pop_from_tail :: "'a loop_list \<Rightarrow> 'a option \<times> 'a loop_list" where
  "loop_pop_from_tail l =
     (if ll_tail l \<noteq> ll_head l
      then (let t = (ll_size l + ll_tail l - 1) mod ll_size l in
            (Some (ll_items l ! t), l\<lparr>ll_tail := t\<rparr>))
      else (None, l))"

text \<open>\<^verbatim>\<open>loop_get_from_head\<close> does not wrap its index; \<open>None\<close> is an access past the array.\<close>

definition loop_get_from_head :: "'a loop_list \<Rightarrow> nat \<Rightarrow> 'a option" where
  "loop_get_from_head l offset =
     (if ll_head l + offset < length (ll_items l) then Some (ll_items l ! (ll_head l + offset)) else None)"

text \<open>The loop of \<^verbatim>\<open>loop_search\<close>, and the shift in \<^verbatim>\<open>loop_remove\<close>.\<close>

partial_function (option) search_loop :: "('a \<Rightarrow> bool) \<Rightarrow> 'a loop_list \<Rightarrow> nat \<Rightarrow> nat option" where
  "search_loop search l i =
     (if i = ll_tail l then Some i
      else if search (ll_items l ! i) then Some i
      else search_loop search l ((i + 1) mod ll_size l))"

partial_function (option) shift_loop :: "'a loop_list \<Rightarrow> nat \<Rightarrow> 'a loop_list option" where
  "shift_loop l i =
     (if i = ll_tail l then Some l
      else shift_loop (l\<lparr>ll_items := (ll_items l)[i := ll_items l ! ((i + 1) mod ll_size l)]\<rparr>)
             ((i + 1) mod ll_size l))"

definition loop_search :: "('a \<Rightarrow> bool) \<Rightarrow> 'a loop_list \<Rightarrow> 'a option option" where
  "loop_search search l = do {
     i \<leftarrow> search_loop search l (ll_head l);
     Some (if i \<noteq> ll_tail l then Some (ll_items l ! i) else None)
   }"

definition loop_remove :: "'a \<Rightarrow> 'a loop_list \<Rightarrow> 'a loop_list option" where
  "loop_remove data l = do {
     i \<leftarrow> search_loop (\<lambda>x. x = data) l (ll_head l);
     if i \<noteq> ll_tail l
     then shift_loop (l\<lparr>ll_tail := (ll_size l + ll_tail l - 1) mod ll_size l\<rparr>) i
     else Some l
   }"

partial_function (option) del_loop :: "'a loop_list \<Rightarrow> nat \<Rightarrow> 'a list \<Rightarrow> 'a list option" where
  "del_loop l i del =
     (if i = ll_tail l then Some del
      else del_loop l ((i + 1) mod ll_size l) (del @ [ll_items l ! i]))"

text \<open>\<^verbatim>\<open>loop_clear\<close>: the items deleted and the empty queue; \<^verbatim>\<open>loop_cleanup\<close> also frees the array.\<close>

definition loop_clear :: "'a loop_list \<Rightarrow> ('a list \<times> 'a loop_list) option" where
  "loop_clear l = do {
     del \<leftarrow> (if ll_del l then del_loop l (ll_head l) [] else Some []);
     Some (del, l\<lparr>ll_head := 0, ll_tail := 0\<rparr>)
   }"

definition loop_cleanup :: "'a loop_list \<Rightarrow> 'a list option" where
  "loop_cleanup l = (if ll_del l then del_loop l (ll_head l) [] else Some [])"

definition loop_is_empty :: "'a loop_list \<Rightarrow> bool" where
  "loop_is_empty l \<longleftrightarrow> ll_head l = ll_tail l"

definition loop_is_full :: "'a loop_list \<Rightarrow> bool" where
  "loop_is_full l \<longleftrightarrow> (ll_size l + ll_head l - 1) mod ll_size l = ll_tail l"

section \<open>Invariant and contents\<close>

definition loop_inv :: "'a loop_list \<Rightarrow> bool" where
  "loop_inv l \<longleftrightarrow> 2 \<le> ll_size l \<and> length (ll_items l) = ll_size l
     \<and> ll_head l < ll_size l \<and> ll_tail l < ll_size l"

definition loop_len :: "'a loop_list \<Rightarrow> nat" where
  "loop_len l = (if ll_head l \<le> ll_tail l then ll_tail l - ll_head l
                 else ll_size l - ll_head l + ll_tail l)"

definition loop_items :: "'a loop_list \<Rightarrow> 'a list" where
  "loop_items l = ring_view (ll_head l) (loop_len l) (ll_size l) (ll_items l)"

definition loop_cap :: "'a loop_list \<Rightarrow> nat" where
  "loop_cap l = ll_size l - 1"

lemma length_loop_items [simp]: "length (loop_items l) = loop_len l"
  by (simp add: loop_items_def)

lemma loop_len_bound: "loop_inv l \<Longrightarrow> loop_len l < ll_size l"
  by (auto simp: loop_inv_def loop_len_def)

lemma loop_len_tail: "loop_inv l \<Longrightarrow> ll_tail l = (ll_head l + loop_len l) mod ll_size l"
  by (auto simp: loop_inv_def loop_len_def)

lemma loop_len_eq:
  assumes "loop_inv l" and "n < ll_size l" and "ll_tail l = (ll_head l + n) mod ll_size l"
  shows "loop_len l = n"
  using assms ring_index_inj [of "ll_head l" "ll_size l" "loop_len l" n] loop_len_bound [OF assms(1)]
    loop_len_tail [OF assms(1)] by (auto simp: loop_inv_def)

lemma loop_len_0: "loop_inv l \<Longrightarrow> loop_len l = 0 \<longleftrightarrow> ll_head l = ll_tail l"
  by (auto simp: loop_inv_def loop_len_def)

text \<open>The two tests for a full queue in the source.\<close>

lemma full_tail: "loop_inv l \<Longrightarrow> (ll_tail l + 1) mod ll_size l = ll_head l \<longleftrightarrow> loop_len l = loop_cap l"
  by (auto simp: loop_inv_def loop_len_def loop_cap_def mod_if)

lemma full_head:
  "loop_inv l \<Longrightarrow> (ll_size l + ll_head l - 1) mod ll_size l = ll_tail l \<longleftrightarrow> loop_len l = loop_cap l"
  by (auto simp: loop_inv_def loop_len_def loop_cap_def mod_if)


section \<open>The operations on the contents\<close>

lemma loop_invD:
  assumes "loop_inv l"
  shows "2 \<le> ll_size l" "length (ll_items l) = ll_size l" "ll_head l < ll_size l"
    "ll_tail l < ll_size l"
  using assms by (auto simp: loop_inv_def)

text \<open>Taking the first item off, and the last one.\<close>

lemma drop_first:
  assumes "loop_inv l" and "loop_len l \<noteq> 0"
  shows "loop_inv (l\<lparr>ll_head := (ll_head l + 1) mod ll_size l\<rparr>)"
    and "loop_items l = ll_items l ! ll_head l # loop_items (l\<lparr>ll_head := (ll_head l + 1) mod ll_size l\<rparr>)"
proof -
  note inv = loop_invD [OF assms(1)]
  let ?l = "l\<lparr>ll_head := (ll_head l + 1) mod ll_size l\<rparr>"
  have pos: "0 < ll_size l" using inv(1) by linarith
  show i: "loop_inv ?l" using inv pos by (simp add: loop_inv_def)
  have len: "loop_len ?l = loop_len l - 1"
  proof (rule loop_len_eq [OF i])
    show "loop_len l - 1 < ll_size ?l" using loop_len_bound [OF assms(1)] by simp
    have "ll_head l + 1 + (loop_len l - 1) = ll_head l + loop_len l" using assms(2) by simp
    then have "((ll_head l + 1) mod ll_size l + (loop_len l - 1)) mod ll_size l =
        (ll_head l + loop_len l) mod ll_size l"
      by (simp only: mod_add_left_eq)
    then show "ll_tail ?l = (ll_head ?l + (loop_len l - 1)) mod ll_size ?l"
      using loop_len_tail [OF assms(1)] by simp
  qed
  then show "loop_items l = ll_items l ! ll_head l # loop_items ?l"
    using assms(2) inv(3) ring_view_Cons [of "loop_len l" "ll_head l" "ll_size l" "ll_items l"]
    by (simp add: loop_items_def ring_view_mod)
qed

lemma drop_last:
  assumes "loop_inv l" and "loop_len l \<noteq> 0"
  defines "t \<equiv> (ll_size l + ll_tail l - 1) mod ll_size l"
  shows "loop_inv (l\<lparr>ll_tail := t\<rparr>)" and "loop_len (l\<lparr>ll_tail := t\<rparr>) = loop_len l - 1"
    and "loop_items l = loop_items (l\<lparr>ll_tail := t\<rparr>) @ [ll_items l ! t]"
proof -
  note inv = loop_invD [OF assms(1)]
  let ?l = "l\<lparr>ll_tail := t\<rparr>" and ?n = "loop_len l - 1"
  have pos: "0 < ll_size l" using inv(1) by linarith
  show i: "loop_inv ?l" using inv pos by (simp add: loop_inv_def t_def)
  have t: "t = (ll_head l + ?n) mod ll_size l"
    using assms(2) inv by (auto simp: t_def loop_len_def mod_if)
  show len: "loop_len ?l = ?n"
    using loop_len_bound [OF assms(1)] t by (intro loop_len_eq [OF i]) auto
  have "ring_view (ll_head l) (?n + 1) (ll_size l) (ll_items l) =
      ring_view (ll_head l) ?n (ll_size l) (ll_items l) @ [ll_items l ! t]"
    using ring_view_append [of "ll_head l" ?n 1 "ll_size l" "ll_items l"]
      ring_view_Cons [of 1 "ll_head l + ?n" "ll_size l" "ll_items l"] t by simp
  then show "loop_items l = loop_items ?l @ [ll_items l ! t]"
    using assms(2) by (simp add: loop_items_def len)
qed

text \<open>Putting an item where there is room.\<close>

lemma store_tail:
  fixes l :: "'a loop_list" and x :: 'a
  assumes "loop_inv l" and "loop_len l < loop_cap l"
  defines "l' \<equiv> l\<lparr>ll_items := (ll_items l)[ll_tail l := x], ll_tail := (ll_tail l + 1) mod ll_size l\<rparr>"
  shows "loop_inv l'" and "loop_items l' = loop_items l @ [x]"
proof -
  note inv = loop_invD [OF assms(1)]
  have pos: "0 < ll_size l" using inv(1) by linarith
  show i: "loop_inv l'" using inv pos by (simp add: loop_inv_def l'_def)
  have lt: "Suc (loop_len l) < ll_size l" using assms(2) by (simp add: loop_cap_def)
  have len: "loop_len l' = Suc (loop_len l)"
    using lt loop_len_tail [OF assms(1)] by (intro loop_len_eq [OF i]) (auto simp: l'_def mod_simps)
  have lt': "loop_len l < ll_size l" using lt by simp
  show "loop_items l' = loop_items l @ [x]"
    unfolding loop_items_def len
    using ring_view_snoc [OF inv(3) lt', of "ll_items l" x] inv(2) loop_len_tail [OF assms(1)]
    by (simp add: l'_def)
qed

lemma store_head:
  fixes l :: "'a loop_list" and x :: 'a
  assumes "loop_inv l" and "loop_len l < loop_cap l"
  defines "h \<equiv> (ll_size l + ll_head l - 1) mod ll_size l"
  defines "l' \<equiv> l\<lparr>ll_head := h, ll_items := (ll_items l)[h := x]\<rparr>"
  shows "loop_inv l'" and "loop_items l' = x # loop_items l"
proof -
  note inv = loop_invD [OF assms(1)]
  have pos: "0 < ll_size l" using inv(1) by linarith
  have h: "h < ll_size l" "Suc h mod ll_size l = ll_head l"
    using inv pos by (auto simp: h_def mod_if)
  show i: "loop_inv l'" using inv h by (simp add: loop_inv_def l'_def)
  have lt: "Suc (loop_len l) < ll_size l" using assms(2) by (simp add: loop_cap_def)
  have "(h + Suc (loop_len l)) mod ll_size l = (Suc h mod ll_size l + loop_len l) mod ll_size l"
    by (simp add: mod_simps)
  then have "ll_tail l = (h + Suc (loop_len l)) mod ll_size l"
    using loop_len_tail [OF assms(1)] h(2) by simp
  then have len: "loop_len l' = Suc (loop_len l)"
    using lt by (intro loop_len_eq [OF i]) (auto simp: l'_def)
  have lt': "loop_len l < ll_size l" using lt by simp
  have "ring_view (Suc h) (loop_len l) (ll_size l) (ll_items l) = loop_items l"
    by (simp only: loop_items_def h(2) [symmetric] ring_view_mod)
  then show "loop_items l' = x # loop_items l"
    unfolding loop_items_def [of l'] len
    using ring_view_update_head [OF h(1) lt', of "ll_items l" x] inv(2) by (simp add: l'_def)
qed

lemma push_tail_law:
  assumes "loop_inv l" and "loop_push_to_tail x l = (del, l')"
  shows "loop_inv l' \<and> loop_cap l' = loop_cap l \<and> ll_del l' = ll_del l
    \<and> (if length (loop_items l) < loop_cap l then del = [] \<and> loop_items l' = loop_items l @ [x]
       else del = (if ll_del l then [hd (loop_items l)] else []) \<and> loop_items l' = tl (loop_items l) @ [x])"
proof (cases "loop_len l < loop_cap l")
  case True
  with store_tail [OF assms(1) True, of x] full_tail [OF assms(1)] assms(2) show ?thesis
    by (auto simp: loop_push_to_tail_def loop_cap_def)
next
  case False
  with loop_len_bound [OF assms(1)] have full: "loop_len l = loop_cap l" "loop_len l \<noteq> 0"
    using loop_invD(1) [OF assms(1)] by (auto simp: loop_cap_def)
  let ?l = "l\<lparr>ll_head := (ll_head l + 1) mod ll_size l\<rparr>"
  note d = drop_first [OF assms(1) full(2)]
  have "length (loop_items l) = Suc (length (loop_items ?l))" by (subst d(2)) simp
  then have "loop_len ?l < loop_cap ?l" using full(1) by (simp add: loop_cap_def)
  from store_tail [OF d(1) this, of x] d(2) full(1) full_tail [OF assms(1)] assms(2)
  have "loop_inv l' \<and> loop_cap l' = loop_cap l \<and> ll_del l' = ll_del l \<and> del = (if ll_del l then [hd (loop_items l)] else [])
      \<and> loop_items l' = tl (loop_items l) @ [x]"
    by (auto simp: loop_push_to_tail_def loop_cap_def)
  with False show ?thesis by simp
qed

lemma push_head_law:
  assumes "loop_inv l" and "loop_push_to_head x l = (del, l')"
  shows "loop_inv l' \<and> loop_cap l' = loop_cap l \<and> ll_del l' = ll_del l
    \<and> (if length (loop_items l) < loop_cap l then del = [] \<and> loop_items l' = x # loop_items l
       else del = (if ll_del l then [last (loop_items l)] else []) \<and> loop_items l' = x # butlast (loop_items l))"
proof (cases "loop_len l < loop_cap l")
  case True
  with store_head [OF assms(1) True, of x] full_head [OF assms(1)] assms(2) show ?thesis
    by (auto simp: loop_push_to_head_def loop_cap_def Let_def)
next
  case False
  with loop_len_bound [OF assms(1)] have full: "loop_len l = loop_cap l" "loop_len l \<noteq> 0"
    using loop_invD(1) [OF assms(1)] by (auto simp: loop_cap_def)
  let ?t = "(ll_size l + ll_tail l - 1) mod ll_size l"
  let ?l = "l\<lparr>ll_tail := ?t\<rparr>"
  note d = drop_last [OF assms(1) full(2)]
  have "loop_len ?l < loop_cap ?l" using full d(2) by (simp add: loop_cap_def)
  from store_head [OF d(1) this, of x] d(3) full(1) full_head [OF assms(1)] assms(2)
  have "loop_inv l' \<and> loop_cap l' = loop_cap l \<and> ll_del l' = ll_del l \<and> del = (if ll_del l then [last (loop_items l)] else [])
      \<and> loop_items l' = x # butlast (loop_items l)"
    by (auto simp: loop_push_to_head_def loop_cap_def Let_def)
  with False show ?thesis by simp
qed

lemma pop_head_law:
  assumes "loop_inv l" and "loop_pop_from_head l = (r, l')"
  shows "loop_inv l' \<and> loop_cap l' = loop_cap l \<and> ll_del l' = ll_del l
    \<and> (if loop_items l = [] then r = None \<and> loop_items l' = []
       else r = Some (hd (loop_items l)) \<and> loop_items l' = tl (loop_items l))"
proof (cases "loop_len l = 0")
  case True
  then have "loop_items l = []" by (simp add: loop_items_def)
  with True assms loop_len_0 [OF assms(1)] show ?thesis by (auto simp: loop_pop_from_head_def)
next
  case False
  note d = drop_first [OF assms(1) False]
  from assms(2) loop_len_0 [OF assms(1)] False
  have "r = Some (ll_items l ! ll_head l)" "l' = l\<lparr>ll_head := (ll_head l + 1) mod ll_size l\<rparr>"
    by (auto simp: loop_pop_from_head_def)
  with d show ?thesis by (simp add: loop_cap_def)
qed

lemma pop_tail_law:
  assumes "loop_inv l" and "loop_pop_from_tail l = (r, l')"
  shows "loop_inv l' \<and> loop_cap l' = loop_cap l \<and> ll_del l' = ll_del l
    \<and> (if loop_items l = [] then r = None \<and> loop_items l' = []
       else r = Some (last (loop_items l)) \<and> loop_items l' = butlast (loop_items l))"
proof (cases "loop_len l = 0")
  case True
  then have "loop_items l = []" by (simp add: loop_items_def)
  with True assms loop_len_0 [OF assms(1)] show ?thesis by (auto simp: loop_pop_from_tail_def)
next
  case False
  note d = drop_last [OF assms(1) False]
  from assms(2) loop_len_0 [OF assms(1)] False
  have "r = Some (ll_items l ! ((ll_size l + ll_tail l - 1) mod ll_size l))"
    "l' = l\<lparr>ll_tail := (ll_size l + ll_tail l - 1) mod ll_size l\<rparr>"
    by (auto simp: loop_pop_from_tail_def Let_def)
  with d show ?thesis by (simp add: loop_cap_def)
qed

interpretation loop: bounded_deque loop_inv loop_items loop_cap ll_del loop_push_to_tail loop_push_to_head
  loop_pop_from_head loop_pop_from_tail
proof (unfold_locales, goal_cases)
  case (1 l)
  then show ?case using loop_len_bound [OF 1] loop_invD(1) [OF 1] by (auto simp: loop_cap_def)
next
  case 2 then show ?case by (rule push_tail_law)
next
  case 3 then show ?case by (rule push_head_law)
next
  case 4 then show ?case by (rule pop_head_law)
next
  case 5 then show ?case by (rule pop_tail_law)
qed


section \<open>Walking the queue\<close>

lemma ring_step: "(((h + k) mod m + 1) :: nat) mod m = (h + Suc k) mod m"
  by (simp add: mod_simps)

lemma walk_at:
  assumes "loop_inv l" and "k < loop_len l"
  shows "(ll_head l + k) mod ll_size l \<noteq> ll_tail l"
    and "ll_items l ! ((ll_head l + k) mod ll_size l) = loop_items l ! k"
  using ring_index_inj [of "ll_head l" "ll_size l" k "loop_len l"] assms loop_len_bound [OF assms(1)]
    loop_invD(3) [OF assms(1)] loop_len_tail [OF assms(1)]
  by (simp_all add: loop_items_def)

lemma search_loop_law:
  assumes "loop_inv l" and "k \<le> loop_len l"
  shows "search_loop P l ((ll_head l + k) mod ll_size l) =
    Some ((ll_head l + (k + length (takeWhile (\<lambda>x. \<not> P x) (drop k (loop_items l))))) mod ll_size l)"
  using assms(2)
proof (induction "loop_len l - k" arbitrary: k)
  case 0
  then have "k = loop_len l" by simp
  moreover have "search_loop P l (ll_tail l) = Some (ll_tail l)"
    by (simp add: search_loop.simps [of P l "ll_tail l"])
  ultimately show ?case using loop_len_tail [OF assms(1)] by simp
next
  case (Suc d)
  let ?i = "(ll_head l + k) mod ll_size l"
  have k: "k < loop_len l" using Suc.hyps(2) by simp
  note at = walk_at [OF assms(1) k]
  have dr: "drop k (loop_items l) = loop_items l ! k # drop (Suc k) (loop_items l)"
    using k by (intro Cons_nth_drop_Suc [symmetric]) simp
  show ?case
  proof (cases "P (loop_items l ! k)")
    case True
    with at show ?thesis by (simp add: search_loop.simps [of P l ?i] dr)
  next
    case False
    then have "search_loop P l ?i = search_loop P l ((ll_head l + Suc k) mod ll_size l)"
      unfolding ring_step [symmetric] using at by (simp add: search_loop.simps [of P l ?i])
    with Suc.hyps(1) [of "Suc k"] Suc.hyps(2) k False show ?thesis by (simp add: dr)
  qed
qed

lemma find_takeWhile:
  "List.find P xs =
    (let j = length (takeWhile (\<lambda>x. \<not> P x) xs) in if j < length xs then Some (xs ! j) else None)"
  by (induction xs) (auto simp: Let_def)

lemma loop_search_law:
  assumes "loop_inv l"
  shows "loop_search P l = Some (List.find P (loop_items l))"
proof -
  let ?j = "length (takeWhile (\<lambda>x. \<not> P x) (loop_items l))"
  have "search_loop P l (ll_head l) = Some ((ll_head l + ?j) mod ll_size l)"
    using search_loop_law [OF assms, of 0 P] loop_invD(3) [OF assms] by simp
  moreover have "?j \<le> loop_len l" using length_takeWhile_le [of _ "loop_items l"] by simp
  then have "?j < loop_len l \<or> ?j = loop_len l" by linarith
  ultimately show ?thesis
    using walk_at [OF assms, of ?j] loop_len_tail [OF assms]
    by (auto simp: loop_search_def find_takeWhile Let_def)
qed

lemma shift_loop_law:
  assumes "ll_size l = m" and "ll_head l < m" and "length (ll_items l) = m" and "n < m"
    and "ll_tail l = (ll_head l + n) mod m" and "k \<le> n"
  shows "\<exists>b. shift_loop l ((ll_head l + k) mod m) = Some (l\<lparr>ll_items := b\<rparr>) \<and> length b = m
    \<and> ring_view (ll_head l) n m b =
        take k (ring_view (ll_head l) (Suc n) m (ll_items l))
        @ drop (Suc k) (ring_view (ll_head l) (Suc n) m (ll_items l))"
  using assms
proof (induction "n - k" arbitrary: k l)
  case 0
  then have "k = n" by simp
  moreover have "shift_loop l (ll_tail l) = Some l" by (simp add: shift_loop.simps [of l "ll_tail l"])
  ultimately show ?case
    using 0 by (intro exI [of _ "ll_items l"]) (simp add: take_ring_view)
next
  case (Suc d)
  let ?h = "ll_head l" and ?b = "ll_items l"
  let ?i = "(?h + k) mod m"
  let ?x = "?b ! ((?h + Suc k) mod m)"
  let ?l = "l\<lparr>ll_items := ?b[?i := ?x]\<rparr>"
  let ?V = "ring_view ?h (Suc n) m ?b"
  have k: "k < n" using Suc.hyps(2) by simp
  then have "?i \<noteq> ll_tail l"
    using ring_index_inj [of ?h m k n] Suc.prems by simp
  then have step: "shift_loop l ?i = shift_loop ?l ((?h + Suc k) mod m)"
    using Suc.prems(1) ring_step [of ?h k m] by (simp add: shift_loop.simps [of l ?i])
  have V: "ring_view ?h (Suc n) m (?b[?i := ?x]) = ?V[k := ?V ! Suc k]"
    using ring_view_update [of ?h m k "Suc n" ?b ?x] Suc.prems k by simp
  have "take (Suc k) (?V[k := ?V ! Suc k]) @ drop (Suc (Suc k)) (?V[k := ?V ! Suc k]) =
      take k ?V @ drop (Suc k) ?V"
    using k by (simp add: take_Suc_conv_app_nth Cons_nth_drop_Suc [symmetric, of "Suc k"])
  with Suc.hyps(1) [of "Suc k" ?l] Suc.hyps(2) Suc.prems k V step show ?case by auto
qed

lemma remove1_takeWhile:
  "remove1 x xs = (let j = length (takeWhile (\<lambda>y. y \<noteq> x) xs) in take j xs @ drop (Suc j) xs)"
  by (induction xs) (auto simp: Let_def)

lemma loop_remove_law:
  assumes "loop_inv l"
  shows "\<exists>l'. loop_remove x l = Some l' \<and> loop_inv l' \<and> loop_cap l' = loop_cap l
    \<and> loop_items l' = remove1 x (loop_items l)"
proof -
  let ?j = "length (takeWhile (\<lambda>y. y \<noteq> x) (loop_items l))" and ?m = "ll_size l"
  note inv = loop_invD [OF assms]
  have s: "search_loop (\<lambda>y. y = x) l (ll_head l) = Some ((ll_head l + ?j) mod ?m)"
    using search_loop_law [OF assms, of 0] inv(3) by simp
  have "?j \<le> loop_len l" using length_takeWhile_le [of _ "loop_items l"] by simp
  then consider "?j = loop_len l" | "?j < loop_len l" by linarith
  then show ?thesis
  proof cases
    case 1
    then have "remove1 x (loop_items l) = loop_items l" by (simp add: remove1_takeWhile Let_def)
    with 1 s assms loop_len_tail [OF assms] show ?thesis by (simp add: loop_remove_def)
  next
    case 2
    let ?l = "l\<lparr>ll_tail := (?m + ll_tail l - 1) mod ?m\<rparr>"
    from 2 have ne: "loop_len l \<noteq> 0" by simp
    note d = drop_last [OF assms ne]
    have n: "loop_len ?l < ?m" "?j \<le> loop_len ?l" "Suc (loop_len ?l) = loop_len l"
      using loop_len_bound [OF assms] 2 d(2) by auto
    have tl: "ll_tail ?l = (ll_head ?l + loop_len ?l) mod ?m" using loop_len_tail [OF d(1)] by simp
    from shift_loop_law [of ?l ?m "loop_len ?l" ?j] inv(2,3) n tl obtain b where
      b: "shift_loop ?l ((ll_head l + ?j) mod ?m) = Some (?l\<lparr>ll_items := b\<rparr>)" "length b = ?m"
        "ring_view (ll_head l) (loop_len ?l) ?m b = take ?j (loop_items l) @ drop (Suc ?j) (loop_items l)"
      by (auto simp: loop_items_def)
    have "loop_remove x l = Some (?l\<lparr>ll_items := b\<rparr>)"
      using s walk_at(1) [OF assms 2] b(1) by (simp add: loop_remove_def)
    moreover have "loop_inv (?l\<lparr>ll_items := b\<rparr>)" using d(1) b(2) by (simp add: loop_inv_def)
    moreover have "loop_len (?l\<lparr>ll_items := b\<rparr>) = loop_len ?l" by (simp add: loop_len_def)
    then have "loop_items (?l\<lparr>ll_items := b\<rparr>) = remove1 x (loop_items l)"
      using b(3) by (simp add: remove1_takeWhile Let_def loop_items_def)
    ultimately show ?thesis by (simp add: loop_cap_def)
  qed
qed


lemma del_loop_law:
  assumes "loop_inv l" and "k \<le> loop_len l"
  shows "del_loop l ((ll_head l + k) mod ll_size l) del = Some (del @ drop k (loop_items l))"
  using assms(2)
proof (induction "loop_len l - k" arbitrary: k del)
  case 0
  then have "k = loop_len l" by simp
  moreover have "del_loop l (ll_tail l) del = Some del" by (simp add: del_loop.simps [of l "ll_tail l"])
  ultimately show ?case using loop_len_tail [OF assms(1)] by simp
next
  case (Suc d)
  let ?i = "(ll_head l + k) mod ll_size l"
  have k: "k < loop_len l" using Suc.hyps(2) by simp
  note at = walk_at [OF assms(1) k]
  have "del_loop l ?i del =
      del_loop l ((ll_head l + Suc k) mod ll_size l) (del @ [loop_items l ! k])"
    unfolding ring_step [symmetric] using at by (simp add: del_loop.simps [of l ?i])
  moreover have "drop k (loop_items l) = loop_items l ! k # drop (Suc k) (loop_items l)"
    using k by (intro Cons_nth_drop_Suc [symmetric]) simp
  ultimately show ?case using Suc.hyps(1) [of "Suc k"] Suc.hyps(2) k by simp
qed

section \<open>Properties\<close>

text \<open>
  C14: pushing items at either end of a loop queue of any state loses none that fits and frees none
  twice. What is dropped and what is stored afterwards are together the items stored before and the
  new ones, and only as many are dropped as do not fit; when all pushes are at the tail the dropped
  ones are the oldest, in order. A queue that was created with a delete function gets exactly the
  dropped items handed to it; one that was created without drops them and nothing is told of it.
\<close>

theorem loop_pushes_conserve:
  assumes "loop_inv l" and "pushes (push_at loop_push_to_tail loop_push_to_head) steps l = (dels, l')"
  shows "\<exists>lost. loop_inv l' \<and> dels = (if ll_del l then lost else []) \<and> ll_del l' = ll_del l
    \<and> mset lost + mset (loop_items l') = mset (loop_items l) + mset (map pushed steps)
    \<and> length (loop_items l') = min (ll_size l - 1) (length (loop_items l) + length steps)
    \<and> (\<forall>xs. steps = map At_tail xs \<longrightarrow> lost @ loop_items l' = loop_items l @ xs)"
proof (cases "\<exists>xs. steps = map At_tail xs")
  case True
  then obtain xs where xs: "steps = map At_tail xs" by blast
  have "pushes (push_at loop_push_to_tail loop_push_to_head) (map At_tail xs) q = pushes loop_push_to_tail xs q" for q :: "'a loop_list"
    by (induction xs arbitrary: q) simp_all
  then have "pushes loop_push_to_tail xs l = (dels, l')" using assms(2) xs by simp
  from loop.pushes_conserve [OF assms(1) this] obtain lost where
    lost: "loop_inv l'" "ll_del l' = ll_del l" "dels = (if ll_del l then lost else [])" "lost @ loop_items l' = loop_items l @ xs"
      "length (loop_items l') = min (loop_cap l) (length (loop_items l) + length xs)" by blast
  have "mset lost + mset (loop_items l') = mset (loop_items l) + mset xs"
    using lost(4) by (metis mset_append)
  moreover have "map pushed (map At_tail xs) = xs" by (simp add: comp_def)
  moreover have "xs = ys" if "map At_tail xs = map At_tail ys" for ys
    using that by (metis (no_types, lifting) inj_map_eq_map inj_on_def push_step.inject(1))
  ultimately show ?thesis using lost xs by (intro exI [of _ lost]) (auto simp: loop_cap_def)
next
  case False
  from loop.push_steps_conserve [OF assms] obtain lost where
    "loop_inv l'" "ll_del l' = ll_del l" "dels = (if ll_del l then lost else [])"
    "mset lost + mset (loop_items l') = mset (loop_items l) + mset (map pushed steps)"
    "length (loop_items l') = min (loop_cap l) (length (loop_items l) + length steps)" by blast
  with False show ?thesis by (intro exI [of _ lost]) (auto simp: loop_cap_def)
qed

lemma loop_pushes_conserve_witness:
  "\<exists>l'. pushes (push_at loop_push_to_tail loop_push_to_head) (map At_tail [7, 8, 9])
       \<lparr>ll_size = 4, ll_head = 3, ll_tail = 1, ll_items = [6, 0, 0, 5], ll_del = True\<rparr> = ([5, 6], l')
     \<and> loop_items l' = [7, 8, 9 :: nat]"
proof -
  let ?l = "\<lparr>ll_size = 4, ll_head = 3, ll_tail = 1, ll_items = [6, 0, 0, 5 :: nat], ll_del = True\<rparr>"
  obtain dels l' where p: "pushes (push_at loop_push_to_tail loop_push_to_head) (map At_tail [7, 8, 9]) ?l = (dels, l')"
    by fastforce
  have inv: "loop_inv ?l" by (simp add: loop_inv_def)
  have items: "loop_items ?l = [5, 6]" by (simp add: loop_items_def loop_len_def ring_view_def upt_rec)
  from loop_pushes_conserve [OF inv p] have len: "length (loop_items l') = 3" and
    ord: "dels @ loop_items l' = [5, 6, 7, 8, 9]" unfolding items by auto
  have "length dels = 2" using arg_cong [OF ord, of length] len by simp
  then have "dels = [5, 6]" using ord by (cases dels; cases "tl dels") auto
  with ord p show ?thesis by auto
qed

text \<open>
  Items pushed at the tail of an empty queue, as many as it holds, are popped at the head in
  the same order, wherever in the array the queue starts.
\<close>

theorem loop_fifo_order:
  assumes "loop_inv l" and "ll_head l = ll_tail l" and "length xs < ll_size l"
  shows "\<exists>l1 l2. pushes loop_push_to_tail xs l = ([], l1)
    \<and> pops loop_pop_from_head (length xs) l1 = (xs, l2) \<and> loop_items l2 = []"
proof -
  have "loop_items l = []" using assms(2) loop_len_0 [OF assms(1)] by (simp add: loop_items_def)
  with loop.fifo_order [OF assms(1)] assms(3) show ?thesis by (simp add: loop_cap_def)
qed

lemma loop_fifo_order_witness:
  "\<exists>l1 l2. pushes loop_push_to_tail [1, 2, 3] \<lparr>ll_size = 4, ll_head = 2, ll_tail = 2, ll_items = [0, 0, 0, 0], ll_del = False\<rparr>
      = ([], l1) \<and> pops loop_pop_from_head 3 l1 = ([1, 2, 3 :: nat], l2) \<and> loop_items l2 = []"
  using loop_fifo_order [of "\<lparr>ll_size = 4, ll_head = 2, ll_tail = 2, ll_items = [0, 0, 0, 0], ll_del = False\<rparr>" "[1, 2, 3 :: nat]"]
  by (simp add: loop_inv_def numeral_3_eq_3)

text \<open>
  Removing and searching walk the ring from head to tail and end: removal takes out the
  first occurrence and closes the gap, search returns the first item that matches, and clearing
  hands every stored item once to the delete function, if the queue has one.
\<close>

theorem loop_walks:
  assumes "loop_inv l"
  shows "(\<exists>l'. loop_remove x l = Some l' \<and> loop_inv l' \<and> loop_items l' = remove1 x (loop_items l))
    \<and> loop_search P l = Some (List.find P (loop_items l))
    \<and> loop_clear l = Some (if ll_del l then loop_items l else [], l\<lparr>ll_head := 0, ll_tail := 0\<rparr>)"
proof -
  have "del_loop l (ll_head l) [] = Some (loop_items l)"
    using del_loop_law [OF assms, of 0 "[]"] loop_invD(3) [OF assms] by simp
  then show ?thesis
    using loop_remove_law [OF assms] loop_search_law [OF assms] by (auto simp: loop_clear_def)
qed

lemma loop_walks_witness:
  "(\<exists>l'. loop_remove 6 \<lparr>ll_size = 4, ll_head = 3, ll_tail = 2, ll_items = [6, 7, 0, 5 :: nat], ll_del = True\<rparr> = Some l'
      \<and> loop_items l' = [5, 7])
    \<and> loop_search even \<lparr>ll_size = 4, ll_head = 3, ll_tail = 2, ll_items = [6, 7, 0, 5 :: nat], ll_del = True\<rparr> = Some (Some 6)"
proof -
  let ?l = "\<lparr>ll_size = 4, ll_head = 3, ll_tail = 2, ll_items = [6, 7, 0, 5 :: nat], ll_del = True\<rparr>"
  have "loop_inv ?l" by (simp add: loop_inv_def)
  moreover have "loop_items ?l = [5, 6, 7]" by (simp add: loop_items_def loop_len_def ring_view_def upt_rec)
  ultimately show ?thesis using loop_walks [of ?l 6 even] by auto
qed

end
