(* ===== verification/RingBuf.thy ===== *)
theory RingBuf
  imports ByteQueue
begin

text \<open>
  The byte ring of \<^verbatim>\<open>common/ringBuf.h\<close>. It keeps a read and a write position and no length, so a
  ring with as many bytes as it is long looks like an empty one. Below that limit it is a byte
  queue in the sense of theory \<open>ByteQueue\<close>.
\<close>

record ringbuf =
  rb_read :: nat
  rb_write :: nat
  rb_len :: nat
  rb_data :: "u8 list"

text \<open>\<^verbatim>\<open>ringBufInit\<close>; the argument tells whether \<^verbatim>\<open>calloc\<close> succeeds.\<close>

definition ringBufInit :: "bool \<Rightarrow> ringbuf \<Rightarrow> nat \<Rightarrow> int \<times> ringbuf" where
  "ringBufInit alloc r n =
     (if n \<le> 2 then (-1, r)
      else
        let r1 = r\<lparr>rb_len := n, rb_read := 0, rb_write := 0\<rparr> in
        if alloc then (0, r1\<lparr>rb_data := replicate n 0\<rparr>) else (-1, r1\<lparr>rb_data := []\<rparr>))"

definition ringBufClear :: "ringbuf \<Rightarrow> ringbuf" where
  "ringBufClear r = r\<lparr>rb_read := 0, rb_write := 0, rb_data := replicate (rb_len r) 0\<rparr>"

definition ringBufAvailableBytesForWrite :: "ringbuf \<Rightarrow> nat" where
  "ringBufAvailableBytesForWrite r =
     (if rb_write r > rb_read r then wrap32 (sub32 (rb_len r) (rb_write r) + rb_read r)
      else if rb_write r = rb_read r then rb_len r
      else rb_read r - rb_write r)"

definition ringBufAvailableBytesForRead :: "ringbuf \<Rightarrow> nat" where
  "ringBufAvailableBytesForRead r =
     (if rb_write r > rb_read r then rb_write r - rb_read r
      else if rb_write r = rb_read r then 0
      else wrap32 (sub32 (rb_len r) (rb_read r) + rb_write r))"

definition ringBufWrite :: "ringbuf \<Rightarrow> u8 list \<Rightarrow> (nat \<times> ringbuf) option" where
  "ringBufWrite r pData =
     (let n = length pData in
      if ringBufAvailableBytesForWrite r < n then Some (0, r)
      else
        let nextWrite = wrap32 (rb_write r + n) in
        if nextWrite \<ge> rb_len r then do {
          let fst_len = sub32 (rb_len r) (rb_write r);
          let snd_len = sub32 n fst_len;
          d1 \<leftarrow> mem_write (rb_write r) (take fst_len pData) (rb_data r);
          d2 \<leftarrow> (if snd_len > 0 then mem_write 0 (take snd_len (drop fst_len pData)) d1 else Some d1);
          Some (n, r\<lparr>rb_data := d2, rb_write := snd_len\<rparr>)
        }
        else do {
          d \<leftarrow> mem_write (rb_write r) pData (rb_data r);
          Some (n, r\<lparr>rb_data := d, rb_write := nextWrite\<rparr>)
        })"

text \<open>
  \<^verbatim>\<open>ringBufClone\<close>: the bytes copied out and the number of them; \<^verbatim>\<open>ringBufRead\<close> also advances the
  read position.
\<close>

definition ringBufClone :: "ringbuf \<Rightarrow> nat \<Rightarrow> (nat \<times> u8 list) option" where
  "ringBufClone r n =
     (if ringBufAvailableBytesForRead r < n then Some (0, [])
      else
        let nextRead = wrap32 (rb_read r + n) in
        if nextRead \<ge> rb_len r then do {
          let fst_len = sub32 (rb_len r) (rb_read r);
          let snd_len = sub32 n fst_len;
          x \<leftarrow> mem_read (rb_read r) fst_len (rb_data r);
          y \<leftarrow> (if snd_len > 0 then mem_read 0 snd_len (rb_data r) else Some []);
          Some (n, x @ y)
        }
        else do {
          x \<leftarrow> mem_read (rb_read r) n (rb_data r);
          Some (n, x)
        })"

definition ringBufRead :: "ringbuf \<Rightarrow> nat \<Rightarrow> (nat \<times> u8 list \<times> ringbuf) option" where
  "ringBufRead r n =
     (if ringBufAvailableBytesForRead r < n then Some (0, [], r)
      else do {
        (m, out) \<leftarrow> ringBufClone r n;
        let nextRead = wrap32 (rb_read r + n);
        Some (m, out, r\<lparr>rb_read := (if nextRead \<ge> rb_len r then sub32 n (sub32 (rb_len r) (rb_read r))
                                   else nextRead)\<rparr>)
      })"

section \<open>The ring as a byte queue\<close>

definition ringbuf_inv :: "ringbuf \<Rightarrow> bool" where
  "ringbuf_inv r \<longleftrightarrow> 2 < rb_len r \<and> rb_len r < 2 ^ 30 \<and> length (rb_data r) = rb_len r
     \<and> rb_read r < rb_len r \<and> rb_write r < rb_len r"

definition ringbuf_bytes :: "ringbuf \<Rightarrow> u8 list" where
  "ringbuf_bytes r = ring_view (rb_read r) (ringBufAvailableBytesForRead r) (rb_len r) (rb_data r)"

text \<open>One byte less than the source allows.\<close>

definition ringbuf_room :: "ringbuf \<Rightarrow> nat" where
  "ringbuf_room r = rb_len r - 1 - ringBufAvailableBytesForRead r"

definition ring_put :: "u8 list \<Rightarrow> ringbuf \<Rightarrow> ringbuf option" where
  "ring_put xs r = do {
     (m, r') \<leftarrow> ringBufWrite r xs;
     if m = length xs then Some r' else None }"

definition ring_get :: "nat \<Rightarrow> ringbuf \<Rightarrow> (u8 list \<times> ringbuf) option" where
  "ring_get n r = do {
     (m, out, r') \<leftarrow> ringBufRead r n;
     if m = n then Some (out, r') else None }"

lemma length_ringbuf_bytes [simp]: "length (ringbuf_bytes r) = ringBufAvailableBytesForRead r"
  by (simp add: ringbuf_bytes_def)

lemma avail_read:
  assumes "ringbuf_inv r"
  shows "ringBufAvailableBytesForRead r < rb_len r"
    and "rb_write r = (rb_read r + ringBufAvailableBytesForRead r) mod rb_len r"
    and "ringBufAvailableBytesForWrite r = rb_len r - ringBufAvailableBytesForRead r"
  using assms
  by (auto simp: ringbuf_inv_def ringBufAvailableBytesForRead_def ringBufAvailableBytesForWrite_def)

lemma avail_read_eq:
  assumes "ringbuf_inv r" and "n < rb_len r" and "rb_write r = (rb_read r + n) mod rb_len r"
  shows "ringBufAvailableBytesForRead r = n"
  using assms ring_index_inj [of "rb_read r" "rb_len r" "ringBufAvailableBytesForRead r" n]
    avail_read [OF assms(1)] by (auto simp: ringbuf_inv_def)

lemma ring_put_law:
  assumes "ringbuf_inv r" and "length xs \<le> ringbuf_room r"
  shows "\<exists>r'. ring_put xs r = Some r' \<and> ringbuf_inv r' \<and> ringbuf_bytes r' = ringbuf_bytes r @ xs
    \<and> ringbuf_room r' = ringbuf_room r - length xs"
proof -
  let ?m = "rb_len r" and ?w = "rb_write r" and ?n = "length xs"
  let ?u = "ringBufAvailableBytesForRead r"
  have inv: "2 < ?m" "?m < 2 ^ 30" "length (rb_data r) = ?m" "rb_read r < ?m" "?w < ?m"
    using assms(1) by (auto simp: ringbuf_inv_def)
  note av = avail_read [OF assms(1)]
  have n: "?u + ?n < ?m" using assms(2) av(1) inv(1) by (simp add: ringbuf_room_def)
  then have aw: "\<not> ringBufAvailableBytesForWrite r < ?n" using av(3) by linarith
  have ml: "?m \<le> length (rb_data r)" using inv(3) by simp
  have "\<exists>b. ringBufWrite r xs = Some (?n, r\<lparr>rb_data := b, rb_write := (?w + ?n) mod ?m\<rparr>)
      \<and> length b = ?m \<and> ring_view (rb_read r) (?u + ?n) ?m b = ringbuf_bytes r @ xs"
  proof (cases "?w + ?n < ?m")
    case True
    then obtain b where b: "mem_write ?w xs (rb_data r) = Some b" using inv by (auto simp: mem_simps)
    from ring_append_linear [OF b ml inv(4) av(2)] n True
    have "ring_view (rb_read r) (?u + ?n) ?m b = ringbuf_bytes r @ xs" by (simp add: ringbuf_bytes_def)
    with True b inv aw mem_write_length [OF b] show ?thesis
      by (intro exI [of _ b]) (simp add: ringBufWrite_def Let_def)
  next
    case False
    let ?k = "?m - ?w"
    obtain b1 where b1: "mem_write ?w (take ?k xs) (rb_data r) = Some b1"
      using inv False by (auto simp: mem_simps)
    obtain b2 where b2: "mem_write 0 (drop ?k xs) b1 = Some b2"
      using inv n mem_write_length [OF b1] by (auto simp: mem_simps)
    from ring_append_wrap [OF b1 b2 ml inv(4) av(2)] n False
    have "ring_view (rb_read r) (?u + ?n) ?m b2 = ringbuf_bytes r @ xs" by (simp add: ringbuf_bytes_def)
    moreover have "(?w + ?n) mod ?m = ?n - ?k"
      using False n inv(5) by (auto simp: mod_if)
    moreover have "mem_write 0 [] b1 = Some b1" by (simp add: mem_simps)
    ultimately show ?thesis
      using False b1 b2 inv n av(1) aw mem_write_length [OF b1] mem_write_length [OF b2]
      by (intro exI [of _ b2]) (auto simp: ringBufWrite_def Let_def)
  qed
  then obtain b where
    b: "ringBufWrite r xs = Some (?n, r\<lparr>rb_data := b, rb_write := (?w + ?n) mod ?m\<rparr>)"
      "length b = ?m" "ring_view (rb_read r) (?u + ?n) ?m b = ringbuf_bytes r @ xs" by blast
  let ?r = "r\<lparr>rb_data := b, rb_write := (?w + ?n) mod ?m\<rparr>"
  have i: "ringbuf_inv ?r" using inv b(2) by (simp add: ringbuf_inv_def)
  have "(?w + ?n) mod ?m = (rb_read r + (?u + ?n)) mod ?m" by (simp add: av(2) mod_simps add.assoc)
  then have "ringBufAvailableBytesForRead ?r = ?u + ?n" using n by (intro avail_read_eq [OF i]) auto
  then show ?thesis using b i by (simp add: ring_put_def ringbuf_bytes_def ringbuf_room_def)
qed

lemma ring_get_law:
  assumes "ringbuf_inv r" and "n \<le> length (ringbuf_bytes r)"
  shows "\<exists>r'. ring_get n r = Some (take n (ringbuf_bytes r), r') \<and> ringbuf_inv r'
    \<and> ringbuf_bytes r' = drop n (ringbuf_bytes r) \<and> ringbuf_room r' = ringbuf_room r + n"
proof -
  let ?m = "rb_len r" and ?r = "rb_read r" and ?u = "ringBufAvailableBytesForRead r"
  have inv: "2 < ?m" "?m < 2 ^ 30" "length (rb_data r) = ?m" "?r < ?m" "rb_write r < ?m"
    using assms(1) by (auto simp: ringbuf_inv_def)
  note av = avail_read [OF assms(1)]
  have n: "n \<le> ?u" using assms(2) by simp
  let ?r' = "r\<lparr>rb_read := (?r + n) mod ?m\<rparr>"
  have "ringBufRead r n = Some (n, take n (ringbuf_bytes r), ?r')"
  proof (cases "?r + n < ?m")
    case True
    then show ?thesis
      using inv n by (simp add: ringBufRead_def ringBufClone_def mem_simps ringbuf_bytes_def
          take_ring_view ring_view_linear)
  next
    case False
    have "take (?m - ?r) (drop ?r (rb_data r)) @ take (n + ?r - ?m) (rb_data r) =
        take n (ringbuf_bytes r)"
      using ring_read_wrap [of ?m "rb_data r" ?r n] inv n av(1) False
      by (simp add: ringbuf_bytes_def take_ring_view)
    moreover have "(?r + n) mod ?m = n + ?r - ?m" using False n av(1) inv(4) by (auto simp: mod_if)
    ultimately show ?thesis
      using inv n av(1) False
      by (auto simp: ringBufRead_def ringBufClone_def mem_simps Let_def)
  qed
  moreover have i: "ringbuf_inv ?r'" using assms(1) inv by (simp add: ringbuf_inv_def)
  moreover have "rb_write r = ((?r + n) mod ?m + (?u - n)) mod ?m"
    using n av(2) by (metis add.assoc le_add_diff_inverse mod_add_left_eq)
  then have u: "ringBufAvailableBytesForRead ?r' = ?u - n"
    using av(1) by (intro avail_read_eq [OF i]) auto
  then have "ringbuf_bytes ?r' = drop n (ringbuf_bytes r)"
    using n by (simp add: ringbuf_bytes_def drop_ring_view ring_simps)
  moreover have "ringbuf_room ?r' = ringbuf_room r + n"
    using u n av(1) by (simp add: ringbuf_room_def)
  ultimately show ?thesis by (auto simp: ring_get_def)
qed

interpretation ring: byte_queue ringbuf_inv ringbuf_bytes ringbuf_room ring_put ring_get
  by unfold_locales (rule ring_put_law ring_get_law; assumption)+

section \<open>Properties\<close>

text \<open>
  C15: the ring refines the byte-queue specification as long as one byte is left free: every
  sequence of writes and reads gives the specified bytes, wrap-around included.
\<close>

theorem ring_refines_byte_queue:
  assumes "ringbuf_inv r" and "spec_run ops (ringbuf_bytes r) (ringbuf_room r) = Some (outs, rest)"
  shows "\<exists>r'. queue_run ring_put ring_get ops r = Some (outs, r') \<and> ringbuf_inv r'
    \<and> ringbuf_bytes r' = rest"
  using assms by (rule ring.run_refines)

lemma ring_refines_byte_queue_witness:
  "\<exists>r'. queue_run ring_put ring_get [Put [3, 4], Get 3]
      \<lparr>rb_read = 3, rb_write = 0, rb_len = 5, rb_data = [0, 0, 0, 1, 2]\<rparr> = Some ([[1, 2, 3]], r')
    \<and> ringbuf_inv r' \<and> ringbuf_bytes r' = [4]"
  by (rule ring_refines_byte_queue)
    (simp_all add: ringbuf_inv_def ringbuf_bytes_def ringbuf_room_def ring_view_def upt_rec
      ringBufAvailableBytesForRead_def)

text \<open>
  A write of as many bytes as the source calls available on an empty ring is accepted in
  full and leaves a ring that offers nothing for reading: all bytes of the write are lost.
\<close>

theorem ring_full_looks_empty:
  assumes "ringbuf_inv r" and "rb_read r = rb_write r" and "length xs = ringBufAvailableBytesForWrite r"
  shows "\<exists>r'. ringBufWrite r xs = Some (length xs, r') \<and> ringBufAvailableBytesForRead r' = 0"
proof -
  let ?m = "rb_len r" and ?w = "rb_write r"
  have inv: "2 < ?m" "?m < 2 ^ 30" "length (rb_data r) = ?m" "?w < ?m"
    using assms(1) by (auto simp: ringbuf_inv_def)
  have n: "length xs = ?m" using assms(2,3) by (simp add: ringBufAvailableBytesForWrite_def)
  obtain b1 where b1: "mem_write ?w (take (?m - ?w) xs) (rb_data r) = Some b1"
    using inv n by (auto simp: mem_simps)
  obtain b2 where b2: "mem_write 0 (drop (?m - ?w) xs) b1 = Some b2"
    using inv n mem_write_length [OF b1] by (auto simp: mem_simps)
  have "mem_write 0 [] b1 = Some b1" by (simp add: mem_simps)
  then show ?thesis
    using b1 b2 inv n assms(2)
    by (auto simp: ringBufWrite_def ringBufAvailableBytesForWrite_def Let_def
        ringBufAvailableBytesForRead_def)
qed

lemma ring_full_looks_empty_witness:
  "\<exists>r'. ringBufWrite \<lparr>rb_read = 1, rb_write = 1, rb_len = 4, rb_data = [0, 0, 0, 0]\<rparr> [1, 2, 3, 4]
    = Some (4, r') \<and> ringBufAvailableBytesForRead r' = 0"
proof -
  have len: "length [1, 2, 3, 4 :: u8] = 4" by simp
  show ?thesis
    using ring_full_looks_empty [of "\<lparr>rb_read = 1, rb_write = 1, rb_len = 4, rb_data = [0, 0, 0, 0]\<rparr>"
        "[1, 2, 3, 4]", unfolded len]
    by (simp add: ringbuf_inv_def ringBufAvailableBytesForWrite_def)
qed

end
