(* ===== verification/IcManager.thy ===== *)
theory IcManager
  imports Prelude
begin

text \<open>
  The chip manager of \<^verbatim>\<open>icm/ic_manager.c\<close>: it maps the MIPI channel of a request to a chip channel
  and calls the operation of the current chip through a table of function pointers. A chip is a
  record of optional operations over a hardware state of any type; an operation returns a code,
  the values it writes through its output pointers, if it writes them, and the new state.
\<close>

type_synonym ('i, 'o, 'w) chip_fn = "int \<Rightarrow> int \<Rightarrow> 'i \<Rightarrow> ptr \<Rightarrow> 'w \<Rightarrow> int \<times> 'o option \<times> 'w"

type_synonym gamma_data = "u8 list \<times> u8 list \<times> u8 list \<times> u8 list"

record 'w icm_chip =
  cp_my_chip_id :: nat
  fn_get_and_reset_private_data :: "(int \<Rightarrow> 'w \<Rightarrow> ptr \<times> 'w) option"
  fn_get_chip_id :: "(nat, u8 list, 'w) chip_fn option"
  fn_check_chip_ok :: "(unit, unit, 'w) chip_fn option"
  fn_read_chip_vcom_opt_times :: "(unit, int, 'w) chip_fn option"
  fn_read_chip_vcom_opt_info :: "(unit, int \<times> int, 'w) chip_fn option"
  fn_write_chip_vcom_otp_value :: "(int, unit, 'w) chip_fn option"
  fn_read_vcom :: "(unit, int, 'w) chip_fn option"
  fn_write_vcom :: "(int, unit, 'w) chip_fn option"
  fn_check_vcom_otp_burn_ok :: "(int \<times> int, int, 'w) chip_fn option"
  fn_write_chip_analog_gamma_reg_data :: "(u8 list, unit, 'w) chip_fn option"
  fn_read_chip_analog_gamma_reg_data :: "(nat, u8 list, 'w) chip_fn option"
  fn_write_chip_fix_analog_gamma_reg_data :: "(unit, unit, 'w) chip_fn option"
  fn_write_chip_digital_gamma_reg_data :: "(u8 list, unit, 'w) chip_fn option"
  fn_write_chip_fix_digital_gamma_reg_data :: "(unit, unit, 'w) chip_fn option"
  fn_chip_d3g_control :: "(int, unit, 'w) chip_fn option"
  fn_chip_burn_gamma_otp_values :: "(int \<times> int \<times> int \<times> gamma_data, unit, 'w) chip_fn option"
  fn_chip_check_gamma_otp_values :: "(int \<times> int \<times> int \<times> gamma_data, unit, 'w) chip_fn option"
  fn_chip_get_analog_gamma_reg_data :: "(unit, u8 list, 'w) chip_fn option"
  fn_chip_get_digital_gamma_reg_data :: "(unit, u8 list \<times> u8 list \<times> u8 list, 'w) chip_fn option"
  fn_get_chip_id_otp_info :: "(unit, u8 list \<times> u8, 'w) chip_fn option"
  fn_burn_chip_id :: "(u8 list \<times> int, unit, 'w) chip_fn option"

record icm_channel =
  ic_channel :: int
  ic_mipi_channel :: int
  ic_my_chip_id :: nat
  ic_private_data :: ptr

record 'w ic_mgr =
  im_my_chip_id :: nat
  im_channel_nums :: nat
  im_channel_data :: "icm_channel list"
  im_current_chip :: "'w icm_chip option"

definition MAX_CHIP_CHANNEL_NUMS :: nat where "MAX_CHIP_CHANNEL_NUMS = 2"

definition E_MY_CHIP_ID_DEFAULT :: nat where "E_MY_CHIP_ID_DEFAULT = 0"

text \<open>The numbers of the chips in \<^verbatim>\<open>e_my_chip_id\<close>, with the names the requests use.\<close>

definition chip_names :: "(string \<times> nat) list" where
  "chip_names =
     [(''jd9367'', 6), (''ili9806e'', 1), (''ili9881c'', 2), (''otm8019a'', 3), (''icn9706'', 4),
      (''hi8394'', 5), (''nt35521s'', 7)]"

section \<open>The default chip\<close>

text \<open>Every operation prints an error and returns -1 (\<^verbatim>\<open>icm/chips/default_chip.c\<close>).\<close>

definition unknown_chip :: "('i, 'o, 'w) chip_fn" where
  "unknown_chip chip_channel mipi_channel arg p_chip_data w = (-1, None, w)"

definition default_get_and_reset_private_data :: "int \<Rightarrow> 'w \<Rightarrow> ptr \<times> 'w" where
  "default_get_and_reset_private_data chip_channel w = (0, w)"

definition default_chip :: "'w icm_chip" where
  "default_chip =
     \<lparr>cp_my_chip_id = E_MY_CHIP_ID_DEFAULT,
      fn_get_and_reset_private_data = Some default_get_and_reset_private_data,
      fn_get_chip_id = Some unknown_chip,
      fn_check_chip_ok = Some unknown_chip,
      fn_read_chip_vcom_opt_times = Some unknown_chip,
      fn_read_chip_vcom_opt_info = Some unknown_chip,
      fn_write_chip_vcom_otp_value = Some unknown_chip,
      fn_read_vcom = Some unknown_chip,
      fn_write_vcom = Some unknown_chip,
      fn_check_vcom_otp_burn_ok = Some unknown_chip,
      fn_write_chip_analog_gamma_reg_data = Some unknown_chip,
      fn_read_chip_analog_gamma_reg_data = Some unknown_chip,
      fn_write_chip_fix_analog_gamma_reg_data = Some unknown_chip,
      fn_write_chip_digital_gamma_reg_data = Some unknown_chip,
      fn_write_chip_fix_digital_gamma_reg_data = Some unknown_chip,
      fn_chip_d3g_control = Some unknown_chip,
      fn_chip_burn_gamma_otp_values = Some unknown_chip,
      fn_chip_check_gamma_otp_values = Some unknown_chip,
      fn_chip_get_analog_gamma_reg_data = Some unknown_chip,
      fn_chip_get_digital_gamma_reg_data = Some unknown_chip,
      fn_get_chip_id_otp_info = None,
      fn_burn_chip_id = None\<rparr>"

section \<open>Selecting chip and channel\<close>

text \<open>
  \<^verbatim>\<open>ic_mgr_set_my_chip_id\<close>: \<open>built\<close> gives the chips compiled in, by their number, in the order of
  the source the first name that matches decides.
\<close>

definition ic_mgr_set_my_chip_id ::
  "(nat \<Rightarrow> 'w icm_chip option) \<Rightarrow> string \<Rightarrow> 'w ic_mgr \<Rightarrow> int \<times> 'w ic_mgr" where
  "ic_mgr_set_my_chip_id built str_chip_id m =
     (case Option.bind (map_of chip_names str_chip_id) (\<lambda>i. map_option (Pair i) (built i)) of
        Some (i, chip) \<Rightarrow> (0, m\<lparr>im_my_chip_id := i, im_current_chip := Some chip\<rparr>)
      | None \<Rightarrow> (-1, m\<lparr>im_my_chip_id := E_MY_CHIP_ID_DEFAULT, im_current_chip := Some default_chip\<rparr>))"

definition ic_mgr_reset_mipi_channel :: "nat \<Rightarrow> int \<Rightarrow> 'w ic_mgr \<Rightarrow> (int \<times> 'w ic_mgr) option" where
  "ic_mgr_reset_mipi_channel channel mipi_channel m =
     (if channel < length (im_channel_data m)
      then Some (0, m\<lparr>im_channel_data := (im_channel_data m)[channel :=
             (im_channel_data m ! channel)\<lparr>ic_mipi_channel := -1, ic_private_data := 0\<rparr>]\<rparr>)
      else None)"

definition ic_mgr_set_mipi_channel ::
  "nat \<Rightarrow> int \<Rightarrow> 'w ic_mgr \<Rightarrow> 'w \<Rightarrow> (int \<times> 'w ic_mgr \<times> 'w) option" where
  "ic_mgr_set_mipi_channel channel mipi_channel m w =
     (if channel < length (im_channel_data m) then do {
        let c = (im_channel_data m ! channel)\<lparr>ic_mipi_channel := mipi_channel\<rparr>;
        (c', w') \<leftarrow>
          (case im_current_chip m of
             None \<Rightarrow> Some (c, w)
           | Some chip \<Rightarrow>
               (case fn_get_and_reset_private_data chip of
                  None \<Rightarrow> None
                | Some f \<Rightarrow> (let (p, w') = f (int channel) w in Some (c\<lparr>ic_private_data := p\<rparr>, w'))));
        Some (0, m\<lparr>im_channel_data := (im_channel_data m)[channel := c']\<rparr>, w')
      }
      else None)"

fun channel_search :: "int \<Rightarrow> icm_channel list \<Rightarrow> int \<Rightarrow> int" where
  "channel_search mipi_channel [] i = -1"
| "channel_search mipi_channel (c # cs) i =
     (if ic_mipi_channel c = mipi_channel then i else channel_search mipi_channel cs (i + 1))"

definition get_chip_channel_by_mipi_channel :: "'w ic_mgr \<Rightarrow> int \<Rightarrow> int" where
  "get_chip_channel_by_mipi_channel m mipi_channel =
     channel_search mipi_channel (take (im_channel_nums m) (im_channel_data m)) 0"

definition ic_mgr_init :: "'w ic_mgr \<Rightarrow> int \<times> 'w ic_mgr" where
  "ic_mgr_init m =
     (0, m\<lparr>im_channel_nums := MAX_CHIP_CHANNEL_NUMS,
           im_channel_data := map (\<lambda>i. \<lparr>ic_channel = int i, ic_mipi_channel = -1,
             ic_my_chip_id = E_MY_CHIP_ID_DEFAULT, ic_private_data = 0\<rparr>) [0..<MAX_CHIP_CHANNEL_NUMS]\<rparr>)"

definition ic_mgr_term :: "'w ic_mgr \<Rightarrow> int \<times> 'w ic_mgr" where
  "ic_mgr_term m =
     (0, m\<lparr>im_channel_data :=
             map (\<lambda>c. \<lparr>ic_channel = 0, ic_mipi_channel = -1, ic_my_chip_id = E_MY_CHIP_ID_DEFAULT,
                       ic_private_data = 0\<rparr>) (take (im_channel_nums m) (im_channel_data m))
             @ drop (im_channel_nums m) (im_channel_data m),
           im_channel_nums := 0\<rparr>)"

section \<open>The operations\<close>

text \<open>
  The common body of the operations: find the channel, check that there is a current chip and
  that it has the operation, and call it with the channel's private data; -1 otherwise.
\<close>

definition dispatch ::
  "('w icm_chip \<Rightarrow> ('i, 'o, 'w) chip_fn option) \<Rightarrow> 'i \<Rightarrow> int \<Rightarrow> 'w ic_mgr \<Rightarrow> 'w
     \<Rightarrow> int \<times> 'o option \<times> 'w" where
  "dispatch sel arg mipi_channel m w =
     (let channel = get_chip_channel_by_mipi_channel m mipi_channel in
      if channel \<ge> 0 \<and> channel < int (im_channel_nums m) then
        (case im_current_chip m of
           None \<Rightarrow> (-1, None, w)
         | Some chip \<Rightarrow>
             (case sel chip of
                None \<Rightarrow> (-1, None, w)
              | Some f \<Rightarrow> f channel mipi_channel arg (ic_private_data (im_channel_data m ! nat channel)) w))
      else (-1, None, w))"

definition ic_mgr_read_chip_id where
  "ic_mgr_read_chip_id mipi_channel id_data_len =
  dispatch fn_get_chip_id id_data_len mipi_channel"
definition ic_mgr_check_chip_ok where
  "ic_mgr_check_chip_ok mipi_channel = dispatch fn_check_chip_ok () mipi_channel"
definition ic_mgr_read_chip_vcom_otp_times where
  "ic_mgr_read_chip_vcom_otp_times mipi_channel =
  dispatch fn_read_chip_vcom_opt_times () mipi_channel"
definition ic_mgr_read_chip_vcom_otp_value where
  "ic_mgr_read_chip_vcom_otp_value mipi_channel =
  dispatch fn_read_chip_vcom_opt_info () mipi_channel"
definition ic_mgr_write_chip_vcom_otp_value where
  "ic_mgr_write_chip_vcom_otp_value mipi_channel otp_vcom_value =
  dispatch fn_write_chip_vcom_otp_value otp_vcom_value mipi_channel"
definition ic_mgr_read_vcom where
  "ic_mgr_read_vcom mipi_channel = dispatch fn_read_vcom () mipi_channel"
definition ic_mgr_write_vcom where
  "ic_mgr_write_vcom mipi_channel vcom_value = dispatch fn_write_vcom vcom_value mipi_channel"
definition ic_mgr_check_vcom_otp_burn_ok where
  "ic_mgr_check_vcom_otp_burn_ok mipi_channel vcom_value last_otp_times =
  dispatch fn_check_vcom_otp_burn_ok (vcom_value, last_otp_times) mipi_channel"
definition ic_mgr_write_analog_gamma_data where
  "ic_mgr_write_analog_gamma_data mipi_channel reg_data =
  dispatch fn_write_chip_analog_gamma_reg_data reg_data mipi_channel"
definition ic_mgr_read_analog_gamma_data where
  "ic_mgr_read_analog_gamma_data mipi_channel reg_data_len =
  dispatch fn_read_chip_analog_gamma_reg_data reg_data_len mipi_channel"
definition ic_mgr_write_fix_analog_gamma_data where
  "ic_mgr_write_fix_analog_gamma_data mipi_channel =
  dispatch fn_write_chip_fix_analog_gamma_reg_data () mipi_channel"
definition ic_mgr_write_digital_gamma_data where
  "ic_mgr_write_digital_gamma_data mipi_channel reg_data =
  dispatch fn_write_chip_digital_gamma_reg_data reg_data mipi_channel"
definition ic_mgr_write_fix_digital_gamma_data where
  "ic_mgr_write_fix_digital_gamma_data mipi_channel =
  dispatch fn_write_chip_fix_digital_gamma_reg_data () mipi_channel"
definition ic_mgr_d3g_control where
  "ic_mgr_d3g_control mipi_channel enable = dispatch fn_chip_d3g_control enable mipi_channel"
definition ic_mgr_burn_gamma_otp_values where
  "ic_mgr_burn_gamma_otp_values mipi_channel burn_flag enable_burn_vcom vcom gamma =
  dispatch fn_chip_burn_gamma_otp_values (burn_flag, enable_burn_vcom, vcom, gamma) mipi_channel"
definition ic_mgr_check_gamma_otp_values where
  "ic_mgr_check_gamma_otp_values mipi_channel enable_burn_vcom new_vcom last_times gamma =
  dispatch fn_chip_check_gamma_otp_values (enable_burn_vcom, new_vcom, last_times, gamma) mipi_channel"
definition ic_mgr_get_analog_gamma_reg_data where
  "ic_mgr_get_analog_gamma_reg_data mipi_channel =
  dispatch fn_chip_get_analog_gamma_reg_data () mipi_channel"
definition ic_mgr_get_digital_gamma_reg_data_t where
  "ic_mgr_get_digital_gamma_reg_data_t mipi_channel =
  dispatch fn_chip_get_digital_gamma_reg_data () mipi_channel"
definition ic_mgr_read_chip_id_otp_info where
  "ic_mgr_read_chip_id_otp_info mipi_channel =
  dispatch fn_get_chip_id_otp_info () mipi_channel"

text \<open>
  \<^verbatim>\<open>ic_mgr_burn_chip_id\<close> tests another pointer than the one it calls; \<open>None\<close> is the call of a null
  pointer.
\<close>

definition ic_mgr_burn_chip_id ::
  "int \<Rightarrow> u8 list \<Rightarrow> int \<Rightarrow> 'w ic_mgr \<Rightarrow> 'w \<Rightarrow> (int \<times> unit option \<times> 'w) option" where
  "ic_mgr_burn_chip_id mipi_channel id_data ptn_id m w =
     (let channel = get_chip_channel_by_mipi_channel m mipi_channel in
      if channel \<ge> 0 \<and> channel < int (im_channel_nums m) then
        (case im_current_chip m of
           None \<Rightarrow> Some (-1, None, w)
         | Some chip \<Rightarrow>
             (case fn_get_chip_id_otp_info chip of
                None \<Rightarrow> Some (-1, None, w)
              | Some _ \<Rightarrow>
                  (case fn_burn_chip_id chip of
                     None \<Rightarrow> None
                   | Some f \<Rightarrow> Some (f channel mipi_channel (id_data, ptn_id)
                                (ic_private_data (im_channel_data m ! nat channel)) w))))
      else Some (-1, None, w))"

lemmas ic_mgr_ops = ic_mgr_read_chip_id_def ic_mgr_check_chip_ok_def
  ic_mgr_read_chip_vcom_otp_times_def ic_mgr_read_chip_vcom_otp_value_def
  ic_mgr_write_chip_vcom_otp_value_def ic_mgr_read_vcom_def ic_mgr_write_vcom_def
  ic_mgr_check_vcom_otp_burn_ok_def ic_mgr_write_analog_gamma_data_def
  ic_mgr_read_analog_gamma_data_def ic_mgr_write_fix_analog_gamma_data_def
  ic_mgr_write_digital_gamma_data_def ic_mgr_write_fix_digital_gamma_data_def
  ic_mgr_d3g_control_def ic_mgr_burn_gamma_otp_values_def ic_mgr_check_gamma_otp_values_def
  ic_mgr_get_analog_gamma_reg_data_def ic_mgr_get_digital_gamma_reg_data_t_def
  ic_mgr_read_chip_id_otp_info_def


section \<open>Channel table\<close>

text \<open>The two channels bound after \<^verbatim>\<open>ic_mgr_init\<close>, as \<^verbatim>\<open>pubmipi.c\<close> binds them.\<close>

definition bind_channels ::
  "int \<Rightarrow> int \<Rightarrow> 'w ic_mgr \<Rightarrow> 'w \<Rightarrow> ('w ic_mgr \<times> 'w) option" where
  "bind_channels mipi0 mipi1 m w = do {
     (_, m1, w1) \<leftarrow> ic_mgr_set_mipi_channel 0 mipi0 (snd (ic_mgr_init m)) w;
     (_, m2, w2) \<leftarrow> ic_mgr_set_mipi_channel 1 mipi1 m1 w1;
     Some (m2, w2)
   }"

lemma channel_search_None: "(\<forall>c \<in> set cs. ic_mipi_channel c \<noteq> mc) \<Longrightarrow> channel_search mc cs i = -1"
  by (induction cs arbitrary: i) auto

lemma dispatch_unbound:
  "(\<forall>c \<in> set (take (im_channel_nums m) (im_channel_data m)). ic_mipi_channel c \<noteq> mc) \<Longrightarrow>
    dispatch sel arg mc m w = (-1, None, w)"
  by (simp add: dispatch_def get_chip_channel_by_mipi_channel_def channel_search_None)

lemma bind_channels_table:
  assumes "im_current_chip m = Some chip" and "fn_get_and_reset_private_data chip = Some g"
    and "g 0 w = (p0, w1)" and "g 1 w1 = (p1, w2)"
  shows "bind_channels a b m w = Some (m\<lparr>im_channel_nums := 2, im_channel_data :=
           [\<lparr>ic_channel = 0, ic_mipi_channel = a, ic_my_chip_id = 0, ic_private_data = p0\<rparr>,
            \<lparr>ic_channel = 1, ic_mipi_channel = b, ic_my_chip_id = 0, ic_private_data = p1\<rparr>]\<rparr>, w2)"
  using assms
  by (simp add: bind_channels_def ic_mgr_set_mipi_channel_def ic_mgr_init_def
      MAX_CHIP_CHANNEL_NUMS_def E_MY_CHIP_ID_DEFAULT_def numeral_eq_Suc)

lemma ic_mgr_set_my_chip_id_channels:
  "im_channel_nums (snd (ic_mgr_set_my_chip_id built name m)) = im_channel_nums m"
  "im_channel_data (snd (ic_mgr_set_my_chip_id built name m)) = im_channel_data m"
  by (simp_all add: ic_mgr_set_my_chip_id_def split: option.split prod.split)

lemma dispatch_default:
  assumes "im_current_chip m = Some default_chip"
    and "sel default_chip = None \<or> sel default_chip = Some unknown_chip"
  shows "dispatch sel arg mc m w = (-1, None, w)"
  using assms by (auto simp: dispatch_def unknown_chip_def Let_def)

section \<open>Properties\<close>

text \<open>
  How an operation is to be routed once the MIPI channels a and b are bound to the chip channels
  0 and 1 with the private data p0 and p1: the chip's function \<^verbatim>\<open>sel\<close> with the chip channel, the
  MIPI channel, the operation's argument and the private data; -1 where the chip lacks it, and -1
  with the hardware untouched on every other MIPI channel.
\<close>

definition routed ::
  "'w icm_chip \<Rightarrow> int \<Rightarrow> nat \<Rightarrow> int \<Rightarrow> nat \<Rightarrow> (int \<Rightarrow> 'w \<Rightarrow> int \<times> 'o option \<times> 'w)
     \<Rightarrow> ('w icm_chip \<Rightarrow> ('i, 'o, 'w) chip_fn option) \<Rightarrow> 'i \<Rightarrow> bool" where
  "routed chip a p0 b p1 op sel arg =
     ((\<forall>v. op a v = (case sel chip of None \<Rightarrow> (-1, None, v) | Some f \<Rightarrow> f 0 a arg p0 v)) \<and>
      (\<forall>v. op b v = (case sel chip of None \<Rightarrow> (-1, None, v) | Some f \<Rightarrow> f 1 b arg p1 v)) \<and>
      (\<forall>c v. c \<notin> {a, b} \<longrightarrow> op c v = (-1, None, v)))"

lemma dispatch_routed:
  assumes "im_current_chip m = Some chip" and "im_channel_nums m = 2" and "a \<noteq> b"
    and "im_channel_data m =
           [\<lparr>ic_channel = 0, ic_mipi_channel = a, ic_my_chip_id = 0, ic_private_data = p0\<rparr>,
            \<lparr>ic_channel = 1, ic_mipi_channel = b, ic_my_chip_id = 0, ic_private_data = p1\<rparr>]"
  shows "routed chip a p0 b p1 (\<lambda>mc. dispatch sel arg mc m) sel arg"
  using assms
  by (simp add: routed_def dispatch_def get_chip_channel_by_mipi_channel_def split: option.split)

text \<open>
  C16: requests reach the right chip channel. With the two channels bound after initialisation to
  two different MIPI channels, each of the nineteen operations that answer for themselves calls
  its own function of the current chip with the chip channel, the MIPI channel and the private
  data that belong to the request's MIPI channel, answers -1 where the chip lacks the operation,
  and for a MIPI channel that is not bound answers -1 without touching the hardware. The
  twentieth, burning an identifier, is routed the same way but decides by another pointer than
  the one it calls: it answers -1 where the chip cannot read the identifier's OTP information,
  and where the chip can read that but not burn, it calls a null pointer.
\<close>

theorem requests_routed:
  assumes "im_current_chip m = Some chip" and "fn_get_and_reset_private_data chip = Some g"
    and "g 0 w = (p0, w1)" and "g 1 w1 = (p1, w2)" and "a \<noteq> b"
  shows "\<exists>m'. bind_channels a b m w = Some (m', w2) \<and>
    routed chip a p0 b p1 (\<lambda>c. ic_mgr_read_chip_id c n m') fn_get_chip_id n \<and>
    routed chip a p0 b p1 (\<lambda>c. ic_mgr_check_chip_ok c m') fn_check_chip_ok () \<and>
    routed chip a p0 b p1 (\<lambda>c. ic_mgr_read_chip_vcom_otp_times c m') fn_read_chip_vcom_opt_times () \<and>
    routed chip a p0 b p1 (\<lambda>c. ic_mgr_read_chip_vcom_otp_value c m') fn_read_chip_vcom_opt_info () \<and>
    routed chip a p0 b p1 (\<lambda>c. ic_mgr_write_chip_vcom_otp_value c vcom m')
      fn_write_chip_vcom_otp_value vcom \<and>
    routed chip a p0 b p1 (\<lambda>c. ic_mgr_read_vcom c m') fn_read_vcom () \<and>
    routed chip a p0 b p1 (\<lambda>c. ic_mgr_write_vcom c vcom m') fn_write_vcom vcom \<and>
    routed chip a p0 b p1 (\<lambda>c. ic_mgr_check_vcom_otp_burn_ok c vcom last_times m')
      fn_check_vcom_otp_burn_ok (vcom, last_times) \<and>
    routed chip a p0 b p1 (\<lambda>c. ic_mgr_write_analog_gamma_data c areg m')
      fn_write_chip_analog_gamma_reg_data areg \<and>
    routed chip a p0 b p1 (\<lambda>c. ic_mgr_read_analog_gamma_data c alen m')
      fn_read_chip_analog_gamma_reg_data alen \<and>
    routed chip a p0 b p1 (\<lambda>c. ic_mgr_write_fix_analog_gamma_data c m')
      fn_write_chip_fix_analog_gamma_reg_data () \<and>
    routed chip a p0 b p1 (\<lambda>c. ic_mgr_write_digital_gamma_data c dreg m')
      fn_write_chip_digital_gamma_reg_data dreg \<and>
    routed chip a p0 b p1 (\<lambda>c. ic_mgr_write_fix_digital_gamma_data c m')
      fn_write_chip_fix_digital_gamma_reg_data () \<and>
    routed chip a p0 b p1 (\<lambda>c. ic_mgr_d3g_control c enable m') fn_chip_d3g_control enable \<and>
    routed chip a p0 b p1 (\<lambda>c. ic_mgr_burn_gamma_otp_values c flag with_vcom vcom gamma m')
      fn_chip_burn_gamma_otp_values (flag, with_vcom, vcom, gamma) \<and>
    routed chip a p0 b p1 (\<lambda>c. ic_mgr_check_gamma_otp_values c with_vcom vcom last_times gamma m')
      fn_chip_check_gamma_otp_values (with_vcom, vcom, last_times, gamma) \<and>
    routed chip a p0 b p1 (\<lambda>c. ic_mgr_get_analog_gamma_reg_data c m')
      fn_chip_get_analog_gamma_reg_data () \<and>
    routed chip a p0 b p1 (\<lambda>c. ic_mgr_get_digital_gamma_reg_data_t c m')
      fn_chip_get_digital_gamma_reg_data () \<and>
    routed chip a p0 b p1 (\<lambda>c. ic_mgr_read_chip_id_otp_info c m') fn_get_chip_id_otp_info () \<and>
    (\<forall>v. ic_mgr_burn_chip_id a id_data ptn m' v =
       (case fn_get_chip_id_otp_info chip of None \<Rightarrow> Some (-1, None, v)
        | Some _ \<Rightarrow> (case fn_burn_chip_id chip of None \<Rightarrow> None
                      | Some f \<Rightarrow> Some (f 0 a (id_data, ptn) p0 v)))) \<and>
    (\<forall>v. ic_mgr_burn_chip_id b id_data ptn m' v =
       (case fn_get_chip_id_otp_info chip of None \<Rightarrow> Some (-1, None, v)
        | Some _ \<Rightarrow> (case fn_burn_chip_id chip of None \<Rightarrow> None
                      | Some f \<Rightarrow> Some (f 1 b (id_data, ptn) p1 v)))) \<and>
    (\<forall>c v. c \<notin> {a, b} \<longrightarrow> ic_mgr_burn_chip_id c id_data ptn m' v = Some (-1, None, v))"
proof -
  let ?m' = "m\<lparr>im_channel_nums := 2, im_channel_data :=
      [\<lparr>ic_channel = 0, ic_mipi_channel = a, ic_my_chip_id = 0, ic_private_data = p0\<rparr>,
       \<lparr>ic_channel = 1, ic_mipi_channel = b, ic_my_chip_id = 0, ic_private_data = p1\<rparr>]\<rparr>"
  have "bind_channels a b m w = Some (?m', w2)" by (rule bind_channels_table [OF assms(1-4)])
  then show ?thesis
    using assms(1,5)
    by (intro exI [of _ ?m'] conjI)
      (simp_all add: ic_mgr_ops dispatch_routed ic_mgr_burn_chip_id_def
        get_chip_channel_by_mipi_channel_def split: option.split)
qed

definition demo_chip :: "(int list) icm_chip" where
  "demo_chip = default_chip
     \<lparr>fn_get_and_reset_private_data := Some (\<lambda>c w. (nat c + 10, w)),
      fn_write_vcom := Some (\<lambda>c mc v p w. (0, None, w @ [c, mc, v, int p]))\<rparr>"

definition demo_mgr :: "(int list) ic_mgr" where
  "demo_mgr = \<lparr>im_my_chip_id = 6, im_channel_nums = 0, im_channel_data = [],
     im_current_chip = Some demo_chip\<rparr>"

lemma requests_routed_witness:
  "\<exists>m'. bind_channels 1 4 demo_mgr [] = Some (m', []) \<and>
     ic_mgr_write_vcom 4 77 m' [] = (0, None, [1, 4, 77, 11]) \<and>
     ic_mgr_burn_chip_id 4 [] 0 m' [] = Some (-1, None, [])"
proof -
  fix gamma :: gamma_data
  have p: "im_current_chip demo_mgr = Some demo_chip"
      "fn_get_and_reset_private_data demo_chip = Some (\<lambda>c w. (nat c + 10, w))"
      "(\<lambda>c w. (nat c + 10, w)) 0 [] = (10, [] :: int list)"
      "(\<lambda>c w. (nat c + 10, w)) 1 [] = (11, [] :: int list)" "(1 :: int) \<noteq> 4"
    by (simp_all add: demo_mgr_def demo_chip_def)
  obtain m' where "bind_channels 1 4 demo_mgr [] = Some (m', [])"
    and "routed demo_chip 1 10 4 11 (\<lambda>c. ic_mgr_write_vcom c 77 m') fn_write_vcom 77"
    and "\<forall>v. ic_mgr_burn_chip_id 4 [] 0 m' v =
       (case fn_get_chip_id_otp_info demo_chip of None \<Rightarrow> Some (-1, None, v)
        | Some _ \<Rightarrow> (case fn_burn_chip_id demo_chip of None \<Rightarrow> None
                      | Some f \<Rightarrow> Some (f 1 4 ([], 0) 11 v)))"
    using requests_routed [OF p, where n = 0 and vcom = 77 and last_times = 0 and areg = "[]" and alen = 0
        and dreg = "[]" and enable = 0 and flag = 0 and with_vcom = 0 and gamma = gamma and id_data = "[]" and ptn = 0]
    by (elim exE conjE) (rule that, assumption+)
  then show ?thesis
    by (intro exI [of _ m'])
      (simp add: routed_def demo_chip_def default_chip_def)
qed

text \<open>
  A product whose chip is unknown or not compiled in is served by the default chip: after
  \<^verbatim>\<open>ic_mgr_set_my_chip_id\<close> has refused the name with -1, every one of the twenty operations
  answers -1, writes no result and leaves the hardware as it was, whatever the channel.
\<close>

theorem unknown_chip_refused:
  assumes "\<And>i. map_of chip_names name = Some i \<Longrightarrow> built i = None"
  shows "\<exists>m'. ic_mgr_set_my_chip_id built name m = (-1, m') \<and>
    ic_mgr_read_chip_id mc n m' w = (-1, None, w) \<and>
    ic_mgr_check_chip_ok mc m' w = (-1, None, w) \<and>
    ic_mgr_read_chip_vcom_otp_times mc m' w = (-1, None, w) \<and>
    ic_mgr_read_chip_vcom_otp_value mc m' w = (-1, None, w) \<and>
    ic_mgr_write_chip_vcom_otp_value mc v m' w = (-1, None, w) \<and>
    ic_mgr_read_vcom mc m' w = (-1, None, w) \<and>
    ic_mgr_write_vcom mc v m' w = (-1, None, w) \<and>
    ic_mgr_check_vcom_otp_burn_ok mc v t m' w = (-1, None, w) \<and>
    ic_mgr_write_analog_gamma_data mc reg m' w = (-1, None, w) \<and>
    ic_mgr_read_analog_gamma_data mc n m' w = (-1, None, w) \<and>
    ic_mgr_write_fix_analog_gamma_data mc m' w = (-1, None, w) \<and>
    ic_mgr_write_digital_gamma_data mc reg m' w = (-1, None, w) \<and>
    ic_mgr_write_fix_digital_gamma_data mc m' w = (-1, None, w) \<and>
    ic_mgr_d3g_control mc enable m' w = (-1, None, w) \<and>
    ic_mgr_burn_gamma_otp_values mc fl enable v gamma m' w = (-1, None, w) \<and>
    ic_mgr_check_gamma_otp_values mc enable v t gamma m' w = (-1, None, w) \<and>
    ic_mgr_get_analog_gamma_reg_data mc m' w = (-1, None, w) \<and>
    ic_mgr_get_digital_gamma_reg_data_t mc m' w = (-1, None, w) \<and>
    ic_mgr_read_chip_id_otp_info mc m' w = (-1, None, w) \<and>
    ic_mgr_burn_chip_id mc id_data ptn m' w = Some (-1, None, w)"
proof -
  let ?m = "m\<lparr>im_my_chip_id := E_MY_CHIP_ID_DEFAULT, im_current_chip := Some default_chip\<rparr>"
  have "ic_mgr_set_my_chip_id built name m = (-1, ?m)"
    using assms by (cases "map_of chip_names name") (auto simp: ic_mgr_set_my_chip_id_def)
  moreover have "im_current_chip ?m = Some default_chip" by simp
  ultimately show ?thesis
    by (intro exI [of _ ?m])
      (simp add: ic_mgr_ops ic_mgr_burn_chip_id_def dispatch_default default_chip_def Let_def)
qed

lemma unknown_chip_refused_witness:
  "\<exists>m'. ic_mgr_set_my_chip_id (\<lambda>i. if i = 6 then Some demo_chip else None) ''ili9806e'' demo_mgr
      = (-1, m') \<and> ic_mgr_write_vcom 1 77 m' [] = (-1, None, [])"
  using unknown_chip_refused [of "''ili9806e''" "\<lambda>i. if i = 6 then Some demo_chip else None" demo_mgr
      1 0 "[]" 77]
  by (fastforce simp: chip_names_def)

text \<open>
  Selecting a chip does not rebind the channels. A channel bound while another chip was
  current keeps the private data of that chip, and an operation of the new chip is called with
  it: with the null pointer where the channels were bound before the first selection.
\<close>

theorem selection_keeps_private_data:
  assumes "im_current_chip m = None" and "map_of chip_names name = Some i" and "built i = Some chip"
    and "sel chip = Some f" and "a \<noteq> b"
  shows "\<exists>m'. bind_channels a b m w = Some (m', w) \<and>
    (let (r, m'') = ic_mgr_set_my_chip_id built name m' in
       r = 0 \<and> dispatch sel arg a m'' w = f 0 a arg 0 w \<and> dispatch sel arg b m'' w = f 1 b arg 0 w)"
  using assms
  by (simp add: bind_channels_def ic_mgr_set_mipi_channel_def ic_mgr_init_def
      MAX_CHIP_CHANNEL_NUMS_def numeral_eq_Suc ic_mgr_set_my_chip_id_def dispatch_def
      get_chip_channel_by_mipi_channel_def Let_def)

lemma selection_keeps_private_data_witness:
  "\<exists>m'. bind_channels 1 4 (demo_mgr\<lparr>im_current_chip := None\<rparr>) [] = Some (m', []) \<and>
     dispatch fn_write_vcom 77 4 (snd (ic_mgr_set_my_chip_id (\<lambda>_. Some demo_chip) ''jd9367'' m')) []
       = (0, None, [1, 4, 77, 0])"
  using selection_keeps_private_data [of "demo_mgr\<lparr>im_current_chip := None\<rparr>" "''jd9367''" 6
      "\<lambda>_. Some demo_chip" demo_chip fn_write_vcom
      "\<lambda>c mc v p w. (0, None, w @ [c, mc, v, int p])" 1 4 "[]" 77]
  by (fastforce simp: demo_mgr_def demo_chip_def chip_names_def split: prod.splits)

text \<open>
  Burning an identifier calls a function pointer it has not tested: for a chip that reports
  identifiers but cannot burn them the call goes through a null pointer, and no other operation
  of the manager depends on that pointer.
\<close>

theorem burn_chip_id_null_call:
  "ic_mgr_burn_chip_id mc id_data ptn m w = None \<longleftrightarrow>
     0 \<le> get_chip_channel_by_mipi_channel m mc \<and>
     get_chip_channel_by_mipi_channel m mc < int (im_channel_nums m) \<and>
     (case im_current_chip m of None \<Rightarrow> False
      | Some chip \<Rightarrow> fn_get_chip_id_otp_info chip \<noteq> None \<and> fn_burn_chip_id chip = None)"
  by (auto simp: ic_mgr_burn_chip_id_def Let_def split: option.split)

end
