(* ===== verification/Ssd2828.thy ===== *)
theory Ssd2828
  imports Prelude
begin

text \<open>
  The SSD2828 bridge as the program drives it (\<^verbatim>\<open>hw/mipi/mipi_interface.c\<close> and the packet writers
  and register reads of \<^verbatim>\<open>hw/mipi/mipi2828.c\<close>). The hardware is a trace: every transfer on the
  SPI line, every delay and every pin change is an event. What the bridge answers to a read is
  given by a device function of the trace before it, a parameter of the model.
\<close>

named_theorems bus_simps \<open>effect of bus operations on the trace\<close>

datatype bus_event =
    Spi_write int "u8 list"
  | Spi_read int "u8 list"
  | Usleep nat
  | Gpio_open nat
  | Gpio_output nat
  | Gpio_write nat bool
  | Gpio_reset nat
  | Show_rgb u8 u8 u8
  | Reback_flick u8 u8

record bus =
  bus_trace :: "bus_event list"
  bus_dev :: "bus_event list \<Rightarrow> u8 \<times> u8 \<times> u8"
  HsSignalOnFlag :: bool

definition emit :: "bus_event \<Rightarrow> bus \<Rightarrow> bus" where
  "emit e b = b\<lparr>bus_trace := bus_trace b @ [e]\<rparr>"

definition spi_read :: "int \<Rightarrow> u8 list \<Rightarrow> bus \<Rightarrow> (u8 \<times> u8 \<times> u8) \<times> bus" where
  "spi_read channel tx b = (bus_dev b (bus_trace b), emit (Spi_read channel tx) b)"

section \<open>Register access\<close>

definition WriteCMDSSD2828 :: "int \<Rightarrow> u8 \<Rightarrow> bus \<Rightarrow> bus" where
  "WriteCMDSSD2828 channel command = emit (Spi_write channel [0x70, 0x00, command])"

definition WriteDATASSD2828 :: "int \<Rightarrow> u16 \<Rightarrow> bus \<Rightarrow> bus" where
  "WriteDATASSD2828 channel data =
     emit (Spi_write channel [0x72, ucast (drop_bit 8 (data AND 0xFF00)), ucast (data AND 0xFF)])"

definition WriteSSD2828 :: "int \<Rightarrow> u8 \<Rightarrow> u16 \<Rightarrow> bus \<Rightarrow> bus" where
  "WriteSSD2828 channel addr data b =
     emit (Spi_write channel [0x72, ucast (drop_bit 8 (data AND 0xFF00)), ucast (data AND 0xFF)])
       (emit (Spi_write channel [0x70, 0x00, addr]) b)"

definition WriteFPGATo2828_8bit :: "int \<Rightarrow> u8 \<Rightarrow> u16 \<Rightarrow> bus \<Rightarrow> bus" where
  "WriteFPGATo2828_8bit channel addr data b =
     emit (Spi_write channel [0x72, ucast (drop_bit 8 (data AND 0xFF00)), ucast (data AND 0xFF)])
       (emit (Spi_write channel [0x70, 0x00, addr]) b)"

definition WriteCMDFPGATo2828_8bit :: "int \<Rightarrow> u8 \<Rightarrow> bus \<Rightarrow> bus" where
  "WriteCMDFPGATo2828_8bit channel command = emit (Spi_write channel [0x70, 0x00, command])"

definition WriteDATAFPGATo2828_8bit :: "int \<Rightarrow> u16 \<Rightarrow> bus \<Rightarrow> bus" where
  "WriteDATAFPGATo2828_8bit channel data =
     emit (Spi_write channel [0x72, ucast (drop_bit 8 (data AND 0xFF00)), ucast (data AND 0xFF)])"

definition ReadDATASSD2828Reg :: "int \<Rightarrow> u8 \<Rightarrow> bus \<Rightarrow> u16 \<times> bus" where
  "ReadDATASSD2828Reg channel addr b =
     (let ((rx0, rx1, rx2), b') = spi_read channel [0x73, 0x00, 0x00] b in
      (push_bit 8 (ucast rx1) OR ucast rx2, b'))"

definition ReadSSD2828Reg :: "int \<Rightarrow> u8 \<Rightarrow> bus \<Rightarrow> u16 \<times> bus" where
  "ReadSSD2828Reg channel addr b =
     (let b1 = emit (Spi_write channel [0x70, 0x00, addr]) b;
          ((rx0, rx1, rx2), b2) = spi_read channel [0x73, 0x00, 0x00] b1 in
      (push_bit 8 (ucast rx1) OR ucast rx2, b2))"

definition time_delay :: "nat \<Rightarrow> bus \<Rightarrow> bus" where
  "time_delay delay = emit (Usleep (delay * 1000))"

definition Delay_I2C :: "nat \<Rightarrow> bus \<Rightarrow> bus" where
  "Delay_I2C delay = emit (Usleep (delay * 1000))"

text \<open>The supply of the one-time programmable memory: pin 14 or 15, by channel.\<close>

definition set_pin :: "nat \<Rightarrow> bool \<Rightarrow> bus \<Rightarrow> bus" where
  "set_pin n v b = emit (Gpio_write n v) (emit (Gpio_output n) (emit (Gpio_open n) b))"

definition mtp_power_on :: "int \<Rightarrow> bus \<Rightarrow> bus" where
  "mtp_power_on channel b =
     (if channel = 3 \<or> channel = 4 then set_pin 14 True b
      else if channel = 1 \<or> channel = 2 then set_pin 15 True b else b)"

definition mtp_power_off :: "int \<Rightarrow> bus \<Rightarrow> bus" where
  "mtp_power_off channel b =
     (if channel = 3 \<or> channel = 4 then set_pin 14 False b
      else if channel = 1 \<or> channel = 2 then set_pin 15 False b else b)"

definition mipi_to_hs_mode :: "int \<Rightarrow> bus \<Rightarrow> bus" where
  "mipi_to_hs_mode mipi_channel b = (WriteSSD2828 mipi_channel 0xB7 0x030b b)\<lparr>HsSignalOnFlag := True\<rparr>"

definition mipi_to_lp_mode :: "int \<Rightarrow> bus \<Rightarrow> bus" where
  "mipi_to_lp_mode mipi_channel b = (WriteSSD2828 mipi_channel 0xB7 0x030a b)\<lparr>HsSignalOnFlag := False\<rparr>"

definition setHsmode :: "bool \<Rightarrow> bus \<Rightarrow> bus" where
  "setHsmode enable b = b\<lparr>HsSignalOnFlag := enable\<rparr>"

section \<open>Packets\<close>

text \<open>\<open>word_of hi lo\<close> is \<^verbatim>\<open>(hi<<8) + lo\<close> in a half word.\<close>

definition word_of :: "u8 \<Rightarrow> u8 \<Rightarrow> u16" where
  "word_of hi lo = push_bit 8 (ucast hi) + ucast lo"

definition DCSShortWriteNoPara :: "int \<Rightarrow> u8 \<Rightarrow> bus \<Rightarrow> bus" where
  "DCSShortWriteNoPara channel command b =
     (let b1 = WriteSSD2828 channel 0xB7 (if HsSignalOnFlag b then 0x034b else 0x0340) b;
          b2 = WriteSSD2828 channel 0xB8 0x0000 b1;
          b3 = WriteSSD2828 channel 0xBC 0x0000 b2 in
      WriteCMDSSD2828 channel command b3)"

definition DCSShortWriteOnePara :: "int \<Rightarrow> u8 \<Rightarrow> u8 \<Rightarrow> bus \<Rightarrow> bus" where
  "DCSShortWriteOnePara channel command para b =
     (let b1 = WriteSSD2828 channel 0xB7 (if HsSignalOnFlag b then 0x034b else 0x0340) b;
          b2 = WriteSSD2828 channel 0xB8 0x0000 b1;
          b3 = WriteSSD2828 channel 0xBC 0x0002 b2 in
      WriteSSD2828 channel 0xBF (word_of para command) b3)"

definition GeneralShortWriteTwoPara :: "int \<Rightarrow> u8 \<Rightarrow> u8 \<Rightarrow> bus \<Rightarrow> bus" where
  "GeneralShortWriteTwoPara channel command para b =
     (let b1 = WriteSSD2828 channel 0xB7 (if HsSignalOnFlag b then 0x030b else 0x0300) b;
          b2 = WriteSSD2828 channel 0xB8 0x0000 b1;
          b3 = WriteSSD2828 channel 0xBC 0x0002 b2 in
      WriteSSD2828 channel 0xBF (word_of para command) b3)"

definition CMDDCSShortWriteNoPara :: "int \<Rightarrow> u8 \<Rightarrow> bus \<Rightarrow> bus" where
  "CMDDCSShortWriteNoPara channel command b =
     (let b1 = WriteFPGATo2828_8bit channel 0xB7 0x0340 b;
          b2 = WriteFPGATo2828_8bit channel 0xB8 0x0000 b1;
          b3 = WriteFPGATo2828_8bit channel 0xBC 0x0000 b2 in
      WriteCMDFPGATo2828_8bit channel command b3)"

definition CMDDCSShortWriteOnePara :: "int \<Rightarrow> u8 \<Rightarrow> u8 \<Rightarrow> bus \<Rightarrow> bus" where
  "CMDDCSShortWriteOnePara channel command para b =
     (let b1 = WriteFPGATo2828_8bit channel 0xB7 0x0340 b;
          b2 = WriteFPGATo2828_8bit channel 0xB8 0x0000 b1;
          b3 = WriteFPGATo2828_8bit channel 0xBC 0x0002 b2 in
      WriteFPGATo2828_8bit channel 0xBF (word_of para command) b3)"

definition CMDGeneralShortWriteTwoPara :: "int \<Rightarrow> u8 \<Rightarrow> u8 \<Rightarrow> bus \<Rightarrow> bus" where
  "CMDGeneralShortWriteTwoPara channel command para b =
     (let b1 = WriteFPGATo2828_8bit channel 0xB7 0x0300 b;
          b2 = WriteFPGATo2828_8bit channel 0xB8 0x0000 b1;
          b3 = WriteFPGATo2828_8bit channel 0xBC 0x0002 b2 in
      WriteFPGATo2828_8bit channel 0xBF (word_of para command) b3)"

text \<open>
  The data loop of the long writes, from \<^verbatim>\<open>ii\<close> on, with the function that writes a half word as a
  parameter; \<open>para\<close> is the array the parameter points to, which an odd count changes. \<open>None\<close> is an
  access behind its end.
\<close>

function long_data ::
  "(u16 \<Rightarrow> bus \<Rightarrow> bus) \<Rightarrow> nat \<Rightarrow> nat \<Rightarrow> u8 list \<Rightarrow> bus \<Rightarrow> (bus \<times> u8 list) option" where
  "long_data wr count ii para b =
     (if ii < 256 \<and> count > 2 * ii then
        if 2 * ii < length para then
          let para' = (if count = 2 * ii + 1 then para[2 * ii := 0] else para) in
          long_data wr count (ii + 1) para' (wr (word_of (para' ! (2 * ii)) (para' ! (2 * ii - 1))) b)
        else None
      else Some (b, para))"
  by pat_completeness auto
termination by (relation "measure (\<lambda>(_, _, ii, _, _). 256 - ii)") auto

declare long_data.simps [simp del]

definition DCSLongWriteWithPara ::
  "int \<Rightarrow> u8 \<Rightarrow> u8 list \<Rightarrow> u8 \<Rightarrow> bus \<Rightarrow> (bus \<times> u8 list) option" where
  "DCSLongWriteWithPara channel RegAddr para count b =
     (let b1 = WriteSSD2828 channel 0xB7 (if HsSignalOnFlag b then 0x034b else 0x0340) b;
          b2 = WriteSSD2828 channel 0xB8 0x0000 b1;
          b3 = WriteSSD2828 channel 0xBC (ucast count) b2 in
      case para of
        [] \<Rightarrow> None
      | p # _ \<Rightarrow> long_data (WriteDATASSD2828 channel) (unat count) 1 para
                  (WriteSSD2828 channel 0xBF (word_of p RegAddr) b3))"

definition GerneralLongWriteWithPara ::
  "int \<Rightarrow> u8 \<Rightarrow> u8 list \<Rightarrow> u8 \<Rightarrow> bus \<Rightarrow> (bus \<times> u8 list) option" where
  "GerneralLongWriteWithPara channel RegAddr para count b =
     (let b1 = WriteSSD2828 channel 0xB7 (if HsSignalOnFlag b then 0x030b else 0x0300) b;
          b2 = WriteSSD2828 channel 0xB8 0x0000 b1;
          b3 = WriteSSD2828 channel 0xBC (ucast count) b2 in
      case para of
        [] \<Rightarrow> None
      | p # _ \<Rightarrow> long_data (WriteDATASSD2828 channel) (unat count) 1 para
                  (WriteSSD2828 channel 0xBF (word_of p RegAddr) b3))"

definition CMDDCSLongWriteWithPara ::
  "int \<Rightarrow> u8 \<Rightarrow> u8 list \<Rightarrow> u8 \<Rightarrow> bus \<Rightarrow> (bus \<times> u8 list) option" where
  "CMDDCSLongWriteWithPara channel RegAddr para count b =
     (let b1 = WriteFPGATo2828_8bit channel 0xB7 0x0340 b;
          b2 = WriteFPGATo2828_8bit channel 0xB8 0x0000 b1;
          b3 = WriteFPGATo2828_8bit channel 0xBC (ucast count) b2 in
      case para of
        [] \<Rightarrow> None
      | p # _ \<Rightarrow> long_data (WriteDATAFPGATo2828_8bit channel) (unat count) 1 para
                  (WriteFPGATo2828_8bit channel 0xBF (word_of p RegAddr) b3))"

definition CMDGerneralLongWriteWithPara ::
  "int \<Rightarrow> u8 \<Rightarrow> u8 list \<Rightarrow> u8 \<Rightarrow> bus \<Rightarrow> (bus \<times> u8 list) option" where
  "CMDGerneralLongWriteWithPara channel RegAddr para count b =
     (let b1 = WriteFPGATo2828_8bit channel 0xB7 0x0300 b;
          b2 = WriteFPGATo2828_8bit channel 0xB8 0x0000 b1;
          b3 = WriteFPGATo2828_8bit channel 0xBC (ucast count) b2 in
      case para of
        [] \<Rightarrow> None
      | p # _ \<Rightarrow> long_data (WriteDATAFPGATo2828_8bit channel) (unat count) 1 para
                  (WriteFPGATo2828_8bit channel 0xBF (word_of p RegAddr) b3))"

text \<open>The long write over a list of bytes that starts with the register.\<close>

function xujie_data :: "int \<Rightarrow> nat \<Rightarrow> u8 list \<Rightarrow> bus \<Rightarrow> bus option" where
  "xujie_data channel count para b =
     (if count > 0 then
        (case para of
           [] \<Rightarrow> None
         | lo # rest \<Rightarrow>
             if count = 1 then Some (WriteDATASSD2828 channel (word_of 0 lo) b)
             else (case rest of
                     [] \<Rightarrow> None
                   | hi # para' \<Rightarrow>
                       xujie_data channel (count - 2) para' (WriteDATASSD2828 channel (word_of hi lo) b)))
      else Some b)"
  by pat_completeness auto
termination by (relation "measure (\<lambda>(_, count, _, _). count)") auto

declare xujie_data.simps [simp del]

text \<open>
  A count below two makes the source's loop counter negative after the first half word, which ends
  it at once; so does the early return for two.
\<close>

definition DCSLongWriteWithPara_xujie :: "int \<Rightarrow> u8 list \<Rightarrow> int \<Rightarrow> bus \<Rightarrow> bus option" where
  "DCSLongWriteWithPara_xujie channel para count b =
     (let b1 = WriteSSD2828 channel 0xB7 (if HsSignalOnFlag b then 0x034b else 0x0340) b;
          b2 = WriteSSD2828 channel 0xB8 0x0000 b1;
          b3 = WriteSSD2828 channel 0xBC (word_of_int count) b2 in
      case para of
        lo # hi # para' \<Rightarrow>
          (let b4 = WriteSSD2828 channel 0xBF (word_of hi lo) b3 in
           if count = 2 then Some b4 else xujie_data channel (nat (count - 2)) para' b4)
      | _ \<Rightarrow> None)"

definition SPI_ALL_CS :: int where "SPI_ALL_CS = 0xFF"

definition sendCloseCommand :: "bus \<Rightarrow> bus" where
  "sendCloseCommand b =
     (let b1 = Delay_I2C 20 (DCSShortWriteNoPara SPI_ALL_CS 0x28 b);
          b2 = Delay_I2C 20 (DCSShortWriteNoPara SPI_ALL_CS 0x10 b1);
          b3 = WriteSSD2828 SPI_ALL_CS 0xB7 0x0340 b2 in
      WriteSSD2828 SPI_ALL_CS 0xC4 0x0004 b3)"

section \<open>Reading the panel's registers\<close>

text \<open>
  The word loop of \<^verbatim>\<open>_ReadModReg\<close>, from index \<open>i\<close> on: the first read addresses the register, the
  others only fetch data. The value is what is stored through the pointer, \<open>len\<close> bytes.
\<close>

function read_bytes :: "int \<Rightarrow> nat \<Rightarrow> nat \<Rightarrow> bus \<Rightarrow> u8 list \<times> bus" where
  "read_bytes channel len i b =
     (if i < len then
        let (v, b1) = (if i = 0 then ReadSSD2828Reg channel 0xFF b else ReadDATASSD2828Reg channel 0xFF b);
            here = (if i + 1 < len then [ucast (v AND 0xFF), ucast (drop_bit 8 (v AND 0xFF00))]
                    else [ucast (v AND 0xFF)]);
            (rest, b2) = read_bytes channel len (i + 2) b1 in
        (here @ rest, b2)
      else ([], b))"
  by pat_completeness auto
termination by (relation "measure (\<lambda>(_, len, i, _). len - i)") auto

declare read_bytes.simps [simp del]

definition read_request :: "int \<Rightarrow> u8 \<Rightarrow> u8 \<Rightarrow> u8 \<Rightarrow> bus \<Rightarrow> bus" where
  "read_request channel type RegAddr len b =
     (let b1 = WriteSSD2828 channel 0xC1 (ucast len) b;
          b2 = (if type = 0 then WriteSSD2828 channel 0xB7 0x0380 b1
                else if type = 1 then WriteSSD2828 channel 0xB7 0x03c0 b1 else b1);
          b3 = WriteSSD2828 channel 0xC0 0x0100 b2;
          b4 = WriteSSD2828 channel 0xBC 0x0001 b3;
          b5 = WriteSSD2828 channel 0xBF (ucast RegAddr) b4 in
      emit (Usleep (10 * 1000)) b5)"

text \<open>
  The retry loop; the answer is the length register of the bridge and the bytes, or length 0 and
  no bytes when the bridge was never ready.
\<close>

primrec read_tries ::
  "nat \<Rightarrow> int \<Rightarrow> u8 \<Rightarrow> u8 \<Rightarrow> u8 \<Rightarrow> bus \<Rightarrow> nat \<times> u8 list option \<times> bus" where
  "read_tries 0 channel type RegAddr len b = (0, None, b)"
| "read_tries (Suc k) channel type RegAddr len b =
     (let (ready, b1) = ReadSSD2828Reg channel 0xC6 (read_request channel type RegAddr len b) in
      if ready AND 0x0005 = 0x0005 then
        let (n, b2) = ReadSSD2828Reg channel 0xC2 b1;
            (bytes, b3) = read_bytes channel (unat len) 0 b2 in
        (unat (n AND 0xffff), Some bytes, b3)
      else read_tries k channel type RegAddr len b1)"

definition ReadModReg ::
  "int \<Rightarrow> u8 \<Rightarrow> u8 \<Rightarrow> u8 \<Rightarrow> bus \<Rightarrow> nat \<times> u8 list option \<times> bus" where
  "ReadModReg channel type RegAddr len b =
     (let (RetLen, bytes, b1) = read_tries 3 channel type RegAddr len b in
      (RetLen, bytes, if HsSignalOnFlag b1 then WriteSSD2828 channel 0xB7 0x03c9 b1 else b1))"

section \<open>Effects on the trace\<close>

definition cmd_write :: "int \<Rightarrow> u8 \<Rightarrow> bus_event" where
  "cmd_write channel addr = Spi_write channel [0x70, 0x00, addr]"

definition data_write :: "int \<Rightarrow> u16 \<Rightarrow> bus_event" where
  "data_write channel d = Spi_write channel [0x72, ucast (drop_bit 8 d), ucast d]"

definition reg_write :: "int \<Rightarrow> u8 \<Rightarrow> u16 \<Rightarrow> bus_event list" where
  "reg_write channel addr d = [cmd_write channel addr, data_write channel d]"

lemma lo_byte_mask: "ucast (d AND 0xFF) = (ucast d :: u8)" for d :: u16
proof -
  have "d AND 0xFF = take_bit 8 d" by (simp add: take_bit_eq_mask mask_eq_exp_minus_1)
  then show ?thesis by (auto intro!: bit_word_eqI simp: bit_simps)
qed

lemma hi_byte_mask: "ucast (drop_bit 8 (d AND 0xFF00)) = (ucast (drop_bit 8 d) :: u8)" for d :: u16
proof -
  have "drop_bit 8 (0xFF00 :: u16) = 0xFF" by simp
  then have "drop_bit 8 (d AND 0xFF00) = drop_bit 8 d AND 0xFF" by (simp only: drop_bit_and)
  then show ?thesis by (simp only: lo_byte_mask)
qed

lemma unat_u8_le: "unat w \<le> 255" for w :: u8
  using unsigned_less [of w, where ?'a = nat] by simp

lemma bit_u8: "bit w n \<Longrightarrow> n < 8" for w :: u8
  using bit_imp_le_length [of w n] by simp

lemma word_of_or: "word_of hi lo = push_bit 8 (ucast hi) OR ucast lo"
proof -
  have "push_bit 8 (ucast hi) AND ucast lo = (0 :: u16)"
    by (auto intro!: bit_word_eqI simp: bit_simps dest!: bit_u8 [of lo])
  then show ?thesis by (simp add: word_of_def disjunctive_add_eq_or)
qed

lemma word_of_bytes [simp]:
  "ucast (drop_bit 8 (word_of hi lo)) = hi" "ucast (word_of hi lo) = lo"
  by (auto intro!: bit_word_eqI simp: word_of_or bit_simps dest: bit_u8)

lemma emit_simps [bus_simps]:
  "bus_trace (emit e b) = bus_trace b @ [e]"
  "bus_dev (emit e b) = bus_dev b"
  "HsSignalOnFlag (emit e b) = HsSignalOnFlag b"
  by (simp_all add: emit_def)

lemma WriteSSD2828_simps [bus_simps]:
  "bus_trace (WriteSSD2828 c a d b) = bus_trace b @ reg_write c a d"
  "bus_dev (WriteSSD2828 c a d b) = bus_dev b"
  "HsSignalOnFlag (WriteSSD2828 c a d b) = HsSignalOnFlag b"
  by (simp_all add: WriteSSD2828_def emit_def reg_write_def cmd_write_def data_write_def
      hi_byte_mask lo_byte_mask)

lemma WriteDATASSD2828_simps [bus_simps]:
  "bus_trace (WriteDATASSD2828 c d b) = bus_trace b @ [data_write c d]"
  "bus_dev (WriteDATASSD2828 c d b) = bus_dev b"
  "HsSignalOnFlag (WriteDATASSD2828 c d b) = HsSignalOnFlag b"
  by (simp_all add: WriteDATASSD2828_def emit_def data_write_def hi_byte_mask lo_byte_mask)

lemma fpga_writes [simp]:
  "WriteFPGATo2828_8bit = WriteSSD2828"
  "WriteCMDFPGATo2828_8bit = WriteCMDSSD2828"
  "WriteDATAFPGATo2828_8bit = WriteDATASSD2828"
  by (intro ext, simp add: WriteFPGATo2828_8bit_def WriteSSD2828_def WriteCMDFPGATo2828_8bit_def
      WriteCMDSSD2828_def WriteDATAFPGATo2828_8bit_def WriteDATASSD2828_def)+

text \<open>The bytes the bridge receives in a series of half words, the low one first.\<close>

definition words_bytes :: "u16 list \<Rightarrow> u8 list" where
  "words_bytes ws = concat (map (\<lambda>w. [ucast w, ucast (drop_bit 8 w)]) ws)"

definition long_words :: "nat \<Rightarrow> nat \<Rightarrow> u8 list \<Rightarrow> u16 list" where
  "long_words count ii para =
     map (\<lambda>i. word_of (para ! (2 * i)) (para ! (2 * i - 1))) [ii..<(count + 1) div 2]"

definition pad_odd :: "nat \<Rightarrow> u8 list \<Rightarrow> u8 list" where
  "pad_odd count para = (if odd count then para[count - 1 := 0] else para)"

lemma long_data_words:
  assumes "1 \<le> ii" and "count \<le> 255" and "count \<le> length para" and "2 * ii \<le> count + 1"
  shows "long_data (WriteDATASSD2828 c) count ii para b =
    Some (fold (WriteDATASSD2828 c) (long_words count ii (pad_odd count para)) b,
      if 2 * ii < count then pad_odd count para else para)"
  using assms
proof (induction "WriteDATASSD2828 c" count ii para b rule: long_data.induct)
  case (1 count ii para b)
  show ?case
  proof (cases "2 * ii < count")
    case False
    then show ?thesis using 1(5) by (simp add: long_data.simps [of _ _ ii] long_words_def)
  next
    case True
    let ?p = "if count = 2 * ii + 1 then para[2 * ii := 0] else para"
    have p: "length ?p = length para" "pad_odd count ?p = pad_odd count para"
      "?p ! (2 * ii) = pad_odd count para ! (2 * ii)"
      "?p ! (2 * ii - 1) = pad_odd count para ! (2 * ii - 1)"
      using True 1(2,4) by (auto simp: pad_odd_def nth_list_update)
    have step: "long_words count ii (pad_odd count para) =
        word_of (?p ! (2 * ii)) (?p ! (2 * ii - 1)) # long_words count (ii + 1) (pad_odd count para)"
      using True unfolding p by (simp add: long_words_def upt_rec)
    have "2 * (ii + 1) \<le> count + 1" using True by simp
    then have ih: "long_data (WriteDATASSD2828 c) count (ii + 1) ?p
        (WriteDATASSD2828 c (word_of (?p ! (2 * ii)) (?p ! (2 * ii - 1))) b) =
      Some (fold (WriteDATASSD2828 c) (long_words count (ii + 1) (pad_odd count para))
          (WriteDATASSD2828 c (word_of (?p ! (2 * ii)) (?p ! (2 * ii - 1))) b),
        if 2 * (ii + 1) < count then pad_odd count ?p else ?p)"
      using 1(1) [of ?p] 1(2-4) True p by simp
    have "(if 2 * (ii + 1) < count then pad_odd count ?p else ?p) = pad_odd count para"
    proof (cases "2 * (ii + 1) < count")
      case False
      then have "count = 2 * ii + 1 \<or> count = 2 * ii + 2" using True by arith
      then show ?thesis by (auto simp: pad_odd_def)
    qed (simp only: p if_True)
    then show ?thesis
      using True 1(3,4) ih unfolding long_data.simps [of _ _ ii para] step
      by (simp add: Let_def)
  qed
qed

lemma xujie_data_long:
  assumes "1 \<le> ii" and "count \<le> 255" and "count \<le> length para" and "2 * ii \<le> count + 1"
  shows "xujie_data c (count - 2 * ii) (drop (2 * ii - 1) para) b =
    map_option fst (long_data (WriteDATASSD2828 c) count ii para b)"
  using assms
proof (induction "WriteDATASSD2828 c" count ii para b rule: long_data.induct)
  case (1 count ii para b)
  show ?case
  proof (cases "2 * ii < count")
    case False
    then show ?thesis by (simp add: long_data.simps [of _ _ ii] xujie_data.simps)
  next
    case True
    let ?k = "2 * ii - 1"
    have d: "drop ?k para = para ! ?k # drop (2 * ii) para"
      using True 1(2,4) Cons_nth_drop_Suc [of ?k para] by simp
    show ?thesis
    proof (cases "count = 2 * ii + 1")
      case odd: True
      have "xujie_data c 1 (drop ?k para) b = Some (WriteDATASSD2828 c (word_of 0 (para ! ?k)) b)"
        unfolding d by (simp add: xujie_data.simps)
      then show ?thesis
        using True odd 1(2-4)
        by (simp add: long_data.simps [of _ _ ii] long_data.simps [of _ _ "Suc ii"])
    next
      case False
      have e: "drop (2 * ii) para = para ! (2 * ii) # drop (2 * (ii + 1) - 1) para"
        using True 1(4) Cons_nth_drop_Suc [of "2 * ii" para] by simp
      have "2 * (ii + 1) \<le> count + 1" using True False by simp
      then have ih: "xujie_data c (count - 2 * (ii + 1)) (drop (2 * (ii + 1) - 1) para)
            (WriteDATASSD2828 c (word_of (para ! (2 * ii)) (para ! ?k)) b) =
          map_option fst (long_data (WriteDATASSD2828 c) count (ii + 1) para
            (WriteDATASSD2828 c (word_of (para ! (2 * ii)) (para ! ?k)) b))"
        using 1(1) [of para] 1(2-4) True False by simp
      have "count - 2 * ii \<noteq> 1" using True False by simp
      then show ?thesis
        using True False 1(3,4) ih
        unfolding long_data.simps [of _ _ ii] xujie_data.simps [of _ "count - 2 * ii"] d e
        by (simp add: numeral_2_eq_2)
    qed
  qed
qed

lemma fold_WriteDATA [bus_simps]:
  "bus_trace (fold (WriteDATASSD2828 c) ws b) = bus_trace b @ map (data_write c) ws"
  "bus_dev (fold (WriteDATASSD2828 c) ws b) = bus_dev b"
  "HsSignalOnFlag (fold (WriteDATASSD2828 c) ws b) = HsSignalOnFlag b"
  by (induction ws arbitrary: b) (simp_all add: bus_simps)

lemma take_two_more:
  "n + 2 \<le> length xs \<Longrightarrow> take (n + 2) xs = take n xs @ [xs ! n, xs ! (n + 1)]"
  by (simp add: take_Suc_conv_app_nth numeral_2_eq_2)

lemma words_bytes_map:
  "2 * n \<le> length p + 1 \<Longrightarrow>
    words_bytes (map (\<lambda>i. word_of (p ! (2 * i)) (p ! (2 * i - 1))) [1..<n]) = take (2 * n - 2) (drop 1 p)"
proof (induction n)
  case 0
  then show ?case by (simp add: words_bytes_def)
next
  case (Suc n)
  show ?case
  proof (cases n)
    case 0
    then show ?thesis by (simp add: words_bytes_def)
  next
    case (Suc k)
    have "take (2 * k + 2) (drop 1 p) = take (2 * k) (drop 1 p) @ [p ! (2 * n - 1), p ! (2 * n)]"
      using take_two_more [of "2 * k" "drop 1 p"] Suc.prems Suc by simp
    then show ?thesis using Suc.IH Suc.prems Suc by (simp add: words_bytes_def)
  qed
qed

text \<open>The bridge takes as many bytes of the data words as the count register says.\<close>

definition packet_words :: "u8 \<Rightarrow> nat \<Rightarrow> u8 list \<Rightarrow> u16 list" where
  "packet_words RegAddr count para =
     word_of (para ! 0) RegAddr # long_words count 1 (pad_odd count para)"

lemma packet_words_bytes:
  assumes "2 \<le> count" and "count \<le> length para"
  shows "take count (words_bytes (packet_words RegAddr count para)) = RegAddr # take (count - 1) para"
    and "length (packet_words RegAddr count para) = (count + 1) div 2"
proof -
  let ?p = "pad_odd count para" and ?n = "(count + 1) div 2"
  have len: "length ?p = length para" by (simp add: pad_odd_def)
  have n: "2 * ?n \<le> length ?p + 1" using assms len by simp
  have "take (count - 2) (take (2 * ?n - 2) (drop 1 ?p)) = take (count - 2) (drop 1 ?p)"
    by simp
  also have "\<dots> = take (count - 2) (drop 1 para)"
    using assms by (auto simp: pad_odd_def drop_update_swap take_update_cancel numeral_eq_Suc
        split: nat.split)
  finally have t: "take (count - 2) (take (2 * ?n - 2) (drop 1 ?p)) = take (count - 2) (drop 1 para)" .
  have "para ! 0 # take (count - 2) (drop 1 para) = take (count - 1) para"
    using assms by (cases para) (auto simp: take_Cons' numeral_2_eq_2)
  then show "take count (words_bytes (packet_words RegAddr count para)) = RegAddr # take (count - 1) para"
    using assms words_bytes_map [OF n] t
    by (simp add: packet_words_def long_words_def words_bytes_def take_Cons' numeral_2_eq_2)
  show "length (packet_words RegAddr count para) = ?n"
    using assms by (simp add: packet_words_def long_words_def)
qed

section \<open>What an operation does to the bus\<close>

text \<open>
  An event concerns a channel: a transfer names it, a pin of the memory supply serves two, a
  delay concerns all.
\<close>

definition on_channel :: "int \<Rightarrow> bus_event \<Rightarrow> bool" where
  "on_channel c e =
     (case e of
        Spi_write ch tx \<Rightarrow> ch = c
      | Spi_read ch tx \<Rightarrow> ch = c
      | Usleep n \<Rightarrow> True
      | Gpio_open n \<Rightarrow> n = (if c = 3 \<or> c = 4 then 14 else 15)
      | Gpio_output n \<Rightarrow> n = (if c = 3 \<or> c = 4 then 14 else 15)
      | Gpio_write n v \<Rightarrow> n = (if c = 3 \<or> c = 4 then 14 else 15)
      | _ \<Rightarrow> False)"

definition runs :: "int \<Rightarrow> bus \<Rightarrow> bus_event list \<Rightarrow> bus \<Rightarrow> bool" where
  "runs c b es b' \<longleftrightarrow> bus_trace b' = bus_trace b @ es \<and> bus_dev b' = bus_dev b
     \<and> (\<forall>e \<in> set es. on_channel c e)"

definition only_on :: "int \<Rightarrow> bus \<Rightarrow> bus \<Rightarrow> bool" where
  "only_on c b b' \<longleftrightarrow> (\<exists>es. runs c b es b')"

lemma runs_trans: "runs c b es b1 \<Longrightarrow> runs c b1 fs b2 \<Longrightarrow> runs c b (es @ fs) b2"
  by (auto simp: runs_def)

lemma only_on_refl [simp, intro]: "only_on c b b"
  unfolding only_on_def runs_def by (intro exI [of _ "[]"]) simp

lemma only_on_trans [trans]: "only_on c b b1 \<Longrightarrow> only_on c b1 b2 \<Longrightarrow> only_on c b b2"
  unfolding only_on_def using runs_trans by blast

lemma only_on_emit [intro]: "only_on c b b1 \<Longrightarrow> on_channel c e \<Longrightarrow> only_on c b (emit e b1)"
  by (rule only_on_trans, assumption) (auto simp: only_on_def runs_def emit_def)

lemma only_on_flag [simp]:
  "only_on c b (b1\<lparr>HsSignalOnFlag := f\<rparr>) = only_on c b b1"
  by (simp add: only_on_def runs_def)

lemma on_channel_simps [simp]:
  "on_channel c (Spi_write ch tx) \<longleftrightarrow> ch = c" "on_channel c (Spi_read ch tx) \<longleftrightarrow> ch = c"
  "on_channel c (Usleep n)" "on_channel c (cmd_write ch a) \<longleftrightarrow> ch = c"
  "on_channel c (data_write ch d) \<longleftrightarrow> ch = c"
  by (simp_all add: on_channel_def cmd_write_def data_write_def)

lemma only_on_writes [intro]:
  assumes "only_on c b b1"
  shows "only_on c b (WriteSSD2828 c a d b1)" "only_on c b (WriteCMDSSD2828 c a b1)"
    "only_on c b (WriteDATASSD2828 c d b1)" "only_on c b (time_delay n b1)"
    "only_on c b (Delay_I2C n b1)" "only_on c b (mipi_to_hs_mode c b1)"
    "only_on c b (mipi_to_lp_mode c b1)" "only_on c b (setHsmode f b1)"
  using assms
  by (simp_all add: WriteSSD2828_def WriteCMDSSD2828_def WriteDATASSD2828_def time_delay_def
      Delay_I2C_def mipi_to_hs_mode_def mipi_to_lp_mode_def setHsmode_def only_on_emit)

lemma only_on_mtp [intro]:
  assumes "only_on c b b1"
  shows "only_on c b (mtp_power_on c b1)" "only_on c b (mtp_power_off c b1)"
  using assms
  by (auto simp: mtp_power_on_def mtp_power_off_def set_pin_def on_channel_def intro!: only_on_emit)

lemma only_on_shorts [intro]:
  assumes "only_on c b b1"
  shows "only_on c b (DCSShortWriteNoPara c a b1)" "only_on c b (DCSShortWriteOnePara c a p b1)"
    "only_on c b (GeneralShortWriteTwoPara c a p b1)"
  using assms
  by (auto simp: DCSShortWriteNoPara_def DCSShortWriteOnePara_def GeneralShortWriteTwoPara_def Let_def)

section \<open>The answers of the device\<close>

definition is_read :: "bus_event \<Rightarrow> bool" where
  "is_read e = (case e of Spi_read _ _ \<Rightarrow> True | _ \<Rightarrow> False)"

text \<open>What the device answered to the reads among the events \<open>es\<close> that follow the trace \<open>pre\<close>.\<close>

primrec reads ::
  "(bus_event list \<Rightarrow> u8 \<times> u8 \<times> u8) \<Rightarrow> bus_event list \<Rightarrow> bus_event list \<Rightarrow> (u8 \<times> u8 \<times> u8) list" where
  "reads dev pre [] = []"
| "reads dev pre (e # es) = (if is_read e then [dev pre] else []) @ reads dev (pre @ [e]) es"

lemma reads_append: "reads dev pre (xs @ ys) = reads dev pre xs @ reads dev (pre @ xs) ys"
  by (induction xs arbitrary: pre) simp_all

lemma reads_no_read: "(\<forall>e \<in> set es. \<not> is_read e) \<Longrightarrow> reads dev pre es = []"
  by (induction es arbitrary: pre) simp_all

lemma is_read_simps [simp]:
  "is_read (Spi_read c tx)" "\<not> is_read (Spi_write c tx)" "\<not> is_read (Usleep n)"
  "\<not> is_read (cmd_write c a)" "\<not> is_read (data_write c d)"
  by (simp_all add: is_read_def cmd_write_def data_write_def)

definition answer_word :: "u8 \<times> u8 \<times> u8 \<Rightarrow> u16" where
  "answer_word r = (case r of (r0, r1, r2) \<Rightarrow> push_bit 8 (ucast r1) OR ucast r2)"

definition answer_bytes :: "u8 \<times> u8 \<times> u8 \<Rightarrow> u8 list" where
  "answer_bytes r = (case r of (r0, r1, r2) \<Rightarrow> [r2, r1])"

lemma answer_word_bytes:
  "[ucast (answer_word r AND 0xFF), ucast (drop_bit 8 (answer_word r AND 0xFF00))] = answer_bytes r"
  by (cases r) (simp only: answer_word_def answer_bytes_def prod.case hi_byte_mask lo_byte_mask
      word_of_or [symmetric] word_of_bytes)

lemma ReadSSD2828Reg_runs:
  assumes "ReadSSD2828Reg c a b = (v, b')"
  shows "runs c b [cmd_write c a, Spi_read c [0x73, 0, 0]] b'"
    and "v = answer_word (bus_dev b (bus_trace b @ [cmd_write c a]))"
    and "HsSignalOnFlag b' = HsSignalOnFlag b"
  using assms
  by (auto simp: ReadSSD2828Reg_def spi_read_def runs_def emit_def cmd_write_def answer_word_def
      split: prod.splits)

lemma ReadDATASSD2828Reg_runs:
  assumes "ReadDATASSD2828Reg c a b = (v, b')"
  shows "runs c b [Spi_read c [0x73, 0, 0]] b'"
    and "v = answer_word (bus_dev b (bus_trace b))"
    and "HsSignalOnFlag b' = HsSignalOnFlag b"
  using assms
  by (auto simp: ReadDATASSD2828Reg_def spi_read_def runs_def emit_def answer_word_def
      split: prod.splits)

lemma read_bytes_runs:
  assumes "read_bytes c len i b = (bs, b')"
  shows "\<exists>es. runs c b es b' \<and> HsSignalOnFlag b' = HsSignalOnFlag b \<and> length bs = len - i \<and>
    bs = take (len - i) (concat (map answer_bytes (reads (bus_dev b) (bus_trace b) es)))"
  using assms
proof (induction c len i b arbitrary: bs b' rule: read_bytes.induct)
  case (1 c len i b)
  show ?case
  proof (cases "i < len")
    case False
    then show ?thesis using 1(2) by (auto simp: read_bytes.simps [of _ _ i] runs_def intro!: exI [of _ "[]"])
  next
    case True
    obtain v b1 where v: "(if i = 0 then ReadSSD2828Reg c 0xFF b else ReadDATASSD2828Reg c 0xFF b) = (v, b1)"
      by fastforce
    obtain rest b2 where r: "read_bytes c len (i + 2) b1 = (rest, b2)" by fastforce
    define here where "here = take (len - i) [ucast (v AND 0xFF), ucast (drop_bit 8 (v AND 0xFF00)) :: u8]"
    have out: "bs = here @ rest" "b' = b2"
      using 1(2) True v r by (auto simp: read_bytes.simps [of _ _ i] Let_def here_def take_Cons'
          split: prod.splits)
    obtain es where es: "runs c b es b1" "HsSignalOnFlag b1 = HsSignalOnFlag b" and
        rd: "\<exists>a. reads (bus_dev b) (bus_trace b) es = [a] \<and> v = answer_word a"
    proof (cases "i = 0")
      case True
      then have "ReadSSD2828Reg c 0xFF b = (v, b1)" using v by simp
      from ReadSSD2828Reg_runs [OF this] show ?thesis
        by (intro that [of "[cmd_write c 0xFF, Spi_read c [0x73, 0, 0]]"]) simp_all
    next
      case False
      then have "ReadDATASSD2828Reg c 0xFF b = (v, b1)" using v by simp
      from ReadDATASSD2828Reg_runs [OF this] show ?thesis
        by (intro that [of "[Spi_read c [0x73, 0, 0]]"]) simp_all
    qed
    obtain fs where fs: "runs c b1 fs b2" "HsSignalOnFlag b2 = HsSignalOnFlag b1"
      "length rest = len - (i + 2)"
      "rest = take (len - (i + 2)) (concat (map answer_bytes (reads (bus_dev b1) (bus_trace b1) fs)))"
      using 1(1) [OF True v [symmetric] refl refl r] by blast
    obtain a where a: "reads (bus_dev b) (bus_trace b) es = [a]" "here = take (len - i) (answer_bytes a)"
      using rd here_def answer_word_bytes by metis
    have two: "length (answer_bytes a) = 2" by (cases a) (simp add: answer_bytes_def)
    have "reads (bus_dev b) (bus_trace b) (es @ fs) = a # reads (bus_dev b1) (bus_trace b1) fs"
      using a es(1) by (simp add: reads_append runs_def)
    moreover have "length here = min (len - i) 2" using a two by simp
    ultimately show ?thesis
      using runs_trans [OF es(1) fs(1)] es(2) fs(2-4) a two out
      by (intro exI [of _ "es @ fs"]) (auto simp: min_def)
  qed
qed

definition bridge_ready :: "u8 \<times> u8 \<times> u8 \<Rightarrow> bool" where
  "bridge_ready r \<longleftrightarrow> answer_word r AND 0x0005 = 0x0005"

text \<open>
  A read of \<open>len\<close> bytes got the answers \<open>rs\<close>: up to \<open>k\<close> times the bridge was not ready, then it was,
  and gave a length and the bytes.
\<close>

definition read_outcome ::
  "nat \<Rightarrow> nat \<Rightarrow> (u8 \<times> u8 \<times> u8) list \<Rightarrow> nat \<Rightarrow> u8 list option \<Rightarrow> bool" where
  "read_outcome k len rs n bytes \<longleftrightarrow>
     (case bytes of
        None \<Rightarrow> n = 0 \<and> length rs = k \<and> (\<forall>r \<in> set rs. \<not> bridge_ready r)
      | Some bs \<Rightarrow> (\<exists>fails s l ds. rs = fails @ s # l # ds \<and> length fails < k \<and>
          (\<forall>r \<in> set fails. \<not> bridge_ready r) \<and> bridge_ready s \<and> n = unat (answer_word l) \<and>
          length bs = len \<and> bs = take len (concat (map answer_bytes ds))))"

lemma read_request_runs:
  "\<exists>es. runs c b es (read_request c t a len b) \<and> (\<forall>e \<in> set es. \<not> is_read e)
    \<and> HsSignalOnFlag (read_request c t a len b) = HsSignalOnFlag b"
  by (simp add: read_request_def runs_def bus_simps reg_write_def Let_def)

lemma read_tries_runs:
  assumes "read_tries k c t a len b = (n, bytes, b')"
  shows "\<exists>es. runs c b es b' \<and> HsSignalOnFlag b' = HsSignalOnFlag b \<and>
    read_outcome k (unat len) (reads (bus_dev b) (bus_trace b) es) n bytes"
  using assms
proof (induction k arbitrary: b)
  case 0
  then show ?case by (auto simp: read_outcome_def runs_def intro!: exI [of _ "[]"])
next
  case (Suc k)
  obtain es where es: "runs c b es (read_request c t a len b)" "\<forall>e \<in> set es. \<not> is_read e"
    "HsSignalOnFlag (read_request c t a len b) = HsSignalOnFlag b"
    using read_request_runs by blast
  obtain ready b1 where rd: "ReadSSD2828Reg c 0xC6 (read_request c t a len b) = (ready, b1)"
    by fastforce
  note r1 = ReadSSD2828Reg_runs [OF rd]
  define s where "s = bus_dev b (bus_trace b @ es @ [cmd_write c 0xC6])"
  define fs where "fs = es @ [cmd_write c 0xC6, Spi_read c [0x73, 0, 0]]"
  have fs: "runs c b fs b1" unfolding fs_def by (rule runs_trans [OF es(1) r1(1)])
  have s: "reads (bus_dev b) (bus_trace b) fs = [s]" "ready = answer_word s"
    using es r1(2) by (simp_all add: fs_def s_def reads_append reads_no_read runs_def)
  show ?case
  proof (cases "bridge_ready s")
    case False
    then have "read_tries k c t a len b1 = (n, bytes, b')"
      using Suc.prems rd s(2) by (simp add: bridge_ready_def)
    then obtain gs where gs: "runs c b1 gs b'" "HsSignalOnFlag b' = HsSignalOnFlag b1"
      "read_outcome k (unat len) (reads (bus_dev b1) (bus_trace b1) gs) n bytes"
      using Suc.IH by blast
    have "reads (bus_dev b) (bus_trace b) (fs @ gs) = s # reads (bus_dev b1) (bus_trace b1) gs"
      using s(1) fs by (simp add: reads_append runs_def)
    moreover have "read_outcome (Suc k) (unat len) (s # reads (bus_dev b1) (bus_trace b1) gs) n bytes"
    proof (cases bytes)
      case None
      then show ?thesis using gs(3) False by (simp add: read_outcome_def)
    next
      case (Some bs)
      then obtain fails s' l ds where *: "reads (bus_dev b1) (bus_trace b1) gs = fails @ s' # l # ds"
        "length fails < k" "\<forall>r \<in> set fails. \<not> bridge_ready r" "bridge_ready s'"
        "n = unat (answer_word l)" "length bs = unat len"
        "bs = take (unat len) (concat (map answer_bytes ds))"
        using gs(3) by (auto simp: read_outcome_def)
      show ?thesis unfolding read_outcome_def Some option.case
        by (rule exI [of _ "s # fails"], rule exI [of _ s'], rule exI [of _ l], rule exI [of _ ds])
          (use * False in simp)
    qed
    ultimately show ?thesis
      using runs_trans [OF fs gs(1)] gs(2) r1(3) es(3) by (intro exI [of _ "fs @ gs"]) simp
  next
    case True
    obtain w b2 where w: "ReadSSD2828Reg c 0xC2 b1 = (w, b2)" by fastforce
    obtain bs b3 where bs: "read_bytes c (unat len) 0 b2 = (bs, b3)" by fastforce
    note r2 = ReadSSD2828Reg_runs [OF w]
    obtain gs where gs: "runs c b2 gs b3" "HsSignalOnFlag b3 = HsSignalOnFlag b2"
      "length bs = unat len"
      "bs = take (unat len) (concat (map answer_bytes (reads (bus_dev b2) (bus_trace b2) gs)))"
      using read_bytes_runs [OF bs] by auto
    define l where "l = bus_dev b1 (bus_trace b1 @ [cmd_write c 0xC2])"
    define hs where "hs = fs @ [cmd_write c 0xC2, Spi_read c [0x73, 0, 0]] @ gs"
    have hs: "runs c b hs b3"
      unfolding hs_def by (rule runs_trans [OF fs runs_trans [OF r2(1) gs(1)]])
    have rs: "reads (bus_dev b) (bus_trace b) hs =
        [] @ s # l # reads (bus_dev b2) (bus_trace b2) gs"
      using s(1) fs r2(1) by (simp add: hs_def l_def reads_append runs_def)
    have "w AND 0xFFFF = w"
      using take_bit_word_eq_self [of 16 w] by (simp add: take_bit_eq_mask mask_eq_exp_minus_1)
    then have out: "n = unat (answer_word l)" "bytes = Some bs" "b' = b3"
      using Suc.prems rd s(2) True w bs r2(2) by (simp_all add: bridge_ready_def l_def)
    have "read_outcome (Suc k) (unat len) (reads (bus_dev b) (bus_trace b) hs) n bytes"
      unfolding read_outcome_def rs out option.case
      by (rule exI [of _ "[]"], rule exI [of _ s], rule exI [of _ l], rule exI)
        (use True gs(3,4) in simp)
    then show ?thesis using hs gs(2) r2(3) r1(3) es(3) out by auto
  qed
qed

lemma only_on_ReadModReg:
  assumes "only_on c b0 b" and "ReadModReg c t a len b = (n, bytes, b')"
  shows "only_on c b0 b'"
proof -
  obtain n1 bytes1 b1 where r: "read_tries 3 c t a len b = (n1, bytes1, b1)"
    by (cases "read_tries 3 c t a len b") auto
  then have "only_on c b b1" using read_tries_runs unfolding only_on_def by blast
  with assms(1) have 1: "only_on c b0 b1" by (rule only_on_trans)
  have "b' = (if HsSignalOnFlag b1 then WriteSSD2828 c 0xB7 0x03c9 b1 else b1)"
    using assms(2) r by (simp add: ReadModReg_def)
  with 1 show ?thesis by (simp add: only_on_writes)
qed

section \<open>Properties\<close>

definition long_trace :: "int \<Rightarrow> u16 \<Rightarrow> u16 \<Rightarrow> u16 \<Rightarrow> u16 list \<Rightarrow> bus_event list" where
  "long_trace c mode count w ws =
     reg_write c 0xB7 mode @ reg_write c 0xB8 0 @ reg_write c 0xBC count @ reg_write c 0xBF w
     @ map (data_write c) ws"

lemma long_data_packet:
  assumes "2 \<le> count" and "count \<le> 255" and "count \<le> length para"
  shows "(case para of
      [] \<Rightarrow> None
    | p # _ \<Rightarrow> long_data (WriteDATASSD2828 c) count 1 para (WriteSSD2828 c 0xBF (word_of p RegAddr) b)) =
    Some (fold (WriteDATASSD2828 c) (long_words count 1 (pad_odd count para))
      (WriteSSD2828 c 0xBF (word_of (para ! 0) RegAddr) b), pad_odd count para)"
proof -
  obtain p ps where "para = p # ps" using assms by (cases para) auto
  moreover have "2 < count \<or> pad_odd count para = para"
    using assms(1) by (auto simp: pad_odd_def le_less)
  ultimately show ?thesis
    using assms long_data_words [of 1 count para c] by auto
qed

lemma DCSLongWriteWithPara_words:
  assumes "2 \<le> unat count" and "unat count \<le> length para"
  shows "DCSLongWriteWithPara c RegAddr para count b =
      Some (fold (WriteDATASSD2828 c) (long_words (unat count) 1 (pad_odd (unat count) para))
        (WriteSSD2828 c 0xBF (word_of (para ! 0) RegAddr) (WriteSSD2828 c 0xBC (ucast count)
          (WriteSSD2828 c 0xB8 0 (WriteSSD2828 c 0xB7 (if HsSignalOnFlag b then 0x034b else 0x0340) b)))),
        pad_odd (unat count) para)"
  unfolding DCSLongWriteWithPara_def Let_def long_data_packet [OF assms(1) unat_u8_le assms(2)] ..

text \<open>
  A long write delivers its packet. For two bytes or more the bridge is told the mode, the
  channel and the count, and then receives exactly the count of bytes: the register, then the
  parameters, packed in half words low byte first, with one zero in the array behind an odd
  count.
\<close>

theorem long_write_packet:
  assumes "2 \<le> unat count" and "unat count \<le> length para"
  shows "\<exists>b' w ws. DCSLongWriteWithPara c RegAddr para count b = Some (b', pad_odd (unat count) para) \<and>
    bus_trace b' = bus_trace b @ long_trace c (if HsSignalOnFlag b then 0x034b else 0x0340)
      (ucast count) w ws \<and>
    HsSignalOnFlag b' = HsSignalOnFlag b \<and>
    length (w # ws) = (unat count + 1) div 2 \<and>
    take (unat count) (words_bytes (w # ws)) = RegAddr # take (unat count - 1) para"
proof -
  note bytes = packet_words_bytes [OF assms, of RegAddr, unfolded packet_words_def]
  show ?thesis
    unfolding DCSLongWriteWithPara_words [OF assms]
    by (rule exI, rule exI [of _ "word_of (para ! 0) RegAddr"],
        rule exI [of _ "long_words (unat count) 1 (pad_odd (unat count) para)"], intro conjI, rule refl)
      (simp_all only: bytes bus_simps long_trace_def append_assoc)
qed

definition idle_bus :: bus where
  "idle_bus = \<lparr>bus_trace = [], bus_dev = (\<lambda>_. (0, 0, 0)), HsSignalOnFlag = False\<rparr>"

lemma long_write_packet_witness:
  "\<exists>b' w ws. DCSLongWriteWithPara 1 0xB9 [0xFF, 0x83, 0x94] 3 idle_bus
      = Some (b', [0xFF, 0x83, 0]) \<and> take 3 (words_bytes (w # ws)) = [0xB9, 0xFF, 0x83]"
  using long_write_packet [of 3 "[0xFF, 0x83, 0x94]" 1 "0xB9" idle_bus]
  by (fastforce simp: pad_odd_def)

text \<open>
  The two implementations of the long write agree: the one that takes the register as the
  first byte and works on the caller's bytes without changing them sends the same transfers.
\<close>

theorem long_writes_agree:
  assumes "2 \<le> unat count" and "unat count \<le> length para"
  shows "DCSLongWriteWithPara_xujie c (RegAddr # para) (int (unat count)) b =
    map_option fst (DCSLongWriteWithPara c RegAddr para count b)"
proof -
  obtain p ps where para: "para = p # ps" using assms by (cases para) auto
  have "unat count \<le> 255" by (rule unat_u8_le)
  then have *: "xujie_data c (unat count - 2) ps b' =
      map_option fst (long_data (WriteDATASSD2828 c) (unat count) 1 para b')" for b'
    using xujie_data_long [of 1 "unat count" para c b'] assms para by simp
  have 0: "xujie_data c 0 ps b' = Some b'" for b' by (simp add: xujie_data.simps)
  have count: "word_of_int (int (unat count)) = (ucast count :: u16)"
    by simp
  have two: "int (unat count) = 2 \<Longrightarrow> unat count = 2" by linarith
  have nat2: "nat (int (unat count) - 2) = unat count - 2" using assms(1) by linarith
  have eq: "(if int (unat count) = 2 then Some b' else xujie_data c (nat (int (unat count) - 2)) ps b')
      = xujie_data c (unat count - 2) ps b'" for b'
    unfolding nat2 using 0 two by (cases "int (unat count) = 2") (simp_all only: if_True if_False diff_self_eq_0 refl)
  show ?thesis
    unfolding DCSLongWriteWithPara_xujie_def DCSLongWriteWithPara_def Let_def para list.case count eq
    using * unfolding para by simp
qed

lemma long_writes_agree_witness:
  "DCSLongWriteWithPara_xujie 1 [0xB9, 0xFF, 0x83, 0x94] 3 idle_bus =
    map_option fst (DCSLongWriteWithPara 1 0xB9 [0xFF, 0x83, 0x94] 3 idle_bus)"
  using long_writes_agree [of 3 "[0xFF, 0x83, 0x94]" 1 "0xB9" idle_bus] by simp

text \<open>
  Reading the panel's registers ends after at most three attempts, whatever the bridge
  answers, and touches no other channel. It gives the length the bridge reports and exactly the
  requested number of bytes, those of the data words that follow, if the bridge became ready, and
  length 0 and no bytes if it was not ready three times. The transmission mode is kept.
\<close>

theorem read_mod_reg:
  "\<exists>n bytes b' es. ReadModReg c type RegAddr len b = (n, bytes, b') \<and> runs c b es b' \<and>
    HsSignalOnFlag b' = HsSignalOnFlag b \<and>
    read_outcome 3 (unat len) (reads (bus_dev b) (bus_trace b) es) n bytes"
proof -
  obtain n bytes b1 where r: "read_tries 3 c type RegAddr len b = (n, bytes, b1)"
    by (cases "read_tries 3 c type RegAddr len b") auto
  obtain es where es: "runs c b es b1" "HsSignalOnFlag b1 = HsSignalOnFlag b"
    "read_outcome 3 (unat len) (reads (bus_dev b) (bus_trace b) es) n bytes"
    using read_tries_runs [OF r] by blast
  let ?w = "reg_write c 0xB7 0x03c9"
  have w: "runs c b1 ?w (WriteSSD2828 c 0xB7 0x03c9 b1)" "reads (bus_dev b1) (bus_trace b1) ?w = []"
    by (simp_all add: runs_def bus_simps reg_write_def)
  have "reads (bus_dev b) (bus_trace b) (es @ ?w) = reads (bus_dev b) (bus_trace b) es"
    using es(1) w(2) by (simp add: reads_append runs_def)
  then show ?thesis
    using r es runs_trans [OF es(1) w(1)]
    by (cases "HsSignalOnFlag b1") (auto simp: ReadModReg_def bus_simps)
qed

end
