(* ===== verification/InitCode.thy ===== *)
theory InitCode
  imports Ssd2828
begin

text \<open>
  The interpreter of initialisation codes, \<^verbatim>\<open>SendCode\<close> of \<^verbatim>\<open>hw/mipi/mipi2828.c\<close>. A code is an array of
  commands: a type, a register, a length and that many data bytes; a length above 250 ends it.
  The array is changed by commands that read, and the data bytes of a command are copied to a
  local array of 250 bytes that keeps what earlier commands left there.
\<close>

definition MAX_MIPI_CODE_LEN :: nat where "MAX_MIPI_CODE_LEN = 8192"

record send_state =
  sc_code :: "u8 list"
  sc_data :: "u8 list"
  curflick :: u8
  curpolar :: u8
  sc_bus :: bus

definition on_bus :: "(bus \<Rightarrow> bus) \<Rightarrow> send_state \<Rightarrow> send_state" where
  "on_bus f s = s\<lparr>sc_bus := f (sc_bus s)\<rparr>"

section \<open>One command\<close>

text \<open>A long write takes the local array, which an odd count changes.\<close>

definition send_long ::
  "(u8 list \<Rightarrow> u8 \<Rightarrow> bus \<Rightarrow> (bus \<times> u8 list) option) \<Rightarrow> u8 \<Rightarrow> send_state \<Rightarrow> send_state option" where
  "send_long write len s =
     map_option (\<lambda>(b, d). s\<lparr>sc_bus := b, sc_data := d\<rparr>) (write (sc_data s) (len + 1) (sc_bus s))"

text \<open>
  Reading registers of the panel: the length is the first data byte in the array, the bytes are
  stored from the second one on.
\<close>

definition send_read :: "int \<Rightarrow> u8 \<Rightarrow> nat \<Rightarrow> send_state \<Rightarrow> send_state option" where
  "send_read channel type cp s =
     (let c = sc_code s in
      if cp + 4 < length c then
        let (n, bytes, b) = ReadModReg channel type (c ! (cp + 1)) (c ! (cp + 3)) (sc_bus s) in
        case bytes of
          None \<Rightarrow> Some (s\<lparr>sc_bus := b\<rparr>)
        | Some bs \<Rightarrow> map_option (\<lambda>c'. s\<lparr>sc_code := c', sc_bus := b\<rparr>) (mem_write (cp + 4) bs c)
      else None)"

definition note_flick :: "u8 \<Rightarrow> nat \<Rightarrow> send_state \<Rightarrow> send_state" where
  "note_flick flag cp s =
     (if flag = 0xaa then s\<lparr>curflick := sc_code s ! (cp + 4)\<rparr>
      else if flag = 0xab then s\<lparr>curpolar := sc_code s ! (cp + 4)\<rparr>
      else s)"

text \<open>The commands of type 0, by their register.\<close>

definition run_control :: "int \<Rightarrow> nat \<Rightarrow> send_state \<Rightarrow> send_state option" where
  "run_control channel cp s =
     (let c = sc_code s; reg = c ! (cp + 1); d = sc_data s in
      if reg = 0x00 then
        Some (on_bus (time_delay (unat (ucast (d ! 0) + push_bit 8 (ucast (d ! 1)) :: u16))) s)
      else if reg = 0xfd then
        (let (regVal, b) = ReadSSD2828Reg channel (d ! 0) (sc_bus s) in
         if cp + 5 < length c
         then Some (s\<lparr>sc_code := c[cp + 4 := ucast (drop_bit 8 (regVal AND 0xff00)),
                               cp + 5 := ucast (regVal AND 0xff)], sc_bus := b\<rparr>)
         else None)
      else if reg = 0xfc then
        Some (on_bus (WriteSSD2828 channel (d ! 0) (push_bit 8 (ucast (d ! 1)) OR ucast (d ! 2))) s)
      else if reg = 0xfb \<or> reg = 0x03 then Some (on_bus (mipi_to_hs_mode channel) s)
      else if reg = 0xfa then Some (on_bus (mipi_to_lp_mode channel) s)
      else if reg = 0xf7 then Some (on_bus (\<lambda>b. emit (Gpio_reset 1) (emit (Gpio_reset 0) b)) s)
      else if reg = 0xf6 then
        if cp + 5 < length c
        then Some (on_bus (emit (Show_rgb (c ! (cp + 3)) (c ! (cp + 4)) (c ! (cp + 5)))) s)
        else None
      else Some s)"

definition run_cmd :: "int \<Rightarrow> nat \<Rightarrow> send_state \<Rightarrow> send_state option" where
  "run_cmd channel cp s =
     (let c = sc_code s; op = c ! cp; reg = c ! (cp + 1); len = c ! (cp + 2) in
      if op = 0x00 then run_control channel cp s
      else if op = 0x05 then
        Some (on_bus (\<lambda>b. Delay_I2C 20 (DCSShortWriteNoPara channel reg b)) s)
      else if op = 0x06 then
        if cp + 4 < length c
        then map_option (note_flick (c ! (cp + 4)) cp) (send_read channel 1 cp s)
        else None
      else if op = 0x14 then send_read channel 0 cp s
      else if op = 0x15 then
        if cp + 3 < length c
        then Some (on_bus (\<lambda>b. Delay_I2C 20 (DCSShortWriteOnePara channel reg (c ! (cp + 3)) b)) s)
        else None
      else if op = 0x23 then
        if cp + 3 < length c
        then Some (on_bus (\<lambda>b. Delay_I2C 20 (GeneralShortWriteTwoPara channel reg (c ! (cp + 3)) b)) s)
        else None
      else if op = 0x29 then
        map_option (on_bus (Delay_I2C 20)) (send_long (GerneralLongWriteWithPara channel reg) len s)
      else if op = 0x39 then send_long (DCSLongWriteWithPara channel reg) len s
      else Some s)"

section \<open>The loop\<close>

definition copy_data :: "nat \<Rightarrow> send_state \<Rightarrow> send_state option" where
  "copy_data cp s = do {
     bytes \<leftarrow> mem_read (cp + 3) (unat (sc_code s ! (cp + 2))) (sc_code s);
     d \<leftarrow> mem_write 0 bytes (sc_data s);
     Some (s\<lparr>sc_data := d\<rparr>)
   }"

primrec send_loop :: "nat \<Rightarrow> int \<Rightarrow> nat \<Rightarrow> send_state \<Rightarrow> send_state option" where
  "send_loop 0 channel cp s = Some s"
| "send_loop (Suc k) channel cp s =
     (if cp + 2 < length (sc_code s) then
        if sc_code s ! (cp + 2) \<le> 250 then do {
          s1 \<leftarrow> copy_data cp s;
          s2 \<leftarrow> run_cmd channel cp s1;
          send_loop k channel ((cp + unat (sc_code s2 ! (cp + 2)) + 3) mod 65536) s2
        }
        else Some s
      else None)"

text \<open>\<open>junk\<close> is what the local array holds before it is written.\<close>

definition SendCode :: "int \<Rightarrow> u8 list \<Rightarrow> send_state \<Rightarrow> send_state option" where
  "SendCode channel junk s = do {
     s1 \<leftarrow> send_loop MAX_MIPI_CODE_LEN channel 0 (s\<lparr>sc_data := junk\<rparr>);
     Some (if curflick s1 \<noteq> 0 \<or> curpolar s1 \<noteq> 0
           then on_bus (emit (Reback_flick (curflick s1) (curpolar s1))) s1 else s1)
   }"

text \<open>
  \<^verbatim>\<open>mipi_send_code\<close>: one long write as a code in an array of 1024 bytes filled with the end mark.
\<close>

definition mipi_send_code ::
  "int \<Rightarrow> u8 \<Rightarrow> u8 list \<Rightarrow> nat \<Rightarrow> u8 list \<Rightarrow> send_state \<Rightarrow> send_state option" where
  "mipi_send_code mipi_channel reg p_reg_data len junk s = do {
     bytes \<leftarrow> mem_read 0 len p_reg_data;
     code \<leftarrow> mem_write 3 bytes (replicate 1024 0xFF);
     SendCode mipi_channel junk (s\<lparr>sc_code := code[0 := 0x39, 1 := reg, 2 := of_nat len]\<rparr>)
   }"

section \<open>What a code means\<close>

text \<open>The packet of a list of bytes, the first of which is the register.\<close>

fun words_of :: "u8 list \<Rightarrow> u16 list" where
  "words_of [] = []"
| "words_of [lo] = [word_of 0 lo]"
| "words_of (lo # hi # bs) = word_of hi lo # words_of bs"

definition send_packet :: "int \<Rightarrow> u16 \<Rightarrow> u8 list \<Rightarrow> bus \<Rightarrow> bus" where
  "send_packet c mode bytes b =
     (case words_of bytes of
        [] \<Rightarrow> b
      | w # ws \<Rightarrow> fold (WriteDATASSD2828 c) ws (WriteSSD2828 c 0xBF w
                 (WriteSSD2828 c 0xBC (of_nat (length bytes)) (WriteSSD2828 c 0xB8 0 (WriteSSD2828 c 0xB7 mode b)))))"

type_synonym mipi_cmd = "u8 \<times> u8 \<times> u8 list"

definition control_effect :: "int \<Rightarrow> u8 \<Rightarrow> u8 list \<Rightarrow> bus \<Rightarrow> bus" where
  "control_effect c reg d b =
     (if reg = 0x00 then time_delay (unat (word_of (d ! 1) (d ! 0))) b
      else if reg = 0xfc then WriteSSD2828 c (d ! 0) (word_of (d ! 1) (d ! 2)) b
      else if reg = 0xfb \<or> reg = 0x03 then mipi_to_hs_mode c b
      else if reg = 0xfa then mipi_to_lp_mode c b
      else if reg = 0xf7 then emit (Gpio_reset 1) (emit (Gpio_reset 0) b)
      else if reg = 0xf6 then emit (Show_rgb (d ! 0) (d ! 1) (d ! 2)) b
      else b)"

fun cmd_effect :: "int \<Rightarrow> mipi_cmd \<Rightarrow> bus \<Rightarrow> bus" where
  "cmd_effect c (op, reg, d) b =
     (let dcs = (if HsSignalOnFlag b then 0x034b else 0x0340);
          gen = (if HsSignalOnFlag b then 0x030b else 0x0300) in
      if op = 0x00 then control_effect c reg d b
      else if op = 0x05 then Delay_I2C 20 (DCSShortWriteNoPara c reg b)
      else if op = 0x15 then Delay_I2C 20 (send_packet c dcs [reg, d ! 0] b)
      else if op = 0x23 then Delay_I2C 20 (send_packet c gen [reg, d ! 0] b)
      else if op = 0x29 then Delay_I2C 20 (send_packet c gen (reg # d) b)
      else if op = 0x39 then send_packet c dcs (reg # d) b
      else b)"

declare cmd_effect.simps [simp del]

text \<open>A well-formed command that does not read: its data is as long as its type needs.\<close>

fun good_cmd :: "mipi_cmd \<Rightarrow> bool" where
  "good_cmd (op, reg, d) \<longleftrightarrow> length d \<le> 249 \<and> op \<noteq> 0x06 \<and> op \<noteq> 0x14 \<and>
     (op = 0x00 \<longrightarrow> reg \<noteq> 0xfd \<and> (reg = 0x00 \<longrightarrow> 2 \<le> length d) \<and>
        (reg = 0xfc \<or> reg = 0xf6 \<longrightarrow> 3 \<le> length d)) \<and>
     (op = 0x15 \<or> op = 0x23 \<or> op = 0x29 \<or> op = 0x39 \<longrightarrow> 1 \<le> length d)"

fun encode_cmd :: "mipi_cmd \<Rightarrow> u8 list" where
  "encode_cmd (op, reg, d) = op # reg # of_nat (length d) # d"

definition encode :: "mipi_cmd list \<Rightarrow> u8 list" where
  "encode cs = concat (map encode_cmd cs)"

section \<open>Packets of the long writes\<close>

lemma words_of_nth:
  "words_of bs = map (\<lambda>i. word_of (if 2 * i + 1 < length bs then bs ! (2 * i + 1) else 0) (bs ! (2 * i)))
     [0..<(length bs + 1) div 2]"
proof (induction bs rule: words_of.induct)
  case (3 lo hi bs)
  have "(length (lo # hi # bs) + 1) div 2 = Suc ((length bs + 1) div 2)" by simp
  then have "[0..<(length (lo # hi # bs) + 1) div 2] = 0 # map Suc [0..<(length bs + 1) div 2]"
    by (simp only: upt_conv_Cons map_Suc_upt zero_less_Suc)
  then show ?case using 3 by (simp add: comp_def)
qed simp_all

lemma words_of_packet:
  assumes "2 \<le> count" and "count \<le> length para"
  shows "words_of (RegAddr # take (count - 1) para) =
    word_of (para ! 0) RegAddr # long_words count 1 (pad_odd count para)"
proof (rule nth_equalityI)
  show "length (words_of (RegAddr # take (count - 1) para)) =
      length (word_of (para ! 0) RegAddr # long_words count 1 (pad_odd count para))"
    using assms by (simp add: words_of_nth long_words_def)
next
  fix i assume "i < length (words_of (RegAddr # take (count - 1) para))"
  then have i: "i < (count + 1) div 2" using assms by (simp add: words_of_nth)
  show "words_of (RegAddr # take (count - 1) para) ! i =
      (word_of (para ! 0) RegAddr # long_words count 1 (pad_odd count para)) ! i"
  proof (cases i)
    case 0
    then show ?thesis using assms i by (simp add: words_of_nth)
  next
    case (Suc j)
    have "2 * i + 1 < count \<or> odd count \<and> 2 * i + 1 = count" using i by presburger
    then show ?thesis
      using assms i Suc
      by (auto simp: words_of_nth long_words_def pad_odd_def nth_Cons' nth_list_update)
  qed
qed

lemma long_writes_packet:
  assumes "2 \<le> unat count" and "unat count \<le> length para"
  shows "DCSLongWriteWithPara c RegAddr para count b =
      Some (send_packet c (if HsSignalOnFlag b then 0x034b else 0x0340)
        (RegAddr # take (unat count - 1) para) b, pad_odd (unat count) para)"
    and "GerneralLongWriteWithPara c RegAddr para count b =
      Some (send_packet c (if HsSignalOnFlag b then 0x030b else 0x0300)
        (RegAddr # take (unat count - 1) para) b, pad_odd (unat count) para)"
proof -
  have n: "length (RegAddr # take (unat count - 1) para) = unat count" using assms by simp
  have c: "of_nat (unat count) = (ucast count :: u16)" by simp
  show "DCSLongWriteWithPara c RegAddr para count b =
      Some (send_packet c (if HsSignalOnFlag b then 0x034b else 0x0340)
        (RegAddr # take (unat count - 1) para) b, pad_odd (unat count) para)"
    unfolding DCSLongWriteWithPara_words [OF assms] send_packet_def words_of_packet [OF assms]
      list.case n c ..
  show "GerneralLongWriteWithPara c RegAddr para count b =
      Some (send_packet c (if HsSignalOnFlag b then 0x030b else 0x0300)
        (RegAddr # take (unat count - 1) para) b, pad_odd (unat count) para)"
    unfolding GerneralLongWriteWithPara_def Let_def long_data_packet [OF assms(1) unat_u8_le assms(2)]
      send_packet_def words_of_packet [OF assms] list.case n c ..
qed

lemma short_writes_packet:
  "DCSShortWriteOnePara c reg p b = send_packet c (if HsSignalOnFlag b then 0x034b else 0x0340) [reg, p] b"
  "GeneralShortWriteTwoPara c reg p b = send_packet c (if HsSignalOnFlag b then 0x030b else 0x0300) [reg, p] b"
  by (simp_all add: DCSShortWriteOnePara_def GeneralShortWriteTwoPara_def send_packet_def Let_def)

section \<open>One command of a code\<close>

lemma nth_code:
  assumes "drop cp c = x # y # z # rest"
  shows "cp + 2 < length c" "c ! cp = x" "c ! (cp + 1) = y" "c ! (cp + 2) = z"
    "\<And>i. i < length rest \<Longrightarrow> cp + 3 + i < length c \<and> c ! (cp + 3 + i) = rest ! i"
proof -
  have len: "length c = cp + length (x # y # z # rest)"
    using assms by (metis add.commute append_take_drop_id length_append length_drop length_take
        less_imp_le min.absorb2 not_le drop_all list.distinct(1))
  then show "cp + 2 < length c" by simp
  have n: "c ! (cp + i) = (x # y # z # rest) ! i" if "i < length (x # y # z # rest)" for i
    using assms len that by (metis le_add1 nth_drop)
  show "c ! cp = x" using n [of 0] by simp
  show "c ! (cp + 1) = y" using n [of 1] by simp
  show "c ! (cp + 2) = z" using n [of 2] by simp
  show "cp + 3 + i < length c \<and> c ! (cp + 3 + i) = rest ! i" if "i < length rest" for i
    using n [of "3 + i"] len that by (simp add: add.assoc numeral_3_eq_3)
qed

lemma copy_data_cmd:
  assumes "drop cp (sc_code s) = op # reg # of_nat (length d) # d @ rest" and "length d \<le> 250"
    and "length (sc_data s) = 250"
  shows "copy_data cp s = Some (s\<lparr>sc_data := d @ drop (length d) (sc_data s)\<rparr>)"
proof -
  have "drop (cp + 3) (sc_code s) = drop 3 (drop cp (sc_code s))" by (simp add: add.commute)
  also have "\<dots> = d @ rest" unfolding assms(1) by (simp add: numeral_3_eq_3)
  finally have t: "drop (cp + 3) (sc_code s) = d @ rest" .
  moreover have "cp + 3 + length d \<le> length (sc_code s)"
    using nth_code(1) [OF assms(1)] arg_cong [OF t, of length] by simp
  moreover have "unat (of_nat (length d) :: u8) = length d"
    using assms(2) by (simp add: unat_of_nat)
  ultimately show ?thesis
    using nth_code(4) [OF assms(1)] assms(2,3)
    by (simp add: copy_data_def mem_read_def mem_write_def)
qed

lemma word_forms:
  "(ucast lo + push_bit 8 (ucast hi) :: u16) = word_of hi lo"
  "(push_bit 8 (ucast hi) OR ucast lo :: u16) = word_of hi lo"
  by (simp add: word_of_def, simp add: word_of_or)

lemma run_control_good:
  assumes code: "drop cp (sc_code s) = 0x00 # reg # n # d @ rest" and good: "good_cmd (0x00, reg, d)"
    and data: "sc_data s = d @ stale"
  shows "run_control channel cp s = Some (on_bus (control_effect channel reg d) s)"
proof -
  note at = nth_code [OF code]
  have rd: "i < length d \<Longrightarrow> (d @ stale) ! i = d ! i" for i by (simp add: nth_append)
  have c: "i < length d \<Longrightarrow> cp + 3 + i < length (sc_code s) \<and> sc_code s ! (cp + 3 + i) = d ! i" for i
    using at(5) [of i] by (simp add: nth_append)
  have eq: "cp + 3 + 1 = cp + 4" "cp + 3 + 2 = cp + 5" "cp + 3 + 0 = cp + 3" by simp_all
  have c3: "3 \<le> length d \<Longrightarrow>
      cp + 5 < length (sc_code s) \<and> sc_code s ! (cp + 3) = d ! 0 \<and> sc_code s ! (cp + 4) = d ! 1
        \<and> sc_code s ! (cp + 5) = d ! 2"
    using c [of 0, unfolded eq] c [of 1, unfolded eq] c [of 2, unfolded eq] by (cases d; cases "tl d") auto
  consider "reg = 0x00" "2 \<le> length d" | "reg = 0xfc" "3 \<le> length d" | "reg = 0xf6" "3 \<le> length d"
    | "reg \<notin> {0x00, 0xfc, 0xf6, 0xfd}"
    using good by auto
  then show ?thesis
  proof cases
    case 1
    then show ?thesis
      unfolding run_control_def control_effect_def Let_def at(3) data
      using rd [of 0] rd [of 1] by (cases d; cases "tl d") (auto simp: word_forms)
  next
    case 2
    then show ?thesis
      unfolding run_control_def control_effect_def Let_def at(3) data
      using rd [of 0] rd [of 1] rd [of 2] by (cases d; cases "tl d") (auto simp: word_forms)
  next
    case 3
    then show ?thesis
      unfolding run_control_def control_effect_def Let_def at(3) data
      using c3 by simp
  next
    case 4
    then show ?thesis
      unfolding run_control_def control_effect_def Let_def at(3) data
      by (simp add: on_bus_def)
  qed
qed

lemma run_cmd_good:
  assumes code: "drop cp (sc_code s) = op # reg # of_nat (length d) # d @ rest"
    and good: "good_cmd (op, reg, d)" and data: "sc_data s = d @ stale" "length (sc_data s) = 250"
  shows "\<exists>s'. run_cmd channel cp s = Some s' \<and> sc_code s' = sc_code s \<and> length (sc_data s') = 250
    \<and> curflick s' = curflick s \<and> curpolar s' = curpolar s
    \<and> sc_bus s' = cmd_effect channel (op, reg, d) (sc_bus s)"
proof -
  note at = nth_code [OF code]
  have len: "unat (of_nat (length d) + 1 :: u8) = length d + 1"
    using good by (simp add: unat_word_ariths unat_of_nat)
  consider "op = 0x00" | "op = 0x29 \<or> op = 0x39" | "op = 0x15 \<or> op = 0x23"
    | "op \<notin> {0x00, 0x29, 0x39, 0x15, 0x23}" by blast
  then show ?thesis
  proof cases
    case 1
    then show ?thesis
      using run_control_good [of cp s reg _ d rest stale channel] code good data at
      by (simp add: run_cmd_def Let_def on_bus_def cmd_effect.simps)
  next
    case 2
    have "2 \<le> unat (of_nat (length d) + 1 :: u8)" "unat (of_nat (length d) + 1 :: u8) \<le> length (sc_data s)"
      using 2 good data(2) len by auto
    note l = long_writes_packet [OF this]
    have t: "take (length d) (sc_data s) = d" using data(1) by simp
    show ?thesis
      unfolding run_cmd_def Let_def at send_long_def l
      using 2 data(2) len by (auto simp: t on_bus_def pad_odd_def cmd_effect.simps)
  next
    case 3
    with good have "0 < length d" by auto
    then have "cp + 3 < length (sc_code s) \<and> sc_code s ! (cp + 3) = d ! 0"
      using at(5) [of 0] by (simp add: nth_append)
    then show ?thesis
      unfolding run_cmd_def Let_def at
      using 3 data(2) by (auto simp: on_bus_def short_writes_packet cmd_effect.simps)
  next
    case 4
    then show ?thesis
      unfolding run_cmd_def Let_def at
      using good data(2) by (auto simp: on_bus_def cmd_effect.simps)
  qed
qed

section \<open>Properties\<close>

definition run_cmds :: "int \<Rightarrow> mipi_cmd list \<Rightarrow> bus \<Rightarrow> bus" where
  "run_cmds channel cs b = fold (cmd_effect channel) cs b"

lemma send_loop_cmds:
  assumes "drop cp (sc_code s) = encode cs @ rest" and "\<forall>c \<in> set cs. good_cmd c"
    and "length (sc_data s) = 250" and "cp + length (encode cs) < 65536"
  shows "\<exists>s'. send_loop (length cs + k) channel cp s = send_loop k channel (cp + length (encode cs)) s'
    \<and> sc_code s' = sc_code s \<and> length (sc_data s') = 250 \<and> curflick s' = curflick s
    \<and> curpolar s' = curpolar s \<and> sc_bus s' = run_cmds channel cs (sc_bus s)"
  using assms
proof (induction cs arbitrary: cp s)
  case Nil
  then show ?case by (auto simp: encode_def run_cmds_def)
next
  case (Cons c cs)
  obtain op reg d where c: "c = (op, reg, d)" by (cases c)
  let ?n = "length d" and ?rest = "encode cs @ rest"
  have code: "drop cp (sc_code s) = op # reg # of_nat ?n # d @ ?rest"
    using Cons.prems(1) by (simp add: encode_def c)
  have good: "good_cmd (op, reg, d)" and n: "?n \<le> 249" using Cons.prems(2) c by auto
  have u: "unat (of_nat ?n :: u8) = ?n" using n by (simp add: unat_of_nat)
  then have le: "(of_nat ?n :: u8) \<le> 250" using n by (simp add: word_le_nat_alt)
  define s1 where "s1 = s\<lparr>sc_data := d @ drop ?n (sc_data s)\<rparr>"
  have cd: "copy_data cp s = Some s1"
    unfolding s1_def using n by (intro copy_data_cmd [OF code _ Cons.prems(3)]) simp
  have s1: "drop cp (sc_code s1) = op # reg # of_nat ?n # d @ ?rest"
      "sc_data s1 = d @ drop ?n (sc_data s)" "length (sc_data s1) = 250"
    using code Cons.prems(3) n by (simp_all add: s1_def)
  obtain s2 where s2: "run_cmd channel cp s1 = Some s2" "sc_code s2 = sc_code s"
    "length (sc_data s2) = 250" "curflick s2 = curflick s" "curpolar s2 = curpolar s"
    "sc_bus s2 = cmd_effect channel c (sc_bus s)"
    using run_cmd_good [OF s1(1) good s1(2,3), of channel] unfolding c s1_def by auto
  have next_cp: "(cp + unat (sc_code s2 ! (cp + 2)) + 3) mod 65536 = cp + (?n + 3)"
    using Cons.prems(4) u nth_code(4) [OF code] s2(2) by (simp add: encode_def c)
  have "drop (cp + (?n + 3)) (sc_code s2) = drop (?n + 3) (drop cp (sc_code s))"
    by (simp add: s2(2) add.commute)
  also have "\<dots> = ?rest" unfolding code by (simp add: numeral_3_eq_3)
  finally have ih: "\<exists>s'. send_loop (length cs + k) channel (cp + (?n + 3)) s2
      = send_loop k channel (cp + (?n + 3) + length (encode cs)) s' \<and> sc_code s' = sc_code s2
      \<and> length (sc_data s') = 250 \<and> curflick s' = curflick s2 \<and> curpolar s' = curpolar s2
      \<and> sc_bus s' = run_cmds channel cs (sc_bus s2)"
    using Cons.prems(2,4) s2(3) by (intro Cons.IH) (simp_all add: encode_def c)
  have step: "send_loop (length (c # cs) + k) channel cp s
      = send_loop (length cs + k) channel (cp + (?n + 3)) s2"
    using nth_code(1,4) [OF code] le cd s2(1) next_cp
    by (simp only: list.size add_Suc add_0 plus_1_eq_Suc One_nat_def add_Suc_right send_loop.simps
        if_True bind.bind_lunit add_0_right)
  have enc: "cp + length (encode (c # cs)) = cp + (?n + 3) + length (encode cs)"
    by (simp add: encode_def c)
  have run: "run_cmds channel (c # cs) b = run_cmds channel cs (cmd_effect channel c b)" for b
    by (simp add: run_cmds_def)
  show ?case unfolding step enc run using ih unfolding s2(2,4,5,6) .
qed

definition report_flick :: "send_state \<Rightarrow> bus \<Rightarrow> bus" where
  "report_flick s b =
     (if curflick s \<noteq> 0 \<or> curpolar s \<noteq> 0 then emit (Reback_flick (curflick s) (curpolar s)) b else b)"

lemma send_loop_stop:
  "cp + 2 < length (sc_code s) \<Longrightarrow> \<not> sc_code s ! (cp + 2) \<le> 250 \<Longrightarrow> send_loop k c cp s = Some s"
  by (cases k) simp_all

lemma SendCode_cmds_state:
  assumes "sc_code s = encode cs @ rest" and "3 \<le> length rest" and "\<not> rest ! 2 \<le> 250"
    and "\<forall>c \<in> set cs. good_cmd c" and "length cs \<le> MAX_MIPI_CODE_LEN" and "length (encode cs) < 65536"
    and "length junk = 250"
  shows "\<exists>s'. SendCode channel junk s = Some s' \<and> sc_code s' = sc_code s \<and>
    curflick s' = curflick s \<and> curpolar s' = curpolar s \<and>
    sc_bus s' = report_flick s (run_cmds channel cs (sc_bus s))"
proof -
  let ?s = "s\<lparr>sc_data := junk\<rparr>"
  obtain k where k: "MAX_MIPI_CODE_LEN = length cs + k" using assms(5) le_Suc_ex by blast
  have "drop 0 (sc_code ?s) = encode cs @ rest" using assms(1) by simp
  then obtain s1 where s1: "send_loop (length cs + k) channel 0 ?s
      = send_loop k channel (length (encode cs)) s1"
    "sc_code s1 = sc_code s" "curflick s1 = curflick s" "curpolar s1 = curpolar s"
    "sc_bus s1 = run_cmds channel cs (sc_bus s)"
    using send_loop_cmds [of 0 ?s cs rest k channel] assms(4,6,7) by auto
  have "send_loop k channel (length (encode cs)) s1 = Some s1"
    using assms(1-3) s1(2) by (intro send_loop_stop) (simp_all add: nth_append)
  then show ?thesis
    using s1 k by (simp add: SendCode_def report_flick_def on_bus_def)
qed

lemma SendCode_cmds:
  assumes "sc_code s = encode cs @ rest" and "3 \<le> length rest" and "\<not> rest ! 2 \<le> 250"
    and "\<forall>c \<in> set cs. good_cmd c" and "length cs \<le> MAX_MIPI_CODE_LEN" and "length (encode cs) < 65536"
    and "length junk = 250"
  shows "\<exists>s'. SendCode channel junk s = Some s' \<and> sc_code s' = sc_code s \<and>
    sc_bus s' = report_flick s (run_cmds channel cs (sc_bus s))"
  using SendCode_cmds_state [OF assms] by metis

text \<open>A page selection followed by a long write without data, as the chip drivers use it.\<close>

lemma DCSLongWriteWithPara_one:
  "para \<noteq> [] \<Longrightarrow> para ! 0 = 0 \<Longrightarrow> DCSLongWriteWithPara c reg para 1 b =
     Some (send_packet c (if HsSignalOnFlag b then 0x034b else 0x0340) [reg] b, para)"
  by (cases para) (simp_all add: DCSLongWriteWithPara_def Let_def send_packet_def long_data.simps)

lemma SendCode_page_then_empty:
  assumes code: "sc_code s = 0x39 # 0xE0 # 1 # 0 # 0x39 # reg # 0 # rest"
    and rest: "3 \<le> length rest" "\<not> rest ! 2 \<le> 250" and "length junk = 250"
  shows "\<exists>s'. SendCode channel junk s = Some s' \<and> sc_code s' = sc_code s \<and>
    curflick s' = curflick s \<and> curpolar s' = curpolar s \<and>
    sc_bus s' = report_flick s (send_packet channel (if HsSignalOnFlag (sc_bus s) then 0x034b else 0x0340) [reg]
      (send_packet channel (if HsSignalOnFlag (sc_bus s) then 0x034b else 0x0340) [0xE0, 0] (sc_bus s)))"
proof -
  let ?m = "if HsSignalOnFlag (sc_bus s) then 0x034b else 0x0340 :: u16"
  define s0 where "s0 = s\<lparr>sc_data := junk\<rparr>"
  define s1 where "s1 = s0\<lparr>sc_data := [0] @ drop 1 junk\<rparr>"
  define s2 where "s2 = s1\<lparr>sc_bus := send_packet channel ?m [0xE0, 0] (sc_bus s)\<rparr>"
  define s3 where "s3 = s2\<lparr>sc_bus := send_packet channel ?m [reg] (sc_bus s2)\<rparr>"
  have c0: "drop 0 (sc_code s0) = 0x39 # 0xE0 # of_nat (length [0 :: u8]) # [0] @ 0x39 # reg # 0 # rest"
    by (simp add: s0_def code)
  have cd1: "copy_data 0 s0 = Some s1"
    using copy_data_cmd [OF c0] assms(4) by (simp add: s0_def s1_def)
  have l1: "length ([0] @ drop 1 junk) = 250" using assms(4) by simp
  have r1: "run_cmd channel 0 s1 = Some s2"
    using long_writes_packet(1) [of 2 "[0] @ drop 1 junk" channel "0xE0" "sc_bus s"] l1
    by (simp add: run_cmd_def Let_def s1_def s0_def s2_def code send_long_def pad_odd_def)
  have c4: "drop 4 (sc_code s2) = 0x39 # reg # of_nat (length ([] :: u8 list)) # [] @ rest"
    by (simp add: s2_def s1_def s0_def code)
  have cd2: "copy_data 4 s2 = Some s2"
    using copy_data_cmd [OF c4] l1 by (simp add: s2_def s1_def)
  have hs: "HsSignalOnFlag (send_packet channel m bytes b) = HsSignalOnFlag b" for m bytes b
    by (cases "words_of bytes") (simp_all add: send_packet_def bus_simps)
  have r2: "run_cmd channel 4 s2 = Some s3"
    using DCSLongWriteWithPara_one [of "0 # drop 1 junk" channel reg "sc_bus s2"]
    by (simp add: run_cmd_def Let_def s3_def s2_def s1_def s0_def code send_long_def hs)
  have max: "MAX_MIPI_CODE_LEN = Suc (Suc 8190)" by (simp add: MAX_MIPI_CODE_LEN_def)
  have stop: "send_loop 8190 channel 7 s3 = Some s3"
    using rest by (intro send_loop_stop) (simp_all add: s3_def s2_def s1_def s0_def code)
  have cs: "sc_code s0 = sc_code s" "sc_code s2 = sc_code s" "sc_code s3 = sc_code s"
    by (simp_all add: s3_def s2_def s1_def s0_def)
  have "send_loop (Suc 8190) channel 4 s2 = Some s3"
    unfolding send_loop.simps(2) [of 8190] cd2 r2 bind.bind_lunit cs code using stop by simp
  then have "send_loop MAX_MIPI_CODE_LEN channel 0 s0 = Some s3"
    unfolding max send_loop.simps(2) [of "Suc 8190"] cd1 r1 bind.bind_lunit cs code by simp
  then show ?thesis
    by (simp add: SendCode_def s0_def [symmetric] report_flick_def on_bus_def)
      (auto simp: s3_def s2_def s1_def s0_def)
qed

text \<open>
  C17: an initialisation code does what its commands say. For every list of well-formed commands
  that do not read, followed by an end mark, the interpreter returns, leaves the code as it was,
  and does on the bus exactly the effects of the commands in their order, and nothing for what
  stands behind the end mark.
\<close>

theorem send_code_meaning:
  assumes "sc_code s = encode cs @ rest" and "3 \<le> length rest" and "\<not> rest ! 2 \<le> 250"
    and "\<forall>c \<in> set cs. good_cmd c" and "length cs \<le> MAX_MIPI_CODE_LEN" and "length (encode cs) < 65536"
    and "length junk = 250"
  shows "\<exists>s'. SendCode channel junk s = Some s' \<and> sc_code s' = sc_code s \<and>
    sc_bus s' = report_flick s (run_cmds channel cs (sc_bus s))"
  using assms by (rule SendCode_cmds)

definition idle_send :: "u8 list \<Rightarrow> send_state" where
  "idle_send c = \<lparr>sc_code = c, sc_data = [], curflick = 0, curpolar = 0, sc_bus = idle_bus\<rparr>"

lemma send_code_meaning_witness:
  "\<exists>s'. SendCode 1 (replicate 250 0)
      (idle_send [0x39, 0xB9, 2, 0xFF, 0x83, 0x05, 0x11, 0, 0, 0, 2, 120, 0, 0xFF, 0xFF, 0xFF]) = Some s' \<and>
    sc_bus s' = run_cmds 1 [(0x39, 0xB9, [0xFF, 0x83]), (0x05, 0x11, []), (0, 0, [120, 0])] idle_bus"
  using send_code_meaning [of "idle_send [0x39, 0xB9, 2, 0xFF, 0x83, 0x05, 0x11, 0, 0, 0, 2, 120, 0, 0xFF, 0xFF, 0xFF]"
      "[(0x39, 0xB9, [0xFF, 0x83]), (0x05, 0x11, []), (0, 0, [120, 0])]" "[0xFF, 0xFF, 0xFF]"
      "replicate 250 0" 1]
  by (fastforce simp: idle_send_def encode_def report_flick_def MAX_MIPI_CODE_LEN_def)

lemma long_data_over:
  "ii \<le> 125 \<Longrightarrow> length e = 250 \<Longrightarrow> long_data w 251 ii e b = None"
proof (induction "125 - ii" arbitrary: ii b)
  case 0
  then show ?case by (simp add: long_data.simps [of _ _ 125])
next
  case (Suc n)
  have "long_data w 251 (ii + 1) e b' = None" for b'
    using Suc.hyps(2) Suc.prems by (intro Suc.hyps(1)) simp_all
  then show ?case using Suc.hyps(2) Suc.prems by (simp add: long_data.simps [of _ _ ii] Let_def)
qed

lemma SendCode_over:
  assumes "sc_code s = encode cs @ op # reg # 250 # d @ rest" and "length d = 250"
    and "op = 0x29 \<or> op = 0x39"
    and "\<forall>c \<in> set cs. good_cmd c" and "length cs < MAX_MIPI_CODE_LEN" and "length (encode cs) < 65536"
    and "length junk = 250"
  shows "SendCode channel junk s = None"
proof -
  let ?s = "s\<lparr>sc_data := junk\<rparr>" and ?cp = "length (encode cs)"
  obtain k where k: "MAX_MIPI_CODE_LEN = length cs + Suc k" using assms(5) less_iff_Suc_add by auto
  have "drop 0 (sc_code ?s) = encode cs @ op # reg # 250 # d @ rest" using assms(1) by simp
  then obtain s1 where s1: "send_loop (length cs + Suc k) channel 0 ?s = send_loop (Suc k) channel ?cp s1"
    "sc_code s1 = sc_code s" "length (sc_data s1) = 250"
    using send_loop_cmds [of 0 ?s cs _ "Suc k" channel] assms(4,6,7) by auto
  have code: "drop ?cp (sc_code s1) = op # reg # of_nat (length d) # d @ rest"
    using s1(2) assms(1,2) by simp
  note at = nth_code [OF code]
  have cd: "copy_data ?cp s1 = Some (s1\<lparr>sc_data := d\<rparr>)"
    using copy_data_cmd [OF code _ s1(3)] s1(3) assms(2) by simp
  obtain p ps where d: "d = p # ps" using assms(2) by (cases d) auto
  have over: "long_data (WriteDATASSD2828 channel) 251 1 (p # ps) b = None" for b
    using long_data_over assms(2) d by simp
  have "GerneralLongWriteWithPara channel reg d 251 b = None"
    "DCSLongWriteWithPara channel reg d 251 b = None" for b
    using over by (simp_all add: GerneralLongWriteWithPara_def DCSLongWriteWithPara_def d)
  then have "send_long (GerneralLongWriteWithPara channel reg) 250 (s1\<lparr>sc_data := d\<rparr>) = None"
    "send_long (DCSLongWriteWithPara channel reg) 250 (s1\<lparr>sc_data := d\<rparr>) = None"
    by (simp_all add: send_long_def)
  moreover have "of_nat (length d) = (250 :: u8)" using assms(2) by simp
  ultimately have "run_cmd channel ?cp (s1\<lparr>sc_data := d\<rparr>) = None"
    using assms(3) at(2-4) by (elim disjE) (simp_all add: run_cmd_def Let_def)
  then have "send_loop (Suc k) channel ?cp s1 = None"
    using at(1,4) cd assms(2) by simp
  then have "send_loop MAX_MIPI_CODE_LEN channel 0 ?s = None"
    unfolding k s1(1) .
  then show ?thesis by (simp add: SendCode_def)
qed

text \<open>
  The longest length the interpreter accepts does not fit its local array: a long write of 250
  data bytes, after any well-formed commands, makes it write one byte behind the 250 bytes.
\<close>

theorem send_code_overflow:
  assumes "sc_code s = encode cs @ op # reg # 250 # d @ rest" and "length d = 250"
    and "op = 0x29 \<or> op = 0x39"
    and "\<forall>c \<in> set cs. good_cmd c" and "length cs < MAX_MIPI_CODE_LEN" and "length (encode cs) < 65536"
    and "length junk = 250"
  shows "SendCode channel junk s = None"
  using assms by (rule SendCode_over)

lemma send_code_overflow_witness:
  "SendCode 1 (replicate 250 0) (idle_send ([0x39, 0xB9, 250] @ replicate 250 0x11 @ [0xFF, 0xFF, 0xFF])) = None"
  using send_code_overflow [of "idle_send ([0x39, 0xB9, 250] @ replicate 250 0x11 @ [0xFF, 0xFF, 0xFF])"
      "[]" "0x39" "0xB9" "replicate 250 0x11" "[0xFF, 0xFF, 0xFF]" "replicate 250 0" 1]
  by (simp add: idle_send_def encode_def MAX_MIPI_CODE_LEN_def)

text \<open>
  Sending one register works for at most 249 bytes. Up to there \<^verbatim>\<open>mipi_send_code\<close> sends
  exactly one packet, the register and the bytes; with 250 it writes behind the local array of the
  interpreter; from 251 to 255 the length byte is an end mark and nothing at all is sent, without
  an error.
\<close>

theorem mipi_send_code_lengths:
  assumes "length junk = 250" and "curflick s = 0" and "curpolar s = 0"
  shows "(1 \<le> length d \<and> length d \<le> 249 \<longrightarrow>
      (\<exists>s'. mipi_send_code c reg d (length d) junk s = Some s' \<and>
        sc_bus s' = send_packet c (if HsSignalOnFlag (sc_bus s) then 0x034b else 0x0340)
          (reg # d) (sc_bus s))) \<and>
    (length d = 250 \<longrightarrow> mipi_send_code c reg d (length d) junk s = None) \<and>
    (251 \<le> length d \<and> length d \<le> 255 \<longrightarrow>
      (\<exists>s'. mipi_send_code c reg d (length d) junk s = Some s' \<and> sc_bus s' = sc_bus s))"
proof (intro conjI impI)
  let ?code = "0x39 # reg # of_nat (length d) # d @ replicate (1021 - length d) 0xFF"
  have code: "mipi_send_code c reg d (length d) junk s = SendCode c junk (s\<lparr>sc_code := ?code\<rparr>)"
    if "length d \<le> 255"
  proof -
    have "mem_write 3 d (replicate 1024 0xFF) =
        Some (replicate 3 0xFF @ d @ replicate (1021 - length d) 0xFF)"
      using that by (simp add: mem_write_def)
    then show ?thesis
      by (simp add: mipi_send_code_def mem_read_def numeral_eq_Suc del: replicate.simps)
        (simp add: numeral_eq_Suc)
  qed
  show "\<exists>s'. mipi_send_code c reg d (length d) junk s = Some s' \<and>
      sc_bus s' = send_packet c (if HsSignalOnFlag (sc_bus s) then 0x034b else 0x0340) (reg # d) (sc_bus s)"
    if "1 \<le> length d \<and> length d \<le> 249"
  proof -
    have three: "3 \<le> 1021 - length d" using that by linarith
    have "\<exists>s'. SendCode c junk (s\<lparr>sc_code := ?code\<rparr>) = Some s' \<and> sc_code s' = ?code \<and>
        sc_bus s' = report_flick (s\<lparr>sc_code := ?code\<rparr>)
          (run_cmds c [(0x39, reg, d)] (sc_bus (s\<lparr>sc_code := ?code\<rparr>)))"
      using SendCode_cmds [of "s\<lparr>sc_code := ?code\<rparr>" "[(0x39, reg, d)]"
          "replicate (1021 - length d) 0xFF" junk c] that assms(1) three
      by (simp add: encode_def MAX_MIPI_CODE_LEN_def)
    then show ?thesis
      using that assms(2,3) by (auto simp: code report_flick_def run_cmds_def cmd_effect.simps Let_def)
  qed
  show "mipi_send_code c reg d (length d) junk s = None" if "length d = 250"
    using SendCode_over [of "s\<lparr>sc_code := ?code\<rparr>" "[]" "0x39" reg d "replicate 771 0xFF" junk c]
      code that assms(1)
    by (simp add: encode_def MAX_MIPI_CODE_LEN_def)
  show "\<exists>s'. mipi_send_code c reg d (length d) junk s = Some s' \<and> sc_bus s' = sc_bus s"
    if "251 \<le> length d \<and> length d \<le> 255"
  proof -
    have "unat (of_nat (length d) :: u8) = length d" using that by (simp add: unat_of_nat)
    then have "\<not> (of_nat (length d) :: u8) \<le> 250" using that by (simp add: word_le_nat_alt)
    then have "send_loop MAX_MIPI_CODE_LEN c 0 (s\<lparr>sc_code := ?code, sc_data := junk\<rparr>)
        = Some (s\<lparr>sc_code := ?code, sc_data := junk\<rparr>)"
      by (intro send_loop_stop) simp_all
    then show ?thesis
      using that assms(2,3) by (simp add: code SendCode_def)
  qed
qed

lemma mipi_send_code_lengths_witness:
  "\<exists>s'. mipi_send_code 1 0xB9 [0xFF, 0x83, 0x94] 3 (replicate 250 0) (idle_send []) = Some s' \<and>
    sc_bus s' = send_packet 1 0x0340 [0xB9, 0xFF, 0x83, 0x94] idle_bus"
  using mipi_send_code_lengths [of "replicate 250 0" "idle_send []" "[0xFF, 0x83, 0x94]" 1 "0xB9"]
  by (simp add: idle_send_def idle_bus_def numeral_3_eq_3)

end
