(* ===== verification/BridgeConfig.thy ===== *)
theory BridgeConfig
  imports InitCode
begin

text \<open>
  Timing configuration of the bridge: \<^verbatim>\<open>GetConfigPara\<close>, \<^verbatim>\<open>ConfigSSD2828\<close> and the start-up sequence
  \<^verbatim>\<open>Set2828_V\<close> of \<^verbatim>\<open>hw/mipi/mipi2828.c\<close>. Unsigned 32-bit values are natural numbers, none of the
  products leaves their range. A division by zero and the use of a delay that its loop did not
  find, an uninitialised variable, are \<open>None\<close>.
\<close>

record module_timing =
  vsyncpulseWidth :: int
  hsyncpulseWidth :: int
  vBackPorch :: int
  hBackPorch :: int
  vFrontPorch :: int
  hFrontPorch :: int
  vActiveTime :: int
  hActiveTime :: int
  lane :: int
  bits :: int

record panel_timing =
  VsCount :: u16
  VBPCount :: u16
  VFPCount :: u16
  VDPCount :: u16
  HsCount :: u16
  HBPCount :: u16
  HFPCount :: u16
  HDPCount :: u16
  LaneNum :: u8
  SyncMode :: u8
  DSIFRE :: nat
  BitNum :: u8

record ssd_config =
  reg_b1 :: u16
  reg_b2 :: u16
  reg_b3 :: u16
  reg_b4 :: u16
  reg_b5 :: u16
  reg_b6 :: u16
  reg_ba :: u16
  reg_bb :: u16
  reg_c9 :: u16
  reg_ca :: u16
  reg_cb :: u16
  reg_cc :: u16
  reg_cd :: u16
  reg_ce :: u16
  reg_de :: u16
  reg_d6 :: u16

section \<open>The parts of GetConfigPara\<close>

definition module_of :: "panel_timing \<Rightarrow> module_timing" where
  "module_of t =
     \<lparr>vsyncpulseWidth = uint (VsCount t), hsyncpulseWidth = uint (HsCount t),
      vBackPorch = uint (VBPCount t), hBackPorch = uint (HBPCount t),
      vFrontPorch = uint (VFPCount t), hFrontPorch = uint (HFPCount t),
      vActiveTime = uint (VDPCount t), hActiveTime = uint (HDPCount t),
      lane = uint (LaneNum t), bits = uint (BitNum t)\<rparr>"

text \<open>\<open>pack16 v h\<close> is \<^verbatim>\<open>r = v; r = (uint8_t)h + (r<<8)\<close> for a half word \<^verbatim>\<open>r\<close>.\<close>

definition pack16 :: "int \<Rightarrow> int \<Rightarrow> u16" where
  "pack16 v h = word_of_int (h mod 256) + push_bit 8 (word_of_int v)"

definition sync_regs :: "panel_timing \<Rightarrow> ssd_config \<Rightarrow> ssd_config" where
  "sync_regs t r =
     (let m = module_of t in
      r\<lparr>reg_b1 := pack16 (vsyncpulseWidth m mod 256) (hsyncpulseWidth m),
        reg_b2 := (if SyncMode t = 0 then pack16 (vBackPorch m) (hBackPorch m)
                   else if SyncMode t = 1 \<or> SyncMode t = 2
                   then pack16 (vBackPorch m + vsyncpulseWidth m) (hBackPorch m + hsyncpulseWidth m)
                   else reg_b2 r),
        reg_b3 := pack16 (vFrontPorch m mod 256) (hFrontPorch m),
        reg_b4 := word_of_int (hActiveTime m),
        reg_b5 := word_of_int (vActiveTime m)\<rparr>)"

definition pll_range :: "nat \<Rightarrow> u16" where
  "pll_range dsifre =
     (if 62500000 \<le> dsifre \<and> dsifre < 125000000 then 0x0400
      else if 125000000 \<le> dsifre \<and> dsifre < 250000000 then 0x4400
      else if 250000000 \<le> dsifre \<and> dsifre < 500000000 then 0x8400
      else if 500000000 \<le> dsifre \<and> dsifre \<le> 1000000000 then 0xc400
      else 0)"

definition pll_regs :: "nat \<Rightarrow> ssd_config \<Rightarrow> ssd_config" where
  "pll_regs dsifre r =
     r\<lparr>reg_ba := pll_range dsifre + of_nat (dsifre div 6250000 mod 256),
       reg_bb := of_nat (sub32 (dsifre div 80000000) 1)\<rparr>"

definition video_mode :: "u8 \<Rightarrow> u8 \<Rightarrow> u16 \<Rightarrow> u16" where
  "video_mode syncmode bt old =
     (if syncmode = 0 then (if bt = 6 then 0x0002 else if bt = 8 then 0x0003 else old)
      else if syncmode = 1 then (if bt = 6 then 0x0006 else if bt = 8 then 0x0007 else old)
      else if syncmode = 2 then (if bt = 6 then 0x000a else if bt = 8 then 0x000b else old)
      else old)"

text \<open>
  A delay loop: the first \<^verbatim>\<open>i\<close> below \<open>n\<close> with \<^verbatim>\<open>i*step/clk > bound\<close>, for a clock that is not zero.
\<close>

definition delay_loop :: "nat \<Rightarrow> nat \<Rightarrow> nat \<Rightarrow> nat \<Rightarrow> nat option" where
  "delay_loop n step clk bound =
     (if clk = 0 then None else find (\<lambda>i. i * step div clk > bound) [0..<n])"

definition delay_regs :: "nat \<Rightarrow> nat \<Rightarrow> ssd_config \<Rightarrow> ssd_config option" where
  "delay_regs ByteClkMhz LPClkKHz r = do {
     hs_prepare \<leftarrow> delay_loop 256 500 ByteClkMhz (48 + 600 div ByteClkMhz);
     hs_zero \<leftarrow> delay_loop 256 500 ByteClkMhz (150 + 1500 div ByteClkMhz);
     clk_prepare \<leftarrow> delay_loop 256 500 ByteClkMhz 44;
     clk_zero \<leftarrow> delay_loop 256 500 ByteClkMhz 280;
     clk_post \<leftarrow> delay_loop 256 500 ByteClkMhz (65 + 7000 div ByteClkMhz);
     clk_pre \<leftarrow> delay_loop 256 500 ByteClkMhz (69 + 650 div ByteClkMhz);
     hs_trail \<leftarrow> delay_loop 256 500 ByteClkMhz (100 + 1250 div ByteClkMhz);
     wake_up \<leftarrow> delay_loop 65536 1000 LPClkKHz 1050;
     ta_get \<leftarrow> delay_loop 16 500000 LPClkKHz 275;
     ta_go \<leftarrow> delay_loop 16 500000 LPClkKHz 220;
     Some (r\<lparr>reg_c9 := word_of (of_nat hs_zero) (of_nat (hs_prepare - 4)),
             reg_ca := word_of (of_nat clk_zero) (of_nat (clk_prepare - 3)),
             reg_cb := word_of (of_nat clk_pre) (of_nat clk_post),
             reg_cc := word_of (of_nat hs_trail) (of_nat hs_trail),
             reg_cd := of_nat wake_up,
             reg_ce := word_of (of_nat ta_go) (of_nat ta_get)\<rparr>)
   }"

definition GetConfigPara :: "panel_timing \<Rightarrow> ssd_config \<Rightarrow> (module_timing \<times> ssd_config) option" where
  "GetConfigPara t r = do {
     let ByteClk = DSIFRE t div 8;
     let ByteClkMhz = ByteClk div 1000000;
     let r1 = pll_regs (DSIFRE t) (sync_regs t r);
     let LPClk = ByteClk div (unat (reg_bb r1) + 1);
     r2 \<leftarrow> delay_regs ByteClkMhz (LPClk div 1000) r1;
     Some (module_of t, r2\<lparr>reg_b6 := video_mode (SyncMode t) (BitNum t) (reg_b6 r2),
                           reg_de := ucast (LaneNum t) - 1, reg_d6 := 4\<rparr>)
   }"

section \<open>Writing the configuration\<close>

definition config_writes :: "ssd_config \<Rightarrow> (u8 \<times> u16) list" where
  "config_writes r =
     [(0xB1, reg_b1 r), (0xB2, reg_b2 r), (0xB3, reg_b3 r), (0xB4, reg_b4 r), (0xB5, reg_b5 r),
      (0xB6, reg_b6 r), (0xDE, reg_de r), (0xD6, reg_d6 r), (0xB9, 0x0000), (0xC4, 0x0000),
      (0xC9, reg_c9 r), (0xCA, reg_ca r), (0xCB, reg_cb r), (0xCC, reg_cc r), (0xCD, reg_cd r),
      (0xCE, reg_ce r), (0xBA, reg_ba r), (0xBB, reg_bb r), (0xB9, 0x0001), (0xB8, 0x0000)]"

definition ConfigSSD2828 :: "int \<Rightarrow> ssd_config \<Rightarrow> bus \<Rightarrow> bus" where
  "ConfigSSD2828 channel r = fold (\<lambda>(a, d). WriteSSD2828 channel a d) (config_writes r)"

definition ConfigSSD2828CMD :: "int \<Rightarrow> ssd_config \<Rightarrow> bus \<Rightarrow> bus" where
  "ConfigSSD2828CMD channel r = fold (\<lambda>(a, d). WriteFPGATo2828_8bit channel a d) (config_writes r)"

definition Set2828_V ::
  "int \<Rightarrow> panel_timing \<Rightarrow> ssd_config \<Rightarrow> u8 list \<Rightarrow> send_state
     \<Rightarrow> (module_timing \<times> ssd_config \<times> send_state) option" where
  "Set2828_V ch t r junk s = do {
     (m, r') \<leftarrow> GetConfigPara t r;
     s1 \<leftarrow> SendCode ch junk (on_bus (\<lambda>b. time_delay 1 (ConfigSSD2828 ch r' b)) s);
     Some (m, r', on_bus (\<lambda>b. mipi_to_hs_mode ch (time_delay 10 b)) s1)
   }"

section \<open>The delay loops end\<close>

lemma find_upt_least:
  "P k \<Longrightarrow> k < n \<Longrightarrow> \<exists>i. find P [0..<n] = Some i \<and> i \<le> k \<and> P i \<and> (\<forall>j<i. \<not> P j)"
proof -
  assume P: "P k" "k < n"
  define i where "i = (LEAST i. P i)"
  have i: "P i" "i \<le> k" "\<forall>j<i. \<not> P j"
    using P by (auto simp: i_def intro: LeastI Least_le dest: not_less_Least)
  then have "find P [0..<n] = Some i"
    using P(2) unfolding find_Some_iff by (intro exI [of _ i]) auto
  then show ?thesis using i by blast
qed

text \<open>\<open>first_above step clk bound i\<close>: \<open>i\<close> is the least count whose time exceeds the bound.\<close>

definition first_above :: "nat \<Rightarrow> nat \<Rightarrow> nat \<Rightarrow> nat \<Rightarrow> bool" where
  "first_above step clk bound i \<longleftrightarrow>
     bound < i * step div clk \<and> (\<forall>j<i. j * step div clk \<le> bound)"

lemma delay_loop_found:
  assumes "0 < clk" and "0 < step" and "(bound + 1) * clk div step + 1 < n"
  shows "\<exists>i. delay_loop n step clk bound = Some i \<and> i < n \<and> first_above step clk bound i"
proof -
  let ?k = "(bound + 1) * clk div step + 1"
  have "(bound + 1) * clk < ?k * step"
    using assms(2) dividend_less_div_times [of step "(bound + 1) * clk"] by simp
  then have "bound < ?k * step div clk"
    using assms(1) by (simp add: Suc_le_eq [symmetric] less_eq_div_iff_mult_less_eq)
  then obtain i where "find (\<lambda>i. i * step div clk > bound) [0..<n] = Some i" "i \<le> ?k"
    "i * step div clk > bound" "\<forall>j<i. \<not> j * step div clk > bound"
    using find_upt_least [of "\<lambda>i. i * step div clk > bound" ?k n] assms(3) by blast
  then show ?thesis
    using assms(1,3) by (auto simp: delay_loop_def first_above_def not_less)
qed

lemma byte_clock_range:
  assumes "80000000 \<le> f" and "f \<le> (1000000000 :: nat)"
  shows "10 \<le> f div 8 div 1000000" "f div 8 div 1000000 \<le> 125"
  using assms by simp_all

lemma lp_clock_range:
  assumes "80000000 \<le> f" and "f \<le> (1000000000 :: nat)"
  shows "unat (of_nat (sub32 (f div 80000000) 1) :: u16) + 1 = f div 80000000"
    and "10000000 \<le> f div 8 div (f div 80000000)" and "f div 8 div (f div 80000000) < 20000000"
proof -
  let ?q = "f div 80000000"
  have q: "1 \<le> ?q" "?q \<le> 12" using assms by simp_all
  then have sub: "sub32 ?q 1 = ?q - 1" by simp
  have "unat (of_nat (?q - 1) :: u16) = ?q - 1" using q by (intro unat_of_nat_u16) linarith
  then show "unat (of_nat (sub32 ?q 1) :: u16) + 1 = ?q"
    unfolding sub using q by linarith
  have lo: "80000000 * ?q \<le> f" and hi: "f < 80000000 * ?q + 80000000" by linarith+
  then show "10000000 \<le> f div 8 div ?q"
    using q by (simp add: less_eq_div_iff_mult_less_eq)
  have "f div 8 < 20000000 * ?q" using hi q by linarith
  then show "f div 8 div ?q < 20000000" using q by (simp add: div_less_iff_less_mult)
qed

lemma pll_reg_low:
  assumes "f div 6250000 \<le> 160"
  shows "unat ((pll_range f + of_nat (f div 6250000 mod 256)) AND 0x00FF) = f div 6250000"
proof -
  let ?n = "f div 6250000"
  have m: "unat (w AND 0x00FF) = unat w mod 256" for w :: u16
  proof -
    have "w AND 0x00FF = take_bit 8 w" by (simp add: take_bit_eq_mask mask_eq_exp_minus_1)
    then have "unat (w AND 0x00FF) = take_bit 8 (unat w)" by (simp only: unsigned_take_bit_eq)
    then show ?thesis by (simp add: take_bit_eq_mod)
  qed
  have n: "unat (of_nat (?n mod 256) :: u16) = ?n" using assms by (simp add: unat_of_nat)
  have "unat (pll_range f) mod 256 = 0" by (simp add: pll_range_def)
  then obtain k where k: "unat (pll_range f) = 256 * k" by auto
  have "unat (pll_range f + of_nat (?n mod 256)) = (256 * k + ?n) mod 65536"
    unfolding unat_word_ariths n k by simp
  moreover have "(256 * k + ?n) mod 65536 mod 256 = (256 * k + ?n) mod 256"
    by (rule mod_mod_cancel) simp
  moreover have "(256 * k + ?n) mod 256 = ?n" using assms by simp
  ultimately show ?thesis unfolding m by simp
qed

lemma pll_regs_sel:
  "reg_bb (pll_regs f r) = of_nat (sub32 (f div 80000000) 1)"
  "reg_ba (pll_regs f r) = pll_range f + of_nat (f div 6250000 mod 256)"
  by (simp_all add: pll_regs_def)

text \<open>
  The delay registers hold, byte by byte, the least counts of the byte clock \<open>B\<close> (MHz) and the
  low-power clock \<open>K\<close> (kHz) that exceed the bounds of the source.
\<close>

definition delays_ok :: "nat \<Rightarrow> nat \<Rightarrow> ssd_config \<Rightarrow> bool" where
  "delays_ok B K r \<longleftrightarrow> (\<exists>hp hz cp cz post pre tr wu tg tgo.
    list_all2 (\<lambda>bound i. i < 256 \<and> first_above 500 B bound i)
      [48 + 600 div B, 150 + 1500 div B, 44, 280, 65 + 7000 div B, 69 + 650 div B, 100 + 1250 div B]
      [hp, hz, cp, cz, post, pre, tr] \<and>
    wu < 65536 \<and> first_above 1000 K 1050 wu \<and> tg < 16 \<and> first_above 500000 K 275 tg \<and>
    tgo < 16 \<and> first_above 500000 K 220 tgo \<and>
    reg_c9 r = word_of (of_nat hz) (of_nat (hp - 4)) \<and>
    reg_ca r = word_of (of_nat cz) (of_nat (cp - 3)) \<and>
    reg_cb r = word_of (of_nat pre) (of_nat post) \<and> reg_cc r = word_of (of_nat tr) (of_nat tr) \<and>
    reg_cd r = of_nat wu \<and> reg_ce r = word_of (of_nat tgo) (of_nat tg))"

lemma delay_regs_found:
  assumes B: "10 \<le> B" "B \<le> 125" and K: "10000 \<le> K" "K < 20000"
  shows "\<exists>r'. delay_regs B K r = Some r' \<and> delays_ok B K r' \<and> reg_ba r' = reg_ba r \<and> reg_bb r' = reg_bb r"
proof -
  have byte: "\<exists>i. delay_loop 256 500 B (a + b div B) = Some i \<and> i < 256 \<and> first_above 500 B (a + b div B) i"
    if "(a + 1) * 125 + b < 127500" for a b
  proof (rule delay_loop_found)
    have "b div B * B \<le> b" by (rule div_times_less_eq_dividend)
    moreover have "(a + 1) * B \<le> (a + 1) * 125" using B(2) by (intro mult_le_mono2)
    moreover have "(a + b div B + 1) * B = (a + 1) * B + b div B * B" by (simp add: algebra_simps)
    ultimately have "(a + b div B + 1) * B < 127500" using that by linarith
    then show "(a + b div B + 1) * B div 500 + 1 < 256" by linarith
  qed (use B in simp_all)
  note b0 = byte [of _ 0, simplified]
  obtain hp where 1: "delay_loop 256 500 B (48 + 600 div B) = Some hp" "hp < 256"
    "first_above 500 B (48 + 600 div B) hp" using byte [of 48 600] by auto
  obtain hz where 2: "delay_loop 256 500 B (150 + 1500 div B) = Some hz" "hz < 256"
    "first_above 500 B (150 + 1500 div B) hz" using byte [of 150 1500] by auto
  obtain cp where 3: "delay_loop 256 500 B 44 = Some cp" "cp < 256" "first_above 500 B 44 cp"
    using b0 [of 44] by auto
  obtain cz where 4: "delay_loop 256 500 B 280 = Some cz" "cz < 256" "first_above 500 B 280 cz"
    using b0 [of 280] by auto
  obtain post where 5: "delay_loop 256 500 B (65 + 7000 div B) = Some post" "post < 256"
    "first_above 500 B (65 + 7000 div B) post" using byte [of 65 7000] by auto
  obtain pre where 6: "delay_loop 256 500 B (69 + 650 div B) = Some pre" "pre < 256"
    "first_above 500 B (69 + 650 div B) pre" using byte [of 69 650] by auto
  obtain tr where 7: "delay_loop 256 500 B (100 + 1250 div B) = Some tr" "tr < 256"
    "first_above 500 B (100 + 1250 div B) tr" using byte [of 100 1250] by auto
  have "1051 * K div 1000 < 65535" using K by linarith
  then have wake: "(1050 + 1) * K div 1000 + 1 < 65536" by simp
  obtain wu where 8: "delay_loop 65536 1000 K 1050 = Some wu" "wu < 65536" "first_above 1000 K 1050 wu"
    using delay_loop_found [of K 1000 1050 65536] wake K by auto
  have ta: "69 * K div 125000 < 15" "221 * K div 500000 < 15" using K by linarith+
  obtain tg where 9: "delay_loop 16 500000 K 275 = Some tg" "tg < 16" "first_above 500000 K 275 tg"
    using delay_loop_found [of K 500000 275 16] K ta by auto
  obtain tgo where 10: "delay_loop 16 500000 K 220 = Some tgo" "tgo < 16" "first_above 500000 K 220 tgo"
    using delay_loop_found [of K 500000 220 16] K ta by auto
  have "delays_ok B K (r\<lparr>reg_c9 := word_of (of_nat hz) (of_nat (hp - 4)),
      reg_ca := word_of (of_nat cz) (of_nat (cp - 3)), reg_cb := word_of (of_nat pre) (of_nat post),
      reg_cc := word_of (of_nat tr) (of_nat tr), reg_cd := of_nat wu,
      reg_ce := word_of (of_nat tgo) (of_nat tg)\<rparr>)"
    unfolding delays_ok_def
    by (rule exI [of _ hp], rule exI [of _ hz], rule exI [of _ cp], rule exI [of _ cz],
        rule exI [of _ post], rule exI [of _ pre], rule exI [of _ tr], rule exI [of _ wu],
        rule exI [of _ tg], rule exI [of _ tgo])
      (simp add: 1 2 3 4 5 6 7 8 9 10)
  then show ?thesis
    by (simp add: delay_regs_def 1 2 3 4 5 6 7 8 9 10)
qed

lemma delay_regs_zero: "delay_regs B 0 r = None"
  by (simp add: delay_regs_def delay_loop_def [of _ _ 0] bind_eq_None_conv)

section \<open>Properties\<close>

lemma GetConfigPara_some:
  assumes "80000000 \<le> DSIFRE t" and "DSIFRE t \<le> 1000000000"
  shows "\<exists>r' K. GetConfigPara t r = Some (module_of t, r') \<and>
    delays_ok (DSIFRE t div 8000000) K r' \<and> 10000 \<le> K \<and> K < 20000 \<and>
    K = DSIFRE t div 8 div (unat (reg_bb r') + 1) div 1000 \<and>
    unat (reg_ba r' AND 0x00FF) = DSIFRE t div 6250000"
proof -
  let ?f = "DSIFRE t" and ?r = "pll_regs (DSIFRE t) (sync_regs t r)"
  let ?B = "?f div 8 div 1000000" and ?K = "?f div 8 div (unat (reg_bb ?r) + 1) div 1000"
  have bb: "unat (reg_bb ?r) + 1 = ?f div 80000000"
    unfolding pll_regs_sel by (rule lp_clock_range(1) [OF assms])
  have K: "10000 \<le> ?K" "?K < 20000"
    unfolding bb using lp_clock_range(2,3) [OF assms] by linarith+
  have B: "?B = ?f div 8000000" by (simp add: div_mult2_eq [symmetric])
  have mul: "?f div 6250000 \<le> 160" using assms(2) by linarith
  have ba: "unat (reg_ba ?r AND 0x00FF) = ?f div 6250000"
    unfolding pll_regs_sel by (rule pll_reg_low [OF mul])
  obtain r2 where r2: "delay_regs ?B ?K ?r = Some r2" "delays_ok ?B ?K r2" "reg_ba r2 = reg_ba ?r"
    "reg_bb r2 = reg_bb ?r"
    using delay_regs_found [OF byte_clock_range [OF assms] K] by blast
  let ?r' = "r2\<lparr>reg_b6 := video_mode (SyncMode t) (BitNum t) (reg_b6 r2),
    reg_de := ucast (LaneNum t) - 1, reg_d6 := 4\<rparr>"
  have same: "delays_ok ?B ?K ?r' = delays_ok ?B ?K r2" "reg_ba ?r' = reg_ba r2" "reg_bb ?r' = reg_bb r2"
    by (simp_all add: delays_ok_def)
  have "GetConfigPara t r = Some (module_of t, ?r')"
    unfolding GetConfigPara_def Let_def r2(1) by simp
  moreover have "delays_ok (?f div 8000000) ?K ?r'"
    using r2(2) unfolding B [symmetric] same(1) .
  ultimately show ?thesis
    using K ba by (intro exI [of _ ?r'] exI [of _ ?K]) (simp only: same r2(3,4) simp_thms)
qed

text \<open>
  The configuration is defined for a lane clock of 80 MHz to 1 GHz: the loops find every delay
  in its range, as the least one that exceeds its bound at the byte clock or the low-power clock;
  the phase-locked loop is set to the multiple of 6.25 MHz just below the requested clock and the
  low-power clock lies between 10 and 20 MHz.
\<close>

theorem config_defined:
  assumes "80000000 \<le> DSIFRE t" and "DSIFRE t \<le> 1000000000"
  shows "\<exists>r' K. GetConfigPara t r = Some (module_of t, r') \<and>
    delays_ok (DSIFRE t div 8000000) K r' \<and> 10000 \<le> K \<and> K < 20000 \<and>
    K = DSIFRE t div 8 div (unat (reg_bb r') + 1) div 1000 \<and>
    unat (reg_ba r' AND 0x00FF) = DSIFRE t div 6250000"
  using assms by (rule GetConfigPara_some)

definition demo_timing :: "nat \<Rightarrow> panel_timing" where
  "demo_timing f = \<lparr>VsCount = 4, VBPCount = 4, VFPCount = 4, VDPCount = 800, HsCount = 20,
     HBPCount = 15, HFPCount = 200, HDPCount = 1280, LaneNum = 4, SyncMode = 0, DSIFRE = f, BitNum = 8\<rparr>"

definition zero_config :: ssd_config where
  "zero_config = \<lparr>reg_b1 = 0, reg_b2 = 0, reg_b3 = 0, reg_b4 = 0, reg_b5 = 0, reg_b6 = 0, reg_ba = 0,
     reg_bb = 0, reg_c9 = 0, reg_ca = 0, reg_cb = 0, reg_cc = 0, reg_cd = 0, reg_ce = 0, reg_de = 0,
     reg_d6 = 0\<rparr>"

lemma config_defined_witness:
  "\<exists>r' K. GetConfigPara (demo_timing 725000000) zero_config = Some (module_of (demo_timing 725000000), r') \<and>
    delays_ok 90 K r' \<and> K < 20000 \<and> unat (reg_ba r' AND 0x00FF) = 116"
proof -
  have "DSIFRE (demo_timing 725000000) = 725000000" by (simp add: demo_timing_def)
  then show ?thesis using config_defined [of "demo_timing 725000000" zero_config] by fastforce
qed

text \<open>
  Below 80 MHz the configuration divides by zero: the divider of the low-power clock wraps to
  65535, the low-power clock comes out as zero kHz, and the loops divide by it. The lowest range of
  the phase-locked loop, from 62.5 MHz on, cannot be used up to there.
\<close>

theorem config_division_by_zero:
  assumes "DSIFRE t < 80000000"
  shows "GetConfigPara t r = None"
proof -
  let ?r = "pll_regs (DSIFRE t) (sync_regs t r)"
  have "DSIFRE t div 80000000 = 0" using assms by simp
  then have "reg_bb ?r = 0xFFFF" unfolding pll_regs_sel by (simp add: sub32_def)
  then have "DSIFRE t div 8 div (unat (reg_bb ?r) + 1) div 1000 = 0" using assms by simp
  then show ?thesis by (simp only: GetConfigPara_def Let_def delay_regs_zero bind.bind_lzero)
qed

lemma config_division_by_zero_witness: "GetConfigPara (demo_timing 70000000) zero_config = None"
  by (rule config_division_by_zero) (simp add: demo_timing_def)

text \<open>
  Starting the bridge: it is configured with the phase-locked loop powered down before its
  setting is written and up again after it, then the initialisation code runs, and only then the
  video output and the high-speed mode are switched on.
\<close>

theorem bridge_start_up:
  assumes "80000000 \<le> DSIFRE t" and "DSIFRE t \<le> 1000000000"
    and "sc_code s = encode cs @ rest" and "3 \<le> length rest" and "\<not> rest ! 2 \<le> 250"
    and "\<forall>c \<in> set cs. good_cmd c" and "length cs \<le> MAX_MIPI_CODE_LEN"
    and "length (encode cs) < 65536" and "length junk = 250" and "curflick s = 0" and "curpolar s = 0"
  shows "\<exists>r' s' b1 pre post. Set2828_V ch t r junk s = Some (module_of t, r', s') \<and>
    bus_trace b1 = bus_trace (sc_bus s) @ pre @ reg_write ch 0xB9 0 @ reg_write ch 0xC4 0 @ post @
      reg_write ch 0xBA (reg_ba r') @ reg_write ch 0xBB (reg_bb r') @ reg_write ch 0xB9 1 @
      reg_write ch 0xB8 0 @ [Usleep 1000] \<and>
    bus_trace (sc_bus s') = bus_trace (run_cmds ch cs b1) @ [Usleep 10000] @ reg_write ch 0xB7 0x030b \<and>
    HsSignalOnFlag (sc_bus s')"
proof -
  obtain r' where r': "GetConfigPara t r = Some (module_of t, r')"
    using GetConfigPara_some [OF assms(1,2)] by blast
  let ?b1 = "time_delay 1 (ConfigSSD2828 ch r' (sc_bus s))"
  obtain s1 where s1: "SendCode ch junk (on_bus (\<lambda>b. time_delay 1 (ConfigSSD2828 ch r' b)) s) = Some s1"
    "sc_bus s1 = run_cmds ch cs ?b1"
    using SendCode_cmds [of "on_bus (\<lambda>b. time_delay 1 (ConfigSSD2828 ch r' b)) s" cs rest junk ch]
      assms(3-11) by (auto simp: on_bus_def report_flick_def)
  let ?pre = "concat (map (\<lambda>(a, d). reg_write ch a d) (take 8 (config_writes r')))"
  let ?post = "concat (map (\<lambda>(a, d). reg_write ch a d) (take 6 (drop 10 (config_writes r'))))"
  let ?s' = "on_bus (\<lambda>b. mipi_to_hs_mode ch (time_delay 10 b)) s1"
  have "bus_trace ?b1 = bus_trace (sc_bus s) @ ?pre @ reg_write ch 0xB9 0 @ reg_write ch 0xC4 0 @ ?post @
      reg_write ch 0xBA (reg_ba r') @ reg_write ch 0xBB (reg_bb r') @ reg_write ch 0xB9 1 @
      reg_write ch 0xB8 0 @ [Usleep 1000]"
    by (simp add: ConfigSSD2828_def config_writes_def time_delay_def bus_simps)
  moreover have "Set2828_V ch t r junk s = Some (module_of t, r', ?s')"
    using r' s1(1) by (simp add: Set2828_V_def)
  moreover have "bus_trace (sc_bus ?s') = bus_trace (run_cmds ch cs ?b1) @ [Usleep 10000] @ reg_write ch 0xB7 0x030b"
    "HsSignalOnFlag (sc_bus ?s')"
    by (simp_all add: on_bus_def mipi_to_hs_mode_def time_delay_def bus_simps s1(2))
  ultimately show ?thesis by blast
qed

lemma bridge_start_up_witness:
  "\<exists>r' s'. Set2828_V 1 (demo_timing 725000000) zero_config (replicate 250 0)
      (idle_send [0x05, 0x11, 0, 0x05, 0x29, 0, 0xFF, 0xFF, 0xFF])
    = Some (module_of (demo_timing 725000000), r', s') \<and> HsSignalOnFlag (sc_bus s')"
proof -
  have "DSIFRE (demo_timing 725000000) = 725000000" by (simp add: demo_timing_def)
  then show ?thesis
    using bridge_start_up [of "demo_timing 725000000"
        "idle_send [0x05, 0x11, 0, 0x05, 0x29, 0, 0xFF, 0xFF, 0xFF]" "[(0x05, 0x11, []), (0x05, 0x29, [])]"
        "[0xFF, 0xFF, 0xFF]" "replicate 250 0" 1 zero_config]
    by (auto simp: idle_send_def encode_def MAX_MIPI_CODE_LEN_def)
qed

end
