(* ===== verification/Reach.thy ===== *)
theory Reach
  imports Main
begin

text \<open>
  Reachability in a transition system and its invariants, for the components whose threads
  interleave. A system gives its initial states, its steps and a predicate that they keep; every
  reachable state then satisfies the predicate, and so does what follows from it.
\<close>

inductive reach :: "('s \<Rightarrow> bool) \<Rightarrow> ('s \<Rightarrow> 's \<Rightarrow> bool) \<Rightarrow> 's \<Rightarrow> bool" for start step where
  reach_start: "start s \<Longrightarrow> reach start step s"
| reach_step: "reach start step s \<Longrightarrow> step s s' \<Longrightarrow> reach start step s'"

locale inv_system =
  fixes start :: "'s \<Rightarrow> bool" and step :: "'s \<Rightarrow> 's \<Rightarrow> bool" and inv :: "'s \<Rightarrow> bool"
  assumes inv_start: "start s \<Longrightarrow> inv s"
    and inv_step: "inv s \<Longrightarrow> step s s' \<Longrightarrow> inv s'"
begin

lemma reach_inv: "reach start step s \<Longrightarrow> inv s"
  by (induction rule: reach.induct) (auto intro: inv_start inv_step)

lemma reach_star:
  assumes "step\<^sup>*\<^sup>* s s'" and "reach start step s"
  shows "reach start step s'"
  using assms by (induction rule: rtranclp_induct) (auto intro: reach_step)

lemma star_inv:
  assumes "step\<^sup>*\<^sup>* s s'" and "inv s"
  shows "inv s'"
  using assms by (induction rule: rtranclp_induct) (auto intro: inv_step)

text \<open>A relation between two states that every step keeps holds between a state and a later one.\<close>

lemma star_relation:
  assumes "step\<^sup>*\<^sup>* s s'" and "inv s" and "\<And>t. R t t"
    and "\<And>t t' t''. R t t' \<Longrightarrow> R t' t'' \<Longrightarrow> R t t''"
    and "\<And>t t'. inv t \<Longrightarrow> step t t' \<Longrightarrow> R t t'"
  shows "R s s'"
  using assms(1)
proof (induction rule: rtranclp_induct)
  case (step t t')
  then show ?case using assms(2,4,5) star_inv by blast
qed (rule assms(3))

end

end
