(* ===== verification/ThreadPool.thy ===== *)
theory ThreadPool
  imports Reach "HOL-Library.Multiset"
begin

text \<open>
  The thread pool of \<^verbatim>\<open>threadpool/threadpool.c\<close>. What a thread does between taking the mutex and
  giving it back, or between two waits, is one function on the pool; the threads interleave these
  sections. A wait on a condition may end without a signal. The list of jobs, from \<^verbatim>\<open>head\<close> to
  \<^verbatim>\<open>tail\<close>, is a list, next to the counter the code keeps for itself.
\<close>

record 'j pool =
  queue_max_num :: int
  queue_cur_num :: int
  jobs :: "'j list"
  queue_close :: bool
  pool_close :: bool

section \<open>The sections under the mutex\<close>

datatype 'r critical = Wait | Return 'r

definition pool_closed :: "'j pool \<Rightarrow> bool" where
  "pool_closed p \<longleftrightarrow> queue_close p \<or> pool_close p"

text \<open>
  \<^verbatim>\<open>threadpool_add_job\<close> from its loop on; \<open>mem\<close> tells whether \<^verbatim>\<open>malloc\<close> delivers. The last part of
  the value tells whether \<^verbatim>\<open>queue_not_empty\<close> is broadcast.
\<close>

definition threadpool_add_job :: "bool \<Rightarrow> 'j \<Rightarrow> 'j pool \<Rightarrow> int critical \<times> 'j pool \<times> bool" where
  "threadpool_add_job mem j p =
     (if queue_cur_num p = queue_max_num p \<and> \<not> pool_closed p then (Wait, p, False)
      else if pool_closed p then (Return (-1), p, False)
      else if \<not> mem then (Return (-1), p, False)
      else if jobs p = []
      then (Return 0, p\<lparr>jobs := [j], queue_cur_num := queue_cur_num p + 1\<rparr>, True)
      else (Return 0, p\<lparr>jobs := jobs p @ [j], queue_cur_num := queue_cur_num p + 1\<rparr>, False))"

text \<open>
  \<^verbatim>\<open>threadpool_function\<close>: one turn of a worker until it has a job or leaves. \<open>Return None\<close> is the
  exit of the thread. The two flags tell whether \<^verbatim>\<open>queue_empty\<close> is signalled and \<^verbatim>\<open>queue_not_full\<close>
  broadcast. Taking a job from an empty list, a null pointer, is undefined.
\<close>

definition threadpool_function ::
  "'j pool \<Rightarrow> ('j option critical \<times> 'j pool \<times> bool \<times> bool) option" where
  "threadpool_function p =
     (if queue_cur_num p = 0 \<and> \<not> pool_close p then Some (Wait, p, False, False)
      else if pool_close p then Some (Return None, p, False, False)
      else
        let cur = queue_cur_num p - 1 in
        case jobs p of
          [] \<Rightarrow> None
        | j # rest \<Rightarrow>
            Some (Return (Some j), p\<lparr>queue_cur_num := cur, jobs := (if cur = 0 then [] else rest)\<rparr>,
                  cur = 0, cur = queue_max_num p - 1))"

text \<open>\<^verbatim>\<open>threadpool_destroy\<close>: its entry, and its loop up to the point where it gives the mutex back.\<close>

definition destroy_loop :: "'j pool \<Rightarrow> int critical \<times> 'j pool" where
  "destroy_loop p =
     (if queue_cur_num p \<noteq> 0 then (Wait, p) else (Return 0, p\<lparr>pool_close := True\<rparr>))"

definition threadpool_destroy :: "'j pool \<Rightarrow> int critical \<times> 'j pool" where
  "threadpool_destroy p =
     (if pool_closed p then (Return (-1), p) else destroy_loop (p\<lparr>queue_close := True\<rparr>))"

section \<open>The threads\<close>

text \<open>A worker is about to take the mutex, waits, runs a job, or has left.\<close>

datatype 'j worker = W_ready | W_wait | W_run 'j | W_exit

datatype 'j adder = A_call 'j | A_wait 'j | A_ret 'j int

text \<open>
  A caller of \<^verbatim>\<open>threadpool_destroy\<close>: at its entry, waiting, woken, before the first and the second
  broadcast, joining the workers, or back with a result.
\<close>

datatype destroyer = D_call | D_wait | D_woken | D_cast1 | D_cast2 | D_join | D_ret int

record 'j psys =
  ps_pool :: "'j pool"
  ps_workers :: "'j worker list"
  ps_adders :: "'j adder list"
  ps_destroyers :: "destroyer list"
  ps_freed :: bool
  ps_accepted :: "'j list"
  ps_taken :: "'j list"
  ps_done :: "'j list"

definition threadpool_init :: "nat \<Rightarrow> int \<Rightarrow> 'j pool \<times> 'j worker list" where
  "threadpool_init thread_num queue_max =
     (\<lparr>queue_max_num = queue_max, queue_cur_num = 0, jobs = [], queue_close = False, pool_close = False\<rparr>,
      replicate thread_num W_ready)"

fun wake_worker :: "'j worker \<Rightarrow> 'j worker" where
  "wake_worker W_wait = W_ready"
| "wake_worker w = w"

fun wake_adder :: "'j adder \<Rightarrow> 'j adder" where
  "wake_adder (A_wait j) = A_call j"
| "wake_adder a = a"

fun signal_destroyers :: "destroyer list \<Rightarrow> destroyer list" where
  "signal_destroyers [] = []"
| "signal_destroyers (d # ds) = (if d = D_wait then D_woken # ds else d # signal_destroyers ds)"

text \<open>The start: a pool just created, any number of threads about to call it, none inside.\<close>

definition pool_start :: "'j psys \<Rightarrow> bool" where
  "pool_start s \<longleftrightarrow> (\<exists>n mx js m. 0 < n \<and> 0 < mx \<and>
     s = \<lparr>ps_pool = fst (threadpool_init n mx), ps_workers = snd (threadpool_init n mx),
          ps_adders = map A_call js, ps_destroyers = replicate m D_call, ps_freed = False,
          ps_accepted = [], ps_taken = [], ps_done = []\<rparr>)"

text \<open>No step is possible on a freed pool: to take its mutex would be an access to freed memory.\<close>

inductive pool_step :: "'j psys \<Rightarrow> 'j psys \<Rightarrow> bool" where
  worker_wait:
    "\<not> ps_freed s \<Longrightarrow> i < length (ps_workers s) \<Longrightarrow> ps_workers s ! i = W_ready \<Longrightarrow>
     threadpool_function (ps_pool s) = Some (Wait, p, e, f) \<Longrightarrow>
     pool_step s (s\<lparr>ps_workers := (ps_workers s)[i := W_wait]\<rparr>)"
| worker_exit:
    "\<not> ps_freed s \<Longrightarrow> i < length (ps_workers s) \<Longrightarrow> ps_workers s ! i = W_ready \<Longrightarrow>
     threadpool_function (ps_pool s) = Some (Return None, p, e, f) \<Longrightarrow>
     pool_step s (s\<lparr>ps_workers := (ps_workers s)[i := W_exit]\<rparr>)"
| worker_take:
    "\<not> ps_freed s \<Longrightarrow> i < length (ps_workers s) \<Longrightarrow> ps_workers s ! i = W_ready \<Longrightarrow>
     threadpool_function (ps_pool s) = Some (Return (Some j), p, e, f) \<Longrightarrow>
     pool_step s (s\<lparr>ps_pool := p, ps_workers := (ps_workers s)[i := W_run j],
       ps_destroyers := (if e then signal_destroyers (ps_destroyers s) else ps_destroyers s),
       ps_adders := (if f then map wake_adder (ps_adders s) else ps_adders s),
       ps_taken := ps_taken s @ [j]\<rparr>)"
| worker_done:
    "i < length (ps_workers s) \<Longrightarrow> ps_workers s ! i = W_run j \<Longrightarrow>
     pool_step s (s\<lparr>ps_workers := (ps_workers s)[i := W_ready], ps_done := ps_done s @ [j]\<rparr>)"
| worker_spurious:
    "i < length (ps_workers s) \<Longrightarrow> ps_workers s ! i = W_wait \<Longrightarrow>
     pool_step s (s\<lparr>ps_workers := (ps_workers s)[i := W_ready]\<rparr>)"
| adder_wait:
    "\<not> ps_freed s \<Longrightarrow> i < length (ps_adders s) \<Longrightarrow> ps_adders s ! i = A_call j \<Longrightarrow>
     threadpool_add_job mem j (ps_pool s) = (Wait, p, e) \<Longrightarrow>
     pool_step s (s\<lparr>ps_adders := (ps_adders s)[i := A_wait j]\<rparr>)"
| adder_return:
    "\<not> ps_freed s \<Longrightarrow> i < length (ps_adders s) \<Longrightarrow> ps_adders s ! i = A_call j \<Longrightarrow>
     threadpool_add_job mem j (ps_pool s) = (Return r, p, e) \<Longrightarrow>
     pool_step s (s\<lparr>ps_pool := p, ps_adders := (ps_adders s)[i := A_ret j r],
       ps_workers := (if e then map wake_worker (ps_workers s) else ps_workers s),
       ps_accepted := (if r = 0 then ps_accepted s @ [j] else ps_accepted s)\<rparr>)"
| adder_spurious:
    "i < length (ps_adders s) \<Longrightarrow> ps_adders s ! i = A_wait j \<Longrightarrow>
     pool_step s (s\<lparr>ps_adders := (ps_adders s)[i := A_call j]\<rparr>)"
| destroy_enter:
    "\<not> ps_freed s \<Longrightarrow> i < length (ps_destroyers s) \<Longrightarrow> ps_destroyers s ! i = D_call \<Longrightarrow>
     threadpool_destroy (ps_pool s) = (r, p) \<Longrightarrow>
     pool_step s (s\<lparr>ps_pool := p, ps_destroyers := (ps_destroyers s)[i :=
       (case r of Wait \<Rightarrow> D_wait | Return v \<Rightarrow> if v = 0 then D_cast1 else D_ret v)]\<rparr>)"
| destroy_again:
    "\<not> ps_freed s \<Longrightarrow> i < length (ps_destroyers s) \<Longrightarrow> ps_destroyers s ! i = D_woken \<Longrightarrow>
     destroy_loop (ps_pool s) = (r, p) \<Longrightarrow>
     pool_step s (s\<lparr>ps_pool := p, ps_destroyers := (ps_destroyers s)[i :=
       (case r of Wait \<Rightarrow> D_wait | Return v \<Rightarrow> D_cast1)]\<rparr>)"
| destroy_spurious:
    "i < length (ps_destroyers s) \<Longrightarrow> ps_destroyers s ! i = D_wait \<Longrightarrow>
     pool_step s (s\<lparr>ps_destroyers := (ps_destroyers s)[i := D_woken]\<rparr>)"
| destroy_cast1:
    "i < length (ps_destroyers s) \<Longrightarrow> ps_destroyers s ! i = D_cast1 \<Longrightarrow>
     pool_step s (s\<lparr>ps_workers := map wake_worker (ps_workers s),
       ps_destroyers := (ps_destroyers s)[i := D_cast2]\<rparr>)"
| destroy_cast2:
    "i < length (ps_destroyers s) \<Longrightarrow> ps_destroyers s ! i = D_cast2 \<Longrightarrow>
     pool_step s (s\<lparr>ps_adders := map wake_adder (ps_adders s),
       ps_destroyers := (ps_destroyers s)[i := D_join]\<rparr>)"
| destroy_join:
    "i < length (ps_destroyers s) \<Longrightarrow> ps_destroyers s ! i = D_join \<Longrightarrow>
     \<forall>w \<in> set (ps_workers s). w = W_exit \<Longrightarrow>
     pool_step s (s\<lparr>ps_freed := True, ps_destroyers := (ps_destroyers s)[i := D_ret 0]\<rparr>)"

inductive_cases pool_stepE: "pool_step s s'"

section \<open>Invariants\<close>

fun running_of :: "'j worker \<Rightarrow> 'j list" where
  "running_of (W_run j) = [j]"
| "running_of _ = []"

definition running :: "'j worker list \<Rightarrow> 'j list" where
  "running ws = concat (map running_of ws)"

text \<open>The counter is right, no job is lost or taken twice, and they are taken in order.\<close>

definition jobs_inv :: "'j psys \<Rightarrow> bool" where
  "jobs_inv s \<longleftrightarrow>
     queue_cur_num (ps_pool s) = int (length (jobs (ps_pool s))) \<and>
     queue_cur_num (ps_pool s) \<le> queue_max_num (ps_pool s) \<and> 0 < queue_max_num (ps_pool s) \<and>
     ps_accepted s = ps_taken s @ jobs (ps_pool s) \<and>
     mset (ps_taken s) = mset (running (ps_workers s)) + mset (ps_done s)"

text \<open>A destroyer that the entry has let in; and one that has found the queue empty.\<close>

definition inside :: "destroyer \<Rightarrow> bool" where
  "inside d \<longleftrightarrow> d \<noteq> D_call \<and> d \<noteq> D_ret (-1)"

definition closing :: "destroyer \<Rightarrow> bool" where
  "closing d \<longleftrightarrow> d = D_cast1 \<or> d = D_cast2 \<or> d = D_join \<or> d = D_ret 0"

definition close_inv :: "'j psys \<Rightarrow> bool" where
  "close_inv s \<longleftrightarrow>
     length (filter inside (ps_destroyers s)) = (if queue_close (ps_pool s) then 1 else 0) \<and>
     ((\<exists>d \<in> set (ps_destroyers s). closing d) \<longleftrightarrow> pool_close (ps_pool s)) \<and>
     (pool_close (ps_pool s) \<longrightarrow> jobs (ps_pool s) = []) \<and>
     (\<forall>v. D_ret v \<in> set (ps_destroyers s) \<longrightarrow> v = 0 \<or> v = -1) \<and>
     (W_exit \<in> set (ps_workers s) \<longrightarrow> pool_close (ps_pool s)) \<and>
     (ps_freed s \<longleftrightarrow> D_ret 0 \<in> set (ps_destroyers s)) \<and>
     (ps_freed s \<longrightarrow> (\<forall>w \<in> set (ps_workers s). w = W_exit))"

text \<open>No wake-up is lost: a thread waits only while what it waits for has not come.\<close>

definition wait_inv :: "'j psys \<Rightarrow> bool" where
  "wait_inv s \<longleftrightarrow>
     (W_wait \<in> set (ps_workers s) \<longrightarrow> jobs (ps_pool s) = []) \<and>
     (\<forall>j. A_wait j \<in> set (ps_adders s) \<longrightarrow> queue_cur_num (ps_pool s) = queue_max_num (ps_pool s)) \<and>
     (D_wait \<in> set (ps_destroyers s) \<longrightarrow> jobs (ps_pool s) \<noteq> []) \<and>
     (W_wait \<in> set (ps_workers s) \<longrightarrow>
        (\<forall>d \<in> set (ps_destroyers s). d \<noteq> D_cast2 \<and> d \<noteq> D_join \<and> d \<noteq> D_ret 0))"

definition pool_inv :: "'j psys \<Rightarrow> bool" where
  "pool_inv s \<longleftrightarrow> jobs_inv s \<and> close_inv s \<and> wait_inv s \<and> ps_workers s \<noteq> []"

section \<open>Lists with one element changed\<close>

lemma update_mem: "x \<in> set (xs[i := y]) \<Longrightarrow> x = y \<or> x \<in> set xs"
  using set_update_subset_insert [of xs i y] by blast

lemma update_keeps: "x \<in> set xs \<Longrightarrow> xs ! i \<noteq> x \<Longrightarrow> x \<in> set (xs[i := y])"
  unfolding in_set_conv_nth by (metis length_list_update nth_list_update_neq)

lemma filter_update:
  "i < length xs \<Longrightarrow> length (filter P (xs[i := y])) + (if P (xs ! i) then 1 else 0) =
     length (filter P xs) + (if P y then 1 else 0)"
proof (induction xs arbitrary: i)
  case (Cons x xs)
  then show ?case by (cases i) (auto split: if_splits)
qed simp

lemma running_update:
  "i < length ws \<Longrightarrow> mset (running (ws[i := w])) + mset (running_of (ws ! i)) =
     mset (running ws) + mset (running_of w)"
proof (induction ws arbitrary: i)
  case (Cons x xs)
  show ?case
  proof (cases i)
    case 0
    then show ?thesis by (simp add: running_def ac_simps)
  next
    case (Suc k)
    then show ?thesis using Cons.IH [of k] Cons.prems by (simp add: running_def add.assoc)
  qed
qed simp

lemma running_wake [simp]: "running (map wake_worker ws) = running ws"
proof -
  have "running_of (wake_worker w) = running_of w" for w :: "'a worker" by (cases w) auto
  then show ?thesis by (simp add: running_def comp_def)
qed

lemma wake_worker_eq [simp]:
  "wake_worker w \<noteq> W_wait" "wake_worker w = W_exit \<longleftrightarrow> w = W_exit"
  "W_wait \<noteq> wake_worker w" "W_exit = wake_worker w \<longleftrightarrow> w = W_exit"
  by (cases w; simp)+

lemma wake_worker_mem [simp]:
  "W_wait \<notin> wake_worker ` A" "W_exit \<in> wake_worker ` A \<longleftrightarrow> W_exit \<in> A"
  by (auto simp: image_iff)

lemma wake_adder_mem [simp]: "A_wait j \<notin> wake_adder ` A"
proof -
  have "A_wait j \<noteq> wake_adder a" for a :: "'a adder" by (cases a) auto
  then show ?thesis by auto
qed

lemma signal_destroyers_mem:
  "d \<in> set (signal_destroyers ds) \<Longrightarrow> d \<in> set ds \<or> d = D_woken"
  "d \<in> set ds \<Longrightarrow> d \<noteq> D_wait \<Longrightarrow> d \<in> set (signal_destroyers ds)"
  by (induction ds) (auto split: if_splits)

lemma signal_destroyers_inside [simp]:
  "length (filter inside (signal_destroyers ds)) = length (filter inside ds)"
  by (induction ds) (auto simp: inside_def)

lemma signal_destroyers_one:
  "length (filter inside ds) \<le> 1 \<Longrightarrow> D_wait \<notin> set (signal_destroyers ds)"
proof (induction ds)
  case (Cons d ds)
  have w: "inside D_wait" by (simp add: inside_def)
  have "D_wait \<in> set ds \<Longrightarrow> filter inside ds \<noteq> []" using w by (auto simp: filter_empty_conv)
  then show ?case using Cons w by (auto split: if_splits)
qed simp

lemma pool_start_inv: "pool_start s \<Longrightarrow> pool_inv s"
proof -
  have "running (replicate n W_ready) = []" for n by (induction n) (simp_all add: running_def)
  then show "pool_start s \<Longrightarrow> pool_inv s"
    by (auto simp: pool_start_def pool_inv_def jobs_inv_def close_inv_def wait_inv_def
        threadpool_init_def inside_def closing_def)
qed

section \<open>Every step keeps them\<close>

lemma threadpool_function_cases:
  assumes "threadpool_function p = Some (r, p', e, f)"
  shows "(r = Wait \<longrightarrow> p' = p \<and> queue_cur_num p = 0 \<and> \<not> pool_close p) \<and>
    (r = Return None \<longrightarrow> p' = p \<and> pool_close p) \<and>
    (\<forall>j. r = Return (Some j) \<longrightarrow> \<not> pool_close p \<and> (\<exists>rest. jobs p = j # rest \<and>
       p' = p\<lparr>queue_cur_num := queue_cur_num p - 1,
              jobs := (if queue_cur_num p - 1 = 0 then [] else rest)\<rparr> \<and>
       e = (queue_cur_num p = 1) \<and> f = (queue_cur_num p = queue_max_num p)))"
  using assms by (auto simp: threadpool_function_def Let_def split: if_splits list.splits)

lemma jobs_inv_take:
  assumes "jobs_inv s" and "i < length (ps_workers s)" and "ps_workers s ! i = W_ready"
    and "threadpool_function (ps_pool s) = Some (Return (Some j), p, e, f)"
  shows "jobs_inv (s\<lparr>ps_pool := p, ps_workers := (ps_workers s)[i := W_run j],
    ps_destroyers := ds, ps_adders := as, ps_taken := ps_taken s @ [j]\<rparr>)"
proof -
  obtain rest where r: "jobs (ps_pool s) = j # rest" and p: "p = (ps_pool s)\<lparr>queue_cur_num := queue_cur_num (ps_pool s) - 1,
      jobs := (if queue_cur_num (ps_pool s) - 1 = 0 then [] else rest)\<rparr>"
    using threadpool_function_cases [OF assms(4)] by blast
  have "queue_cur_num (ps_pool s) = 1 + int (length rest)" using assms(1) r by (simp add: jobs_inv_def)
  then have "jobs p = rest" using p by auto
  then show ?thesis
    using assms(1) r p running_update [OF assms(2), of "W_run j"] assms(3)
    by (simp add: jobs_inv_def)
qed

lemma jobs_inv_step:
  assumes "pool_step s s'" and "jobs_inv s"
  shows "jobs_inv s'"
  using assms
proof (cases rule: pool_step.cases)
  case (worker_take i j p e f)
  then show ?thesis using jobs_inv_take [OF assms(2) worker_take(3-5)] by simp
next
  case (adder_return i j mem r p e)
  then show ?thesis
    using assms(2) by (auto simp: jobs_inv_def threadpool_add_job_def split: if_splits)
qed (use running_update in \<open>fastforce simp: jobs_inv_def threadpool_destroy_def destroy_loop_def
    split: if_splits\<close>)+

lemma inside_simps [simp]:
  "\<not> inside D_call" "inside D_wait" "inside D_woken" "inside D_cast1" "inside D_cast2" "inside D_join"
  "inside (D_ret 0)" "\<not> inside (D_ret (-1))"
  by (simp_all add: inside_def)

lemma ret_inside: "inside (D_ret v) \<longleftrightarrow> v \<noteq> -1"
  by (simp add: inside_def)

lemma closing_simps [simp]:
  "\<not> closing D_call" "\<not> closing D_wait" "\<not> closing D_woken" "closing D_cast1" "closing D_cast2"
  "closing D_join" "closing (D_ret 0)" "\<not> closing (D_ret (-1))"
  by (simp_all add: closing_def)

text \<open>Changing one destroyer: who is inside and who is closing afterwards.\<close>

lemma ex_update:
  assumes "i < length xs"
  shows "(\<exists>x \<in> set (xs[i := y]). P x) \<longleftrightarrow> P y \<or> (\<exists>j < length xs. j \<noteq> i \<and> P (xs ! j))"
  using assms by (auto simp: Bex_def in_set_conv_nth nth_list_update split: if_splits)

lemma closing_inside: "closing d \<Longrightarrow> inside d"
  by (auto simp: closing_def inside_def)

lemma inside_unique:
  "length (filter inside ds) \<le> 1 \<Longrightarrow> i < length ds \<Longrightarrow> inside (ds ! i) \<Longrightarrow>
     d \<in> set (ds[i := x]) \<Longrightarrow> d = x \<or> \<not> inside d"
proof (induction ds arbitrary: i)
  case (Cons e ds)
  have none: "length (filter inside ds) = 0 \<Longrightarrow> \<forall>d \<in> set ds. \<not> inside d" by (simp add: filter_empty_conv)
  show ?case
  proof (cases i)
    case 0
    then show ?thesis using Cons.prems none by auto
  next
    case (Suc k)
    have "inside (ds ! k)" "k < length ds" using Cons.prems Suc by simp_all
    then have "0 < length (filter inside ds)" by (auto simp: filter_empty_conv)
    then have "\<not> inside e" "length (filter inside ds) \<le> 1" using Cons.prems(1) by (auto split: if_splits)
    then show ?thesis using Cons Suc by auto
  qed
qed simp

text \<open>The one destroyer inside moves on from \<open>ds ! i\<close> to \<open>x\<close>.\<close>

lemma destroyer_moves:
  assumes "length (filter inside ds) = (if qc then 1 else 0)" and "i < length ds" and "inside (ds ! i)"
    and "inside x"
  shows "qc" and "length (filter inside (ds[i := x])) = 1"
    and "\<forall>d \<in> set (ds[i := x]). d = x \<or> \<not> inside d" and "x \<in> set (ds[i := x])"
    and "\<forall>d \<in> set (ds[i := x]). d = x \<or> d \<in> set ds"
proof -
  have "0 < length (filter inside ds)" using assms(2,3) by (auto simp: filter_empty_conv)
  then show qc using assms(1) by (auto split: if_splits)
  then have one: "length (filter inside ds) = 1" using assms(1) by simp
  then show "length (filter inside (ds[i := x])) = 1"
    using filter_update [OF assms(2), of inside x] assms(3,4) by simp
  show "\<forall>d \<in> set (ds[i := x]). d = x \<or> \<not> inside d"
    using inside_unique [of ds i _ x] one assms(2,3) by simp
  show "x \<in> set (ds[i := x])" using assms(2) by (rule set_update_memI)
  show "\<forall>d \<in> set (ds[i := x]). d = x \<or> d \<in> set ds" using update_mem by fast
qed

lemma close_inv_moves:
  assumes inv: "close_inv s" and i: "i < length (ps_destroyers s)" and d: "inside (ps_destroyers s ! i)"
    and x: "inside x" "\<And>v. x \<noteq> D_ret v"
    and p: "queue_close p" "pool_close p \<longleftrightarrow> closing x" "pool_close p \<longrightarrow> jobs p = []"
    and ws: "W_exit \<in> set ws \<longrightarrow> pool_close p" and old: "ps_destroyers s ! i \<noteq> D_ret 0"
  shows "close_inv (s\<lparr>ps_pool := p, ps_workers := ws, ps_adders := as,
    ps_destroyers := (ps_destroyers s)[i := x]\<rparr>)"
proof -
  note m = destroyer_moves [OF _ i d x(1), of "queue_close (ps_pool s)"]
  have c: "length (filter inside (ps_destroyers s)) = (if queue_close (ps_pool s) then 1 else 0)"
    using inv by (simp add: close_inv_def)
  note m = m [OF c]
  have "(\<exists>d \<in> set ((ps_destroyers s)[i := x]). closing d) \<longleftrightarrow> closing x"
    using m(3,4) by (auto dest: closing_inside)
  moreover have "D_ret 0 \<notin> set ((ps_destroyers s)[i := x])" using m(3) x(2) inside_simps(7) by metis
  moreover have "D_ret 0 \<notin> set (ps_destroyers s)"
  proof
    assume "D_ret 0 \<in> set (ps_destroyers s)"
    then have "D_ret 0 \<in> set ((ps_destroyers s)[i := x])" using old by (intro update_keeps) auto
    then show False using m(3) x(2) inside_simps(7) by metis
  qed
  moreover have "\<not> ps_freed s" using inv calculation(3) by (simp add: close_inv_def)
  moreover have "\<forall>v. D_ret v \<in> set ((ps_destroyers s)[i := x]) \<longrightarrow> v = 0 \<or> v = -1"
    using m(3) x(2) by (metis ret_inside)
  ultimately show ?thesis
    using m(2) p ws by (simp add: close_inv_def)
qed

lemma close_inv_closing:
  assumes "close_inv s" and "i < length (ps_destroyers s)" and "closing (ps_destroyers s ! i)"
  shows "pool_close (ps_pool s) \<and> jobs (ps_pool s) = []"
  using assms nth_mem [OF assms(2)] by (auto simp: close_inv_def)

lemma close_inv_open:
  assumes "close_inv s" and "i < length (ps_destroyers s)" and "inside (ps_destroyers s ! i)"
    and "\<not> closing (ps_destroyers s ! i)"
  shows "\<not> pool_close (ps_pool s)"
proof -
  have "length (filter inside (ps_destroyers s)) \<le> 1" using assms(1) by (auto simp: close_inv_def)
  then have "d \<in> set (ps_destroyers s) \<Longrightarrow> d = ps_destroyers s ! i \<or> \<not> inside d" for d
    using inside_unique [OF _ assms(2,3), of d "ps_destroyers s ! i"] by simp
  then have "\<not> (\<exists>d \<in> set (ps_destroyers s). closing d)" using assms(4) closing_inside by blast
  then show ?thesis using assms(1) by (simp add: close_inv_def)
qed

lemma close_inv_enter:
  assumes inv: "close_inv s" and i: "i < length (ps_destroyers s)" and d: "ps_destroyers s ! i = D_call"
    and open_pool: "\<not> queue_close (ps_pool s)" and cnt: "jobs_inv s"
    and x: "x = (if jobs (ps_pool s) = [] then D_cast1 else D_wait)"
    and p: "p = (ps_pool s)\<lparr>queue_close := True, pool_close := (jobs (ps_pool s) = [])\<rparr>"
  shows "close_inv (s\<lparr>ps_pool := p, ps_destroyers := (ps_destroyers s)[i := x]\<rparr>)"
proof -
  let ?ds = "ps_destroyers s"
  have none: "\<forall>d \<in> set ?ds. \<not> inside d"
    using inv open_pool by (simp add: close_inv_def filter_empty_conv)
  then have new: "\<forall>d \<in> set (?ds[i := x]). d = x \<or> \<not> inside d" using update_mem by fast
  have mem: "x \<in> set (?ds[i := x])" using i by (rule set_update_memI)
  have one: "length (filter inside (?ds[i := x])) = 1"
    using filter_update [OF i, of inside x] d none inv open_pool x by (auto simp: close_inv_def)
  have "(\<exists>d \<in> set (?ds[i := x]). closing d) \<longleftrightarrow> closing x"
    using new mem by (auto dest: closing_inside)
  moreover have "D_ret 0 \<notin> set (?ds[i := x])" using new x by (fastforce split: if_splits)
  moreover have "D_ret 0 \<notin> set ?ds" using none by force
  moreover have "\<not> pool_close (ps_pool s)"
    using inv none closing_inside by (auto simp: close_inv_def)
  moreover have "D_ret v \<in> set (?ds[i := x]) \<Longrightarrow> D_ret v \<in> set ?ds" for v
    using update_mem [of "D_ret v" ?ds i x] x by (auto split: if_splits)
  ultimately show ?thesis
    using inv one p x by (auto simp: close_inv_def)
qed

lemma close_inv_refused:
  assumes inv: "close_inv s" and i: "i < length (ps_destroyers s)" and d: "ps_destroyers s ! i = D_call"
  shows "close_inv (s\<lparr>ps_destroyers := (ps_destroyers s)[i := D_ret (-1)]\<rparr>)"
proof -
  let ?ds = "ps_destroyers s" and ?ds' = "(ps_destroyers s)[i := D_ret (-1)]"
  have mem: "x \<in> set ?ds' \<longleftrightarrow> x \<in> set ?ds" if "inside x" for x
  proof -
    have "x \<noteq> D_call" "x \<noteq> D_ret (-1)" using that by auto
    then show ?thesis
      using d update_mem [of x ?ds i "D_ret (-1)"] update_keeps [of x ?ds i "D_ret (-1)"] by auto
  qed
  then have "(\<exists>x \<in> set ?ds'. closing x) \<longleftrightarrow> (\<exists>x \<in> set ?ds. closing x)"
    using closing_inside by blast
  moreover have "D_ret v \<in> set ?ds' \<Longrightarrow> v = -1 \<or> D_ret v \<in> set ?ds" for v
    using mem [of "D_ret v"] by (auto simp: ret_inside)
  then have "\<forall>v. D_ret v \<in> set ?ds' \<longrightarrow> v = 0 \<or> v = -1"
    using inv unfolding close_inv_def by blast
  moreover have "length (filter inside ?ds') = length (filter inside ?ds)"
    using filter_update [OF i, of inside "D_ret (-1)"] d by simp
  ultimately show ?thesis
    using inv mem [of "D_ret 0"] by (simp add: close_inv_def)
qed

lemma close_inv_step:
  assumes "pool_step s s'" and "close_inv s" and "jobs_inv s"
  shows "close_inv s'"
  using assms(1)
proof (cases rule: pool_step.cases)
  case (worker_wait i p e f)
  then show ?thesis using assms(2) by (auto simp: close_inv_def dest: update_mem)
next
  case (worker_exit i p e f)
  then show ?thesis
    using assms(2) threadpool_function_cases [OF worker_exit(5)] by (auto simp: close_inv_def)
next
  case (worker_take i j p e f)
  have "\<not> pool_close (ps_pool s)" "pool_close p = pool_close (ps_pool s)"
      "queue_close p = queue_close (ps_pool s)"
    using threadpool_function_cases [OF worker_take(5)] by auto
  note p = this
  have ds: "length (filter inside (if e then signal_destroyers ds else ds)) = length (filter inside ds)"
    "(\<exists>d \<in> set (if e then signal_destroyers ds else ds). closing d) = (\<exists>d \<in> set ds. closing d)"
    "D_ret v \<in> set (if e then signal_destroyers ds else ds) \<longleftrightarrow> D_ret v \<in> set ds" for ds v
    using signal_destroyers_mem [of _ ds] by (auto simp: closing_def)
  have "W_exit \<notin> set ((ps_workers s)[i := W_run j])"
    using update_mem [of W_exit "ps_workers s" i "W_run j"] assms(2) p(1) by (auto simp: close_inv_def)
  then show ?thesis
    using assms(2) worker_take(2) p unfolding worker_take(1)
    by (simp add: close_inv_def ds)
next
  case (worker_done i j)
  then have "\<not> ps_freed s" using assms(2) nth_mem [of i "ps_workers s"] by (auto simp: close_inv_def)
  then show ?thesis
    using assms(2) worker_done(1) by (auto simp: close_inv_def dest: update_mem)
next
  case (worker_spurious i)
  then have "\<not> ps_freed s" using assms(2) nth_mem [of i "ps_workers s"] by (auto simp: close_inv_def)
  then show ?thesis
    using assms(2) worker_spurious(1) by (auto simp: close_inv_def dest: update_mem)
next
  case (adder_wait i j mem p e)
  then show ?thesis using assms(2) by (simp add: close_inv_def)
next
  case (adder_return i j mem r p e)
  then have "pool_close p = pool_close (ps_pool s)" "queue_close p = queue_close (ps_pool s)"
    "pool_close (ps_pool s) \<Longrightarrow> jobs p = jobs (ps_pool s)"
    by (auto simp: threadpool_add_job_def pool_closed_def split: if_splits)
  then show ?thesis using assms(2) adder_return(1,2) by (auto simp: close_inv_def)
next
  case (adder_spurious i j)
  then show ?thesis using assms(2) by (simp add: close_inv_def)
next
  case (destroy_enter i r p)
  show ?thesis
  proof (cases "pool_closed (ps_pool s)")
    case True
    then have "r = Return (-1)" "p = ps_pool s"
      using destroy_enter(5) by (simp_all add: threadpool_destroy_def)
    then show ?thesis
      using destroy_enter(1) close_inv_refused [OF assms(2) destroy_enter(3,4)] by simp
  next
    case False
    then show ?thesis
      using destroy_enter close_inv_enter [OF assms(2) destroy_enter(3,4) _ assms(3), of _ p] assms(3)
      by (auto simp: threadpool_destroy_def destroy_loop_def pool_closed_def jobs_inv_def split: if_splits)
  qed
next
  case (destroy_again i r p)
  have inside: "inside (ps_destroyers s ! i)" and old: "ps_destroyers s ! i \<noteq> D_ret 0"
    using destroy_again(4) by simp_all
  have q: "queue_close (ps_pool s)"
    using destroyer_moves(1) [OF _ destroy_again(3) inside, of "queue_close (ps_pool s)" D_wait]
      assms(2) by (simp add: close_inv_def)
  have pc: "\<not> pool_close (ps_pool s)"
    using close_inv_open [OF assms(2) destroy_again(3) inside] destroy_again(4) by simp
  have we: "W_exit \<notin> set (ps_workers s)" using assms(2) pc by (simp add: close_inv_def)
  let ?x = "case r of Wait \<Rightarrow> D_wait | Return v \<Rightarrow> D_cast1"
  have "queue_close p" "pool_close p \<longleftrightarrow> closing ?x" "pool_close p \<longrightarrow> jobs p = []" "inside ?x"
    "\<And>v. ?x \<noteq> D_ret v"
    using destroy_again(5) q pc assms(3) by (auto simp: destroy_loop_def jobs_inv_def split: if_splits)
  from close_inv_moves [OF assms(2) destroy_again(3) inside this(4,5) this(1-3) _ old,
      of "ps_workers s" "ps_adders s"] we
  show ?thesis unfolding destroy_again(1) by simp
next
  case (destroy_spurious i)
  have inside: "inside (ps_destroyers s ! i)" and old: "ps_destroyers s ! i \<noteq> D_ret 0"
    using destroy_spurious(3) by simp_all
  have q: "queue_close (ps_pool s)"
    using destroyer_moves(1) [OF _ destroy_spurious(2) inside, of "queue_close (ps_pool s)" D_wait]
      assms(2) by (simp add: close_inv_def)
  have pc: "\<not> pool_close (ps_pool s)"
    using close_inv_open [OF assms(2) destroy_spurious(2) inside] destroy_spurious(3) by simp
  have "W_exit \<notin> set (ps_workers s)" using assms(2) pc by (simp add: close_inv_def)
  with close_inv_moves [OF assms(2) destroy_spurious(2) inside _ _ q _ _ _ old,
      of D_woken "ps_workers s" "ps_adders s"] pc
  show ?thesis unfolding destroy_spurious(1) by simp
next
  case (destroy_cast1 i)
  have inside: "inside (ps_destroyers s ! i)" and old: "ps_destroyers s ! i \<noteq> D_ret 0"
    using destroy_cast1(3) by simp_all
  have q: "queue_close (ps_pool s)"
    using destroyer_moves(1) [OF _ destroy_cast1(2) inside, of "queue_close (ps_pool s)" D_wait]
      assms(2) by (simp add: close_inv_def)
  have pc: "pool_close (ps_pool s)" "jobs (ps_pool s) = []"
    using close_inv_closing [OF assms(2) destroy_cast1(2)] destroy_cast1(3) by simp_all
  with close_inv_moves [OF assms(2) destroy_cast1(2) inside _ _ q _ _ _ old,
      of D_cast2 "map wake_worker (ps_workers s)" "ps_adders s"]
  show ?thesis unfolding destroy_cast1(1) by simp
next
  case (destroy_cast2 i)
  have inside: "inside (ps_destroyers s ! i)" and old: "ps_destroyers s ! i \<noteq> D_ret 0"
    using destroy_cast2(3) by simp_all
  have q: "queue_close (ps_pool s)"
    using destroyer_moves(1) [OF _ destroy_cast2(2) inside, of "queue_close (ps_pool s)" D_wait]
      assms(2) by (simp add: close_inv_def)
  have pc: "pool_close (ps_pool s)" "jobs (ps_pool s) = []"
    using close_inv_closing [OF assms(2) destroy_cast2(2)] destroy_cast2(3) by simp_all
  with close_inv_moves [OF assms(2) destroy_cast2(2) inside _ _ q _ _ _ old,
      of D_join "ps_workers s" "map wake_adder (ps_adders s)"]
  show ?thesis unfolding destroy_cast2(1) by simp
next
  case (destroy_join i)
  have c: "length (filter inside (ps_destroyers s)) = (if queue_close (ps_pool s) then 1 else 0)"
    using assms(2) by (simp add: close_inv_def)
  have inside: "inside (ps_destroyers s ! i)" using destroy_join(3) by simp
  note m = destroyer_moves [OF c destroy_join(2) inside inside_simps(7)]
  have pc: "pool_close (ps_pool s)" "jobs (ps_pool s) = []"
    using close_inv_closing [OF assms(2) destroy_join(2)] destroy_join(3) by simp_all
  have "\<forall>v. D_ret v \<in> set ((ps_destroyers s)[i := D_ret 0]) \<longrightarrow> v = 0 \<or> v = -1"
    using m(3) by (auto simp: ret_inside)
  moreover have "\<exists>d \<in> set ((ps_destroyers s)[i := D_ret 0]). closing d"
    using m(4) by (rule bexI [rotated]) simp
  ultimately show ?thesis
    using m(1,2,4) pc destroy_join(4) unfolding destroy_join(1) by (simp add: close_inv_def)
qed

text \<open>The four parts of the invariant, as they are used.\<close>

lemma wait_invD:
  assumes "wait_inv s"
  shows "W_wait \<in> set (ps_workers s) \<Longrightarrow> jobs (ps_pool s) = []"
    and "A_wait j \<in> set (ps_adders s) \<Longrightarrow> queue_cur_num (ps_pool s) = queue_max_num (ps_pool s)"
    and "D_wait \<in> set (ps_destroyers s) \<Longrightarrow> jobs (ps_pool s) \<noteq> []"
    and "W_wait \<in> set (ps_workers s) \<Longrightarrow> d \<in> set (ps_destroyers s) \<Longrightarrow>
      d \<noteq> D_cast2 \<and> d \<noteq> D_join \<and> d \<noteq> D_ret 0"
  using assms by (auto simp: wait_inv_def)

lemma wait_inv_workers:
  assumes "wait_inv s" and "W_wait \<in> set ws \<Longrightarrow> W_wait \<in> set (ps_workers s)"
  shows "wait_inv (s\<lparr>ps_workers := ws, ps_done := dn\<rparr>)"
  using assms by (auto simp: wait_inv_def)

lemma wait_inv_take:
  assumes inv: "wait_inv s" "jobs_inv s" "close_inv s" and i: "i < length (ps_workers s)"
    and f: "threadpool_function (ps_pool s) = Some (Return (Some j), p, e, f)"
  shows "wait_inv (s\<lparr>ps_pool := p, ps_workers := (ps_workers s)[i := W_run j],
    ps_destroyers := (if e then signal_destroyers (ps_destroyers s) else ps_destroyers s),
    ps_adders := (if f then map wake_adder (ps_adders s) else ps_adders s),
    ps_taken := ps_taken s @ [j]\<rparr>)"
proof -
  obtain rest where r: "jobs (ps_pool s) = j # rest" and p: "p = (ps_pool s)\<lparr>queue_cur_num := queue_cur_num (ps_pool s) - 1,
      jobs := (if queue_cur_num (ps_pool s) - 1 = 0 then [] else rest)\<rparr>"
    and e: "e = (queue_cur_num (ps_pool s) = 1)"
    and f: "f = (queue_cur_num (ps_pool s) = queue_max_num (ps_pool s))"
    using threadpool_function_cases [OF f] by blast
  have cur: "queue_cur_num (ps_pool s) = 1 + int (length rest)" using inv(2) r by (simp add: jobs_inv_def)
  have "W_wait \<notin> set (ps_workers s)" using wait_invD(1) [OF inv(1)] r by auto
  then have "W_wait \<notin> set ((ps_workers s)[i := W_run j])" using update_mem by fastforce
  moreover have "A_wait k \<notin> set (if f then map wake_adder (ps_adders s) else ps_adders s)" for k
    using wait_invD(2) [OF inv(1), of k] f by auto
  moreover have "length (filter inside (ps_destroyers s)) \<le> 1" using inv(3) by (auto simp: close_inv_def)
  then have "e \<Longrightarrow> D_wait \<notin> set (signal_destroyers (ps_destroyers s))" by (rule signal_destroyers_one)
  moreover have "\<not> e \<Longrightarrow> jobs p \<noteq> []" using p e cur by auto
  ultimately show ?thesis by (auto simp: wait_inv_def)
qed

lemma wait_inv_destroyer:
  assumes inv: "wait_inv s" "close_inv s" and i: "i < length (ps_destroyers s)"
    and d: "inside (ps_destroyers s ! i)" "inside x"
    and p: "x = D_wait \<Longrightarrow> jobs p \<noteq> []" "queue_cur_num p = queue_cur_num (ps_pool s)"
      "queue_max_num p = queue_max_num (ps_pool s)" "jobs p = jobs (ps_pool s)"
    and ws: "W_wait \<in> set ws \<Longrightarrow> W_wait \<in> set (ps_workers s) \<and> x \<noteq> D_cast2 \<and> x \<noteq> D_join \<and> x \<noteq> D_ret 0"
    and as: "\<And>k. A_wait k \<in> set as \<Longrightarrow> A_wait k \<in> set (ps_adders s)"
  shows "wait_inv (s\<lparr>ps_pool := p, ps_workers := ws, ps_adders := as,
    ps_destroyers := (ps_destroyers s)[i := x], ps_freed := fr\<rparr>)"
proof -
  have c: "length (filter inside (ps_destroyers s)) = (if queue_close (ps_pool s) then 1 else 0)"
    using inv(2) by (simp add: close_inv_def)
  note m = destroyer_moves(3) [OF c i d]
  have "D_wait \<in> set ((ps_destroyers s)[i := x]) \<Longrightarrow> jobs p \<noteq> []"
    using m p(1) inside_simps(2) by metis
  moreover have "W_wait \<in> set ws \<Longrightarrow> y \<in> set ((ps_destroyers s)[i := x]) \<Longrightarrow>
      y \<noteq> D_cast2 \<and> y \<noteq> D_join \<and> y \<noteq> D_ret 0" for y
    using m ws by (metis inside_simps(5-7))
  ultimately show ?thesis
    using wait_invD(1,2) [OF inv(1)] p(2-4) ws as by (simp add: wait_inv_def) blast
qed

lemma wait_inv_enter:
  assumes inv: "wait_inv s" "close_inv s" "jobs_inv s" and i: "i < length (ps_destroyers s)"
    and d: "ps_destroyers s ! i = D_call" and r: "threadpool_destroy (ps_pool s) = (r, p)"
  shows "wait_inv (s\<lparr>ps_pool := p, ps_destroyers := (ps_destroyers s)[i :=
     (case r of Wait \<Rightarrow> D_wait | Return v \<Rightarrow> if v = 0 then D_cast1 else D_ret v)]\<rparr>)"
proof (cases "pool_closed (ps_pool s)")
  case True
  then have "r = Return (-1)" "p = ps_pool s" using r by (simp_all add: threadpool_destroy_def)
  then show ?thesis
    using inv(1) update_mem [of _ "ps_destroyers s" i "D_ret (-1)"] by (fastforce simp: wait_inv_def)
next
  case False
  then have none: "\<forall>d \<in> set (ps_destroyers s). \<not> inside d"
    using inv(2) by (simp add: close_inv_def pool_closed_def filter_empty_conv)
  let ?x = "case r of Wait \<Rightarrow> D_wait | Return v \<Rightarrow> if v = 0 then D_cast1 else D_ret v"
  have x: "?x = D_wait \<Longrightarrow> jobs p \<noteq> []" "?x = D_wait \<or> ?x = D_cast1" and
    p: "queue_cur_num p = queue_cur_num (ps_pool s)"
      "queue_max_num p = queue_max_num (ps_pool s)" "jobs p = jobs (ps_pool s)"
    using r False inv(3) by (auto simp: threadpool_destroy_def destroy_loop_def jobs_inv_def split: if_splits)
  have m: "y \<in> set ((ps_destroyers s)[i := ?x]) \<Longrightarrow> y = ?x \<or> \<not> inside y" for y
    using update_mem none by fast
  have "D_wait \<in> set ((ps_destroyers s)[i := ?x]) \<Longrightarrow> jobs p \<noteq> []"
    using m [of D_wait] x(1) by simp
  moreover have "y \<in> set ((ps_destroyers s)[i := ?x]) \<Longrightarrow> y \<noteq> D_cast2 \<and> y \<noteq> D_join \<and> y \<noteq> D_ret 0" for y
    using m [of y] x(2) by auto
  ultimately show ?thesis
    using wait_invD(1,2) [OF inv(1)] p by (simp add: wait_inv_def)
qed

lemma wait_inv_step:
  assumes "pool_step s s'" and "wait_inv s" and "close_inv s" and "jobs_inv s"
  shows "wait_inv s'"
  using assms(1)
proof (cases rule: pool_step.cases)
  case (worker_wait i p e f)
  then have "jobs (ps_pool s) = []" "\<not> pool_close (ps_pool s)"
    using threadpool_function_cases [OF worker_wait(5)] assms(4) by (auto simp: jobs_inv_def)
  then show ?thesis
    using assms(2,3) worker_wait(1) by (auto simp: wait_inv_def close_inv_def)
next
  case (worker_exit i p e f)
  then show ?thesis
    using wait_inv_workers [OF assms(2), of "(ps_workers s)[i := W_exit]" "ps_done s"]
      update_mem [of W_wait "ps_workers s" i W_exit] by simp
next
  case (worker_take i j p e f)
  show ?thesis unfolding worker_take(1)
    by (rule wait_inv_take [OF assms(2,4,3) worker_take(3,5)])
next
  case (worker_done i j)
  then show ?thesis
    using wait_inv_workers [OF assms(2), of "(ps_workers s)[i := W_ready]" "ps_done s @ [j]"]
      update_mem [of W_wait "ps_workers s" i W_ready] by simp
next
  case (worker_spurious i)
  then show ?thesis
    using wait_inv_workers [OF assms(2), of "(ps_workers s)[i := W_ready]" "ps_done s"]
      update_mem [of W_wait "ps_workers s" i W_ready] by simp
next
  case (adder_wait i j mem p e)
  then have "queue_cur_num (ps_pool s) = queue_max_num (ps_pool s)"
    by (auto simp: threadpool_add_job_def split: if_splits)
  then show ?thesis using assms(2) adder_wait(1) by (simp add: wait_inv_def)
next
  case (adder_return i j mem r p e)
  have as: "A_wait k \<in> set ((ps_adders s)[i := A_ret j r]) \<Longrightarrow> A_wait k \<in> set (ps_adders s)" for k
    using update_mem [of "A_wait k"] by fastforce
  show ?thesis
  proof (cases "r = 0")
    case False
    then have "p = ps_pool s" "\<not> e"
      using adder_return(5) by (auto simp: threadpool_add_job_def split: if_splits)
    then show ?thesis using assms(2) as False adder_return(1) by (auto simp: wait_inv_def)
  next
    case True
    then have room: "queue_cur_num (ps_pool s) \<noteq> queue_max_num (ps_pool s)"
      and p: "jobs p = jobs (ps_pool s) @ [j]" "e = (jobs (ps_pool s) = [])"
      using adder_return(5) by (auto simp: threadpool_add_job_def split: if_splits)
    have "W_wait \<notin> set (if e then map wake_worker (ps_workers s) else ps_workers s)"
      using wait_invD(1) [OF assms(2)] p(2) by auto
    moreover have "A_wait k \<notin> set ((ps_adders s)[i := A_ret j r])" for k
      using as wait_invD(2) [OF assms(2)] room by blast
    ultimately show ?thesis using p(1) adder_return(1) by (simp add: wait_inv_def)
  qed
next
  case (adder_spurious i j)
  have "A_wait k \<in> set ((ps_adders s)[i := A_call j]) \<Longrightarrow> A_wait k \<in> set (ps_adders s)" for k
    using update_mem [of "A_wait k"] by fastforce
  then show ?thesis using assms(2) adder_spurious(1) by (auto simp: wait_inv_def)
next
  case (destroy_enter i r p)
  show ?thesis unfolding destroy_enter(1)
    by (rule wait_inv_enter [OF assms(2,3,4) destroy_enter(3-5)])
next
  case (destroy_again i r p)
  let ?x = "case r of Wait \<Rightarrow> D_wait | Return v \<Rightarrow> D_cast1"
  have "?x = D_wait \<Longrightarrow> jobs p \<noteq> []" "queue_cur_num p = queue_cur_num (ps_pool s)"
      "queue_max_num p = queue_max_num (ps_pool s)" "jobs p = jobs (ps_pool s)"
    "?x \<noteq> D_cast2 \<and> ?x \<noteq> D_join \<and> ?x \<noteq> D_ret 0" "inside ?x"
    using destroy_again(5) assms(4) by (auto simp: destroy_loop_def jobs_inv_def split: if_splits)
  with wait_inv_destroyer [OF assms(2,3) destroy_again(3) _ this(6) this(1-4),
      of "ps_workers s" "ps_adders s" "ps_freed s"] destroy_again(1,4)
  show ?thesis by simp
next
  case (destroy_spurious i)
  with wait_inv_destroyer [OF assms(2,3) destroy_spurious(2), of D_woken "ps_pool s" "ps_workers s"
      "ps_adders s" "ps_freed s"]
  show ?thesis by simp
next
  case (destroy_cast1 i)
  with wait_inv_destroyer [OF assms(2,3) destroy_cast1(2), of D_cast2 "ps_pool s"
      "map wake_worker (ps_workers s)" "ps_adders s" "ps_freed s"]
  show ?thesis by simp
next
  case (destroy_cast2 i)
  have "W_wait \<notin> set (ps_workers s)"
    using wait_invD(4) [OF assms(2)] nth_mem [OF destroy_cast2(2)] destroy_cast2(3) by metis
  with wait_inv_destroyer [OF assms(2,3) destroy_cast2(2), of D_join "ps_pool s"
      "ps_workers s" "map wake_adder (ps_adders s)" "ps_freed s"] destroy_cast2(1,3)
  show ?thesis by simp
next
  case (destroy_join i)
  have "W_wait \<notin> set (ps_workers s)" using destroy_join(4) by auto
  with wait_inv_destroyer [OF assms(2,3) destroy_join(2), of "D_ret 0" "ps_pool s"
      "ps_workers s" "ps_adders s" True] destroy_join(1,3)
  show ?thesis by (simp add: wait_inv_def)
qed

lemma pool_step_workers: "pool_step s s' \<Longrightarrow> length (ps_workers s') = length (ps_workers s)"
  by (cases rule: pool_step.cases) auto

interpretation tp: inv_system pool_start pool_step pool_inv
proof
  show "pool_inv s" if "pool_start s" for s :: "'j psys" using that by (rule pool_start_inv)
  show "pool_inv s'" if "pool_inv s" "pool_step s s'" for s s' :: "'j psys"
    using that jobs_inv_step close_inv_step wait_inv_step pool_step_workers [OF that(2)]
    unfolding pool_inv_def by (metis length_0_conv)
qed

section \<open>Progress\<close>

lemma worker_ready_steps:
  assumes "jobs_inv s" and "\<not> ps_freed s" and "W_ready \<in> set (ps_workers s)"
  shows "\<exists>s'. pool_step s s'"
proof -
  obtain i where i: "i < length (ps_workers s)" "ps_workers s ! i = W_ready"
    using assms(3) by (auto simp: in_set_conv_nth)
  show ?thesis
  proof (cases "threadpool_function (ps_pool s)")
    case None
    then show ?thesis
      using assms(1) by (auto simp: threadpool_function_def jobs_inv_def Let_def split: if_splits list.splits)
  next
    case (Some x)
    then obtain r p e f where eq: "threadpool_function (ps_pool s) = Some (r, p, e, f)"
      by (cases x) auto
    consider "r = Wait" | "r = Return None" | j where "r = Return (Some j)"
      by (metis critical.exhaust option.exhaust)
    then show ?thesis
    proof cases
      case 1
      show ?thesis by (rule exI, rule pool_step.worker_wait [OF assms(2) i eq [unfolded 1]])
    next
      case 2
      show ?thesis by (rule exI, rule pool_step.worker_exit [OF assms(2) i eq [unfolded 2]])
    next
      case (3 j)
      show ?thesis by (rule exI, rule pool_step.worker_take [OF assms(2) i eq [unfolded 3]])
    qed
  qed
qed

lemma adder_call_steps:
  assumes "\<not> ps_freed s" and "A_call j \<in> set (ps_adders s)"
  shows "\<exists>s'. pool_step s s'"
proof -
  obtain i where i: "i < length (ps_adders s)" "ps_adders s ! i = A_call j"
    using assms(2) by (auto simp: in_set_conv_nth)
  obtain r p e where eq: "threadpool_add_job True j (ps_pool s) = (r, p, e)" by (metis prod_cases3)
  show ?thesis
  proof (cases r)
    case Wait
    show ?thesis by (rule exI, rule pool_step.adder_wait [OF assms(1) i eq [unfolded Wait]])
  next
    case (Return v)
    show ?thesis by (rule exI, rule pool_step.adder_return [OF assms(1) i eq [unfolded Return]])
  qed
qed

lemma destroyer_steps:
  assumes "\<not> ps_freed s" and "d \<in> set (ps_destroyers s)"
    and "d \<in> {D_call, D_woken, D_cast1, D_cast2} \<or> d = D_join \<and> (\<forall>w \<in> set (ps_workers s). w = W_exit)"
  shows "\<exists>s'. pool_step s s'"
proof -
  obtain i where i: "i < length (ps_destroyers s)" "ps_destroyers s ! i = d"
    using assms(2) by (auto simp: in_set_conv_nth)
  obtain r p where "threadpool_destroy (ps_pool s) = (r, p)" by fastforce
  moreover obtain r' p' where "destroy_loop (ps_pool s) = (r', p')" by fastforce
  ultimately show ?thesis
    using assms(1,3) i pool_step.destroy_enter [OF assms(1) i(1)] pool_step.destroy_again [OF assms(1) i(1)]
      pool_step.destroy_cast1 [OF i(1)] pool_step.destroy_cast2 [OF i(1)] pool_step.destroy_join [OF i(1)]
    by auto
qed

text \<open>A thread that has nothing left to do, or is a worker without work.\<close>

definition settled :: "'j psys \<Rightarrow> bool" where
  "settled s \<longleftrightarrow> (\<forall>w \<in> set (ps_workers s). w = W_wait \<or> w = W_exit) \<and>
     (\<forall>a \<in> set (ps_adders s). \<exists>j r. a = A_ret j r) \<and>
     (\<forall>d \<in> set (ps_destroyers s). \<exists>r. d = D_ret r)"

text \<open>The same question without the steps that end a wait without a signal.\<close>

definition stuck :: "'j psys \<Rightarrow> bool" where
  "stuck s \<longleftrightarrow> W_ready \<notin> set (ps_workers s) \<and> (\<forall>j. W_run j \<notin> set (ps_workers s)) \<and>
     (\<forall>j. A_call j \<notin> set (ps_adders s)) \<and>
     (\<forall>d \<in> set (ps_destroyers s). d \<notin> {D_call, D_woken, D_cast1, D_cast2}) \<and>
     (D_join \<in> set (ps_destroyers s) \<longrightarrow> (\<exists>w \<in> set (ps_workers s). w \<noteq> W_exit))"

lemma not_stuck_steps:
  assumes "pool_inv s" and "\<not> ps_freed s" and "\<not> stuck s"
  shows "\<exists>s'. pool_step s s'"
proof -
  have run: "\<exists>s'. pool_step s s'" if w: "W_run j \<in> set (ps_workers s)" for j
  proof -
    obtain i where i: "i < length (ps_workers s)" "ps_workers s ! i = W_run j"
      using w by (auto simp: in_set_conv_nth)
    show ?thesis by (rule exI, rule pool_step.worker_done [OF i])
  qed
  have ji: "jobs_inv s" using assms(1) by (simp add: pool_inv_def)
  consider "W_ready \<in> set (ps_workers s)" | j where "W_run j \<in> set (ps_workers s)"
    | j where "A_call j \<in> set (ps_adders s)"
    | d where "d \<in> set (ps_destroyers s)" "d \<in> {D_call, D_woken, D_cast1, D_cast2} \<or>
        d = D_join \<and> (\<forall>w \<in> set (ps_workers s). w = W_exit)"
    using assms(3) unfolding stuck_def by blast
  then show ?thesis
  proof cases
    case 1
    show ?thesis by (rule worker_ready_steps [OF ji assms(2) 1])
  next
    case (2 j)
    then show ?thesis by (rule run)
  next
    case (3 j)
    show ?thesis by (rule adder_call_steps [OF assms(2) 3])
  next
    case (4 d)
    show ?thesis by (rule destroyer_steps [OF assms(2) 4])
  qed
qed

lemma stuck_settled:
  assumes inv: "pool_inv s" and "stuck s"
  shows "settled s"
proof -
  have ws: "w = W_wait \<or> w = W_exit" if "w \<in> set (ps_workers s)" for w
    using assms(2) that by (cases w) (auto simp: stuck_def)
  have ji: "jobs_inv s" and ci: "close_inv s" and wi: "wait_inv s" using inv by (auto simp: pool_inv_def)
  have empty: "jobs (ps_pool s) = []"
  proof (rule ccontr)
    assume "jobs (ps_pool s) \<noteq> []"
    then have "W_wait \<notin> set (ps_workers s)" using wait_invD(1) [OF wi] by blast
    then have "W_exit \<in> set (ps_workers s)"
      using ws inv by (cases "ps_workers s") (auto simp: pool_inv_def)
    then show False using ci \<open>jobs (ps_pool s) \<noteq> []\<close> by (auto simp: close_inv_def)
  qed
  then have "D_wait \<notin> set (ps_destroyers s)" "\<And>j. A_wait j \<notin> set (ps_adders s)"
    using wait_invD(2,3) [OF wi] ji by (auto simp: jobs_inv_def)
  moreover have "D_join \<notin> set (ps_destroyers s)"
    using assms(2) wait_invD(4) [OF wi, of D_join] ws by (auto simp: stuck_def)
  ultimately have "\<exists>r. d = D_ret r" if "d \<in> set (ps_destroyers s)" for d
    using assms(2) that by (cases d) (auto simp: stuck_def)
  moreover have "\<exists>j r. a = A_ret j r" if "a \<in> set (ps_adders s)" for a
    using assms(2) that \<open>\<And>j. A_wait j \<notin> set (ps_adders s)\<close> by (cases a) (auto simp: stuck_def)
  ultimately show ?thesis using ws by (auto simp: settled_def)
qed

section \<open>Properties\<close>

text \<open>
  C20: no job is lost, run twice or overtaken. In every reachable state of any number of workers
  and callers the counter is the length of the queue and at most its limit, the jobs accepted are
  those taken, in the same order, followed by those queued, and each job taken is being run by
  one worker or has been run.
\<close>

theorem pool_keeps_jobs:
  assumes "reach pool_start pool_step s"
  shows "queue_cur_num (ps_pool s) = int (length (jobs (ps_pool s))) \<and>
    queue_cur_num (ps_pool s) \<le> queue_max_num (ps_pool s) \<and>
    ps_accepted s = ps_taken s @ jobs (ps_pool s) \<and>
    mset (ps_taken s) = mset (running (ps_workers s)) + mset (ps_done s)"
  using tp.reach_inv [OF assms] by (simp add: pool_inv_def jobs_inv_def)

definition demo_pool :: "nat psys" where
  "demo_pool = \<lparr>ps_pool = fst (threadpool_init 1 1), ps_workers = snd (threadpool_init 1 1),
     ps_adders = [A_call 1, A_call 2], ps_destroyers = [D_call], ps_freed = False,
     ps_accepted = [], ps_taken = [], ps_done = []\<rparr>"

lemma demo_pool_start: "pool_start demo_pool"
  unfolding pool_start_def
proof (intro exI conjI)
  show "demo_pool = \<lparr>ps_pool = fst (threadpool_init 1 1), ps_workers = snd (threadpool_init 1 1),
     ps_adders = map A_call [1, 2], ps_destroyers = replicate 1 D_call, ps_freed = False,
     ps_accepted = [], ps_taken = [], ps_done = []\<rparr>" by (simp add: demo_pool_def)
qed simp_all

lemma demo_pool_reach: "reach pool_start pool_step demo_pool"
  by (rule reach_start [where start = pool_start, OF demo_pool_start])

lemma pool_keeps_jobs_witness: "ps_accepted demo_pool = ps_taken demo_pool @ jobs (ps_pool demo_pool)"
  using pool_keeps_jobs [OF demo_pool_reach] by simp

text \<open>
  C21: no wake-up is lost. A reachable state in which no thread can go on except by a wait that
  ends without a signal is one in which every call of \<^verbatim>\<open>threadpool_add_job\<close> and of
  \<^verbatim>\<open>threadpool_destroy\<close> has returned and the workers wait for work or have left; in every other
  state that is not freed some step is possible.
\<close>

theorem pool_no_deadlock:
  assumes "reach pool_start pool_step s"
  shows "(stuck s \<longrightarrow> settled s) \<and> (\<not> stuck s \<and> \<not> ps_freed s \<longrightarrow> (\<exists>s'. pool_step s s'))"
  using tp.reach_inv [OF assms] stuck_settled not_stuck_steps by blast

lemma demo_pool_not_stuck: "\<not> stuck demo_pool \<and> \<not> ps_freed demo_pool"
  by (simp add: demo_pool_def stuck_def threadpool_init_def)

lemma pool_no_deadlock_witness: "\<exists>s'. pool_step demo_pool s'"
  using pool_no_deadlock [OF demo_pool_reach] demo_pool_not_stuck by blast

text \<open>
  C22: destroying the pool finishes its work. When \<^verbatim>\<open>threadpool_destroy\<close> has returned 0, every
  job that was ever accepted has been run, exactly once, and every worker has left.
\<close>

theorem pool_destroy_drains:
  assumes "reach pool_start pool_step s" and "D_ret 0 \<in> set (ps_destroyers s)"
  shows "jobs (ps_pool s) = [] \<and> mset (ps_done s) = mset (ps_accepted s) \<and>
    (\<forall>w \<in> set (ps_workers s). w = W_exit)"
proof -
  have inv: "jobs_inv s" "close_inv s" using tp.reach_inv [OF assms(1)] by (auto simp: pool_inv_def)
  have fr: "ps_freed s" using inv(2) assms(2) by (simp add: close_inv_def)
  then have ws: "\<forall>w \<in> set (ps_workers s). w = W_exit" using inv(2) by (simp add: close_inv_def)
  then have "running (ps_workers s) = []" by (auto simp: running_def)
  moreover have "pool_close (ps_pool s)"
    using inv(2) assms(2) unfolding close_inv_def by (metis closing_simps(7))
  ultimately show ?thesis using inv ws by (simp add: jobs_inv_def close_inv_def)
qed

text \<open>One run of the demonstration pool: the second caller finds the queue full when the pool closes.\<close>

abbreviation st :: "nat list \<Rightarrow> bool \<Rightarrow> bool \<Rightarrow> nat worker list \<Rightarrow> nat adder \<Rightarrow> nat adder \<Rightarrow> destroyer \<Rightarrow>
    bool \<Rightarrow> nat list \<Rightarrow> nat list \<Rightarrow> nat list \<Rightarrow> nat psys" where
  "st q qc pc ws a a' d fr acc tk dn \<equiv>
     \<lparr>ps_pool = \<lparr>queue_max_num = 1, queue_cur_num = int (length q), jobs = q, queue_close = qc, pool_close = pc\<rparr>,
      ps_workers = ws, ps_adders = [a, a'], ps_destroyers = [d], ps_freed = fr,
      ps_accepted = acc, ps_taken = tk, ps_done = dn\<rparr>"

lemma demo_fills:
  "pool_step\<^sup>*\<^sup>* demo_pool (st [1] True False [W_ready] (A_ret 1 0) (A_wait 2) D_wait False [1] [] [])"
proof -
  have d: "demo_pool = st [] False False [W_ready] (A_call 1) (A_call 2) D_call False [] [] []"
    by (simp add: demo_pool_def threadpool_init_def)
  have "pool_step demo_pool (st [1] False False [W_ready] (A_ret 1 0) (A_call 2) D_call False [1] [] [])"
    using pool_step.adder_return [of demo_pool 0 1 True 0]
    by (simp add: d threadpool_add_job_def pool_closed_def)
  moreover have "pool_step (st [1] False False [W_ready] (A_ret 1 0) (A_call 2) D_call False [1] [] [])
     (st [1] False False [W_ready] (A_ret 1 0) (A_wait 2) D_call False [1] [] [])"
    using pool_step.adder_wait [of "st [1] False False [W_ready] (A_ret 1 0) (A_call 2) D_call False [1] [] []" 1 2 True
      "\<lparr>queue_max_num = 1, queue_cur_num = 1, jobs = [1], queue_close = False, pool_close = False\<rparr>" False]
    by (simp add: threadpool_add_job_def pool_closed_def)
  moreover have "pool_step (st [1] False False [W_ready] (A_ret 1 0) (A_wait 2) D_call False [1] [] [])
     (st [1] True False [W_ready] (A_ret 1 0) (A_wait 2) D_wait False [1] [] [])"
    using pool_step.destroy_enter [of "st [1] False False [W_ready] (A_ret 1 0) (A_wait 2) D_call False [1] [] []" 0]
    by (simp add: threadpool_destroy_def destroy_loop_def pool_closed_def)
  ultimately show ?thesis by (meson converse_rtranclp_into_rtranclp rtranclp.rtrancl_refl)
qed

lemma demo_closes:
  "pool_step\<^sup>*\<^sup>* (st [1] True False [W_ready] (A_ret 1 0) (A_wait 2) D_wait False [1] [] [])
     (st [] True True [W_run 1] (A_ret 1 0) (A_call 2) D_cast1 False [1] [1] [])"
proof -
  have "pool_step (st [1] True False [W_ready] (A_ret 1 0) (A_wait 2) D_wait False [1] [] [])
     (st [] True False [W_run 1] (A_ret 1 0) (A_call 2) D_woken False [1] [1] [])"
    using pool_step.worker_take [of "st [1] True False [W_ready] (A_ret 1 0) (A_wait 2) D_wait False [1] [] []" 0 1]
    by (simp add: threadpool_function_def)
  moreover have "pool_step (st [] True False [W_run 1] (A_ret 1 0) (A_call 2) D_woken False [1] [1] [])
     (st [] True True [W_run 1] (A_ret 1 0) (A_call 2) D_cast1 False [1] [1] [])"
    using pool_step.destroy_again [of "st [] True False [W_run 1] (A_ret 1 0) (A_call 2) D_woken False [1] [1] []" 0]
    by (simp add: destroy_loop_def)
  ultimately show ?thesis by (meson converse_rtranclp_into_rtranclp rtranclp.rtrancl_refl)
qed

lemma demo_joins:
  "pool_step\<^sup>*\<^sup>* (st [] True True [W_run 1] (A_ret 1 0) (A_call 2) D_cast1 False [1] [1] [])
     (st [] True True [W_exit] (A_ret 1 0) (A_call 2) (D_ret 0) True [1] [1] [1])"
proof -
  have "pool_step (st [] True True [W_run 1] (A_ret 1 0) (A_call 2) D_cast1 False [1] [1] [])
     (st [] True True [W_run 1] (A_ret 1 0) (A_call 2) D_cast2 False [1] [1] [])"
    using pool_step.destroy_cast1 [of 0 "st [] True True [W_run 1] (A_ret 1 0) (A_call 2) D_cast1 False [1] [1] []"]
    by simp
  moreover have "pool_step (st [] True True [W_run 1] (A_ret 1 0) (A_call 2) D_cast2 False [1] [1] [])
     (st [] True True [W_run 1] (A_ret 1 0) (A_call 2) D_join False [1] [1] [])"
    using pool_step.destroy_cast2 [of 0 "st [] True True [W_run 1] (A_ret 1 0) (A_call 2) D_cast2 False [1] [1] []"]
    by simp
  moreover have "pool_step (st [] True True [W_run 1] (A_ret 1 0) (A_call 2) D_join False [1] [1] [])
     (st [] True True [W_ready] (A_ret 1 0) (A_call 2) D_join False [1] [1] [1])"
    using pool_step.worker_done [of 0 "st [] True True [W_run 1] (A_ret 1 0) (A_call 2) D_join False [1] [1] []" 1]
    by simp
  moreover have "pool_step (st [] True True [W_ready] (A_ret 1 0) (A_call 2) D_join False [1] [1] [1])
     (st [] True True [W_exit] (A_ret 1 0) (A_call 2) D_join False [1] [1] [1])"
    using pool_step.worker_exit [of "st [] True True [W_ready] (A_ret 1 0) (A_call 2) D_join False [1] [1] [1]" 0
      "\<lparr>queue_max_num = 1, queue_cur_num = 0, jobs = [], queue_close = True, pool_close = True\<rparr>" False False]
    by (simp add: threadpool_function_def)
  moreover have "pool_step (st [] True True [W_exit] (A_ret 1 0) (A_call 2) D_join False [1] [1] [1])
     (st [] True True [W_exit] (A_ret 1 0) (A_call 2) (D_ret 0) True [1] [1] [1])"
    using pool_step.destroy_join [of 0 "st [] True True [W_exit] (A_ret 1 0) (A_call 2) D_join False [1] [1] [1]"]
    by simp
  ultimately show ?thesis by (meson converse_rtranclp_into_rtranclp rtranclp.rtrancl_refl)
qed

definition demo_end :: "nat psys" where
  "demo_end = st [] True True [W_exit] (A_ret 1 0) (A_call 2) (D_ret 0) True [1] [1] [1]"

lemma demo_end_reach: "reach pool_start pool_step demo_end"
proof -
  have "pool_step\<^sup>*\<^sup>* demo_pool demo_end"
    unfolding demo_end_def
    by (rule rtranclp_trans [OF demo_fills rtranclp_trans [OF demo_closes demo_joins]])
  then show ?thesis using demo_pool_reach by (rule tp.reach_star)
qed

lemma pool_destroy_drains_witness: "mset (ps_done demo_end) = mset (ps_accepted demo_end)"
  using pool_destroy_drains [OF demo_end_reach] by (simp add: demo_end_def)

text \<open>
  C23: \<^verbatim>\<open>threadpool_destroy\<close> frees the pool under a caller of \<^verbatim>\<open>threadpool_add_job\<close>. In a reachable
  state a caller waits in \<^verbatim>\<open>threadpool_add_job\<close> for room in a pool that is not closed; from it the
  destroyer can return 0, the pool freed, while that caller, woken, has still to take the mutex
  of the pool.
\<close>

theorem pool_use_after_free:
  "\<exists>s s'. reach pool_start pool_step s \<and> A_wait (2 :: nat) \<in> set (ps_adders s) \<and>
     \<not> pool_close (ps_pool s) \<and> pool_step\<^sup>*\<^sup>* s s' \<and> ps_freed s' \<and>
     D_ret 0 \<in> set (ps_destroyers s') \<and> A_call 2 \<in> set (ps_adders s')"
proof (intro exI conjI)
  let ?s = "st [1] True False [W_ready] (A_ret 1 0) (A_wait 2) D_wait False [1] [] []"
  show "reach pool_start pool_step ?s" by (rule tp.reach_star [OF demo_fills demo_pool_reach])
  show "pool_step\<^sup>*\<^sup>* ?s demo_end"
    unfolding demo_end_def by (rule rtranclp_trans [OF demo_closes demo_joins])
qed (simp_all add: demo_end_def)

end
