(* ===== verification/MsgQueue.thy ===== *)
theory MsgQueue
  imports Prelude Reach "HOL-Library.Multiset"
begin

text \<open>
  The message queues of the operating system layer, \<^verbatim>\<open>pgos/MsOS_queue.c\<close>: a pool of nodes that
  are linked into a list of free and a list of used ones, and two semaphores that count them. A
  pointer to a node is its index in the pool. The list operations run under the lock of the queue;
  the threads interleave around them, and a semaphore may time out at any time.
\<close>

record msg_node =
  mn_prev :: "nat option"
  mn_next :: "nat option"
  msgRealSize :: nat
  msg :: "u8 list"

record os_queue =
  sendSemaphore :: nat
  recvSemaphore :: nat
  maxNumOfMsgs :: nat
  maxSizeOfMsg :: nat
  pMsgList :: "msg_node list"
  pFreeHead :: "nat option"
  pUsedHead :: "nat option"

section \<open>The two lists\<close>

definition get_node :: "msg_node list \<Rightarrow> nat option \<Rightarrow> msg_node option" where
  "get_node ns p = (case p of None \<Rightarrow> None | Some i \<Rightarrow> if i < length ns then Some (ns ! i) else None)"

definition getNodeByIndex :: "os_queue \<Rightarrow> nat \<Rightarrow> nat option" where
  "getNodeByIndex q i = (if i < maxNumOfMsgs q then Some i else None)"

text \<open>
  Linking a node behind the list that starts at \<open>h\<close>: the first node's \<^verbatim>\<open>prev\<close> is the last node.
\<close>

definition link_tail :: "msg_node list \<Rightarrow> nat option \<Rightarrow> nat \<Rightarrow> (msg_node list \<times> nat option) option" where
  "link_tail ns h n = do {
     nd \<leftarrow> get_node ns (Some n);
     (case h of
        None \<Rightarrow> Some (ns[n := nd\<lparr>mn_prev := Some n, mn_next := None\<rparr>], Some n)
      | Some c \<Rightarrow> do {
          cur \<leftarrow> get_node ns h;
          let ns1 = ns[n := nd\<lparr>mn_prev := mn_prev cur, mn_next := None\<rparr>];
          cur1 \<leftarrow> get_node ns1 h;
          l \<leftarrow> mn_prev cur1;
          nl \<leftarrow> get_node ns1 (Some l);
          let ns2 = ns1[l := nl\<lparr>mn_next := Some n\<rparr>];
          cur2 \<leftarrow> get_node ns2 h;
          Some (ns2[c := cur2\<lparr>mn_prev := Some n\<rparr>], h) }) }"

definition AddToListTail :: "os_queue \<Rightarrow> bool \<Rightarrow> nat \<Rightarrow> os_queue option" where
  "AddToListTail q bFree n =
     (if bFree
      then map_option (\<lambda>(ns, h). q\<lparr>pMsgList := ns, pFreeHead := h\<rparr>) (link_tail (pMsgList q) (pFreeHead q) n)
      else map_option (\<lambda>(ns, h). q\<lparr>pMsgList := ns, pUsedHead := h\<rparr>) (link_tail (pMsgList q) (pUsedHead q) n))"

text \<open>Unlinking the first node; the value is the rest of the list.\<close>

definition unlink_head :: "msg_node list \<Rightarrow> nat \<Rightarrow> (msg_node list \<times> nat option) option" where
  "unlink_head ns c = do {
     cur \<leftarrow> get_node ns (Some c);
     (case mn_next cur of
        None \<Rightarrow> Some (ns, None)
      | Some nx \<Rightarrow> do {
          nn \<leftarrow> get_node ns (Some nx);
          Some (ns[nx := nn\<lparr>mn_prev := mn_prev cur\<rparr>], mn_next cur) }) }"

definition RemoveFromListHead :: "os_queue \<Rightarrow> bool \<Rightarrow> (nat option \<times> os_queue) option" where
  "RemoveFromListHead q bFree =
     (case (if bFree then pFreeHead q else pUsedHead q) of
        None \<Rightarrow> Some (None, q)
      | Some c \<Rightarrow>
          map_option (\<lambda>(ns, h). (Some c, if bFree then q\<lparr>pMsgList := ns, pFreeHead := h\<rparr>
                                              else q\<lparr>pMsgList := ns, pUsedHead := h\<rparr>))
            (unlink_head (pMsgList q) c))"

definition GetFromListHead :: "os_queue \<Rightarrow> nat option" where
  "GetFromListHead q = pUsedHead q"

section \<open>Creation and copies\<close>

text \<open>\<^verbatim>\<open>MsOS_MSG_SIZE\<close> rounds up to words.\<close>

definition MsOS_MSG_SIZE :: "nat \<Rightarrow> nat" where
  "MsOS_MSG_SIZE sz = (sz + 3) div 4 * 4"

definition add_free :: "os_queue option \<Rightarrow> nat \<Rightarrow> os_queue option" where
  "add_free q i = do { q \<leftarrow> q; n \<leftarrow> getNodeByIndex q i; AddToListTail q True n }"

text \<open>
  \<^verbatim>\<open>MsOS_CreateQueue\<close>: \<open>Some None\<close> is its refusal. The first check tests the message size where
  the number of messages is meant; so does the model.
\<close>

definition MsOS_CreateQueue :: "nat \<Rightarrow> nat \<Rightarrow> os_queue option option" where
  "MsOS_CreateQueue u32QueueSize u32MessageSize =
     (if u32QueueSize = 0 \<or> u32MessageSize > 256 then Some None
      else if u32MessageSize = 0 \<or> u32MessageSize > 256 then Some None
      else
        map_option (\<lambda>q. Some (q\<lparr>sendSemaphore := maxNumOfMsgs q, recvSemaphore := 0\<rparr>))
          (foldl add_free
             (Some \<lparr>sendSemaphore = 0, recvSemaphore = 0, maxNumOfMsgs = u32QueueSize,
                maxSizeOfMsg = u32MessageSize,
                pMsgList = replicate u32QueueSize \<lparr>mn_prev = None, mn_next = None, msgRealSize = 0,
                   msg = replicate (MsOS_MSG_SIZE u32MessageSize) 0\<rparr>,
                pFreeHead = None, pUsedHead = None\<rparr>)
             [0..<u32QueueSize]))"

text \<open>The two \<^verbatim>\<open>memcpy\<close>s, of \<^verbatim>\<open>MsOS_SendToQueue\<close> and of \<^verbatim>\<open>MsOS_RecvFromQueue\<close>.\<close>

definition fill_node :: "os_queue \<Rightarrow> nat \<Rightarrow> u8 list \<Rightarrow> os_queue option" where
  "fill_node q n m = do {
     nd \<leftarrow> get_node (pMsgList q) (Some n);
     b \<leftarrow> mem_write 0 m (msg nd);
     Some (q\<lparr>pMsgList := (pMsgList q)[n := nd\<lparr>msg := b, msgRealSize := length m\<rparr>]\<rparr>) }"

definition read_node :: "os_queue \<Rightarrow> nat \<Rightarrow> nat \<Rightarrow> u8 list option" where
  "read_node q n u32IntendedSize = do {
     nd \<leftarrow> get_node (pMsgList q) (Some n);
     (if msgRealSize nd \<le> u32IntendedSize then mem_read 0 (msgRealSize nd) (msg nd)
      else mem_read 0 u32IntendedSize (msg nd)) }"

text \<open>\<^verbatim>\<open>MsOS_PeekFromQueue\<close>, which takes no lock.\<close>

definition MsOS_PeekFromQueue :: "os_queue \<Rightarrow> nat \<Rightarrow> u8 list option option" where
  "MsOS_PeekFromQueue q u32IntendedSize =
     (case GetFromListHead q of
        None \<Rightarrow> Some None
      | Some n \<Rightarrow> map_option Some (read_node q n u32IntendedSize))"

section \<open>The threads\<close>

text \<open>
  A sender: at the call of \<^verbatim>\<open>MsOS_SendToQueue\<close>; with a slot granted by the semaphore; with a node;
  with a node too small for its message; with the node filled; with the node in the used list; or
  back with a result.
\<close>

datatype sender = S_call "u8 list" | S_slot "u8 list" | S_node "u8 list" nat | S_bad nat
  | S_filled "u8 list" nat | S_posted | S_ret bool

text \<open>
  A receiver with the size it intends to read: at the call of \<^verbatim>\<open>MsOS_RecvFromQueue\<close>; with a token
  of the semaphore; with a node (and, as history, the message in it); with the bytes copied; with
  the node given back; or back with a result.
\<close>

datatype receiver = R_call nat | R_token nat | R_node nat nat "u8 list" | R_copied "u8 list" nat
  | R_freed "u8 list" | R_ret "u8 list option"

record qsys =
  qs_q :: os_queue
  qs_senders :: "sender list"
  qs_receivers :: "receiver list"
  qs_sent :: "u8 list list"
  qs_got :: "u8 list list"
  qs_refused :: nat

definition node_message :: "os_queue \<Rightarrow> nat \<Rightarrow> u8 list" where
  "node_message q n = take (msgRealSize (pMsgList q ! n)) (msg (pMsgList q ! n))"

inductive queue_step :: "qsys \<Rightarrow> qsys \<Rightarrow> bool" where
  send_obtain:
    "i < length (qs_senders s) \<Longrightarrow> qs_senders s ! i = S_call m \<Longrightarrow> sendSemaphore (qs_q s) = Suc c \<Longrightarrow>
     queue_step s (s\<lparr>qs_q := (qs_q s)\<lparr>sendSemaphore := c\<rparr>, qs_senders := (qs_senders s)[i := S_slot m]\<rparr>)"
| send_timeout:
    "i < length (qs_senders s) \<Longrightarrow> qs_senders s ! i = S_call m \<Longrightarrow>
     queue_step s (s\<lparr>qs_senders := (qs_senders s)[i := S_ret False]\<rparr>)"
| send_claim:
    "i < length (qs_senders s) \<Longrightarrow> qs_senders s ! i = S_slot m \<Longrightarrow>
     RemoveFromListHead (qs_q s) True = Some (r, q) \<Longrightarrow>
     x = (case r of None \<Rightarrow> S_ret False
          | Some n \<Rightarrow> if length m \<le> maxSizeOfMsg q then S_node m n else S_bad n) \<Longrightarrow>
     queue_step s (s\<lparr>qs_q := q, qs_senders := (qs_senders s)[i := x]\<rparr>)"
| send_copy:
    "i < length (qs_senders s) \<Longrightarrow> qs_senders s ! i = S_node m n \<Longrightarrow> fill_node (qs_q s) n m = Some q \<Longrightarrow>
     queue_step s (s\<lparr>qs_q := q, qs_senders := (qs_senders s)[i := S_filled m n]\<rparr>)"
| send_post:
    "i < length (qs_senders s) \<Longrightarrow> qs_senders s ! i = S_filled m n \<Longrightarrow>
     AddToListTail (qs_q s) False n = Some q \<Longrightarrow>
     queue_step s (s\<lparr>qs_q := q, qs_senders := (qs_senders s)[i := S_posted], qs_sent := qs_sent s @ [m]\<rparr>)"
| send_release:
    "i < length (qs_senders s) \<Longrightarrow> qs_senders s ! i = S_posted \<Longrightarrow>
     queue_step s (s\<lparr>qs_q := (qs_q s)\<lparr>recvSemaphore := Suc (recvSemaphore (qs_q s))\<rparr>,
       qs_senders := (qs_senders s)[i := S_ret True]\<rparr>)"
| send_refuse:
    "i < length (qs_senders s) \<Longrightarrow> qs_senders s ! i = S_bad n \<Longrightarrow>
     AddToListTail (qs_q s) True n = Some q \<Longrightarrow>
     queue_step s (s\<lparr>qs_q := q, qs_senders := (qs_senders s)[i := S_ret False],
       qs_refused := Suc (qs_refused s)\<rparr>)"
| recv_obtain:
    "i < length (qs_receivers s) \<Longrightarrow> qs_receivers s ! i = R_call k \<Longrightarrow> recvSemaphore (qs_q s) = Suc c \<Longrightarrow>
     queue_step s (s\<lparr>qs_q := (qs_q s)\<lparr>recvSemaphore := c\<rparr>, qs_receivers := (qs_receivers s)[i := R_token k]\<rparr>)"
| recv_timeout:
    "i < length (qs_receivers s) \<Longrightarrow> qs_receivers s ! i = R_call k \<Longrightarrow>
     queue_step s (s\<lparr>qs_receivers := (qs_receivers s)[i := R_ret None]\<rparr>)"
| recv_take:
    "i < length (qs_receivers s) \<Longrightarrow> qs_receivers s ! i = R_token k \<Longrightarrow>
     RemoveFromListHead (qs_q s) False = Some (Some n, q) \<Longrightarrow>
     queue_step s (s\<lparr>qs_q := q, qs_receivers := (qs_receivers s)[i := R_node k n (node_message q n)],
       qs_got := qs_got s @ [node_message q n]\<rparr>)"
| recv_none:
    "i < length (qs_receivers s) \<Longrightarrow> qs_receivers s ! i = R_token k \<Longrightarrow>
     RemoveFromListHead (qs_q s) False = Some (None, q) \<Longrightarrow>
     queue_step s (s\<lparr>qs_q := q, qs_receivers := (qs_receivers s)[i := R_ret None]\<rparr>)"
| recv_copy:
    "i < length (qs_receivers s) \<Longrightarrow> qs_receivers s ! i = R_node k n m \<Longrightarrow>
     read_node (qs_q s) n k = Some bs \<Longrightarrow>
     queue_step s (s\<lparr>qs_receivers := (qs_receivers s)[i := R_copied bs n]\<rparr>)"
| recv_free:
    "i < length (qs_receivers s) \<Longrightarrow> qs_receivers s ! i = R_copied bs n \<Longrightarrow>
     AddToListTail (qs_q s) True n = Some q \<Longrightarrow>
     queue_step s (s\<lparr>qs_q := q, qs_receivers := (qs_receivers s)[i := R_freed bs]\<rparr>)"
| recv_release:
    "i < length (qs_receivers s) \<Longrightarrow> qs_receivers s ! i = R_freed bs \<Longrightarrow>
     queue_step s (s\<lparr>qs_q := (qs_q s)\<lparr>sendSemaphore := Suc (sendSemaphore (qs_q s))\<rparr>,
       qs_receivers := (qs_receivers s)[i := R_ret (Some bs)]\<rparr>)"

inductive_cases queue_stepE: "queue_step s s'"

text \<open>The start: a queue just created, and any threads about to call it.\<close>

definition queue_start :: "qsys \<Rightarrow> bool" where
  "queue_start s \<longleftrightarrow> (\<exists>n sz q ms ks. MsOS_CreateQueue n sz = Some (Some q) \<and>
     s = \<lparr>qs_q = q, qs_senders = map S_call ms, qs_receivers = map R_call ks,
          qs_sent = [], qs_got = [], qs_refused = 0\<rparr>)"

section \<open>The lists a pool represents\<close>

definition dlist :: "msg_node list \<Rightarrow> nat option \<Rightarrow> nat list \<Rightarrow> bool" where
  "dlist ns h xs \<longleftrightarrow> distinct xs \<and> (\<forall>x \<in> set xs. x < length ns) \<and>
     h = (if xs = [] then None else Some (hd xs)) \<and>
     (\<forall>i < length xs.
        mn_next (ns ! (xs ! i)) = (if Suc i < length xs then Some (xs ! Suc i) else None) \<and>
        mn_prev (ns ! (xs ! i)) = Some (if i = 0 then last xs else xs ! (i - 1)))"

definition bodies :: "msg_node list \<Rightarrow> (nat \<times> u8 list) list" where
  "bodies ns = map (\<lambda>nd. (msgRealSize nd, msg nd)) ns"

lemma dlist_cong:
  assumes "dlist ns h xs" and "length ns' = length ns" and "\<And>x. x \<in> set xs \<Longrightarrow> ns' ! x = ns ! x"
  shows "dlist ns' h xs"
  using assms unfolding dlist_def by (auto dest: nth_mem)

lemma dlist_Nil [simp]: "dlist ns h [] \<longleftrightarrow> h = None"
  by (simp add: dlist_def)

lemma bodies_update:
  "i < length ns \<Longrightarrow> (msgRealSize nd, msg nd) = bodies ns ! i \<Longrightarrow> bodies (ns[i := nd]) = bodies ns"
  by (simp add: bodies_def map_update list_update_same_conv)

text \<open>What an operation may do to the pool: relink nodes of the list \<open>xs\<close>, and nothing else.\<close>

definition relinks :: "msg_node list \<Rightarrow> msg_node list \<Rightarrow> nat set \<Rightarrow> bool" where
  "relinks ns ns' X \<longleftrightarrow> length ns' = length ns \<and> bodies ns' = bodies ns \<and> (\<forall>k. k \<notin> X \<longrightarrow> ns' ! k = ns ! k)"

lemma relinks_dlist: "relinks ns ns' X \<Longrightarrow> dlist ns h ys \<Longrightarrow> set ys \<inter> X = {} \<Longrightarrow> dlist ns' h ys"
  unfolding relinks_def by (erule dlist_cong) auto

lemma nth_upd: "xs[i := y] ! j = (if i = j \<and> i < length xs then y else xs ! j)"
  by (cases "i < length xs") (auto simp: nth_list_update list_update_beyond)

lemma link_tail_dlist:
  assumes "dlist ns h xs" and "n \<notin> set xs" and "n < length ns"
  shows "\<exists>ns' h'. link_tail ns h n = Some (ns', h') \<and> dlist ns' h' (xs @ [n]) \<and>
    relinks ns ns' (insert n (set xs))"
proof (cases "xs = []")
  case True
  let ?ns = "ns[n := (ns ! n)\<lparr>mn_prev := Some n, mn_next := None\<rparr>]"
  have "bodies ?ns = bodies ns" using assms(3) by (intro bodies_update) (simp_all add: bodies_def)
  then show ?thesis
    using True assms by (simp add: link_tail_def get_node_def dlist_def relinks_def)
next
  case False
  let ?c = "hd xs" and ?l = "last xs"
  let ?m1 = "ns[n := (ns ! n)\<lparr>mn_prev := Some ?l, mn_next := None\<rparr>]"
  let ?m2 = "?m1[?l := (?m1 ! ?l)\<lparr>mn_next := Some n\<rparr>]"
  let ?m3 = "?m2[?c := (?m2 ! ?c)\<lparr>mn_prev := Some n\<rparr>]"
  have h: "h = Some ?c" using assms(1) False by (simp add: dlist_def)
  have in_xs: "?c \<in> set xs" "?l \<in> set xs" using False by auto
  have ne: "?c \<noteq> n" "?l \<noteq> n" using in_xs assms(2) by auto
  have len: "?c < length ns" "?l < length ns" using in_xs assms(1) by (auto simp: dlist_def)
  have nth: "ns ! ?c = ns ! (xs ! 0)" using False by (simp add: hd_conv_nth)
  have pc: "mn_prev (ns ! ?c) = Some ?l" using assms(1) False unfolding nth dlist_def by auto
  have eq: "link_tail ns h n = Some (?m3, h)"
    using assms(3) h ne len pc by (simp add: link_tail_def get_node_def Let_def)
  have b1: "bodies ?m1 = bodies ns" using assms(3) by (intro bodies_update) (simp_all add: bodies_def)
  have b2: "bodies ?m2 = bodies ?m1"
    using assms(3) len by (intro bodies_update) (simp_all add: bodies_def)
  have b3: "bodies ?m3 = bodies ?m2"
    using assms(3) len by (intro bodies_update) (simp_all add: bodies_def del: nth_list_update)
  have d: "distinct xs" "\<forall>x \<in> set xs. x < length ns" using assms(1) by (auto simp: dlist_def)
  have node: "?m3 ! (xs ! i) = (ns ! (xs ! i))
      \<lparr>mn_next := (if Suc i = length xs then Some n else mn_next (ns ! (xs ! i))),
       mn_prev := (if i = 0 then Some n else mn_prev (ns ! (xs ! i)))\<rparr>" if i: "i < length xs" for i
  proof -
    have a: "xs ! i \<noteq> n" "xs ! i < length ns" using d i assms(2) by auto
    have b: "xs ! i = ?l \<longleftrightarrow> Suc i = length xs"
      using d(1) i False nth_eq_iff_index_eq [of xs i "length xs - 1"] by (auto simp: last_conv_nth)
    have c: "xs ! i = ?c \<longleftrightarrow> i = 0"
      using d(1) i False nth_eq_iff_index_eq [of xs i 0] by (auto simp: hd_conv_nth)
    show ?thesis using a len assms(3) ne unfolding nth_upd b [symmetric] c [symmetric] by auto
  qed
  have old: "mn_next (ns ! (xs ! i)) = (if Suc i < length xs then Some (xs ! Suc i) else None)"
      "mn_prev (ns ! (xs ! i)) = Some (if i = 0 then ?l else xs ! (i - 1))" if "i < length xs" for i
    using assms(1) that by (auto simp: dlist_def)
  have new: "?m3 ! n = (ns ! n)\<lparr>mn_prev := Some ?l, mn_next := None\<rparr>"
    using assms(3) ne by simp
  have "dlist ?m3 h (xs @ [n])"
    unfolding dlist_def
  proof (intro conjI allI impI)
    fix i assume i: "i < length (xs @ [n])"
    show "mn_next (?m3 ! ((xs @ [n]) ! i)) =
        (if Suc i < length (xs @ [n]) then Some ((xs @ [n]) ! Suc i) else None)"
      using i new node [of i] old [of i] by (cases "i = length xs") (auto simp: nth_append)
    show "mn_prev (?m3 ! ((xs @ [n]) ! i)) =
        Some (if i = 0 then last (xs @ [n]) else (xs @ [n]) ! (i - 1))"
      using i new node [of i] old [of i] False by (cases "i = length xs") (auto simp: nth_append last_conv_nth)
  qed (use d assms(2,3) h False in auto)
  moreover have "relinks ns ?m3 (insert n (set xs))"
    unfolding relinks_def
  proof (intro conjI allI impI)
    show "bodies ?m3 = bodies ns" unfolding b3 b2 b1 ..
    fix k assume "k \<notin> insert n (set xs)"
    then have "k \<noteq> n" "k \<noteq> ?c" "k \<noteq> ?l" using in_xs by auto
    then show "?m3 ! k = ns ! k" by simp
  qed simp
  ultimately show ?thesis using eq by blast
qed

lemma unlink_head_dlist:
  assumes "dlist ns h (c # xs)"
  shows "\<exists>ns' h'. unlink_head ns c = Some (ns', h') \<and> dlist ns' h' xs \<and> relinks ns ns' (set xs)"
proof (cases xs)
  case Nil
  then show ?thesis
    using assms by (force simp: unlink_head_def get_node_def dlist_def relinks_def)
next
  case (Cons x ys)
  let ?ns = "ns[x := (ns ! x)\<lparr>mn_prev := mn_prev (ns ! c)\<rparr>]"
  have d: "distinct (c # xs)" "\<forall>y \<in> set (c # xs). y < length ns" using assms by (auto simp: dlist_def)
  have at: "mn_next (ns ! ((c # xs) ! i)) = (if i < length xs then Some (xs ! i) else None)"
      "mn_prev (ns ! ((c # xs) ! i)) = Some (if i = 0 then last xs else (c # xs) ! (i - 1))"
    if "i < length (c # xs)" for i
    using assms that Cons by (auto simp: dlist_def)
  have nx: "mn_next (ns ! c) = Some x" and pr: "mn_prev (ns ! c) = Some (last xs)"
    using at [of 0] Cons by auto
  have "dlist ?ns (Some x) xs"
    unfolding dlist_def
  proof (intro conjI allI impI)
    fix i assume i: "i < length xs"
    have e: "xs ! i = x \<longleftrightarrow> i = 0" using d(1) i Cons by (cases i) auto
    have l: "xs ! i < length ns" using d(2) i by auto
    show "mn_next (?ns ! (xs ! i)) = (if Suc i < length xs then Some (xs ! Suc i) else None)"
      using at(1) [of "Suc i"] i l by (auto simp: nth_upd)
    show "mn_prev (?ns ! (xs ! i)) = Some (if i = 0 then last xs else xs ! (i - 1))"
      using at(2) [of "Suc i"] i l e pr by (cases i) (auto simp: nth_upd)
  qed (use d Cons in auto)
  moreover have "bodies ?ns = bodies ns"
    using d(2) Cons by (intro bodies_update) (simp_all add: bodies_def)
  ultimately show ?thesis
    using nx d(2) Cons by (auto simp: unlink_head_def get_node_def relinks_def)
qed

section \<open>The invariant\<close>

fun s_holds :: "sender \<Rightarrow> nat multiset" where
  "s_holds (S_node m n) = {#n#}" | "s_holds (S_bad n) = {#n#}" | "s_holds (S_filled m n) = {#n#}"
| "s_holds _ = {#}"

fun r_holds :: "receiver \<Rightarrow> nat multiset" where
  "r_holds (R_node k n m) = {#n#}" | "r_holds (R_copied bs n) = {#n#}" | "r_holds _ = {#}"

fun s_slot :: "sender \<Rightarrow> nat" where "s_slot (S_slot m) = 1" | "s_slot _ = 0"

fun s_posted :: "sender \<Rightarrow> nat" where "s_posted S_posted = 1" | "s_posted _ = 0"

fun r_token :: "receiver \<Rightarrow> nat" where "r_token (R_token k) = 1" | "r_token _ = 0"

fun r_freed :: "receiver \<Rightarrow> nat" where "r_freed (R_freed bs) = 1" | "r_freed _ = 0"

definition tally :: "('x \<Rightarrow> 'n::comm_monoid_add) \<Rightarrow> 'x list \<Rightarrow> 'n" where
  "tally f xs = sum_list (map f xs)"

definition message_at :: "(nat \<times> u8 list) list \<Rightarrow> nat \<Rightarrow> u8 list" where
  "message_at bs n = take (fst (bs ! n)) (snd (bs ! n))"

text \<open>What a thread knows of its node.\<close>

fun s_knows :: "nat \<Rightarrow> (nat \<times> u8 list) list \<Rightarrow> sender \<Rightarrow> bool" where
  "s_knows sz bs (S_node m n) = (length m \<le> sz)"
| "s_knows sz bs (S_filled m n) = (message_at bs n = m)"
| "s_knows sz bs _ = True"

fun r_knows :: "(nat \<times> u8 list) list \<Rightarrow> receiver \<Rightarrow> bool" where
  "r_knows bs (R_node k n m) = (message_at bs n = m)"
| "r_knows bs _ = True"

text \<open>Every node is free, in use or held by one thread; the semaphores count the two lists.\<close>

definition nodes_inv :: "qsys \<Rightarrow> nat list \<Rightarrow> nat list \<Rightarrow> bool" where
  "nodes_inv s fs us \<longleftrightarrow>
     mset fs + mset us + tally s_holds (qs_senders s) + tally r_holds (qs_receivers s) =
       mset [0..<length (pMsgList (qs_q s))]"

definition sems_inv :: "qsys \<Rightarrow> nat list \<Rightarrow> nat list \<Rightarrow> bool" where
  "sems_inv s fs us \<longleftrightarrow>
     length fs = sendSemaphore (qs_q s) + tally s_slot (qs_senders s) + tally r_freed (qs_receivers s) + qs_refused s \<and>
     length us = recvSemaphore (qs_q s) + tally s_posted (qs_senders s) + tally r_token (qs_receivers s)"

definition data_inv :: "qsys \<Rightarrow> nat list \<Rightarrow> bool" where
  "data_inv s us \<longleftrightarrow>
     (let bs = bodies (pMsgList (qs_q s)) in
       qs_sent s = qs_got s @ map (message_at bs) us \<and>
       (\<forall>x \<in> set (qs_senders s). s_knows (maxSizeOfMsg (qs_q s)) bs x) \<and>
       (\<forall>x \<in> set (qs_receivers s). r_knows bs x) \<and>
       (\<forall>b \<in> set bs. fst b \<le> length (snd b) \<and> maxSizeOfMsg (qs_q s) \<le> length (snd b)))"

definition queue_lists :: "os_queue \<Rightarrow> nat list \<Rightarrow> nat list \<Rightarrow> bool" where
  "queue_lists q fs us \<longleftrightarrow> dlist (pMsgList q) (pFreeHead q) fs \<and> dlist (pMsgList q) (pUsedHead q) us"

definition queue_at :: "qsys \<Rightarrow> nat list \<Rightarrow> nat list \<Rightarrow> bool" where
  "queue_at s fs us \<longleftrightarrow> queue_lists (qs_q s) fs us \<and> nodes_inv s fs us \<and> sems_inv s fs us \<and> data_inv s us"

definition queue_inv :: "qsys \<Rightarrow> bool" where
  "queue_inv s \<longleftrightarrow> (\<exists>fs us. queue_at s fs us)"

section \<open>Totals over the threads\<close>

lemma tally_update: "i < length xs \<Longrightarrow> tally f (xs[i := y]) + f (xs ! i) = tally f xs + f y"
proof (induction xs arbitrary: i)
  case (Cons x xs)
  show ?case
  proof (cases i)
    case 0
    then show ?thesis by (simp add: tally_def ac_simps)
  next
    case (Suc k)
    then show ?thesis using Cons.IH [of k] Cons.prems by (simp add: tally_def add.assoc)
  qed
qed simp

lemma tally_update_nat: "i < length xs \<Longrightarrow> tally f (xs[i := y]) = tally f xs + f y - (f (xs ! i) :: nat)"
  using tally_update [of i xs f y] by simp

lemma tally_split:
  assumes "i < length xs" and "f y = (0 :: 'n::comm_monoid_add)"
  shows "tally f xs = f (xs ! i) + tally f (xs[i := y])"
  using tally_update [OF assms(1), of f y] assms(2) by (simp add: ac_simps)

lemma tally_mem: "x \<in> set xs \<Longrightarrow> f x \<subseteq># tally f xs"
  by (induction xs) (auto simp: tally_def intro: subset_mset.add_increasing subset_mset.add_increasing2)

lemma tally_mem_nat: "x \<in> set xs \<Longrightarrow> f x \<le> (tally f xs :: nat)"
  by (induction xs) (auto simp: tally_def)

lemma update_others: "x \<in> set (xs[i := y]) \<Longrightarrow> i < length xs \<Longrightarrow> x = y \<or> x \<in> set (xs[i := z])"
  by (auto simp: in_set_conv_nth nth_upd split: if_splits)

lemma update_old: "x \<in> set (xs[i := y]) \<Longrightarrow> x = y \<or> x \<in> set xs"
  using set_update_subset_insert [of xs i y] by blast

section \<open>The list operations on the invariant\<close>

lemma relinks_frame:
  assumes "relinks (pMsgList q) ns X"
  shows "bodies ns = bodies (pMsgList q)" "length ns = length (pMsgList q)"
  using assms by (auto simp: relinks_def)

lemma AddToListTail_free:
  assumes "queue_lists q fs us" and that: "set fs \<inter> set us = {}" and "n \<notin> set fs" and "n \<notin> set us" and "n < length (pMsgList q)"
  shows "\<exists>ns h. AddToListTail q True n = Some (q\<lparr>pMsgList := ns, pFreeHead := h\<rparr>) \<and>
    queue_lists (q\<lparr>pMsgList := ns, pFreeHead := h\<rparr>) (fs @ [n]) us \<and>
    bodies ns = bodies (pMsgList q) \<and> length ns = length (pMsgList q)"
proof -
  obtain ns h where l: "link_tail (pMsgList q) (pFreeHead q) n = Some (ns, h)" "dlist ns h (fs @ [n])"
      "relinks (pMsgList q) ns (insert n (set fs))"
    using link_tail_dlist assms unfolding queue_lists_def by blast
  have "dlist ns (pUsedHead q) us"
    using relinks_dlist [OF l(3)] assms that unfolding queue_lists_def by blast
  then show ?thesis
    using l relinks_frame [OF l(3)]
    by - (rule exI [of _ ns], rule exI [of _ h], simp add: AddToListTail_def queue_lists_def)
qed

lemma AddToListTail_used:
  assumes "queue_lists q fs us" and that: "set fs \<inter> set us = {}" and "n \<notin> set fs" and "n \<notin> set us" and "n < length (pMsgList q)"
  shows "\<exists>ns h. AddToListTail q False n = Some (q\<lparr>pMsgList := ns, pUsedHead := h\<rparr>) \<and>
    queue_lists (q\<lparr>pMsgList := ns, pUsedHead := h\<rparr>) fs (us @ [n]) \<and>
    bodies ns = bodies (pMsgList q) \<and> length ns = length (pMsgList q)"
proof -
  obtain ns h where l: "link_tail (pMsgList q) (pUsedHead q) n = Some (ns, h)" "dlist ns h (us @ [n])"
      "relinks (pMsgList q) ns (insert n (set us))"
    using link_tail_dlist assms unfolding queue_lists_def by blast
  have "dlist ns (pFreeHead q) fs"
    using relinks_dlist [OF l(3)] assms that unfolding queue_lists_def by blast
  then show ?thesis
    using l relinks_frame [OF l(3)]
    by - (rule exI [of _ ns], rule exI [of _ h], simp add: AddToListTail_def queue_lists_def)
qed

lemma RemoveFromListHead_free:
  assumes "queue_lists q fs us" and "set fs \<inter> set us = {}" and "fs \<noteq> []"
  shows "\<exists>ns h. RemoveFromListHead q True = Some (Some (hd fs), q\<lparr>pMsgList := ns, pFreeHead := h\<rparr>) \<and>
    queue_lists (q\<lparr>pMsgList := ns, pFreeHead := h\<rparr>) (tl fs) us \<and>
    bodies ns = bodies (pMsgList q) \<and> length ns = length (pMsgList q)"
proof -
  obtain c xs where fs: "fs = c # xs" using assms(3) by (cases fs) auto
  then obtain ns h where l: "unlink_head (pMsgList q) c = Some (ns, h)" "dlist ns h xs"
      "relinks (pMsgList q) ns (set xs)"
    using unlink_head_dlist assms(1) unfolding queue_lists_def by blast
  have "dlist ns (pUsedHead q) us"
    using relinks_dlist [OF l(3)] assms fs unfolding queue_lists_def by auto
  moreover have "pFreeHead q = Some c" using assms(1) fs by (simp add: queue_lists_def dlist_def)
  ultimately show ?thesis
    using l fs relinks_frame [OF l(3)]
    by - (rule exI [of _ ns], rule exI [of _ h], simp add: RemoveFromListHead_def queue_lists_def)
qed

lemma RemoveFromListHead_used:
  assumes "queue_lists q fs us" and "set fs \<inter> set us = {}" and "us \<noteq> []"
  shows "\<exists>ns h. RemoveFromListHead q False = Some (Some (hd us), q\<lparr>pMsgList := ns, pUsedHead := h\<rparr>) \<and>
    queue_lists (q\<lparr>pMsgList := ns, pUsedHead := h\<rparr>) fs (tl us) \<and>
    bodies ns = bodies (pMsgList q) \<and> length ns = length (pMsgList q)"
proof -
  obtain c xs where us: "us = c # xs" using assms(3) by (cases us) auto
  then obtain ns h where l: "unlink_head (pMsgList q) c = Some (ns, h)" "dlist ns h xs"
      "relinks (pMsgList q) ns (set xs)"
    using unlink_head_dlist assms(1) unfolding queue_lists_def by blast
  have "dlist ns (pFreeHead q) fs"
    using relinks_dlist [OF l(3)] assms us unfolding queue_lists_def by auto
  moreover have "pUsedHead q = Some c" using assms(1) us by (simp add: queue_lists_def dlist_def)
  ultimately show ?thesis
    using l us relinks_frame [OF l(3)]
    by - (rule exI [of _ ns], rule exI [of _ h], simp add: RemoveFromListHead_def queue_lists_def)
qed

text \<open>A node that a thread holds is in range and in neither list; the lists are disjoint.\<close>

lemma nodes_disjoint:
  assumes "nodes_inv s fs us"
  shows "set fs \<inter> set us = {}"
    and "x \<in> set (qs_senders s) \<Longrightarrow> n \<in># s_holds x \<Longrightarrow> n \<notin> set fs \<and> n \<notin> set us \<and> n < length (pMsgList (qs_q s))"
    and "y \<in> set (qs_receivers s) \<Longrightarrow> n \<in># r_holds y \<Longrightarrow> n \<notin> set fs \<and> n \<notin> set us \<and> n < length (pMsgList (qs_q s))"
proof -
  let ?m = "mset fs + mset us + tally s_holds (qs_senders s) + tally r_holds (qs_receivers s)"
  have c: "count ?m n \<le> 1" and r: "n \<in># ?m \<Longrightarrow> n < length (pMsgList (qs_q s))" for n
    using assms distinct_count_atmost_1 [of "[0..<length (pMsgList (qs_q s))]"]
    unfolding nodes_inv_def by simp_all
  have pos: "n \<in># M \<longleftrightarrow> 1 \<le> count M n" for M and n :: nat
    by (simp add: Suc_le_eq flip: count_greater_zero_iff)
  show "set fs \<inter> set us = {}"
  proof (rule ccontr)
    assume "set fs \<inter> set us \<noteq> {}"
    then obtain n where "n \<in># mset fs" "n \<in># mset us" by auto
    then have "1 \<le> count (mset fs) n" "1 \<le> count (mset us) n" unfolding pos by blast+
    then show False using c [of n] unfolding count_union by linarith
  qed
  have *: "n \<notin> set fs \<and> n \<notin> set us \<and> n < length (pMsgList (qs_q s))"
    if "n \<in># tally s_holds (qs_senders s) + tally r_holds (qs_receivers s)" for n
  proof (intro conjI)
    have t: "1 \<le> count (tally s_holds (qs_senders s)) n + count (tally r_holds (qs_receivers s)) n"
      using that unfolding pos by simp
    have "\<not> 1 \<le> count (mset fs) n" using c [of n] t unfolding count_union by linarith
    then show "n \<notin> set fs" using pos [of n "mset fs"] by simp
    have "\<not> 1 \<le> count (mset us) n" using c [of n] t unfolding count_union by linarith
    then show "n \<notin> set us" using pos [of n "mset us"] by simp
    show "n < length (pMsgList (qs_q s))" using r [of n] that by simp
  qed
  show "x \<in> set (qs_senders s) \<Longrightarrow> n \<in># s_holds x \<Longrightarrow> n \<notin> set fs \<and> n \<notin> set us \<and> n < length (pMsgList (qs_q s))"
    using * [of n] tally_mem [of x "qs_senders s" s_holds] by (simp add: mset_subset_eqD)
  show "y \<in> set (qs_receivers s) \<Longrightarrow> n \<in># r_holds y \<Longrightarrow> n \<notin> set fs \<and> n \<notin> set us \<and> n < length (pMsgList (qs_q s))"
    using * [of n] tally_mem [of y "qs_receivers s" r_holds] by (simp add: mset_subset_eqD)
qed

text \<open>Changing one thread.\<close>

lemma nodes_inv_sender:
  assumes "nodes_inv s fs us" and "i < length (qs_senders s)"
    and "mset fs + mset us + s_holds (qs_senders s ! i) = mset fs' + mset us' + s_holds x"
    and "qs_senders s' = (qs_senders s)[i := x]" and "qs_receivers s' = qs_receivers s"
    and "length (pMsgList (qs_q s')) = length (pMsgList (qs_q s))"
  shows "nodes_inv s' fs' us'"
proof -
  have 1: "tally s_holds (qs_senders s) = s_holds (qs_senders s ! i) + tally s_holds ((qs_senders s)[i := S_posted])"
    using assms(2) by (rule tally_split) simp
  have 2: "tally s_holds (qs_senders s') = s_holds x + tally s_holds ((qs_senders s)[i := S_posted])"
    using tally_split [of i "qs_senders s'" s_holds S_posted] assms(2,4) by simp
  have "mset fs + mset us + s_holds (qs_senders s ! i) +
      (tally s_holds ((qs_senders s)[i := S_posted]) + tally r_holds (qs_receivers s)) =
      mset [0..<length (pMsgList (qs_q s))]"
    using assms(1) unfolding nodes_inv_def 1 by (simp add: ac_simps)
  then show ?thesis
    unfolding assms(3) nodes_inv_def 2 assms(5,6) by (simp add: ac_simps)
qed

lemma nodes_inv_receiver:
  assumes "nodes_inv s fs us" and "i < length (qs_receivers s)"
    and "mset fs + mset us + r_holds (qs_receivers s ! i) = mset fs' + mset us' + r_holds x"
    and "qs_receivers s' = (qs_receivers s)[i := x]" and "qs_senders s' = qs_senders s"
    and "length (pMsgList (qs_q s')) = length (pMsgList (qs_q s))"
  shows "nodes_inv s' fs' us'"
proof -
  have 1: "tally r_holds (qs_receivers s) = r_holds (qs_receivers s ! i) + tally r_holds ((qs_receivers s)[i := R_ret None])"
    using assms(2) by (rule tally_split) simp
  have 2: "tally r_holds (qs_receivers s') = r_holds x + tally r_holds ((qs_receivers s)[i := R_ret None])"
    using tally_split [of i "qs_receivers s'" r_holds "R_ret None"] assms(2,4) by simp
  have "mset fs + mset us + r_holds (qs_receivers s ! i) +
      (tally r_holds ((qs_receivers s)[i := R_ret None]) + tally s_holds (qs_senders s)) =
      mset [0..<length (pMsgList (qs_q s))]"
    using assms(1) unfolding nodes_inv_def 1 by (simp add: ac_simps)
  then show ?thesis
    unfolding assms(3) nodes_inv_def 2 assms(5,6) by (simp add: ac_simps)
qed

lemma sems_inv_sender:
  assumes "sems_inv s fs us" and "i < length (qs_senders s)"
    and "qs_senders s' = (qs_senders s)[i := x]" and "qs_receivers s' = qs_receivers s"
    and "length fs' + sendSemaphore (qs_q s) + s_slot (qs_senders s ! i) + qs_refused s =
      length fs + sendSemaphore (qs_q s') + s_slot x + qs_refused s'"
    and "length us' + recvSemaphore (qs_q s) + s_posted (qs_senders s ! i) =
      length us + recvSemaphore (qs_q s') + s_posted x"
  shows "sems_inv s' fs' us'"
  using assms(1,5,6) tally_update [OF assms(2), of s_slot x] tally_update [OF assms(2), of s_posted x]
  unfolding sems_inv_def assms(3,4) by linarith

lemma sems_inv_receiver:
  assumes "sems_inv s fs us" and "i < length (qs_receivers s)"
    and "qs_receivers s' = (qs_receivers s)[i := x]" and "qs_senders s' = qs_senders s"
    and "length fs' + sendSemaphore (qs_q s) + r_freed (qs_receivers s ! i) + qs_refused s =
      length fs + sendSemaphore (qs_q s') + r_freed x + qs_refused s'"
    and "length us' + recvSemaphore (qs_q s) + r_token (qs_receivers s ! i) =
      length us + recvSemaphore (qs_q s') + r_token x"
  shows "sems_inv s' fs' us'"
  using assms(1,5,6) tally_update [OF assms(2), of r_freed x] tally_update [OF assms(2), of r_token x]
  unfolding sems_inv_def assms(3,4) by linarith

lemma data_inv_sender:
  assumes "data_inv s us" and "qs_senders s' = (qs_senders s)[i := x]" and "qs_receivers s' = qs_receivers s"
    and "bodies (pMsgList (qs_q s')) = bodies (pMsgList (qs_q s))"
    and "maxSizeOfMsg (qs_q s') = maxSizeOfMsg (qs_q s)"
    and "s_knows (maxSizeOfMsg (qs_q s)) (bodies (pMsgList (qs_q s))) x"
    and "qs_sent s' = qs_got s' @ map (message_at (bodies (pMsgList (qs_q s)))) us'"
  shows "data_inv s' us'"
  using assms update_old unfolding data_inv_def Let_def assms(2-5) by metis

lemma data_inv_receiver:
  assumes "data_inv s us" and "qs_receivers s' = (qs_receivers s)[i := x]" and "qs_senders s' = qs_senders s"
    and "bodies (pMsgList (qs_q s')) = bodies (pMsgList (qs_q s))"
    and "maxSizeOfMsg (qs_q s') = maxSizeOfMsg (qs_q s)"
    and "r_knows (bodies (pMsgList (qs_q s))) x"
    and "qs_sent s' = qs_got s' @ map (message_at (bodies (pMsgList (qs_q s)))) us'"
  shows "data_inv s' us'"
  using assms update_old unfolding data_inv_def Let_def assms(2-5) by metis

lemma data_inv_sent: "data_inv s us \<Longrightarrow> qs_sent s = qs_got s @ map (message_at (bodies (pMsgList (qs_q s)))) us"
  by (simp add: data_inv_def Let_def)

lemma data_inv_knows:
  "data_inv s us \<Longrightarrow> x \<in> set (qs_senders s) \<Longrightarrow>
     s_knows (maxSizeOfMsg (qs_q s)) (bodies (pMsgList (qs_q s))) x"
  "data_inv s us \<Longrightarrow> y \<in> set (qs_receivers s) \<Longrightarrow> r_knows (bodies (pMsgList (qs_q s))) y"
  by (auto simp: data_inv_def Let_def)

section \<open>Every step keeps the invariant\<close>

lemma queue_atD:
  assumes "queue_at s fs us"
  shows "queue_lists (qs_q s) fs us" "nodes_inv s fs us" "sems_inv s fs us" "data_inv s us"
    "set fs \<inter> set us = {}"
  using assms nodes_disjoint(1) unfolding queue_at_def by blast+

lemma queue_invI: "queue_at s fs us \<Longrightarrow> queue_inv s"
  unfolding queue_inv_def by blast

text \<open>Steps that move no node between the lists.\<close>

lemma queue_at_sender:
  assumes "queue_at s fs us" and "i < length (qs_senders s)"
    and "s' = s\<lparr>qs_q := (qs_q s)\<lparr>sendSemaphore := a, recvSemaphore := b\<rparr>,
           qs_senders := (qs_senders s)[i := x]\<rparr>"
    and "s_holds (qs_senders s ! i) = s_holds x"
    and "sendSemaphore (qs_q s) + s_slot (qs_senders s ! i) = a + s_slot x"
    and "recvSemaphore (qs_q s) + s_posted (qs_senders s ! i) = b + s_posted x"
    and "s_knows (maxSizeOfMsg (qs_q s)) (bodies (pMsgList (qs_q s))) x"
  shows "queue_at s' fs us"
  unfolding queue_at_def
proof (intro conjI)
  note at = queue_atD [OF assms(1)]
  show "queue_lists (qs_q s') fs us" using at(1) assms(3) by (simp add: queue_lists_def)
  show "nodes_inv s' fs us" by (rule nodes_inv_sender [OF at(2) assms(2)]) (simp_all add: assms(3,4))
  show "sems_inv s' fs us"
    by (rule sems_inv_sender [OF at(3) assms(2)]) (use assms(3,5,6) in simp_all)
  show "data_inv s' us"
    by (rule data_inv_sender [OF at(4)]) (use assms(3,7) data_inv_sent [OF at(4)] in simp_all)
qed

lemma queue_at_receiver:
  assumes "queue_at s fs us" and "i < length (qs_receivers s)"
    and "s' = s\<lparr>qs_q := (qs_q s)\<lparr>sendSemaphore := a, recvSemaphore := b\<rparr>,
           qs_receivers := (qs_receivers s)[i := x]\<rparr>"
    and "r_holds (qs_receivers s ! i) = r_holds x"
    and "sendSemaphore (qs_q s) + r_freed (qs_receivers s ! i) = a + r_freed x"
    and "recvSemaphore (qs_q s) + r_token (qs_receivers s ! i) = b + r_token x"
    and "r_knows (bodies (pMsgList (qs_q s))) x"
  shows "queue_at s' fs us"
  unfolding queue_at_def
proof (intro conjI)
  note at = queue_atD [OF assms(1)]
  show "queue_lists (qs_q s') fs us" using at(1) assms(3) by (simp add: queue_lists_def)
  show "nodes_inv s' fs us" by (rule nodes_inv_receiver [OF at(2) assms(2)]) (simp_all add: assms(3,4))
  show "sems_inv s' fs us"
    by (rule sems_inv_receiver [OF at(3) assms(2)]) (use assms(3,5,6) in simp_all)
  show "data_inv s' us"
    by (rule data_inv_receiver [OF at(4)]) (use assms(3,7) data_inv_sent [OF at(4)] in simp_all)
qed

lemma sems_pos:
  assumes "sems_inv s fs us"
  shows "x \<in> set (qs_senders s) \<Longrightarrow> 1 \<le> s_slot x \<Longrightarrow> fs \<noteq> []"
    and "y \<in> set (qs_receivers s) \<Longrightarrow> 1 \<le> r_token y \<Longrightarrow> us \<noteq> []"
  using assms tally_mem_nat [of x "qs_senders s" s_slot] tally_mem_nat [of y "qs_receivers s" r_token]
  by (auto simp: sems_inv_def)

text \<open>Whoever has passed the semaphore finds a node.\<close>

lemma claim_finds_node:
  assumes "queue_at s fs us" and "S_slot m \<in> set (qs_senders s)"
  shows "\<exists>ns h. RemoveFromListHead (qs_q s) True = Some (Some (hd fs), (qs_q s)\<lparr>pMsgList := ns, pFreeHead := h\<rparr>) \<and>
    queue_lists ((qs_q s)\<lparr>pMsgList := ns, pFreeHead := h\<rparr>) (tl fs) us \<and> fs \<noteq> [] \<and>
    bodies ns = bodies (pMsgList (qs_q s)) \<and> length ns = length (pMsgList (qs_q s))"
proof -
  note at = queue_atD [OF assms(1)]
  have "fs \<noteq> []" using sems_pos(1) [OF at(3) assms(2)] by simp
  then show ?thesis using RemoveFromListHead_free [OF at(1,5)] by blast
qed

lemma take_finds_node:
  assumes "queue_at s fs us" and "R_token k \<in> set (qs_receivers s)"
  shows "\<exists>ns h. RemoveFromListHead (qs_q s) False = Some (Some (hd us), (qs_q s)\<lparr>pMsgList := ns, pUsedHead := h\<rparr>) \<and>
    queue_lists ((qs_q s)\<lparr>pMsgList := ns, pUsedHead := h\<rparr>) fs (tl us) \<and> us \<noteq> [] \<and>
    bodies ns = bodies (pMsgList (qs_q s)) \<and> length ns = length (pMsgList (qs_q s))"
proof -
  note at = queue_atD [OF assms(1)]
  have "us \<noteq> []" using sems_pos(2) [OF at(3) assms(2)] by simp
  then show ?thesis using RemoveFromListHead_used [OF at(1,5)] by blast
qed

lemma queue_at_claim:
  assumes "queue_at s fs us" and "i < length (qs_senders s)" and "qs_senders s ! i = S_slot m"
    and "RemoveFromListHead (qs_q s) True = Some (r, q)"
    and "x = (case r of None \<Rightarrow> S_ret False
          | Some n \<Rightarrow> if length m \<le> maxSizeOfMsg q then S_node m n else S_bad n)"
  shows "queue_at (s\<lparr>qs_q := q, qs_senders := (qs_senders s)[i := x]\<rparr>) (tl fs) us"
  unfolding queue_at_def
proof (intro conjI)
  note at = queue_atD [OF assms(1)]
  obtain ns h where n: "RemoveFromListHead (qs_q s) True = Some (Some (hd fs), (qs_q s)\<lparr>pMsgList := ns, pFreeHead := h\<rparr>)"
      "queue_lists ((qs_q s)\<lparr>pMsgList := ns, pFreeHead := h\<rparr>) (tl fs) us" "fs \<noteq> []"
      "bodies ns = bodies (pMsgList (qs_q s))" "length ns = length (pMsgList (qs_q s))"
    using claim_finds_node [OF assms(1)] assms(2,3) nth_mem by metis
  have q: "q = (qs_q s)\<lparr>pMsgList := ns, pFreeHead := h\<rparr>" and r: "r = Some (hd fs)"
    using n(1) assms(4) by simp_all
  have x: "x = (if length m \<le> maxSizeOfMsg (qs_q s) then S_node m (hd fs) else S_bad (hd fs))"
    using assms(5) unfolding q r by simp
  have fs: "mset fs = mset (tl fs) + {#hd fs#}" "length fs = Suc (length (tl fs))" using n(3) by (cases fs; simp)+
  let ?s = "s\<lparr>qs_q := q, qs_senders := (qs_senders s)[i := x]\<rparr>"
  show "queue_lists (qs_q ?s) (tl fs) us" using n(2) q by simp
  show "nodes_inv ?s (tl fs) us"
    by (rule nodes_inv_sender [where x = x, OF at(2) assms(2)]) (use n(5) q fs assms(3) x in simp_all)
  show "sems_inv ?s (tl fs) us"
    by (rule sems_inv_sender [where x = x, OF at(3) assms(2)]) (use q fs assms(3) x in simp_all)
  show "data_inv ?s us"
    by (rule data_inv_sender [where x = x, OF at(4)]) (use n(4) q x data_inv_sent [OF at(4)] in simp_all)
qed

lemma queue_at_post:
  assumes "queue_at s fs us" and "i < length (qs_senders s)" and "qs_senders s ! i = S_filled m n"
    and "AddToListTail (qs_q s) False n = Some q"
  shows "queue_at (s\<lparr>qs_q := q, qs_senders := (qs_senders s)[i := S_posted], qs_sent := qs_sent s @ [m]\<rparr>) fs (us @ [n])"
  unfolding queue_at_def
proof (intro conjI)
  note at = queue_atD [OF assms(1)]
  have mem: "S_filled m n \<in> set (qs_senders s)" using assms(2,3) nth_mem by metis
  note held = nodes_disjoint(2) [OF at(2) mem, of n, simplified]
  obtain ns h where n: "AddToListTail (qs_q s) False n = Some ((qs_q s)\<lparr>pMsgList := ns, pUsedHead := h\<rparr>)"
      "queue_lists ((qs_q s)\<lparr>pMsgList := ns, pUsedHead := h\<rparr>) fs (us @ [n])"
      "bodies ns = bodies (pMsgList (qs_q s))" "length ns = length (pMsgList (qs_q s))"
    using AddToListTail_used [OF at(1,5)] held by blast
  have q: "q = (qs_q s)\<lparr>pMsgList := ns, pUsedHead := h\<rparr>" using n(1) assms(4) by simp
  let ?s = "s\<lparr>qs_q := q, qs_senders := (qs_senders s)[i := S_posted], qs_sent := qs_sent s @ [m]\<rparr>"
  show "queue_lists (qs_q ?s) fs (us @ [n])" using n(2) q by simp
  show "nodes_inv ?s fs (us @ [n])"
    by (rule nodes_inv_sender [where x = S_posted, OF at(2) assms(2)]) (use n(4) q assms(3) in simp_all)
  show "sems_inv ?s fs (us @ [n])"
    by (rule sems_inv_sender [where x = S_posted, OF at(3) assms(2)]) (use q assms(3) in simp_all)
  show "data_inv ?s (us @ [n])"
    by (rule data_inv_sender [where x = S_posted, OF at(4)])
      (use n(3) q data_inv_sent [OF at(4)] data_inv_knows(1) [OF at(4) mem] in simp_all)
qed

lemma queue_at_refuse:
  assumes "queue_at s fs us" and "i < length (qs_senders s)" and "qs_senders s ! i = S_bad n"
    and "AddToListTail (qs_q s) True n = Some q"
  shows "queue_at (s\<lparr>qs_q := q, qs_senders := (qs_senders s)[i := S_ret False],
       qs_refused := Suc (qs_refused s)\<rparr>) (fs @ [n]) us"
  unfolding queue_at_def
proof (intro conjI)
  note at = queue_atD [OF assms(1)]
  have mem: "S_bad n \<in> set (qs_senders s)" using assms(2,3) nth_mem by metis
  note held = nodes_disjoint(2) [OF at(2) mem, of n, simplified]
  obtain ns h where n: "AddToListTail (qs_q s) True n = Some ((qs_q s)\<lparr>pMsgList := ns, pFreeHead := h\<rparr>)"
      "queue_lists ((qs_q s)\<lparr>pMsgList := ns, pFreeHead := h\<rparr>) (fs @ [n]) us"
      "bodies ns = bodies (pMsgList (qs_q s))" "length ns = length (pMsgList (qs_q s))"
    using AddToListTail_free [OF at(1,5)] held by blast
  have q: "q = (qs_q s)\<lparr>pMsgList := ns, pFreeHead := h\<rparr>" using n(1) assms(4) by simp
  let ?s = "s\<lparr>qs_q := q, qs_senders := (qs_senders s)[i := S_ret False], qs_refused := Suc (qs_refused s)\<rparr>"
  show "queue_lists (qs_q ?s) (fs @ [n]) us" using n(2) q by simp
  show "nodes_inv ?s (fs @ [n]) us"
    by (rule nodes_inv_sender [where x = "S_ret False", OF at(2) assms(2)]) (use n(4) q assms(3) in simp_all)
  show "sems_inv ?s (fs @ [n]) us"
    by (rule sems_inv_sender [where x = "S_ret False", OF at(3) assms(2)]) (use q assms(3) in simp_all)
  show "data_inv ?s us"
    by (rule data_inv_sender [where x = "S_ret False", OF at(4)]) (use n(3) q data_inv_sent [OF at(4)] in simp_all)
qed

lemma queue_at_free:
  assumes "queue_at s fs us" and "i < length (qs_receivers s)" and "qs_receivers s ! i = R_copied bs n"
    and "AddToListTail (qs_q s) True n = Some q"
  shows "queue_at (s\<lparr>qs_q := q, qs_receivers := (qs_receivers s)[i := R_freed bs]\<rparr>) (fs @ [n]) us"
  unfolding queue_at_def
proof (intro conjI)
  note at = queue_atD [OF assms(1)]
  have mem: "R_copied bs n \<in> set (qs_receivers s)" using assms(2,3) nth_mem by metis
  note held = nodes_disjoint(3) [OF at(2) mem, of n, simplified]
  obtain ns h where n: "AddToListTail (qs_q s) True n = Some ((qs_q s)\<lparr>pMsgList := ns, pFreeHead := h\<rparr>)"
      "queue_lists ((qs_q s)\<lparr>pMsgList := ns, pFreeHead := h\<rparr>) (fs @ [n]) us"
      "bodies ns = bodies (pMsgList (qs_q s))" "length ns = length (pMsgList (qs_q s))"
    using AddToListTail_free [OF at(1,5)] held by blast
  have q: "q = (qs_q s)\<lparr>pMsgList := ns, pFreeHead := h\<rparr>" using n(1) assms(4) by simp
  let ?s = "s\<lparr>qs_q := q, qs_receivers := (qs_receivers s)[i := R_freed bs]\<rparr>"
  show "queue_lists (qs_q ?s) (fs @ [n]) us" using n(2) q by simp
  show "nodes_inv ?s (fs @ [n]) us"
    by (rule nodes_inv_receiver [where x = "R_freed bs", OF at(2) assms(2)]) (use n(4) q assms(3) in simp_all)
  show "sems_inv ?s (fs @ [n]) us"
    by (rule sems_inv_receiver [where x = "R_freed bs", OF at(3) assms(2)]) (use q assms(3) in simp_all)
  show "data_inv ?s us"
    by (rule data_inv_receiver [where x = "R_freed bs", OF at(4)]) (use n(3) q data_inv_sent [OF at(4)] in simp_all)
qed

lemma queue_at_take:
  assumes "queue_at s fs us" and "i < length (qs_receivers s)" and "qs_receivers s ! i = R_token k"
    and "RemoveFromListHead (qs_q s) False = Some (Some n, q)"
  shows "queue_at (s\<lparr>qs_q := q, qs_receivers := (qs_receivers s)[i := R_node k n (node_message q n)],
       qs_got := qs_got s @ [node_message q n]\<rparr>) fs (tl us)"
  unfolding queue_at_def
proof (intro conjI)
  note at = queue_atD [OF assms(1)]
  obtain ns h where n: "RemoveFromListHead (qs_q s) False = Some (Some (hd us), (qs_q s)\<lparr>pMsgList := ns, pUsedHead := h\<rparr>)"
      "queue_lists ((qs_q s)\<lparr>pMsgList := ns, pUsedHead := h\<rparr>) fs (tl us)" "us \<noteq> []"
      "bodies ns = bodies (pMsgList (qs_q s))" "length ns = length (pMsgList (qs_q s))"
    using take_finds_node [OF assms(1)] assms(2,3) nth_mem by metis
  have q: "q = (qs_q s)\<lparr>pMsgList := ns, pUsedHead := h\<rparr>" and r: "n = hd us"
    using n(1) assms(4) by simp_all
  have us: "mset us = mset (tl us) + {#n#}" "length us = Suc (length (tl us))" "us = n # tl us"
    using n(3) r by (cases us; simp)+
  have "n < length ns" using at(1) n(3,5) r by (auto simp: queue_lists_def dlist_def)
  then have m: "node_message q n = message_at (bodies (pMsgList (qs_q s))) n"
    unfolding n(4) [symmetric] by (simp add: node_message_def message_at_def bodies_def q)
  let ?s = "s\<lparr>qs_q := q, qs_receivers := (qs_receivers s)[i := R_node k n (node_message q n)],
       qs_got := qs_got s @ [node_message q n]\<rparr>"
  show "queue_lists (qs_q ?s) fs (tl us)" using n(2) q by simp
  show "nodes_inv ?s fs (tl us)"
    by (rule nodes_inv_receiver [where x = "R_node k n (node_message q n)", OF at(2) assms(2)]) (use n(5) q us(1) assms(3) in simp_all)
  show "sems_inv ?s fs (tl us)"
    by (rule sems_inv_receiver [where x = "R_node k n (node_message q n)", OF at(3) assms(2)]) (use q us(2) assms(3) in simp_all)
  have "qs_sent s = qs_got s @ message_at (bodies (pMsgList (qs_q s))) n # map (message_at (bodies (pMsgList (qs_q s)))) (tl us)"
    using data_inv_sent [OF at(4)] us(3) by (metis list.simps(9))
  then show "data_inv ?s (tl us)"
    by (intro data_inv_receiver [where x = "R_node k n (node_message q n)", OF at(4)]) (use n(4) q m in simp_all)
qed

text \<open>No other thread holds the node that one thread holds.\<close>

lemma held_once:
  assumes "nodes_inv s fs us" and "i < length (qs_senders s)" and "s_holds (qs_senders s ! i) = {#n#}"
  shows "x \<in> set ((qs_senders s)[i := S_posted]) \<Longrightarrow> n \<notin># s_holds x"
    and "y \<in> set (qs_receivers s) \<Longrightarrow> n \<notin># r_holds y"
proof -
  let ?S = "tally s_holds ((qs_senders s)[i := S_posted])" and ?R = "tally r_holds (qs_receivers s)"
  have "tally s_holds (qs_senders s) = {#n#} + ?S"
    using tally_split [of i "qs_senders s" s_holds S_posted] assms(2,3) by simp
  then have "count (mset fs + mset us + ({#n#} + ?S) + ?R) n \<le> 1"
    using assms(1) distinct_count_atmost_1 [of "[0..<length (pMsgList (qs_q s))]"]
    unfolding nodes_inv_def by simp
  then have "count ?S n = 0" "count ?R n = 0" by simp_all
  then have "n \<notin># ?S" "n \<notin># ?R" by (simp_all add: not_in_iff)
  then show "x \<in> set ((qs_senders s)[i := S_posted]) \<Longrightarrow> n \<notin># s_holds x"
    and "y \<in> set (qs_receivers s) \<Longrightarrow> n \<notin># r_holds y"
    using tally_mem mset_subset_eqD by metis+
qed

lemma s_knows_other:
  "n \<notin># s_holds x \<Longrightarrow> s_knows sz bs x \<Longrightarrow> s_knows sz (bs[n := b]) x"
  by (cases x) (auto simp: message_at_def)

lemma r_knows_other: "n \<notin># r_holds y \<Longrightarrow> r_knows bs y \<Longrightarrow> r_knows (bs[n := b]) y"
  by (cases y) (auto simp: message_at_def)

lemma fill_node_copies:
  assumes "queue_at s fs us" and "S_node m n \<in> set (qs_senders s)"
  shows "fill_node (qs_q s) n m = Some ((qs_q s)\<lparr>pMsgList := (pMsgList (qs_q s))[n :=
    (pMsgList (qs_q s) ! n)\<lparr>msg := m @ drop (length m) (msg (pMsgList (qs_q s) ! n)),
      msgRealSize := length m\<rparr>]\<rparr>)"
proof -
  note at = queue_atD [OF assms(1)]
  have n: "n < length (pMsgList (qs_q s))" using nodes_disjoint(2) [OF at(2) assms(2), of n] by simp
  then have "(msgRealSize (pMsgList (qs_q s) ! n), msg (pMsgList (qs_q s) ! n)) \<in> set (bodies (pMsgList (qs_q s)))"
    by (auto simp: bodies_def)
  then have "maxSizeOfMsg (qs_q s) \<le> length (msg (pMsgList (qs_q s) ! n))"
    using at(4) unfolding data_inv_def Let_def by fastforce
  moreover have "length m \<le> maxSizeOfMsg (qs_q s)" using data_inv_knows(1) [OF at(4) assms(2)] by simp
  ultimately show ?thesis using n by (simp add: fill_node_def get_node_def mem_simps)
qed

lemma queue_at_copy:
  assumes "queue_at s fs us" and "i < length (qs_senders s)" and "qs_senders s ! i = S_node m n"
    and "fill_node (qs_q s) n m = Some q"
  shows "queue_at (s\<lparr>qs_q := q, qs_senders := (qs_senders s)[i := S_filled m n]\<rparr>) fs us"
  unfolding queue_at_def
proof (intro conjI)
  note at = queue_atD [OF assms(1)]
  have mem: "S_node m n \<in> set (qs_senders s)" using assms(2,3) nth_mem by metis
  have held: "n \<notin> set fs" "n \<notin> set us" "n < length (pMsgList (qs_q s))"
    using nodes_disjoint(2) [OF at(2) mem, of n] by simp_all
  have hi: "s_holds (qs_senders s ! i) = {#n#}" using assms(3) by simp
  let ?ns = "pMsgList (qs_q s)" and ?bs = "bodies (pMsgList (qs_q s))"
  define b where "b = m @ drop (length m) (msg (?ns ! n))"
  define bs where "bs = ?bs[n := (length m, b)]"
  have q: "q = (qs_q s)\<lparr>pMsgList := ?ns[n := (?ns ! n)\<lparr>msg := b, msgRealSize := length m\<rparr>]\<rparr>"
    using fill_node_copies [OF assms(1) mem] assms(4) unfolding b_def by simp
  let ?s = "s\<lparr>qs_q := q, qs_senders := (qs_senders s)[i := S_filled m n]\<rparr>"
  have bq: "bodies (pMsgList q) = bs" unfolding bs_def q bodies_def by (simp add: map_update)
  have dl: "dlist (pMsgList q) h xs" if "dlist ?ns h xs" "n \<notin> set xs" for h xs
    by (rule dlist_cong [OF that(1)]) (use q that(2) in \<open>auto simp: nth_upd\<close>)
  show "queue_lists (qs_q ?s) fs us"
    using at(1) dl held unfolding queue_lists_def by (simp add: q)
  show "nodes_inv ?s fs us"
    by (rule nodes_inv_sender [where x = "S_filled m n", OF at(2) assms(2)]) (use q assms(3) in simp_all)
  show "sems_inv ?s fs us"
    by (rule sems_inv_sender [where x = "S_filled m n", OF at(3) assms(2)]) (use q assms(3) in simp_all)
  have us: "map (message_at bs) us = map (message_at ?bs) us"
    using held(2) by (auto simp: bs_def message_at_def nth_upd)
  have new: "message_at bs n = m" using held(3) by (simp add: bs_def message_at_def bodies_def b_def)
  have lb: "length b = length (msg (?ns ! n))"
  proof -
    have "(msgRealSize (?ns ! n), msg (?ns ! n)) \<in> set ?bs" using held(3) by (auto simp: bodies_def)
    then have "maxSizeOfMsg (qs_q s) \<le> length (msg (?ns ! n))"
      using at(4) unfolding data_inv_def Let_def by fastforce
    then show ?thesis using data_inv_knows(1) [OF at(4) mem] by (simp add: b_def)
  qed
  have "s_knows (maxSizeOfMsg (qs_q s)) bs x" if "x \<in> set ((qs_senders s)[i := S_filled m n])" for x
  proof -
    have "x = S_filled m n \<or> x \<in> set ((qs_senders s)[i := S_posted])"
      using update_others [OF that assms(2)] .
    then show ?thesis
    proof
      assume x: "x \<in> set ((qs_senders s)[i := S_posted])"
      then have "s_knows (maxSizeOfMsg (qs_q s)) ?bs x"
        using update_old [OF x] data_inv_knows(1) [OF at(4)] by auto
      then show ?thesis
        unfolding bs_def by (rule s_knows_other [OF held_once(1) [OF at(2) assms(2) hi x]])
    qed (simp add: new)
  qed
  moreover have "r_knows bs y" if "y \<in> set (qs_receivers s)" for y
    unfolding bs_def
    by (rule r_knows_other [OF held_once(2) [OF at(2) assms(2) hi that] data_inv_knows(2) [OF at(4) that]])
  moreover have "fst x \<le> length (snd x) \<and> maxSizeOfMsg (qs_q s) \<le> length (snd x)" if "x \<in> set bs" for x
  proof -
    have old: "x \<in> set ?bs \<Longrightarrow> fst x \<le> length (snd x) \<and> maxSizeOfMsg (qs_q s) \<le> length (snd x)" for x
      using at(4) unfolding data_inv_def Let_def by blast
    have "x = (length m, b) \<or> x \<in> set ?bs" using update_old that unfolding bs_def by fast
    moreover have "maxSizeOfMsg (qs_q s) \<le> length b"
      using old [of "?bs ! n"] held(3) lb by (simp add: bodies_def)
    ultimately show ?thesis using old [of x] by (cases "x = (length m, b)") (simp_all add: b_def)
  qed
  ultimately show "data_inv ?s us"
    using data_inv_sent [OF at(4)] us q bq unfolding data_inv_def Let_def by simp
qed

lemma queue_inv_step:
  assumes "queue_inv s" and "queue_step s s'"
  shows "queue_inv s'"
proof -
  obtain fs us where at: "queue_at s fs us" using assms(1) by (auto simp: queue_inv_def)
  show ?thesis
    using assms(2)
  proof (cases rule: queue_step.cases)
    case (send_obtain i m c)
    show ?thesis
      by (rule queue_invI [OF queue_at_sender [OF at send_obtain(2),
          where s' = s' and a = c and b = "recvSemaphore (qs_q s)" and x = "S_slot m"]])
        (use send_obtain in simp_all)
  next
    case (send_timeout i m)
    show ?thesis
      by (rule queue_invI [OF queue_at_sender [OF at send_timeout(2),
          where s' = s' and a = "sendSemaphore (qs_q s)" and b = "recvSemaphore (qs_q s)" and x = "S_ret False"]]) (use send_timeout in simp_all)
  next
    case (send_claim i m r q x)
    then show ?thesis using queue_invI [OF queue_at_claim [OF at send_claim(2-5)]] by simp
  next
    case (send_copy i m n q)
    then show ?thesis using queue_invI [OF queue_at_copy [OF at send_copy(2-4)]] by simp
  next
    case (send_post i m n q)
    then show ?thesis using queue_invI [OF queue_at_post [OF at send_post(2-4)]] by simp
  next
    case (send_release i)
    show ?thesis
      by (rule queue_invI [OF queue_at_sender [OF at send_release(2),
          where s' = s' and a = "sendSemaphore (qs_q s)" and b = "Suc (recvSemaphore (qs_q s))" and x = "S_ret True"]]) (use send_release in simp_all)
  next
    case (send_refuse i n q)
    then show ?thesis using queue_invI [OF queue_at_refuse [OF at send_refuse(2-4)]] by simp
  next
    case (recv_obtain i k c)
    show ?thesis
      by (rule queue_invI [OF queue_at_receiver [OF at recv_obtain(2),
          where s' = s' and a = "sendSemaphore (qs_q s)" and b = c and x = "R_token k"]])
        (use recv_obtain in simp_all)
  next
    case (recv_timeout i k)
    show ?thesis
      by (rule queue_invI [OF queue_at_receiver [OF at recv_timeout(2),
          where s' = s' and a = "sendSemaphore (qs_q s)" and b = "recvSemaphore (qs_q s)" and x = "R_ret None"]]) (use recv_timeout in simp_all)
  next
    case (recv_take i k n q)
    then show ?thesis using queue_invI [OF queue_at_take [OF at recv_take(2-4)]] by simp
  next
    case (recv_none i k q)
    then have "R_token k \<in> set (qs_receivers s)" using nth_mem by metis
    then show ?thesis using take_finds_node [OF at] recv_none(4) by fastforce
  next
    case (recv_copy i k n m bs)
    show ?thesis
      by (rule queue_invI [OF queue_at_receiver [OF at recv_copy(2),
          where s' = s' and a = "sendSemaphore (qs_q s)" and b = "recvSemaphore (qs_q s)" and x = "R_copied bs n"]]) (use recv_copy in simp_all)
  next
    case (recv_free i bs n q)
    then show ?thesis using queue_invI [OF queue_at_free [OF at recv_free(2-4)]] by simp
  next
    case (recv_release i bs)
    show ?thesis
      by (rule queue_invI [OF queue_at_receiver [OF at recv_release(2),
          where s' = s' and a = "Suc (sendSemaphore (qs_q s))" and b = "recvSemaphore (qs_q s)" and x = "R_ret (Some bs)"]]) (use recv_release in simp_all)
  qed
qed

section \<open>A queue just created\<close>

lemma add_free_step: "i < maxNumOfMsgs q \<Longrightarrow> add_free (Some q) i = AddToListTail q True i"
  by (simp add: add_free_def getNodeByIndex_def)

lemma add_free_all:
  assumes "k \<le> length (pMsgList q)" and "maxNumOfMsgs q = length (pMsgList q)"
    and "pFreeHead q = None" and "pUsedHead q = None"
  shows "\<exists>ns h. foldl add_free (Some q) [0..<k] = Some (q\<lparr>pMsgList := ns, pFreeHead := h\<rparr>) \<and>
    queue_lists (q\<lparr>pMsgList := ns, pFreeHead := h\<rparr>) [0..<k] [] \<and>
    bodies ns = bodies (pMsgList q) \<and> length ns = length (pMsgList q)"
  using assms
proof (induction k)
  case 0
  then show ?case by - (rule exI [of _ "pMsgList q"], rule exI [of _ None], simp add: queue_lists_def)
next
  case (Suc k)
  then obtain ns h where ih: "foldl add_free (Some q) [0..<k] = Some (q\<lparr>pMsgList := ns, pFreeHead := h\<rparr>)"
      "queue_lists (q\<lparr>pMsgList := ns, pFreeHead := h\<rparr>) [0..<k] []"
      "bodies ns = bodies (pMsgList q)" "length ns = length (pMsgList q)"
    by (meson Suc_leD)
  then obtain ns' h' where "AddToListTail (q\<lparr>pMsgList := ns, pFreeHead := h\<rparr>) True k =
        Some (q\<lparr>pMsgList := ns', pFreeHead := h'\<rparr>)"
      "queue_lists (q\<lparr>pMsgList := ns', pFreeHead := h'\<rparr>) ([0..<k] @ [k]) []"
      "bodies ns' = bodies ns" "length ns' = length ns"
    using AddToListTail_free [OF ih(2), of k] Suc.prems(1) by auto
  then show ?case
    using ih Suc.prems
    by - (rule exI [of _ ns'], rule exI [of _ h'], simp add: add_free_step)
qed

lemma tally_zero: "(\<And>x. x \<in> set xs \<Longrightarrow> f x = 0) \<Longrightarrow> tally f xs = (0 :: 'n::comm_monoid_add)"
  by (induction xs) (auto simp: tally_def)

lemma queue_start_inv: "queue_start s \<Longrightarrow> queue_inv s"
proof -
  assume "queue_start s"
  then obtain n sz q ms ks where c: "MsOS_CreateQueue n sz = Some (Some q)"
    and s: "s = \<lparr>qs_q = q, qs_senders = map S_call ms, qs_receivers = map R_call ks,
          qs_sent = [], qs_got = [], qs_refused = 0\<rparr>"
    unfolding queue_start_def by blast
  define q0 where "q0 = \<lparr>sendSemaphore = 0, recvSemaphore = 0, maxNumOfMsgs = n,
                maxSizeOfMsg = sz,
                pMsgList = replicate n \<lparr>mn_prev = None, mn_next = None, msgRealSize = 0,
                   msg = replicate (MsOS_MSG_SIZE sz) 0\<rparr>,
                pFreeHead = None, pUsedHead = None\<rparr>"
  obtain ns h where q: "foldl add_free (Some q0) [0..<n] = Some (q0\<lparr>pMsgList := ns, pFreeHead := h\<rparr>)"
      "queue_lists (q0\<lparr>pMsgList := ns, pFreeHead := h\<rparr>) [0..<n] []"
      "bodies ns = bodies (pMsgList q0)" "length ns = length (pMsgList q0)"
    using add_free_all [of n q0] by (auto simp: q0_def)
  have eq: "q = (q0\<lparr>pMsgList := ns, pFreeHead := h\<rparr>)\<lparr>sendSemaphore := n, recvSemaphore := 0\<rparr>"
    using c q(1) unfolding MsOS_CreateQueue_def q0_def [symmetric] by (auto simp: q0_def split: if_splits)
  have t: "tally s_holds (map S_call ms) = {#}" "tally r_holds (map R_call ks) = {#}"
      "tally s_slot (map S_call ms) = 0" "tally s_posted (map S_call ms) = 0"
      "tally r_token (map R_call ks) = 0" "tally r_freed (map R_call ks) = 0"
    by (intro tally_zero; auto)+
  have sz: "sz \<le> MsOS_MSG_SIZE sz" unfolding MsOS_MSG_SIZE_def by presburger
  have b: "fst x \<le> length (snd x) \<and> sz \<le> length (snd x)" if "x \<in> set (bodies ns)" for x
    using that sz unfolding q(3) by (auto simp: bodies_def q0_def)
  have "queue_at s [0..<n] []"
    unfolding queue_at_def
  proof (intro conjI)
    show "queue_lists (qs_q s) [0..<n] []" using q(2) by (simp add: s eq queue_lists_def)
    show "nodes_inv s [0..<n] []" using q(4) t by (simp add: nodes_inv_def s eq q0_def)
    show "sems_inv s [0..<n] []" using t by (simp add: sems_inv_def s eq)
    show "data_inv s []" using b by (simp add: data_inv_def s eq q0_def)
  qed
  then show "queue_inv s" by (rule queue_invI)
qed

interpretation mq: inv_system queue_start queue_step queue_inv
proof
  show "queue_inv s" if "queue_start s" for s using that by (rule queue_start_inv)
  show "queue_inv s'" if "queue_inv s" "queue_step s s'" for s s' using that by (rule queue_inv_step)
qed

lemma node_message_at: "n < length (pMsgList q) \<Longrightarrow> node_message q n = message_at (bodies (pMsgList q)) n"
  by (simp add: node_message_def message_at_def bodies_def)

lemma read_node_prefix:
  assumes "queue_at s fs us" and "R_node k n m \<in> set (qs_receivers s)"
  shows "read_node (qs_q s) n k = Some (take k m)"
proof -
  note at = queue_atD [OF assms(1)]
  let ?nd = "pMsgList (qs_q s) ! n"
  have n: "n < length (pMsgList (qs_q s))" using nodes_disjoint(3) [OF at(2) assms(2), of n] by simp
  then have "(msgRealSize ?nd, msg ?nd) \<in> set (bodies (pMsgList (qs_q s)))" by (auto simp: bodies_def)
  then have "msgRealSize ?nd \<le> length (msg ?nd)"
    using at(4) unfolding data_inv_def Let_def by fastforce
  moreover have "m = take (msgRealSize ?nd) (msg ?nd)"
    using data_inv_knows(2) [OF at(4) assms(2)] node_message_at [OF n] by (simp add: node_message_def)
  ultimately show ?thesis using n by (auto simp: read_node_def get_node_def mem_simps min_def)
qed

text \<open>A refused message keeps its slot; once every slot has gone that way, nothing moves.\<close>

definition wedged :: "qsys \<Rightarrow> bool" where
  "wedged s \<longleftrightarrow> qs_refused s = length (pMsgList (qs_q s))"

lemma wedged_threads:
  assumes "queue_inv s" and "wedged s"
  shows "sendSemaphore (qs_q s) = 0 \<and> recvSemaphore (qs_q s) = 0 \<and>
    (\<forall>x \<in> set (qs_senders s). s_holds x = {#} \<and> s_slot x = 0) \<and>
    (\<forall>y \<in> set (qs_receivers s). r_holds y = {#} \<and> r_token y = 0)"
proof -
  obtain fs us where at: "queue_at s fs us" using assms(1) by (auto simp: queue_inv_def)
  note n = queue_atD(2) [OF at] and c = queue_atD(3) [OF at]
  have "size (mset fs + mset us + tally s_holds (qs_senders s) + tally r_holds (qs_receivers s)) =
      length (pMsgList (qs_q s))"
    using n unfolding nodes_inv_def by simp
  then have t: "length us = 0" "size (tally s_holds (qs_senders s)) = 0"
      "size (tally r_holds (qs_receivers s)) = 0" "sendSemaphore (qs_q s) = 0" "tally s_slot (qs_senders s) = 0"
    using c assms(2) unfolding sems_inv_def wedged_def by simp_all
  have "s_holds x = {#} \<and> s_slot x = 0" if "x \<in> set (qs_senders s)" for x
    using tally_mem [OF that, of s_holds] tally_mem_nat [OF that, of s_slot] t by simp
  moreover have "r_holds y = {#} \<and> r_token y = 0" if "y \<in> set (qs_receivers s)" for y
    using tally_mem [OF that, of r_holds] tally_mem_nat [OF that, of r_token] t c
    unfolding sems_inv_def by simp
  ultimately show ?thesis using t c unfolding sems_inv_def by simp
qed

lemma wedged_step:
  assumes "queue_inv s" and "wedged s" and "queue_step s s'"
  shows "wedged s' \<and> qs_sent s' = qs_sent s"
proof -
  note w = wedged_threads [OF assms(1,2)]
  have sx: "s_holds (qs_senders s ! i) = {#} \<and> s_slot (qs_senders s ! i) = 0" if "i < length (qs_senders s)" for i
    using w nth_mem [OF that] by blast
  have rx: "r_holds (qs_receivers s ! i) = {#} \<and> r_token (qs_receivers s ! i) = 0" if "i < length (qs_receivers s)" for i
    using w nth_mem [OF that] by blast
  show ?thesis
    using assms(3)
  proof (cases rule: queue_step.cases)
    case (send_claim i m r q x) then show ?thesis using sx [of i] by simp
  next
    case (send_copy i m n q) then show ?thesis using sx [of i] by simp
  next
    case (send_post i m n q) then show ?thesis using sx [of i] by simp
  next
    case (send_refuse i n q) then show ?thesis using sx [of i] by simp
  next
    case (recv_take i k n q) then show ?thesis using rx [of i] by simp
  next
    case (recv_none i k q) then show ?thesis using rx [of i] by simp
  next
    case (recv_free i bs n q) then show ?thesis using rx [of i] by simp
  qed (use assms(2) w in \<open>simp_all add: wedged_def\<close>)
qed

section \<open>Properties\<close>

text \<open>A queue for one message of four bytes, and two callers, one with a message of five.\<close>

definition demo_node :: "nat option \<Rightarrow> msg_node" where
  "demo_node p = \<lparr>mn_prev = p, mn_next = None, msgRealSize = 0, msg = [0, 0, 0, 0]\<rparr>"

definition demo_msgq :: "nat \<Rightarrow> nat option \<Rightarrow> os_queue" where
  "demo_msgq c h = \<lparr>sendSemaphore = c, recvSemaphore = 0, maxNumOfMsgs = 1, maxSizeOfMsg = 4,
     pMsgList = [demo_node (Some 0)], pFreeHead = h, pUsedHead = None\<rparr>"

definition demo_queue :: "nat \<Rightarrow> nat option \<Rightarrow> sender \<Rightarrow> nat \<Rightarrow> qsys" where
  "demo_queue c h x r = \<lparr>qs_q = demo_msgq c h, qs_senders = [x, S_call [7]], qs_receivers = [R_call 2],
     qs_sent = [], qs_got = [], qs_refused = r\<rparr>"

lemma demo_created: "MsOS_CreateQueue 1 4 = Some (Some (demo_msgq 1 (Some 0)))"
proof -
  have l: "link_tail [demo_node None] None 0 = Some ([demo_node (Some 0)], Some 0)"
    by (simp add: link_tail_def get_node_def demo_node_def)
  have z: "replicate (MsOS_MSG_SIZE 4) (0 :: u8) = [0, 0, 0, 0]" by code_simp
  have n: "replicate 1 \<lparr>mn_prev = None, mn_next = None, msgRealSize = 0, msg = replicate (MsOS_MSG_SIZE 4) 0\<rparr> =
      [demo_node None]"
    unfolding z demo_node_def by simp
  have "foldl add_free (Some \<lparr>sendSemaphore = 0, recvSemaphore = 0, maxNumOfMsgs = 1, maxSizeOfMsg = 4,
      pMsgList = [demo_node None], pFreeHead = None, pUsedHead = None\<rparr>) [0..<1] =
    Some (demo_msgq 0 (Some 0))"
    by (simp add: add_free_step AddToListTail_def l demo_msgq_def)
  then show ?thesis unfolding MsOS_CreateQueue_def n by (simp add: demo_msgq_def)
qed

lemma demo_reach_start: "reach queue_start queue_step (demo_queue 1 (Some 0) (S_call [1, 2, 3, 4, 5]) 0)"
proof -
  have "queue_start (demo_queue 1 (Some 0) (S_call [1, 2, 3, 4, 5]) 0)"
    unfolding queue_start_def
  proof (intro exI conjI)
    show "MsOS_CreateQueue 1 4 = Some (Some (demo_msgq 1 (Some 0)))" by (rule demo_created)
    show "demo_queue 1 (Some 0) (S_call [1, 2, 3, 4, 5]) 0 =
        \<lparr>qs_q = demo_msgq 1 (Some 0), qs_senders = map S_call [[1, 2, 3, 4, 5], [7]],
         qs_receivers = map R_call [2], qs_sent = [], qs_got = [], qs_refused = 0\<rparr>"
      by (simp add: demo_queue_def)
  qed
  then show ?thesis by (rule reach_start [where start = queue_start])
qed

lemma demo_reach_slot: "reach queue_start queue_step (demo_queue 0 (Some 0) (S_slot [1, 2, 3, 4, 5]) 0)"
proof -
  have "queue_step (demo_queue 1 (Some 0) (S_call [1, 2, 3, 4, 5]) 0) (demo_queue 0 (Some 0) (S_slot [1, 2, 3, 4, 5]) 0)"
    using send_obtain [of 0 "demo_queue 1 (Some 0) (S_call [1, 2, 3, 4, 5]) 0" "[1, 2, 3, 4, 5]" 0]
    by (simp add: demo_queue_def demo_msgq_def)
  then show ?thesis by (rule reach_step [OF demo_reach_start])
qed

lemma demo_reach_refused: "reach queue_start queue_step (demo_queue 0 (Some 0) (S_ret False) 1)"
proof -
  have "RemoveFromListHead (demo_msgq 0 (Some 0)) True = Some (Some 0, demo_msgq 0 None)"
    by (simp add: RemoveFromListHead_def demo_msgq_def unlink_head_def get_node_def demo_node_def)
  then have 1: "queue_step (demo_queue 0 (Some 0) (S_slot [1, 2, 3, 4, 5]) 0) (demo_queue 0 None (S_bad 0) 0)"
    using send_claim [of 0 "demo_queue 0 (Some 0) (S_slot [1, 2, 3, 4, 5]) 0" "[1, 2, 3, 4, 5]" "Some 0" "demo_msgq 0 None" "S_bad 0"]
    by (simp add: demo_queue_def) (simp add: demo_msgq_def)
  have "AddToListTail (demo_msgq 0 None) True 0 = Some (demo_msgq 0 (Some 0))"
    by (simp add: AddToListTail_def link_tail_def get_node_def demo_msgq_def demo_node_def)
  then have 2: "queue_step (demo_queue 0 None (S_bad 0) 0) (demo_queue 0 (Some 0) (S_ret False) 1)"
    using send_refuse [of 0 "demo_queue 0 None (S_bad 0) 0" 0 "demo_msgq 0 (Some 0)"]
    by (simp add: demo_queue_def)
  show ?thesis by (rule reach_step [OF reach_step [OF demo_reach_slot 1] 2])
qed

text \<open>
  C24: messages arrive once and in order, whatever the interleaving. In every reachable state the
  nodes of the pool are exactly the free ones, the used ones and those in the hands of one thread
  each, no node twice, and the messages posted are the messages taken followed by those in the
  nodes of the used list, from its head on.
\<close>

theorem queue_fifo:
  assumes "reach queue_start queue_step s"
  shows "\<exists>fs us. dlist (pMsgList (qs_q s)) (pFreeHead (qs_q s)) fs \<and>
    dlist (pMsgList (qs_q s)) (pUsedHead (qs_q s)) us \<and>
    mset fs + mset us + tally s_holds (qs_senders s) + tally r_holds (qs_receivers s) =
      mset [0..<length (pMsgList (qs_q s))] \<and>
    qs_sent s = qs_got s @ map (node_message (qs_q s)) us"
proof -
  obtain fs us where at: "queue_at s fs us"
    using mq.reach_inv [OF assms] by (auto simp: queue_inv_def)
  note q = queue_atD [OF at]
  have "map (node_message (qs_q s)) us = map (message_at (bodies (pMsgList (qs_q s)))) us"
    using q(1) node_message_at by (auto simp: queue_lists_def dlist_def)
  then show ?thesis
    using q(1,2) data_inv_sent [OF q(4)] unfolding queue_lists_def nodes_inv_def by metis
qed

lemma queue_fifo_witness:
  "\<exists>us. qs_sent (demo_queue 0 (Some 0) (S_ret False) 1) =
     qs_got (demo_queue 0 (Some 0) (S_ret False) 1) @ map (node_message (demo_msgq 0 (Some 0))) us"
  using queue_fifo [OF demo_reach_refused] by (auto simp: demo_queue_def)

text \<open>
  Whoever has passed a semaphore gets what it stands for. A sender with a slot finds a free
  node and a receiver with a token a used one, so neither operation fails nor dereferences a null
  pointer there, and a receiver reads the message of its node, cut to the size it asked for.
\<close>

theorem queue_calls_succeed:
  assumes "reach queue_start queue_step s"
  shows "(S_slot m \<in> set (qs_senders s) \<longrightarrow> (\<exists>n q. RemoveFromListHead (qs_q s) True = Some (Some n, q))) \<and>
    (R_token k \<in> set (qs_receivers s) \<longrightarrow> (\<exists>n q. RemoveFromListHead (qs_q s) False = Some (Some n, q))) \<and>
    (R_node k n x \<in> set (qs_receivers s) \<longrightarrow> read_node (qs_q s) n k = Some (take k x))"
proof -
  obtain fs us where at: "queue_at s fs us"
    using mq.reach_inv [OF assms] by (auto simp: queue_inv_def)
  show ?thesis using claim_finds_node [OF at] take_finds_node [OF at] read_node_prefix [OF at] by blast
qed

lemma queue_calls_succeed_witness:
  "\<exists>n q. RemoveFromListHead (demo_msgq 0 (Some 0)) True = Some (Some n, q)"
  using queue_calls_succeed [OF demo_reach_slot, of "[1, 2, 3, 4, 5]" 0 0 "[]"] by (simp add: demo_queue_def)

text \<open>
  A message longer than the queue allows costs a slot for ever: \<^verbatim>\<open>MsOS_SendToQueue\<close> gives
  the node back but not the semaphore. After as many of them as the queue has nodes no slot is
  left and no message is ever posted again.
\<close>

theorem queue_wedged:
  assumes "reach queue_start queue_step s" and "qs_refused s = length (pMsgList (qs_q s))"
    and "queue_step\<^sup>*\<^sup>* s s'"
  shows "sendSemaphore (qs_q s') = 0 \<and> qs_sent s' = qs_sent s"
  using assms(3)
proof -
  have inv: "queue_inv s" by (rule mq.reach_inv [OF assms(1)])
  have "wedged s' \<and> qs_sent s' = qs_sent s"
    using assms(3)
  proof (induction rule: rtranclp_induct)
    case base
    show ?case using assms(2) by (simp add: wedged_def)
  next
    case (step t t')
    then show ?case using wedged_step [OF mq.star_inv [OF step(1) inv]] by metis
  qed
  then show ?thesis using wedged_threads [OF mq.star_inv [OF assms(3) inv]] by blast
qed

lemma queue_wedged_witness: "sendSemaphore (qs_q (demo_queue 0 (Some 0) (S_ret False) 1)) = 0"
  using queue_wedged [OF demo_reach_refused, of "demo_queue 0 (Some 0) (S_ret False) 1"]
  by (simp add: demo_queue_def demo_msgq_def)

end
