(* ===== verification/Jd9367.thy ===== *)
theory Jd9367
  imports InitCode IcManager Reach
begin

text \<open>
  The driver of the JD9367 panel controller, \<^verbatim>\<open>icm/chips/chip_jd9367.c\<close>, over the interpreter of
  initialisation codes and the register reads of the bridge. \<^verbatim>\<open>ENABlE_OTP_BURN\<close> is defined, as in
  the Makefile. The environment of the driver is part of its state: what the local array of
  \<^verbatim>\<open>SendCode\<close> holds at a call, and the effect of switching the display off and on
  (\<^verbatim>\<open>client_pg_shutON\<close>). Plain \<^verbatim>\<open>char\<close> is unsigned, as on the target.
\<close>

record jd_info =
  ji_id :: "u8 list"
  id_ok :: u8
  ji_vcom1 :: u32
  ji_vcom1_otp_times :: u32
  ji_vcom2 :: u32
  ji_vcom2_otp_times :: u32

record jd_world =
  jw_send :: send_state
  jw_info :: "jd_info list"
  jw_junk :: "bus \<Rightarrow> u8 list"
  jw_shutON :: "bool \<Rightarrow> int \<Rightarrow> bus \<Rightarrow> bus"

definition jw_bus :: "jd_world \<Rightarrow> bus" where
  "jw_bus w = sc_bus (jw_send w)"

definition on_jbus :: "(bus \<Rightarrow> bus) \<Rightarrow> jd_world \<Rightarrow> jd_world" where
  "on_jbus f w = w\<lparr>jw_send := on_bus f (jw_send w)\<rparr>"

definition jsleep :: "nat \<Rightarrow> jd_world \<Rightarrow> jd_world" where
  "jsleep us = on_jbus (emit (Usleep us))"

text \<open>An array of 100 bytes initialised with some commands and six end bytes.\<close>

definition code_array :: "mipi_cmd list \<Rightarrow> u8 list" where
  "code_array cs = (let c = encode cs @ replicate 6 0xff in c @ replicate (100 - length c) 0)"

definition send_array :: "int \<Rightarrow> u8 list \<Rightarrow> jd_world \<Rightarrow> jd_world option" where
  "send_array channel code w =
     map_option (\<lambda>s. w\<lparr>jw_send := s\<rparr>)
       (SendCode channel (jw_junk w (jw_bus w)) ((jw_send w)\<lparr>sc_code := code\<rparr>))"

definition send_cmds :: "int \<Rightarrow> mipi_cmd list \<Rightarrow> jd_world \<Rightarrow> jd_world option" where
  "send_cmds channel cs = send_array channel (code_array cs)"

text \<open>Reading one register into a variable that holds \<open>old\<close>: a read that fails leaves it.\<close>

definition read_var :: "int \<Rightarrow> u8 \<Rightarrow> u8 \<Rightarrow> jd_world \<Rightarrow> u8 \<times> jd_world" where
  "read_var channel reg old w =
     (let (n, bytes, b) = ReadModReg channel 1 reg 1 (jw_bus w) in
      (case bytes of Some (v # _) \<Rightarrow> v | _ \<Rightarrow> old, on_jbus (\<lambda>_. b) w))"

section \<open>The procedures on registers and memory\<close>

definition qc_do_sleep_out :: "int \<Rightarrow> jd_world \<Rightarrow> jd_world option" where
  "qc_do_sleep_out channel w =
     map_option (jsleep (120 * 1000)) (send_cmds channel [(0x39, 0xE0, [0x00]), (0x39, 0x28, [])] w)"

definition qc_do_sleep_in :: "int \<Rightarrow> jd_world \<Rightarrow> jd_world option" where
  "qc_do_sleep_in channel w =
     map_option (jsleep (120 * 1000)) (send_cmds channel [(0x39, 0xE0, [0x00]), (0x39, 0x29, [])] w)"

definition qc_read_otp_data_reg :: "int \<Rightarrow> u16 \<Rightarrow> jd_world \<Rightarrow> (u8 \<times> jd_world) option" where
  "qc_read_otp_data_reg channel otp_index w =
     map_option (read_var channel 0xED 0)
       (send_cmds channel
         [(0x39, 0xEA, [ucast (drop_bit 8 otp_index)]), (0x39, 0xEB, [ucast (otp_index AND 0xFF)]),
          (0x39, 0xEC, [0x11]), (0x39, 0xEC, [0x10])] w)"

definition qc_read_reg :: "int \<Rightarrow> u8 \<Rightarrow> u8 \<Rightarrow> jd_world \<Rightarrow> (u8 \<times> jd_world) option" where
  "qc_read_reg channel page reg w =
     map_option (read_var channel reg 0) (send_cmds channel [(0x39, 0xE0, [page])] w)"

definition cmd_enable_extend :: "mipi_cmd list" where
  "cmd_enable_extend =
     [(0x39, 0xE0, [0x00]), (0x39, 0xE1, [0x93]), (0x39, 0xE2, [0x65]), (0x39, 0xE3, [0xF8])]"

definition cmd_e5 :: "mipi_cmd list" where
  "cmd_e5 = [(0x39, 0xE5, [0x00])]"

definition cmd28_10 :: "mipi_cmd list" where
  "cmd28_10 = [(0x39, 0xE0, [0x00]), (0x05, 0x28, []), (0x05, 0x10, [])]"

definition cmd_enable_up_key :: "mipi_cmd list" where
  "cmd_enable_up_key = [(0x39, 0xE0, [0x00]), (0x39, 0x84, [0x5A]), (0x39, 0x85, [0xA5])]"

definition cmd_otp_end :: "mipi_cmd list" where
  "cmd_otp_end = [(0x39, 0x84, [0x00]), (0x39, 0x85, [0x00])]"

definition cmd_otp_index :: "u8 \<Rightarrow> u8 \<Rightarrow> mipi_cmd list" where
  "cmd_otp_index index prog = [(0x39, 0xEA, [0x00]), (0x39, 0xEB, [index]), (0x39, 0xEC, [prog])]"

text \<open>The internal supply: the procedures for VCOM select page 0 before its register, the one for the id does not.\<close>

definition cmd_inter_power_vcom :: "mipi_cmd list" where
  "cmd_inter_power_vcom =
     [(0x39, 0xE0, [0x01]), (0x39, 0x1D, [0x01]), (0x39, 0x1E, [0x03]),
      (0x39, 0xE0, [0x00]), (0x39, 0xEC, [0x02]),
      (0x39, 0xE0, [0x00]), (0x05, 0x11, [])]"

definition cmd_inter_power_id :: "mipi_cmd list" where
  "cmd_inter_power_id =
     [(0x39, 0xE0, [0x01]), (0x39, 0x1D, [0x01]), (0x39, 0x1E, [0x03]),
      (0x39, 0xEC, [0x02]),
      (0x39, 0xE0, [0x00]), (0x05, 0x11, [])]"

definition cmd_mtp_power :: "mipi_cmd list" where
  "cmd_mtp_power =
     [(0x39, 0xE0, [0x00]), (0x39, 0xEC, [0x00]), (0x39, 0xE0, [0x00]), (0x05, 0x11, [])]"

definition cmd_write_vcom :: "u8 \<Rightarrow> u8 \<Rightarrow> u8 \<Rightarrow> u8 \<Rightarrow> mipi_cmd list" where
  "cmd_write_vcom reg_h reg_l vcom_h vcom_l =
     [(0x39, 0xE0, [0x01]), (0x39, reg_h, [vcom_h]), (0x39, reg_l, [vcom_l])]"

text \<open>Restarting the display at the end of a procedure.\<close>

definition show_again :: "int \<Rightarrow> jd_world \<Rightarrow> jd_world" where
  "show_again ptn_id w = on_jbus (jw_shutON w True ptn_id) (on_jbus (jw_shutON w False ptn_id) w)"

definition otp_begin :: "int \<Rightarrow> jd_world \<Rightarrow> jd_world option" where
  "otp_begin channel w = do {
     w \<leftarrow> send_cmds channel cmd_enable_extend w;
     w \<leftarrow> send_cmds channel cmd_e5 w;
     w \<leftarrow> send_cmds channel cmd28_10 w;
     Some (jsleep (240 * 1000) w) }"

definition qc_otp_vcom :: "int \<Rightarrow> u8 \<Rightarrow> u8 \<Rightarrow> int \<Rightarrow> jd_world \<Rightarrow> (int \<times> jd_world) option" where
  "qc_otp_vcom channel vcom_h vcom_l ptn_id w = do {
     w \<leftarrow> otp_begin channel w;
     w \<leftarrow> send_cmds channel cmd_inter_power_vcom w;
     w \<leftarrow> send_cmds channel (cmd_write_vcom 0x00 0x01 vcom_h vcom_l) (jsleep (240 * 1000) w);
     w \<leftarrow> send_cmds channel cmd_enable_up_key w;
     w \<leftarrow> send_cmds channel (cmd_otp_index 0x26 0x03) w;
     w \<leftarrow> send_cmds channel cmd_otp_end (jsleep (200 * 1000) w);
     Some (0, show_again ptn_id w) }"

definition qc_otp_vcom_r :: "int \<Rightarrow> u8 \<Rightarrow> u8 \<Rightarrow> int \<Rightarrow> jd_world \<Rightarrow> (int \<times> jd_world) option" where
  "qc_otp_vcom_r channel vcom_h vcom_l ptn_id w = do {
     w \<leftarrow> otp_begin channel w;
     w \<leftarrow> send_cmds channel cmd_inter_power_vcom w;
     w \<leftarrow> send_cmds channel (cmd_write_vcom 0x03 0x04 vcom_h vcom_l) (jsleep (240 * 1000) w);
     w \<leftarrow> send_cmds channel cmd_enable_up_key w;
     w \<leftarrow> send_cmds channel (cmd_otp_index 0x30 0x03) w;
     w \<leftarrow> send_cmds channel cmd_otp_end (jsleep (200 * 1000) w);
     Some (0, show_again ptn_id w) }"

text \<open>With the external supply of the memory, and the reverse register (\<^verbatim>\<open>VCOM_R_TEST\<close>).\<close>

definition qc_otp_vcom_by_mtp :: "int \<Rightarrow> u8 \<Rightarrow> u8 \<Rightarrow> int \<Rightarrow> jd_world \<Rightarrow> (int \<times> jd_world) option" where
  "qc_otp_vcom_by_mtp channel vcom_h vcom_l ptn_id w = do {
     w \<leftarrow> otp_begin channel w;
     w \<leftarrow> send_cmds channel cmd_mtp_power (jsleep (200 * 1000) (on_jbus (mtp_power_on channel) w));
     w \<leftarrow> send_cmds channel (cmd_write_vcom 0x03 0x04 vcom_h vcom_l) (jsleep (240 * 1000) w);
     w \<leftarrow> send_cmds channel cmd_enable_up_key w;
     w \<leftarrow> send_cmds channel (cmd_otp_index 0x30 0x01) w;
     w \<leftarrow> send_cmds channel cmd_otp_end (jsleep (20 * 1000) w);
     Some (0, show_again ptn_id (on_jbus (mtp_power_off channel) w)) }"

definition qc_otp_id :: "int \<Rightarrow> u8 \<Rightarrow> u8 \<Rightarrow> u16 \<Rightarrow> int \<Rightarrow> jd_world \<Rightarrow> (int \<times> jd_world) option" where
  "qc_otp_id channel id1 id2 id3 ptn_id w = do {
     w \<leftarrow> otp_begin channel w;
     w \<leftarrow> send_cmds channel cmd_inter_power_id w;
     w \<leftarrow> send_cmds channel
       [(0x39, 0xE0, [0x00]), (0x39, 0x78, [id1]), (0x39, 0x79, [id2]), (0x39, 0x7A, [ucast id3])]
       (jsleep (240 * 1000) w);
     w \<leftarrow> send_cmds channel cmd_enable_up_key w;
     w \<leftarrow> send_cmds channel (cmd_otp_index 0x06 0x03) w;
     w \<leftarrow> send_cmds channel cmd_otp_end (jsleep (200 * 1000) w);
     w \<leftarrow> send_cmds channel [(0x39, 0xE0, [0x00]), (0x05, 0x29, [])] (jsleep (200 * 1000) w);
     Some (0, show_again ptn_id w) }"

text \<open>
  Reading the id and VCOM back: the code, the number of times the memory was written, and the
  bytes, unless that number is out of range.
\<close>

definition qc_otp_data_read_id ::
  "int \<Rightarrow> jd_world \<Rightarrow> (int \<times> u8 \<times> (u8 \<times> u8 \<times> u8) option \<times> jd_world) option" where
  "qc_otp_data_read_id mipi_channel w = do {
     w \<leftarrow> qc_do_sleep_out mipi_channel w;
     (otp_times, w) \<leftarrow> qc_read_reg mipi_channel 0 0x7C w;
     (case map_of [(1, 0x06), (2, 0x0B), (3, 0x10), (4, 0x15), (5, 0x1A)] otp_times of
        None \<Rightarrow> map_option (\<lambda>w. (-1, otp_times, None, w)) (qc_do_sleep_in mipi_channel w)
      | Some id_otp_index \<Rightarrow> do {
          (id1, w) \<leftarrow> qc_read_otp_data_reg mipi_channel (id_otp_index + 1) w;
          (id2, w) \<leftarrow> qc_read_otp_data_reg mipi_channel (id_otp_index + 2) w;
          (id3, w) \<leftarrow> qc_read_otp_data_reg mipi_channel (id_otp_index + 3) w;
          map_option (\<lambda>w. (0, otp_times, Some (id1, id2, id3), w)) (qc_do_sleep_in mipi_channel w) }) }"

definition qc_otp_data_read_vcom ::
  "int \<Rightarrow> jd_world \<Rightarrow> (int \<times> u8 \<times> (u8 \<times> u8) option \<times> jd_world) option" where
  "qc_otp_data_read_vcom mipi_channel w = do {
     w \<leftarrow> qc_do_sleep_out mipi_channel w;
     (otp_times, w) \<leftarrow> qc_read_reg mipi_channel 1 0x02 w;
     (case map_of [(1, 0x26), (2, 0x28), (3, 0x2A), (4, 0x2C), (5, 0x2E)] otp_times of
        None \<Rightarrow> map_option (\<lambda>w. (-1, otp_times, None, w)) (qc_do_sleep_in mipi_channel w)
      | Some vcom_otp_index \<Rightarrow> do {
          (vcom_h, w) \<leftarrow> qc_read_otp_data_reg mipi_channel vcom_otp_index w;
          (vcom_l, w) \<leftarrow> qc_read_otp_data_reg mipi_channel (vcom_otp_index + 1) w;
          map_option (\<lambda>w. (0, otp_times, Some (vcom_h, vcom_l), w)) (qc_do_sleep_in mipi_channel w) }) }"

definition qc_set_vcom_value :: "int \<Rightarrow> u16 \<Rightarrow> jd_world \<Rightarrow> (int \<times> jd_world) option" where
  "qc_set_vcom_value mipi_channel vcom w =
     map_option (Pair 0)
       (send_cmds mipi_channel
         [(0x39, 0xE0, [0x01]), (0x39, 0x00, [ucast (drop_bit 8 vcom)]), (0x39, 0x01, [ucast (vcom AND 0xFF)])] w)"

section \<open>The procedures on the register pages\<close>

definition jd_9367_set_page :: "int \<Rightarrow> u8 \<Rightarrow> jd_world \<Rightarrow> jd_world option" where
  "jd_9367_set_page channel page_no = send_cmds channel [(0x39, 0xE0, [page_no])]"

text \<open>The reads of the three bytes are switched off in the source.\<close>

definition jd_9367_check_id :: "int \<Rightarrow> jd_world \<Rightarrow> (int \<times> jd_world) option" where
  "jd_9367_check_id channel w =
     (let reg = [0, 0, 0] :: u8 list in
      map_option (Pair (if reg ! 0 = 0x93 \<and> reg ! 1 = 0x67 \<and> reg ! 2 = 0xFF then 0 else -1))
        (jd_9367_set_page channel 0 w))"

definition get_otp_times :: "u8 \<Rightarrow> u8" where
  "get_otp_times otp_value =
     (if otp_value = 0 then 0 else if otp_value = 1 then 1 else if otp_value = 3 then 2
      else if otp_value = 7 then 3 else 3)"

definition jd_9367_get_vcom_otp_times :: "int \<Rightarrow> jd_world \<Rightarrow> (int \<times> (u8 \<times> u8) \<times> jd_world) option" where
  "jd_9367_get_vcom_otp_times channel w = do {
     w \<leftarrow> jd_9367_set_page channel 1 w;
     let (vcom_otp_status, w) = read_var channel 0xE8 0 w;
     Some (0, (get_otp_times (vcom_otp_status AND 0x07),
               get_otp_times (drop_bit 3 vcom_otp_status AND 0x07)), w) }"

text \<open>A long write of one byte, which is a write of two with the register.\<close>

definition write_reg :: "int \<Rightarrow> u8 \<Rightarrow> u8 \<Rightarrow> jd_world \<Rightarrow> jd_world option" where
  "write_reg channel reg x w =
     map_option (\<lambda>(b, para). on_jbus (\<lambda>_. b) w) (DCSLongWriteWithPara channel reg [x] 2 (jw_bus w))"

definition jd_9367_read_nvm_vcom :: "int \<Rightarrow> int \<Rightarrow> jd_world \<Rightarrow> (int \<times> int \<times> jd_world) option" where
  "jd_9367_read_nvm_vcom channel index w = do {
     w \<leftarrow> jd_9367_set_page channel 1 w;
     (r, (vcom1_otp_status, vcom2_otp_status), w) \<leftarrow> jd_9367_get_vcom_otp_times channel w;
     w \<leftarrow> write_reg channel 0xE0 0x15 w;
     let vcom_otp_read_addr2 =
       (if index = 0 then
          (if vcom1_otp_status = 1 then 0x16 else if vcom1_otp_status = 2 then 0x18
           else if vcom1_otp_status = 3 then 0x19 else 0x00)
        else if index = 1 then
          (if vcom2_otp_status = 1 then 0x1A else if vcom2_otp_status = 2 then 0x1C
           else if vcom2_otp_status = 3 then 0x1D else 0x00)
        else 0x00);
     w \<leftarrow> write_reg channel 0xE1 vcom_otp_read_addr2 w;
     w \<leftarrow> write_reg channel 0xE3 0x11 w;
     w \<leftarrow> write_reg channel 0xE4 0x66 w;
     w \<leftarrow> write_reg channel 0xE5 0x88 w;
     let (vcom, w) = read_var channel 0xEA 0 w;
     Some (0, uint vcom, w) }"

definition jd_9367_read_vcom :: "int \<Rightarrow> jd_world \<Rightarrow> (int \<times> int \<times> jd_world) option" where
  "jd_9367_read_vcom channel w = do {
     w \<leftarrow> jd_9367_set_page channel 0 w;
     w \<leftarrow> jd_9367_set_page channel 1 w;
     let (reg0, w) = read_var channel 0x52 0 w;
     let (reg1, w) = read_var channel 0x53 0 w;
     Some (0, push_bit 8 (uint reg0) OR uint reg1, w) }"

definition jd_9367_write_vcom :: "int \<Rightarrow> int \<Rightarrow> bool \<Rightarrow> jd_world \<Rightarrow> (int \<times> jd_world) option" where
  "jd_9367_write_vcom channel vcom otp_burned w = do {
     w \<leftarrow> jd_9367_set_page channel 0 w;
     w \<leftarrow> jd_9367_set_page channel 1 w;
     w \<leftarrow> write_reg channel 0x56 (if otp_burned then 0x11 else 0x00) w;
     w \<leftarrow> write_reg channel 0x52 (word_of_int (drop_bit 8 vcom AND 0x01)) w;
     w \<leftarrow> write_reg channel 0x53 (word_of_int (vcom AND 0xFF)) w;
     Some (0, w) }"

text \<open>The loop that waits for the memory: \<open>None\<close> also when it never ends.\<close>

partial_function (option) otp_wait :: "int \<Rightarrow> u8 \<Rightarrow> jd_world \<Rightarrow> jd_world option" where
  "otp_wait channel otp_is_busy w =
     (let (busy, w1) = read_var channel 0xE9 otp_is_busy (jsleep (10 * 1000) w) in
      if busy = 0x01 then otp_wait channel busy w1 else Some w1)"

definition short_write :: "int \<Rightarrow> u8 \<Rightarrow> jd_world \<Rightarrow> jd_world" where
  "short_write channel command = on_jbus (DCSShortWriteNoPara channel command)"

definition jd_9367_burn_vcom :: "int \<Rightarrow> int \<Rightarrow> jd_world \<Rightarrow> (int \<times> jd_world) option" where
  "jd_9367_burn_vcom channel vcom w = do {
     w \<leftarrow> jd_9367_set_page channel 0 w;
     w \<leftarrow> jd_9367_set_page channel 1 (jsleep (120 * 1000) (short_write channel 0x11 (short_write channel 0x01 w)));
     (r, (vcom1_count, vcom2_count), w) \<leftarrow> jd_9367_get_vcom_otp_times channel w;
     (if vcom1_count = 0x07 then Some (-1, w)
      else if vcom2_count = 0x07 then Some (-1, w)
      else do {
        w \<leftarrow> write_reg channel 0xE1 0x04 (jsleep (20 * 1000) w);
        w \<leftarrow> write_reg channel 0xE0 (word_of_int (drop_bit 8 vcom AND 0x01)) w;
        w \<leftarrow> write_reg channel 0xE1 0x05 w;
        w \<leftarrow> write_reg channel 0xE0 (word_of_int (vcom AND 0xFF)) w;
        w \<leftarrow> write_reg channel 0xE3 0x55 w;
        w \<leftarrow> write_reg channel 0xE4 0xAA w;
        w \<leftarrow> write_reg channel 0xE5 0x66 w;
        w \<leftarrow> otp_wait channel 1 w;
        Some (0, jsleep (200 * 1000) (short_write channel 0x01 w)) }) }"

definition jd_9367_otp_check_vcom :: "int \<Rightarrow> int \<Rightarrow> int \<Rightarrow> jd_world \<Rightarrow> (int \<times> jd_world) option" where
  "jd_9367_otp_check_vcom channel new_vcom old_otp_times w = do {
     (val, w) \<leftarrow> jd_9367_check_id channel w;
     (if val \<noteq> 0 then Some (-1, w)
      else do {
        (val, (vcom1_otp_time, vcom2_otp_times), w) \<leftarrow> jd_9367_get_vcom_otp_times channel w;
        (if val \<noteq> 0 then Some (-2, w)
         else if uint vcom1_otp_time \<le> old_otp_times then Some (-3, w)
         else do {
           (val, vcom, w) \<leftarrow> jd_9367_read_nvm_vcom channel 0 w;
           Some (if val \<noteq> 0 then -4 else if vcom \<noteq> new_vcom then -5 else 0, w) }) }) }"

section \<open>The operations of the chip\<close>

text \<open>
  An operation leaves the state undefined (\<open>None\<close>) where the C code is, and then stays there; the
  type is that of the chip manager.
\<close>

definition chip_op :: "(int \<Rightarrow> int \<Rightarrow> 'i \<Rightarrow> jd_world \<Rightarrow> (int \<times> 'o option \<times> jd_world) option) \<Rightarrow>
    ('i, 'o, jd_world option) chip_fn" where
  "chip_op f chip_channel mipi_channel arg p_chip_data w =
     (case Option.bind w (f chip_channel mipi_channel arg) of
        None \<Rightarrow> (0, None, None)
      | Some (r, out, w') \<Rightarrow> (r, out, Some w'))"

definition info_at :: "int \<Rightarrow> jd_world \<Rightarrow> jd_info option" where
  "info_at chip_channel w =
     (if 0 \<le> chip_channel \<and> nat chip_channel < length (jw_info w)
      then Some (jw_info w ! nat chip_channel) else None)"

definition chip_jd_9367_get_chip_id ::
  "int \<Rightarrow> int \<Rightarrow> nat \<Rightarrow> jd_world \<Rightarrow> (int \<times> u8 list option \<times> jd_world) option" where
  "chip_jd_9367_get_chip_id chip_channel mipi_channel id_data_len w = do {
     w \<leftarrow> qc_do_sleep_out mipi_channel w;
     (reg0, w) \<leftarrow> qc_read_otp_data_reg mipi_channel 0x07 w;
     (reg1, w) \<leftarrow> qc_read_otp_data_reg mipi_channel 0x08 w;
     (reg2, w) \<leftarrow> qc_read_otp_data_reg mipi_channel 0x09 w;
     w \<leftarrow> qc_do_sleep_in mipi_channel w;
     Some (-1, Some [reg0, reg1, reg2], w) }"

definition chip_jd_9367_check_chip_ok ::
  "int \<Rightarrow> int \<Rightarrow> unit \<Rightarrow> jd_world \<Rightarrow> (int \<times> unit option \<times> jd_world) option" where
  "chip_jd_9367_check_chip_ok chip_channel mipi_channel u w = Some (0, None, w)"

definition chip_jd_9367_get_and_reset_private_data :: "int \<Rightarrow> jd_world option \<Rightarrow> ptr \<times> jd_world option" where
  "chip_jd_9367_get_and_reset_private_data chip_channel w =
     (case w of
        None \<Rightarrow> (0, None)
      | Some w \<Rightarrow>
          if 0 \<le> chip_channel \<and> nat chip_channel < length (jw_info w)
          then (1 + nat chip_channel, Some (w\<lparr>jw_info := (jw_info w)[nat chip_channel :=
            \<lparr>ji_id = [0, 0, 0], id_ok = 0, ji_vcom1 = 0, ji_vcom1_otp_times = 0,
             ji_vcom2 = 0, ji_vcom2_otp_times = 0\<rparr>]\<rparr>))
          else (0, None))"

definition chip_jd_9367_read_chip_vcom_opt_times ::
  "int \<Rightarrow> int \<Rightarrow> unit \<Rightarrow> jd_world \<Rightarrow> (int \<times> int option \<times> jd_world) option" where
  "chip_jd_9367_read_chip_vcom_opt_times chip_channel mipi_channel u w = do {
     info \<leftarrow> info_at chip_channel w;
     (if id_ok info = 1
      then map_option (\<lambda>(r, (t1, t2), w). (0, Some (uint t1), w)) (jd_9367_get_vcom_otp_times mipi_channel w)
      else Some (-1, None, w)) }"

text \<open>The values are delivered from variables that start as 0; the code of the reading is ignored.\<close>

definition chip_jd_9367_read_chip_vcom_opt_info ::
  "int \<Rightarrow> int \<Rightarrow> unit \<Rightarrow> jd_world \<Rightarrow> (int \<times> (int \<times> int) option \<times> jd_world) option" where
  "chip_jd_9367_read_chip_vcom_opt_info chip_channel mipi_channel u w = do {
     (r, vcom_otp_times, out, w) \<leftarrow> qc_otp_data_read_vcom mipi_channel w;
     let (vcom_h, vcom_l) = (case out of None \<Rightarrow> (0, 0) | Some x \<Rightarrow> x);
     Some (-1, Some (uint vcom_otp_times, push_bit 8 (uint vcom_h) OR uint vcom_l), w) }"

definition chip_jd_9367_read_vcom ::
  "int \<Rightarrow> int \<Rightarrow> unit \<Rightarrow> jd_world \<Rightarrow> (int \<times> int option \<times> jd_world) option" where
  "chip_jd_9367_read_vcom chip_channel mipi_channel u w = do {
     info \<leftarrow> info_at chip_channel w;
     (if id_ok info = 1 then map_option (\<lambda>(r, v, w). (0, Some v, w)) (jd_9367_read_vcom mipi_channel w)
      else Some (-1, None, w)) }"

definition chip_jd_9367_write_vcom ::
  "int \<Rightarrow> int \<Rightarrow> int \<Rightarrow> jd_world \<Rightarrow> (int \<times> unit option \<times> jd_world) option" where
  "chip_jd_9367_write_vcom chip_channel mipi_channel vcom_value w = do {
     info \<leftarrow> info_at chip_channel w;
     (if id_ok info = 1
      then map_option (\<lambda>(r, w). (0, None, w))
             (jd_9367_write_vcom mipi_channel vcom_value (ji_vcom1_otp_times info \<noteq> 0) w)
      else Some (-1, None, w)) }"

definition chip_jd_9367_write_chip_vcom_otp_value ::
  "int \<Rightarrow> int \<Rightarrow> int \<Rightarrow> jd_world \<Rightarrow> (int \<times> unit option \<times> jd_world) option" where
  "chip_jd_9367_write_chip_vcom_otp_value chip_channel mipi_channel otp_vcom_value w = do {
     info \<leftarrow> info_at chip_channel w;
     (if id_ok info = 1
      then map_option (\<lambda>(r, w). (r, None, w)) (jd_9367_burn_vcom mipi_channel otp_vcom_value w)
      else Some (-1, None, w)) }"

definition E_ICM_VCOM_TIMES_NOT_CHANGE :: int where "E_ICM_VCOM_TIMES_NOT_CHANGE = -2"

definition E_ICM_VCOM_VALUE_NOT_CHANGE :: int where "E_ICM_VCOM_VALUE_NOT_CHANGE = -3"

definition chip_jd_9367_check_vcom_otp_burn_ok ::
  "int \<Rightarrow> int \<Rightarrow> int \<times> int \<Rightarrow> jd_world \<Rightarrow> (int \<times> int option \<times> jd_world) option" where
  "chip_jd_9367_check_vcom_otp_burn_ok chip_channel mipi_channel arg w = do {
     let (vcom_value, last_otp_times) = arg;
     (val, u, w) \<leftarrow> chip_jd_9367_check_chip_ok chip_channel mipi_channel () w;
     info \<leftarrow> info_at chip_channel w;
     let read_vcom = Some (sint (ji_vcom1 info));
     Some (if ji_vcom1_otp_times info \<noteq> word_of_int (last_otp_times + 1) then E_ICM_VCOM_TIMES_NOT_CHANGE
           else if ji_vcom1 info \<noteq> word_of_int vcom_value then E_ICM_VCOM_VALUE_NOT_CHANGE
           else 0, read_vcom, w) }"

text \<open>The pointers of a caller are valid and its buffer has room for three bytes.\<close>

definition chip_jd_9367_get_chip_id_otp_info ::
  "int \<Rightarrow> int \<Rightarrow> unit \<Rightarrow> jd_world \<Rightarrow> (int \<times> (u8 list \<times> u8) option \<times> jd_world) option" where
  "chip_jd_9367_get_chip_id_otp_info chip_channel mipi_channel u w = do {
     (r, otp_times, out, w) \<leftarrow> qc_otp_data_read_id mipi_channel w;
     let (id1, id2, id3) = (case out of None \<Rightarrow> (0, 0, 0) | Some x \<Rightarrow> x);
     Some (0, Some ([id1, id2, id3], otp_times), w) }"

definition chip_jd_9367_burn_chip_id ::
  "int \<Rightarrow> int \<Rightarrow> u8 list \<times> int \<Rightarrow> jd_world \<Rightarrow> (int \<times> unit option \<times> jd_world) option" where
  "chip_jd_9367_burn_chip_id chip_channel mipi_channel arg w =
     (case arg of
        (id1 # id2 # id3 # rest, ptn_id) \<Rightarrow>
          map_option (\<lambda>(r, w). (0, None, w)) (qc_otp_id mipi_channel id1 id2 (ucast id3) ptn_id w)
      | _ \<Rightarrow> None)"

definition chip_jd_9367 :: "jd_world option icm_chip" where
  "chip_jd_9367 =
     \<lparr>cp_my_chip_id = 6,
      fn_get_and_reset_private_data = Some chip_jd_9367_get_and_reset_private_data,
      fn_get_chip_id = Some (chip_op chip_jd_9367_get_chip_id),
      fn_check_chip_ok = Some (chip_op chip_jd_9367_check_chip_ok),
      fn_read_chip_vcom_opt_times = Some (chip_op chip_jd_9367_read_chip_vcom_opt_times),
      fn_read_chip_vcom_opt_info = Some (chip_op chip_jd_9367_read_chip_vcom_opt_info),
      fn_write_chip_vcom_otp_value = Some (chip_op chip_jd_9367_write_chip_vcom_otp_value),
      fn_read_vcom = Some (chip_op chip_jd_9367_read_vcom),
      fn_write_vcom = Some (chip_op chip_jd_9367_write_vcom),
      fn_check_vcom_otp_burn_ok = Some (chip_op chip_jd_9367_check_vcom_otp_burn_ok),
      fn_write_chip_analog_gamma_reg_data = None,
      fn_read_chip_analog_gamma_reg_data = None,
      fn_write_chip_fix_analog_gamma_reg_data = None,
      fn_write_chip_digital_gamma_reg_data = None,
      fn_write_chip_fix_digital_gamma_reg_data = None,
      fn_chip_d3g_control = None,
      fn_chip_burn_gamma_otp_values = None,
      fn_chip_check_gamma_otp_values = None,
      fn_chip_get_analog_gamma_reg_data = None,
      fn_chip_get_digital_gamma_reg_data = None,
      fn_get_chip_id_otp_info = Some (chip_op chip_jd_9367_get_chip_id_otp_info),
      fn_burn_chip_id = Some (chip_op chip_jd_9367_burn_chip_id)\<rparr>"

section \<open>What the procedures do on the bus\<close>

text \<open>The state apart from the bus: nothing in it changes while codes are sent.\<close>

definition moved :: "jd_world \<Rightarrow> bus \<Rightarrow> jd_world \<Rightarrow> bool" where
  "moved w b w' \<longleftrightarrow> jw_bus w' = b \<and> jw_info w' = jw_info w \<and> jw_junk w' = jw_junk w \<and>
     jw_shutON w' = jw_shutON w \<and> curflick (jw_send w') = curflick (jw_send w) \<and>
     curpolar (jw_send w') = curpolar (jw_send w)"

text \<open>No flicker result is pending, the local array has its size, there is a record per channel.\<close>

definition ready :: "jd_world \<Rightarrow> bool" where
  "ready w \<longleftrightarrow> curflick (jw_send w) = 0 \<and> curpolar (jw_send w) = 0 \<and>
     (\<forall>b. length (jw_junk w b) = 250) \<and> length (jw_info w) = MAX_CHIP_CHANNEL_NUMS"

lemma moved_ready: "moved w b w' \<Longrightarrow> ready w \<Longrightarrow> ready w'"
  by (simp add: moved_def ready_def)

lemma moved_bus: "moved w b w' \<Longrightarrow> jw_bus w' = b"
  by (simp add: moved_def)

lemma moved_trans: "moved w b w' \<Longrightarrow> moved w' b' w'' \<Longrightarrow> moved w b' w''"
  by (simp add: moved_def)

lemma moved_on_jbus: "moved w b w' \<Longrightarrow> moved w (f b) (on_jbus f w')"
  by (simp add: moved_def on_jbus_def on_bus_def jw_bus_def)

lemma moved_self: "moved w (f (jw_bus w)) (on_jbus f w)"
  by (simp add: moved_def on_jbus_def on_bus_def jw_bus_def)

lemma moved_jsleep: "moved w b w' \<Longrightarrow> moved w (emit (Usleep us) b) (jsleep us w')"
  unfolding jsleep_def by (rule moved_on_jbus)

lemma code_array_stop:
  "\<exists>rest. code_array cs = encode cs @ rest \<and> 3 \<le> length rest \<and> rest ! 2 = 0xff"
proof -
  let ?r = "replicate 6 0xff @ replicate (100 - length (encode cs @ replicate 6 (0xff :: u8))) (0 :: u8)"
  have "code_array cs = encode cs @ ?r" by (simp add: code_array_def Let_def)
  moreover have "?r ! 2 = 0xff" by (simp add: nth_append)
  ultimately show ?thesis by (intro exI [of _ ?r]) simp
qed

lemma send_cmds_moved:
  assumes "ready w" and "\<forall>c \<in> set cs. good_cmd c" and "length cs \<le> 100" and "length (encode cs) \<le> 100"
  shows "\<exists>w'. send_cmds channel cs w = Some w' \<and> moved w (run_cmds channel cs (jw_bus w)) w'"
proof -
  obtain rest where r: "code_array cs = encode cs @ rest" "3 \<le> length rest" "rest ! 2 = 0xff"
    using code_array_stop by blast
  define s where "s = (jw_send w)\<lparr>sc_code := code_array cs\<rparr>"
  have nf: "report_flick s b = b" for b using assms(1) by (simp add: report_flick_def s_def ready_def)
  obtain s' where "SendCode channel (jw_junk w (jw_bus w)) s = Some s'" "curflick s' = curflick s"
      "curpolar s' = curpolar s" "sc_bus s' = run_cmds channel cs (sc_bus s)"
    using SendCode_cmds_state [of s cs rest "jw_junk w (jw_bus w)" channel] r assms
    unfolding nf by (auto simp: s_def ready_def MAX_MIPI_CODE_LEN_def)
  then show ?thesis
    by (simp add: send_cmds_def send_array_def s_def moved_def jw_bus_def)
qed

definition page_then :: "int \<Rightarrow> u8 \<Rightarrow> bus \<Rightarrow> bus" where
  "page_then channel reg b =
     (let m = (if HsSignalOnFlag b then 0x034b else 0x0340) in
      send_packet channel m [reg] (send_packet channel m [0xE0, 0] b))"

lemma send_page_then_moved:
  assumes "ready w"
  shows "\<exists>w'. send_cmds channel [(0x39, 0xE0, [0x00]), (0x39, reg, [])] w = Some w' \<and>
    moved w (page_then channel reg (jw_bus w)) w'"
proof -
  let ?cs = "[(0x39, 0xE0, [0x00]), (0x39, reg, [])] :: mipi_cmd list"
  obtain rest where r: "code_array ?cs = encode ?cs @ rest" "3 \<le> length rest" "rest ! 2 = 0xff"
    using code_array_stop by blast
  define s where "s = (jw_send w)\<lparr>sc_code := code_array ?cs\<rparr>"
  have nf: "report_flick s b = b" for b using assms(1) by (simp add: report_flick_def s_def ready_def)
  have c: "sc_code s = 0x39 # 0xE0 # 1 # 0 # 0x39 # reg # 0 # rest"
    using r(1) by (simp add: s_def encode_def)
  obtain s' where "SendCode channel (jw_junk w (jw_bus w)) s = Some s'" "curflick s' = curflick s"
      "curpolar s' = curpolar s" "sc_bus s' = page_then channel reg (sc_bus s)"
    using SendCode_page_then_empty [OF c r(2), of "jw_junk w (jw_bus w)" channel] r(3) assms
    unfolding nf by (auto simp: ready_def page_then_def)
  then show ?thesis
    by (simp add: send_cmds_def send_array_def s_def moved_def jw_bus_def)
qed

lemma only_on_send_packet: "only_on c b0 b \<Longrightarrow> only_on c b0 (send_packet c m bytes b)"
proof -
  assume o: "only_on c b0 b"
  have f: "only_on c b0 (fold (WriteDATASSD2828 c) ws b1)" if "only_on c b0 b1" for ws b1
    using that by (induction ws arbitrary: b1) (auto intro: only_on_writes)
  show ?thesis
    using o by (auto simp: send_packet_def intro!: f only_on_writes split: list.splits)
qed

definition plain_cmd :: "mipi_cmd \<Rightarrow> bool" where
  "plain_cmd c \<longleftrightarrow> good_cmd c \<and> (fst c = 0x39 \<or> fst c = 0x05)"

lemma only_on_run_cmds:
  assumes "only_on c b0 b" and "\<forall>x \<in> set cs. plain_cmd x"
  shows "only_on c b0 (run_cmds c cs b)"
  using assms
proof (induction cs arbitrary: b)
  case (Cons x cs)
  obtain op reg d where x: "x = (op, reg, d)" by (cases x)
  have "op = 0x39 \<or> op = 0x05" using Cons.prems(2) x by (auto simp: plain_cmd_def)
  then have "only_on c b0 (cmd_effect c x b)"
    using Cons.prems(1)
    by (auto simp: x cmd_effect.simps Let_def only_on_send_packet intro!: only_on_writes(5) only_on_shorts(1))
  then show ?case using Cons.IH Cons.prems(2) by (simp add: run_cmds_def)
qed (simp add: run_cmds_def)

text \<open>The reading procedures use their channel only, and always return.\<close>

definition uses_only :: "int \<Rightarrow> jd_world \<Rightarrow> jd_world \<Rightarrow> bool" where
  "uses_only channel w w' \<longleftrightarrow> (\<exists>b. moved w b w' \<and> only_on channel (jw_bus w) b)"

lemma uses_only_refl: "uses_only c w w"
  unfolding uses_only_def moved_def by auto

lemma uses_only_trans: "uses_only c w w' \<Longrightarrow> uses_only c w' w'' \<Longrightarrow> uses_only c w w''"
  unfolding uses_only_def using moved_trans moved_bus only_on_trans by blast

lemma uses_only_ready: "uses_only c w w' \<Longrightarrow> ready w \<Longrightarrow> ready w'"
  unfolding uses_only_def using moved_ready by blast

lemma uses_only_jsleep: "uses_only c w w' \<Longrightarrow> uses_only c w (jsleep us w')"
  unfolding uses_only_def using moved_jsleep only_on_emit on_channel_simps(3) by blast

lemma uses_only_read: "uses_only c w w' \<Longrightarrow> uses_only c w (snd (read_var c reg old w'))"
proof -
  assume u: "uses_only c w w'"
  obtain n bytes b where r: "ReadModReg c 1 reg 1 (jw_bus w') = (n, bytes, b)" by (metis prod_cases3)
  obtain b1 where b1: "moved w b1 w'" "only_on c (jw_bus w) b1" using u by (auto simp: uses_only_def)
  have "only_on c (jw_bus w) b" using only_on_ReadModReg [OF b1(2)] r moved_bus [OF b1(1)] by simp
  then show ?thesis
    using moved_on_jbus [OF b1(1), of "\<lambda>_. b"] by (auto simp: read_var_def r uses_only_def)
qed

lemma send_plain:
  assumes "ready w" and "\<forall>c \<in> set cs. plain_cmd c" and "length cs \<le> 100" and "length (encode cs) \<le> 100"
  shows "\<exists>w'. send_cmds channel cs w = Some w' \<and> uses_only channel w w'"
proof -
  have "\<forall>c \<in> set cs. good_cmd c" using assms(2) by (simp add: plain_cmd_def)
  then obtain w' where "send_cmds channel cs w = Some w'" "moved w (run_cmds channel cs (jw_bus w)) w'"
    using send_cmds_moved [OF assms(1) _ assms(3,4)] by blast
  then show ?thesis
    using only_on_run_cmds [OF only_on_refl assms(2)] by (auto simp: uses_only_def)
qed

lemma sleep_uses:
  assumes "ready w"
  shows "\<exists>w'. qc_do_sleep_out c w = Some w' \<and> uses_only c w w'"
    and "\<exists>w'. qc_do_sleep_in c w = Some w' \<and> uses_only c w w'"
proof -
  have p: "only_on c b (page_then c reg b)" for b reg
    by (simp add: page_then_def Let_def only_on_send_packet)
  have *: "\<exists>w'. send_cmds c [(0x39, 0xE0, [0x00]), (0x39, reg, [])] w = Some w' \<and> uses_only c w w'" for reg
    using send_page_then_moved [OF assms] p unfolding uses_only_def by blast
  show "\<exists>w'. qc_do_sleep_out c w = Some w' \<and> uses_only c w w'"
    using * [of "0x28"] uses_only_jsleep by (auto simp: qc_do_sleep_out_def)
  show "\<exists>w'. qc_do_sleep_in c w = Some w' \<and> uses_only c w w'"
    using * [of "0x29"] uses_only_jsleep by (auto simp: qc_do_sleep_in_def)
qed

lemma read_otp_uses:
  assumes "ready w"
  shows "\<exists>v w'. qc_read_otp_data_reg c i w = Some (v, w') \<and> uses_only c w w'"
proof -
  obtain w1 where w1: "send_cmds c [(0x39, 0xEA, [ucast (drop_bit 8 i)]), (0x39, 0xEB, [ucast (i AND 0xFF)]),
          (0x39, 0xEC, [0x11]), (0x39, 0xEC, [0x10])] w = Some w1" "uses_only c w w1"
    using send_plain [OF assms, of "[(0x39, 0xEA, [ucast (drop_bit 8 i)]), (0x39, 0xEB, [ucast (i AND 0xFF)]),
          (0x39, 0xEC, [0x11]), (0x39, 0xEC, [0x10])]" c] by (auto simp: plain_cmd_def encode_def)
  then show ?thesis
    using uses_only_read [OF w1(2), of "0xED" 0]
    by (simp add: qc_read_otp_data_reg_def) (metis prod.collapse)
qed

lemma read_reg_uses:
  assumes "ready w"
  shows "\<exists>v w'. qc_read_reg c page reg w = Some (v, w') \<and> uses_only c w w'"
proof -
  obtain w1 where w1: "send_cmds c [(0x39, 0xE0, [page])] w = Some w1" "uses_only c w w1"
    using send_plain [OF assms, of "[(0x39, 0xE0, [page])]" c] by (auto simp: plain_cmd_def encode_def)
  then show ?thesis
    using uses_only_read [OF w1(2), of reg 0] by (simp add: qc_read_reg_def) (metis prod.collapse)
qed

lemma data_read_id_uses:
  assumes "ready w"
  shows "\<exists>r t out w'. qc_otp_data_read_id c w = Some (r, t, out, w') \<and> uses_only c w w'"
proof -
  obtain w1 where w1: "qc_do_sleep_out c w = Some w1" "uses_only c w w1"
    using sleep_uses(1) [OF assms] by blast
  obtain t w2 where w2: "qc_read_reg c 0 0x7C w1 = Some (t, w2)" "uses_only c w1 w2"
    using read_reg_uses uses_only_ready [OF w1(2) assms] by blast
  have u2: "uses_only c w w2" by (rule uses_only_trans [OF w1(2) w2(2)])
  have r2: "ready w2" by (rule uses_only_ready [OF u2 assms])
  show ?thesis
  proof (cases "map_of [(1, 0x06), (2, 0x0B), (3, 0x10), (4, 0x15), (5, 0x1A)] t :: u16 option")
    case None
    obtain w3 where "qc_do_sleep_in c w2 = Some w3" "uses_only c w2 w3" using sleep_uses(2) [OF r2] by blast
    then have "qc_otp_data_read_id c w = Some (-1, t, None, w3)" "uses_only c w w3"
      using w1(1) w2(1) None uses_only_trans [OF u2] by (simp_all only: qc_otp_data_read_id_def) simp_all
    then show ?thesis by blast
  next
    case (Some i)
    obtain a w3 where w3: "qc_read_otp_data_reg c (i + 1) w2 = Some (a, w3)" "uses_only c w2 w3"
      using read_otp_uses [OF r2] by blast
    obtain b w4 where w4: "qc_read_otp_data_reg c (i + 2) w3 = Some (b, w4)" "uses_only c w3 w4"
      using read_otp_uses uses_only_ready [OF w3(2) r2] by blast
    note r4 = uses_only_ready [OF w4(2) uses_only_ready [OF w3(2) r2]]
    obtain d w5 where w5: "qc_read_otp_data_reg c (i + 3) w4 = Some (d, w5)" "uses_only c w4 w5"
      using read_otp_uses [OF r4] by blast
    obtain w6 where w6: "qc_do_sleep_in c w5 = Some w6" "uses_only c w5 w6"
      using sleep_uses(2) [OF uses_only_ready [OF w5(2) r4]] by blast
    have "uses_only c w w6"
      using uses_only_trans [OF u2] uses_only_trans w3(2) w4(2) w5(2) w6(2) by blast
    moreover have "qc_otp_data_read_id c w = Some (0, t, Some (a, b, d), w6)"
      unfolding qc_otp_data_read_id_def w1(1) bind.bind_lunit w2(1) prod.case Some option.case
        w3(1) w4(1) w5(1) w6(1) by simp
    ultimately show ?thesis by blast
  qed
qed

lemma data_read_vcom_uses:
  assumes "ready w"
  shows "\<exists>r t out w'. qc_otp_data_read_vcom c w = Some (r, t, out, w') \<and> uses_only c w w'"
proof -
  obtain w1 where w1: "qc_do_sleep_out c w = Some w1" "uses_only c w w1"
    using sleep_uses(1) [OF assms] by blast
  obtain t w2 where w2: "qc_read_reg c 1 0x02 w1 = Some (t, w2)" "uses_only c w1 w2"
    using read_reg_uses uses_only_ready [OF w1(2) assms] by blast
  have u2: "uses_only c w w2" by (rule uses_only_trans [OF w1(2) w2(2)])
  have r2: "ready w2" by (rule uses_only_ready [OF u2 assms])
  show ?thesis
  proof (cases "map_of [(1, 0x26), (2, 0x28), (3, 0x2A), (4, 0x2C), (5, 0x2E)] t :: u16 option")
    case None
    obtain w3 where "qc_do_sleep_in c w2 = Some w3" "uses_only c w2 w3" using sleep_uses(2) [OF r2] by blast
    then have "qc_otp_data_read_vcom c w = Some (-1, t, None, w3)" "uses_only c w w3"
      using w1(1) w2(1) None uses_only_trans [OF u2] by (simp_all only: qc_otp_data_read_vcom_def) simp_all
    then show ?thesis by blast
  next
    case (Some i)
    obtain a w3 where w3: "qc_read_otp_data_reg c i w2 = Some (a, w3)" "uses_only c w2 w3"
      using read_otp_uses [OF r2] by blast
    note r3 = uses_only_ready [OF w3(2) r2]
    obtain b w4 where w4: "qc_read_otp_data_reg c (i + 1) w3 = Some (b, w4)" "uses_only c w3 w4"
      using read_otp_uses [OF r3] by blast
    obtain w5 where w5: "qc_do_sleep_in c w4 = Some w5" "uses_only c w4 w5"
      using sleep_uses(2) [OF uses_only_ready [OF w4(2) r3]] by blast
    have "uses_only c w w5" using uses_only_trans [OF u2] uses_only_trans w3(2) w4(2) w5(2) by blast
    moreover have "qc_otp_data_read_vcom c w = Some (0, t, Some (a, b), w5)"
      unfolding qc_otp_data_read_vcom_def w1(1) bind.bind_lunit w2(1) prod.case Some option.case
        w3(1) w4(1) w5(1) by simp
    ultimately show ?thesis by blast
  qed
qed

lemma get_chip_id_uses:
  assumes "ready w"
  shows "\<exists>ids w'. chip_jd_9367_get_chip_id cc c n w = Some (-1, Some ids, w') \<and> uses_only c w w'"
proof -
  obtain w1 where w1: "qc_do_sleep_out c w = Some w1" "uses_only c w w1"
    using sleep_uses(1) [OF assms] by blast
  note r1 = uses_only_ready [OF w1(2) assms]
  obtain a w2 where w2: "qc_read_otp_data_reg c 0x07 w1 = Some (a, w2)" "uses_only c w1 w2"
    using read_otp_uses [OF r1] by blast
  note r2 = uses_only_ready [OF w2(2) r1]
  obtain b w3 where w3: "qc_read_otp_data_reg c 0x08 w2 = Some (b, w3)" "uses_only c w2 w3"
    using read_otp_uses [OF r2] by blast
  note r3 = uses_only_ready [OF w3(2) r2]
  obtain d w4 where w4: "qc_read_otp_data_reg c 0x09 w3 = Some (d, w4)" "uses_only c w3 w4"
    using read_otp_uses [OF r3] by blast
  obtain w5 where w5: "qc_do_sleep_in c w4 = Some w5" "uses_only c w4 w5"
    using sleep_uses(2) [OF uses_only_ready [OF w4(2) r3]] by blast
  have "uses_only c w w5" using uses_only_trans [OF w1(2)] uses_only_trans w2(2) w3(2) w4(2) w5(2) by blast
  moreover have "chip_jd_9367_get_chip_id cc c n w = Some (-1, Some [a, b, d], w5)"
    unfolding chip_jd_9367_get_chip_id_def w1(1) bind.bind_lunit w2(1) prod.case w3(1) w4(1) w5(1) by simp
  ultimately show ?thesis by blast
qed

section \<open>The contract of a chip\<close>

text \<open>
  An operation of a chip keeps its state sound, and what it does on the hardware is related to the
  channel of the request.
\<close>

definition stays :: "('w \<Rightarrow> bool) \<Rightarrow> (int \<Rightarrow> 'w \<Rightarrow> 'w \<Rightarrow> bool) \<Rightarrow> ('i, 'o, 'w) chip_fn \<Rightarrow> bool" where
  "stays good same f \<longleftrightarrow> (\<forall>cc mc arg p w r out w'.
     0 \<le> cc \<and> cc < int MAX_CHIP_CHANNEL_NUMS \<and> good w \<and> f cc mc arg p w = (r, out, w') \<longrightarrow>
     good w' \<and> same mc w w')"

lemma staysD:
  "stays good same f \<Longrightarrow> 0 \<le> cc \<Longrightarrow> cc < int MAX_CHIP_CHANNEL_NUMS \<Longrightarrow> good w \<Longrightarrow>
     f cc mc arg p w = (r, out, w') \<Longrightarrow> good w' \<and> same mc w w'"
  unfolding stays_def by blast

locale chip_contract =
  fixes good :: "'w \<Rightarrow> bool" and same :: "int \<Rightarrow> 'w \<Rightarrow> 'w \<Rightarrow> bool" and chip :: "'w icm_chip"
  assumes same_refl: "good w \<Longrightarrow> same c w w"
    and chip_id_law: "fn_get_chip_id chip = Some f1 \<Longrightarrow> stays good same f1"
    and chip_ok_law: "fn_check_chip_ok chip = Some f2 \<Longrightarrow> stays good same f2"
    and otp_times_law: "fn_read_chip_vcom_opt_times chip = Some f3 \<Longrightarrow> stays good same f3"
    and otp_info_law: "fn_read_chip_vcom_opt_info chip = Some f4 \<Longrightarrow> stays good same f4"
    and otp_write_law: "fn_write_chip_vcom_otp_value chip = Some f5 \<Longrightarrow> stays good same f5"
    and read_vcom_law: "fn_read_vcom chip = Some f6 \<Longrightarrow> stays good same f6"
    and write_vcom_law: "fn_write_vcom chip = Some f7 \<Longrightarrow> stays good same f7"
    and burn_ok_law: "fn_check_vcom_otp_burn_ok chip = Some f8 \<Longrightarrow> stays good same f8"
    and id_info_law: "fn_get_chip_id_otp_info chip = Some f9 \<Longrightarrow> stays good same f9"
begin

lemma dispatch_stays:
  assumes "\<And>f. sel chip = Some f \<Longrightarrow> stays good same f"
    and "im_current_chip m = Some chip" and "im_channel_nums m \<le> MAX_CHIP_CHANNEL_NUMS"
    and "good w" and "dispatch sel arg mc m w = (r, out, w')"
  shows "good w' \<and> same mc w w'"
proof -
  let ?c = "get_chip_channel_by_mipi_channel m mc"
  show ?thesis
  proof (cases "?c \<ge> 0 \<and> ?c < int (im_channel_nums m) \<and> sel chip \<noteq> None")
    case True
    then obtain f where f: "sel chip = Some f" by auto
    have d: "f ?c mc arg (ic_private_data (im_channel_data m ! nat ?c)) w = (r, out, w')"
      using assms(2,5) f True by (simp add: dispatch_def Let_def)
    show ?thesis by (rule staysD [OF assms(1) [OF f] _ _ assms(4) d]) (use True assms(3) in auto)
  next
    case False
    then have "w' = w" using assms(2,5) by (auto simp: dispatch_def Let_def split: if_splits)
    then show ?thesis using assms(4) same_refl by simp
  qed
qed

text \<open>The requests of the manager on this chip.\<close>

lemma requests_stay:
  assumes "im_current_chip m = Some chip" and "im_channel_nums m \<le> MAX_CHIP_CHANNEL_NUMS" and "good w"
  shows "ic_mgr_read_chip_id mc n m w = (r, out1, w') \<Longrightarrow> good w' \<and> same mc w w'"
    and "ic_mgr_check_chip_ok mc m w = (r, out2, w') \<Longrightarrow> good w' \<and> same mc w w'"
    and "ic_mgr_read_chip_vcom_otp_times mc m w = (r, out3, w') \<Longrightarrow> good w' \<and> same mc w w'"
    and "ic_mgr_read_chip_vcom_otp_value mc m w = (r, out4, w') \<Longrightarrow> good w' \<and> same mc w w'"
    and "ic_mgr_write_chip_vcom_otp_value mc v m w = (r, out5, w') \<Longrightarrow> good w' \<and> same mc w w'"
    and "ic_mgr_read_vcom mc m w = (r, out6, w') \<Longrightarrow> good w' \<and> same mc w w'"
    and "ic_mgr_write_vcom mc v m w = (r, out7, w') \<Longrightarrow> good w' \<and> same mc w w'"
    and "ic_mgr_check_vcom_otp_burn_ok mc v t m w = (r, out8, w') \<Longrightarrow> good w' \<and> same mc w w'"
    and "ic_mgr_read_chip_id_otp_info mc m w = (r, out9, w') \<Longrightarrow> good w' \<and> same mc w w'"
  using dispatch_stays [OF _ assms] chip_id_law chip_ok_law otp_times_law otp_info_law otp_write_law
    read_vcom_law write_vcom_law burn_ok_law id_info_law
  unfolding ic_mgr_ops by metis+

end

text \<open>The default chip does nothing at all.\<close>

lemma unknown_chip_stays: "stays (\<lambda>_. True) (\<lambda>c w w'. w' = w) unknown_chip"
  by (simp add: stays_def unknown_chip_def)

interpretation no_chip: chip_contract "\<lambda>_. True" "\<lambda>c w w'. w' = w" default_chip
  by unfold_locales (auto simp: default_chip_def unknown_chip_stays)

text \<open>The JD9367: the identity is never confirmed, so the records keep their zeros.\<close>

definition unread :: "jd_info \<Rightarrow> bool" where
  "unread i \<longleftrightarrow> id_ok i = 0 \<and> ji_vcom1 i = 0 \<and> ji_vcom1_otp_times i = 0"

definition jd_good :: "jd_world option \<Rightarrow> bool" where
  "jd_good w \<longleftrightarrow> (\<exists>v. w = Some v \<and> ready v \<and> (\<forall>i \<in> set (jw_info v). unread i))"

definition jd_same :: "int \<Rightarrow> jd_world option \<Rightarrow> jd_world option \<Rightarrow> bool" where
  "jd_same c w w' \<longleftrightarrow> (\<exists>v v'. w = Some v \<and> w' = Some v' \<and> uses_only c v v')"

lemma uses_only_good: "uses_only c v v' \<Longrightarrow> jd_good (Some v) \<Longrightarrow> jd_good (Some v') \<and> jd_same c (Some v) (Some v')"
  using uses_only_ready by (auto simp: jd_good_def jd_same_def uses_only_def moved_def)

lemma info_at_unread:
  assumes "jd_good (Some v)" and "0 \<le> cc" and "cc < int MAX_CHIP_CHANNEL_NUMS"
  shows "\<exists>i. info_at cc v = Some i \<and> unread i"
  using assms by (auto simp: jd_good_def info_at_def ready_def)

lemma chip_op_stays:
  assumes "\<And>cc mc arg v. 0 \<le> cc \<Longrightarrow> cc < int MAX_CHIP_CHANNEL_NUMS \<Longrightarrow> jd_good (Some v) \<Longrightarrow>
      \<exists>r out v'. f cc mc arg v = Some (r, out, v') \<and> uses_only mc v v'"
  shows "stays jd_good jd_same (chip_op f)"
  unfolding stays_def
proof (intro allI impI, elim conjE)
  fix cc mc arg p w r out w'
  assume h: "0 \<le> cc" "cc < int MAX_CHIP_CHANNEL_NUMS" "jd_good w" "chip_op f cc mc arg p w = (r, out, w')"
  obtain v where v: "w = Some v" using h(3) by (auto simp: jd_good_def)
  obtain r' out' v' where f: "f cc mc arg v = Some (r', out', v')" "uses_only mc v v'"
    using assms h v by blast
  have "w' = Some v'" using h(4) f(1) v by (simp add: chip_op_def)
  then show "jd_good w' \<and> jd_same mc w w'" using uses_only_good [OF f(2)] h(3) v by simp
qed

lemma refused_ops:
  assumes "jd_good (Some v)" and "0 \<le> cc" and "cc < int MAX_CHIP_CHANNEL_NUMS"
  shows "chip_jd_9367_read_chip_vcom_opt_times cc mc u v = Some (-1, None, v)"
    and "chip_jd_9367_read_vcom cc mc u v = Some (-1, None, v)"
    and "chip_jd_9367_write_vcom cc mc x v = Some (-1, None, v)"
    and "chip_jd_9367_write_chip_vcom_otp_value cc mc x v = Some (-1, None, v)"
  using info_at_unread [OF assms]
  by (auto simp: chip_jd_9367_read_chip_vcom_opt_times_def chip_jd_9367_read_vcom_def
      chip_jd_9367_write_vcom_def chip_jd_9367_write_chip_vcom_otp_value_def unread_def)

lemma burn_check:
  assumes "jd_good (Some v)" and "0 \<le> cc" and "cc < int MAX_CHIP_CHANNEL_NUMS"
  shows "chip_jd_9367_check_vcom_otp_burn_ok cc mc (x, t) v =
    Some (if word_of_int (t + 1) \<noteq> (0 :: u32) then E_ICM_VCOM_TIMES_NOT_CHANGE
          else if word_of_int x \<noteq> (0 :: u32) then E_ICM_VCOM_VALUE_NOT_CHANGE else 0, Some 0, v)"
  using info_at_unread [OF assms]
  by (auto simp: chip_jd_9367_check_vcom_otp_burn_ok_def chip_jd_9367_check_chip_ok_def unread_def)

lemma jd_ops_stay:
  "stays jd_good jd_same (chip_op chip_jd_9367_get_chip_id)"
  "stays jd_good jd_same (chip_op chip_jd_9367_check_chip_ok)"
  "stays jd_good jd_same (chip_op chip_jd_9367_read_chip_vcom_opt_times)"
  "stays jd_good jd_same (chip_op chip_jd_9367_read_chip_vcom_opt_info)"
  "stays jd_good jd_same (chip_op chip_jd_9367_write_chip_vcom_otp_value)"
  "stays jd_good jd_same (chip_op chip_jd_9367_read_vcom)"
  "stays jd_good jd_same (chip_op chip_jd_9367_write_vcom)"
  "stays jd_good jd_same (chip_op chip_jd_9367_check_vcom_otp_burn_ok)"
  "stays jd_good jd_same (chip_op chip_jd_9367_get_chip_id_otp_info)"
proof -
  have ready: "jd_good (Some v) \<Longrightarrow> ready v" for v by (auto simp: jd_good_def)
  show "stays jd_good jd_same (chip_op chip_jd_9367_get_chip_id)"
    by (rule chip_op_stays) (use get_chip_id_uses ready in blast)
  show "stays jd_good jd_same (chip_op chip_jd_9367_check_chip_ok)"
    by (rule chip_op_stays) (simp add: chip_jd_9367_check_chip_ok_def uses_only_refl)
  show "stays jd_good jd_same (chip_op chip_jd_9367_read_chip_vcom_opt_times)"
    by (rule chip_op_stays) (simp add: refused_ops uses_only_refl)
  show "stays jd_good jd_same (chip_op chip_jd_9367_write_chip_vcom_otp_value)"
    by (rule chip_op_stays) (simp add: refused_ops uses_only_refl)
  show "stays jd_good jd_same (chip_op chip_jd_9367_read_vcom)"
    by (rule chip_op_stays) (simp add: refused_ops uses_only_refl)
  show "stays jd_good jd_same (chip_op chip_jd_9367_write_vcom)"
    by (rule chip_op_stays) (simp add: refused_ops uses_only_refl)
  show "stays jd_good jd_same (chip_op chip_jd_9367_check_vcom_otp_burn_ok)"
    by (rule chip_op_stays) (clarsimp simp: burn_check uses_only_refl)
  show "stays jd_good jd_same (chip_op chip_jd_9367_read_chip_vcom_opt_info)"
  proof (rule chip_op_stays)
    fix cc mc v and arg :: unit assume "jd_good (Some v)"
    then obtain r t out v' where "qc_otp_data_read_vcom mc v = Some (r, t, out, v')" "uses_only mc v v'"
      using data_read_vcom_uses ready by blast
    then show "\<exists>r out v'. chip_jd_9367_read_chip_vcom_opt_info cc mc arg v = Some (r, out, v') \<and> uses_only mc v v'"
      by (cases out) (auto simp: chip_jd_9367_read_chip_vcom_opt_info_def)
  qed
  show "stays jd_good jd_same (chip_op chip_jd_9367_get_chip_id_otp_info)"
  proof (rule chip_op_stays)
    fix cc mc v and arg :: unit assume "jd_good (Some v)"
    then obtain r t out v' where "qc_otp_data_read_id mc v = Some (r, t, out, v')" "uses_only mc v v'"
      using data_read_id_uses ready by blast
    then show "\<exists>r out v'. chip_jd_9367_get_chip_id_otp_info cc mc arg v = Some (r, out, v') \<and> uses_only mc v v'"
      by (cases out) (auto simp: chip_jd_9367_get_chip_id_otp_info_def)
  qed
qed

interpretation jd: chip_contract jd_good jd_same chip_jd_9367
proof
  show "jd_same c w w" if "jd_good w" for c w
    using that uses_only_refl by (auto simp: jd_good_def jd_same_def)
qed (simp_all add: chip_jd_9367_def jd_ops_stay)

section \<open>The programming procedures\<close>

text \<open>Groups of commands, each followed by a pause unless it is 0.\<close>

definition play :: "int \<Rightarrow> (mipi_cmd list \<times> nat) list \<Rightarrow> bus \<Rightarrow> bus" where
  "play c = fold (\<lambda>(cs, us) b. (if us = 0 then run_cmds c cs b else emit (Usleep us) (run_cmds c cs b)))"

definition otp_script :: "mipi_cmd list \<Rightarrow> mipi_cmd list \<Rightarrow> u8 \<Rightarrow> (mipi_cmd list \<times> nat) list" where
  "otp_script pwr regs index =
     [(cmd_enable_extend @ cmd_e5 @ cmd28_10, 240000), (pwr, 240000),
      (regs @ cmd_enable_up_key @ cmd_otp_index index 0x03, 200000)]"

definition vcom_script :: "u8 \<Rightarrow> u8 \<Rightarrow> (mipi_cmd list \<times> nat) list" where
  "vcom_script vcom_h vcom_l =
     otp_script cmd_inter_power_vcom (cmd_write_vcom 0x00 0x01 vcom_h vcom_l) 0x26 @ [(cmd_otp_end, 0)]"

definition id_script :: "u8 \<Rightarrow> u8 \<Rightarrow> u8 \<Rightarrow> (mipi_cmd list \<times> nat) list" where
  "id_script id1 id2 id3 =
     otp_script cmd_inter_power_id
       [(0x39, 0xE0, [0x00]), (0x39, 0x78, [id1]), (0x39, 0x79, [id2]), (0x39, 0x7A, [id3])] 0x06
     @ [(cmd_otp_end, 200000), ([(0x39, 0xE0, [0x00]), (0x05, 0x29, [])], 0)]"

lemma run_cmds_append: "run_cmds c (xs @ ys) b = run_cmds c ys (run_cmds c xs b)"
  by (simp add: run_cmds_def)

lemmas otp_lists = cmd_enable_extend_def cmd_e5_def cmd28_10_def cmd_enable_up_key_def cmd_otp_end_def
  cmd_otp_index_def cmd_inter_power_vcom_def cmd_inter_power_id_def cmd_write_vcom_def

lemma send_step:
  assumes "moved w b w1" and "ready w" and "\<forall>x \<in> set cs. good_cmd x"
    and "length cs \<le> 100" and "length (encode cs) \<le> 100"
  shows "\<exists>w2. send_cmds c cs w1 = Some w2 \<and> moved w (run_cmds c cs b) w2"
  using send_cmds_moved [OF moved_ready [OF assms(1,2)] assms(3-5), of c] moved_trans [OF assms(1)]
    moved_bus [OF assms(1)] by metis

lemma otp_begin_plays:
  assumes "ready w"
  shows "\<exists>w'. otp_begin c w = Some w' \<and>
    moved w (emit (Usleep 240000) (run_cmds c (cmd_enable_extend @ cmd_e5 @ cmd28_10) (jw_bus w))) w'"
proof -
  have w: "moved w (jw_bus w) w" by (simp add: moved_def)
  obtain w1 where w1: "send_cmds c cmd_enable_extend w = Some w1"
      "moved w (run_cmds c cmd_enable_extend (jw_bus w)) w1"
    using send_step [OF w assms, of cmd_enable_extend c] by (auto simp: otp_lists encode_def)
  obtain w2 where w2: "send_cmds c cmd_e5 w1 = Some w2"
      "moved w (run_cmds c cmd_e5 (run_cmds c cmd_enable_extend (jw_bus w))) w2"
    using send_step [OF w1(2) assms, of cmd_e5 c] by (auto simp: otp_lists encode_def)
  obtain w3 where w3: "send_cmds c cmd28_10 w2 = Some w3"
      "moved w (run_cmds c cmd28_10 (run_cmds c cmd_e5 (run_cmds c cmd_enable_extend (jw_bus w)))) w3"
    using send_step [OF w2(2) assms, of cmd28_10 c] by (auto simp: otp_lists encode_def)
  show ?thesis
    using moved_jsleep [OF w3(2), of 240000] w1(1) w2(1) w3(1)
    by (simp add: otp_begin_def run_cmds_append)
qed

text \<open>The part the procedures share, up to the closing of the key.\<close>

lemma otp_middle_plays:
  assumes "ready w" and "pwr = cmd_inter_power_vcom \<or> pwr = cmd_inter_power_id"
    and "\<forall>x \<in> set regs. good_cmd x" and "length regs \<le> 100" and "length (encode regs) \<le> 100"
  shows "\<exists>w1 w2 w3 w4 w5. otp_begin c w = Some w1 \<and> send_cmds c pwr w1 = Some w2 \<and>
    send_cmds c regs (jsleep 240000 w2) = Some w3 \<and> send_cmds c cmd_enable_up_key w3 = Some w4 \<and>
    send_cmds c (cmd_otp_index index 0x03) w4 = Some w5 \<and>
    moved w (play c (otp_script pwr regs index) (jw_bus w)) (jsleep 200000 w5)"
proof -
  obtain w1 where w1: "otp_begin c w = Some w1"
      "moved w (emit (Usleep 240000) (run_cmds c (cmd_enable_extend @ cmd_e5 @ cmd28_10) (jw_bus w))) w1"
    using otp_begin_plays [OF assms(1)] by blast
  have p: "\<forall>x \<in> set pwr. good_cmd x" "length pwr \<le> 100" "length (encode pwr) \<le> 100"
    using assms(2) by (auto simp: otp_lists encode_def)
  obtain w2 b2 where w2: "send_cmds c pwr w1 = Some w2" "moved w b2 w2"
      "b2 = run_cmds c pwr (emit (Usleep 240000) (run_cmds c (cmd_enable_extend @ cmd_e5 @ cmd28_10) (jw_bus w)))"
    using send_step [OF w1(2) assms(1) p] by blast
  obtain w3 where w3: "send_cmds c regs (jsleep 240000 w2) = Some w3"
      "moved w (run_cmds c regs (emit (Usleep 240000) b2)) w3"
    using send_step [OF moved_jsleep [OF w2(2)] assms(1,3-5)] by blast
  obtain w4 where w4: "send_cmds c cmd_enable_up_key w3 = Some w4"
      "moved w (run_cmds c cmd_enable_up_key (run_cmds c regs (emit (Usleep 240000) b2))) w4"
    using send_step [OF w3(2) assms(1), of cmd_enable_up_key c] by (auto simp: otp_lists encode_def)
  obtain w5 where w5: "send_cmds c (cmd_otp_index index 0x03) w4 = Some w5"
      "moved w (run_cmds c (cmd_otp_index index 0x03)
         (run_cmds c cmd_enable_up_key (run_cmds c regs (emit (Usleep 240000) b2)))) w5"
    using send_step [OF w4(2) assms(1), of "cmd_otp_index index 0x03" c] by (auto simp: otp_lists encode_def)
  have "play c (otp_script pwr regs index) (jw_bus w) = emit (Usleep 200000)
      (run_cmds c (cmd_otp_index index 0x03) (run_cmds c cmd_enable_up_key (run_cmds c regs (emit (Usleep 240000) b2))))"
    unfolding w2(3) by (simp add: play_def otp_script_def run_cmds_append)
  then have "moved w (play c (otp_script pwr regs index) (jw_bus w)) (jsleep 200000 w5)"
    using moved_jsleep [OF w5(2), of 200000] by simp
  then show ?thesis using w1(1) w2(1) w3(1) w4(1) w5(1) by blast
qed

lemma show_again_moved:
  "moved w b w' \<Longrightarrow> moved w (jw_shutON w True ptn (jw_shutON w False ptn b)) (show_again ptn w')"
proof -
  assume m: "moved w b w'"
  then have "jw_shutON w' = jw_shutON w" by (simp add: moved_def)
  then show ?thesis
    unfolding show_again_def using moved_on_jbus [OF moved_on_jbus [OF m]] by simp
qed

lemma qc_otp_vcom_plays:
  assumes "ready w"
  shows "\<exists>w'. qc_otp_vcom c h l ptn w = Some (0, w') \<and>
    moved w (jw_shutON w True ptn (jw_shutON w False ptn (play c (vcom_script h l) (jw_bus w)))) w'"
proof -
  have r: "\<forall>x \<in> set (cmd_write_vcom 0x00 0x01 h l). good_cmd x" "length (cmd_write_vcom 0x00 0x01 h l) \<le> 100"
      "length (encode (cmd_write_vcom 0x00 0x01 h l)) \<le> 100" by (auto simp: otp_lists encode_def)
  obtain w1 w2 w3 w4 w5 where w: "otp_begin c w = Some w1" "send_cmds c cmd_inter_power_vcom w1 = Some w2"
      "send_cmds c (cmd_write_vcom 0x00 0x01 h l) (jsleep 240000 w2) = Some w3"
      "send_cmds c cmd_enable_up_key w3 = Some w4" "send_cmds c (cmd_otp_index 0x26 0x03) w4 = Some w5"
      "moved w (play c (otp_script cmd_inter_power_vcom (cmd_write_vcom 0x00 0x01 h l) 0x26) (jw_bus w))
        (jsleep 200000 w5)"
    using otp_middle_plays [OF assms disjI1 [OF refl] r] by blast
  obtain w6 where w6: "send_cmds c cmd_otp_end (jsleep 200000 w5) = Some w6"
      "moved w (run_cmds c cmd_otp_end
         (play c (otp_script cmd_inter_power_vcom (cmd_write_vcom 0x00 0x01 h l) 0x26) (jw_bus w))) w6"
    using send_step [OF w(6) assms, of cmd_otp_end c] by (auto simp: otp_lists encode_def)
  have p: "play c (vcom_script h l) b = run_cmds c cmd_otp_end
      (play c (otp_script cmd_inter_power_vcom (cmd_write_vcom 0x00 0x01 h l) 0x26) b)" for b
    by (simp add: vcom_script_def play_def)
  show ?thesis
    using show_again_moved [OF w6(2), of ptn] w(1-5) w6(1) unfolding p by (simp add: qc_otp_vcom_def)
qed

lemma qc_otp_id_plays:
  assumes "ready w"
  shows "\<exists>w'. qc_otp_id c id1 id2 id3 ptn w = Some (0, w') \<and>
    moved w (jw_shutON w True ptn (jw_shutON w False ptn (play c (id_script id1 id2 (ucast id3)) (jw_bus w)))) w'"
proof -
  let ?regs = "[(0x39, 0xE0, [0x00]), (0x39, 0x78, [id1]), (0x39, 0x79, [id2]), (0x39, 0x7A, [ucast id3])] :: mipi_cmd list"
  let ?on = "[(0x39, 0xE0, [0x00]), (0x05, 0x29, [])] :: mipi_cmd list"
  let ?p = "play c (otp_script cmd_inter_power_id ?regs 0x06) (jw_bus w)"
  have r: "\<forall>x \<in> set ?regs. good_cmd x" "length ?regs \<le> 100" "length (encode ?regs) \<le> 100"
    by (auto simp: encode_def)
  obtain w1 w2 w3 w4 w5 where w: "otp_begin c w = Some w1" "send_cmds c cmd_inter_power_id w1 = Some w2"
      "send_cmds c ?regs (jsleep 240000 w2) = Some w3"
      "send_cmds c cmd_enable_up_key w3 = Some w4" "send_cmds c (cmd_otp_index 0x06 0x03) w4 = Some w5"
      "moved w ?p (jsleep 200000 w5)"
    using otp_middle_plays [OF assms disjI2 [OF refl] r] by blast
  obtain w6 where w6: "send_cmds c cmd_otp_end (jsleep 200000 w5) = Some w6"
      "moved w (run_cmds c cmd_otp_end ?p) w6"
    using send_step [OF w(6) assms, of cmd_otp_end c] by (auto simp: otp_lists encode_def)
  obtain w7 where w7: "send_cmds c ?on (jsleep 200000 w6) = Some w7"
      "moved w (run_cmds c ?on (emit (Usleep 200000) (run_cmds c cmd_otp_end ?p))) w7"
    using send_step [OF moved_jsleep [OF w6(2)] assms, of ?on c] by (auto simp: encode_def)
  have p: "play c (id_script id1 id2 (ucast id3)) (jw_bus w) =
      run_cmds c ?on (emit (Usleep 200000) (run_cmds c cmd_otp_end ?p))"
    by (simp add: id_script_def play_def)
  show ?thesis
    using show_again_moved [OF w7(2), of ptn] w(1-5) w6(1) w7(1) unfolding p by (simp add: qc_otp_id_def)
qed

text \<open>The register writes among commands, each with the page selected at that point.\<close>

fun page_writes :: "u8 \<Rightarrow> mipi_cmd list \<Rightarrow> (u8 \<times> u8 \<times> u8) list" where
  "page_writes p [] = []"
| "page_writes p ((op, reg, [v]) # cs) =
     (if op = 0x39 \<and> reg = 0xE0 then page_writes v cs else (p, reg, v) # page_writes p cs)"
| "page_writes p (c # cs) = page_writes p cs"

definition script_cmds :: "(mipi_cmd list \<times> nat) list \<Rightarrow> mipi_cmd list" where
  "script_cmds s = concat (map fst s)"

lemma supply_pages:
  "(0, 0xEC, 0x02) \<in> set (page_writes p (script_cmds (vcom_script h l)))"
  "(1, 0xEC, 0x02) \<notin> set (page_writes p (script_cmds (vcom_script h l)))"
  "(1, 0xEC, 0x02) \<in> set (page_writes p (script_cmds (id_script a b c)))"
  "(0, 0xEC, 0x02) \<notin> set (page_writes p (script_cmds (id_script a b c)))"
  by (simp_all add: script_cmds_def vcom_script_def id_script_def otp_script_def otp_lists)

section \<open>The driver under the manager\<close>

text \<open>
  The requests a client can make of the manager, one for each of its twenty operations; the answer
  kept here is the code, and \<open>None\<close> is the call of a null pointer.
\<close>

datatype icm_request = Rq_id nat | Rq_check | Rq_otp_times | Rq_otp_value | Rq_write_otp int
  | Rq_read_vcom | Rq_write_vcom int | Rq_check_burn int int | Rq_id_info
  | Rq_write_analog "u8 list" | Rq_read_analog nat | Rq_fix_analog | Rq_write_digital "u8 list"
  | Rq_fix_digital | Rq_d3g int | Rq_burn_gamma int int int gamma_data
  | Rq_check_gamma int int int gamma_data | Rq_analog_data | Rq_digital_data
  | Rq_burn_id "u8 list" int

definition code_and_state :: "int \<times> 'o option \<times> 'w \<Rightarrow> int \<times> 'w" where
  "code_and_state x = (fst x, snd (snd x))"

fun serve_request :: "icm_request \<Rightarrow> int \<Rightarrow> 'w ic_mgr \<Rightarrow> 'w \<Rightarrow> (int \<times> 'w) option" where
  "serve_request (Rq_id n) mc m w = Some (code_and_state (ic_mgr_read_chip_id mc n m w))"
| "serve_request Rq_check mc m w = Some (code_and_state (ic_mgr_check_chip_ok mc m w))"
| "serve_request Rq_otp_times mc m w = Some (code_and_state (ic_mgr_read_chip_vcom_otp_times mc m w))"
| "serve_request Rq_otp_value mc m w = Some (code_and_state (ic_mgr_read_chip_vcom_otp_value mc m w))"
| "serve_request (Rq_write_otp v) mc m w =
     Some (code_and_state (ic_mgr_write_chip_vcom_otp_value mc v m w))"
| "serve_request Rq_read_vcom mc m w = Some (code_and_state (ic_mgr_read_vcom mc m w))"
| "serve_request (Rq_write_vcom v) mc m w = Some (code_and_state (ic_mgr_write_vcom mc v m w))"
| "serve_request (Rq_check_burn v t) mc m w =
     Some (code_and_state (ic_mgr_check_vcom_otp_burn_ok mc v t m w))"
| "serve_request Rq_id_info mc m w = Some (code_and_state (ic_mgr_read_chip_id_otp_info mc m w))"
| "serve_request (Rq_write_analog regs) mc m w =
     Some (code_and_state (ic_mgr_write_analog_gamma_data mc regs m w))"
| "serve_request (Rq_read_analog n) mc m w =
     Some (code_and_state (ic_mgr_read_analog_gamma_data mc n m w))"
| "serve_request Rq_fix_analog mc m w = Some (code_and_state (ic_mgr_write_fix_analog_gamma_data mc m w))"
| "serve_request (Rq_write_digital regs) mc m w =
     Some (code_and_state (ic_mgr_write_digital_gamma_data mc regs m w))"
| "serve_request Rq_fix_digital mc m w =
     Some (code_and_state (ic_mgr_write_fix_digital_gamma_data mc m w))"
| "serve_request (Rq_d3g on) mc m w = Some (code_and_state (ic_mgr_d3g_control mc on m w))"
| "serve_request (Rq_burn_gamma flag with_vcom v g) mc m w =
     Some (code_and_state (ic_mgr_burn_gamma_otp_values mc flag with_vcom v g m w))"
| "serve_request (Rq_check_gamma with_vcom v t g) mc m w =
     Some (code_and_state (ic_mgr_check_gamma_otp_values mc with_vcom v t g m w))"
| "serve_request Rq_analog_data mc m w = Some (code_and_state (ic_mgr_get_analog_gamma_reg_data mc m w))"
| "serve_request Rq_digital_data mc m w =
     Some (code_and_state (ic_mgr_get_digital_gamma_reg_data_t mc m w))"
| "serve_request (Rq_burn_id ids ptn) mc m w =
     map_option code_and_state (ic_mgr_burn_chip_id mc ids ptn m w)"

text \<open>The buffer of an identifier to burn has its three bytes.\<close>

fun valid_request :: "icm_request \<Rightarrow> bool" where
  "valid_request (Rq_burn_id ids ptn) \<longleftrightarrow> 3 \<le> length ids"
| "valid_request _ \<longleftrightarrow> True"

definition bound :: "'w ic_mgr \<Rightarrow> int \<Rightarrow> bool" where
  "bound m mc \<longleftrightarrow> 0 \<le> get_chip_channel_by_mipi_channel m mc \<and>
     get_chip_channel_by_mipi_channel m mc < int (im_channel_nums m)"

text \<open>
  What a request does to the bus after its own commands: burning an identifier on a bound channel
  switches the whole display off and on.
\<close>

fun display_restart :: "icm_request \<Rightarrow> int \<Rightarrow> 'w ic_mgr \<Rightarrow> jd_world \<Rightarrow> bus \<Rightarrow> bus" where
  "display_restart (Rq_burn_id ids ptn) mc m v b =
     (if bound m mc then jw_shutON v True ptn (jw_shutON v False ptn b) else b)"
| "display_restart _ mc m v b = b"

definition jd_managed :: "jd_world option ic_mgr \<Rightarrow> bool" where
  "jd_managed m \<longleftrightarrow> im_current_chip m = Some chip_jd_9367 \<and> im_channel_nums m \<le> MAX_CHIP_CHANNEL_NUMS"

text \<open>The static records start as zeros.\<close>

definition zero_info :: jd_info where
  "zero_info = \<lparr>ji_id = [0, 0, 0], id_ok = 0, ji_vcom1 = 0, ji_vcom1_otp_times = 0,
     ji_vcom2 = 0, ji_vcom2_otp_times = 0\<rparr>"

definition jd_start :: "jd_world option \<Rightarrow> bool" where
  "jd_start w \<longleftrightarrow> (\<exists>v. w = Some v \<and> ready v \<and> jw_info v = [zero_info, zero_info])"

inductive jd_step :: "jd_world option \<Rightarrow> jd_world option \<Rightarrow> bool" where
  jd_request: "jd_managed m \<Longrightarrow> valid_request rq \<Longrightarrow> serve_request rq mc m w = Some (r, w') \<Longrightarrow> jd_step w w'"
| jd_bind: "jd_managed m \<Longrightarrow> ch < MAX_CHIP_CHANNEL_NUMS \<Longrightarrow>
     ic_mgr_set_mipi_channel ch mc m w = Some (r, m', w') \<Longrightarrow> jd_step w w'"

lemma snd_snd_stays:
  assumes "\<And>r out w'. x = (r, out, w') \<Longrightarrow> jd_good w' \<and> jd_same mc w w'"
  shows "jd_good (snd (snd x))" and "jd_same mc w (snd (snd x))"
  using assms by (metis prod.collapse)+

lemma no_operation:
  "im_current_chip m = Some chip \<Longrightarrow> sel chip = None \<Longrightarrow> dispatch sel arg mc m w = (-1, None, w)"
  by (simp add: dispatch_def Let_def)

lemma jd_no_gamma:
  assumes "jd_managed m"
  shows "ic_mgr_write_analog_gamma_data mc regs m w = (-1, None, w)"
    and "ic_mgr_read_analog_gamma_data mc n m w = (-1, None, w)"
    and "ic_mgr_write_fix_analog_gamma_data mc m w = (-1, None, w)"
    and "ic_mgr_write_digital_gamma_data mc regs m w = (-1, None, w)"
    and "ic_mgr_write_fix_digital_gamma_data mc m w = (-1, None, w)"
    and "ic_mgr_d3g_control mc on m w = (-1, None, w)"
    and "ic_mgr_burn_gamma_otp_values mc flag with_vcom v g m w = (-1, None, w)"
    and "ic_mgr_check_gamma_otp_values mc with_vcom v t g m w = (-1, None, w)"
    and "ic_mgr_get_analog_gamma_reg_data mc m w = (-1, None, w)"
    and "ic_mgr_get_digital_gamma_reg_data_t mc m w = (-1, None, w)"
  using assms unfolding ic_mgr_ops
  by (simp_all add: no_operation [of m chip_jd_9367] jd_managed_def chip_jd_9367_def)

text \<open>Every request but burning an identifier.\<close>

lemma serve_request_stays:
  assumes "jd_managed m" and "jd_good w" and "serve_request rq mc m w = Some (r, w')"
    and "\<And>ids ptn. rq \<noteq> Rq_burn_id ids ptn"
  shows "jd_good w' \<and> jd_same mc w w'"
proof -
  have m: "im_current_chip m = Some chip_jd_9367" "im_channel_nums m \<le> MAX_CHIP_CHANNEL_NUMS"
    using assms(1) by (auto simp: jd_managed_def)
  note st = jd.requests_stay [OF m assms(2)]
  note stays = snd_snd_stays [OF st(1)] snd_snd_stays [OF st(2)] snd_snd_stays [OF st(3)]
    snd_snd_stays [OF st(4)] snd_snd_stays [OF st(5)] snd_snd_stays [OF st(6)] snd_snd_stays [OF st(7)]
    snd_snd_stays [OF st(8)] snd_snd_stays [OF st(9)]
  have idle: "jd_good w" "jd_same mc w w" using assms(2) jd.same_refl by blast+
  show ?thesis
    using assms(3,4)
    using idle by (cases rq) (auto simp: jd_no_gamma [OF assms(1)] code_and_state_def stays)
qed

lemma moved_good: "moved v b v' \<Longrightarrow> jd_good (Some v) \<Longrightarrow> jd_good (Some v')"
  using moved_ready by (auto simp: jd_good_def moved_def)

lemma jd_bind_good:
  assumes "jd_managed m" and "ch < MAX_CHIP_CHANNEL_NUMS" and "jd_good w"
    and "ic_mgr_set_mipi_channel ch mc m w = Some (r, m', w')"
  shows "jd_good w'"
proof -
  obtain v where v: "w = Some v" "ready v" "\<forall>i \<in> set (jw_info v). unread i"
    using assms(3) by (auto simp: jd_good_def)
  let ?v = "v\<lparr>jw_info := (jw_info v)[ch := zero_info]\<rparr>"
  have "w' = Some ?v"
    using assms(1,2,4) v(1,2)
    by (auto simp: ic_mgr_set_mipi_channel_def jd_managed_def chip_jd_9367_def Let_def ready_def zero_info_def
        chip_jd_9367_get_and_reset_private_data_def split: if_splits)
  moreover have "\<forall>i \<in> set (jw_info ?v). unread i"
    using v(3) set_update_subset_insert [of "jw_info v" ch zero_info] by (auto simp: zero_info_def unread_def)
  ultimately show ?thesis using v(2) by (simp add: jd_good_def ready_def)
qed

lemma only_on_play:
  "only_on c b0 b \<Longrightarrow> \<forall>x \<in> set s. \<forall>y \<in> set (fst x). plain_cmd y \<Longrightarrow> only_on c b0 (play c s b)"
proof (induction s arbitrary: b)
  case (Cons x s)
  obtain cs us where x: "x = (cs, us)" by (cases x)
  have p: "only_on c b0 (run_cmds c cs b)" using only_on_run_cmds [OF Cons.prems(1)] Cons.prems(2) x by simp
  have "only_on c b0 (if us = 0 then run_cmds c cs b else emit (Usleep us) (run_cmds c cs b))"
    using p only_on_emit [OF p] by (simp add: on_channel_simps)
  then have "only_on c b0 (play c s (if us = 0 then run_cmds c cs b else emit (Usleep us) (run_cmds c cs b)))"
    using Cons.IH Cons.prems(2) by simp
  then show ?case by (simp add: x play_def)
qed (simp add: play_def)

lemma id_script_plain: "\<forall>x \<in> set (id_script a b c). \<forall>y \<in> set (fst x). plain_cmd y"
  by (simp add: id_script_def otp_script_def otp_lists plain_cmd_def)

text \<open>Burning an identifier.\<close>

lemma burn_request:
  assumes "jd_managed m" and "3 \<le> length ids" and "jd_good w"
    and "serve_request (Rq_burn_id ids ptn) mc m w = Some (r, w')"
  shows "\<exists>v v' b. w = Some v \<and> w' = Some v' \<and> jd_good w' \<and> jw_info v' = jw_info v \<and>
    jw_bus v' = display_restart (Rq_burn_id ids ptn) mc m v b \<and>
    b = (if bound m mc then play mc (id_script (ids ! 0) (ids ! 1) (ids ! 2)) (jw_bus v) else jw_bus v)"
proof -
  obtain v where v: "w = Some v" "ready v" using assms(3) by (auto simp: jd_good_def)
  obtain a b c rest where ids: "ids = a # b # c # rest"
    using assms(2) by (cases ids; cases "tl ids"; cases "tl (tl ids)") auto
  let ?p = "play mc (id_script a b c) (jw_bus v)"
  have "ucast (ucast c :: u16) = c" by (rule ucast_up_ucast_id) (simp add: is_up)
  then obtain v' where o: "qc_otp_id mc a b (ucast c) ptn v = Some (0, v')"
      "moved v (jw_shutON v True ptn (jw_shutON v False ptn ?p)) v'"
    using qc_otp_id_plays [OF v(2), of mc a b "ucast c" ptn] by metis
  obtain out where "ic_mgr_burn_chip_id mc ids ptn m w = Some (r, out, w')"
    using assms(4) by (auto simp: code_and_state_def)
  then have "w' = (if bound m mc then Some v' else w)"
    using assms(1) o(1) v(1) ids
    by (auto simp: ic_mgr_burn_chip_id_def jd_managed_def chip_jd_9367_def Let_def chip_op_def bound_def
        chip_jd_9367_burn_chip_id_def split: if_splits)
  moreover have "jd_good (Some v')" using moved_good [OF o(2)] assms(3) v(1) by simp
  ultimately show ?thesis
    using assms(3) v(1) o(2) ids by (cases "bound m mc") (auto simp: moved_def)
qed

lemma request_returns:
  assumes "jd_managed m"
  shows "\<exists>r w'. serve_request rq mc m w = Some (r, w')"
proof -
  have "serve_request rq mc m w \<noteq> None"
    using assms by (cases rq) (auto simp: ic_mgr_burn_chip_id_def jd_managed_def chip_jd_9367_def Let_def intro: prod_cases3)
  then show ?thesis by auto
qed

text \<open>All twenty requests: the commands of the request itself, then the restart.\<close>

lemma request_shape:
  assumes "jd_managed m" and "valid_request rq" and "jd_good w" and "serve_request rq mc m w = Some (r, w')"
  shows "\<exists>v v' b. w = Some v \<and> w' = Some v' \<and> jd_good w' \<and> jw_info v' = jw_info v \<and>
    jw_bus v' = display_restart rq mc m v b \<and> only_on mc (jw_bus v) b \<and>
    (\<forall>ids ptn. rq = Rq_burn_id ids ptn \<and> bound m mc \<longrightarrow>
       b = play mc (id_script (ids ! 0) (ids ! 1) (ids ! 2)) (jw_bus v))"
proof (cases "\<exists>ids ptn. rq = Rq_burn_id ids ptn")
  case True
  then obtain ids ptn where rq: "rq = Rq_burn_id ids ptn" by blast
  have l: "3 \<le> length ids" using assms(2) rq by simp
  obtain v v' b where h: "w = Some v" "w' = Some v'" "jd_good w'" "jw_info v' = jw_info v"
      "jw_bus v' = display_restart rq mc m v b"
      "b = (if bound m mc then play mc (id_script (ids ! 0) (ids ! 1) (ids ! 2)) (jw_bus v) else jw_bus v)"
    using burn_request [OF assms(1) l assms(3) assms(4) [unfolded rq]] rq by blast
  have "only_on mc (jw_bus v) b"
    using only_on_play [OF only_on_refl id_script_plain] by (simp add: h(6) only_on_refl)
  moreover have "\<forall>ids' ptn'. rq = Rq_burn_id ids' ptn' \<and> bound m mc \<longrightarrow>
       b = play mc (id_script (ids' ! 0) (ids' ! 1) (ids' ! 2)) (jw_bus v)"
    using h(6) rq by simp
  ultimately show ?thesis using h(1-5) by blast
next
  case False
  then have "jd_good w' \<and> jd_same mc w w'" using serve_request_stays [OF assms(1,3,4)] by blast
  moreover have "display_restart rq mc m v b = b" for v b using False by (cases rq) auto
  ultimately show ?thesis using False by (fastforce simp: jd_same_def uses_only_def moved_def)
qed

interpretation jd_sys: inv_system jd_start jd_step jd_good
proof
  show "jd_good w" if "jd_start w" for w
    using that by (auto simp: jd_start_def jd_good_def zero_info_def unread_def)
  show "jd_good w'" if "jd_good w" "jd_step w w'" for w w'
    using that(2,1) request_shape jd_bind_good by (cases rule: jd_step.cases) blast+
qed

section \<open>Properties\<close>

lemma dispatch_bound:
  "bound m mc \<Longrightarrow> im_current_chip m = Some chip \<Longrightarrow> sel chip = Some f \<Longrightarrow>
     dispatch sel arg mc m w = f (get_chip_channel_by_mipi_channel m mc) mc arg
       (ic_private_data (im_channel_data m ! nat (get_chip_channel_by_mipi_channel m mc))) w"
  by (simp add: dispatch_def bound_def Let_def)

definition demo_jd :: jd_world where
  "demo_jd = \<lparr>jw_send = idle_send [], jw_info = [zero_info, zero_info],
     jw_junk = (\<lambda>_. replicate 250 0), jw_shutON = (\<lambda>_ _ b. b)\<rparr>"

definition demo_jd_mgr :: "jd_world option ic_mgr" where
  "demo_jd_mgr = \<lparr>im_my_chip_id = 6, im_channel_nums = 2, im_channel_data =
     [\<lparr>ic_channel = 0, ic_mipi_channel = 1, ic_my_chip_id = 0, ic_private_data = 1\<rparr>,
      \<lparr>ic_channel = 1, ic_mipi_channel = 4, ic_my_chip_id = 0, ic_private_data = 2\<rparr>],
     im_current_chip = Some chip_jd_9367\<rparr>"

lemma demo_jd_ready: "ready demo_jd"
  by (simp add: ready_def demo_jd_def idle_send_def MAX_CHIP_CHANNEL_NUMS_def)

lemma demo_jd_reach: "reach jd_start jd_step (Some demo_jd)"
proof -
  have "jd_start (Some demo_jd)" using demo_jd_ready by (auto simp: jd_start_def demo_jd_def)
  then show ?thesis by (rule reach_start [where start = jd_start])
qed

lemma demo_jd_managed: "jd_managed demo_jd_mgr" "bound demo_jd_mgr 4"
  by (simp_all add: jd_managed_def demo_jd_mgr_def MAX_CHIP_CHANNEL_NUMS_def bound_def
      get_chip_channel_by_mipi_channel_def numeral_eq_Suc)

text \<open>
  With the JD9367 the common voltage cannot be read, set or burnt. The driver never confirms
  the identity of the chip, so after any requests, on a bound channel, reading and writing VCOM,
  writing it to the memory and reading the number of writes all answer -1 without touching the
  hardware, and the check after burning, which looks at records nobody fills, reports that the
  number of writes has not changed, whatever the panel holds.
\<close>

theorem jd9367_vcom_unusable:
  assumes "reach jd_start jd_step w" and "jd_managed m" and "bound m mc"
    and "0 \<le> t" and "t < 2 ^ 31 - 1"
  shows "ic_mgr_read_vcom mc m w = (-1, None, w) \<and> ic_mgr_write_vcom mc v m w = (-1, None, w) \<and>
    ic_mgr_write_chip_vcom_otp_value mc v m w = (-1, None, w) \<and>
    ic_mgr_read_chip_vcom_otp_times mc m w = (-1, None, w) \<and>
    ic_mgr_check_vcom_otp_burn_ok mc v t m w = (E_ICM_VCOM_TIMES_NOT_CHANGE, Some 0, w)"
proof -
  obtain x where x: "w = Some x" and g: "jd_good (Some x)"
    using jd_sys.reach_inv [OF assms(1)] by (auto simp: jd_good_def)
  let ?c = "get_chip_channel_by_mipi_channel m mc"
  have c: "0 \<le> ?c" "?c < int MAX_CHIP_CHANNEL_NUMS" and chip: "im_current_chip m = Some chip_jd_9367"
    using assms(2,3) by (auto simp: bound_def jd_managed_def)
  note d = dispatch_bound [OF assms(3) chip]
  have t: "word_of_int (t + 1) \<noteq> (0 :: u32)"
  proof
    assume "word_of_int (t + 1) = (0 :: u32)"
    then have "uint (word_of_int (t + 1) :: u32) = uint (0 :: u32)" by (rule arg_cong)
    then have "(t + 1) mod 2 ^ 32 = 0" unfolding uint_word_of_int by simp
    then show False using assms(4,5) by simp
  qed
  show ?thesis
    unfolding ic_mgr_ops using refused_ops [OF g c] burn_check [OF g c, of mc v t] t
    by (simp add: d chip_jd_9367_def chip_op_def x)
qed

lemma jd9367_vcom_unusable_witness:
  "ic_mgr_write_vcom 4 300 demo_jd_mgr (Some demo_jd) = (-1, None, Some demo_jd)"
  using jd9367_vcom_unusable [OF demo_jd_reach demo_jd_managed, of 1 300] by simp

text \<open>
  A request concerns its own panel. After any requests, each of the twenty requests of the manager
  with the JD9367 returns without an undefined step, leaves the driver's records as they are, and
  sends and reads only on the MIPI channel it names, but for the restart of the display that ends the
  burning of an identifier.
\<close>

theorem jd9367_requests_isolated:
  assumes "reach jd_start jd_step w" and "jd_managed m" and "valid_request rq"
  shows "\<exists>v r v' b es. w = Some v \<and> serve_request rq mc m w = Some (r, Some v') \<and> jw_info v' = jw_info v \<and>
    jw_bus v' = display_restart rq mc m v b \<and>
    bus_trace b = bus_trace (jw_bus v) @ es \<and> (\<forall>e \<in> set es. on_channel mc e)"
proof -
  obtain r w' where s: "serve_request rq mc m w = Some (r, w')"
    using request_returns [OF assms(2)] by blast
  then show ?thesis
    using request_shape [OF assms(2,3) jd_sys.reach_inv [OF assms(1)] s]
    by (fastforce simp: only_on_def runs_def)
qed

lemma jd9367_requests_isolated_witness:
  "\<exists>r v' es. serve_request Rq_id_info 4 demo_jd_mgr (Some demo_jd) = Some (r, Some v') \<and>
     bus_trace (jw_bus v') = bus_trace (jw_bus demo_jd) @ es \<and> (\<forall>e \<in> set es. on_channel 4 e)"
  using jd9367_requests_isolated [OF demo_jd_reach demo_jd_managed(1), of Rq_id_info 4]
  by auto

text \<open>
  Programming sends its command list and restarts the display. Burning VCOM and burning the
  id return 0 and do on the bus exactly the groups of commands of their scripts, with the pauses,
  and then the display is switched off and on; but only the one for VCOM selects page 0 before it
  switches the internal supply of the memory on: the one for the id writes that register on page 1.
\<close>

theorem otp_supply_page:
  assumes "ready w"
  shows "(\<exists>w'. qc_otp_vcom c h l ptn w = Some (0, w') \<and>
      jw_bus w' = jw_shutON w True ptn (jw_shutON w False ptn (play c (vcom_script h l) (jw_bus w)))) \<and>
    (\<exists>w'. qc_otp_id c id1 id2 id3 ptn w = Some (0, w') \<and>
      jw_bus w' = jw_shutON w True ptn (jw_shutON w False ptn (play c (id_script id1 id2 (ucast id3)) (jw_bus w)))) \<and>
    {p. (p, 0xEC, 0x02) \<in> set (page_writes q (script_cmds (vcom_script h l)))} = {0} \<and>
    {p. (p, 0xEC, 0x02) \<in> set (page_writes q (script_cmds (id_script id1 id2 (ucast id3))))} = {1}"
proof (intro conjI)
  show "\<exists>w'. qc_otp_vcom c h l ptn w = Some (0, w') \<and>
      jw_bus w' = jw_shutON w True ptn (jw_shutON w False ptn (play c (vcom_script h l) (jw_bus w)))"
    using qc_otp_vcom_plays [OF assms] moved_bus by metis
  show "\<exists>w'. qc_otp_id c id1 id2 id3 ptn w = Some (0, w') \<and>
      jw_bus w' = jw_shutON w True ptn (jw_shutON w False ptn (play c (id_script id1 id2 (ucast id3)) (jw_bus w)))"
    using qc_otp_id_plays [OF assms] moved_bus by metis
qed (auto simp: script_cmds_def vcom_script_def id_script_def otp_script_def otp_lists)

lemma otp_supply_page_witness:
  "\<exists>w'. qc_otp_id 4 1 2 3 0 demo_jd = Some (0, w') \<and> jw_bus w' = play 4 (id_script 1 2 3) (jw_bus demo_jd)"
  using otp_supply_page [OF demo_jd_ready, of 4 0 0 0 1 2 3 0] by (simp add: demo_jd_def)

end
