(* ===== verification/AutoFlick.thy ===== *)
theory AutoFlick
  imports Main
begin

text \<open>
  The automatic search for the common voltage with the least flicker, \<^verbatim>\<open>z_auto_flick_2\<close> of
  \<^verbatim>\<open>hw/mipi/mipiflick.c\<close> (built with \<^verbatim>\<open>USED_FAST_FLICK\<close> and \<^verbatim>\<open>USE_Z_CA210_LIB\<close>). A measurement sets
  the voltage and reads the analyser; it is a function of the measurements made before and of the
  voltage. The search returns its code, what it stored through the two result pointers, if it
  did, and the measurements made, each a voltage and a reading in hundredths of a percent.
\<close>

type_synonym reading = "int \<times> int"
type_synonym probe = "reading list \<Rightarrow> int \<Rightarrow> int"

definition INVALID_FLICK_VALUE :: int where "INVALID_FLICK_VALUE = 99999"

definition s_max_error_cnt :: int where "s_max_error_cnt = 10"

definition s_max_change_direct_cnt :: int where "s_max_change_direct_cnt = 5"

text \<open>
  What \<^verbatim>\<open>ca210_capture_flick_data\<close> of \<^verbatim>\<open>hw/lcd/ca310.c\<close> returns: a reading, out of range, or any of
  the other failures (time-out, refused command, too dark). Before it measures it stores
  \<^verbatim>\<open>FLOAT_INVALID_FLICK_VALUE\<close>, 999.9999, through its pointer; a failure leaves that there, which is
  99999 in hundredths after truncation.
\<close>

datatype capture = Captured int | Out_of_range | Other_error

definition captured_hundredths :: "capture \<Rightarrow> int" where
  "captured_hundredths c = (case c of Captured hundredths \<Rightarrow> hundredths | Out_of_range \<Rightarrow> 99999 | Other_error \<Rightarrow> 99999)"

text \<open>\<^verbatim>\<open>z_flick_test\<close>: write the voltage, then measure.\<close>

definition z_flick_test :: "(reading list \<Rightarrow> int \<Rightarrow> capture) \<Rightarrow> probe" where
  "z_flick_test ca210 seen vcom =
     (case ca210 seen vcom of
        Captured hundredths \<Rightarrow> hundredths
      | Out_of_range \<Rightarrow> INVALID_FLICK_VALUE
      | Other_error \<Rightarrow> INVALID_FLICK_VALUE)"

definition change_direct :: "int \<Rightarrow> int" where
  "change_direct direction = (if direction = -1 then 1 else -1)"

text \<open>How far to go, by the last reading; the widest step also starts from the ends of the range.\<close>

definition step_of :: "int \<Rightarrow> int" where
  "step_of last_flick =
     (if last_flick < 0 then 10
      else if last_flick \<ge> INVALID_FLICK_VALUE then 10
      else if last_flick > 50 * 100 then 5
      else if last_flick > 20 * 100 then 3
      else 1)"

text \<open>The next voltage, direction and count of changes of direction.\<close>

definition next_vcom :: "int \<Rightarrow> int \<Rightarrow> int \<Rightarrow> int \<Rightarrow> int \<Rightarrow> int \<Rightarrow> int \<times> int \<times> int" where
  "next_vcom min_vcom max_vcom last_vcom last_flick find_direction change_direction_cnt =
     (let step = step_of last_flick; wide = (step = 10) in
      if find_direction = -1 then
        if last_vcom > min_vcom + step \<and> (if wide then last_vcom \<le> max_vcom else last_vcom < max_vcom)
        then (last_vcom - step, find_direction, change_direction_cnt)
        else (min_vcom + step, change_direct find_direction, change_direction_cnt + 1)
      else
        if (if wide then last_vcom \<ge> min_vcom else last_vcom > min_vcom) \<and> last_vcom < max_vcom - step
        then (last_vcom + step, find_direction, change_direction_cnt)
        else (max_vcom - step, change_direct find_direction, change_direction_cnt + 1))"

text \<open>The reading got worse: the direction turns, from none to left.\<close>

definition worse :: "int \<Rightarrow> int \<Rightarrow> bool" where
  "worse last_flick flick \<longleftrightarrow> flick > 0 \<and> last_flick > 0 \<and> last_flick < flick"

definition turn :: "int \<Rightarrow> int" where
  "turn find_direction = (if find_direction = 0 then -1 else - find_direction)"

definition dist_to_end :: "int \<Rightarrow> int \<Rightarrow> int \<Rightarrow> int \<Rightarrow> int" where
  "dist_to_end min_vcom max_vcom vcom direction =
     (if direction = -1 then vcom - min_vcom else max_vcom - vcom)"

lemma step_of_pos: "1 \<le> step_of f" "step_of f \<le> 10"
  by (simp_all add: step_of_def)

lemma next_vcom_progress:
  assumes "next_vcom mn mx lv lf d n = (v, d', n')"
  shows "n' = n + 1 \<or> n' = n \<and> d' = d \<and> dist_to_end mn mx v d < dist_to_end mn mx lv d \<and>
    0 < dist_to_end mn mx lv d"
  using assms step_of_pos [of lf]
  by (auto simp: next_vcom_def dist_to_end_def Let_def split: if_splits)

function z_auto_flick_2 ::
  "probe \<Rightarrow> int \<Rightarrow> int \<Rightarrow> int \<Rightarrow> int \<Rightarrow> reading list \<Rightarrow> int \<Rightarrow> int \<Rightarrow> int \<Rightarrow> int \<Rightarrow> int
     \<Rightarrow> int \<times> reading option \<times> reading list" where
  "z_auto_flick_2 probe min_vcom max_vcom min_ok_flick max_ok_flick seen
       last_vcom last_flick find_direction flick_error_cnt change_direction_cnt =
     (let errs = (if last_flick < 0 \<or> last_flick \<ge> INVALID_FLICK_VALUE then flick_error_cnt + 1
                  else flick_error_cnt) in
      case next_vcom min_vcom max_vcom last_vcom last_flick find_direction change_direction_cnt of
        (vcom, dir, turns) \<Rightarrow>
          (let flick = probe seen vcom; seen' = seen @ [(vcom, flick)];
               w = worse last_flick flick;
               dir' = (if w then turn dir else dir);
               turns' = (if w then turns + 1 else turns) in
           if w \<and> step_of last_flick = 1 \<and> turns \<ge> 1 then (0, Some (last_vcom, last_flick), seen')
           else if flick > 0 \<and> flick < min_ok_flick then (0, Some (vcom, flick), seen')
           else if flick > 0 \<and> flick < max_ok_flick \<and> turns' \<ge> s_max_change_direct_cnt then
             (0, Some (if last_flick < flick then (last_vcom, last_flick) else (vcom, flick)), seen')
           else if errs \<ge> s_max_error_cnt \<and> flick \<ge> INVALID_FLICK_VALUE then (0, None, seen')
           else if turns' \<ge> s_max_change_direct_cnt then (-1, None, seen')
           else z_auto_flick_2 probe min_vcom max_vcom min_ok_flick max_ok_flick seen'
                  vcom flick dir' errs turns'))"
  by pat_completeness auto

termination
proof (relation "inv_image (less_than <*lex*> less_than)
    (\<lambda>(_, mn, mx, _, _, _, lv, _, d, _, n). (nat (5 - n), nat (dist_to_end mn mx lv d)))", goal_cases)
  case 1
  show ?case by (intro wf_inv_image wf_lex_prod wf_less_than)
next
  case (2 probe mn mx lo hi seen lv lf d e n errs v y dir turns flick seen' w dir' turns')
  have nx: "next_vcom mn mx lv lf d n = (v, dir, turns)" using 2(2,3) by simp
  have t: "turns' < 5" using 2(13) by (simp add: s_max_change_direct_cnt_def)
  have t': "turns' = (if w then turns + 1 else turns)" "dir' = (if w then turn dir else dir)"
    using 2(7,8) by simp_all
  show ?case
    using next_vcom_progress [OF nx] t t' by (cases w) auto
qed

declare z_auto_flick_2.simps [simp del]

text \<open>
  The search as \<^verbatim>\<open>box_channelFlickTask\<close> runs it from the initial voltage. That is set and measured,
  and measured again without looking at the status: the second value starts the search. The result
  is the code, and what is kept, from variables that start as 0, whatever the code.
\<close>

definition box_flick_search ::
  "(reading list \<Rightarrow> int \<Rightarrow> capture) \<Rightarrow> int \<Rightarrow> int \<Rightarrow> int \<Rightarrow> int \<Rightarrow> int \<Rightarrow> int \<times> int \<times> int" where
  "box_flick_search ca210 min_vcom max_vcom init_vcom min_ok_flick max_ok_flick =
     (let f0 = z_flick_test ca210 [] init_vcom;
          flick = captured_hundredths (ca210 [(init_vcom, f0)] init_vcom);
          (flick_erro, found, seen) =
            z_auto_flick_2 (z_flick_test ca210) min_vcom max_vcom min_ok_flick max_ok_flick
              [(init_vcom, f0), (init_vcom, flick)] init_vcom flick 0 0 0;
          (find_vcom, find_flick) = (case found of None \<Rightarrow> (0, 0) | Some x \<Rightarrow> x) in
      (flick_erro, find_vcom, find_flick))"

section \<open>Range and length of the search\<close>

lemma next_vcom_range:
  "next_vcom mn mx lv lf d n = (v, d', n') \<Longrightarrow> mn + 10 \<le> mx \<Longrightarrow> mn \<le> v \<and> v \<le> mx"
  using step_of_pos [of lf] by (auto simp: next_vcom_def Let_def split: if_splits)

lemma dist_to_end_range: "mn \<le> v \<Longrightarrow> v \<le> mx \<Longrightarrow> 0 \<le> dist_to_end mn mx v d \<and> dist_to_end mn mx v d \<le> mx - mn"
  by (simp add: dist_to_end_def)

definition flick_bound :: "int \<Rightarrow> int \<Rightarrow> int \<Rightarrow> int \<Rightarrow> int \<Rightarrow> int" where
  "flick_bound mn mx v d n = (if n < 5 then (5 - n) * (mx - mn + 1) else 0) + dist_to_end mn mx v d + 1"

lemma flick_bound_step:
  assumes "mn \<le> lv" and "lv \<le> mx" and "mn \<le> v" and "v \<le> mx" and "n' < 5"
    and "n + 1 \<le> n' \<or> n' = n \<and> d' = d \<and> dist_to_end mn mx v d < dist_to_end mn mx lv d"
  shows "flick_bound mn mx v d' n' + 1 \<le> flick_bound mn mx lv d n"
proof -
  note r = dist_to_end_range [OF assms(1,2), of d] dist_to_end_range [OF assms(3,4), of d']
  show ?thesis
    using assms(6)
  proof
    assume n: "n + 1 \<le> n'"
    have "(5 - n') * (mx - mn + 1) \<le> (5 - n - 1) * (mx - mn + 1)"
      using n assms(1,2) by (intro mult_right_mono) auto
    also have "\<dots> = (5 - n) * (mx - mn + 1) - (mx - mn + 1)" by (simp add: algebra_simps)
    finally show ?thesis using n assms(5) r by (simp add: flick_bound_def)
  qed (use assms(5) in \<open>simp add: flick_bound_def\<close>)
qed

lemma flick_bound_one: "mn \<le> v \<Longrightarrow> v \<le> mx \<Longrightarrow> 1 \<le> flick_bound mn mx v d n"
  using dist_to_end_range [of mn v mx d] by (simp add: flick_bound_def)

definition search_ok :: "int \<Rightarrow> int \<Rightarrow> reading \<Rightarrow> reading list \<Rightarrow> int \<times> reading option \<times> reading list \<Rightarrow> reading list \<Rightarrow> bool" where
  "search_ok mn mx start seen res ms \<longleftrightarrow>
     (case res of (r, found, seen') \<Rightarrow> seen' = seen @ ms \<and> (\<forall>x \<in> set ms. mn \<le> fst x \<and> fst x \<le> mx) \<and>
        (r = 0 \<or> r = -1 \<and> found = None) \<and>
        (\<forall>x. found = Some x \<longrightarrow> x = start \<or> x \<in> set ms))"

lemma search_ok_step:
  "search_ok mn mx (v, f) (seen @ [(v, f)]) res ms \<Longrightarrow> mn \<le> v \<Longrightarrow> v \<le> mx \<Longrightarrow>
     search_ok mn mx start seen res ((v, f) # ms)"
  by (auto simp: search_ok_def split: prod.splits)

lemma auto_flick_search:
  assumes "mn + 10 \<le> mx" and "mn \<le> lv" and "lv \<le> mx"
  shows "\<exists>ms. search_ok mn mx (lv, lf) seen (z_auto_flick_2 probe mn mx lo hi seen lv lf d e n) ms \<and>
    int (length ms) \<le> flick_bound mn mx lv d n"
  using assms
proof (induction probe mn mx lo hi seen lv lf d e n rule: z_auto_flick_2.induct)
  case (1 probe mn mx lo hi seen lv lf d e n)
  obtain v dir turns where nx: "next_vcom mn mx lv lf d n = (v, dir, turns)" by (metis prod_cases3)
  define flick where "flick = probe seen v"
  define w where "w = worse lf flick"
  define dir' where "dir' = (if w then turn dir else dir)"
  define turns' where "turns' = (if w then turns + 1 else turns)"
  define errs where "errs = (if lf < 0 \<or> lf \<ge> INVALID_FLICK_VALUE then e + 1 else e)"
  note eqs = flick_def w_def dir'_def turns'_def errs_def
  have vr: "mn \<le> v" "v \<le> mx" using next_vcom_range [OF nx 1(2)] by auto
  have one: "int (length [(v, flick)]) \<le> flick_bound mn mx lv d n"
    using flick_bound_one [OF 1(3,4)] by simp
  let ?stop1 = "w \<and> step_of lf = 1 \<and> turns \<ge> 1" and ?stop2 = "flick > 0 \<and> flick < lo"
  let ?stop3 = "flick > 0 \<and> flick < hi \<and> turns' \<ge> s_max_change_direct_cnt"
  let ?stop4 = "errs \<ge> s_max_error_cnt \<and> flick \<ge> INVALID_FLICK_VALUE"
  let ?stop5 = "turns' \<ge> s_max_change_direct_cnt"
  have unf: "z_auto_flick_2 probe mn mx lo hi seen lv lf d e n =
     (if ?stop1 then (0, Some (lv, lf), seen @ [(v, flick)])
      else if ?stop2 then (0, Some (v, flick), seen @ [(v, flick)])
      else if ?stop3 then (0, Some (if lf < flick then (lv, lf) else (v, flick)), seen @ [(v, flick)])
      else if ?stop4 then (0, None, seen @ [(v, flick)])
      else if ?stop5 then (-1, None, seen @ [(v, flick)])
      else z_auto_flick_2 probe mn mx lo hi (seen @ [(v, flick)]) v flick dir' errs turns')"
    unfolding z_auto_flick_2.simps [of probe mn mx lo hi seen lv lf d e n] nx eqs
    by (simp only: Let_def prod.case)
  show ?case
  proof (cases "?stop1 \<or> ?stop2 \<or> ?stop3 \<or> ?stop4 \<or> ?stop5")
    case True
    then have "search_ok mn mx (lv, lf) seen (z_auto_flick_2 probe mn mx lo hi seen lv lf d e n) [(v, flick)]"
      unfolding unf using vr by (auto simp: search_ok_def)
    then show ?thesis using one by blast
  next
    case False
    have ih: "\<exists>ms. search_ok mn mx (v, flick) (seen @ [(v, flick)])
        (z_auto_flick_2 probe mn mx lo hi (seen @ [(v, flick)]) v flick dir' errs turns') ms \<and>
      int (length ms) \<le> flick_bound mn mx v dir' turns'"
      by (rule 1(1) [OF errs_def nx [symmetric] refl flick_def refl w_def dir'_def turns'_def])
        (use False 1(2) vr in auto)
    then obtain ms where ms: "search_ok mn mx (v, flick) (seen @ [(v, flick)])
        (z_auto_flick_2 probe mn mx lo hi (seen @ [(v, flick)]) v flick dir' errs turns') ms"
        "int (length ms) \<le> flick_bound mn mx v dir' turns'" by blast
    have "n + 1 \<le> turns' \<or> turns' = n \<and> dir' = d \<and> dist_to_end mn mx v d < dist_to_end mn mx lv d"
      using next_vcom_progress [OF nx] by (auto simp: turns'_def dir'_def)
    then have "flick_bound mn mx v dir' turns' + 1 \<le> flick_bound mn mx lv d n"
      using flick_bound_step [OF 1(3,4) vr] False by (auto simp: s_max_change_direct_cnt_def)
    moreover have "z_auto_flick_2 probe mn mx lo hi seen lv lf d e n =
        z_auto_flick_2 probe mn mx lo hi (seen @ [(v, flick)]) v flick dir' errs turns'"
      unfolding unf using False by auto
    ultimately show ?thesis
      using search_ok_step [OF ms(1) vr, of "(lv, lf)"] ms(2)
      by (intro exI [of _ "(v, flick) # ms"]) simp
  qed
qed

section \<open>A search without readings\<close>

lemma next_vcom_invalid:
  assumes "lf < 0 \<or> lf \<ge> INVALID_FLICK_VALUE"
  shows "next_vcom mn mx lv lf d n =
     (if d = -1 then
        if lv > mn + 10 \<and> lv \<le> mx then (lv - 10, d, n) else (mn + 10, 1, n + 1)
      else
        if lv \<ge> mn \<and> lv < mx - 10 then (lv + 10, d, n) else (mx - 10, -1, n + 1))"
  using assms by (auto simp: next_vcom_def step_of_def change_direct_def Let_def)

lemma auto_flick_invalid:
  assumes "\<And>h x. probe h x = INVALID_FLICK_VALUE" and "lf = INVALID_FLICK_VALUE"
    and "lo \<le> INVALID_FLICK_VALUE" and "hi \<le> INVALID_FLICK_VALUE"
    and "mn \<le> lv" and "lv \<le> mx" and "120 \<le> mx - mn" and "e = 9 - int k"
    and "n = 0 \<or> n = 1 \<and> 10 * int k + 11 \<le> dist_to_end mn mx lv d" and "k \<le> 9"
  shows "\<exists>seen'. z_auto_flick_2 probe mn mx lo hi seen lv lf d e n = (0, None, seen') \<and>
    length seen' = length seen + k + 1"
  using assms
proof (induction k arbitrary: seen lv lf d e n)
  case 0
  obtain v dir turns where nx: "next_vcom mn mx lv lf d n = (v, dir, turns)" by (metis prod_cases3)
  show ?case
    unfolding z_auto_flick_2.simps [of probe mn mx lo hi seen lv lf d e n] nx
    using 0 by (simp add: Let_def worse_def s_max_error_cnt_def INVALID_FLICK_VALUE_def)
next
  case (Suc k)
  obtain v dir turns where nx: "next_vcom mn mx lv lf d n = (v, dir, turns)" by (metis prod_cases3)
  have inv: "lf < 0 \<or> lf \<ge> INVALID_FLICK_VALUE" using Suc.prems(2) by simp
  have far: "turns = 0 \<or> turns = 1 \<and> 10 * int k + 11 \<le> dist_to_end mn mx v dir"
    and vr: "mn \<le> v" "v \<le> mx"
    using nx Suc.prems(5-10) unfolding next_vcom_invalid [OF inv]
    by (auto simp: dist_to_end_def split: if_splits)
  have "\<exists>seen'. z_auto_flick_2 probe mn mx lo hi (seen @ [(v, INVALID_FLICK_VALUE)]) v INVALID_FLICK_VALUE dir (e + 1) turns
      = (0, None, seen') \<and> length seen' = length (seen @ [(v, INVALID_FLICK_VALUE)]) + k + 1"
    using Suc.prems far vr by (intro Suc.IH) auto
  moreover have "z_auto_flick_2 probe mn mx lo hi seen lv lf d e n =
      z_auto_flick_2 probe mn mx lo hi (seen @ [(v, INVALID_FLICK_VALUE)]) v INVALID_FLICK_VALUE dir (e + 1) turns"
    unfolding z_auto_flick_2.simps [of probe mn mx lo hi seen lv lf d e n] nx
    using Suc.prems far
    by (auto simp: Let_def worse_def s_max_error_cnt_def s_max_change_direct_cnt_def INVALID_FLICK_VALUE_def)
  ultimately show ?case by simp
qed

section \<open>Properties\<close>

text \<open>
  C18: the search for the least flicker ends, within its range. Whatever the analyser reads, a
  search from the range of at least ten steps measures at most six times per voltage of the range,
  sets only voltages of the range, and a result is a voltage with the reading measured there (the
  start included); with the code -1 there is none.
\<close>

theorem auto_flick_bounded:
  assumes "mn + 10 \<le> mx" and "mn \<le> iv" and "iv \<le> mx"
    and "z_auto_flick_2 probe mn mx lo hi seen iv f 0 0 0 = (r, found, seen')"
  shows "\<exists>ms. seen' = seen @ ms \<and> int (length ms) \<le> 6 * (mx - mn + 1) \<and>
    (\<forall>x \<in> set ms. mn \<le> fst x \<and> fst x \<le> mx) \<and> (r = 0 \<or> r = -1 \<and> found = None) \<and>
    (\<forall>x. found = Some x \<longrightarrow> x = (iv, f) \<or> x \<in> set ms)"
proof -
  obtain ms where ms: "search_ok mn mx (iv, f) seen (r, found, seen') ms"
      "int (length ms) \<le> flick_bound mn mx iv 0 0"
    using auto_flick_search [OF assms(1-3), of f seen probe lo hi 0 0 0] assms(4) by auto
  have "flick_bound mn mx iv 0 0 \<le> 6 * (mx - mn + 1)"
    using dist_to_end_range [OF assms(2,3), of 0] by (simp add: flick_bound_def)
  then show ?thesis using ms by (auto simp: search_ok_def)
qed

lemma auto_flick_bounded_witness:
  "length (snd (snd (z_auto_flick_2 (\<lambda>_ v. abs (v - 77) * 100 + 1) 0 255 200 1000 [] 128 5101 0 0 0))) \<le> 1536"
    (is "length (snd (snd ?search)) \<le> _")
proof -
  have "?search = (fst ?search, fst (snd ?search), snd (snd ?search))" by simp
  from auto_flick_bounded [OF _ _ _ this] show ?thesis by auto
qed

text \<open>
  A search that never gets a reading reports success. When the analyser is out of range or
  fails at every voltage, and the range is at least 120 wide, the search ends after its ten errors
  with the code 0, and the task keeps the voltage 0 with the flicker 0, the best possible, as its
  result.
\<close>

theorem auto_flick_false_success:
  assumes "\<And>h x. ca210 h x = Out_of_range \<or> ca210 h x = Other_error"
    and "120 \<le> mx - mn" and "mn \<le> iv" and "iv \<le> mx" and "lo \<le> 9999" and "hi \<le> 9999"
  shows "box_flick_search ca210 mn mx iv lo hi = (0, 0, 0)"
proof -
  have p: "z_flick_test ca210 h x = INVALID_FLICK_VALUE" for h x
    using assms(1) [of h x] by (auto simp: z_flick_test_def)
  have c: "captured_hundredths (ca210 h x) = INVALID_FLICK_VALUE" for h x
    using assms(1) [of h x] by (auto simp: captured_hundredths_def INVALID_FLICK_VALUE_def)
  let ?seen = "[(iv, INVALID_FLICK_VALUE), (iv, INVALID_FLICK_VALUE)]"
  obtain seen' where "z_auto_flick_2 (z_flick_test ca210) mn mx lo hi ?seen iv INVALID_FLICK_VALUE 0 0 0 = (0, None, seen')"
    using auto_flick_invalid [of "z_flick_test ca210" INVALID_FLICK_VALUE lo hi mn iv mx 0 9 0 0 ?seen] p assms(2-6)
    by (auto simp: INVALID_FLICK_VALUE_def)
  then show ?thesis by (simp add: box_flick_search_def p c Let_def)
qed

lemma auto_flick_false_success_witness: "box_flick_search (\<lambda>_ _. Out_of_range) 0 255 128 200 1000 = (0, 0, 0)"
  using auto_flick_false_success [of "\<lambda>_ _. Out_of_range" 255 0 128 200 1000] by simp

end
