(* ===== verification/OsTimer.thy ===== *)
theory OsTimer
  imports Prelude
begin

text \<open>
  The timers of the operating system layer, \<^verbatim>\<open>pgos/MsOS_timer.c\<close>. The timers form one list, in
  the order of their creation, and every operation runs under one semaphore; a pass of the timer
  task over the list is atomic too. A timer is named by its address. Times are 32-bit counts of
  milliseconds, with the wrap-around of the C type.
\<close>

record timer =
  tm_id :: ptr
  bStartTimer :: bool
  FirstTimeMs :: u32
  PeriodTimeMs :: u32
  pTimerCb :: "ptr option"
  initTimeMs :: u32
  times :: u32

text \<open>\<^verbatim>\<open>clock_gettime\<close> delivers seconds and nanoseconds, or fails.\<close>

definition MsOS_GetSystemTime :: "(int \<times> int) option \<Rightarrow> u32" where
  "MsOS_GetSystemTime ts =
     (case ts of Some (tv_sec, tv_nsec) \<Rightarrow> word_of_int (tv_sec * 1000 + tv_nsec div 1000000) | None \<Rightarrow> 0)"

section \<open>The timer task\<close>

text \<open>One timer of a pass: whether it is due, and the timer afterwards.\<close>

definition timer_step :: "u32 \<Rightarrow> timer \<Rightarrow> bool \<times> timer" where
  "timer_step timeNow t =
     (if bStartTimer t then
        if times t = 0 then
          if initTimeMs t + FirstTimeMs t \<le> timeNow then (True, t\<lparr>times := 1\<rparr>) else (False, t)
        else if PeriodTimeMs t \<noteq> 0 then
          if initTimeMs t + FirstTimeMs t + PeriodTimeMs t * times t \<le> timeNow
          then (True, t\<lparr>times := times t + 1\<rparr>) else (False, t)
        else (False, t)
      else (False, t))"

text \<open>
  A pass reads the clock once for every timer, and calls the callback, where there is one, with
  the address of the timer. The value is the calls and the list after them.
\<close>

fun timer_pass :: "(nat \<Rightarrow> u32) \<Rightarrow> timer list \<Rightarrow> (ptr \<times> ptr) list \<times> timer list" where
  "timer_pass clk [] = ([], [])"
| "timer_pass clk (t # ts) =
     (let (due, t') = timer_step (clk 0) t; (calls, ts') = timer_pass (\<lambda>n. clk (Suc n)) ts in
      ((case pTimerCb t of Some cb \<Rightarrow> if due then [(cb, tm_id t)] else [] | None \<Rightarrow> []) @ calls, t' # ts'))"

text \<open>\<^verbatim>\<open>TimerProcess\<close>: one pass after the other; between them no other operation.\<close>

fun timer_passes :: "(nat \<Rightarrow> u32) list \<Rightarrow> timer list \<Rightarrow> (ptr \<times> ptr) list \<times> timer list" where
  "timer_passes [] ts = ([], ts)"
| "timer_passes (c # cs) ts =
     (let (calls, ts1) = timer_pass c ts; (rest, ts2) = timer_passes cs ts1 in (calls @ rest, ts2))"

section \<open>Operations\<close>

text \<open>
  \<^verbatim>\<open>MsOS_CreateTimer\<close>: \<open>mem\<close> is the address \<^verbatim>\<open>malloc\<close> returned, if it did, and \<open>garbage\<close> what was in
  the memory where the start time is, which stays there when the timer is not started.
\<close>

definition MsOS_CreateTimer ::
  "ptr option \<Rightarrow> u32 \<Rightarrow> u32 \<Rightarrow> ptr option \<Rightarrow> u32 \<Rightarrow> u32 \<Rightarrow> bool \<Rightarrow> timer list \<Rightarrow> ptr \<times> timer list" where
  "MsOS_CreateTimer mem garbage now cb u32FirstTimeMs u32PeriodTimeMs bStart ts =
     (case mem of
        None \<Rightarrow> (0, ts)
      | Some a \<Rightarrow> (a, ts @ [\<lparr>tm_id = a, bStartTimer = bStart, FirstTimeMs = u32FirstTimeMs,
          PeriodTimeMs = u32PeriodTimeMs, pTimerCb = cb,
          initTimeMs = (if bStart then now else garbage), times = 0\<rparr>]))"

fun MsOS_DeleteTimer :: "ptr \<Rightarrow> timer list \<Rightarrow> timer list" where
  "MsOS_DeleteTimer u32TimerId [] = []"
| "MsOS_DeleteTimer u32TimerId (t # ts) =
     (if tm_id t = u32TimerId then ts else t # MsOS_DeleteTimer u32TimerId ts)"

text \<open>The walk to the timer that the other operations share.\<close>

fun at_timer :: "ptr \<Rightarrow> (timer \<Rightarrow> timer) \<Rightarrow> timer list \<Rightarrow> timer list" where
  "at_timer u32TimerId f [] = []"
| "at_timer u32TimerId f (t # ts) =
     (if tm_id t = u32TimerId then f t # ts else t # at_timer u32TimerId f ts)"

definition MsOS_StartTimer :: "u32 \<Rightarrow> ptr \<Rightarrow> timer list \<Rightarrow> timer list" where
  "MsOS_StartTimer now u32TimerId =
     at_timer u32TimerId (\<lambda>t. t\<lparr>bStartTimer := True, initTimeMs := now, times := 0\<rparr>)"

definition MsOS_StopTimer :: "u32 \<Rightarrow> ptr \<Rightarrow> timer list \<Rightarrow> timer list" where
  "MsOS_StopTimer now u32TimerId =
     at_timer u32TimerId (\<lambda>t. t\<lparr>bStartTimer := False, initTimeMs := now, times := 0\<rparr>)"

definition MsOS_ResetTimer :: "u32 \<Rightarrow> ptr \<Rightarrow> u32 \<Rightarrow> u32 \<Rightarrow> bool \<Rightarrow> timer list \<Rightarrow> timer list" where
  "MsOS_ResetTimer now u32TimerId u32FirstTimeMs u32PeriodTimeMs bStart =
     at_timer u32TimerId
       (\<lambda>t. t\<lparr>bStartTimer := bStart, FirstTimeMs := u32FirstTimeMs,
              PeriodTimeMs := u32PeriodTimeMs, initTimeMs := now, times := 0\<rparr>)"

section \<open>A pass, timer by timer\<close>

text \<open>The calls to one timer among the calls of a pass or of many.\<close>

definition calls_to :: "ptr \<Rightarrow> (ptr \<times> ptr) list \<Rightarrow> nat" where
  "calls_to a calls = length (filter (\<lambda>(_, x). x = a) calls)"

lemma calls_to_simps [simp]:
  "calls_to a [] = 0" "calls_to a (xs @ ys) = calls_to a xs + calls_to a ys"
  "calls_to a ((cb, x) # xs) = (if x = a then 1 else 0) + calls_to a xs"
  by (simp_all add: calls_to_def)

lemma timer_step_id [simp]: "tm_id (snd (timer_step now t)) = tm_id t"
  "pTimerCb (snd (timer_step now t)) = pTimerCb t"
  by (simp_all add: timer_step_def)

lemma timer_pass_nth:
  "length (snd (timer_pass clk ts)) = length ts \<and>
   (\<forall>i < length ts. snd (timer_pass clk ts) ! i = snd (timer_step (clk i) (ts ! i)))"
  by (induction clk ts rule: timer_pass.induct)
    (auto simp: Let_def nth_Cons split: prod.splits nat.splits)

lemma timer_pass_ids: "map tm_id (snd (timer_pass clk ts)) = map tm_id ts"
  using timer_pass_nth [of clk ts] by (intro nth_equalityI) auto

lemma calls_to_absent: "a \<notin> tm_id ` set ts \<Longrightarrow> calls_to a (fst (timer_pass clk ts)) = 0"
  by (induction clk ts rule: timer_pass.induct) (auto simp: Let_def split: prod.splits option.splits)

lemma calls_to_pass:
  assumes "distinct (map tm_id ts)" and "i < length ts"
  shows "calls_to (tm_id (ts ! i)) (fst (timer_pass clk ts)) =
    (if fst (timer_step (clk i) (ts ! i)) \<and> pTimerCb (ts ! i) \<noteq> None then 1 else 0)"
  using assms
proof (induction ts arbitrary: clk i)
  case (Cons t ts)
  show ?case
  proof (cases i)
    case 0
    then show ?thesis
      using Cons.prems calls_to_absent [of "tm_id t" ts "\<lambda>n. clk (Suc n)"]
      by (auto simp: Let_def split: prod.splits option.splits)
  next
    case (Suc j)
    then have "tm_id t \<noteq> tm_id (ts ! j)" using Cons.prems by auto
    then show ?thesis
      using Cons.IH [of j "\<lambda>n. clk (Suc n)"] Cons.prems Suc
      by (auto simp: Let_def split: prod.splits option.splits)
  qed
qed simp

lemma timer_step_stopped: "\<not> bStartTimer t \<Longrightarrow> timer_step now t = (False, t)"
  by (simp add: timer_step_def)

section \<open>How often a timer is due\<close>

text \<open>
  The reference: a periodic timer is due first at its start time plus \<^verbatim>\<open>FirstTimeMs\<close>, then once in
  every period; \<open>calls_due t now\<close> counts how often up to \<open>now\<close>.
\<close>

definition first_due :: "timer \<Rightarrow> nat" where
  "first_due t = unat (initTimeMs t) + unat (FirstTimeMs t)"

definition calls_due :: "timer \<Rightarrow> nat \<Rightarrow> nat" where
  "calls_due t now =
     (if now < first_due t then 0 else (now - first_due t) div unat (PeriodTimeMs t) + 1)"

text \<open>A running periodic timer that has been called \<open>k\<close> times, and whose next time is below \<open>2 ^ 32\<close>.\<close>

definition running_timer :: "timer \<Rightarrow> nat \<Rightarrow> bool" where
  "running_timer t k \<longleftrightarrow> bStartTimer t \<and> PeriodTimeMs t \<noteq> 0 \<and> times t = of_nat k \<and>
     first_due t + unat (PeriodTimeMs t) * k < 2 ^ 32"

lemma calls_due_iff:
  assumes "PeriodTimeMs t \<noteq> 0"
  shows "k < calls_due t now \<longleftrightarrow> first_due t + unat (PeriodTimeMs t) * k \<le> now"
proof (cases "now < first_due t")
  case False
  have "0 < unat (PeriodTimeMs t)" using assms by (simp add: unat_gt_0)
  then have "k \<le> (now - first_due t) div unat (PeriodTimeMs t) \<longleftrightarrow> k * unat (PeriodTimeMs t) \<le> now - first_due t"
    by (simp add: less_eq_div_iff_mult_less_eq)
  then show ?thesis using False by (auto simp: calls_due_def less_Suc_eq_le ac_simps)
qed (auto simp: calls_due_def)

lemma unat_due:
  assumes "unat (i :: u32) + unat f + unat p * k < 2 ^ 32" and "p \<noteq> 0"
  shows "unat (i + f + p * of_nat k) = unat i + unat f + unat p * k" and "k < 2 ^ 32"
proof -
  have "0 < unat p" using assms(2) by (simp add: unat_gt_0)
  then have "k \<le> unat p * k" by simp
  then show k: "k < 2 ^ 32" using assms(1) by linarith
  have eq: "i + f + p * of_nat k = of_nat (unat i + unat f + unat p * k)" by simp
  show "unat (i + f + p * of_nat k) = unat i + unat f + unat p * k"
    unfolding eq using assms(1) by (simp only: unat_of_nat) simp
qed

lemma of_nat_u32_0: "k < 2 ^ 32 \<Longrightarrow> (of_nat k :: u32) = 0 \<longleftrightarrow> k = 0"
  using unat_of_nat [of k, where 'a = 32] by (auto dest: arg_cong [of _ _ unat])

lemma timer_step_running:
  assumes "running_timer t k"
  shows "timer_step now t =
    (if k < calls_due t (unat now) then (True, t\<lparr>times := of_nat (k + 1)\<rparr>) else (False, t))"
proof -
  note r = assms [unfolded running_timer_def first_due_def]
  have d: "unat (initTimeMs t + FirstTimeMs t + PeriodTimeMs t * of_nat k) = first_due t + unat (PeriodTimeMs t) * k"
    and k: "k < 2 ^ 32"
    using unat_due [of "initTimeMs t" "FirstTimeMs t" "PeriodTimeMs t" k] r by (auto simp: first_due_def)
  have z: "times t = 0 \<longleftrightarrow> k = 0" using of_nat_u32_0 [OF k] r by simp
  have le: "k < calls_due t (unat now) \<longleftrightarrow> initTimeMs t + FirstTimeMs t + PeriodTimeMs t * times t \<le> now"
    using r d by (simp add: calls_due_iff word_le_nat_alt)
  show ?thesis
    using r z unfolding le by (auto simp: timer_step_def add.commute)
qed

lemma calls_due_times [simp]: "calls_due (t\<lparr>times := n\<rparr>) now = calls_due t now"
  "first_due (t\<lparr>times := n\<rparr>) = first_due t"
  by (simp_all add: calls_due_def first_due_def)

lemma calls_due_mono: "a \<le> b \<Longrightarrow> calls_due t a \<le> calls_due t b"
  by (auto simp: calls_due_def div_le_mono)

lemma calls_due_gap:
  assumes "PeriodTimeMs t \<noteq> 0" and "b \<le> a + unat (PeriodTimeMs t)"
  shows "calls_due t b \<le> calls_due t a + 1"
proof (rule ccontr)
  assume "\<not> ?thesis"
  then have "calls_due t a + 1 < calls_due t b" by simp
  then have "first_due t + unat (PeriodTimeMs t) * (calls_due t a + 1) \<le> b"
    using calls_due_iff [OF assms(1)] by blast
  then have "first_due t + unat (PeriodTimeMs t) * calls_due t a \<le> a" using assms(2) by simp
  then have "calls_due t a < calls_due t a" using calls_due_iff [OF assms(1)] by blast
  then show False by simp
qed

section \<open>One timer over many passes\<close>

fun timer_run :: "u32 list \<Rightarrow> timer \<Rightarrow> nat \<times> timer" where
  "timer_run [] t = (0, t)"
| "timer_run (n # ns) t =
     (let (due, t1) = timer_step n t; (m, t2) = timer_run ns t1 in ((if due then 1 else 0) + m, t2))"

lemma timer_passes_one:
  assumes "distinct (map tm_id ts)" and "i < length ts"
  shows "snd (timer_passes cs ts) ! i = snd (timer_run (map (\<lambda>c. c i) cs) (ts ! i)) \<and>
    calls_to (tm_id (ts ! i)) (fst (timer_passes cs ts)) =
      (if pTimerCb (ts ! i) = None then 0 else fst (timer_run (map (\<lambda>c. c i) cs) (ts ! i)))"
  using assms
proof (induction cs arbitrary: ts)
  case (Cons c cs)
  let ?ts1 = "snd (timer_pass c ts)"
  have l: "length ?ts1 = length ts" and n: "?ts1 ! i = snd (timer_step (c i) (ts ! i))"
    using timer_pass_nth [of c ts] Cons.prems(2) by auto
  have "distinct (map tm_id ?ts1)" using Cons.prems(1) by (simp add: timer_pass_ids)
  from Cons.IH [OF this] l n Cons.prems calls_to_pass [OF Cons.prems, of c]
  show ?case by (auto simp: Let_def split: prod.splits)
qed simp

lemma running_step:
  assumes "running_timer t k" and "unat now + unat (PeriodTimeMs t) < 2 ^ 32"
  shows "running_timer (snd (timer_step now t)) (if k < calls_due t (unat now) then k + 1 else k)"
proof (cases "k < calls_due t (unat now)")
  case True
  have "PeriodTimeMs t \<noteq> 0" using assms(1) by (simp add: running_timer_def)
  then have "first_due t + unat (PeriodTimeMs t) * k \<le> unat now" using True calls_due_iff by blast
  then have "first_due t + unat (PeriodTimeMs t) * (k + 1) < 2 ^ 32" using assms(2) by simp
  then show ?thesis
    using True assms(1) timer_step_running [OF assms(1), of now] by (simp add: running_timer_def add.commute)
qed (use assms(1) timer_step_running [OF assms(1), of now] in auto)

lemma timer_run_bound:
  assumes "running_timer t k" and "unat (last ns) + unat (PeriodTimeMs t) < 2 ^ 32"
    and "sorted (map unat ns)" and "ns \<noteq> []" and "k \<le> calls_due t (unat (hd ns))"
  shows "k + fst (timer_run ns t) \<le> calls_due t (unat (last ns)) \<and>
    (calls_due t (unat (hd ns)) \<le> k + 1 \<and> successively (\<lambda>a b. b \<le> a + unat (PeriodTimeMs t)) (map unat ns) \<longrightarrow>
       k + fst (timer_run ns t) = calls_due t (unat (last ns)))"
  using assms
proof (induction ns arbitrary: t k)
  case (Cons n ns)
  let ?k = "if k < calls_due t (unat n) then k + 1 else k"
  let ?t = "snd (timer_step n t)"
  note st = timer_step_running [OF Cons.prems(1), of n]
  have P: "PeriodTimeMs t \<noteq> 0" using Cons.prems(1) by (simp add: running_timer_def)
  have same: "calls_due ?t = calls_due t" "first_due ?t = first_due t" "PeriodTimeMs ?t = PeriodTimeMs t"
    using st by auto
  have run: "timer_run (n # ns) t = ((if k < calls_due t (unat n) then 1 else 0) + fst (timer_run ns ?t), snd (timer_run ns ?t))"
    using st by (simp add: Let_def split: prod.splits)
  show ?case
  proof (cases ns)
    case Nil
    then show ?thesis using run Cons.prems(5) by auto
  next
    case (Cons m ms)
    have le: "unat n \<le> unat m" using Cons.prems(3) \<open>ns = m # ms\<close> by simp
    have "unat n \<le> unat (last ns)" using Cons.prems(3) \<open>ns = m # ms\<close> last_in_set [of ns] by auto
    then have "unat n + unat (PeriodTimeMs t) < 2 ^ 32" using Cons.prems(2) \<open>ns = m # ms\<close> by simp
    then have r: "running_timer ?t ?k" by (rule running_step [OF Cons.prems(1)])
    have mono: "calls_due t (unat n) \<le> calls_due t (unat m)" using le by (rule calls_due_mono)
    have bnd: "unat (last ns) + unat (PeriodTimeMs ?t) < 2 ^ 32"
      using Cons.prems(2) \<open>ns = m # ms\<close> unfolding same by simp
    have hd: "?k \<le> calls_due ?t (unat (hd ns))" using Cons.prems(5) mono \<open>ns = m # ms\<close> same by auto
    have ih: "?k + fst (timer_run ns ?t) \<le> calls_due t (unat (last ns))"
        "calls_due t (unat (hd ns)) \<le> ?k + 1 \<and> successively (\<lambda>a b. b \<le> a + unat (PeriodTimeMs t)) (map unat ns) \<Longrightarrow>
         ?k + fst (timer_run ns ?t) = calls_due t (unat (last ns))"
      using Cons.IH [OF r bnd _ _ hd] Cons.prems(3) \<open>ns = m # ms\<close> unfolding same by auto
    have "calls_due t (unat m) \<le> calls_due t (unat n) + 1" if "unat m \<le> unat n + unat (PeriodTimeMs t)"
      using calls_due_gap [OF P that] .
    then show ?thesis using ih run \<open>ns = m # ms\<close> Cons.prems(5) by auto
  qed
qed simp

section \<open>When the clock wraps\<close>

text \<open>
  A due time past \<open>2 ^ 32\<close> is compared modulo \<open>2 ^ 32\<close>: while the clock has not wrapped itself, the
  timer is called at every pass.
\<close>

lemma unat_wrapped_due:
  assumes "2 ^ 32 \<le> unat (i :: u32) + unat f + unat p * k" and "unat i + unat f + unat p * k < 2 * 2 ^ 32"
  shows "unat (i + f + p * of_nat k) + 2 ^ 32 = unat i + unat f + unat p * k"
proof -
  have eq: "i + f + p * of_nat k = of_nat (unat i + unat f + unat p * k)" by simp
  have "unat (i + f + p * of_nat k) = (unat i + unat f + unat p * k) mod 2 ^ 32"
    unfolding eq by (simp only: unat_of_nat) simp
  also have "\<dots> = (unat i + unat f + unat p * k - 2 ^ 32) mod 2 ^ 32"
    using assms(1) by (rule le_mod_geq)
  also have "\<dots> = unat i + unat f + unat p * k - 2 ^ 32" using assms(2) by (intro mod_less) simp
  finally show ?thesis using assms(1) by simp
qed

lemma timer_step_wrapped:
  assumes "bStartTimer t" and "PeriodTimeMs t \<noteq> 0" and "times t = of_nat k" and "0 < k" and "k < 2 ^ 32"
    and "2 ^ 32 \<le> first_due t + unat (PeriodTimeMs t) * k" and "first_due t + unat (PeriodTimeMs t) * k < 2 * 2 ^ 32"
  shows "timer_step now t =
    (if first_due t + unat (PeriodTimeMs t) * k \<le> unat now + 2 ^ 32 then (True, t\<lparr>times := of_nat (k + 1)\<rparr>) else (False, t))"
proof -
  have "times t \<noteq> 0" using of_nat_u32_0 [OF assms(5)] assms(3,4) by simp
  moreover have "initTimeMs t + FirstTimeMs t + PeriodTimeMs t * times t \<le> now \<longleftrightarrow>
      first_due t + unat (PeriodTimeMs t) * k \<le> unat now + 2 ^ 32"
    using unat_wrapped_due [of "initTimeMs t" "FirstTimeMs t" "PeriodTimeMs t" k] assms(6,7)
    unfolding word_le_nat_alt first_due_def assms(3) by linarith
  ultimately show ?thesis using assms(1-3) by (simp add: timer_step_def add.commute)
qed

lemma timer_run_wrapped:
  assumes "bStartTimer t" and "PeriodTimeMs t \<noteq> 0" and "times t = of_nat k" and "0 < k" and "k + length ns < 2 ^ 32"
    and "2 ^ 32 \<le> first_due t + unat (PeriodTimeMs t) * k"
    and "first_due t + unat (PeriodTimeMs t) * (k + length ns) < 2 * 2 ^ 32"
    and "\<And>j. j < length ns \<Longrightarrow> first_due t + unat (PeriodTimeMs t) * (k + j) \<le> unat (ns ! j) + 2 ^ 32"
  shows "timer_run ns t = (length ns, t\<lparr>times := of_nat (k + length ns)\<rparr>)"
  using assms
proof (induction ns arbitrary: t k)
  case (Cons n ns)
  have now: "first_due t + unat (PeriodTimeMs t) * k \<le> unat n + 2 ^ 32" using Cons.prems(8) [of 0] by simp
  have "unat (PeriodTimeMs t) * k \<le> unat (PeriodTimeMs t) * (k + length (n # ns))"
    by (rule mult_le_mono2) simp
  then have "first_due t + unat (PeriodTimeMs t) * k < 2 * 2 ^ 32" using Cons.prems(7) by linarith
  then have st: "timer_step n t = (True, t\<lparr>times := of_nat (k + 1)\<rparr>)"
    using timer_step_wrapped [OF Cons.prems(1-4) _ Cons.prems(6)] now Cons.prems(5) by simp
  have "timer_run ns (t\<lparr>times := of_nat (k + 1)\<rparr>) =
      (length ns, t\<lparr>times := of_nat (k + 1)\<rparr>\<lparr>times := of_nat (k + 1 + length ns)\<rparr>)"
  proof (rule Cons.IH)
    show "first_due (t\<lparr>times := of_nat (k + 1)\<rparr>) + unat (PeriodTimeMs (t\<lparr>times := of_nat (k + 1)\<rparr>)) * (k + 1 + j)
        \<le> unat (ns ! j) + 2 ^ 32" if "j < length ns" for j
      using Cons.prems(8) [of "Suc j"] that by simp
  qed (use Cons.prems in \<open>simp_all add: algebra_simps\<close>)
  then show ?case by (simp add: st)
qed simp

section \<open>The operations on the list\<close>

lemma at_timer_update:
  assumes "distinct (map tm_id ts)" and "i < length ts"
  shows "at_timer (tm_id (ts ! i)) f ts = ts[i := f (ts ! i)]"
  using assms
proof (induction ts arbitrary: i)
  case (Cons t ts)
  then show ?case by (cases i) auto
qed simp

lemma timer_run_stopped: "\<not> bStartTimer t \<Longrightarrow> timer_run ns t = (0, t)"
  by (induction ns) (auto simp: timer_step_stopped Let_def)

lemma DeleteTimer_filter:
  "distinct (map tm_id ts) \<Longrightarrow> MsOS_DeleteTimer a ts = filter (\<lambda>t. tm_id t \<noteq> a) ts"
  by (induction ts) (auto intro!: filter_True [symmetric] simp: image_iff)

lemma timer_passes_absent: "a \<notin> tm_id ` set ts \<Longrightarrow> calls_to a (fst (timer_passes cs ts)) = 0"
proof (induction cs arbitrary: ts)
  case (Cons c cs)
  have "tm_id ` set (snd (timer_pass c ts)) = tm_id ` set ts"
    using arg_cong [OF timer_pass_ids [of c ts], of set] by simp
  then show ?case
    using Cons.IH [of "snd (timer_pass c ts)"] calls_to_absent [OF Cons.prems, of c] Cons.prems
    by (auto simp: Let_def split: prod.splits)
qed simp

section \<open>Properties\<close>

text \<open>
  C30: a periodic timer is called as often as it is due. As long as the clock is at least a period
  short of \<open>2 ^ 32\<close> milliseconds, a started timer, first due before that, has never been called more
  often than periods have begun, however often the task passes over the list and whatever the
  other timers; and when the passes come at least once a period, the calls up to any
  pass are exactly the periods begun, so that no call is lost and delays do not add up.
\<close>

theorem timer_called_as_due:
  assumes "distinct (map tm_id ts)" and "i < length ts" and "t = ts ! i"
    and "bStartTimer t" and "times t = 0" and "PeriodTimeMs t \<noteq> 0" and "pTimerCb t \<noteq> None"
    and "first_due t < 2 ^ 32" and "last ns + unat (PeriodTimeMs t) < 2 ^ 32"
    and "ns = map (\<lambda>c. unat (c i)) cs" and "cs \<noteq> []" and "sorted ns"
  shows "calls_to (tm_id t) (fst (timer_passes cs ts)) \<le> calls_due t (last ns) \<and>
    (hd ns < first_due t + unat (PeriodTimeMs t) \<and> successively (\<lambda>a b. b \<le> a + unat (PeriodTimeMs t)) ns \<longrightarrow>
       calls_to (tm_id t) (fst (timer_passes cs ts)) = calls_due t (last ns))"
proof -
  let ?rs = "map (\<lambda>c. c i) cs"
  have ns: "map unat ?rs = ns" "unat (last ?rs) = last ns" "unat (hd ?rs) = hd ns" "?rs \<noteq> []"
    using assms(10,11) by (simp_all add: last_map hd_map comp_def)
  have run: "running_timer t 0" using assms(4-6,8) by (auto simp: running_timer_def)
  have first: "calls_due t (hd ns) \<le> 0 + 1" if "hd ns < first_due t + unat (PeriodTimeMs t)"
    using calls_due_iff [OF assms(6), of 1 "hd ns"] that by simp
  have "calls_to (tm_id t) (fst (timer_passes cs ts)) = fst (timer_run ?rs t)"
    using timer_passes_one [OF assms(1,2), of cs] assms(3,7) by auto
  then show ?thesis
    using timer_run_bound [OF run, of ?rs] ns assms(9,12) first by simp
qed

text \<open>A heartbeat timer of one second beside another one, with a pass every half second.\<close>

definition demo_timers :: "timer list" where
  "demo_timers =
     snd (MsOS_CreateTimer (Some 2) 0 7000 (Some 9) 0 1000 True
       (snd (MsOS_CreateTimer (Some 1) 0 0 (Some 8) 0 1500 False [])))"

lemma timer_called_as_due_witness:
  "calls_to 2 (fst (timer_passes (map (\<lambda>n _. of_nat n) [7000, 7500, 8000, 8500, 9000]) demo_timers)) = 3"
proof -
  define t where "t = demo_timers ! 1"
  have t: "t = \<lparr>tm_id = 2, bStartTimer = True, FirstTimeMs = 0, PeriodTimeMs = 1000, pTimerCb = Some 9,
      initTimeMs = 7000, times = 0\<rparr>"
    by (simp add: t_def demo_timers_def MsOS_CreateTimer_def)
  have "calls_to (tm_id t) (fst (timer_passes (map (\<lambda>n _. of_nat n) [7000, 7500, 8000, 8500, 9000]) demo_timers)) =
      calls_due t 9000"
    using timer_called_as_due [of demo_timers 1 t "[7000, 7500, 8000, 8500, 9000]"
        "map (\<lambda>n _. of_nat n) [7000, 7500, 8000, 8500, 9000]"] t t_def
    by (simp add: demo_timers_def MsOS_CreateTimer_def first_due_def)
  then show ?thesis by (simp add: t calls_due_def first_due_def)
qed

text \<open>
  Before the clock of milliseconds wraps, a periodic timer storms and then falls silent. Once its
  next due time has passed \<open>2 ^ 32\<close> and the clock has not, no call is due, and yet the timer is called
  at every pass, as long as the due time modulo \<open>2 ^ 32\<close> is below the clock; every such call defers
  the next one by a period, and after the clock has wrapped the timer is not called until it has
  caught up with all of them.
\<close>

theorem timer_storm:
  assumes "distinct (map tm_id ts)" and "i < length ts" and "t = ts ! i"
    and "bStartTimer t" and "times t = of_nat k" and "0 < k" and "PeriodTimeMs t \<noteq> 0" and "pTimerCb t \<noteq> None"
    and "k + length cs < 2 ^ 32" and "2 ^ 32 \<le> first_due t + unat (PeriodTimeMs t) * k"
    and "first_due t + unat (PeriodTimeMs t) * (k + length cs) < 2 * 2 ^ 32"
    and "\<And>j. j < length cs \<Longrightarrow> first_due t + unat (PeriodTimeMs t) * (k + j) \<le> unat ((cs ! j) i) + 2 ^ 32"
  shows "(\<forall>now :: u32. calls_due t (unat now) \<le> k) \<and>
    calls_to (tm_id t) (fst (timer_passes cs ts)) = length cs \<and>
    (\<forall>now. unat now + 2 ^ 32 < first_due t + unat (PeriodTimeMs t) * (k + length cs) \<longrightarrow>
       \<not> fst (timer_step now (snd (timer_passes cs ts) ! i)))"
proof -
  let ?rs = "map (\<lambda>c. c i) cs"
  have run: "timer_run ?rs t = (length cs, t\<lparr>times := of_nat (k + length cs)\<rparr>)"
    using timer_run_wrapped [OF assms(4,7,5,6), of ?rs] assms(9-12) by simp
  have "unat now < 2 ^ 32" for now :: u32 by (rule order_less_le_trans [OF unsigned_less]) simp
  then have "calls_due t (unat now) \<le> k" for now :: u32
    using calls_due_iff [OF assms(7), of k "unat now"] assms(10) by (metis leD leI order_le_less_trans)
  moreover have "\<not> fst (timer_step now (t\<lparr>times := of_nat (k + length cs)\<rparr>))"
    if "unat now + 2 ^ 32 < first_due t + unat (PeriodTimeMs t) * (k + length cs)" for now
  proof -
    have "unat (PeriodTimeMs t) * k \<le> unat (PeriodTimeMs t) * (k + length cs)" by simp
    then have "2 ^ 32 \<le> first_due t + unat (PeriodTimeMs t) * (k + length cs)" using assms(10) by linarith
    then show ?thesis
      using timer_step_wrapped [of "t\<lparr>times := of_nat (k + length cs)\<rparr>" "k + length cs" now] assms(4,6,7,9,11) that
      by simp
  qed
  ultimately show ?thesis
    using timer_passes_one [OF assms(1,2), of cs] run assms(3,8) by auto
qed

text \<open>A heartbeat timer that has run since the clock was 0, in its last call before the wrap.\<close>

definition demo_old_timer :: timer where
  "demo_old_timer = \<lparr>tm_id = 2, bStartTimer = True, FirstTimeMs = 0, PeriodTimeMs = 1000, pTimerCb = Some 9,
     initTimeMs = 0, times = of_nat 4294968\<rparr>"

lemma timer_storm_witness:
  "calls_to 2 (fst (timer_passes (map (\<lambda>n _. of_nat n) [4294967001, 4294967002, 4294967003]) [demo_old_timer])) = 3"
proof -
  have "first_due demo_old_timer + unat (PeriodTimeMs demo_old_timer) * (4294968 + j) \<le>
      unat ((map (\<lambda>n _. of_nat n) [4294967001, 4294967002, 4294967003] ! j) (0 :: nat) :: u32) + 2 ^ 32"
    if "j < length (map (\<lambda>n (_ :: nat). (of_nat n :: u32)) [4294967001, 4294967002, 4294967003])" for j
    using that by (auto simp: demo_old_timer_def first_due_def less_Suc_eq numeral_3_eq_3)
  then show ?thesis
    using timer_storm [of "[demo_old_timer]" 0 demo_old_timer 4294968
        "map (\<lambda>n _. of_nat n) [4294967001, 4294967002, 4294967003]"]
    by (simp add: demo_old_timer_def first_due_def)
qed

text \<open>
  A timer that was stopped or deleted is never called, and the others do not notice. With
  distinct addresses, stopping one timer of the list leaves the calls to every other timer, in any
  number of passes, as they would have been; and starting it afterwards restarts its count, so that
  it is due first \<^verbatim>\<open>FirstTimeMs\<close> after that.
\<close>

theorem timer_stop_and_start:
  assumes "distinct (map tm_id ts)" and "i < length ts" and "j < length ts" and "j \<noteq> i"
  shows "calls_to (tm_id (ts ! i)) (fst (timer_passes cs (MsOS_StopTimer now (tm_id (ts ! i)) ts))) = 0 \<and>
    calls_to (tm_id (ts ! i)) (fst (timer_passes cs (MsOS_DeleteTimer (tm_id (ts ! i)) ts))) = 0 \<and>
    calls_to (tm_id (ts ! j)) (fst (timer_passes cs (MsOS_StopTimer now (tm_id (ts ! i)) ts))) =
      calls_to (tm_id (ts ! j)) (fst (timer_passes cs ts)) \<and>
    MsOS_StartTimer later (tm_id (ts ! i)) (MsOS_StopTimer now (tm_id (ts ! i)) ts) =
      ts[i := (ts ! i)\<lparr>bStartTimer := True, initTimeMs := later, times := 0\<rparr>]"
proof -
  let ?ts = "MsOS_StopTimer now (tm_id (ts ! i)) ts"
  let ?t = "(ts ! i)\<lparr>bStartTimer := False, initTimeMs := now, times := 0\<rparr>"
  have st: "?ts = ts[i := ?t]"
    unfolding MsOS_StopTimer_def by (rule at_timer_update [OF assms(1,2)])
  have "map tm_id ?ts = (map tm_id ts)[i := tm_id (ts ! i)]" unfolding st by (simp add: map_update)
  then have ids: "map tm_id ?ts = map tm_id ts" using assms(2) by (metis list_update_id nth_map)
  then have d: "distinct (map tm_id ?ts)" using assms(1) by simp
  have i: "i < length ?ts" and j: "j < length ?ts" using assms(2,3) by (simp_all add: st)
  have ti: "?ts ! i = ?t" and tj: "?ts ! j = ts ! j" using assms(2,4) by (simp_all add: st)
  have "calls_to (tm_id (ts ! i)) (fst (timer_passes cs ?ts)) = 0"
    using timer_passes_one [OF d i, of cs] unfolding ti by (simp add: timer_run_stopped)
  moreover have "calls_to (tm_id (ts ! j)) (fst (timer_passes cs ?ts)) =
      calls_to (tm_id (ts ! j)) (fst (timer_passes cs ts))"
    using timer_passes_one [OF d j, of cs] timer_passes_one [OF assms(1,3), of cs] unfolding tj by simp
  moreover have "calls_to (tm_id (ts ! i)) (fst (timer_passes cs (MsOS_DeleteTimer (tm_id (ts ! i)) ts))) = 0"
    by (rule timer_passes_absent) (auto simp: DeleteTimer_filter [OF assms(1)])
  moreover have "MsOS_StartTimer later (tm_id (?ts ! i)) ?ts =
      ?ts[i := (?ts ! i)\<lparr>bStartTimer := True, initTimeMs := later, times := 0\<rparr>]"
    unfolding MsOS_StartTimer_def by (rule at_timer_update [OF d i])
  ultimately show ?thesis unfolding ti by (simp add: st)
qed

lemma timer_stop_and_start_witness:
  "calls_to 2 (fst (timer_passes [\<lambda>_. 9000] (MsOS_StopTimer 8000 2 demo_timers))) = 0"
  using timer_stop_and_start [of demo_timers 1 0 "[\<lambda>_. 9000]" 8000 0]
  by (simp add: demo_timers_def MsOS_CreateTimer_def)

end
