(* ===== verification/FpgaRegs.thy ===== *)
theory FpgaRegs
  imports Prelude "HOL-Library.Multiset"
begin

text \<open>
  The registers of the pattern generator's FPGA and the operations that set them,
  \<^verbatim>\<open>hw/fpgaDrv/fpgaFunc.c\<close> with the addresses of \<^verbatim>\<open>fpgaRegister.h\<close>. Register \<open>r\<close> is the 32-bit cell at
  byte \<open>4 * r\<close> of the mapped memory; most code moves it through an \<^verbatim>\<open>unsigned short\<close>, so that a write
  clears the upper half. What the hardware drives (ready bits, version, test results) is read from
  the input \<open>hw_in\<close>, by register and count of such reads. Of the bits that \<^verbatim>\<open>fpgaRegister.h\<close> calls
  write-only a read returns whatever the hardware gives, again \<open>hw_in\<close>, by register and count of the
  writes so far; \<open>regs\<close> is what was last written, and every other bit reads as that.
\<close>

record fpga =
  regs :: "nat \<Rightarrow> u32"
  hw_in :: "nat \<Rightarrow> nat \<Rightarrow> u32"
  nreads :: nat
  wr_log :: "(nat \<times> u32) list"

definition set_reg :: "nat \<Rightarrow> u32 \<Rightarrow> fpga \<Rightarrow> fpga" where
  "set_reg r v f = f\<lparr>regs := (regs f)(r := v), wr_log := wr_log f @ [(r, v)]\<rparr>"

definition set_reg16 :: "nat \<Rightarrow> u16 \<Rightarrow> fpga \<Rightarrow> fpga" where
  "set_reg16 r v f = set_reg r (ucast v) f"

text \<open>
  The write-only bits: the colour depth in register 1, and the colours of the logic picture, of the
  cursor's text and of its background.
\<close>

definition write_only :: "nat \<Rightarrow> u16" where
  "write_only r =
     (if r = 1 then 3
      else if r = 0x10 \<or> r = 0x11 \<or> r = 0x1C \<or> r = 0x1D \<or> r = 0x1E \<or> r = 0x1F then 0xFFFF else 0)"

definition reg16 :: "nat \<Rightarrow> fpga \<Rightarrow> u16" where
  "reg16 r f = (ucast (regs f r) AND NOT (write_only r)) OR
     (ucast (hw_in f r (length (wr_log f))) AND write_only r)"

lemma reg16_readable: "write_only r = 0 \<Longrightarrow> reg16 r f = ucast (regs f r)"
  by (simp add: reg16_def)

lemma reg16_simps [simp]:
  "reg16 2 f = ucast (regs f 2)" "reg16 0x13 f = ucast (regs f 0x13)" "reg16 0x3B f = ucast (regs f 0x3B)"
  by (simp_all add: reg16_readable write_only_def)

definition hw_read :: "nat \<Rightarrow> fpga \<Rightarrow> u16 \<times> fpga" where
  "hw_read r f = (ucast (hw_in f r (nreads f)), f\<lparr>nreads := nreads f + 1\<rparr>)"

lemma set_reg_simps [simp]:
  "regs (set_reg r v f) = (regs f)(r := v)" "hw_in (set_reg r v f) = hw_in f"
  "nreads (set_reg r v f) = nreads f" "wr_log (set_reg r v f) = wr_log f @ [(r, v)]"
  by (simp_all add: set_reg_def)

lemma set_reg16_simps [simp]:
  "regs (set_reg16 r v f) = (regs f)(r := ucast v)" "hw_in (set_reg16 r v f) = hw_in f"
  "nreads (set_reg16 r v f) = nreads f" "wr_log (set_reg16 r v f) = wr_log f @ [(r, ucast v)]"
  by (simp_all add: set_reg16_def)

lemma hw_read_simps [simp]:
  "regs (snd (hw_read r f)) = regs f" "hw_in (snd (hw_read r f)) = hw_in f"
  "nreads (snd (hw_read r f)) = nreads f + 1" "wr_log (snd (hw_read r f)) = wr_log f"
  "fst (hw_read r f) = ucast (hw_in f r (nreads f))"
  by (simp_all add: hw_read_def)

section \<open>Access by number\<close>

text \<open>
  The mapping is \<^verbatim>\<open>0x10000\<close> bytes long (\<^verbatim>\<open>fpgaDriver.c\<close>); an access past it is a fault. The status and
  version registers are driven by the hardware.
\<close>

definition reg_mapped :: "nat \<Rightarrow> bool" where
  "reg_mapped r \<longleftrightarrow> 4 * r + 4 \<le> 0x10000"

definition reg_driven :: "nat \<Rightarrow> bool" where
  "reg_driven r \<longleftrightarrow> r = 3 \<or> r = 0xC \<or> r = 0xD \<or> r = 0xE \<or> r = 0x24 \<or> r = 0x25"

definition fpgaRegisterWrite :: "u16 \<Rightarrow> u16 \<Rightarrow> fpga \<Rightarrow> (int \<times> fpga) option" where
  "fpgaRegisterWrite offset value f =
     (if reg_mapped (unat offset) then Some (0, set_reg16 (unat offset) value f) else None)"

definition fpgaRegisterRead :: "u16 \<Rightarrow> fpga \<Rightarrow> (u16 \<times> fpga) option" where
  "fpgaRegisterRead offset f =
     (if \<not> reg_mapped (unat offset) then None
      else if reg_driven (unat offset) then Some (hw_read (unat offset) f)
      else Some (reg16 (unat offset) f, f))"

text \<open>\<^verbatim>\<open>fpgaRegisterBit\<close>: the bits of the mask are cleared, the value is not limited to them.\<close>

fun mask_value :: "nat \<Rightarrow> u8 list \<Rightarrow> u16" where
  "mask_value i [] = 0"
| "mask_value i (m # ms) = (if m = 1 then set_bit i (mask_value (i + 1) ms) else mask_value (i + 1) ms)"

definition fpgaRegisterBit :: "u16 \<Rightarrow> u16 \<Rightarrow> u8 list \<Rightarrow> fpga \<Rightarrow> (int \<times> fpga) option" where
  "fpgaRegisterBit offset value maskb f = do {
     (v, f1) \<leftarrow> fpgaRegisterRead offset f;
     fpgaRegisterWrite offset ((v AND NOT (mask_value 0 maskb)) OR value) f1 }"

section \<open>Settings: one field of one register each\<close>

definition fpgaLinkSet :: "int \<Rightarrow> fpga \<Rightarrow> fpga" where
  "fpgaLinkSet cmd f =
     (let reg = reg16 1 f in
      set_reg16 1
        (if cmd = 1 then unset_bit 3 (unset_bit 2 reg)
         else if cmd = 2 then unset_bit 3 (set_bit 2 reg)
         else if cmd = 4 then set_bit 3 (set_bit 2 reg)
         else unset_bit 3 (set_bit 2 reg)) f)"

definition fpgaBitSet :: "int \<Rightarrow> fpga \<Rightarrow> fpga" where
  "fpgaBitSet cmd f =
     (let reg = reg16 1 f in
      set_reg16 1
        (if cmd = 6 then unset_bit 1 (set_bit 0 reg)
         else if cmd = 8 then set_bit 1 (unset_bit 0 reg)
         else if cmd = 10 then reg OR 3
         else reg OR 3) f)"

definition fpgaSignalModeSet :: "u8 \<times> u8 \<times> u8 \<times> u8 \<Rightarrow> fpga \<Rightarrow> fpga" where
  "fpgaSignalModeSet mode f =
     (case mode of (link0, link1, link2, link3) \<Rightarrow>
        set_reg16 1 (((((reg16 1 f AND 0x00FF)
          OR push_bit 8 (ucast (link0 AND 3))) OR push_bit 10 (ucast (link1 AND 3)))
          OR push_bit 12 (ucast (link2 AND 3))) OR push_bit 14 (ucast (link3 AND 3))) f)"

definition fpgaVesaJedaSwitch :: "u8 \<Rightarrow> fpga \<Rightarrow> fpga" where
  "fpgaVesaJedaSwitch lvdsChange f =
     (let reg16' = reg16 1 f in
      set_reg16 1
        (if lvdsChange = 0 then unset_bit 7 reg16'
         else if lvdsChange = 1 then set_bit 7 reg16'
         else unset_bit 7 reg16') f)"

definition fpgaSignalSyncLevel :: "u8 \<times> u8 \<times> u8 \<Rightarrow> fpga \<Rightarrow> fpga" where
  "fpgaSignalSyncLevel sync f =
     (case sync of (sync_pri_h, sync_pri_v, de) \<Rightarrow>
        (let reg1 = reg16 1 f;
             reg1 = (if sync_pri_h = 0 then unset_bit 5 reg1 else set_bit 5 reg1);
             reg1 = (if sync_pri_v = 0 then unset_bit 6 reg1 else set_bit 6 reg1);
             reg1 = (if de = 0 then unset_bit 4 reg1 else set_bit 4 reg1)
         in set_reg16 1 reg1 f))"

definition fpgaEn3DPin :: "int \<Rightarrow> fpga \<Rightarrow> fpga" where
  "fpgaEn3DPin en f =
     (let reg2 = reg16 2 f in set_reg16 2 (if en = 0 then unset_bit 6 reg2 else set_bit 6 reg2) f)"

definition fpgaOnoffSignal :: "int \<Rightarrow> fpga \<Rightarrow> fpga" where
  "fpgaOnoffSignal state f =
     (let reg2 = reg16 2 f in
      set_reg16 2
        (if state = 0 then unset_bit 15 reg2 else if state = 1 then set_bit 15 reg2 else set_bit 15 reg2) f)"

definition fpgaClockkSet :: "int \<Rightarrow> fpga \<Rightarrow> fpga" where
  "fpgaClockkSet enableClock f =
     (let reg16' = reg16 2 f in
      set_reg16 2 (if enableClock = 1 then set_bit 12 reg16' else unset_bit 12 reg16') f)"

text \<open>
  The code of the colours to remove, by the three requests for red, green and blue. The comments of the
  function call 0 nothing removed and 7 all three removed, the table of \<^verbatim>\<open>fpgaRegister.h\<close> the other
  way round.
\<close>

definition rgb_off_code :: "u8 \<Rightarrow> u8 \<Rightarrow> u8 \<Rightarrow> u16" where
  "rgb_off_code disableR disableG disableB =
     (let tmp = push_bit 2 (disableR AND 1) OR push_bit 1 (disableG AND 1) OR (disableB AND 1) in
      if tmp = 0 then 7 else if tmp = 1 then 4 else if tmp = 2 then 5 else if tmp = 3 then 1
      else if tmp = 4 then 6 else if tmp = 5 then 2 else if tmp = 6 then 3 else 0)"

definition fpgaRgbDisable :: "u8 \<times> u8 \<times> u8 \<Rightarrow> fpga \<Rightarrow> fpga" where
  "fpgaRgbDisable rgb f =
     (case rgb of (disableR, disableG, disableB) \<Rightarrow>
        set_reg16 0x13 ((reg16 0x13 f AND NOT (push_bit 5 7)) OR push_bit 5 (rgb_off_code disableR disableG disableB)) f)"

section \<open>Fields of a register\<close>

text \<open>\<open>put_bits ns v w\<close> is \<open>w\<close> with the bits \<open>ns\<close> taken from \<open>v\<close>.\<close>

definition bits_mask :: "nat list \<Rightarrow> u16" where
  "bits_mask ns = foldr set_bit ns 0"

definition put_bits :: "nat list \<Rightarrow> u16 \<Rightarrow> u16 \<Rightarrow> u16" where
  "put_bits ns v w = (w AND NOT (bits_mask ns)) OR (v AND bits_mask ns)"

lemma bit_bits_mask: "i < 16 \<Longrightarrow> bit (bits_mask ns) i \<longleftrightarrow> i \<in> set ns"
  by (induction ns) (auto simp: bits_mask_def bit_set_bit_iff)

lemma bit_put_bits: "i < 16 \<Longrightarrow> bit (put_bits ns v w) i \<longleftrightarrow> (if i \<in> set ns then bit v i else bit w i)"
  by (auto simp: put_bits_def bit_bits_mask bit_simps)

lemma u16_eqI: "(\<And>i. i < 16 \<Longrightarrow> bit (v :: u16) i \<longleftrightarrow> bit w i) \<Longrightarrow> v = w"
  by (rule bit_word_eqI) simp

lemma ucast_u16_u32 [simp]: "ucast (ucast (w :: u16) :: u32) = w"
  by (rule u16_eqI) (simp add: bit_ucast_iff)

lemma put_bits_last [simp]: "put_bits ns v (put_bits ns u w) = put_bits ns v w"
  by (rule u16_eqI) (simp add: bit_put_bits)

lemma u16_upper: "16 \<le> i \<Longrightarrow> \<not> bit (w :: u16) i"
  using bit_imp_le_length [of w i] by auto

lemma bit_reg16:
  "i < 16 \<Longrightarrow> bit (reg16 r f) i \<longleftrightarrow>
     (if bit (write_only r) i then bit (hw_in f r (length (wr_log f))) i else bit (regs f r) i)"
  by (auto simp: reg16_def bit_simps)

text \<open>An operation that sets one field, by one read and one write of its register.\<close>

locale field_setter =
  fixes setter :: "'a \<Rightarrow> fpga \<Rightarrow> fpga" and r :: nat and ns :: "nat list" and val :: "'a \<Rightarrow> u16"
  assumes setter_eq: "setter x f = set_reg16 r (put_bits ns (val x) (reg16 r f)) f"
begin

lemma other_regs: "r' \<noteq> r \<Longrightarrow> regs (setter x f) r' = regs f r'"
  by (simp add: setter_eq)

lemma field_bits:
  "i < 16 \<Longrightarrow> bit (regs (setter x f) r) i \<longleftrightarrow> (if i \<in> set ns then bit (val x) i else bit (reg16 r f) i)"
  by (simp add: setter_eq bit_put_bits bit_ucast_iff)

lemma upper_half: "16 \<le> i \<Longrightarrow> \<not> bit (regs (setter x f) r) i"
  by (simp add: setter_eq bit_ucast_iff u16_upper)

lemma last_wins:
  "i < 16 \<Longrightarrow> \<not> bit (write_only r) i \<or> i \<in> set ns \<Longrightarrow>
     bit (regs (setter y (setter x f)) r) i \<longleftrightarrow> bit (regs (setter y f) r) i"
  by (auto simp: setter_eq bit_put_bits bit_ucast_iff bit_reg16)

end

definition link_val :: "int \<Rightarrow> u16" where
  "link_val cmd = (if cmd = 1 then 0 else if cmd = 4 then set_bit 3 (set_bit 2 0) else set_bit 2 0)"

definition depth_val :: "int \<Rightarrow> u16" where
  "depth_val cmd = (if cmd = 6 then set_bit 0 0 else if cmd = 8 then set_bit 1 0 else set_bit 1 (set_bit 0 0))"

definition mode_val :: "u8 \<times> u8 \<times> u8 \<times> u8 \<Rightarrow> u16" where
  "mode_val mode = (case mode of (a, b, c, d) \<Rightarrow> push_bit 8 (ucast (a AND 3)) OR push_bit 10 (ucast (b AND 3))
     OR push_bit 12 (ucast (c AND 3)) OR push_bit 14 (ucast (d AND 3)))"

definition sync_val :: "u8 \<times> u8 \<times> u8 \<Rightarrow> u16" where
  "sync_val sync = (case sync of (h, v, de) \<Rightarrow>
     (if h = 0 then 0 else set_bit 5 0) OR (if v = 0 then 0 else set_bit 6 0) OR (if de = 0 then 0 else set_bit 4 0))"

definition flag_val :: "nat \<Rightarrow> bool \<Rightarrow> u16" where
  "flag_val n b = (if b then set_bit n 0 else 0)"

lemma set_reg16_put:
  assumes "\<And>i. i < 16 \<Longrightarrow> bit w i \<longleftrightarrow> (if i \<in> set ns then bit v i else bit (reg16 r f) i)"
  shows "set_reg16 r w f = set_reg16 r (put_bits ns v (reg16 r f)) f"
proof -
  have "w = put_bits ns v (reg16 r f)" by (rule u16_eqI) (simp add: assms bit_put_bits)
  then show ?thesis by simp
qed

lemma bit_3: "bit (3 :: int) i \<longleftrightarrow> i = 0 \<or> i = 1"
proof -
  have eq: "(3 :: int) = mask 2" by (simp add: mask_eq_exp_minus_1)
  show ?thesis unfolding eq bit_mask_iff by auto
qed

lemma bit_FF: "bit (255 :: int) i \<longleftrightarrow> i < 8"
proof -
  have eq: "(255 :: int) = mask 8" by (simp add: mask_eq_exp_minus_1)
  show ?thesis unfolding eq bit_mask_iff by auto
qed

lemma link_setter:
  "fpgaLinkSet x f = set_reg16 1 (put_bits [2, 3] (link_val x) (reg16 1 f)) f"
  unfolding fpgaLinkSet_def Let_def
  by (rule set_reg16_put) (auto simp: link_val_def bit_set_bit_iff bit_unset_bit_iff)

lemma depth_setter:
  "fpgaBitSet x f = set_reg16 1 (put_bits [0, 1] (depth_val x) (reg16 1 f)) f"
  unfolding fpgaBitSet_def Let_def
  by (rule set_reg16_put) (auto simp: depth_val_def bit_set_bit_iff bit_unset_bit_iff bit_or_iff bit_3)

lemma mode_setter:
  "fpgaSignalModeSet x f = set_reg16 1 (put_bits [8..<16] (mode_val x) (reg16 1 f)) f"
proof -
  obtain a b c d where x: "x = (a, b, c, d)" by (cases x)
  show ?thesis
    unfolding fpgaSignalModeSet_def x prod.case
    by (rule set_reg16_put)
      (auto simp: mode_val_def bit_or_iff bit_and_iff bit_push_bit_iff bit_ucast_iff bit_FF bit_3 simp del: upt.simps upt_rec_numeral)
qed

lemma vesa_setter:
  "fpgaVesaJedaSwitch x f = set_reg16 1 (put_bits [7] (flag_val 7 (x = 1)) (reg16 1 f)) f"
  unfolding fpgaVesaJedaSwitch_def Let_def
  by (rule set_reg16_put) (auto simp: flag_val_def bit_set_bit_iff bit_unset_bit_iff)

lemma sync_setter:
  "fpgaSignalSyncLevel x f = set_reg16 1 (put_bits [4, 5, 6] (sync_val x) (reg16 1 f)) f"
proof -
  obtain h v de where x: "x = (h, v, de)" by (cases x)
  show ?thesis
    unfolding fpgaSignalSyncLevel_def x prod.case Let_def
    by (rule set_reg16_put) (auto simp: sync_val_def bit_set_bit_iff bit_unset_bit_iff bit_or_iff)
qed

lemma pin3d_setter:
  "fpgaEn3DPin x f = set_reg16 2 (put_bits [6] (flag_val 6 (x \<noteq> 0)) (reg16 2 f)) f"
  unfolding fpgaEn3DPin_def Let_def
  by (rule set_reg16_put) (auto simp: flag_val_def bit_set_bit_iff bit_unset_bit_iff)

lemma onoff_setter:
  "fpgaOnoffSignal x f = set_reg16 2 (put_bits [15] (flag_val 15 (x \<noteq> 0)) (reg16 2 f)) f"
  unfolding fpgaOnoffSignal_def Let_def
  by (rule set_reg16_put) (auto simp: flag_val_def bit_set_bit_iff bit_unset_bit_iff)

lemma clock_setter:
  "fpgaClockkSet x f = set_reg16 2 (put_bits [12] (flag_val 12 (x = 1)) (reg16 2 f)) f"
  unfolding fpgaClockkSet_def Let_def
  by (rule set_reg16_put) (auto simp: flag_val_def bit_set_bit_iff bit_unset_bit_iff)

interpretation link: field_setter fpgaLinkSet 1 "[2, 3]" link_val
  by unfold_locales (rule link_setter)

interpretation depth: field_setter fpgaBitSet 1 "[0, 1]" depth_val
  by unfold_locales (rule depth_setter)

interpretation mode: field_setter fpgaSignalModeSet 1 "[8..<16]" mode_val
  by unfold_locales (rule mode_setter)

interpretation vesa: field_setter fpgaVesaJedaSwitch 1 "[7]" "\<lambda>x. flag_val 7 (x = 1)"
  by unfold_locales (rule vesa_setter)

interpretation sync: field_setter fpgaSignalSyncLevel 1 "[4, 5, 6]" sync_val
  by unfold_locales (rule sync_setter)

interpretation pin3d: field_setter fpgaEn3DPin 2 "[6]" "\<lambda>x. flag_val 6 (x \<noteq> 0)"
  by unfold_locales (rule pin3d_setter)

interpretation onoff: field_setter fpgaOnoffSignal 2 "[15]" "\<lambda>x. flag_val 15 (x \<noteq> 0)"
  by unfold_locales (rule onoff_setter)

interpretation clock: field_setter fpgaClockkSet 2 "[12]" "\<lambda>x. flag_val 12 (x = 1)"
  by unfold_locales (rule clock_setter)

section \<open>Any sequence of settings\<close>

datatype fpga_setting =
  Link int
| Depth int
| Mode "u8 \<times> u8 \<times> u8 \<times> u8"
| Vesa u8
| Sync "u8 \<times> u8 \<times> u8"
| Pin3D int
| OnOff int
| Clock int
| RgbOff "u8 \<times> u8 \<times> u8"

fun apply_setting :: "fpga_setting \<Rightarrow> fpga \<Rightarrow> fpga" where
  "apply_setting (Link x) = fpgaLinkSet x"
| "apply_setting (Depth x) = fpgaBitSet x"
| "apply_setting (Mode x) = fpgaSignalModeSet x"
| "apply_setting (Vesa x) = fpgaVesaJedaSwitch x"
| "apply_setting (Sync x) = fpgaSignalSyncLevel x"
| "apply_setting (Pin3D x) = fpgaEn3DPin x"
| "apply_setting (OnOff x) = fpgaOnoffSignal x"
| "apply_setting (Clock x) = fpgaClockkSet x"
| "apply_setting (RgbOff x) = fpgaRgbDisable x"

text \<open>The field a setting writes: its register and bits.\<close>

fun setting_field :: "fpga_setting \<Rightarrow> nat \<times> nat list" where
  "setting_field (Link _) = (1, [2, 3])"
| "setting_field (Depth _) = (1, [0, 1])"
| "setting_field (Mode _) = (1, [8..<16])"
| "setting_field (Vesa _) = (1, [7])"
| "setting_field (Sync _) = (1, [4, 5, 6])"
| "setting_field (Pin3D _) = (2, [6])"
| "setting_field (OnOff _) = (2, [15])"
| "setting_field (Clock _) = (2, [12])"
| "setting_field (RgbOff _) = (0x13, [5, 6, 7])"

fun setting_val :: "fpga_setting \<Rightarrow> u16" where
  "setting_val (Link x) = link_val x"
| "setting_val (Depth x) = depth_val x"
| "setting_val (Mode x) = mode_val x"
| "setting_val (Vesa x) = flag_val 7 (x = 1)"
| "setting_val (Sync x) = sync_val x"
| "setting_val (Pin3D x) = flag_val 6 (x \<noteq> 0)"
| "setting_val (OnOff x) = flag_val 15 (x \<noteq> 0)"
| "setting_val (Clock x) = flag_val 12 (x = 1)"
| "setting_val (RgbOff x) = (case x of (r, g, b) \<Rightarrow> push_bit 5 (rgb_off_code r g b))"

lemma bit_7: "bit (7 :: int) i \<longleftrightarrow> i < 3"
proof -
  have eq: "(7 :: int) = mask 3" by (simp add: mask_eq_exp_minus_1)
  show ?thesis unfolding eq bit_mask_iff by auto
qed

lemma bit_not_7: "bit (- 225 :: int) i \<longleftrightarrow> \<not> (5 \<le> i \<and> i - 5 < 3)"
proof -
  have eq: "(- 225 :: int) = NOT (push_bit 5 (mask 3))"
    by (simp add: mask_eq_exp_minus_1 push_bit_eq_mult not_int_def)
  show ?thesis unfolding eq by (auto simp: bit_not_iff bit_push_bit_iff bit_mask_iff)
qed

lemma rgb_off_code_small: "3 \<le> i \<Longrightarrow> \<not> bit (rgb_off_code r g b) i"
proof -
  assume i: "3 \<le> i"
  have "unat (rgb_off_code r g b) < 2 ^ 3" by (simp add: rgb_off_code_def Let_def)
  also have "\<dots> \<le> 2 ^ i" using i by (intro power_increasing) auto
  finally have "\<not> bit (unat (rgb_off_code r g b)) i" by (simp add: bit_iff_odd)
  then show ?thesis by (simp add: bit_unsigned_iff)
qed

lemma rgb_setter:
  "fpgaRgbDisable x f = set_reg16 0x13 (put_bits [5, 6, 7] (setting_val (RgbOff x)) (reg16 0x13 f)) f"
proof -
  obtain r g b where x: "x = (r, g, b)" by (cases x)
  have five: "i = 5 \<or> i = 6 \<or> i = 7 \<longleftrightarrow> 5 \<le> i \<and> i - 5 < 3" for i :: nat by auto
  show ?thesis
    unfolding fpgaRgbDisable_def x prod.case setting_val.simps
    using rgb_off_code_small [of _ r g b]
    by (intro set_reg16_put) (auto simp: bit_or_iff bit_and_iff bit_not_iff bit_push_bit_iff bit_7 bit_not_7 five not_less)
qed

interpretation rgb_off: field_setter fpgaRgbDisable "0x13" "[5, 6, 7]" "\<lambda>x. setting_val (RgbOff x)"
  by unfold_locales (rule rgb_setter)

text \<open>A setting in general, and its effect bit by bit.\<close>

lemma apply_setting_eq:
  "apply_setting s f = set_reg16 (fst (setting_field s))
     (put_bits (snd (setting_field s)) (setting_val s) (reg16 (fst (setting_field s)) f)) f"
  by (cases s)
    (simp_all only: apply_setting.simps setting_field.simps setting_val.simps(1-8) fst_conv snd_conv
       link.setter_eq depth.setter_eq mode.setter_eq vesa.setter_eq sync.setter_eq pin3d.setter_eq
       onoff.setter_eq clock.setter_eq rgb_off.setter_eq)

lemma field_small: "i \<in> set (snd (setting_field s)) \<Longrightarrow> i < 16"
  by (cases s) auto

lemma apply_setting_bit:
  "i < 16 \<Longrightarrow> bit (regs (apply_setting s f) r) i \<longleftrightarrow>
     (if r = fst (setting_field s)
      then (if i \<in> set (snd (setting_field s)) then bit (setting_val s) i else bit (reg16 r f) i)
      else bit (regs f r) i)"
  by (auto simp: apply_setting_eq bit_put_bits bit_ucast_iff)

lemma apply_setting_upper:
  "16 \<le> i \<Longrightarrow> bit (regs (apply_setting s f) r) i \<longleftrightarrow> r \<noteq> fst (setting_field s) \<and> bit (regs f r) i"
  by (auto simp: apply_setting_eq bit_ucast_iff u16_upper)

lemma settings_log [simp]:
  "hw_in (fold apply_setting ss f) = hw_in f"
  "length (wr_log (fold apply_setting ss f)) = length (wr_log f) + length ss"
  by (induction ss arbitrary: f) (simp_all add: apply_setting_eq)

lemma settings_other_reg:
  "\<forall>s \<in> set ss. fst (setting_field s) \<noteq> r \<Longrightarrow> regs (fold apply_setting ss f) r = regs f r"
  by (induction ss arbitrary: f) (simp_all add: apply_setting_eq)

lemma settings_upper:
  "16 \<le> i \<Longrightarrow> bit (regs (fold apply_setting ss f) r) i \<longleftrightarrow>
     r \<notin> fst ` setting_field ` set ss \<and> bit (regs f r) i"
  by (induction ss arbitrary: f) (auto simp: apply_setting_upper)

lemma setting_fields:
  "setting_field s = setting_field s' \<or> fst (setting_field s) \<noteq> fst (setting_field s') \<or>
   set (snd (setting_field s)) \<inter> set (snd (setting_field s')) = {}"
  by (cases s; cases s') auto

text \<open>A request for every field at most once (or the same request again).\<close>

definition one_per_field :: "fpga_setting list \<Rightarrow> bool" where
  "one_per_field ss \<longleftrightarrow> (\<forall>s \<in> set ss. \<forall>s' \<in> set ss. setting_field s = setting_field s' \<longrightarrow> s = s')"

text \<open>Bits a field can keep: the registers of the settings hide only the depth.\<close>

lemma setting_hides:
  "bit (write_only (fst (setting_field s))) i \<longleftrightarrow> fst (setting_field s) = 1 \<and> i < 2"
proof -
  have three: "i < 16 \<and> bit (3 :: int) i \<longleftrightarrow> i < 2" by (auto simp: bit_3)
  show ?thesis using three by (cases s) (simp_all add: write_only_def)
qed

lemma settings_bit:
  assumes "one_per_field ss" and "s \<in> set ss" and "i \<in> set (snd (setting_field s))"
    and "\<not> bit (write_only (fst (setting_field s))) i"
  shows "bit (regs (fold apply_setting ss f) (fst (setting_field s))) i \<longleftrightarrow> bit (setting_val s) i"
  using assms(1,2)
proof (induction ss rule: rev_induct)
  case (snoc x ss)
  note small = field_small [OF assms(3)]
  note step = apply_setting_bit [OF small, of x "fold apply_setting ss f" "fst (setting_field s)"]
  show ?case
  proof (cases "x = s")
    case True
    then show ?thesis using step assms(3) by simp
  next
    case False
    then have "setting_field x \<noteq> setting_field s" using snoc.prems by (auto simp: one_per_field_def)
    then have "\<not> (fst (setting_field s) = fst (setting_field x) \<and> i \<in> set (snd (setting_field x)))"
      using setting_fields [of x s] assms(3) by (auto simp: prod_eq_iff)
    moreover have "one_per_field ss" "s \<in> set ss" using snoc.prems False by (auto simp: one_per_field_def)
    ultimately show ?thesis using step snoc.IH bit_reg16 [OF small] assms(4) by auto
  qed
qed simp

lemma settings_keep:
  assumes "\<And>s. s \<in> set ss \<Longrightarrow> fst (setting_field s) \<noteq> r \<or> i \<notin> set (snd (setting_field s))" and "i < 16"
    and "\<not> (r = 1 \<and> i < 2)"
  shows "bit (regs (fold apply_setting ss f) r) i \<longleftrightarrow> bit (regs f r) i"
  using assms(1)
proof (induction ss rule: rev_induct)
  case (snoc x ss)
  have "bit (regs (apply_setting x (fold apply_setting ss f)) r) i \<longleftrightarrow> bit (regs (fold apply_setting ss f) r) i"
    using snoc.prems [of x] assms(3) setting_hides [of x i] bit_reg16 [OF assms(2)]
    by (auto simp: apply_setting_bit [OF assms(2)])
  then show ?case using snoc by simp
qed simp

section \<open>Colours\<close>

text \<open>
  \<^verbatim>\<open>fpgaShowRgb\<close>: three 10-bit colours, in bits 22 to 31, 12 to 21 and 2 to 11 of the word made of
  the registers \<open>0x10\<close> and \<open>0x11\<close>.
\<close>

definition fpgaShowRgb :: "u16 \<Rightarrow> u16 \<Rightarrow> u16 \<Rightarrow> fpga \<Rightarrow> fpga" where
  "fpgaShowRgb rgb_r rgb_g rgb_b f =
     (let f1 = set_reg16 0x11 (push_bit 2 rgb_r + push_bit 12 rgb_g) f;
          f2 = set_reg16 0x10 (push_bit 6 rgb_b + drop_bit 4 rgb_g) f1
      in set_reg16 2 (set_bit 10 (reg16 2 f2)) f2)"

definition rgb_word :: "fpga \<Rightarrow> u32" where
  "rgb_word f = push_bit 16 (regs f 0x10) OR regs f 0x11"

definition colour_at :: "nat \<Rightarrow> u32 \<Rightarrow> u16" where
  "colour_at n w = ucast (take_bit 10 (drop_bit n w))"

lemma bit_10_small:
  assumes "(c :: u16) < 1024" and "10 \<le> i"
  shows "\<not> bit c i"
proof -
  have "unat c < 2 ^ 10" using assms(1) by (simp add: word_less_nat_alt)
  also have "\<dots> \<le> 2 ^ i" using assms(2) by (intro power_increasing) auto
  finally have "\<not> bit (unat c) i" by (simp add: bit_iff_odd)
  then show ?thesis by (simp add: bit_unsigned_iff)
qed

lemma bit_10_less: "(c :: u16) < 1024 \<Longrightarrow> bit c i \<Longrightarrow> i < 10"
  using bit_10_small [of c i] by (auto simp: not_le [symmetric])

lemma show_rgb_regs:
  assumes "r < 1024" and "g < 1024" and "b < 1024"
  shows "regs (fpgaShowRgb r g b f) 0x11 = ucast (push_bit 2 r OR push_bit 12 g)"
    and "regs (fpgaShowRgb r g b f) 0x10 = ucast (push_bit 6 b OR drop_bit 4 g)"
proof -
  have "push_bit 2 r AND push_bit 12 g = 0"
    by (rule u16_eqI) (use bit_10_small [OF assms(1)] in \<open>auto simp: bit_and_iff bit_push_bit_iff\<close>)
  then have "push_bit 2 r + push_bit 12 g = push_bit 2 r OR push_bit 12 g"
    by (rule disjunctive_add_eq_or)
  then show "regs (fpgaShowRgb r g b f) 0x11 = ucast (push_bit 2 r OR push_bit 12 g)"
    by (simp add: fpgaShowRgb_def Let_def)
  have "push_bit 6 b AND drop_bit 4 g = 0"
    by (rule u16_eqI) (use bit_10_small [OF assms(2)] in \<open>auto simp: bit_and_iff bit_push_bit_iff bit_drop_bit_eq\<close>)
  then have "push_bit 6 b + drop_bit 4 g = push_bit 6 b OR drop_bit 4 g"
    by (rule disjunctive_add_eq_or)
  then show "regs (fpgaShowRgb r g b f) 0x10 = ucast (push_bit 6 b OR drop_bit 4 g)"
    by (simp add: fpgaShowRgb_def Let_def)
qed

section \<open>Properties\<close>

text \<open>
  C26: the order in which a pattern is configured matters for the colour depth only. Take a list of
  settings with at most one request per field. All bits of all registers are the same after any
  permutation of it, but for bits 0 and 1 of register 1, the depth. Every other request is in
  effect at the end, and every bit that no request is about keeps its value, except that the upper
  half of the registers written is cleared. The depth, whose bits cannot be read back, is in effect
  when no other request for register 1 follows it; after any other request for register 1 its place
  holds what the hardware returned for the write-only bits when that request read the register.
\<close>

theorem settings_in_any_order:
  assumes "one_per_field ss" and "mset ss' = mset ss"
  shows "(\<forall>r i. \<not> (r = 1 \<and> i < 2) \<longrightarrow>
       (bit (regs (fold apply_setting ss' f) r) i \<longleftrightarrow> bit (regs (fold apply_setting ss f) r) i)) \<and>
    (\<forall>s \<in> set ss. (\<forall>x. s \<noteq> Depth x) \<longrightarrow> (\<forall>i \<in> set (snd (setting_field s)).
       bit (regs (fold apply_setting ss f) (fst (setting_field s))) i \<longleftrightarrow> bit (setting_val s) i)) \<and>
    (\<forall>r i. (\<forall>s \<in> set ss. fst (setting_field s) = r \<longrightarrow> i \<notin> set (snd (setting_field s))) \<longrightarrow>
       \<not> (r = 1 \<and> i < 2) \<longrightarrow>
       (bit (regs (fold apply_setting ss f) r) i \<longleftrightarrow>
          bit (regs f r) i \<and> (i < 16 \<or> r \<notin> fst ` setting_field ` set ss))) \<and>
    (\<forall>xs x ys. ss = xs @ Depth x # ys \<longrightarrow> (\<forall>s \<in> set ys. fst (setting_field s) \<noteq> 1) \<longrightarrow>
       (\<forall>i < 2. bit (regs (fold apply_setting ss f) 1) i \<longleftrightarrow> bit (depth_val x) i)) \<and>
    (\<forall>xs s ys. ss = xs @ s # ys \<longrightarrow> fst (setting_field s) = 1 \<longrightarrow> (\<forall>x. s \<noteq> Depth x) \<longrightarrow>
       (\<forall>s' \<in> set ys. fst (setting_field s') \<noteq> 1) \<longrightarrow>
       (\<forall>i < 2. bit (regs (fold apply_setting ss f) 1) i \<longleftrightarrow>
          bit (hw_in f 1 (length (wr_log f) + length xs)) i))"
proof (intro conjI)
  have other: "one_per_field ss'" "set ss' = set ss"
    using assms mset_eq_setD [OF assms(2)] by (simp_all add: one_per_field_def)
  have hid: "bit (write_only (fst (setting_field s))) i \<longleftrightarrow> fst (setting_field s) = 1 \<and> i < 2" for s i
    by (rule setting_hides)
  have depth_bits: "i \<in> set (snd (setting_field s)) \<and> fst (setting_field s) = 1 \<and> i < 2 \<longleftrightarrow>
      (\<exists>x. s = Depth x) \<and> i < 2" for s i by (cases s) auto
  have covered: "bit (regs (fold apply_setting xs f) r) i \<longleftrightarrow> bit (setting_val s) i"
    if "one_per_field xs" "s \<in> set xs" "fst (setting_field s) = r" "i \<in> set (snd (setting_field s))"
      "\<not> (r = 1 \<and> i < 2)" for xs s r i
    using settings_bit [OF that(1,2,4)] that(3,5) hid by auto
  have kept: "bit (regs (fold apply_setting xs f) r) i \<longleftrightarrow>
      bit (regs f r) i \<and> (i < 16 \<or> r \<notin> fst ` setting_field ` set xs)"
    if "\<forall>s \<in> set xs. fst (setting_field s) = r \<longrightarrow> i \<notin> set (snd (setting_field s))" "\<not> (r = 1 \<and> i < 2)" for xs r i
    using settings_keep [of xs r i f] settings_upper [of i xs f r] that by (cases "i < 16") auto
  show "\<forall>r i. \<not> (r = 1 \<and> i < 2) \<longrightarrow>
       (bit (regs (fold apply_setting ss' f) r) i \<longleftrightarrow> bit (regs (fold apply_setting ss f) r) i)"
  proof (intro allI impI)
    fix r i assume free: "\<not> (r = (1 :: nat) \<and> i < (2 :: nat))"
    show "bit (regs (fold apply_setting ss' f) r) i \<longleftrightarrow> bit (regs (fold apply_setting ss f) r) i"
    proof (cases "\<exists>s \<in> set ss. fst (setting_field s) = r \<and> i \<in> set (snd (setting_field s))")
      case True
      then show ?thesis using covered [of ss] covered [of ss'] assms(1) other free by blast
    next
      case False
      then show ?thesis using kept [of ss r i] kept [of ss' r i] other(2) free by auto
    qed
  qed
  show "\<forall>s \<in> set ss. (\<forall>x. s \<noteq> Depth x) \<longrightarrow> (\<forall>i \<in> set (snd (setting_field s)).
       bit (regs (fold apply_setting ss f) (fst (setting_field s))) i \<longleftrightarrow> bit (setting_val s) i)"
    using covered [OF assms(1)] depth_bits by blast
  show "\<forall>r i. (\<forall>s \<in> set ss. fst (setting_field s) = r \<longrightarrow> i \<notin> set (snd (setting_field s))) \<longrightarrow>
       \<not> (r = 1 \<and> i < 2) \<longrightarrow>
       (bit (regs (fold apply_setting ss f) r) i \<longleftrightarrow>
          bit (regs f r) i \<and> (i < 16 \<or> r \<notin> fst ` setting_field ` set ss))"
    using kept by blast
  show "\<forall>xs x ys. ss = xs @ Depth x # ys \<longrightarrow> (\<forall>s \<in> set ys. fst (setting_field s) \<noteq> 1) \<longrightarrow>
       (\<forall>i < 2. bit (regs (fold apply_setting ss f) 1) i \<longleftrightarrow> bit (depth_val x) i)"
    by (auto simp: settings_other_reg depth.field_bits [simplified] less_2_cases_iff)
  show "\<forall>xs s ys. ss = xs @ s # ys \<longrightarrow> fst (setting_field s) = 1 \<longrightarrow> (\<forall>x. s \<noteq> Depth x) \<longrightarrow>
       (\<forall>s' \<in> set ys. fst (setting_field s') \<noteq> 1) \<longrightarrow>
       (\<forall>i < 2. bit (regs (fold apply_setting ss f) 1) i \<longleftrightarrow>
          bit (hw_in f 1 (length (wr_log f) + length xs)) i)"
  proof (intro allI impI)
    fix xs s ys and i :: nat
    assume h: "ss = xs @ s # ys" "fst (setting_field s) = 1" "\<forall>x. s \<noteq> Depth x"
      "\<forall>s' \<in> set ys. fst (setting_field s') \<noteq> 1" "i < 2"
    have "i \<notin> set (snd (setting_field s))" using h(2,3,5) depth_bits by blast
    then show "bit (regs (fold apply_setting ss f) 1) i \<longleftrightarrow>
        bit (hw_in f 1 (length (wr_log f) + length xs)) i"
      using h setting_hides [of s i] by (simp add: settings_other_reg apply_setting_bit bit_reg16)
  qed
qed

definition demo_fpga :: fpga where
  "demo_fpga = \<lparr>regs = (\<lambda>_. 0), hw_in = (\<lambda>_ _. 1), nreads = 0, wr_log = []\<rparr>"

text \<open>
  The client posts the depth before the other requests for register 1 (\<^verbatim>\<open>clipg.c\<close>): the depth that
  remains is what the hardware gave back.
\<close>

lemma settings_in_any_order_witness:
  "bit (regs (fold apply_setting [Depth 8, Link 4] demo_fpga) 1) 0 \<and>
   bit (regs (fold apply_setting [Link 4, Depth 8] demo_fpga) 1) 1 \<and>
   bit (regs (fold apply_setting [Link 4, Depth 8] demo_fpga) 1) 3"
proof -
  have one: "one_per_field [Depth 8, Link 4]" "one_per_field [Link 4, Depth 8]"
    by (simp_all add: one_per_field_def)
  note first = settings_in_any_order [OF one(1) refl, of demo_fpga]
  note second = settings_in_any_order [OF one(2) refl, of demo_fpga]
  have "bit (regs (fold apply_setting [Depth 8, Link 4] demo_fpga) 1) 0"
    using first [THEN conjunct2, THEN conjunct2, THEN conjunct2, THEN conjunct2, rule_format,
        of "[Depth 8]" "Link 4" "[]" 0] by (simp add: demo_fpga_def)
  moreover have "bit (regs (fold apply_setting [Link 4, Depth 8] demo_fpga) 1) 1"
    using second [THEN conjunct2, THEN conjunct2, THEN conjunct2, THEN conjunct1, rule_format,
        of "[Link 4]" 8 "[]" 1] by (simp add: depth_val_def bit_set_bit_iff)
  moreover have "bit (regs (fold apply_setting [Link 4, Depth 8] demo_fpga) 1) 3"
    using second [THEN conjunct2, THEN conjunct1, rule_format, of "Link 4" 3]
    by (simp add: link_val_def bit_set_bit_iff)
  ultimately show ?thesis by simp
qed

text \<open>
  The colour registers decode to the colours. For three colours of ten bits the word that the
  two registers form holds blue, green and red in the places the register description gives, and
  bit 10 of the control register is set to show them.
\<close>

theorem show_rgb_roundtrip:
  assumes "r < 1024" and "g < 1024" and "b < 1024"
  shows "colour_at 22 (rgb_word (fpgaShowRgb r g b f)) = b \<and>
    colour_at 12 (rgb_word (fpgaShowRgb r g b f)) = g \<and>
    colour_at 2 (rgb_word (fpgaShowRgb r g b f)) = r \<and>
    bit (reg16 2 (fpgaShowRgb r g b f)) 10"
proof -
  let ?w = "rgb_word (fpgaShowRgb r g b f)"
  have w: "?w = push_bit 16 (ucast (push_bit 6 b OR drop_bit 4 g)) OR ucast (push_bit 2 r OR push_bit 12 g)"
    by (simp add: rgb_word_def show_rgb_regs [OF assms])
  note small = bit_10_small [OF assms(1)] bit_10_small [OF assms(2)] bit_10_small [OF assms(3)]
  note bits = colour_at_def w bit_ucast_iff bit_take_bit_iff bit_drop_bit_eq bit_or_iff bit_push_bit_iff
  have "colour_at 22 ?w = b"
    by (rule u16_eqI) (use small in \<open>auto simp: bits not_less dest: bit_10_less [OF assms(1)] bit_10_less [OF assms(2)] bit_10_less [OF assms(3)]\<close>)
  moreover have "colour_at 2 ?w = r"
    by (rule u16_eqI) (use small in \<open>auto simp: bits not_less dest: bit_10_less [OF assms(1)] bit_10_less [OF assms(2)] bit_10_less [OF assms(3)]\<close>)
  moreover have "colour_at 12 ?w = g"
    by (rule u16_eqI) (use small in \<open>auto simp: bits not_less dest: bit_10_less [OF assms(1)] bit_10_less [OF assms(2)] bit_10_less [OF assms(3)]\<close>)
  moreover have "bit (reg16 2 (fpgaShowRgb r g b f)) 10"
    by (simp add: fpgaShowRgb_def Let_def bit_ucast_iff bit_set_bit_iff)
  ultimately show ?thesis by blast
qed

lemma show_rgb_roundtrip_witness: "colour_at 12 (rgb_word (fpgaShowRgb 1023 512 7 demo_fpga)) = 512"
  using show_rgb_roundtrip [of 1023 512 7 demo_fpga] by simp

end
