(* ===== verification/FpgaDrv.thy ===== *)
theory FpgaDrv
  imports FpgaRegs "HOL-Library.Sublist"
begin

text \<open>
  The rest of \<^verbatim>\<open>hw/fpgaDrv/fpgaFunc.c\<close>: resets, polling loops, pictures, the cursor, logic pictures,
  the LVDS test, the dispatcher \<^verbatim>\<open>fpga_reg_dev_ioctl\<close> and the transfer of picture data. A request
  holds the fields of the C structure its argument points to. Waiting has no effect on the model.
\<close>

section \<open>Reset and start\<close>

definition fpgaRightEnable :: "fpga \<Rightarrow> fpga" where
  "fpgaRightEnable f =
     (let reg = unset_bit 9 (unset_bit 5 (unset_bit 4 (set_bit 15 (reg16 2 f))));
          f1 = set_reg16 2 reg f;
          f2 = snd (hw_read 3 f1)
      in set_reg16 0x1F 0xFFF0 (set_reg16 0x1E 0x31FF (set_reg16 0x1D 0 (set_reg16 0x1C 0
          (set_reg16 7 0 (set_reg16 6 0 (set_reg16 9 0 (set_reg16 8 0 (set_reg16 0xB 0 (set_reg16 0xA 0 f2))))))))))"

definition fpgaReset :: "fpga \<Rightarrow> fpga" where
  "fpgaReset f = (let reg = set_bit 3 (regs f 2); f1 = set_reg 2 reg f in set_reg 2 (unset_bit 3 reg) f1)"

text \<open>
  Two loops wait for a bit of register 3 the same way: read again while it is not set, and give up
  after the read for which no turn is \<open>left\<close>, whatever that read delivered.
\<close>

fun poll_bit :: "nat \<Rightarrow> nat \<Rightarrow> u16 \<Rightarrow> fpga \<Rightarrow> bool \<times> fpga" where
  "poll_bit b left reg f =
     (if bit reg b then (True, f)
      else (let (reg', f1) = hw_read 3 f in
            case left of 0 \<Rightarrow> (False, f1) | Suc l \<Rightarrow> poll_bit b l reg' f1))"

declare poll_bit.simps [simp del]

definition fpgaResetTest :: "int \<Rightarrow> fpga \<Rightarrow> int \<times> fpga" where
  "fpgaResetTest cnt f =
     (let (reg, f1) = hw_read 3 f; (ok, f2) = poll_bit 0 (nat (cnt + 1)) reg f1
      in (if ok then 0 else -5, f2))"

definition fpgaFreqSet :: "u8 \<Rightarrow> u8 \<Rightarrow> u8 \<Rightarrow> fpga \<Rightarrow> int \<times> fpga" where
  "fpgaFreqSet d0 m d1 f =
     (let f1 = set_reg16 0x26 (push_bit 8 (ucast d1) OR ucast m) f;
          f2 = set_reg16 0x27 (ucast d0) f1;
          (reg3, f3) = hw_read 3 f2;
          (ok, f4) = poll_bit 4 0xffff reg3 f3
      in if \<not> ok then (1, f4)
         else (let f5 = set_reg16 2 (set_bit 11 (set_bit 9 (reg16 2 f4))) f4
               in (0, set_reg16 2 (unset_bit 11 (unset_bit 9 (reg16 2 f5))) f5)))"

text \<open>\<^verbatim>\<open>fpgaReg3ResetCheck\<close>: \<open>left\<close> is 301 less \<^verbatim>\<open>flag\<close>.\<close>

fun reg3_loop :: "nat \<Rightarrow> fpga \<Rightarrow> nat \<times> fpga" where
  "reg3_loop left f =
     (let (reg, f1) = hw_read 3 f in
      if bit reg 0 then (301 - left, f1)
      else case left of 0 \<Rightarrow> (302, f1) | Suc l \<Rightarrow> reg3_loop l f1)"

declare reg3_loop.simps [simp del]

definition fpgaReg3ResetCheck :: "fpga \<Rightarrow> int \<times> fpga" where
  "fpgaReg3ResetCheck f = (let (flag, f1) = reg3_loop 301 f in (if flag \<ge> 300 then -1 else 0, f1))"

definition fpgaReg2Reset :: "fpga \<Rightarrow> fpga" where
  "fpgaReg2Reset f = (let reg2 = set_bit 0 (regs f 2); f1 = set_reg 2 reg2 f in set_reg 2 (unset_bit 0 reg2) f1)"

definition fpgaDdrChipSelection :: "u8 \<Rightarrow> fpga \<Rightarrow> fpga" where
  "fpgaDdrChipSelection select f =
     (let reg2 = (if select = 0 then unset_bit 7 (reg16 2 f)
                  else if select = 1 then set_bit 7 (reg16 2 f) else reg16 2 f)
      in set_reg16 2 reg2 (set_reg16 2 reg2 f))"

section \<open>Version\<close>

record fpga_version =
  v_year :: u16
  v_mmdd :: "u8 \<times> u8"
  v_version :: "u8 \<times> u8"
  v_kernelVersion :: "u8 \<times> u8 \<times> u8"

definition bcd2 :: "nat \<Rightarrow> nat \<Rightarrow> u16 \<Rightarrow> u8" where
  "bcd2 hi lo w = ucast ((drop_bit hi w AND 0xf) * 10 + (drop_bit lo w AND 0xf))"

definition fpgaGetVersion :: "fpga \<Rightarrow> fpga_version \<times> fpga" where
  "fpgaGetVersion f =
     (let (y, f1) = hw_read 0xD f; (md, f2) = hw_read 0xE f1; (v, f3) = hw_read 0xC f2 in
      (\<lparr>v_year = (drop_bit 12 y AND 0xf) * 1000 + (drop_bit 8 y AND 0xf) * 100
          + (drop_bit 4 y AND 0xf) * 10 + (drop_bit 0 y AND 0xf) * 1,
        v_mmdd = (bcd2 12 8 md, bcd2 4 0 md), v_version = (bcd2 12 8 v, bcd2 4 0 v),
        v_kernelVersion = (4, 1, 41)\<rparr>, f3))"

section \<open>Pictures\<close>

text \<open>The register that names a picture: its number, and its size in the upper byte.\<close>

definition picture_reg :: "u8 \<Rightarrow> u8 \<Rightarrow> u32" where
  "picture_reg position size' = (ucast position AND 0xff) OR push_bit 8 (ucast size')"

definition fpgaShowPicture :: "u8 \<Rightarrow> u8 \<Rightarrow> fpga \<Rightarrow> fpga" where
  "fpgaShowPicture position size' f =
     (let f1 = set_reg 4 (picture_reg position size') f;
          f2 = set_reg 2 (set_bit 15 (unset_bit 10 (set_bit 5 (regs f1 2)))) f1;
          f3 = set_reg 0x13 (unset_bit 12 (regs f2 0x13 AND NOT (push_bit 5 7))) f2;
          f4 = set_reg 0x3B (unset_bit 1 (regs f3 0x3B)) f3;
          f5 = set_reg 2 (set_bit 11 (regs f4 2)) f4
      in set_reg 2 (unset_bit 11 (regs f5 2)) f5)"

record ddr_info =
  ddrCs :: u8
  hResolution :: u16
  pictureNo :: u8
  pictureSize :: u8
  pictureType :: u8

definition picture_completion :: "u16 \<Rightarrow> u16" where
  "picture_completion h = (let completion = 32 - (h mod 32) in if completion = 32 then 0 else completion)"

definition fpgaPictureDownloadConfig :: "ddr_info \<Rightarrow> fpga \<Rightarrow> int \<times> fpga" where
  "fpgaPictureDownloadConfig d f =
     (let (rc, f0) = fpgaReg3ResetCheck f in
      if rc \<noteq> 0 then (-1, f0)
      else
        (let f1 = (if pictureType d = 1 then set_reg 0x3B (set_bit 12 (regs f0 0x3B)) f0
                   else set_reg 0x3B (set_bit 13 (regs f0 0x3B)) f0)
         in if ddrCs d = 0 then
              (let f2 = set_reg16 0x13 (picture_completion (hResolution d)) f1;
                   f3 = fpgaDdrChipSelection 0 f2;
                   f4 = set_reg 5 (ucast (pictureNo d) OR push_bit 8 (ucast (pictureSize d))) f3
               in (0, fpgaReg2Reset f4))
            else if ddrCs d = 1 then (0, fpgaDdrChipSelection 1 (fpgaReg2Reset f1))
            else (0, f1)))"

section \<open>Cursor, timing, movement, grey scale\<close>

record cross_cursor =
  cc_enable :: u8
  cc_x :: u16
  cc_y :: u16
  wordColor :: u32
  crossCursorColor :: u32
  RGBchang :: u8
  startCoordinate :: u8

definition hi16 :: "u32 \<Rightarrow> u16" where
  "hi16 w = ucast (drop_bit 16 w)"

definition fpgaCrossCursorSet :: "cross_cursor \<Rightarrow> fpga \<Rightarrow> fpga" where
  "fpgaCrossCursorSet c f =
     (let f1 = set_reg16 0xF (cc_x c) (set_reg16 7 (cc_y c) (set_reg16 6 (cc_x c) f));
          f2 = set_reg16 0x1F (ucast (crossCursorColor c)) (set_reg16 0x1E (hi16 (crossCursorColor c)) f1);
          f3 = set_reg16 0x1C (hi16 (wordColor c)) f2;
          f4 = set_reg16 0x1D ((ucast (wordColor c) AND 0xfffc) OR (ucast (RGBchang c) AND 0x03)) f3
      in if cc_enable c \<noteq> 0
         then (let reg = set_bit 4 (set_bit 8 (reg16 2 f4)) in
               set_reg16 2 (if startCoordinate c = 0 then unset_bit 14 reg else set_bit 14 reg) f4)
         else set_reg16 2 (unset_bit 4 (unset_bit 8 (reg16 2 f4))) f4)"

text \<open>The eight timing registers, from \<^verbatim>\<open>HSD_BACK_PORCH\<close> on.\<close>

fun set_regs :: "nat \<Rightarrow> u16 list \<Rightarrow> fpga \<Rightarrow> fpga" where
  "set_regs r [] f = f"
| "set_regs r (t # ts) f = set_regs (r + 1) ts (set_reg16 r t f)"

definition fpgaSeqSet :: "u16 \<times> u16 \<times> u16 \<times> u16 \<times> u16 \<times> u16 \<times> u16 \<times> u16 \<Rightarrow> fpga \<Rightarrow> fpga" where
  "fpgaSeqSet t f = (case t of (T0, T1, T2, T3, T4, T5, T6, T7) \<Rightarrow> set_regs 0x14 [T0, T1, T2, T3, T4, T5, T6, T7] f)"

definition fpgaImageMove :: "u32 \<Rightarrow> u32 \<Rightarrow> fpga \<Rightarrow> fpga" where
  "fpgaImageMove Xmsg Ymsg f =
     (let xdirect = ucast (Xmsg AND 0xFF) :: u8; ydirect = ucast (Ymsg AND 0xFF) :: u8;
          xstep = ucast (drop_bit 16 Xmsg) :: u8; ystep = ucast (drop_bit 16 Ymsg) :: u8;
          regB = (ucast (xdirect AND 7) OR push_bit 3 (ucast (ydirect AND 7))) OR push_bit 6 (ucast xstep);
          reg2B = push_bit 6 (ucast ystep)
      in set_reg16 0x2B reg2B (set_reg16 0xB regB f))"

definition fpgaImageOffset :: "u32 \<Rightarrow> u32 \<Rightarrow> fpga \<Rightarrow> fpga" where
  "fpgaImageOffset Xoffset Yoffset f = set_reg 9 Yoffset (set_reg 8 Xoffset f)"

record rgb_adjust =
  adj_enable :: u8
  isRPlus :: u8
  RPlusVal :: u8
  isGPlus :: u8
  GPlusVal :: u8
  isBPlus :: u8
  BPlusVal :: u8

definition flag_to :: "nat \<Rightarrow> bool \<Rightarrow> u16 \<Rightarrow> u16" where
  "flag_to n b w = (if b then set_bit n w else unset_bit n w)"

definition fpgaGrayScaleAdjust :: "rgb_adjust \<Rightarrow> fpga \<Rightarrow> fpga" where
  "fpgaGrayScaleAdjust a f =
     (let reg13 = flag_to 9 (isBPlus a = 1) (flag_to 10 (isGPlus a = 1) (flag_to 11 (isRPlus a = 1)
            (flag_to 12 (adj_enable a = 1) (reg16 0x13 f))));
          reg21 = (ucast (RPlusVal a) AND 0xFF) OR push_bit 8 (ucast (GPlusVal a) AND 0xFF);
          reg22 = ucast (BPlusVal a) AND 0xFF
      in set_reg16 0x22 reg22 (set_reg16 0x21 reg21 (set_reg16 0x13 reg13 f)))"

section \<open>Logic pictures\<close>

record logic_show =
  validX :: u32
  validY :: u32
  majorType :: u32
  minorType :: u32
  crossX :: "u32 \<times> u32 \<times> u32 \<times> u32"
  crossY :: "u32 \<times> u32 \<times> u32 \<times> u32"
  mgs_position :: u8
  mgs_size :: u8

definition fpgaLogicShowOperate :: "u8 \<Rightarrow> u8 \<Rightarrow> fpga \<Rightarrow> fpga" where
  "fpgaLogicShowOperate position size' f =
     (let f1 = set_reg16 4 (ucast (picture_reg position size')) f
      in set_reg16 2 (set_bit 5 (reg16 2 f1)) f1)"

definition fpgaLogicShow :: "logic_show \<Rightarrow> fpga \<Rightarrow> fpga" where
  "fpgaLogicShow m f =
     (case (crossX m, crossY m) of ((x0, x1, x2, x3), (y0, y1, y2, y3)) \<Rightarrow>
       (let f1 = set_reg16 0x3B (set_bit 1 (reg16 0x3B f)) f;
            f2 = set_reg16 2 (set_bit 15 (reg16 2 f1)) f1;
            f3 = set_reg 0x31 (validY m AND 0x1fff) (set_reg 0x30 (validX m AND 0x1fff) f2);
            f4 = set_reg16 0x32 (ucast (push_bit 3 (majorType m AND 7) OR (minorType m AND 7))) f3;
            f5 = set_reg 0x38 y2 (set_reg 0x37 x2 (set_reg 0x36 y1 (set_reg 0x35 x1 (set_reg 0x34 y0 (set_reg 0x33 x0 f4)))));
            f6 = fpgaLogicShowOperate (mgs_position m) (mgs_size m) (set_reg 0x3a y3 (set_reg 0x39 x3 f5));
            f7 = set_reg16 2 (unset_bit 10 (set_bit 11 (reg16 2 f6))) f6
        in set_reg16 2 (unset_bit 11 (reg16 2 f7)) f7))"

section \<open>LVDS open and short test\<close>

fun lvds_wait :: "nat \<Rightarrow> u16 \<Rightarrow> fpga \<Rightarrow> fpga" where
  "lvds_wait left reg f =
     (if bit reg 0 then
        (case left of 0 \<Rightarrow> f | Suc l \<Rightarrow> (let (reg', f1) = hw_read 3 f in lvds_wait l reg' f1))
      else f)"

declare lvds_wait.simps [simp del]

definition lvds_one :: "fpga \<Rightarrow> u32 \<times> fpga" where
  "lvds_one f =
     (let (reg, f1) = hw_read 3 (set_reg 2 0 (set_reg 2 1 f)); f2 = lvds_wait 0xfff reg f1
      in (hw_in f2 4 (nreads f2), f2\<lparr>nreads := nreads f2 + 1\<rparr>))"

fun lvds_loop :: "nat \<Rightarrow> fpga \<Rightarrow> u32 list \<times> fpga" where
  "lvds_loop 0 f = ([], f)"
| "lvds_loop (Suc n) f = (let (v, f1) = lvds_one f; (vs, f2) = lvds_loop n f1 in (v # vs, f2))"

text \<open>The result array has 32 entries; the loop over \<^verbatim>\<open>link * 6\<close> of them does not look at that.\<close>

definition fpgaLvdsTest :: "u8 \<Rightarrow> u32 list \<Rightarrow> fpga \<Rightarrow> (u32 list \<times> fpga) option" where
  "fpgaLvdsTest link status f =
     (let len = unat link * 6; f1 = set_reg 1 0 (set_reg 1 1 f) in
      if len > 32 then None
      else (let (vs, f2) = lvds_loop len f1 in Some (vs @ drop len status, f2)))"

section \<open>The dispatcher\<close>

datatype fpga_request =
  eSET_FPGA_REG u16 u16
| eREAD_FPGA_REG u16
| eENABLE_READY_FPGA
| eENABLE_RIGHT_FPGA
| eGET_FPGA_VER
| eSET_FPGA_SHOW_MODE u8 u8
| eRESET_FPGA
| eRESET_FPGA_TEST int
| eSET_CROSSCURSOR cross_cursor
| eDOWN_PICTURE ddr_info
| eSET_LINK int
| eSET_SEQ "u16 \<times> u16 \<times> u16 \<times> u16 \<times> u16 \<times> u16 \<times> u16 \<times> u16"
| eSET_BIT int
| eSET_CLOCK
| ePIC_MOV u32 u32
| eSET_SIGNAL_MODE "u8 \<times> u8 \<times> u8 \<times> u8"
| eSET_FPGA_FREQ u8 u8 u8
| eSET_FPGA_RGB u16 u16 u16
| eSET_VESA_JEDA u8
| eTEST_LVDS u8 "u32 list"
| eFPGA_CLOCK_ENABLE int
| eIMAGE_OFFSET u32 u32
| eDISABLE_RGB "u8 \<times> u8 \<times> u8"
| eGRAY_SCALE_ADJUST rgb_adjust
| eSIGNAL_SYNC_LEVEL "u8 \<times> u8 \<times> u8"
| eFPGA_3D_PIN int
| eFPGA_SHOW_LOGIC logic_show
| eFPGA_ONOFF_SIGNAL int
| eSET_FPGA_REG_BIT u16 u16 "u8 list"
| Other_command

text \<open>What a request stores in its argument.\<close>

datatype fpga_answer = Nothing | Reg_value u16 | Version fpga_version | Lvds "u32 list"

abbreviation served :: "fpga \<Rightarrow> (int \<times> fpga_answer \<times> fpga) option" where
  "served f \<equiv> Some (0, Nothing, f)"

fun fpga_reg_dev_ioctl :: "fpga_request \<Rightarrow> fpga \<Rightarrow> (int \<times> fpga_answer \<times> fpga) option" where
  "fpga_reg_dev_ioctl (eSET_FPGA_REG offset value) f =
     map_option (\<lambda>(rc, f'). (rc, Nothing, f')) (fpgaRegisterWrite offset value f)"
| "fpga_reg_dev_ioctl (eREAD_FPGA_REG offset) f =
     map_option (\<lambda>(v, f'). (uint v, Reg_value v, f')) (fpgaRegisterRead offset f)"
| "fpga_reg_dev_ioctl eENABLE_READY_FPGA f = served f"
| "fpga_reg_dev_ioctl eENABLE_RIGHT_FPGA f = served (fpgaRightEnable f)"
| "fpga_reg_dev_ioctl eGET_FPGA_VER f = (case fpgaGetVersion f of (v, f') \<Rightarrow> Some (0, Version v, f'))"
| "fpga_reg_dev_ioctl (eSET_FPGA_SHOW_MODE position size') f = served (fpgaShowPicture position size' f)"
| "fpga_reg_dev_ioctl eRESET_FPGA f = served (fpgaReset f)"
| "fpga_reg_dev_ioctl (eRESET_FPGA_TEST cnt) f = (case fpgaResetTest cnt f of (rc, f') \<Rightarrow> Some (rc, Nothing, f'))"
| "fpga_reg_dev_ioctl (eSET_CROSSCURSOR c) f = served (fpgaCrossCursorSet c f)"
| "fpga_reg_dev_ioctl (eDOWN_PICTURE d) f = (case fpgaPictureDownloadConfig d f of (rc, f') \<Rightarrow> Some (rc, Nothing, f'))"
| "fpga_reg_dev_ioctl (eSET_LINK cmd) f = served (fpgaLinkSet cmd f)"
| "fpga_reg_dev_ioctl (eSET_SEQ t) f = served (fpgaSeqSet t f)"
| "fpga_reg_dev_ioctl (eSET_BIT cmd) f = served (fpgaBitSet cmd f)"
| "fpga_reg_dev_ioctl eSET_CLOCK f = Some (-1, Nothing, f)"
| "fpga_reg_dev_ioctl (ePIC_MOV x y) f = served (fpgaImageMove x y f)"
| "fpga_reg_dev_ioctl (eSET_SIGNAL_MODE mode) f = served (fpgaSignalModeSet mode f)"
| "fpga_reg_dev_ioctl (eSET_FPGA_FREQ d0 m d1) f = (case fpgaFreqSet d0 m d1 f of (rc, f') \<Rightarrow> Some (rc, Nothing, f'))"
| "fpga_reg_dev_ioctl (eSET_FPGA_RGB r g b) f = served (fpgaShowRgb r g b f)"
| "fpga_reg_dev_ioctl (eSET_VESA_JEDA x) f = served (fpgaVesaJedaSwitch x f)"
| "fpga_reg_dev_ioctl (eTEST_LVDS link status) f =
     map_option (\<lambda>(st, f'). (0, Lvds st, f')) (fpgaLvdsTest link status f)"
| "fpga_reg_dev_ioctl (eFPGA_CLOCK_ENABLE x) f = served (fpgaClockkSet x f)"
| "fpga_reg_dev_ioctl (eIMAGE_OFFSET x y) f = served (fpgaImageOffset x y f)"
| "fpga_reg_dev_ioctl (eDISABLE_RGB x) f = served (fpgaRgbDisable x f)"
| "fpga_reg_dev_ioctl (eGRAY_SCALE_ADJUST a) f = served (fpgaGrayScaleAdjust a f)"
| "fpga_reg_dev_ioctl (eSIGNAL_SYNC_LEVEL s) f = served (fpgaSignalSyncLevel s f)"
| "fpga_reg_dev_ioctl (eFPGA_3D_PIN x) f = served (fpgaEn3DPin x f)"
| "fpga_reg_dev_ioctl (eFPGA_SHOW_LOGIC m) f = served (fpgaLogicShow m f)"
| "fpga_reg_dev_ioctl (eFPGA_ONOFF_SIGNAL x) f = served (fpgaOnoffSignal x f)"
| "fpga_reg_dev_ioctl (eSET_FPGA_REG_BIT offset value ms) f =
     map_option (\<lambda>(rc, f'). (rc, Nothing, f')) (fpgaRegisterBit offset value ms f)"
| "fpga_reg_dev_ioctl Other_command f = Some (-1, Nothing, f)"

fun fpga_serve :: "fpga_request list \<Rightarrow> fpga \<Rightarrow> fpga option" where
  "fpga_serve [] f = Some f"
| "fpga_serve (r # rs) f = (case fpga_reg_dev_ioctl r f of None \<Rightarrow> None | Some (_, _, f') \<Rightarrow> fpga_serve rs f')"

text \<open>The two accesses by number that other files use.\<close>

definition fpga_write :: "u16 \<Rightarrow> u16 \<Rightarrow> fpga \<Rightarrow> fpga option" where
  "fpga_write reg val f = map_option (\<lambda>(_, _, f'). f') (fpga_reg_dev_ioctl (eSET_FPGA_REG reg val) f)"

definition fpga_read :: "u16 \<Rightarrow> fpga \<Rightarrow> (u16 \<times> fpga) option" where
  "fpga_read reg f = map_option (\<lambda>(rc, _, f'). (word_of_int rc, f')) (fpga_reg_dev_ioctl (eREAD_FPGA_REG reg) f)"

section \<open>Transfer of picture data\<close>

text \<open>
  \<^verbatim>\<open>fpga_trans_pic_data\<close>: \<open>rs\<close> are the results that \<^verbatim>\<open>write\<close> gives in turn, a count of bytes it took
  or a negative error; \<open>None\<close> means that they run out before the loop ends. The value is whether
  the loop ended without error, the bytes taken, and the results left. A chunk is 320 KiB.
\<close>

fun write_chunk :: "u8 list \<Rightarrow> int list \<Rightarrow> (bool \<times> u8 list \<times> int list) option" where
  "write_chunk [] rs = Some (True, [], rs)"
| "write_chunk (b # bs) [] = None"
| "write_chunk (b # bs) (n # rs) =
     (if n < 0 then Some (False, [], rs)
      else map_option (\<lambda>(ok, taken, rs'). (ok, take (nat n) (b # bs) @ taken, rs'))
             (write_chunk (drop (nat n) (b # bs)) rs))"

definition maxWrite :: nat where "maxWrite = 320 * 1024"

function write_picture :: "u8 list \<Rightarrow> int list \<Rightarrow> (bool \<times> u8 list \<times> int list) option" where
  "write_picture buf rs =
     (if buf = [] then Some (True, [], rs)
      else (case write_chunk (take maxWrite buf) rs of
              None \<Rightarrow> None
            | Some (False, taken, rs') \<Rightarrow> Some (False, taken, rs')
            | Some (True, taken, rs') \<Rightarrow>
                map_option (\<lambda>(ok, taken', rs''). (ok, taken @ taken', rs'')) (write_picture (drop maxWrite buf) rs')))"
  by pat_completeness auto
termination by (relation "measure (\<lambda>(buf, _). length buf)") (auto simp: maxWrite_def)

declare write_picture.simps [simp del]

text \<open>After the picture, one write of 64 zero bytes, whose result is not looked at.\<close>

definition fpga_trans_pic_data :: "u8 list \<Rightarrow> int list \<Rightarrow> (int \<times> u8 list) option" where
  "fpga_trans_pic_data pRgbBuffer rs =
     (case write_picture pRgbBuffer rs of
        None \<Rightarrow> None
      | Some (False, taken, _) \<Rightarrow> Some (-2, taken)
      | Some (True, taken, []) \<Rightarrow> None
      | Some (True, taken, n # _) \<Rightarrow> Some (0, taken @ take (nat n) (replicate 64 0)))"

section \<open>Polling leaves the registers alone\<close>

lemma hw_read_eq: "hw_read r f = (ucast (hw_in f r (nreads f)), f\<lparr>nreads := nreads f + 1\<rparr>)"
  by (simp add: hw_read_def)

lemma poll_bit_regs: "regs (snd (poll_bit b left reg f)) = regs f"
proof (induction b left reg f rule: poll_bit.induct)
  case (1 b left reg f)
  then show ?case
    by (subst poll_bit.simps) (auto simp: hw_read_eq split: nat.split)
qed

lemma lvds_wait_regs: "regs (lvds_wait left reg f) = regs f"
proof (induction left reg f rule: lvds_wait.induct)
  case (1 left reg f)
  then show ?case
    by (subst lvds_wait.simps) (auto simp: hw_read_eq split: nat.split)
qed

lemma lvds_one_regs: "regs (snd (lvds_one f)) = (regs f)(2 := 0)"
  by (simp add: lvds_one_def hw_read_eq lvds_wait_regs Let_def)

lemma lvds_loop_regs: "r \<noteq> 2 \<Longrightarrow> regs (snd (lvds_loop n f)) r = regs f r"
  by (induction n arbitrary: f) (simp_all add: lvds_one_regs split_beta Let_def)

lemma length_lvds_loop: "length (fst (lvds_loop n f)) = n"
  by (induction n arbitrary: f) (simp_all add: split_beta Let_def)

text \<open>The loop of the reset check ends with a flag below 300 when one of the polls before finds the bit.\<close>

lemma reg3_loop_law:
  assumes "left \<le> 301"
  shows "regs (snd (reg3_loop left f)) = regs f \<and> hw_in (snd (reg3_loop left f)) = hw_in f \<and>
    nreads (snd (reg3_loop left f)) \<le> nreads f + left + 1 \<and>
    (fst (reg3_loop left f) < 300 \<longleftrightarrow> (\<exists>k. k + (301 - left) < 300 \<and> bit (hw_in f 3 (nreads f + k)) 0))"
  using assms
proof (induction left arbitrary: f)
  case 0
  have "reg3_loop 0 f = (if bit (hw_in f 3 (nreads f)) 0 then 301 else 302, f\<lparr>nreads := nreads f + 1\<rparr>)"
    by (subst reg3_loop.simps) (simp add: hw_read_eq bit_ucast_iff)
  then show ?case by simp
next
  case (Suc left)
  let ?f1 = "f\<lparr>nreads := nreads f + 1\<rparr>"
  have unf: "reg3_loop (Suc left) f =
      (if bit (hw_in f 3 (nreads f)) 0 then (301 - Suc left, ?f1) else reg3_loop left ?f1)"
    by (subst reg3_loop.simps) (simp add: hw_read_eq bit_ucast_iff)
  show ?case
  proof (cases "bit (hw_in f 3 (nreads f)) 0")
    case True
    then show ?thesis unfolding unf by (auto intro: exI [of _ 0])
  next
    case False
    have "(\<exists>k. k + (301 - left) < 300 \<and> bit (hw_in f 3 (nreads f + 1 + k)) 0) \<longleftrightarrow>
        (\<exists>k. k + (301 - Suc left) < 300 \<and> bit (hw_in f 3 (nreads f + k)) 0)" (is "?L \<longleftrightarrow> ?R")
    proof
      assume ?L
      then obtain k where "k + (301 - left) < 300" "bit (hw_in f 3 (nreads f + 1 + k)) 0" by blast
      then show ?R using Suc.prems by (intro exI [of _ "Suc k"]) (simp add: Suc_diff_le)
    next
      assume ?R
      then obtain k where k: "k + (301 - Suc left) < 300" "bit (hw_in f 3 (nreads f + k)) 0" by blast
      then obtain j where "k = Suc j" using False by (cases k) auto
      then show ?L using k Suc.prems by (intro exI [of _ j]) (simp add: Suc_diff_le)
    qed
    then show ?thesis using Suc.IH [of ?f1] Suc.prems False unfolding unf by simp
  qed
qed

lemma fpgaReg3ResetCheck_law:
  "regs (snd (fpgaReg3ResetCheck f)) = regs f \<and> nreads (snd (fpgaReg3ResetCheck f)) \<le> nreads f + 302 \<and>
   fst (fpgaReg3ResetCheck f) = (if \<exists>k < 300. bit (hw_in f 3 (nreads f + k)) 0 then 0 else -1)"
  using reg3_loop_law [of 301 f] by (auto simp: fpgaReg3ResetCheck_def split_beta Let_def)

section \<open>Requests that do not write a register by number\<close>

fun by_number :: "fpga_request \<Rightarrow> bool" where
  "by_number (eSET_FPGA_REG _ _) = True"
| "by_number (eSET_FPGA_REG_BIT _ _ _) = True"
| "by_number _ = False"

text \<open>No operation clears bit 12 of register \<open>0x3B\<close>.\<close>

lemma set_regs_other: "r' < r \<or> r + length ts \<le> r' \<Longrightarrow> regs (set_regs r ts f) r' = regs f r'"
  by (induction r ts f rule: set_regs.induct) auto

lemma bit_16_32: "bit (ucast (w :: u16) :: u32) 12 \<longleftrightarrow> bit w 12"
  by (simp add: bit_ucast_iff)

lemma download_law:
  assumes "fpgaPictureDownloadConfig d f = (rc, f1)"
  shows "rc = 0 \<or> rc = -1 \<and> regs f1 = regs f"
    and "bit (regs f 0x3B) 12 \<longrightarrow> bit (regs f1 0x3B) 12"
    and "rc = 0 \<longrightarrow> pictureType d = 1 \<longrightarrow> bit (regs f1 0x3B) 12"
    and "rc = 0 \<longrightarrow> pictureType d \<noteq> 1 \<longrightarrow> bit (regs f1 0x3B) 13"
  using assms fpgaReg3ResetCheck_law [of f]
  by (auto simp: fpgaPictureDownloadConfig_def fpgaReg2Reset_def fpgaDdrChipSelection_def split_beta Let_def
      bit_set_bit_iff split: if_splits)

lemma request_keeps_jpg:
  assumes "fpga_reg_dev_ioctl r f = Some (rc, a, f')" and "\<not> by_number r" and "bit (regs f 0x3B) 12"
  shows "bit (regs f' 0x3B) 12"
proof (cases r)
  case (eDOWN_PICTURE d)
  then show ?thesis using assms download_law(2) [of d f] by (auto split: prod.splits)
next
  case (eSET_FPGA_FREQ d0 m d1)
  then show ?thesis using assms
    by (auto simp: fpgaFreqSet_def split_beta Let_def poll_bit_regs split: if_splits)
qed (use assms in \<open>auto simp: fpgaRegisterRead_def fpgaRightEnable_def fpgaShowPicture_def fpgaReset_def
      fpgaGetVersion_def fpgaResetTest_def fpgaCrossCursorSet_def fpgaLinkSet_def fpgaSeqSet_def set_regs_other
      fpgaBitSet_def fpgaImageMove_def fpgaSignalModeSet_def fpgaShowRgb_def fpgaVesaJedaSwitch_def
      fpgaLvdsTest_def lvds_loop_regs fpgaClockkSet_def fpgaImageOffset_def fpgaRgbDisable_def
      fpgaGrayScaleAdjust_def fpgaSignalSyncLevel_def fpgaEn3DPin_def fpgaLogicShow_def
      fpgaLogicShowOperate_def fpgaOnoffSignal_def poll_bit_regs hw_read_eq split_beta Let_def
      bit_16_32 bit_ucast_iff bit_set_bit_iff bit_unset_bit_iff split: if_splits\<close>)

lemma serve_keeps_jpg:
  assumes "fpga_serve rs f = Some f'" and "\<And>r. r \<in> set rs \<Longrightarrow> \<not> by_number r" and "bit (regs f 0x3B) 12"
  shows "bit (regs f' 0x3B) 12"
  using assms
proof (induction rs f rule: fpga_serve.induct)
  case (2 r rs f)
  then obtain rc a f1 where st: "fpga_reg_dev_ioctl r f = Some (rc, a, f1)"
    by (auto split: option.splits)
  then show ?case using 2 request_keeps_jpg [OF st] by auto
qed simp

section \<open>Writing a picture\<close>

text \<open>
  How a loop of writes ended: the results \<open>us\<close> of the writes before the last one looked at, none an
  error, cover what was taken; a loop that succeeded has taken everything, one that failed stopped
  at the first error, short of the end.
\<close>

definition written :: "u8 list \<Rightarrow> int list \<Rightarrow> bool \<Rightarrow> u8 list \<Rightarrow> int list \<Rightarrow> bool" where
  "written bs rs ok taken rs' \<longleftrightarrow> (\<exists>us. (\<forall>u \<in> set us. 0 \<le> u) \<and> int (length taken) \<le> sum_list us \<and>
     (if ok then rs = us @ rs' \<and> taken = bs
      else \<exists>n. n < 0 \<and> rs = us @ n # rs' \<and> strict_prefix taken bs))"

lemma written_append:
  assumes "rs = us @ rs1" and "\<forall>u \<in> set us. 0 \<le> u" and "int (length t1) \<le> sum_list us"
    and "written bs rs1 ok taken rs'"
  shows "written (t1 @ bs) rs ok (t1 @ taken) rs'"
proof -
  obtain vs where v: "\<forall>u \<in> set vs. 0 \<le> u" "int (length taken) \<le> sum_list vs"
      "if ok then rs1 = vs @ rs' \<and> taken = bs else \<exists>n. n < 0 \<and> rs1 = vs @ n # rs' \<and> strict_prefix taken bs"
    using assms(4) by (auto simp: written_def)
  show ?thesis
    unfolding written_def using assms(1-3) v
    by (intro exI [of _ "us @ vs"]) (auto simp: strict_prefix_def split: if_splits)
qed

lemma write_chunk_law: "write_chunk bs rs = Some (ok, taken, rs') \<Longrightarrow> written bs rs ok taken rs'"
proof (induction bs rs arbitrary: ok taken rs' rule: write_chunk.induct)
  case (1 rs)
  then show ?case by (auto simp: written_def intro!: exI [of _ "[]"])
next
  case (3 b bs n rs)
  show ?case
  proof (cases "n < 0")
    case True
    then show ?thesis using 3 by (auto simp: written_def intro!: exI [of _ "[]"])
  next
    case False
    then obtain taken' where rec: "write_chunk (drop (nat n) (b # bs)) rs = Some (ok, taken', rs')"
        and taken: "taken = take (nat n) (b # bs) @ taken'"
      using 3 by auto
    have "written (take (nat n) (b # bs) @ drop (nat n) (b # bs)) (n # rs) ok taken rs'"
      unfolding taken by (rule written_append [of _ "[n]" rs, OF _ _ _ 3(1) [OF False rec]]) (use False in auto)
    then show ?thesis by (simp only: append_take_drop_id)
  qed
qed simp

lemma written_results: "written bs rs ok taken rs' \<Longrightarrow> set rs' \<subseteq> set rs"
  by (auto simp: written_def split: if_splits)

text \<open>When every write takes at least a byte, as many results as bytes are enough.\<close>

lemma write_chunk_enough:
  assumes "\<forall>n \<in> set rs. 0 < n" and "length bs \<le> length rs"
  shows "\<exists>rs'. write_chunk bs rs = Some (True, bs, rs') \<and> length rs \<le> length rs' + length bs"
  using assms
proof (induction bs rs rule: write_chunk.induct)
  case (3 b bs n rs)
  have n: "0 < n" using 3(2) by simp
  let ?rest = "drop (nat n) (b # bs)"
  have "length ?rest \<le> length rs" using 3(3) n by simp
  then obtain rs' where "write_chunk ?rest rs = Some (True, ?rest, rs')" "length rs \<le> length rs' + length ?rest"
    using 3 n by fastforce
  then show ?case using n by (auto intro!: exI [of _ rs'])
qed auto

lemma write_picture_law: "write_picture buf rs = Some (ok, taken, rs') \<Longrightarrow> written buf rs ok taken rs'"
proof (induction buf rs arbitrary: ok taken rs' rule: write_picture.induct)
  case (1 buf rs)
  show ?case
  proof (cases "buf = []")
    case True
    then show ?thesis using 1(2) by (auto simp: write_picture.simps [of "[]"] written_def intro!: exI [of _ "[]"])
  next
    case False
    then obtain ok1 t1 rs1 where c: "write_chunk (take maxWrite buf) rs = Some (ok1, t1, rs1)"
      using 1(2) by (auto simp: write_picture.simps [of buf] split: option.splits)
    note law = write_chunk_law [OF c]
    show ?thesis
    proof (cases ok1)
      case True
      then obtain t2 where rec: "write_picture (drop maxWrite buf) rs1 = Some (ok, t2, rs')"
          and taken: "taken = t1 @ t2"
        using 1(2) False c by (auto simp: write_picture.simps [of buf] split: option.splits)
      obtain us where us: "\<forall>u \<in> set us. 0 \<le> u" "int (length t1) \<le> sum_list us" "rs = us @ rs1"
          "t1 = take maxWrite buf"
        using law True by (auto simp: written_def)
      have "written (drop maxWrite buf) rs1 ok t2 rs'" using 1(1) False c True rec by blast
      then have "written (t1 @ drop maxWrite buf) rs ok taken rs'"
        unfolding taken by (rule written_append [OF us(3,1,2)])
      then show ?thesis by (simp add: us(4))
    next
      case f: False
      then have "ok = False" "taken = t1" "rs' = rs1"
        using 1(2) False c by (auto simp: write_picture.simps [of buf])
      then show ?thesis using law f prefix_order.less_le_trans [OF _ take_is_prefix] by (auto simp: written_def)
    qed
  qed
qed

lemma write_picture_enough:
  assumes "\<forall>n \<in> set rs. 0 < n" and "length buf \<le> length rs"
  shows "\<exists>rs'. write_picture buf rs = Some (True, buf, rs') \<and> length rs \<le> length rs' + length buf"
  using assms
proof (induction buf arbitrary: rs rule: length_induct)
  case (1 buf)
  show ?case
  proof (cases "buf = []")
    case False
    obtain rs1 where c: "write_chunk (take maxWrite buf) rs = Some (True, take maxWrite buf, rs1)"
        "length rs \<le> length rs1 + length (take maxWrite buf)"
    proof -
      have "length (take maxWrite buf) \<le> length rs" using 1(3) by (rule order.trans [rotated]) simp
      then show ?thesis using write_chunk_enough [OF 1(2)] that by blast
    qed
    have "length (drop maxWrite buf) < length buf" using False by (simp add: maxWrite_def)
    moreover have "\<forall>n \<in> set rs1. 0 < n" using written_results [OF write_chunk_law [OF c(1)]] 1(2) by auto
    moreover have "length (drop maxWrite buf) \<le> length rs1" using c(2) 1(3) by simp
    ultimately obtain rs2 where "write_picture (drop maxWrite buf) rs1 = Some (True, drop maxWrite buf, rs2)"
        "length rs1 \<le> length rs2 + length (drop maxWrite buf)"
      using 1(1) by blast
    then show ?thesis
      using c False by (intro exI [of _ rs2]) (simp add: write_picture.simps [of buf])
  qed (simp add: write_picture.simps [of "[]"])
qed

text \<open>How a transfer ends.\<close>

lemma transfer_ends:
  assumes "fpga_trans_pic_data pic rs = Some (rc, taken)"
  shows "\<exists>us n vs. rs = us @ n # vs \<and> (\<forall>u \<in> set us. 0 \<le> u) \<and>
          (rc = 0 \<and> int (length pic) \<le> sum_list us \<and> taken = pic @ take (nat n) (replicate 64 0) \<or>
           rc = -2 \<and> n < 0 \<and> int (length taken) \<le> sum_list us \<and> strict_prefix taken pic)"
proof -
  obtain ok t rs' where w: "write_picture pic rs = Some (ok, t, rs')"
    using assms by (auto simp: fpga_trans_pic_data_def split: option.splits)
  obtain us where us: "\<forall>u \<in> set us. 0 \<le> u" "int (length t) \<le> sum_list us"
      "if ok then rs = us @ rs' \<and> t = pic else \<exists>n. n < 0 \<and> rs = us @ n # rs' \<and> strict_prefix t pic"
    using write_picture_law [OF w] by (auto simp: written_def)
  show ?thesis
  proof (cases ok)
    case True
    then obtain n vs where "rs' = n # vs" "rc = 0" "taken = pic @ take (nat n) (replicate 64 0)"
      using assms w us(3) by (auto simp: fpga_trans_pic_data_def split: list.splits)
    then show ?thesis using True us by (intro exI [of _ us] exI [of _ n] exI [of _ vs]) simp
  next
    case False
    then obtain n where "n < 0" "rs = us @ n # rs'" "strict_prefix t pic" using us(3) by auto
    moreover have "rc = -2" "taken = t" using assms w False by (simp_all add: fpga_trans_pic_data_def)
    ultimately show ?thesis using us(1,2) by (intro exI [of _ us] exI [of _ n] exI [of _ rs']) simp
  qed
qed

section \<open>The picture registers\<close>

lemma picture_reg_eq: "picture_reg p s = ucast p OR push_bit 8 (ucast s)"
  unfolding picture_reg_def
  by (rule bit_word_eqI) (auto simp: bit_or_iff bit_and_iff bit_ucast_iff bit_push_bit_iff bit_FF
      dest: bit_imp_le_length)

lemma picture_reg_parts: "ucast (picture_reg p s) = p" "ucast (drop_bit 8 (picture_reg p s)) = s"
  unfolding picture_reg_eq
  by (rule bit_word_eqI, auto simp: bit_or_iff bit_ucast_iff bit_push_bit_iff bit_drop_bit_eq dest: bit_imp_le_length)+

lemma show_register: "regs (fpgaShowPicture p s f) 4 = picture_reg p s"
  by (simp add: fpgaShowPicture_def Let_def picture_reg_eq)

lemma download_register:
  "fpgaPictureDownloadConfig d f = (0, f1) \<Longrightarrow> ddrCs d = 0 \<Longrightarrow> regs f1 5 = picture_reg (pictureNo d) (pictureSize d)"
  unfolding picture_reg_eq
  by (auto simp: fpgaPictureDownloadConfig_def fpgaReg2Reset_def fpgaDdrChipSelection_def split_beta Let_def
      split: if_splits)

lemma completion_value: "unat (picture_completion h) = (32 - unat h mod 32) mod 32"
proof -
  have m: "unat (h mod 32) = unat h mod 32" by (simp add: unat_mod)
  then have "unat (32 - h mod 32) = 32 - unat h mod 32"
    by (subst unat_sub) (simp_all add: word_le_nat_alt)
  moreover have "32 - h mod 32 = 32 \<longleftrightarrow> unat h mod 32 = 0"
  proof -
    have "32 - x = 32 \<longleftrightarrow> unat x = 0" for x :: u16 by (simp add: unat_eq_zero)
    then show ?thesis by (simp only: m)
  qed
  ultimately have "unat (picture_completion h) = (if unat h mod 32 = 0 then 0 else 32 - unat h mod 32)"
    unfolding picture_completion_def Let_def by auto
  also have "\<dots> = (32 - unat h mod 32) mod 32" by simp
  finally show ?thesis .
qed

lemma completion_bits: "bit (picture_completion h) i \<Longrightarrow> i < 5"
proof (rule ccontr)
  assume b: "bit (picture_completion h) i" and i: "\<not> i < 5"
  have "unat (picture_completion h) < 2 ^ 5" by (simp add: completion_value)
  also have "\<dots> \<le> 2 ^ i" using i by (intro power_increasing) auto
  finally have "\<not> bit (unat (picture_completion h)) i" by (simp add: bit_iff_odd)
  then show False using b by (simp add: bit_unsigned_iff)
qed

lemma completion_pads: "32 dvd unat h + unat (picture_completion h)"
proof -
  have "(unat h + (32 - unat h mod 32) mod 32) mod 32 = (unat h mod 32 + (32 - unat h mod 32)) mod 32"
    by (metis mod_add_left_eq mod_add_right_eq)
  moreover have "unat h mod 32 < 32" by simp
  ultimately have "(unat h + (32 - unat h mod 32) mod 32) mod 32 = 0" by simp
  then show ?thesis unfolding completion_value by (simp add: mod_eq_0_iff_dvd)
qed

lemma completion_shown:
  "unset_bit 12 ((ucast (picture_completion h) :: u32) AND NOT (push_bit 5 7)) = ucast (picture_completion h)"
  by (rule bit_word_eqI)
    (auto simp: bit_unset_bit_iff bit_and_iff bit_ucast_iff bit_not_7 dest: completion_bits)

section \<open>Properties\<close>

text \<open>
  What a request can do wrong. A request of the driver's interface is undefined in exactly two
  cases: it names a register outside the mapped memory, or it is an LVDS test over six or more
  links, whose results overrun the array of 32. Every other request returns, whatever the hardware
  answers, after a bounded number of polls.
\<close>

theorem ioctl_defined:
  "fpga_reg_dev_ioctl r f = None \<longleftrightarrow>
     (case r of
        eSET_FPGA_REG offset _ \<Rightarrow> \<not> reg_mapped (unat offset)
      | eREAD_FPGA_REG offset \<Rightarrow> \<not> reg_mapped (unat offset)
      | eSET_FPGA_REG_BIT offset _ _ \<Rightarrow> \<not> reg_mapped (unat offset)
      | eTEST_LVDS link _ \<Rightarrow> 6 \<le> unat link
      | _ \<Rightarrow> False)"
proof (cases r)
  case (eTEST_LVDS link status)
  have "32 < unat link * 6 \<longleftrightarrow> 6 \<le> unat link" by auto
  then show ?thesis using eTEST_LVDS by (simp add: fpgaLvdsTest_def split_beta Let_def)
qed (auto simp: fpgaRegisterWrite_def fpgaRegisterRead_def fpgaRegisterBit_def split_beta Let_def
    split: prod.splits)

text \<open>
  C27: showing a picture selects what the download stored. After a download to the
  picture memory, showing the same number and size makes the display register equal to the download
  register, which decodes to that number and size; the picture is on, the colour and logic modes
  and the grey-scale adjustment off, the colour-removal field is 0, and the line padding the
  download computed, which completes the horizontal resolution to a multiple of 32, is still in its
  register. What 0 in the colour-removal field shows depends on which comment is right: to
  \<^verbatim>\<open>fpgaFunc.c\<close>, which clears the field to show a picture, it removes nothing, to the table of
  \<^verbatim>\<open>fpgaRegister.h\<close> it removes all three colours. The download itself is refused exactly when none of
  300 polls finds the memory ready.
\<close>

theorem show_after_download:
  assumes "fpgaPictureDownloadConfig d f = (rc, f1)" and "ddrCs d = 0"
    and "f2 = fpgaShowPicture (pictureNo d) (pictureSize d) f1"
  shows "(rc = 0 \<longleftrightarrow> (\<exists>k < 300. bit (hw_in f 3 (nreads f + k)) 0)) \<and>
    (rc = 0 \<longrightarrow> regs f2 4 = regs f2 5 \<and> ucast (regs f2 4) = pictureNo d \<and>
       ucast (drop_bit 8 (regs f2 4)) = pictureSize d \<and>
       bit (regs f2 2) 5 \<and> bit (regs f2 2) 15 \<and> \<not> bit (regs f2 2) 10 \<and> \<not> bit (regs f2 2) 11 \<and>
       \<not> bit (regs f2 0x3B) 1 \<and> (\<forall>i \<in> {5, 6, 7, 12}. \<not> bit (regs f2 0x13) i) \<and>
       regs f2 0x13 = ucast (picture_completion (hResolution d)) \<and>
       unat (regs f2 0x13) < 32 \<and> 32 dvd unat (hResolution d) + unat (regs f2 0x13))"
proof -
  let ?c = "picture_completion (hResolution d)"
  have rc: "rc = 0 \<longleftrightarrow> (\<exists>k < 300. bit (hw_in f 3 (nreads f + k)) 0)"
    using assms(1,2) fpgaReg3ResetCheck_law [of f]
    by (auto simp: fpgaPictureDownloadConfig_def split_beta Let_def split: if_splits)
  have regs1: "regs f1 0x13 = ucast ?c" "regs f1 5 = picture_reg (pictureNo d) (pictureSize d)" if "rc = 0"
    using assms(1,2) that unfolding picture_reg_eq
    by (auto simp: fpgaPictureDownloadConfig_def fpgaReg2Reset_def fpgaDdrChipSelection_def split_beta Let_def
        split: if_splits)
  have f2: "regs f2 4 = picture_reg (pictureNo d) (pictureSize d)" "regs f2 5 = regs f1 5"
    "regs f2 0x13 = unset_bit 12 (regs f1 0x13 AND NOT (push_bit 5 7))"
    "bit (regs f2 2) 5" "bit (regs f2 2) 15" "\<not> bit (regs f2 2) 10" "\<not> bit (regs f2 2) 11" "\<not> bit (regs f2 0x3B) 1"
    unfolding assms(3) fpgaShowPicture_def Let_def
    by (simp_all add: bit_set_bit_iff bit_unset_bit_iff)
  have c: "unset_bit 12 ((ucast ?c :: u32) AND NOT (push_bit 5 7)) = ucast ?c" by (rule completion_shown)
  have "\<not> bit (ucast ?c :: u32) i" if "i \<in> {5, 6, 7, 12}" for i
    using completion_bits [of "hResolution d" i] that by (auto simp: bit_ucast_iff)
  moreover have small: "unat ?c < 32" by (simp add: completion_value)
  moreover have "unat (ucast ?c :: u32) = unat ?c"
    using small by (simp add: unsigned_ucast_eq take_bit_nat_eq_self_iff)
  moreover have "regs f2 0x13 = ucast ?c" if "rc = 0"
    unfolding f2(3) regs1(1) [OF that] by (rule c)
  ultimately show ?thesis
    using rc f2(1,2,4-) regs1(2) picture_reg_parts [of "pictureNo d" "pictureSize d"]
      completion_pads [of "hResolution d"] by simp
qed

definition demo_download :: ddr_info where
  "demo_download = \<lparr>ddrCs = 0, hResolution = 1366, pictureNo = 3, pictureSize = 2, pictureType = 0\<rparr>"

lemma show_after_download_witness:
  "regs (fpgaShowPicture 3 2 (snd (fpgaPictureDownloadConfig demo_download demo_fpga))) 4 =
   regs (fpgaShowPicture 3 2 (snd (fpgaPictureDownloadConfig demo_download demo_fpga))) 5"
proof -
  have ready: "\<exists>k < 300. bit (hw_in demo_fpga 3 (nreads demo_fpga + k)) 0"
    by (rule exI [of _ 0]) (simp add: demo_fpga_def)
  show ?thesis
    using ready show_after_download [of demo_download demo_fpga
      "fst (fpgaPictureDownloadConfig demo_download demo_fpga)"
      "snd (fpgaPictureDownloadConfig demo_download demo_fpga)"
      "fpgaShowPicture 3 2 (snd (fpgaPictureDownloadConfig demo_download demo_fpga))"]
    by (simp add: demo_download_def)
qed

text \<open>
  The mode for compressed pictures is never left. Once a compressed picture was downloaded,
  bit 12 of the mode register stays set through any requests other than writing a register by its
  number, and a plain picture downloaded after them is taken with both mode bits set.
\<close>

theorem jpg_mode_sticks:
  assumes "fpgaPictureDownloadConfig d f = (0, f1)" and "pictureType d = 1"
    and "fpga_serve rs f1 = Some f2" and "\<And>r. r \<in> set rs \<Longrightarrow> \<not> by_number r"
    and "fpgaPictureDownloadConfig d' f2 = (0, f3)" and "pictureType d' \<noteq> 1"
  shows "bit (regs f3 0x3B) 12 \<and> bit (regs f3 0x3B) 13"
proof -
  have "bit (regs f1 0x3B) 12" using download_law(3) [OF assms(1)] assms(2) by simp
  then have "bit (regs f2 0x3B) 12" using serve_keeps_jpg [OF assms(3)] assms(4) by blast
  then show ?thesis using download_law(2,4) [OF assms(5)] assms(6) by simp
qed

lemma jpg_mode_sticks_witness:
  "bit (regs (snd (fpgaPictureDownloadConfig demo_download
     (fpgaShowPicture 3 2 (snd (fpgaPictureDownloadConfig (demo_download\<lparr>pictureType := 1\<rparr>) demo_fpga))))) 0x3B) 12"
proof -
  let ?f1 = "snd (fpgaPictureDownloadConfig (demo_download\<lparr>pictureType := 1\<rparr>) demo_fpga)"
  let ?f2 = "fpgaShowPicture 3 2 ?f1"
  have first: "reg3_loop 301 g = (0, g\<lparr>nreads := nreads g + 1\<rparr>)" if "hw_in g = (\<lambda>_ _. 1)" for g
    by (subst reg3_loop.simps) (simp add: hw_read_eq that)
  have "fst (fpgaPictureDownloadConfig d g) = 0" if "hw_in g = (\<lambda>_ _. 1)" for d g
    using first [OF that] by (simp add: fpgaPictureDownloadConfig_def fpgaReg3ResetCheck_def split_beta Let_def)
  moreover have "hw_in ?f2 = (\<lambda>_ _. 1)"
    using first [of demo_fpga]
    by (simp add: fpgaShowPicture_def fpgaPictureDownloadConfig_def fpgaReg3ResetCheck_def demo_fpga_def
        fpgaReg2Reset_def fpgaDdrChipSelection_def split_beta Let_def)
  ultimately have "fpgaPictureDownloadConfig (demo_download\<lparr>pictureType := 1\<rparr>) demo_fpga = (0, ?f1)"
      "fpgaPictureDownloadConfig demo_download ?f2 = (0, snd (fpgaPictureDownloadConfig demo_download ?f2))"
    by (simp_all add: prod_eq_iff demo_fpga_def)
  then show ?thesis
    using jpg_mode_sticks [of "demo_download\<lparr>pictureType := 1\<rparr>" demo_fpga ?f1 "[eSET_FPGA_SHOW_MODE 3 2]" ?f2 demo_download]
    by (simp add: demo_download_def)
qed

text \<open>
  C28: the picture data arrive complete and in order. However the device splits its writes, the
  transfer ends in one of two ways. It answers 0 when no write of the picture failed: the results of
  those writes cover the picture, the device has taken the whole of it in order, and then the zero
  bytes that one more write, whose result is not looked at, says it took, none if it failed. It
  answers -2 at the first write of the picture that failed, when the device has taken a proper prefix of
  the picture, and writes nothing more. With a device that takes at least a byte of every write, the
  transfer succeeds within as many writes as the picture has bytes, and one more.
\<close>

theorem transfer_complete:
  shows "(\<forall>rc taken. fpga_trans_pic_data pic rs = Some (rc, taken) \<longrightarrow>
       (\<exists>us n vs. rs = us @ n # vs \<and> (\<forall>u \<in> set us. 0 \<le> u) \<and>
          (rc = 0 \<and> int (length pic) \<le> sum_list us \<and> taken = pic @ take (nat n) (replicate 64 0) \<or>
           rc = -2 \<and> n < 0 \<and> int (length taken) \<le> sum_list us \<and> strict_prefix taken pic))) \<and>
    ((\<forall>n \<in> set rs. 0 < n) \<and> length pic < length rs \<longrightarrow>
       (\<exists>k. fpga_trans_pic_data pic rs = Some (0, pic @ replicate k 0)))"
proof (intro conjI allI impI)
  fix rc taken
  assume "fpga_trans_pic_data pic rs = Some (rc, taken)"
  then show "\<exists>us n vs. rs = us @ n # vs \<and> (\<forall>u \<in> set us. 0 \<le> u) \<and>
          (rc = 0 \<and> int (length pic) \<le> sum_list us \<and> taken = pic @ take (nat n) (replicate 64 0) \<or>
           rc = -2 \<and> n < 0 \<and> int (length taken) \<le> sum_list us \<and> strict_prefix taken pic)"
    by (rule transfer_ends)
next
  assume "(\<forall>n \<in> set rs. 0 < n) \<and> length pic < length rs"
  then obtain rs' where w: "write_picture pic rs = Some (True, pic, rs')" and "rs' \<noteq> []"
    using write_picture_enough [of rs pic] by fastforce
  then show "\<exists>k. fpga_trans_pic_data pic rs = Some (0, pic @ replicate k 0)"
    by (cases rs') (auto simp: fpga_trans_pic_data_def)
qed

lemma transfer_complete_witness: "\<exists>k. fpga_trans_pic_data [1, 2, 3] [2, 7, 64, 9] = Some (0, [1, 2, 3] @ replicate k 0)"
  using transfer_complete [of "[1, 2, 3]" "[2, 7, 64, 9]"] by auto

end
