(* ===== verification/Bitmap.thy ===== *)
theory Bitmap
  imports Prelude
begin

text \<open>
  The conversion of a picture file to the format the FPGA takes, \<^verbatim>\<open>parseBmp\<close> of \<^verbatim>\<open>util/bitmap.c\<close>: the
  headers, the palette of pictures below 16 bits a pixel, and the loops that copy the pixels into a
  buffer of four bytes each, after 64 bytes of description. The file is its bytes; a read past its
  end leaves the rest of a cleared buffer as it was. \<open>None\<close> is a read or write outside a buffer, an
  overflow of \<^verbatim>\<open>int\<close>, a negative allocation, or a header that was not read.
\<close>

record bmp_info =
  biWidth :: int
  biHeight :: int
  biBitCount :: nat

definition file_word :: "u8 list \<Rightarrow> nat \<Rightarrow> nat" where
  "file_word b off = unat (b ! off) + 256 * unat (b ! (off + 1))"

definition file_int :: "u8 list \<Rightarrow> nat \<Rightarrow> int" where
  "file_int b off =
     (let n = int (file_word b off) + 65536 * int (file_word b (off + 2)) in
      if n \<ge> 2 ^ 31 then n - 2 ^ 32 else n)"

definition fits_int :: "int \<Rightarrow> bool" where
  "fits_int n \<longleftrightarrow> - (2 ^ 31) \<le> n \<and> n < 2 ^ 31"

text \<open>The division of C, which rounds towards zero.\<close>

definition c_div :: "int \<Rightarrow> int \<Rightarrow> int" where
  "c_div a n = (if 0 \<le> a then a div n else - ((- a) div n))"

definition WIDTHBYTES :: "int \<Rightarrow> int" where
  "WIDTHBYTES bits = c_div (bits + 31) 32 * 4"

text \<open>\<^verbatim>\<open>fread\<close> into a cleared buffer of \<open>n\<close> bytes.\<close>

definition fread_cleared :: "nat \<Rightarrow> u8 list \<Rightarrow> u8 list" where
  "fread_cleared n rest = take n rest @ replicate (n - length rest) 0"

lemma length_fread_cleared [simp]: "length (fread_cleared n rest) = n"
  by (simp add: fread_cleared_def)

section \<open>The loops over the pixels\<close>

type_synonym pixel = "u8 \<times> u8 \<times> u8"

definition put_pixel :: "nat \<Rightarrow> pixel \<Rightarrow> u8 list \<Rightarrow> u8 list option" where
  "put_pixel index p buf =
     (case p of (c0, c1, c2) \<Rightarrow>
        if index * 4 + 2 < length buf
        then Some (buf[index * 4 := c0, index * 4 + 1 := c1, index * 4 + 2 := c2]) else None)"

definition color_at :: "u8 list \<Rightarrow> nat \<Rightarrow> u8 option" where
  "color_at pColorData k = (if k < length pColorData then Some (pColorData ! k) else None)"

definition palette_at :: "u8 list \<Rightarrow> nat \<Rightarrow> nat \<Rightarrow> u8 option" where
  "palette_at pRgb mixIndex c = (if mixIndex * 4 + c < length pRgb then Some (pRgb ! (mixIndex * 4 + c)) else None)"

text \<open>One row: \<open>n\<close> pixels from column \<open>j\<close> on; then the rows, with \<open>pad\<close> pixels left out after each.\<close>

fun row_loop :: "(nat \<Rightarrow> nat \<Rightarrow> pixel option) \<Rightarrow> nat \<Rightarrow> nat \<Rightarrow> nat \<Rightarrow> nat \<Rightarrow> u8 list \<Rightarrow> u8 list option" where
  "row_loop src i j 0 index buf = Some buf"
| "row_loop src i j (Suc n) index buf = do {
     p \<leftarrow> src i j;
     buf' \<leftarrow> put_pixel index p buf;
     row_loop src i (j + 1) n (index + 1) buf' }"

fun rows_loop :: "(nat \<Rightarrow> nat \<Rightarrow> pixel option) \<Rightarrow> nat \<Rightarrow> nat \<Rightarrow> nat \<Rightarrow> nat \<Rightarrow> nat \<Rightarrow> u8 list \<Rightarrow> u8 list option" where
  "rows_loop src i 0 n pad index buf = Some buf"
| "rows_loop src i (Suc m) n pad index buf = do {
     buf' \<leftarrow> row_loop src i 0 n index buf;
     rows_loop src (i + 1) m n pad (index + n + pad) buf' }"

text \<open>
  The pixel of each depth. Below 8 bits, byte \<open>j div per\<close> holds \<open>per\<close> pixels of \<open>8 div per\<close> bits, the
  first in the lowest bits; the third byte repeats green.
\<close>

definition packed_src :: "nat \<Rightarrow> nat \<Rightarrow> u8 list \<Rightarrow> u8 list \<Rightarrow> nat \<Rightarrow> nat \<Rightarrow> pixel option" where
  "packed_src per l_width pRgb pColorData i j = do {
     b \<leftarrow> color_at pColorData (i * l_width + j div per);
     let bits = 8 div per;
     let mixIndex = unat (drop_bit (8 - bits) (push_bit (8 - bits * (j mod per + 1)) b));
     r \<leftarrow> palette_at pRgb mixIndex 2;
     g \<leftarrow> palette_at pRgb mixIndex 1;
     Some (r, g, g) }"

definition indexed_src :: "nat \<Rightarrow> u8 list \<Rightarrow> u8 list \<Rightarrow> nat \<Rightarrow> nat \<Rightarrow> pixel option" where
  "indexed_src l_width pRgb pColorData i j = do {
     b \<leftarrow> color_at pColorData (i * l_width + j);
     r \<leftarrow> palette_at pRgb (unat b) 2;
     g \<leftarrow> palette_at pRgb (unat b) 1;
     bl \<leftarrow> palette_at pRgb (unat b) 0;
     Some (r, g, bl) }"

definition rgb24_src :: "nat \<Rightarrow> u8 list \<Rightarrow> nat \<Rightarrow> nat \<Rightarrow> pixel option" where
  "rgb24_src l_width pColorData i j = do {
     let k = i * l_width + j * 3;
     c2 \<leftarrow> color_at pColorData (k + 2);
     c1 \<leftarrow> color_at pColorData (k + 1);
     c0 \<leftarrow> color_at pColorData k;
     Some (c0, c1, c2) }"

definition rgb32_src :: "nat \<Rightarrow> u8 list \<Rightarrow> nat \<Rightarrow> nat \<Rightarrow> pixel option" where
  "rgb32_src l_width pColorData i j = do {
     let k = i * l_width + j * 4;
     c0 \<leftarrow> color_at pColorData (k + 2);
     c1 \<leftarrow> color_at pColorData (k + 1);
     c2 \<leftarrow> color_at pColorData k;
     Some (c0, c1, c2) }"

text \<open>The description before the pixels.\<close>

definition ptn_head :: "int \<Rightarrow> int \<Rightarrow> u8 list" where
  "ptn_head width height =
     (replicate 64 0)[0 := 0, 1 := 1, 2 := 2, 3 := 3, 4 := 4, 5 := 5, 6 := 6, 7 := 7,
        24 := word_of_int height, 25 := word_of_int (height div 256),
        26 := word_of_int width, 27 := word_of_int (width div 256), 32 := 32, 33 := 0]"

text \<open>The body of \<^verbatim>\<open>parseBmp\<close> after the headers; \<open>rest\<close> is the file behind them.\<close>

definition convert :: "bmp_info \<Rightarrow> u8 list \<Rightarrow> u8 list option" where
  "convert info rest =
     (let n = biBitCount info; orgwidth = biWidth info; height = biHeight info;
          palette = (if n < 16 then 4 * 2 ^ n else 0);
          pRgb = fread_cleared palette rest;
          width = c_div (orgwidth + 15) 16 * 16;
          l_width = WIDTHBYTES (orgwidth * int n);
          nData = height * l_width;
          sz = width * height * 4 + 64
      in if \<not> (fits_int (orgwidth + 15) \<and> fits_int (orgwidth * int n + 31) \<and> fits_int nData \<and> fits_int sz)
            \<or> nData < 0 \<or> sz < 0 then None
         else
           (let pColorData = fread_cleared (nat nData) (drop palette rest);
                buf = replicate (nat (sz - 64)) 0; lw = nat l_width; w = nat width; h = nat height
            in map_option (\<lambda>data. ptn_head width height @ data)
                 (if n = 1 then rows_loop (packed_src 8 lw pRgb pColorData) 0 h (8 * w) 0 0 buf
                  else if n = 2 then rows_loop (packed_src 4 lw pRgb pColorData) 0 h (4 * w) 0 0 buf
                  else if n = 4 then rows_loop (packed_src 2 lw pRgb pColorData) 0 h (2 * w) 0 0 buf
                  else if n = 8 then rows_loop (indexed_src lw pRgb pColorData) 0 h w 0 0 buf
                  else if n < 16 then Some buf
                  else if n = 16 then Some buf
                  else if n = 24 then
                    rows_loop (rgb24_src lw pColorData) 0 h (nat orgwidth) (w - nat orgwidth) 0 buf
                  else rows_loop (rgb32_src lw pColorData) 0 h (nat orgwidth) (w - nat orgwidth) 0 buf)))"

definition bmp_info_of :: "u8 list \<Rightarrow> bmp_info" where
  "bmp_info_of file = \<lparr>biWidth = file_int file 18, biHeight = file_int file 22, biBitCount = file_word file 28\<rparr>"

text \<open>The file, if it opens: an error code, or the converted picture.\<close>

definition parseBmp :: "u8 list option \<Rightarrow> (int + u8 list) option" where
  "parseBmp f =
     (case f of
        None \<Rightarrow> Some (Inl (-2))
      | Some file \<Rightarrow>
          if length file < 14 then None
          else if file_word file 0 \<noteq> 0x4d42 then Some (Inl (-1))
          else if length file < 54 then None
          else map_option Inr (convert (bmp_info_of file) (drop 54 file)))"

section \<open>Where the loops put the pixels\<close>

fun comp3 :: "pixel \<Rightarrow> nat \<Rightarrow> u8" where
  "comp3 (c0, c1, c2) k = (if k = 0 then c0 else if k = 1 then c1 else c2)"

lemma put_pixel_law:
  assumes "4 * index + 4 \<le> length buf"
  shows "\<exists>buf'. put_pixel index p buf = Some buf' \<and> length buf' = length buf \<and>
    (\<forall>x < length buf. buf' ! x = (if x div 4 = index \<and> x mod 4 < 3 then comp3 p (x mod 4) else buf ! x))"
proof -
  obtain c0 c1 c2 where p: "p = (c0, c1, c2)" by (cases p)
  have pos: "x = index * 4 + k \<longleftrightarrow> x div 4 = index \<and> x mod 4 = k" if "k < 4" for x k :: nat
    using that by auto
  have "(buf[index * 4 := c0, index * 4 + 1 := c1, index * 4 + 2 := c2]) ! x =
      (if x div 4 = index \<and> x mod 4 < 3 then comp3 p (x mod 4) else buf ! x)" if "x < length buf" for x
    using that pos [of 0 x] pos [of 1 x] pos [of 2 x] assms by (auto simp: p nth_list_update)
  then show ?thesis using assms by (auto simp: put_pixel_def p)
qed

lemma row_loop_law:
  assumes "\<And>t. t < n \<Longrightarrow> src i (j + t) = Some (f (j + t))" and "4 * (index + n) \<le> length buf"
  shows "\<exists>buf'. row_loop src i j n index buf = Some buf' \<and> length buf' = length buf \<and>
    (\<forall>x < length buf. buf' ! x =
       (if index \<le> x div 4 \<and> x div 4 < index + n \<and> x mod 4 < 3 then comp3 (f (j + (x div 4 - index))) (x mod 4)
        else buf ! x))"
  using assms
proof (induction n arbitrary: j index buf)
  case (Suc n)
  obtain b1 where b1: "put_pixel index (f j) buf = Some b1" "length b1 = length buf"
      "\<forall>x < length buf. b1 ! x = (if x div 4 = index \<and> x mod 4 < 3 then comp3 (f j) (x mod 4) else buf ! x)"
    using put_pixel_law [of index buf "f j"] Suc.prems(2) by auto
  have "src i (j + 1 + t) = Some (f (j + 1 + t))" if "t < n" for t
    using Suc.prems(1) [of "Suc t"] that by simp
  moreover have "4 * (index + 1 + n) \<le> length b1" using Suc.prems(2) b1(2) by simp
  ultimately obtain b2 where b2: "row_loop src i (j + 1) n (index + 1) b1 = Some b2" "length b2 = length b1"
      "\<forall>x < length b1. b2 ! x = (if index + 1 \<le> x div 4 \<and> x div 4 < index + 1 + n \<and> x mod 4 < 3
         then comp3 (f (j + 1 + (x div 4 - (index + 1)))) (x mod 4) else b1 ! x)"
    using Suc.IH [of "j + 1" "index + 1" b1] by blast
  have "b2 ! x = (if index \<le> x div 4 \<and> x div 4 < index + Suc n \<and> x mod 4 < 3
      then comp3 (f (j + (x div 4 - index))) (x mod 4) else buf ! x)" if "x < length buf" for x
  proof (cases "x div 4 = index")
    case True
    then show ?thesis using b1(2,3) b2(3) that by simp
  next
    case False
    have "j + 1 + (x div 4 - (index + 1)) = j + (x div 4 - index)" if "index + 1 \<le> x div 4" using that by simp
    then show ?thesis using b1(2,3) b2(3) that False by (auto simp: le_eq_less_or_eq)
  qed
  then show ?case using b1(1,2) b2(1,2) Suc.prems(1) [of 0] by auto
next
  case 0
  have "\<not> (index \<le> x div 4 \<and> x div 4 < index)" for x by simp
  then show ?case by (auto simp del: not_le not_less)
qed

text \<open>The rows: pixel \<open>q\<close> from the start of the loop belongs to row \<open>q div w\<close>, column \<open>q mod w\<close>.\<close>

definition placed :: "(nat \<Rightarrow> nat \<Rightarrow> pixel) \<Rightarrow> nat \<Rightarrow> nat \<Rightarrow> nat \<Rightarrow> nat \<Rightarrow> nat \<Rightarrow> nat \<Rightarrow> u8 \<Rightarrow> u8" where
  "placed f i m n w index x old =
     (if index \<le> x div 4 \<and> (x div 4 - index) div w < m \<and> (x div 4 - index) mod w < n \<and> x mod 4 < 3
      then comp3 (f (i + (x div 4 - index) div w) ((x div 4 - index) mod w)) (x mod 4) else old)"

lemma placed_Suc:
  assumes "0 < w" and "n \<le> w"
  shows "placed f (i + 1) m n w (index + w) x
      (if index \<le> x div 4 \<and> x div 4 < index + n \<and> x mod 4 < 3 then comp3 (f i (x div 4 - index)) (x mod 4) else old) =
    placed f i (Suc m) n w index x old"
proof (cases "index + w \<le> x div 4")
  case True
  define q where "q = x div 4 - index"
  have q: "w \<le> q" "x div 4 - (index + w) = q - w" "x div 4 = index + q" using True by (auto simp: q_def)
  have "q div w = Suc ((q - w) div w)" "q mod w = (q - w) mod w"
    using assms(1) q(1) by (simp_all add: le_div_geq le_mod_geq)
  then show ?thesis using q assms(2) by (auto simp: placed_def)
next
  case False
  then show ?thesis using assms by (auto simp: placed_def not_le)
qed

lemma rows_loop_law:
  assumes "\<And>i' j. i \<le> i' \<Longrightarrow> i' < i + m \<Longrightarrow> j < n \<Longrightarrow> src i' j = Some (f i' j)"
    and "4 * (index + m * w) \<le> length buf" and "0 < w" and "w = n + pad"
  shows "\<exists>buf'. rows_loop src i m n pad index buf = Some buf' \<and> length buf' = length buf \<and>
    (\<forall>x < length buf. buf' ! x = placed f i m n w index x (buf ! x))"
  using assms
proof (induction m arbitrary: i index buf)
  case 0
  then show ?case by (auto simp: placed_def)
next
  case (Suc m)
  have "4 * (index + n) \<le> length buf" using Suc.prems(2,4) by simp
  moreover have "src i (0 + t) = Some (f i (0 + t))" if "t < n" for t
    using Suc.prems(1) [of i t] that by simp
  ultimately obtain b1 where b1: "row_loop src i 0 n index buf = Some b1" "length b1 = length buf"
      "\<forall>x < length buf. b1 ! x = (if index \<le> x div 4 \<and> x div 4 < index + n \<and> x mod 4 < 3
         then comp3 (f i (x div 4 - index)) (x mod 4) else buf ! x)"
    using row_loop_law [of n src i 0 "f i" index buf] by auto
  have "src i' j = Some (f i' j)" if "i + 1 \<le> i'" "i' < i + 1 + m" "j < n" for i' j
    using Suc.prems(1) that by simp
  moreover have "4 * (index + w + m * w) \<le> length b1" using Suc.prems(2) b1(2) by simp
  ultimately obtain b2 where b2: "rows_loop src (i + 1) m n pad (index + w) b1 = Some b2" "length b2 = length b1"
      "\<forall>x < length b1. b2 ! x = placed f (i + 1) m n w (index + w) x (b1 ! x)"
    using Suc.IH [of "i + 1" "index + w" b1] Suc.prems(3,4) by blast
  have "rows_loop src i (Suc m) n pad index buf = Some b2"
    using b1(1) b2(1) Suc.prems(4) by (simp add: ac_simps)
  moreover have "b2 ! x = placed f i (Suc m) n w index x (buf ! x)" if "x < length buf" for x
    using b1(2,3) b2(3) that placed_Suc [of w n f i m index x "buf ! x"] Suc.prems(3,4) by simp
  ultimately show ?case using b1(2) b2(2) by auto
qed

section \<open>What a loop that ends has read and written\<close>

lemma put_pixel_SomeD: "put_pixel index p buf = Some buf' \<Longrightarrow> index * 4 + 2 < length buf \<and> length buf' = length buf"
  by (auto simp: put_pixel_def split: prod.splits if_splits)

lemma row_loop_SomeD:
  assumes "row_loop src i j n index buf = Some buf'"
  shows "length buf' = length buf \<and> (\<forall>t < n. src i (j + t) \<noteq> None \<and> (index + t) * 4 + 2 < length buf)"
  using assms
proof (induction n arbitrary: j index buf)
  case (Suc n)
  then obtain p b1 where st: "src i j = Some p" "put_pixel index p buf = Some b1"
      "row_loop src i (j + 1) n (index + 1) b1 = Some buf'"
    by (auto simp: Option_bind_Some_iff)
  show ?case
  proof (intro conjI allI impI)
    show "length buf' = length buf" using Suc.IH [OF st(3)] put_pixel_SomeD [OF st(2)] by simp
    fix t assume t: "t < Suc n"
    show "src i (j + t) \<noteq> None"
      using Suc.IH [OF st(3)] st(1) t by (cases t) auto
    show "(index + t) * 4 + 2 < length buf"
      using Suc.IH [OF st(3)] put_pixel_SomeD [OF st(2)] t by (cases t) auto
  qed
qed simp

lemma rows_loop_SomeD:
  assumes "rows_loop src i m n 0 index buf = Some buf'"
  shows "\<forall>r < m. \<forall>t < n. src (i + r) t \<noteq> None \<and> (index + r * n + t) * 4 + 2 < length buf"
  using assms
proof (induction m arbitrary: i index buf)
  case (Suc m)
  then obtain b1 where st: "row_loop src i 0 n index buf = Some b1" "rows_loop src (i + 1) m n 0 (index + n) b1 = Some buf'"
    by (auto simp: Option_bind_Some_iff)
  note row = row_loop_SomeD [OF st(1)] and rows = Suc.IH [OF st(2)]
  show ?case
  proof (intro allI impI)
    fix r t assume rt: "r < Suc m" "t < n"
    show "src (i + r) t \<noteq> None \<and> (index + r * n + t) * 4 + 2 < length buf"
    proof (cases r)
      case 0
      then show ?thesis using row rt by auto
    next
      case (Suc r')
      then have "src (i + 1 + r') t \<noteq> None \<and> (index + n + r' * n + t) * 4 + 2 < length b1" using rows rt by auto
      then show ?thesis using row Suc by (simp add: algebra_simps)
    qed
  qed
qed simp

section \<open>Sizes\<close>

text \<open>Pixels of a padded line, bytes of a line of the file, and when no size overflows.\<close>

definition pad16 :: "nat \<Rightarrow> nat" where
  "pad16 w = (w + 15) div 16 * 16"

definition line_bytes :: "nat \<Rightarrow> nat \<Rightarrow> nat" where
  "line_bytes n w = (w * n + 31) div 32 * 4"

definition bmp_small :: "nat \<Rightarrow> nat \<Rightarrow> nat \<Rightarrow> bool" where
  "bmp_small n w h \<longleftrightarrow> w + 15 < 2 ^ 31 \<and> w * n + 31 < 2 ^ 31 \<and> h * line_bytes n w < 2 ^ 31 \<and>
     pad16 w * h * 4 + 64 < 2 ^ 31"

lemma pad16_le: "w \<le> pad16 w"
  unfolding pad16_def by linarith

lemma line_bytes_le: "n = 8 * k \<Longrightarrow> w * k \<le> line_bytes n w"
proof -
  assume n: "n = 8 * k"
  have "x \<le> (8 * x + 31) div 32 * 4" for x :: nat by linarith
  from this [of "w * k"] show ?thesis by (simp add: line_bytes_def n ac_simps)
qed

lemma width_int: "c_div (int w + 15) 16 * 16 = int (pad16 w)"
  by (simp add: c_div_def pad16_def zdiv_int)

lemma line_int: "WIDTHBYTES (int w * int n) = int (line_bytes n w)"
  by (simp add: WIDTHBYTES_def c_div_def line_bytes_def zdiv_int)

definition palette_bytes :: "nat \<Rightarrow> nat" where
  "palette_bytes n = (if n < 16 then 4 * 2 ^ n else 0)"

definition palette_of :: "nat \<Rightarrow> u8 list \<Rightarrow> u8 list" where
  "palette_of n rest = fread_cleared (palette_bytes n) rest"

definition colors_of :: "nat \<Rightarrow> nat \<Rightarrow> nat \<Rightarrow> u8 list \<Rightarrow> u8 list" where
  "colors_of n w h rest = fread_cleared (h * line_bytes n w) (drop (palette_bytes n) rest)"

lemma fits_int_int: "fits_int (int k) \<longleftrightarrow> k < 2 ^ 31"
  by (simp add: fits_int_def)

lemma convert_sizes:
  assumes "biWidth info = int w" and "biHeight info = int h" and "biBitCount info = n"
  shows "convert info rest =
    (if \<not> bmp_small n w h then None
     else map_option (\<lambda>data. ptn_head (int (pad16 w)) (int h) @ data)
       (let lw = line_bytes n w; W = pad16 w; cs = colors_of n w h rest; pal = palette_of n rest;
            buf = replicate (4 * (h * W)) 0 in
        if n = 1 then rows_loop (packed_src 8 lw pal cs) 0 h (8 * W) 0 0 buf
        else if n = 2 then rows_loop (packed_src 4 lw pal cs) 0 h (4 * W) 0 0 buf
        else if n = 4 then rows_loop (packed_src 2 lw pal cs) 0 h (2 * W) 0 0 buf
        else if n = 8 then rows_loop (indexed_src lw pal cs) 0 h W 0 0 buf
        else if n < 16 then Some buf
        else if n = 16 then Some buf
        else if n = 24 then rows_loop (rgb24_src lw cs) 0 h w (W - w) 0 buf
        else rows_loop (rgb32_src lw cs) 0 h w (W - w) 0 buf))"
proof -
  have i: "int w + 15 = int (w + 15)" "int w * int n + 31 = int (w * n + 31)"
    "int h * int (line_bytes n w) = int (h * line_bytes n w)"
    "int (pad16 w) * int h * 4 + 64 = int (pad16 w * h * 4 + 64)" by simp_all
  have "int (pad16 w * h * 4 + 64) - 64 = int (4 * (h * pad16 w))" by (simp add: ac_simps)
  then have sz: "nat (int (pad16 w * h * 4 + 64) - 64) = 4 * (h * pad16 w)" by (simp only: nat_int)
  show ?thesis
    unfolding convert_def Let_def assms width_int line_int
    unfolding i fits_int_int sz nat_int
      palette_bytes_def [symmetric] palette_of_def colors_of_def bmp_small_def
    by (simp only: of_nat_less_0_iff simp_thms)
qed

section \<open>True colour\<close>

definition file_byte :: "u8 list \<Rightarrow> nat \<Rightarrow> u8" where
  "file_byte file k = (if k < length file then file ! k else 0)"

lemma colors_of_nth:
  assumes "16 \<le> n" and "k < h * line_bytes n w"
  shows "color_at (colors_of n w h (drop 54 file)) k = Some (file_byte file (54 + k))"
  using assms by (auto simp: color_at_def colors_of_def palette_bytes_def fread_cleared_def file_byte_def nth_append)

lemma line_index:
  assumes "i < h" and "p < lw"
  shows "i * lw + p < h * (lw :: nat)"
proof -
  have "i * lw + p < (i + 1) * lw" using assms(2) by simp
  also have "\<dots> \<le> h * lw" using assms(1) by (intro mult_le_mono1) simp
  finally show ?thesis .
qed

text \<open>The three bytes of a pixel, as the two depths store them.\<close>

definition true_pixel :: "nat \<Rightarrow> nat \<Rightarrow> u8 list \<Rightarrow> nat \<Rightarrow> nat \<Rightarrow> pixel" where
  "true_pixel n w file i j =
     (let k = 54 + i * line_bytes n w + j * (n div 8) in
      if n = 24 then (file_byte file k, file_byte file (k + 1), file_byte file (k + 2))
      else (file_byte file (k + 2), file_byte file (k + 1), file_byte file k))"

lemma true_src:
  assumes "i < h" and "j < w"
  shows "rgb24_src (line_bytes 24 w) (colors_of 24 w h (drop 54 file)) i j = Some (true_pixel 24 w file i j)"
    and "rgb32_src (line_bytes 32 w) (colors_of 32 w h (drop 54 file)) i j = Some (true_pixel 32 w file i j)"
proof -
  have "j * 3 + 2 < line_bytes 24 w" "j * 4 + 3 < line_bytes 32 w"
    using line_bytes_le [of 24 3 w] line_bytes_le [of 32 4 w] assms(2) by linarith+
  then have "i * line_bytes 24 w + (j * 3 + k) < h * line_bytes 24 w"
    and "i * line_bytes 32 w + (j * 4 + k) < h * line_bytes 32 w" if "k \<le> 2" for k
    using line_index [OF assms(1)] that by auto
  note b = this(1) [of 0] this(1) [of 1] this(1) [of 2] this(2) [of 0] this(2) [of 1] this(2) [of 2]
  show "rgb24_src (line_bytes 24 w) (colors_of 24 w h (drop 54 file)) i j = Some (true_pixel 24 w file i j)"
    using b(1-3) by (simp add: rgb24_src_def true_pixel_def Let_def colors_of_nth add.assoc)
  show "rgb32_src (line_bytes 32 w) (colors_of 32 w h (drop 54 file)) i j = Some (true_pixel 32 w file i j)"
    using b(4-6) by (simp add: rgb32_src_def true_pixel_def Let_def colors_of_nth add.assoc)
qed

lemma true_rows:
  assumes "n = 24 \<or> n = 32" and "0 < w"
  defines "W \<equiv> pad16 w"
  shows "\<exists>data. (if n = 24 then rows_loop (rgb24_src (line_bytes n w) (colors_of n w h (drop 54 file))) 0 h w (W - w) 0 (replicate (4 * (h * W)) 0)
      else rows_loop (rgb32_src (line_bytes n w) (colors_of n w h (drop 54 file))) 0 h w (W - w) 0 (replicate (4 * (h * W)) 0)) = Some data \<and>
    length data = 4 * (h * W) \<and>
    (\<forall>i < h. \<forall>j < W. \<forall>c < 4. data ! (4 * (i * W + j) + c) =
       (if c < 3 \<and> j < w then comp3 (true_pixel n w file i j) c else 0))"
proof -
  have W: "0 < W" "W = w + (W - w)" using pad16_le [of w] assms(2) by (simp_all add: W_def)
  obtain data where data: "(if n = 24 then rows_loop (rgb24_src (line_bytes n w) (colors_of n w h (drop 54 file))) 0 h w (W - w) 0 (replicate (4 * (h * W)) 0)
      else rows_loop (rgb32_src (line_bytes n w) (colors_of n w h (drop 54 file))) 0 h w (W - w) 0 (replicate (4 * (h * W)) 0)) = Some data"
    "length data = 4 * (h * W)"
    "\<forall>x < 4 * (h * W). data ! x = placed (true_pixel n w file) 0 h w W 0 x 0"
  proof (cases "n = 24")
    case True
    show ?thesis
      using rows_loop_law [of 0 h w "rgb24_src (line_bytes n w) (colors_of n w h (drop 54 file))" "true_pixel n w file" 0 W
          "replicate (4 * (h * W)) 0" "W - w"] true_src(1) [of _ h _ w "file"] W True that by auto
  next
    case False
    then have "n = 32" using assms(1) by simp
    then show ?thesis
      using rows_loop_law [of 0 h w "rgb32_src (line_bytes n w) (colors_of n w h (drop 54 file))" "true_pixel n w file" 0 W
          "replicate (4 * (h * W)) 0" "W - w"] true_src(2) [of _ h _ w "file"] W that by auto
  qed
  have "data ! (4 * (i * W + j) + c) = (if c < 3 \<and> j < w then comp3 (true_pixel n w file i j) c else 0)"
    if "i < h" "j < W" "c < 4" for i j c
  proof -
    have "i * W + j < h * W" using line_index that(1,2) .
    then have "4 * (i * W + j) + c < 4 * (h * W)" using that(3) by simp
    moreover have "(4 * m + c) div 4 = m" "(4 * m + c) mod 4 = c" for m using that(3) by simp_all
    then have "(4 * (i * W + j) + c) div 4 = i * W + j" "(4 * (i * W + j) + c) mod 4 = c" by blast+
    moreover have "(i * W + j) div W = i" "(i * W + j) mod W = j" using that(2) by simp_all
    ultimately show ?thesis using data(3) that by (simp add: placed_def)
  qed
  then show ?thesis using data(1,2) by blast
qed

section \<open>Pictures with a palette\<close>

lemma palette_8: "palette_at (palette_of 8 rest) (unat (b :: u8)) c \<noteq> None" if "c < 4"
proof -
  have "unat b < 2 ^ 8" by (rule order_less_le_trans [OF unsigned_less]) simp
  then show ?thesis using that by (simp add: palette_at_def palette_of_def palette_bytes_def)
qed

lemma indexed_src_None:
  "indexed_src lw (palette_of 8 rest) cs i j = None \<longleftrightarrow> length cs \<le> i * lw + j"
  using palette_8 [of 0 rest] palette_8 [of 1 rest] palette_8 [of 2 rest]
  by (auto simp: indexed_src_def color_at_def Option_bind_Some_iff split: if_splits)

text \<open>A line of the file is as long as a padded one for 13 to 16 pixels more than a multiple of 16.\<close>

lemma line_fits: "pad16 w \<le> line_bytes 8 w \<longleftrightarrow> w mod 16 = 0 \<or> 13 \<le> w mod 16"
proof -
  define q r where qr: "q = w div 16" "r = w mod 16"
  then have w: "w = 16 * q + r" and r: "r < 16" by simp_all
  have a: "w + 15 = 16 * q + (r + 15)" "w * 8 + 31 = 32 * (4 * q) + (8 * r + 31)" unfolding w by simp_all
  have "(w + 15) div 16 = q + (r + 15) div 16" "(w * 8 + 31) div 32 = 4 * q + (8 * r + 31) div 32"
    unfolding a by simp_all
  then have "pad16 w \<le> line_bytes 8 w \<longleftrightarrow> (r + 15) div 16 * 16 \<le> (8 * r + 31) div 32 * 4"
    by (simp add: pad16_def line_bytes_def)
  also have "\<dots> \<longleftrightarrow> r = 0 \<or> 13 \<le> r"
  proof (cases "r = 0")
    case False
    then have "(r + 15) div 16 = 1" using r by linarith
    moreover have "4 \<le> (8 * r + 31) div 32 \<longleftrightarrow> 13 \<le> r"
      using less_eq_div_iff_mult_less_eq [of 32 4 "8 * r + 31"] by linarith
    ultimately show ?thesis using False by linarith
  qed simp
  finally show ?thesis by (simp add: qr)
qed

lemma packed_overflows:
  assumes "0 < h" and "0 < W" and "2 \<le> per"
  shows "rows_loop src 0 h (per * W) 0 0 (replicate (4 * (h * W)) 0) = None"
proof (rule ccontr)
  assume "\<not> ?thesis"
  then obtain buf where "rows_loop src 0 h (per * W) 0 0 (replicate (4 * (h * W)) 0) = Some buf" by auto
  note last = rows_loop_SomeD [OF this, THEN spec, of "h - 1", THEN mp, THEN spec, of "per * W - 1"]
  have "0 < per * W" using assms(2,3) by simp
  then have "((h - 1) * (per * W) + (per * W - 1)) * 4 + 2 < 4 * (h * W)"
    using last assms(1) by simp
  moreover have "(h - 1) * (per * W) + (per * W - 1) = h * (per * W) - 1"
    using assms(1) \<open>0 < per * W\<close> by (cases h) auto
  moreover have "2 * (h * W) \<le> h * (per * W)"
    using mult_le_mono1 [OF assms(3), of "h * W"] by (simp add: ac_simps)
  moreover have "0 < h * W" using assms(1,2) by simp
  moreover have False if "x * 4 + 2 < 4 * z" "x = y - 1" "2 * z \<le> y" "0 < z" for x y z :: nat
    using that by linarith
  ultimately show False by blast
qed

lemma indexed_rows:
  assumes "0 < h" and "0 < w"
  shows "rows_loop (indexed_src (line_bytes 8 w) (palette_of 8 rest) (colors_of 8 w h rest)) 0 h (pad16 w) 0 0
      (replicate (4 * (h * pad16 w)) 0) = None \<longleftrightarrow> \<not> pad16 w \<le> line_bytes 8 w"
proof -
  let ?src = "indexed_src (line_bytes 8 w) (palette_of 8 rest) (colors_of 8 w h rest)"
  have len: "length (colors_of 8 w h rest) = h * line_bytes 8 w" by (simp add: colors_of_def)
  have W: "0 < pad16 w" using pad16_le [of w] assms(2) by simp
  show ?thesis
  proof
    assume none: "rows_loop ?src 0 h (pad16 w) 0 0 (replicate (4 * (h * pad16 w)) 0) = None"
    show "\<not> pad16 w \<le> line_bytes 8 w"
    proof
      assume le: "pad16 w \<le> line_bytes 8 w"
      have "?src i j = Some (the (?src i j))" if "i < h" "j < pad16 w" for i j
      proof -
        have "i * line_bytes 8 w + j < h * line_bytes 8 w" using line_index [OF that(1)] that(2) le by simp
        then show ?thesis using indexed_src_None [of "line_bytes 8 w" rest "colors_of 8 w h rest" i j] len by auto
      qed
      then show False
        using rows_loop_law [of 0 h "pad16 w" ?src "\<lambda>i j. the (?src i j)" 0 "pad16 w" "replicate (4 * (h * pad16 w)) 0" 0]
          none W by auto
    qed
  next
    assume nle: "\<not> pad16 w \<le> line_bytes 8 w"
    show "rows_loop ?src 0 h (pad16 w) 0 0 (replicate (4 * (h * pad16 w)) 0) = None"
    proof (rule ccontr)
      assume "\<not> ?thesis"
      then obtain buf where "rows_loop ?src 0 h (pad16 w) 0 0 (replicate (4 * (h * pad16 w)) 0) = Some buf" by auto
      from rows_loop_SomeD [OF this] have "?src (0 + (h - 1)) (pad16 w - 1) \<noteq> None" using assms(1) W by simp
      then have "(h - 1) * line_bytes 8 w + (pad16 w - 1) < h * line_bytes 8 w"
        unfolding indexed_src_None len by simp
      moreover have "h * line_bytes 8 w = (h - 1) * line_bytes 8 w + line_bytes 8 w"
        using assms(1) by (cases h) auto
      ultimately show False using nle by linarith
    qed
  qed
qed

section \<open>Properties\<close>

text \<open>A file with the two headers, whose sizes stay inside \<^verbatim>\<open>int\<close>.\<close>

definition bmp_file :: "nat \<Rightarrow> nat \<Rightarrow> nat \<Rightarrow> u8 list \<Rightarrow> bool" where
  "bmp_file n w h file \<longleftrightarrow> 54 \<le> length file \<and> file_word file 0 = 0x4d42 \<and>
     bmp_info_of file = \<lparr>biWidth = int w, biHeight = int h, biBitCount = n\<rparr> \<and> bmp_small n w h \<and> 0 < w \<and> 0 < h"

lemma parseBmp_file:
  "bmp_file n w h file \<Longrightarrow> parseBmp (Some file) = map_option Inr (convert \<lparr>biWidth = int w, biHeight = int h, biBitCount = n\<rparr> (drop 54 file))"
  by (simp add: bmp_file_def parseBmp_def)

text \<open>The field \<^verbatim>\<open>bfOffBits\<close>: the offset of the pixel data.\<close>

definition bfOffBits :: "u8 list \<Rightarrow> int" where
  "bfOffBits file = file_int file 10"

text \<open>
  C29: a true-colour picture is converted pixel by pixel. For a picture of 24 or 32 bits whose pixel
  data follow the two headers (\<^verbatim>\<open>bfOffBits\<close> is 54, as in a file without a palette) the result is the 64-byte description with the height and the padded width, and then the lines, each padded
  to a multiple of 16 pixels; pixel \<open>j\<close> of line \<open>i\<close> has the three bytes of its place in the file, as
  they are for 24 bits and in reverse for 32, and every other byte, the missing end of a short file
  included, is 0.
\<close>

theorem bmp_true_colour:
  assumes "bmp_file n w h file" and "n = 24 \<or> n = 32" and "bfOffBits file = 54"
  shows "\<exists>out. parseBmp (Some file) = Some (Inr out) \<and> length out = 64 + 4 * (h * pad16 w) \<and>
    unat (out ! 24) + 256 * unat (out ! 25) = h mod 65536 \<and>
    unat (out ! 26) + 256 * unat (out ! 27) = pad16 w mod 65536 \<and>
    (\<forall>i < h. \<forall>j < pad16 w. \<forall>c < 4. out ! (64 + (4 * (i * pad16 w + j) + c)) =
       (if c < 3 \<and> j < w
        then file_byte file (nat (bfOffBits file) + i * line_bytes n w + j * (n div 8) + (if n = 24 then c else 2 - c))
        else 0))"
proof -
  have w: "0 < w" and small: "bmp_small n w h" using assms(1) by (auto simp: bmp_file_def)
  from true_rows [OF assms(2) w, of h "file"] obtain data where
    data: "(if n = 24 then rows_loop (rgb24_src (line_bytes n w) (colors_of n w h (drop 54 file))) 0 h w (pad16 w - w) 0 (replicate (4 * (h * pad16 w)) 0)
      else rows_loop (rgb32_src (line_bytes n w) (colors_of n w h (drop 54 file))) 0 h w (pad16 w - w) 0 (replicate (4 * (h * pad16 w)) 0)) = Some data"
      "length data = 4 * (h * pad16 w)"
      "\<forall>i < h. \<forall>j < pad16 w. \<forall>c < 4. data ! (4 * (i * pad16 w + j) + c) =
         (if c < 3 \<and> j < w then comp3 (true_pixel n w file i j) c else 0)" by blast
  let ?head = "ptn_head (int (pad16 w)) (int h)"
  have res: "parseBmp (Some file) = Some (Inr (?head @ data))"
    using convert_sizes [of "\<lparr>biWidth = int w, biHeight = int h, biBitCount = n\<rparr>" w h n "drop 54 file"]
      parseBmp_file [OF assms(1)] small assms(2) data(1) by (auto simp: Let_def)
  have len: "length ?head = 64" by (simp add: ptn_head_def)
  have bytes: "unat (word_of_int (int k) :: u8) + 256 * unat (word_of_int (int k div 256) :: u8) = k mod 65536" for k
  proof -
    have "unat (word_of_int (int k) :: u8) = k mod 256"
      by (simp add: unsigned_of_nat take_bit_eq_mod flip: of_nat_div)
    moreover have "unat (word_of_int (int k div 256) :: u8) = k div 256 mod 256"
    proof -
      have "(word_of_int (int k div 256) :: u8) = of_nat (k div 256)" by (metis of_int_of_nat_eq of_nat_numeral zdiv_int)
      then show ?thesis by (simp add: unat_of_nat)
    qed
    ultimately show ?thesis using mod_mult2_eq [of k 256 256] by simp
  qed
  have head: "(?head @ data) ! 24 = word_of_int (int h)" "(?head @ data) ! 25 = word_of_int (int h div 256)"
    "(?head @ data) ! 26 = word_of_int (int (pad16 w))" "(?head @ data) ! 27 = word_of_int (int (pad16 w) div 256)"
    by (simp_all add: ptn_head_def nth_append)
  have behind: "(?head @ data) ! (64 + k) = data ! k" for k by (simp add: nth_append len)
  have pix: "comp3 (true_pixel n w file i j) c =
      file_byte file (54 + i * line_bytes n w + j * (n div 8) + (if n = 24 then c else 2 - c))" if "c < 3" for i j c
  proof -
    have "c = 0 \<or> c = 1 \<or> c = 2" using that by linarith
    then show ?thesis using assms(2) by (auto simp: true_pixel_def Let_def)
  qed
  have size: "length (?head @ data) = 64 + 4 * (h * pad16 w)" by (simp only: length_append len data(2))
  have all: "\<forall>i < h. \<forall>j < pad16 w. \<forall>c < 4. (?head @ data) ! (64 + (4 * (i * pad16 w + j) + c)) =
       (if c < 3 \<and> j < w
        then file_byte file (54 + i * line_bytes n w + j * (n div 8) + (if n = 24 then c else 2 - c)) else 0)"
    unfolding behind
  proof (intro allI impI)
    fix i j c assume b: "i < h" "j < pad16 w" "c < (4 :: nat)"
    have "data ! (4 * (i * pad16 w + j) + c) = (if c < 3 \<and> j < w then comp3 (true_pixel n w file i j) c else 0)"
      using data(3) b by blast
    then show "data ! (4 * (i * pad16 w + j) + c) = (if c < 3 \<and> j < w
        then file_byte file (54 + i * line_bytes n w + j * (n div 8) + (if n = 24 then c else 2 - c)) else 0)"
      using pix [of c i j] by presburger
  qed
  show ?thesis
    unfolding assms(3)
    by (rule exI [of _ "?head @ data"], intro conjI res size, simp_all only: head bytes)
      (use all in simp)
qed

text \<open>
  The offset of the pixel data is never looked at: a file that differs in that field only gives the
  same result, its pixels taken from byte 54 all the same.
\<close>

theorem pixel_offset_ignored:
  assumes "54 \<le> length file" and "length off = 4"
  shows "parseBmp (Some (take 10 file @ off @ drop 14 file)) = parseBmp (Some file)"
proof -
  let ?f = "take 10 file @ off @ drop 14 file"
  have len: "length ?f = length file" using assms by simp
  have same: "?f ! i = file ! i" if "i < 10 \<or> 14 \<le> i" for i
    using that assms by (auto simp: nth_append)
  have rest: "drop 54 ?f = drop 54 file" using assms by simp
  have head: "file_word ?f 0 = file_word file 0" "bmp_info_of ?f = bmp_info_of file"
    by (simp_all add: file_word_def bmp_info_of_def file_int_def same)
  show ?thesis unfolding parseBmp_def option.case len rest head by (rule refl)
qed

lemma pixel_offset_ignored_witness:
  "parseBmp (Some (take 10 (replicate 54 7) @ [54, 0, 0, 0] @ drop 14 (replicate 54 7))) = parseBmp (Some (replicate 54 7))"
  using pixel_offset_ignored [of "replicate 54 7" "[54, 0, 0, 0]"] by simp

text \<open>A file of one small picture.\<close>

definition demo_bmp :: "u8 \<Rightarrow> u8 \<Rightarrow> u8 \<Rightarrow> u8 list \<Rightarrow> u8 list" where
  "demo_bmp n w h data = [0x42, 0x4d, 0, 0, 0, 0, 0, 0, 0, 0, 54, 0, 0, 0, 40, 0, 0, 0, w, 0, 0, 0, h, 0, 0, 0, 1, 0, n, 0,
     0, 0, 0, 0, 0, 0, 0, 0, 0, 0, 0, 0, 0, 0, 0, 0, 0, 0, 0, 0, 0, 0, 0, 0] @ data"

lemma demo_bmp_file: "bmp_file 24 1 1 (demo_bmp 24 1 1 [10, 20, 30, 0])" "bmp_file 8 1 1 (demo_bmp 8 1 1 [])"
  by (simp_all add: bmp_file_def demo_bmp_def file_word_def bmp_info_of_def file_int_def Let_def bmp_small_def
      pad16_def line_bytes_def)

lemma demo_offset: "bfOffBits (demo_bmp 24 1 1 [10, 20, 30, 0]) = 54"
  by (simp add: bfOffBits_def demo_bmp_def file_int_def file_word_def)

lemma bmp_true_colour_witness:
  "\<exists>out. parseBmp (Some (demo_bmp 24 1 1 [10, 20, 30, 0])) = Some (Inr out) \<and> out ! 64 = 10 \<and> out ! 66 = 30"
proof -
  obtain out where out: "parseBmp (Some (demo_bmp 24 1 1 [10, 20, 30, 0])) = Some (Inr out)"
      "\<forall>i < 1. \<forall>j < pad16 1. \<forall>c < 4. out ! (64 + (4 * (i * pad16 1 + j) + c)) =
        (if c < 3 \<and> j < 1 then file_byte (demo_bmp 24 1 1 [10, 20, 30, 0])
           (54 + i * line_bytes 24 1 + j * (24 div 8) + (if 24 = (24 :: nat) then c else 2 - c)) else 0)"
    using bmp_true_colour [OF demo_bmp_file(1) _ demo_offset, unfolded demo_offset] by auto
  have "0 < pad16 1" by (simp add: pad16_def)
  then have "out ! 64 = file_byte (demo_bmp 24 1 1 [10, 20, 30, 0]) 54"
    and "out ! 66 = file_byte (demo_bmp 24 1 1 [10, 20, 30, 0]) 56"
    using out(2) [rule_format, of 0 0 0] out(2) [rule_format, of 0 0 2] by simp_all
  then show ?thesis using out(1) by (simp add: demo_bmp_def file_byte_def)
qed

text \<open>
  Of the pictures with a palette, only some of 8 bits can be converted. Pictures of 1, 2 and 4
  bits always overrun the output, and one of 8 bits is read past its last line unless its width is
  0 or at least 13 modulo 16.
\<close>

theorem bmp_palette_defined:
  assumes "bmp_file n w h file" and "n \<in> {1, 2, 4, 8}"
  shows "parseBmp (Some file) = None \<longleftrightarrow> \<not> (n = 8 \<and> (w mod 16 = 0 \<or> 13 \<le> w mod 16))"
proof -
  have wh: "0 < w" "0 < h" and small: "bmp_small n w h" using assms(1) by (auto simp: bmp_file_def)
  have W: "0 < pad16 w" using pad16_le [of w] wh by simp
  note over = packed_overflows [OF wh(2) W]
  show ?thesis
    using convert_sizes [of "\<lparr>biWidth = int w, biHeight = int h, biBitCount = n\<rparr>" w h n "drop 54 file"]
      parseBmp_file [OF assms(1)] small assms(2) indexed_rows [OF wh(2,1), of "drop 54 file"] line_fits [of w]
      over [of 8] over [of 4] over [of 2]
    by (auto simp: Let_def)
qed

lemma bmp_palette_defined_witness: "parseBmp (Some (demo_bmp 8 1 1 [])) = None"
  using bmp_palette_defined [OF demo_bmp_file(2)] by simp

end
