(* ===== verification/CDouble.thy ===== *)
theory CDouble
  imports Complex_Main "HOL-Library.Log_Nat" "HOL-Library.Signed_Division"
begin

text \<open>
  The arithmetic of C on \<^verbatim>\<open>int\<close> and \<^verbatim>\<open>double\<close>, for the parts that compute with both. A
  \<^verbatim>\<open>double\<close> inside the range of the normal numbers is the rational it stands for, and an operation
  on doubles is the exact operation followed by \<open>rnd\<close>, rounding to 53 significant bits with ties
  to even. An operation on \<^verbatim>\<open>int\<close> that leaves 32 bits, and a conversion to \<^verbatim>\<open>int\<close> of a value outside
  them, is \<open>None\<close>.
\<close>

section \<open>Integers\<close>

definition cint :: "int \<Rightarrow> int option" where
  "cint x = (if - (2 ^ 31) \<le> x \<and> x < 2 ^ 31 then Some x else None)"

lemma cint_Some: "- 2147483648 \<le> x \<Longrightarrow> x < 2147483648 \<Longrightarrow> cint x = Some x"
  by (simp add: cint_def)

lemma cint_None: "2147483648 \<le> x \<Longrightarrow> cint x = None"
  by (simp add: cint_def)

lemma cint_SomeD: "cint x = Some y \<Longrightarrow> y = x"
  by (simp add: cint_def split: if_splits)

lemma sdiv_div: "0 \<le> (a :: int) \<Longrightarrow> 0 < b \<Longrightarrow> a sdiv b = a div b"
  by (cases "a = 0") (simp_all add: signed_divide_int_def)

lemma smod_mod: "0 \<le> (a :: int) \<Longrightarrow> 0 < b \<Longrightarrow> a smod b = a mod b"
  by (cases "a = 0") (simp_all add: signed_modulo_int_def)

section \<open>Doubles\<close>

text \<open>The exponent of a positive number, the \<open>e\<close> with \<open>2 ^ e \<le> x < 2 ^ (e + 1)\<close>.\<close>

definition dexp :: "rat \<Rightarrow> int" where
  "dexp x = (if 1 \<le> x then bitlen \<lfloor>x\<rfloor> - 1 else - bitlen (\<lceil>1 / x\<rceil> - 1))"

definition round_even :: "rat \<Rightarrow> int" where
  "round_even y =
     (let f = \<lfloor>y\<rfloor>; d = y - of_int f in
      if d < 1 / 2 then f else if 1 / 2 < d then f + 1 else if even f then f else f + 1)"

definition rnd_pos :: "rat \<Rightarrow> rat" where
  "rnd_pos x = (let u = 2 powi (dexp x - 52) in of_int (round_even (x / u)) * u)"

definition rnd :: "rat \<Rightarrow> rat" where
  "rnd x = (if x = 0 then 0 else if x < 0 then - rnd_pos (- x) else rnd_pos x)"

text \<open>\<^verbatim>\<open>(int)x\<close> drops the fraction.\<close>

definition to_int :: "rat \<Rightarrow> int option" where
  "to_int x = cint (if x < 0 then \<lceil>x\<rceil> else \<lfloor>x\<rfloor>)"

subsection \<open>The rounding error\<close>

lemma dexp_lower:
  assumes "0 < x"
  shows "2 powi (dexp x) \<le> x"
proof (cases "1 \<le> x")
  case True
  then have "0 < \<lfloor>x\<rfloor>" by simp
  have e: "dexp x = int (nat (bitlen \<lfloor>x\<rfloor> - 1))"
    using True bitlen_bounds [of "\<lfloor>x\<rfloor>"] by (simp add: dexp_def bitlen_def)
      (use \<open>0 < \<lfloor>x\<rfloor>\<close> floorlog_eq_zero_iff [of 2 "nat \<lfloor>x\<rfloor>"] in \<open>auto simp: not_le\<close>)
  have "2 ^ nat (bitlen \<lfloor>x\<rfloor> - 1) \<le> \<lfloor>x\<rfloor>"
    using bitlen_bounds [of "\<lfloor>x\<rfloor>"] \<open>0 < \<lfloor>x\<rfloor>\<close> by simp
  then have "(of_int (2 ^ nat (bitlen \<lfloor>x\<rfloor> - 1)) :: rat) \<le> of_int \<lfloor>x\<rfloor>"
    by (simp only: of_int_le_iff)
  also have "\<dots> \<le> x" by simp
  finally have "2 ^ nat (bitlen \<lfloor>x\<rfloor> - 1) \<le> x" by simp
  then show ?thesis by (simp only: e power_int_of_nat)
next
  case False
  define n where "n = \<lceil>1 / x\<rceil> - 1"
  have "1 < 1 / x" using False assms by simp
  then have "0 < n" by (simp add: n_def)
  have "\<lceil>1 / x\<rceil> \<le> 2 ^ nat (bitlen n)"
    using bitlen_bounds [of n] \<open>0 < n\<close> by (simp add: n_def)
  then have "1 / x \<le> 2 ^ nat (bitlen n)"
    by (simp add: ceiling_le_iff)
  then have "inverse (2 ^ nat (bitlen n)) \<le> x"
    using assms by (simp add: field_simps)
  moreover have "2 powi (dexp x) = inverse (2 ^ nat (bitlen n) :: rat)"
    using False by (simp add: dexp_def n_def power_int_def bitlen_def power_one_over inverse_eq_divide)
  ultimately show ?thesis by simp
qed

lemma rnd_error:
  assumes "0 \<le> x"
  shows "\<bar>rnd x - x\<bar> \<le> x / 2 ^ 53"
proof (cases "x = 0")
  case False
  with assms have "0 < x" by simp
  define u :: rat where "u = 2 powi (dexp x - 52)"
  have "0 < u" by (simp add: u_def)
  have u: "u * 2 ^ 52 \<le> x"
    using dexp_lower [OF \<open>0 < x\<close>] power_int_add [of "2::rat" "dexp x - 52" 52]
    by (simp add: u_def)
  have half: "\<bar>of_int (round_even y) - y\<bar> \<le> 1 / 2" for y
  proof -
    define d where "d = y - of_int \<lfloor>y\<rfloor>"
    have "0 \<le> d" "d < 1" unfolding d_def by linarith+
    moreover have "of_int (round_even y) - y \<in> {- d, 1 - d}"
      by (simp add: round_even_def Let_def d_def)
    moreover have "of_int (round_even y) - y = - d" if "d < 1 / 2"
      using that by (simp add: round_even_def Let_def d_def)
    moreover have "of_int (round_even y) - y = 1 - d" if "1 / 2 < d"
      using that by (simp add: round_even_def Let_def d_def)
    ultimately show ?thesis
      by (cases "d < 1 / 2"; cases "1 / 2 < d") auto
  qed
  have "rnd x - x = (of_int (round_even (x / u)) - x / u) * u"
    using \<open>0 < x\<close> \<open>0 < u\<close> by (simp add: rnd_def rnd_pos_def Let_def u_def algebra_simps)
  then have "\<bar>rnd x - x\<bar> = \<bar>of_int (round_even (x / u)) - x / u\<bar> * u"
    using \<open>0 < u\<close> by (simp add: abs_mult)
  also have "\<dots> \<le> 1 / 2 * u"
    using half [of "x / u"] \<open>0 < u\<close> by (intro mult_right_mono) simp_all
  also have "\<dots> \<le> x / 2 ^ 53"
    using u by simp
  finally show ?thesis .
qed (simp add: rnd_def)

lemma rnd_nonneg: "0 \<le> x \<Longrightarrow> 0 \<le> rnd x"
proof -
  assume "0 \<le> x"
  then have "x / 2 ^ 53 \<le> x" by simp
  with rnd_error [OF \<open>0 \<le> x\<close>] show ?thesis by linarith
qed

end
