(* ===== verification/ClkGen.thy ===== *)
theory ClkGen
  imports Prelude CDouble
begin

text \<open>
  The clock generator Si5338, \<^verbatim>\<open>hw/clk/clk.c\<close>: the table of its registers, the computation of the
  output divider for a frequency, and the bytes sent to the chip. The divider
  \<open>a + b / c\<close> is spread over the registers 86 to 95. A \<^verbatim>\<open>char\<close> is unsigned, as on the target.
  What the chip does with the writes is the map from register numbers to bytes after them, and
  \<open>divider\<close> reads the divider off it as the data sheet defines it.
\<close>

section \<open>The table\<close>

record reg_data =
  Reg_Addr :: u8
  Reg_Val :: u8
  Reg_Mask :: u8

abbreviation Row :: "u8 \<Rightarrow> u8 \<Rightarrow> u8 \<Rightarrow> reg_data" where
  "Row a v m \<equiv> \<lparr>Reg_Addr = a, Reg_Val = v, Reg_Mask = m\<rparr>"

definition Reg_Store :: "reg_data list" where
  "Reg_Store = [
    Row 27 0x70 0x80, Row 28 0x16 0xFF, Row 29 0x90 0xFF, Row 30 0xB0 0xFF, Row 31 0xC0 0xFF,
    Row 32 0xC0 0xFF, Row 33 0xC0 0xFF, Row 34 0xC0 0xFF, Row 35 0x00 0xFF, Row 36 0x06 0x1F,
    Row 37 0x06 0x1F, Row 38 0x06 0x1F, Row 39 0x06 0x1F, Row 40 0x63 0xFF, Row 41 0x0C 0x7F,
    Row 42 0x23 0x3F, Row 43 0x00 0x00, Row 44 0x00 0x00, Row 45 0x00 0xFF, Row 46 0x00 0xFF,
    Row 47 0x14 0x3F, Row 48 0x3D 0xFF, Row 49 0x00 0xFF, Row 50 0xC4 0xFF, Row 51 0x07 0xFF,
    Row 52 0x10 0xFF, Row 53 0x00 0xFF, Row 54 0x07 0xFF, Row 55 0x00 0xFF, Row 56 0x00 0xFF,
    Row 57 0x00 0xFF, Row 58 0x00 0xFF, Row 59 0x01 0xFF, Row 60 0x00 0xFF, Row 61 0x00 0xFF,
    Row 62 0x00 0x3F, Row 63 0x10 0xFF, Row 64 0x00 0xFF, Row 65 0x07 0xFF, Row 66 0x00 0xFF,
    Row 67 0x00 0xFF, Row 68 0x00 0xFF, Row 69 0x00 0xFF, Row 70 0x01 0xFF, Row 71 0x00 0xFF,
    Row 72 0x00 0xFF, Row 73 0x00 0x3F, Row 74 0x10 0xFF, Row 75 0x13 0xFF, Row 76 0x04 0xFF,
    Row 77 0x10 0xFF, Row 78 0x00 0xFF, Row 79 0x00 0xFF, Row 80 0x00 0xFF, Row 81 0x14 0xFF,
    Row 82 0x00 0xFF, Row 83 0x00 0xFF, Row 84 0x00 0x3F, Row 85 0x10 0xFF, Row 86 0xA5 0xFF,
    Row 87 0x0B 0xFF, Row 88 0xF4 0xFF, Row 89 0x5A 0xFF, Row 90 0x00 0xFF, Row 91 0x00 0xFF,
    Row 92 0xC7 0xFF, Row 93 0x22 0xFF, Row 94 0x00 0xFF, Row 95 0x00 0x3F, Row 96 0x10 0x00,
    Row 97 0x99 0xFF, Row 98 0x2E 0xFF, Row 99 0x0C 0xFF, Row 100 0x00 0xFF, Row 101 0x00 0xFF,
    Row 102 0x00 0xFF, Row 103 0x05 0xFF, Row 104 0x00 0xFF, Row 105 0x00 0xFF, Row 106 0x80 0xBF,
    Row 107 0x00 0xFF, Row 108 0x00 0xFF, Row 109 0x00 0xFF, Row 110 0x40 0xFF, Row 111 0x00 0xFF,
    Row 112 0x00 0xFF, Row 113 0x00 0xFF, Row 114 0x40 0xFF, Row 115 0x00 0xFF, Row 116 0x80 0xFF,
    Row 117 0x00 0xFF, Row 118 0x40 0xFF, Row 119 0x00 0xFF, Row 120 0x00 0xFF, Row 121 0x00 0xFF,
    Row 122 0x40 0xFF, Row 123 0x00 0xFF, Row 124 0x00 0xFF, Row 125 0x00 0xFF, Row 126 0x00 0xFF,
    Row 127 0x00 0xFF, Row 128 0x00 0xFF, Row 129 0x00 0x0F, Row 130 0x00 0x0F, Row 131 0x00 0xFF,
    Row 132 0x00 0xFF, Row 133 0x00 0xFF, Row 134 0x00 0xFF, Row 135 0x00 0xFF, Row 136 0x00 0xFF,
    Row 137 0x00 0xFF, Row 138 0x00 0xFF, Row 139 0x00 0xFF, Row 140 0x00 0xFF, Row 141 0x00 0xFF,
    Row 142 0x00 0xFF, Row 143 0x00 0xFF, Row 144 0x00 0xFF, Row 145 0x00 0x00, Row 146 0xFF 0x00,
    Row 147 0x00 0x00, Row 148 0x00 0x00, Row 149 0x00 0x00, Row 150 0x00 0x00, Row 151 0x00 0x00,
    Row 152 0x00 0xFF, Row 153 0x00 0xFF, Row 154 0x00 0xFF, Row 155 0x00 0xFF, Row 156 0x00 0xFF,
    Row 157 0x00 0xFF, Row 158 0x00 0x0F, Row 159 0x00 0x0F, Row 160 0x00 0xFF, Row 161 0x00 0xFF,
    Row 162 0x00 0xFF, Row 163 0x00 0xFF, Row 164 0x00 0xFF, Row 165 0x00 0xFF, Row 166 0x00 0xFF,
    Row 167 0x00 0xFF, Row 168 0x00 0xFF, Row 169 0x00 0xFF, Row 170 0x00 0xFF, Row 171 0x00 0xFF,
    Row 172 0x00 0xFF, Row 173 0x00 0xFF, Row 174 0x00 0xFF, Row 175 0x00 0xFF, Row 176 0x00 0xFF,
    Row 177 0x00 0xFF, Row 178 0x00 0xFF, Row 179 0x00 0xFF, Row 180 0x00 0xFF, Row 181 0x00 0x0F,
    Row 182 0x00 0xFF, Row 183 0x00 0xFF, Row 184 0x00 0xFF, Row 185 0x00 0xFF, Row 186 0x00 0xFF,
    Row 187 0x00 0xFF, Row 188 0x00 0xFF, Row 189 0x00 0xFF, Row 190 0x00 0xFF, Row 191 0x00 0xFF,
    Row 192 0x00 0xFF, Row 193 0x00 0xFF, Row 194 0x00 0xFF, Row 195 0x00 0xFF, Row 196 0x00 0xFF,
    Row 197 0x00 0xFF, Row 198 0x00 0xFF, Row 199 0x00 0xFF, Row 200 0x00 0xFF, Row 201 0x00 0xFF,
    Row 202 0x00 0xFF, Row 203 0x00 0x0F, Row 204 0x00 0xFF, Row 205 0x00 0xFF, Row 206 0x00 0xFF,
    Row 207 0x00 0xFF, Row 208 0x00 0xFF, Row 209 0x00 0xFF, Row 210 0x00 0xFF, Row 211 0x00 0xFF,
    Row 212 0x00 0xFF, Row 213 0x00 0xFF, Row 214 0x00 0xFF, Row 215 0x00 0xFF, Row 216 0x00 0xFF,
    Row 217 0x00 0xFF, Row 218 0x00 0xFF, Row 219 0x00 0xFF, Row 220 0x00 0xFF, Row 221 0x0D 0xFF,
    Row 222 0x00 0xFF, Row 223 0x00 0xFF, Row 224 0xF4 0xFF, Row 225 0xF0 0xFF, Row 226 0x00 0xFF,
    Row 227 0x00 0xFF, Row 228 0x00 0xFF, Row 229 0x00 0xFF, Row 231 0x00 0xFF, Row 232 0x00 0xFF,
    Row 233 0x00 0xFF, Row 234 0x00 0xFF, Row 235 0x00 0xFF, Row 236 0x00 0xFF, Row 237 0x00 0xFF,
    Row 238 0x14 0xFF, Row 239 0x00 0xFF, Row 240 0x00 0xFF, Row 242 0x00 0xFF, Row 243 0xF0 0xFF,
    Row 244 0x00 0xFF, Row 245 0x00 0xFF, Row 247 0x00 0xFF, Row 248 0x00 0xFF, Row 249 0xA8 0xFF,
    Row 250 0x00 0xFF, Row 251 0x84 0xFF, Row 246 0x02 0xFF, Row 246 0x00 0xFF]"

fun index_loop :: "nat \<Rightarrow> u8 \<Rightarrow> reg_data list \<Rightarrow> u8" where
  "index_loop i addr [] = - 1"
| "index_loop i addr (r # rs) =
     (if Reg_Addr r = addr then of_nat i else index_loop (Suc i) addr rs)"

definition getIndexByaddr :: "u8 \<Rightarrow> reg_data list \<Rightarrow> u8" where
  "getIndexByaddr addr st = index_loop 0 addr st"

text \<open>One assignment \<^verbatim>\<open>Reg_Store[getIndexByaddr(addr)].Reg_Val = ...\<close>.\<close>

definition put_reg :: "u8 \<Rightarrow> (u8 \<Rightarrow> u8) \<Rightarrow> reg_data list \<Rightarrow> reg_data list option" where
  "put_reg addr f st =
     (let i = unat (getIndexByaddr addr st) in
      if i < length st then Some (st[i := Reg_Val_update f (st ! i)]) else None)"

section \<open>The divider\<close>

definition calc_p1 :: "int \<Rightarrow> int \<Rightarrow> int \<Rightarrow> int option" where
  "calc_p1 a b c = do {
     ac \<leftarrow> cint (a * c);
     s \<leftarrow> cint (ac + b);
     t \<leftarrow> cint (s * 128);
     if c = 0 then None else cint (t sdiv c - 512)
   }"

definition calc_p2 :: "int \<Rightarrow> int \<Rightarrow> int \<Rightarrow> int option" where
  "calc_p2 a b c = do {
     t \<leftarrow> cint (b * 128);
     if c = 0 then None else Some (t smod c)
   }"

definition calc_p3 :: "int \<Rightarrow> int \<Rightarrow> int \<Rightarrow> int" where
  "calc_p3 a b c = c"

definition calc_msx_reg_p1 :: "int \<Rightarrow> reg_data list \<Rightarrow> reg_data list option" where
  "calc_msx_reg_p1 p1 st = do {
     st \<leftarrow> put_reg 86 (\<lambda>_. word_of_int (p1 AND 0xFF)) st;
     st \<leftarrow> put_reg 87 (\<lambda>_. word_of_int (drop_bit 8 p1 AND 0xFF)) st;
     put_reg 88 (\<lambda>_. word_of_int (drop_bit 16 p1 AND 0x03)) st
   }"

definition calc_msx_reg_p2 :: "int \<Rightarrow> reg_data list \<Rightarrow> reg_data list option" where
  "calc_msx_reg_p2 p2 st = do {
     st \<leftarrow> put_reg 88 (\<lambda>v. v OR word_of_int (push_bit 2 (p2 AND 0x3F))) st;
     st \<leftarrow> put_reg 89 (\<lambda>_. word_of_int (drop_bit 6 p2 AND 0xFF)) st;
     st \<leftarrow> put_reg 90 (\<lambda>_. word_of_int (drop_bit 14 p2 AND 0xFF)) st;
     put_reg 91 (\<lambda>_. word_of_int (drop_bit 22 p2 AND 0xFF)) st
   }"

definition calc_msx_reg_p3 :: "int \<Rightarrow> reg_data list \<Rightarrow> reg_data list option" where
  "calc_msx_reg_p3 p3 st = do {
     st \<leftarrow> put_reg 92 (\<lambda>_. word_of_int (p3 AND 0xFF)) st;
     st \<leftarrow> put_reg 93 (\<lambda>_. word_of_int (drop_bit 8 p3 AND 0xFF)) st;
     st \<leftarrow> put_reg 94 (\<lambda>_. word_of_int (drop_bit 16 p3 AND 0xFF)) st;
     put_reg 95 (\<lambda>_. word_of_int (drop_bit 24 p3 AND 0xFF)) st
   }"

section \<open>Programming the chip\<close>

text \<open>The writes of one pass over the table, register and byte; their results are ignored.\<close>

definition table_writes :: "reg_data list \<Rightarrow> (u8 \<times> u8) list" where
  "table_writes st = map (\<lambda>r. (Reg_Addr r, Reg_Val r)) st"

definition clock_5338_init :: "reg_data list \<Rightarrow> (u8 \<times> u8) list" where
  "clock_5338_init st = table_writes st"

definition msx_parts :: "int \<Rightarrow> (int \<times> int) option" where
  "msx_parts outFreq =
     (if outFreq = 0 then None
      else do {
        let msx = rnd (of_int (2430 * 1000) / of_int outFreq);
        msx_a \<leftarrow> to_int msx;
        let msx_p23 = rnd (msx - of_int msx_a);
        msx_b \<leftarrow> to_int (rnd (msx_p23 * 10000));
        Some (msx_a, msx_b)
      })"

definition clock_5338_setFreq ::
  "int \<Rightarrow> reg_data list \<Rightarrow> (reg_data list \<times> (u8 \<times> u8) list) option" where
  "clock_5338_setFreq outFreq st = do {
     (msx_a, msx_b) \<leftarrow> msx_parts outFreq;
     let msx_c = 10000;
     msx_p1 \<leftarrow> calc_p1 msx_a msx_b msx_c;
     msx_p2 \<leftarrow> calc_p2 msx_a msx_b msx_c;
     let msx_p3 = calc_p3 msx_a msx_b msx_c;
     st \<leftarrow> calc_msx_reg_p1 msx_p1 st;
     st \<leftarrow> calc_msx_reg_p2 msx_p2 st;
     st \<leftarrow> calc_msx_reg_p3 msx_p3 st;
     Some (st, table_writes st)
   }"

section \<open>The chip\<close>

type_synonym chip = "u8 \<Rightarrow> u8"

definition written :: "(u8 \<times> u8) list \<Rightarrow> chip \<Rightarrow> chip" where
  "written ws m = fold (\<lambda>(a, v) m. m(a := v)) ws m"

definition reg_P1 :: "chip \<Rightarrow> int" where
  "reg_P1 m = uint (m 86) + 256 * uint (m 87) + 65536 * (uint (m 88) mod 4)"

definition reg_P2 :: "chip \<Rightarrow> int" where
  "reg_P2 m = uint (m 88) div 4 + 64 * uint (m 89) + 16384 * uint (m 90) + 4194304 * uint (m 91)"

definition reg_P3 :: "chip \<Rightarrow> int" where
  "reg_P3 m = uint (m 92) + 256 * uint (m 93) + 65536 * uint (m 94) + 16777216 * uint (m 95)"

definition divider :: "chip \<Rightarrow> rat" where
  "divider m = (of_int (reg_P1 m) + of_int (reg_P2 m) / of_int (reg_P3 m) + 512) / 128"

text \<open>A table that differs from the initial one in the values only.\<close>

definition clk_table :: "reg_data list \<Rightarrow> bool" where
  "clk_table st \<longleftrightarrow> map Reg_Addr st = map Reg_Addr Reg_Store"

section \<open>The rows of the divider\<close>

definition divider_addrs :: "u8 list" where
  "divider_addrs = [86, 87, 88, 89, 90, 91, 92, 93, 94, 95]"

lemma divider_addrs_facts [simp]:
  "length divider_addrs = 10" "distinct divider_addrs"
  by (simp_all add: divider_addrs_def)

text \<open>
  The table as the rows before the divider's, those of the divider with the values \<open>vs\<close>, and the
  rows after them.
\<close>

definition split_table ::
  "reg_data list \<Rightarrow> u8 list \<Rightarrow> u8 list \<Rightarrow> reg_data list \<Rightarrow> reg_data list" where
  "split_table pre vs ms post = pre @ map (\<lambda>(a, v, m). Row a v m) (zip divider_addrs (zip vs ms)) @ post"

definition around :: "reg_data list \<Rightarrow> reg_data list \<Rightarrow> bool" where
  "around pre post \<longleftrightarrow> length pre = 59
     \<and> (\<forall>r\<in>set pre. Reg_Addr r \<notin> set divider_addrs)
     \<and> (\<forall>r\<in>set post. Reg_Addr r \<notin> set divider_addrs)"

lemma clk_table_split:
  assumes "clk_table st"
  obtains pre vs ms post where
    "st = split_table pre vs ms post" "around pre post" "length vs = 10" "length ms = 10"
proof -
  let ?pre = "take 59 st" and ?mid = "take 10 (drop 59 st)" and ?post = "drop 69 st"
  have len: "length st = 224"
  proof -
    have "length (map Reg_Addr st) = length (map Reg_Addr Reg_Store)"
      using assms by (simp only: clk_table_def)
    then show ?thesis by (simp add: Reg_Store_def)
  qed
  have t: "map Reg_Addr (take n st) = take n (map Reg_Addr Reg_Store)"
    "map Reg_Addr (drop n st) = drop n (map Reg_Addr Reg_Store)"
    "map Reg_Addr ?mid = take 10 (drop 59 (map Reg_Addr Reg_Store))" for n
    using assms by (simp_all only: clk_table_def take_map [symmetric] drop_map [symmetric])
  have avoid: "\<forall>x\<in>set (take 59 (map Reg_Addr Reg_Store)). x \<notin> set divider_addrs"
    "\<forall>x\<in>set (drop 69 (map Reg_Addr Reg_Store)). x \<notin> set divider_addrs"
    by code_simp+
  have "around ?pre ?post"
  proof -
    have "Reg_Addr r \<notin> set divider_addrs" if "r \<in> set ?pre" for r
      using avoid(1) that t(1) [of 59] by (metis image_eqI set_map)
    moreover have "Reg_Addr r \<notin> set divider_addrs" if "r \<in> set ?post" for r
      using avoid(2) that t(2) [of 69] by (metis image_eqI set_map)
    ultimately show ?thesis unfolding around_def using len by (intro conjI ballI) simp_all
  qed
  moreover have mid: "map Reg_Addr ?mid = divider_addrs"
    unfolding t(3) divider_addrs_def by (simp add: Reg_Store_def)
  have "?mid = map (\<lambda>(a, v, m). Row a v m)
      (zip (map Reg_Addr ?mid) (zip (map Reg_Val ?mid) (map Reg_Mask ?mid)))"
    by (rule nth_equalityI) simp_all
  moreover have "st = ?pre @ ?mid @ ?post"
    using append_take_drop_id [of 59 st] append_take_drop_id [of 10 "drop 59 st"] by simp
  ultimately show thesis
    using that [of ?pre "map Reg_Val ?mid" "map Reg_Mask ?mid" ?post] len
    unfolding split_table_def mid by simp
qed

lemma index_loop_nth:
  "j < length st \<Longrightarrow> Reg_Addr (st ! j) = a \<Longrightarrow> \<forall>i<j. Reg_Addr (st ! i) \<noteq> a
   \<Longrightarrow> index_loop n a st = of_nat (n + j)"
proof (induction st arbitrary: n j)
  case (Cons r st)
  show ?case
  proof (cases j)
    case 0
    with Cons show ?thesis by simp
  next
    case (Suc j')
    with Cons.prems have "Reg_Addr r \<noteq> a" "\<forall>i<j'. Reg_Addr (st ! i) \<noteq> a"
      by (auto dest: spec [of _ 0] spec [of _ "Suc _"])
    with Cons.IH [of j' "Suc n"] Cons.prems Suc show ?thesis by simp
  qed
qed simp

lemma split_table_nth:
  assumes "around pre post" and "k < 10" and "length vs = 10" and "length ms = 10"
  shows "split_table pre vs ms post ! (59 + k) = Row (divider_addrs ! k) (vs ! k) (ms ! k)"
    and "59 + k < length (split_table pre vs ms post)"
  using assms by (simp_all add: split_table_def around_def nth_append)

lemma split_table_update:
  assumes "around pre post" and "k < 10" and "length vs = 10" and "length ms = 10"
  shows "(split_table pre vs ms post)[59 + k := Row (divider_addrs ! k) x (ms ! k)]
       = split_table pre (vs[k := x]) ms post"
  using assms
  by (intro nth_equalityI) (auto simp: split_table_def around_def nth_append nth_list_update)

lemma put_reg_split:
  assumes "around pre post" and "k < 10" and "length vs = 10" and "length ms = 10"
  shows "put_reg (divider_addrs ! k) f (split_table pre vs ms post)
       = Some (split_table pre (vs[k := f (vs ! k)]) ms post)"
proof -
  let ?st = "split_table pre vs ms post"
  have "Reg_Addr (?st ! i) \<noteq> divider_addrs ! k" if "i < 59 + k" for i
  proof (cases "i < 59")
    case True
    with assms have "Reg_Addr (?st ! i) \<notin> set divider_addrs"
      by (simp add: split_table_def around_def nth_append)
    moreover have "divider_addrs ! k \<in> set divider_addrs"
      using assms(2) by simp
    ultimately show ?thesis by auto
  next
    case False
    then obtain j where "i = 59 + j" by (metis le_Suc_ex not_le)
    with that have j: "i = 59 + j" "j < k" by simp_all
    have "divider_addrs ! j \<noteq> divider_addrs ! k"
      using j assms(2) nth_eq_iff_index_eq [of divider_addrs j k] by simp
    with j assms show ?thesis by (simp add: split_table_nth(1))
  qed
  with assms have "getIndexByaddr (divider_addrs ! k) ?st = of_nat (59 + k)"
    unfolding getIndexByaddr_def
    by (subst index_loop_nth [of "59 + k"]) (simp_all add: split_table_nth)
  moreover have "unat (of_nat (59 + k) :: u8) = 59 + k"
    using assms(2) by (simp only: unat_of_nat) simp
  ultimately show ?thesis
    unfolding put_reg_def Let_def using assms
    by (simp add: split_table_nth split_table_update)
qed

section \<open>What the writes do\<close>

lemma written_simps [simp]:
  "written [] m = m"
  "written (w # ws) m = written ws (m(fst w := snd w))"
  "written (ws @ ws') m = written ws' (written ws m)"
  by (simp_all add: written_def case_prod_beta)

lemma written_other: "a \<notin> fst ` set ws \<Longrightarrow> written ws m a = m a"
  by (induction ws arbitrary: m) auto

lemma written_cong: "m a = m' a \<Longrightarrow> written ws m a = written ws m' a"
proof (induction ws arbitrary: m m')
  case (Cons w ws)
  show ?case unfolding written_simps(2) by (rule Cons.IH) (use Cons.prems in simp)
qed simp

lemma table_writes_split:
  assumes "length vs = 10" and "length ms = 10"
  shows "table_writes (split_table pre vs ms post)
       = table_writes pre @ zip divider_addrs vs @ table_writes post"
proof -
  have "map (\<lambda>r. (Reg_Addr r, Reg_Val r)) (map (\<lambda>(a, v, m). Row a v m) (zip as (zip vs ms)))
      = zip as vs" for as :: "u8 list"
    using assms by (intro nth_equalityI) auto
  then show ?thesis
    by (simp only: table_writes_def split_table_def map_append)
qed

lemma written_divider:
  assumes "around pre post" and "length ms = 10"
    and "vs = [v0, v1, v2, v3, v4, v5, v6, v7, v8, v9]"
  shows "map (written (table_writes (split_table pre vs ms post)) m) divider_addrs = vs"
proof -
  have "written (table_writes post) m' a = m' a" if "a \<in> set divider_addrs" for m' a
    using assms(1) that by (intro written_other) (auto simp: table_writes_def around_def)
  with assms(2,3) show ?thesis by (simp add: table_writes_split divider_addrs_def)
qed

lemma written_rest:
  assumes "a \<notin> set divider_addrs" and "length vs = 10" and "length vs' = 10" and "length ms = 10"
  shows "written (table_writes (split_table pre vs ms post)) m a
       = written (table_writes (split_table pre vs' ms post)) m a"
proof -
  have "fst ` set (zip divider_addrs xs) \<subseteq> set divider_addrs" for xs :: "u8 list"
    by (auto dest: set_zip_leftD)
  then have "written (zip divider_addrs xs) m' a = m' a" for xs :: "u8 list" and m'
    using assms(1) by (intro written_other) blast
  with assms(2-4) show ?thesis
    by (simp only: table_writes_split written_simps(3)) (rule written_cong, simp)
qed

section \<open>The registers hold the divider\<close>

lemma calc_msx_reg_p1_split:
  assumes "around pre post" and "length ms = 10" and "length vs = 10"
  shows "calc_msx_reg_p1 p (split_table pre vs ms post) = Some (split_table pre
      (vs[0 := word_of_int (p AND 0xFF), 1 := word_of_int (drop_bit 8 p AND 0xFF),
          2 := word_of_int (drop_bit 16 p AND 0x03)]) ms post)"
  using assms put_reg_split [OF assms(1), of 0] put_reg_split [OF assms(1), of 1]
    put_reg_split [OF assms(1), of 2]
  by (simp add: calc_msx_reg_p1_def divider_addrs_def)

lemma calc_msx_reg_p2_split:
  assumes "around pre post" and "length ms = 10" and "length vs = 10"
  shows "calc_msx_reg_p2 p (split_table pre vs ms post) = Some (split_table pre
      (vs[2 := vs ! 2 OR word_of_int (push_bit 2 (p AND 0x3F)),
          3 := word_of_int (drop_bit 6 p AND 0xFF), 4 := word_of_int (drop_bit 14 p AND 0xFF),
          5 := word_of_int (drop_bit 22 p AND 0xFF)]) ms post)"
  using assms put_reg_split [OF assms(1), of 2] put_reg_split [OF assms(1), of 3]
    put_reg_split [OF assms(1), of 4] put_reg_split [OF assms(1), of 5]
  by (simp add: calc_msx_reg_p2_def divider_addrs_def)

lemma calc_msx_reg_p3_split:
  assumes "around pre post" and "length ms = 10" and "length vs = 10"
  shows "calc_msx_reg_p3 p (split_table pre vs ms post) = Some (split_table pre
      (vs[6 := word_of_int (p AND 0xFF), 7 := word_of_int (drop_bit 8 p AND 0xFF),
          8 := word_of_int (drop_bit 16 p AND 0xFF), 9 := word_of_int (drop_bit 24 p AND 0xFF)])
      ms post)"
  using assms put_reg_split [OF assms(1), of 6] put_reg_split [OF assms(1), of 7]
    put_reg_split [OF assms(1), of 8] put_reg_split [OF assms(1), of 9]
  by (simp add: calc_msx_reg_p3_def divider_addrs_def)

lemma and_masks:
  "x AND 0x03 = x mod 4" "x AND 0x3F = x mod 64" "x AND 0xFF = x mod 256" for x :: int
  using take_bit_eq_mask [of 2 x] take_bit_eq_mask [of 6 x] take_bit_eq_mask [of 8 x]
  by (simp_all add: mask_eq_exp_minus_1 take_bit_eq_mod)

lemma uint_byte: "uint (word_of_int (x AND 0xFF) :: u8) = x mod 256"
  using and_masks(3) [of x] by (simp add: uint_word_of_int)

lemma uint_shared:
  assumes "0 \<le> p" "p < 2 ^ 18"
  shows "uint (word_of_int (drop_bit 16 p AND 0x03) OR word_of_int (push_bit 2 (q AND 0x3F)) :: u8)
       = p div 65536 + 4 * (q mod 64)"
proof -
  have m: "drop_bit 16 p AND 0x03 = take_bit 2 (p div 65536)" "q AND 0x3F = q mod 64"
    by (simp_all add: and_masks drop_bit_eq_div take_bit_eq_mod)
  have "take_bit 2 (p div 65536) OR push_bit 2 (q mod 64) = take_bit 2 (p div 65536) + push_bit 2 (q mod 64)"
    by (simp add: concat_bit_def [symmetric] concat_bit_eq)
  also have "\<dots> = p div 65536 + 4 * (q mod 64)"
    using assms by (simp add: take_bit_eq_mod push_bit_eq_mult)
  finally have "word_of_int (drop_bit 16 p AND 0x03) OR word_of_int (push_bit 2 (q AND 0x3F))
      = (word_of_int (p div 65536 + 4 * (q mod 64)) :: u8)"
    by (simp only: m word_wi_log_defs(3)) 
  moreover have "0 \<le> p div 65536 + 4 * (q mod 64)" "p div 65536 + 4 * (q mod 64) < 256"
    using assms pos_mod_bound [of 64 q] by (auto intro: add_nonneg_nonneg simp: pos_imp_zdiv_nonneg_iff)
  ultimately show ?thesis by (simp only: uint_word_of_int) simp
qed

text \<open>Cutting a number into digits, the lowest first.\<close>

lemma digit: "0 < k \<Longrightarrow> n * (p div n mod k) + (n * k) * (p div (n * k)) = n * (p div n)"
  for p n k :: int
proof -
  assume "0 < k"
  then have "p div (n * k) = p div n div k" by (simp add: zdiv_zmult2_eq)
  then show ?thesis
    by (simp only: mult.assoc distrib_left [symmetric]) (simp add: mult_div_mod_eq)
qed

lemma digits [simplified]:
  "256 * (p div 256 mod 256) + (256 * 256) * (p div (256 * 256)) = 256 * (p div 256)"
  "65536 * (p div 65536 mod 256) + (65536 * 256) * (p div (65536 * 256)) = 65536 * (p div 65536)"
  "64 * (p div 64 mod 256) + (64 * 256) * (p div (64 * 256)) = 64 * (p div 64)"
  "16384 * (p div 16384 mod 256) + (16384 * 256) * (p div (16384 * 256)) = 16384 * (p div 16384)"
  for p :: int
  by (rule digit, simp)+

lemma digit_top: "0 \<le> p \<Longrightarrow> p < n * k \<Longrightarrow> 0 < n \<Longrightarrow> p div n mod k = p div n" for p n k :: int
proof (rule mod_pos_pos_trivial)
  assume "0 \<le> p" "p < n * k" "0 < n"
  then show "p div n < k"
    by (metis div_mult_self1_is_m mult.commute mult_less_cancel_left_pos nonzero_mult_div_cancel_left
      order_le_less_trans pos_mod_sign div_mult_mod_eq le_add_same_cancel1)
qed (simp add: pos_imp_zdiv_nonneg_iff)

lemma divider_registers:
  assumes "around pre post" and "length ms = 10"
    and "vs = [word_of_int (p1 AND 0xFF), word_of_int (drop_bit 8 p1 AND 0xFF),
      word_of_int (drop_bit 16 p1 AND 0x03) OR word_of_int (push_bit 2 (p2 AND 0x3F)),
      word_of_int (drop_bit 6 p2 AND 0xFF), word_of_int (drop_bit 14 p2 AND 0xFF),
      word_of_int (drop_bit 22 p2 AND 0xFF), word_of_int (p3 AND 0xFF),
      word_of_int (drop_bit 8 p3 AND 0xFF), word_of_int (drop_bit 16 p3 AND 0xFF),
      word_of_int (drop_bit 24 p3 AND 0xFF)]"
    and "0 \<le> p1" "p1 < 2 ^ 18" "0 \<le> p2" "p2 < 2 ^ 30" "0 \<le> p3" "p3 < 2 ^ 30"
    and m': "m' = written (table_writes (split_table pre vs ms post)) m"
  shows "reg_P1 m' = p1" and "reg_P2 m' = p2" and "reg_P3 m' = p3"
proof -
  have vs: "map m' divider_addrs = vs"
    unfolding m' by (rule written_divider [OF assms(1,2,3)])
  have v: "uint (m' 86) = p1 mod 256" "uint (m' 87) = p1 div 256 mod 256"
    "uint (m' 88) = p1 div 65536 + 4 * (p2 mod 64)"
    "uint (m' 89) = p2 div 64 mod 256" "uint (m' 90) = p2 div 16384 mod 256"
    "uint (m' 91) = p2 div 4194304 mod 256" "uint (m' 92) = p3 mod 256"
    "uint (m' 93) = p3 div 256 mod 256" "uint (m' 94) = p3 div 65536 mod 256"
    "uint (m' 95) = p3 div 16777216 mod 256"
    using vs uint_shared [OF assms(4,5), of p2]
    by (simp_all only: assms(3) divider_addrs_def list.map list.inject uint_byte drop_bit_eq_div)
      simp_all
  have x: "0 \<le> p1 div 65536" "p1 div 65536 < 4" "p1 div 65536 mod 4 = p1 div 65536"
    using digit_top [of p1 65536 4] assms(4,5) pos_mod_bound [of 4 "p1 div 65536"]
      pos_mod_sign [of 4 "p1 div 65536"] by simp_all
  then have shared: "(p1 div 65536 + 4 * (p2 mod 64)) mod 4 = p1 div 65536"
    "(p1 div 65536 + 4 * (p2 mod 64)) div 4 = p2 mod 64"
    by simp_all
  have low: "256 * (p1 div 256) + p1 mod 256 = p1" "64 * (p2 div 64) + p2 mod 64 = p2"
    "256 * (p3 div 256) + p3 mod 256 = p3"
    by (rule mult_div_mod_eq)+
  have top: "p2 div 4194304 mod 256 = p2 div 4194304" "p3 div 16777216 mod 256 = p3 div 16777216"
    using digit_top [of p2 4194304 256] digit_top [of p3 16777216 256] assms(6-9) by simp_all
  show "reg_P1 m' = p1"
    unfolding reg_P1_def v shared using low(1) digits(1) [of p1] by linarith
  show "reg_P2 m' = p2"
    unfolding reg_P2_def v shared top using low(2) digits(3,4) [of p2] by linarith
  show "reg_P3 m' = p3"
    unfolding reg_P3_def v top using low(3) digits(1,2) [of p3] by linarith
qed

section \<open>The divider of a frequency\<close>

lemma msx_parts_close:
  assumes "1 \<le> f"
  obtains a b where "msx_parts f = Some (a, b)" "0 \<le> a" "0 \<le> b" "b \<le> 10001"
    "\<bar>of_int (a * 10000 + b) - 24300000000 / of_int f\<bar> \<le> (1001 / 1000 :: rat)"
proof -
  define x :: rat where "x = 2430000 / of_int f"
  define q where "q = rnd x"
  define a where "a = \<lfloor>q\<rfloor>"
  define d where "d = rnd (q - of_int a)"
  define p where "p = rnd (d * 10000)"
  define b where "b = \<lfloor>p\<rfloor>"
  have x: "0 \<le> x" "x \<le> 2430000"
    using assms by (simp_all add: x_def divide_le_eq)
  have q: "0 \<le> q" "\<bar>q - x\<bar> \<le> 1 / 1000000000"
    using rnd_nonneg [OF x(1)] rnd_error [OF x(1)] x by (simp_all add: q_def)
  have "q < of_int a + 1" unfolding a_def by linarith
  then have a: "0 \<le> a" "of_int a \<le> q" "q < of_int a + 1"
    using q by (simp_all add: a_def)
  have d: "0 \<le> d" "\<bar>d - (q - of_int a)\<bar> \<le> 1 / 1000000000"
    using rnd_nonneg [of "q - of_int a"] rnd_error [of "q - of_int a"] a by (simp_all add: d_def)
  have p: "0 \<le> p" "\<bar>p - d * 10000\<bar> \<le> 1 / 1000000000"
  proof -
    have "d \<le> (q - of_int a) + 1 / 1000000000" using d(2) by linarith
    then have "d \<le> 2" using a by simp
    then have "d * 10000 / 2 ^ 53 \<le> 1 / 1000000000" by simp
    then show "0 \<le> p" "\<bar>p - d * 10000\<bar> \<le> 1 / 1000000000"
      unfolding p_def using rnd_nonneg [of "d * 10000"] rnd_error [of "d * 10000"] d
      by (simp, linarith)
  qed
  have "p < of_int b + 1" unfolding b_def by linarith
  then have b: "0 \<le> b" "of_int b \<le> p" "p < of_int b + 1"
    using p by (simp_all add: b_def)
  have "q \<le> x + 1 / 1000000000" using q(2) by linarith
  also have "\<dots> \<le> 2430001" using x(2) by simp
  finally have "(of_int a :: rat) < 2147483648" using a(2) by linarith
  then have "to_int q = Some a"
    using q a by (simp add: to_int_def a_def [symmetric] cint_Some)
  have "p \<le> d * 10000 + 1 / 1000000000" "d \<le> (q - of_int a) + 1 / 1000000000"
    using p(2) d(2) by linarith+
  then have "p \<le> 10001" using a(3) by simp
  then have "(of_int b :: rat) \<le> 10001" using b(2) by linarith
  then have "b \<le> 10001" by simp
  then have "to_int p = Some b"
    using p b by (simp add: to_int_def b_def [symmetric] cint_Some)
  have "msx_parts f = Some (a, b)"
    using assms \<open>to_int q = Some a\<close> \<open>to_int p = Some b\<close>
    by (simp add: msx_parts_def Let_def x_def q_def d_def p_def)
  moreover have "\<bar>of_int (a * 10000 + b) - 24300000000 / of_int f\<bar> \<le> (1001 / 1000 :: rat)"
  proof -
    have "24300000000 / of_int f = 10000 * x" by (simp add: x_def)
    then show ?thesis
      using q(2) d(2) p(2) b(2,3) by (simp only: of_int_add of_int_mult of_int_numeral)
  qed
  ultimately show thesis using that a b \<open>b \<le> 10001\<close> by blast
qed

lemma calc_parts:
  assumes "0 \<le> a" "0 \<le> b" "b \<le> 10001" "4 * 10000 + 100 \<le> a * 10000 + b" "a * 10000 + b < 16777216"
  obtains p1 p2 where "calc_p1 a b 10000 = Some p1" "calc_p2 a b 10000 = Some p2"
    "0 \<le> p1" "p1 < 2 ^ 18" "0 \<le> p2" "p2 < 2 ^ 30"
    "(of_int p1 + of_int p2 / 10000 + 512) / 128 = (of_int (a * 10000 + b) / 10000 :: rat)"
proof -
  define X where "X = a * 10000 + b"
  have X: "0 \<le> X" "X < 16777216" "40100 \<le> X" using assms by (simp_all add: X_def)
  then have "X * 128 div 10000 < 214750" "513 \<le> X * 128 div 10000" by linarith+
  then have "calc_p1 a b 10000 = Some (X * 128 div 10000 - 512)"
  proof -
    have "cint (a * 10000) = Some (a * 10000)" "cint X = Some X" "cint (X * 128) = Some (X * 128)"
      "cint (X * 128 div 10000 - 512) = Some (X * 128 div 10000 - 512)"
      using assms X \<open>X * 128 div 10000 < 214750\<close> \<open>513 \<le> X * 128 div 10000\<close>
      by (simp_all add: cint_Some X_def)
    moreover have "X * 128 sdiv 10000 = X * 128 div 10000"
      using X by (intro sdiv_div) simp_all
    ultimately show ?thesis
      by (simp only: calc_p1_def X_def [symmetric] Option.bind.bind_lunit) simp
  qed
  moreover have "calc_p2 a b 10000 = Some (b * 128 mod 10000)"
    using assms by (simp add: calc_p2_def cint_Some smod_mod)
  moreover have "b * 128 mod 10000 = X * 128 mod 10000"
  proof -
    have "X * 128 = b * 128 + a * 128 * 10000" by (simp add: X_def)
    then show ?thesis by (simp only: mod_mult_self1)
  qed
  moreover have "(of_int (X * 128 div 10000) :: rat) + of_int (X * 128 mod 10000) / 10000
      = of_int (X * 128) / 10000"
  proof -
    have "(of_int (X * 128) :: rat) = of_int (10000 * (X * 128 div 10000) + X * 128 mod 10000)"
      by (simp only: mult_div_mod_eq)
    then show ?thesis by simp
  qed
  moreover define P Q where "P = X * 128 div 10000" and "Q = X * 128 mod 10000"
  moreover have "0 \<le> Q" "Q < 10000" by (simp_all add: Q_def)
  moreover have "513 \<le> P" "P < 214750"
    using \<open>X * 128 div 10000 < 214750\<close> \<open>513 \<le> X * 128 div 10000\<close> by (simp_all only: P_def)
  moreover have "(of_int P + of_int Q / 10000 :: rat) = of_int (X * 128) / 10000"
    if "(of_int (X * 128 div 10000) :: rat) + of_int (X * 128 mod 10000) / 10000
      = of_int (X * 128) / 10000"
    using that by (simp only: P_def Q_def)
  ultimately show thesis
    by (intro that [of "P - 512" Q]) (simp_all only: X_def [symmetric], simp_all)
qed

lemma clk_table_split_table:
  assumes "around pre post" "length vs = 10" "length ms = 10" "length vs' = 10"
  shows "clk_table (split_table pre vs ms post) \<longleftrightarrow> clk_table (split_table pre vs' ms post)"
proof -
  have "map Reg_Addr (map (\<lambda>(a, v, m). Row a v m) (zip as (zip vs ms)))
      = map Reg_Addr (map (\<lambda>(a, v, m). Row a v m) (zip as (zip vs' ms)))" for as
    using assms by (intro nth_equalityI) auto
  then show ?thesis by (simp only: clk_table_def split_table_def map_append)
qed

lemma ten_values:
  assumes "length vs = 10"
  obtains v0 v1 v2 v3 v4 v5 v6 v7 v8 v9 where "vs = [v0, v1, v2, v3, v4, v5, v6, v7, v8, v9]"
proof -
  have "vs = map (\<lambda>i. vs ! i) [0..<10]"
    using map_nth [of vs, symmetric] unfolding assms .
  also have "[0..<10] = [0, 1, 2, 3, 4, 5, 6, 7, 8, 9]" by code_simp
  finally have "vs = [vs ! 0, vs ! 1, vs ! 2, vs ! 3, vs ! 4, vs ! 5, vs ! 6, vs ! 7, vs ! 8, vs ! 9]"
    by (simp only: list.map)
  then show thesis by (rule that)
qed

text \<open>
  C25: for every dot clock from 1449 kHz to 600 MHz, and whatever frequency was set before, setting
  the clock ends, keeps the table well-formed, and its writes leave the chip with a divider that is
  within 1/9990 of 2430 MHz over the frequency: the shared register 88 holds the ends of both
  numbers, and no bit of the previous setting survives. The registers of the chip outside 86 to 95
  get what the initialisation writes to them.
\<close>

theorem clock_divider_set:
  assumes "1449 \<le> f" and "f \<le> 600000" and "clk_table st"
  shows "\<exists>st' ws. clock_5338_setFreq f st = Some (st', ws) \<and> clk_table st'
       \<and> \<bar>divider (written ws m) - 2430000 / of_int f\<bar> \<le> 1 / 9990
       \<and> (\<forall>a. a \<notin> {86, 87, 88, 89, 90, 91, 92, 93, 94, 95} \<longrightarrow>
            written ws m a = written (clock_5338_init st) m a)"
proof -
  obtain pre vs ms post where st: "st = split_table pre vs ms post" "around pre post"
    "length vs = 10" "length ms = 10"
    using clk_table_split [OF assms(3)] .
  obtain a b where ab: "msx_parts f = Some (a, b)" "0 \<le> a" "0 \<le> b" "b \<le> 10001"
    "\<bar>of_int (a * 10000 + b) - 24300000000 / of_int f\<bar> \<le> (1001 / 1000 :: rat)"
    using msx_parts_close [of f] assms(1) by auto
  define X where "X = a * 10000 + b"
  have F: "24300000000 / of_int f \<le> (16770186 + 7 / 10 :: rat)" "(40500 :: rat) \<le> 24300000000 / of_int f"
    using assms by (simp_all add: field_simps)
  have "(40100 :: rat) \<le> of_int X" "of_int X < (16777216 :: rat)"
    using ab(5) F by (simp_all only: X_def [symmetric] abs_le_iff) linarith+
  then have X: "4 * 10000 + 100 \<le> a * 10000 + b" "a * 10000 + b < 16777216"
    by (simp_all add: X_def [symmetric])
  obtain p1 p2 where p: "calc_p1 a b 10000 = Some p1" "calc_p2 a b 10000 = Some p2"
    "0 \<le> p1" "p1 < 2 ^ 18" "0 \<le> p2" "p2 < 2 ^ 30"
    "(of_int p1 + of_int p2 / 10000 + 512) / 128 = (of_int (a * 10000 + b) / 10000 :: rat)"
    using calc_parts [OF ab(2-4) X] by blast
  define vs' :: "u8 list" where
    "vs' = [word_of_int (p1 AND 0xFF), word_of_int (drop_bit 8 p1 AND 0xFF),
      word_of_int (drop_bit 16 p1 AND 0x03) OR word_of_int (push_bit 2 (p2 AND 0x3F)),
      word_of_int (drop_bit 6 p2 AND 0xFF), word_of_int (drop_bit 14 p2 AND 0xFF),
      word_of_int (drop_bit 22 p2 AND 0xFF), word_of_int (10000 AND 0xFF),
      word_of_int (drop_bit 8 10000 AND 0xFF), word_of_int (drop_bit 16 10000 AND 0xFF),
      word_of_int (drop_bit 24 10000 AND 0xFF)]"
  define st' where "st' = split_table pre vs' ms post"
  have len: "length vs' = 10" by (simp add: vs'_def)
  have run: "clock_5338_setFreq f st = Some (st', table_writes st')"
  proof -
    obtain v0 v1 v2 v3 v4 v5 v6 v7 v8 v9 where vs: "vs = [v0, v1, v2, v3, v4, v5, v6, v7, v8, v9]"
      using ten_values [OF st(3)] .
    show ?thesis
      by (simp add: clock_5338_setFreq_def ab(1) p(1,2) calc_p3_def Let_def st(1,2,4) vs
          calc_msx_reg_p1_split calc_msx_reg_p2_split calc_msx_reg_p3_split st'_def vs'_def
          del: drop_bit_numeral_bit0)
  qed
  have "reg_P1 (written (table_writes st') m) = p1" "reg_P2 (written (table_writes st') m) = p2"
    "reg_P3 (written (table_writes st') m) = 10000"
    unfolding st'_def
    by (rule divider_registers [OF st(2,4) vs'_def p(3-6) _ _ refl]; simp)+
  then have "divider (written (table_writes st') m) = of_int X / 10000"
    using p(7) by (simp add: divider_def X_def)
  then have "\<bar>divider (written (table_writes st') m) - 2430000 / of_int f\<bar> \<le> 1 / 9990"
  proof -
    define z :: rat where "z = 24300000000 / of_int f"
    have "2430000 / of_int f = z / 10000" by (simp add: z_def)
    moreover have "\<bar>of_int X - z\<bar> \<le> 1001 / 1000" using ab(5) by (simp only: X_def z_def)
    ultimately show ?thesis
      using \<open>divider (written (table_writes st') m) = of_int X / 10000\<close> by linarith
  qed
  moreover have "clk_table st'"
    using assms(3) st len unfolding st'_def by (simp only: clk_table_split_table [of pre post vs ms vs'])
  moreover have "written (table_writes st') m a = written (clock_5338_init st) m a"
    if "a \<notin> {86, 87, 88, 89, 90, 91, 92, 93, 94, 95}" for a
    unfolding st'_def st(1) clock_5338_init_def using that st(3,4) len
    by (intro written_rest) (simp_all add: divider_addrs_def)
  ultimately show ?thesis using run by blast
qed

theorem clock_divider_set_witness:
  "\<exists>st' ws. clock_5338_setFreq 148500 Reg_Store = Some (st', ws) \<and> clk_table st'
       \<and> \<bar>divider (written ws (\<lambda>_. 0)) - 2430000 / of_int 148500\<bar> \<le> 1 / 9990"
proof -
  have "clk_table Reg_Store" by (simp add: clk_table_def)
  moreover have "(1449 :: int) \<le> 148500" "(148500 :: int) \<le> 600000" by simp_all
  ultimately show ?thesis
    using clock_divider_set [of 148500 Reg_Store "\<lambda>_. 0"] by blast
qed

lemma calc_p1_None:
  assumes "cint ((a * c + b) * 128) = None"
  shows "calc_p1 a b c = None"
proof (rule ccontr)
  assume "calc_p1 a b c \<noteq> None"
  then obtain ac s t where "cint (a * c) = Some ac" "cint (ac + b) = Some s" "cint (s * 128) = Some t"
    by (auto simp: calc_p1_def bind_eq_Some_conv)
  with assms show False by (metis cint_SomeD option.distinct(1))
qed

text \<open>
  Below 1449 kHz the computation leaves \<^verbatim>\<open>int\<close>, and a frequency of 0, which \<^verbatim>\<open>clipg.c\<close> passes
  when a timing is empty, has no divider.
\<close>

theorem clock_overflow:
  assumes "0 \<le> f" and "f \<le> 1448"
  shows "clock_5338_setFreq f st = None"
proof (cases "f = 0")
  case False
  then have "1 \<le> f" using assms by simp
  obtain a b where ab: "msx_parts f = Some (a, b)" "0 \<le> a" "0 \<le> b" "b \<le> 10001"
    "\<bar>of_int (a * 10000 + b) - 24300000000 / of_int f\<bar> \<le> (1001 / 1000 :: rat)"
    using msx_parts_close [OF \<open>1 \<le> f\<close>] .
  have "(16781767 :: rat) \<le> 24300000000 / of_int f"
    using assms \<open>1 \<le> f\<close> by (simp add: field_simps)
  then have "(of_int 16777216 :: rat) \<le> of_int (a * 10000 + b)"
    unfolding of_int_numeral using ab(5) by linarith
  then have "16777216 \<le> a * 10000 + b"
    by (simp only: of_int_le_iff)
  then have "cint ((a * 10000 + b) * 128) = None"
    by (intro cint_None) simp
  then have "calc_p1 a b 10000 = None"
    by (rule calc_p1_None)
  with ab(1) show ?thesis by (simp add: clock_5338_setFreq_def)
qed (simp add: clock_5338_setFreq_def msx_parts_def)

end
