(* ===== verification/CText.thy ===== *)
theory CText
  imports Main
begin

text \<open>
  The texts of C and the functions of its library that read numbers from them, for the components
  that parse answers, configuration values and database cells. A text is the list of its
  characters before the terminator.
\<close>

definition NUL :: char where "NUL = CHR 0x00"

text \<open>The text in a buffer up to its terminator, which has to be there.\<close>

definition c_text :: "string \<Rightarrow> string option" where
  "c_text buf = (if NUL \<in> set buf then Some (takeWhile (\<lambda>c. c \<noteq> NUL) buf) else None)"

text \<open>
  What \<^verbatim>\<open>sscanf\<close> does with a text up to its end: literal characters, white space, and a decimal
  number with an optional sign. \<open>None\<close> is a mismatch, which ends the conversion.
\<close>

definition white :: "char \<Rightarrow> bool" where
  "white c \<longleftrightarrow> c \<in> {CHR '' '', CHR 0x09, CHR 0x0A, CHR 0x0B, CHR 0x0C, CHR 0x0D}"

definition digit :: "char \<Rightarrow> bool" where
  "digit c \<longleftrightarrow> 48 \<le> (of_char c :: nat) \<and> (of_char c :: nat) \<le> 57"

definition skip_white :: "string \<Rightarrow> string" where
  "skip_white t = dropWhile white t"

fun scan_lit :: "string \<Rightarrow> string \<Rightarrow> string option" where
  "scan_lit [] t = Some t"
| "scan_lit (c # cs) (d # t) = (if c = d then scan_lit cs t else None)"
| "scan_lit (c # cs) [] = None"

definition scan_d :: "string \<Rightarrow> (int \<times> string) option" where
  "scan_d t =
     (let t = skip_white t;
          (neg, t) = (case t of CHR ''-'' # u \<Rightarrow> (True, u) | CHR ''+'' # u \<Rightarrow> (False, u) | _ \<Rightarrow> (False, t));
          ds = takeWhile digit t;
          n = foldl (\<lambda>n c. 10 * n + (of_char c - 48)) 0 ds in
      if ds = [] then None else Some (if neg then - n else n, dropWhile digit t))"

section \<open>Numbers in any base\<close>

text \<open>The value of a digit, in the bases up to sixteen.\<close>

definition digit_val :: "char \<Rightarrow> nat option" where
  "digit_val c =
     (let n = of_char c :: nat in
      if 48 \<le> n \<and> n \<le> 57 then Some (n - 48)
      else if 97 \<le> n \<and> n \<le> 102 then Some (n - 87)
      else if 65 \<le> n \<and> n \<le> 70 then Some (n - 55) else None)"

definition in_base :: "nat \<Rightarrow> char \<Rightarrow> bool" where
  "in_base b c \<longleftrightarrow> (case digit_val c of None \<Rightarrow> False | Some v \<Rightarrow> v < b)"

definition digits_value :: "nat \<Rightarrow> string \<Rightarrow> int" where
  "digits_value b t = foldl (\<lambda>n c. int b * n + int (the (digit_val c))) 0 (takeWhile (in_base b) t)"

text \<open>
  \<^verbatim>\<open>strtol(t, 0, 0)\<close> with a \<^verbatim>\<open>long\<close> of 32 bits: the prefix chooses the base, and a value outside
  the type is the nearest one inside.
\<close>

definition strtol0 :: "string \<Rightarrow> int" where
  "strtol0 t =
     (let t = skip_white t;
          (neg, t) = (case t of CHR ''-'' # u \<Rightarrow> (True, u) | CHR ''+'' # u \<Rightarrow> (False, u) | _ \<Rightarrow> (False, t));
          n = (case t of
                 CHR ''0'' # CHR ''x'' # c # u \<Rightarrow>
                   if in_base 16 c then digits_value 16 (c # u) else 0
               | CHR ''0'' # CHR ''X'' # c # u \<Rightarrow>
                   if in_base 16 c then digits_value 16 (c # u) else 0
               | CHR ''0'' # u \<Rightarrow> digits_value 8 u
               | _ \<Rightarrow> digits_value 10 t);
          v = (if neg then - n else n) in
      max (- (2 ^ 31)) (min (2 ^ 31 - 1) v))"

end
