(* ===== verification/Ca210.thy ===== *)
theory Ca210
  imports UartPort CDouble CText
begin

text \<open>
  The driver of the colour analysers, \<^verbatim>\<open>hw/lcd/ca310.c\<close> as the Makefile configures it
  (\<^verbatim>\<open>USE_Z_CA210_LIB\<close>): a table of two probes, the exchange of text commands with one of them over
  its line, and the switching of its measuring mode. The kernel is an environment that answers the
  calls in order and records them: \<open>opens\<close> are the descriptors the next calls of \<^verbatim>\<open>open\<close> return,
  \<open>reads\<close> what the next calls of \<^verbatim>\<open>select\<close> and \<^verbatim>\<open>read\<close> deliver, bytes or a result that is not
  positive, and nothing more means that no byte arrives in time.
\<close>

section \<open>Environment\<close>

datatype dev_event =
    Opened string
  | Closed int
  | Sent int string

record kernel =
  opens :: "int list"
  reads :: "(int + string) list"
  getst :: int
  setst :: int
  tty :: "int \<Rightarrow> termios"
  trace :: "dev_event list"

definition uart_open :: "string \<Rightarrow> kernel \<Rightarrow> int \<times> kernel" where
  "uart_open p_dev_name k =
     (let k' = k\<lparr>opens := tl (opens k), trace := trace k @ [Opened p_dev_name]\<rparr> in
      case opens k of [] \<Rightarrow> (-1, k') | fd # _ \<Rightarrow> (fd, k'))"

definition uart_close :: "int \<Rightarrow> kernel \<Rightarrow> kernel" where
  "uart_close uart_fd k = k\<lparr>trace := trace k @ [Closed uart_fd]\<rparr>"

text \<open>The same procedures as in the serial ports, on the line of a descriptor.\<close>

definition uart_set_parity :: "int \<Rightarrow> int \<Rightarrow> int \<Rightarrow> char \<Rightarrow> kernel \<Rightarrow> int \<times> kernel" where
  "uart_set_parity uart_fd databits stopbits parity k =
     (let (ret, dev) = uartSetParity (getst k) (setst k) databits stopbits parity (tty k uart_fd) in
      (ret, k\<lparr>tty := (tty k)(uart_fd := dev)\<rparr>))"

fun speed_scan :: "int \<Rightarrow> int \<Rightarrow> (int \<times> nat) list \<Rightarrow> termios \<Rightarrow> int \<times> termios" where
  "speed_scan status speed [] dev = (0, dev)"
| "speed_scan status speed ((name, code) # rest) dev =
     (if speed = name then
        if status \<noteq> 0 then (-1, dev) else (0, dev\<lparr>c_ispeed := code, c_ospeed := code\<rparr>)
      else speed_scan status speed rest dev)"

definition uart_set_speed :: "int \<Rightarrow> int \<Rightarrow> kernel \<Rightarrow> int \<times> kernel" where
  "uart_set_speed uart_fd speed k =
     (let (ret, dev) = speed_scan (setst k) speed (zip gsname_arr gsspeed_arr) (tty k uart_fd) in
      (ret, k\<lparr>tty := (tty k)(uart_fd := dev)\<rparr>))"

text \<open>Nothing in the driver depends on the number of bytes written.\<close>

definition uart_write :: "int \<Rightarrow> string \<Rightarrow> kernel \<Rightarrow> kernel" where
  "uart_write uart_fd p_data k = k\<lparr>trace := trace k @ [Sent uart_fd p_data]\<rparr>"

section \<open>Reading an answer\<close>

text \<open>
  \<^verbatim>\<open>uart_read_end\<close>: reads are appended to a buffer of 1024 bytes until the last byte is a carriage
  return or nothing arrives, then copied to the front of the caller's buffer, which is not cleared.
  Selecting on a negative descriptor is undefined.
\<close>

fun read_end_loop :: "string \<Rightarrow> (int + string) list \<Rightarrow> (string \<times> (int + string) list) option" where
  "read_end_loop buf [] = Some (buf, [])"
| "read_end_loop buf (Inl r # rs) = Some (buf, rs)"
| "read_end_loop buf (Inr c # rs) =
     (if c = [] then Some (buf, rs)
      else let buf = buf @ take 2048 c in
        if length buf > 1024 then None
        else if last buf = CHR 0x0D then Some (buf, rs)
        else read_end_loop buf rs)"

definition uart_read_end :: "int \<Rightarrow> string \<Rightarrow> kernel \<Rightarrow> (int \<times> string \<times> kernel) option" where
  "uart_read_end uart_fd p_read_buf k =
     (if uart_fd < 0 then None
      else do {
        (buf, rs) \<leftarrow> read_end_loop [] (reads k);
        p_read_buf \<leftarrow> mem_write 0 buf p_read_buf;
        Some (int (length buf), p_read_buf, k\<lparr>reads := rs\<rparr>)
      })"

definition zeros :: "nat \<Rightarrow> string" where
  "zeros n = replicate n NUL"

definition strncmp0 :: "string \<Rightarrow> string \<Rightarrow> bool" where
  "strncmp0 key buf \<longleftrightarrow> take (length key) buf = key"

section \<open>The table of probes\<close>

definition E_CA210_WORK_MODE_IDLE :: int where "E_CA210_WORK_MODE_IDLE = 0"
definition E_CA210_WORK_MODE_XYLV :: int where "E_CA210_WORK_MODE_XYLV = 1"
definition E_CA210_WORK_MODE_FLICK :: int where "E_CA210_WORK_MODE_FLICK = 2"

definition PROBE_STATU_OK :: int where "PROBE_STATU_OK = 0"
definition PROBE_STATU_TIMEOUT :: int where "PROBE_STATU_TIMEOUT = -100"
definition PROBE_STATU_OTHER_ERROR :: int where "PROBE_STATU_OTHER_ERROR = -200"
definition PROBE_STATU_COMMAND_ERROR :: int where "PROBE_STATU_COMMAND_ERROR = -10"
definition PROBE_STATU_OUT_RANGE :: int where "PROBE_STATU_OUT_RANGE = -50"
definition PROBE_STATU_LOW_LUMI :: int where "PROBE_STATU_LOW_LUMI = -52"

lemmas ca210_codes = E_CA210_WORK_MODE_IDLE_def E_CA210_WORK_MODE_XYLV_def
  E_CA210_WORK_MODE_FLICK_def PROBE_STATU_OK_def PROBE_STATU_TIMEOUT_def
  PROBE_STATU_OTHER_ERROR_def PROBE_STATU_COMMAND_ERROR_def PROBE_STATU_OUT_RANGE_def
  PROBE_STATU_LOW_LUMI_def

definition MAX_LCD_PROBE_NUMS :: int where "MAX_LCD_PROBE_NUMS = 2"

record probe =
  lcd_channel :: int
  uart_fd :: int
  dev_name :: string
  work_mode :: int

definition probe_zero :: probe where
  "probe_zero = \<lparr>lcd_channel = 0, uart_fd = 0, dev_name = [], work_mode = 0\<rparr>"

record ca210 =
  probes :: "probe list"
  kern :: kernel

definition s_ca210_probe :: "probe list" where
  "s_ca210_probe = replicate (nat MAX_LCD_PROBE_NUMS) probe_zero"

text \<open>The check of the channel, and the access to the table, which it does not protect.\<close>

definition bad_channel :: "int \<Rightarrow> bool" where
  "bad_channel ch \<longleftrightarrow> ch < 0 \<or> MAX_LCD_PROBE_NUMS < ch"

definition probe_at :: "int \<Rightarrow> ca210 \<Rightarrow> probe option" where
  "probe_at ch s = (if 0 \<le> ch \<and> nat ch < length (probes s) then Some (probes s ! nat ch) else None)"

definition put_probe :: "int \<Rightarrow> probe \<Rightarrow> ca210 \<Rightarrow> ca210" where
  "put_probe ch p s = s\<lparr>probes := (probes s)[nat ch := p]\<rparr>"

section \<open>Opening and closing\<close>

definition ca210_test :: "string \<Rightarrow> ca210 \<Rightarrow> ca210 option" where
  "ca210_test p_dev s =
     (let (fd, k) = uart_open p_dev (kern s) in
      if fd > 0 then
        let (_, k) = uart_set_parity fd 7 2 (CHR ''E'') k;
            (_, k) = uart_set_speed fd 38400 k;
            k = uart_write fd ''COM,0\<newline>'' k in
        do {
          (_, _, k) \<leftarrow> uart_read_end fd (zeros 1024) k;
          Some (s\<lparr>kern := uart_close fd k\<rparr>)
        }
      else Some (s\<lparr>kern := k\<rparr>))"

definition ca210_reset :: "int \<Rightarrow> ca210 \<Rightarrow> (int \<times> ca210) option" where
  "ca210_reset ch s =
     (if bad_channel ch then Some (-1, s)
      else do {
        _ \<leftarrow> probe_at ch s;
        Some (0, put_probe ch (probe_zero\<lparr>uart_fd := -1\<rparr>) s)
      })"

definition ca210_open :: "int \<Rightarrow> string \<Rightarrow> ca210 \<Rightarrow> (int \<times> ca210) option" where
  "ca210_open ch p_dev_name s =
     (if bad_channel ch then Some (-1, s)
      else do {
        p \<leftarrow> probe_at ch s;
        let (fd, k) = uart_open p_dev_name (kern s);
        if 32 \<le> length p_dev_name then None
        else Some (0, put_probe ch (p\<lparr>uart_fd := fd, dev_name := p_dev_name, lcd_channel := ch,
               work_mode := E_CA210_WORK_MODE_IDLE\<rparr>) (s\<lparr>kern := k\<rparr>))
      })"

definition ca210_close :: "int \<Rightarrow> ca210 \<Rightarrow> (int \<times> ca210) option" where
  "ca210_close ch s =
     (if bad_channel ch then Some (-1, s)
      else do {
        p \<leftarrow> probe_at ch s;
        if uart_fd p > 0
        then Some (0, put_probe ch (p\<lparr>uart_fd := -1, work_mode := E_CA210_WORK_MODE_IDLE\<rparr>)
               (s\<lparr>kern := uart_close (uart_fd p) (kern s)\<rparr>))
        else Some (0, s)
      })"

definition ca310_uart_open :: "int \<Rightarrow> ca210 \<Rightarrow> (int \<times> ca210) option" where
  "ca310_uart_open channel s =
     (if channel \<le> 0 then Some (-1, s)
      else let ch = channel - 1 in do {
        p \<leftarrow> probe_at ch s;
        let (fd, k) = uart_open (if ch = 0 then ''/dev/ttyUSB0'' else ''/dev/ttyUSB1'') (kern s);
        let (_, k) = uart_set_parity fd 7 2 (CHR ''E'') k;
        let (_, k) = uart_set_speed fd 38400 k;
        Some (0, put_probe ch (p\<lparr>uart_fd := fd\<rparr>) (s\<lparr>kern := k\<rparr>))
      })"

definition ca310_uart_close :: "int \<Rightarrow> ca210 \<Rightarrow> ca210 option" where
  "ca310_uart_close channel s =
     (if channel \<le> 0 then Some s
      else let ch = channel - 1 in do {
        p \<leftarrow> probe_at ch s;
        if uart_fd p \<ge> 0
        then Some (put_probe ch (p\<lparr>uart_fd := -1\<rparr>)
               (s\<lparr>kern := uart_close (uart_fd p) (kern s)\<rparr>))
        else Some s
      })"

section \<open>Commands\<close>

definition CMD_OK_KEY :: string where "CMD_OK_KEY = ''OK00''"
definition CMD_OK_01_KEY :: string where "CMD_OK_01_KEY = ''OK0''"
definition ERR_INVALID_COMMAND :: string where "ERR_INVALID_COMMAND = ''ER10''"
definition ERR_VALUE_OUT :: string where "ERR_VALUE_OUT = ''ER50''"
definition ERR_LOW_LUMI :: string where "ERR_LOW_LUMI = ''ER52''"

definition str_cmd_mode_remote_on :: string where "str_cmd_mode_remote_on = ''COM,2\<newline>''"
definition str_cmd_mode_remote_off :: string where "str_cmd_mode_remote_off = ''COM,0\<newline>''"
definition str_cmd_sync :: string where "str_cmd_sync = ''SCS,3\<newline>''"
definition str_cmd_mds_flick :: string where "str_cmd_mds_flick = ''MDS,6\<newline>''"
definition str_cmd_mds_xylv :: string where "str_cmd_mds_xylv = ''MDS,0\<newline>''"
definition str_cmd_meas :: string where "str_cmd_meas = ''MES\<newline>''"

text \<open>Sending a command and reading the answer into the local buffer.\<close>

definition exchange :: "int \<Rightarrow> string \<Rightarrow> string \<Rightarrow> kernel \<Rightarrow> (int \<times> string \<times> kernel) option" where
  "exchange fd cmd buf k = uart_read_end fd buf (uart_write fd cmd k)"

text \<open>One step of a mode switch: the status, where 0 goes on, the buffer and the kernel.\<close>

definition mode_step ::
  "int \<Rightarrow> string \<Rightarrow> int \<Rightarrow> int \<Rightarrow> string \<times> kernel \<Rightarrow> (int \<times> string \<times> kernel) option" where
  "mode_step fd cmd refused timeout bk = do {
     (ret, buf, k) \<leftarrow> exchange fd cmd (fst bk) (snd bk);
     Some (if ret > 0 then (if strncmp0 CMD_OK_KEY buf then 0 else refused) else timeout, buf, k)
   }"

text \<open>The steps of a mode switch, up to the first that fails.\<close>

fun mode_steps ::
  "int \<Rightarrow> string list \<Rightarrow> int \<Rightarrow> int \<Rightarrow> string \<times> kernel \<Rightarrow> (int \<times> string \<times> kernel) option" where
  "mode_steps fd [] refused timeout (buf, k) = Some (0, buf, k)"
| "mode_steps fd (cmd # cmds) refused timeout bk = do {
     (st, buf, k) \<leftarrow> mode_step fd cmd refused timeout bk;
     if st = 0 then mode_steps fd cmds refused timeout (buf, k) else Some (st, buf, k)
   }"

definition switch_mode ::
  "string list \<Rightarrow> int \<Rightarrow> int \<Rightarrow> int \<Rightarrow> int \<Rightarrow> ca210 \<Rightarrow> (int \<times> ca210) option" where
  "switch_mode cmds refused timeout mode ch s = do {
     p \<leftarrow> probe_at ch s;
     (st, _, k) \<leftarrow> mode_steps (uart_fd p) cmds refused timeout (zeros 32, kern s);
     let s = s\<lparr>kern := k\<rparr>;
     if st = 0 then Some (PROBE_STATU_OK, put_probe ch (p\<lparr>work_mode := mode\<rparr>) s)
     else Some (st, s)
   }"

definition ca210_start_flick_mode :: "int \<Rightarrow> ca210 \<Rightarrow> (int \<times> ca210) option" where
  "ca210_start_flick_mode ch s =
     (if bad_channel ch then Some (PROBE_STATU_OTHER_ERROR, s)
      else switch_mode [str_cmd_mode_remote_on, str_cmd_sync, str_cmd_mds_flick]
        PROBE_STATU_OTHER_ERROR PROBE_STATU_TIMEOUT E_CA210_WORK_MODE_FLICK ch s)"

definition ca210_stop_flick_mode :: "int \<Rightarrow> ca210 \<Rightarrow> (int \<times> ca210) option" where
  "ca210_stop_flick_mode ch s =
     (if bad_channel ch then Some (-1, s)
      else switch_mode [str_cmd_mode_remote_off] (-1) (-1) E_CA210_WORK_MODE_IDLE ch s)"

definition ca210_start_xylv_mode :: "int \<Rightarrow> ca210 \<Rightarrow> (int \<times> ca210) option" where
  "ca210_start_xylv_mode ch s =
     (if bad_channel ch then Some (PROBE_STATU_OTHER_ERROR, s)
      else switch_mode [str_cmd_mode_remote_on, str_cmd_sync, str_cmd_mds_xylv]
        PROBE_STATU_COMMAND_ERROR PROBE_STATU_TIMEOUT E_CA210_WORK_MODE_XYLV ch s)"

text \<open>Stopping leaves the mode at \<^verbatim>\<open>XYLV\<close>.\<close>

definition ca210_stop_xylv_mode :: "int \<Rightarrow> ca210 \<Rightarrow> (int \<times> ca210) option" where
  "ca210_stop_xylv_mode ch s =
     (if bad_channel ch then Some (PROBE_STATU_OTHER_ERROR, s)
      else switch_mode [str_cmd_mode_remote_off]
        PROBE_STATU_COMMAND_ERROR PROBE_STATU_TIMEOUT E_CA210_WORK_MODE_XYLV ch s)"

section \<open>Readings\<close>

text \<open>
  A floating point reading: the value before the call, or what the conversion \<^verbatim>\<open>%f\<close> makes of a text.
\<close>

datatype reading = Unset | Converted string

text \<open>The format \<^verbatim>\<open>OK00,P%d  %f\<close>; the \<^verbatim>\<open>int\<close> conversion is undefined for numbers outside the type.\<close>

definition sscanf_flick :: "string \<Rightarrow> reading option" where
  "sscanf_flick t =
     (case Option.bind (scan_lit ''OK00,P'' t) scan_d of
        None \<Rightarrow> Some Unset
      | Some (n, t) \<Rightarrow> do { _ \<leftarrow> cint n; Some (Converted (skip_white t)) })"

text \<open>The format \<^verbatim>\<open>OK%d,P%d %d;%d; %lf\<close>, of which \<open>x\<close>, \<open>y\<close> and the luminance are used.\<close>

definition sscanf_xylv :: "string \<Rightarrow> (int \<times> int \<times> reading) option" where
  "sscanf_xylv t =
     (case Option.bind (scan_lit ''OK'' t) scan_d of
        None \<Rightarrow> Some (0, 0, Unset)
      | Some (e, t) \<Rightarrow> do {
          _ \<leftarrow> cint e;
          case Option.bind (scan_lit '',P'' t) scan_d of
            None \<Rightarrow> Some (0, 0, Unset)
          | Some (ch, t) \<Rightarrow> do {
              _ \<leftarrow> cint ch;
              case scan_d (skip_white t) of
                None \<Rightarrow> Some (0, 0, Unset)
              | Some (x, t) \<Rightarrow> do {
                  _ \<leftarrow> cint x;
                  case Option.bind (scan_lit '';'' t) scan_d of
                    None \<Rightarrow> Some (x, 0, Unset)
                  | Some (y, t) \<Rightarrow> do {
                      _ \<leftarrow> cint y;
                      Some (x, y, case scan_lit '';'' t of
                          None \<Rightarrow> Unset
                        | Some t \<Rightarrow> Converted (skip_white t))
                    }
                }
            }
        })"

text \<open>The status for an answer that is no measurement.\<close>

definition answer_error :: "string \<Rightarrow> int" where
  "answer_error buf =
     (if strncmp0 ERR_INVALID_COMMAND buf then PROBE_STATU_COMMAND_ERROR
      else if strncmp0 ERR_VALUE_OUT buf then PROBE_STATU_OUT_RANGE
      else if strncmp0 ERR_LOW_LUMI buf then PROBE_STATU_LOW_LUMI
      else PROBE_STATU_OTHER_ERROR)"

text \<open>
  The flicker starts as \<^verbatim>\<open>FLOAT_INVALID_FLICK_VALUE\<close>, the \<open>Unset\<close> of the result.
\<close>

definition ca210_capture_flick_data :: "int \<Rightarrow> ca210 \<Rightarrow> (int \<times> reading \<times> ca210) option" where
  "ca210_capture_flick_data ch s =
     (if bad_channel ch then Some (PROBE_STATU_OTHER_ERROR, Unset, s)
      else do {
        p \<leftarrow> probe_at ch s;
        (ret, buf, k) \<leftarrow> exchange (uart_fd p) str_cmd_meas (zeros 32) (kern s);
        let s = s\<lparr>kern := k\<rparr>;
        if ret > 0 then
          if \<not> strncmp0 CMD_OK_KEY buf then Some (answer_error buf, Unset, s)
          else do {
            t \<leftarrow> c_text buf;
            v \<leftarrow> sscanf_flick t;
            Some (PROBE_STATU_OK, v, s)
          }
        else Some (PROBE_STATU_TIMEOUT, Unset, s)
      })"

text \<open>The coordinates in units of one, or \<open>None\<close> where the call does not set them.\<close>

definition ca210_capture_xylv_data ::
  "int \<Rightarrow> ca210 \<Rightarrow> (int \<times> (rat \<times> rat) option \<times> reading \<times> ca210) option" where
  "ca210_capture_xylv_data ch s =
     (if bad_channel ch then Some (PROBE_STATU_OTHER_ERROR, None, Unset, s)
      else do {
        p \<leftarrow> probe_at ch s;
        (ret, buf, k) \<leftarrow> exchange (uart_fd p) str_cmd_meas (zeros 32) (kern s);
        let s = s\<lparr>kern := k\<rparr>;
        if ret > 0 then
          if \<not> strncmp0 CMD_OK_KEY buf \<and> \<not> strncmp0 CMD_OK_01_KEY buf
          then Some (answer_error buf, None, Unset, s)
          else do {
            t \<leftarrow> c_text buf;
            (x, y, lv) \<leftarrow> sscanf_xylv t;
            Some (PROBE_STATU_OK, Some (rnd (of_int x / 10000), rnd (of_int y / 10000)), lv, s)
          }
        else Some (PROBE_STATU_TIMEOUT, None, Unset, s)
      })"

section \<open>The switching of modes\<close>

lemma length_CMD_OK_KEY [simp]: "length CMD_OK_KEY = 4"
  by (simp add: CMD_OK_KEY_def)

text \<open>An answer of a probe: its code, perhaps a value, and a carriage return.\<close>

definition answer :: "string \<Rightarrow> bool" where
  "answer a \<longleftrightarrow> 4 \<le> length a \<and> length a \<le> 32 \<and> last a = CHR 0x0D"

lemma exchange_answer:
  assumes "0 \<le> fd" and "answer a" and "length buf = 32" and "reads k = Inr a # rs"
  shows "exchange fd cmd buf k
       = Some (int (length a), a @ drop (length a) buf,
           k\<lparr>reads := rs, trace := trace k @ [Sent fd cmd]\<rparr>)"
proof -
  have a: "a \<noteq> []" "take 2048 a = a" "length a \<le> 1024" using assms(2) by (auto simp: answer_def)
  then have "read_end_loop [] (reads k) = Some (a, rs)"
    using assms(2,4) by (simp add: answer_def Let_def)
  moreover have "mem_write 0 a buf = Some (a @ drop (length a) buf)"
    using assms(2,3) by (simp add: answer_def mem_write_def)
  ultimately show ?thesis
    using assms(1) by (simp add: exchange_def uart_read_end_def uart_write_def)
qed

lemma exchange_timeout:
  assumes "0 \<le> fd" and "reads k = []"
  shows "exchange fd cmd buf k = Some (0, buf, k\<lparr>reads := [], trace := trace k @ [Sent fd cmd]\<rparr>)"
  using assms by (simp add: exchange_def uart_read_end_def uart_write_def mem_write_def)

lemma mode_steps_run:
  assumes "0 \<le> fd" and "\<forall>a\<in>set as. answer a" and "length buf = 32" and "reads k = map Inr as"
    and "e \<noteq> 0" and "t \<noteq> 0" and n: "n = length (takeWhile (\<lambda>a. take 4 a = CMD_OK_KEY) (take (length cmds) as))"
  shows "\<exists>buf' k'. mode_steps fd cmds e t (buf, k)
       = Some (if n = length cmds then 0 else if n < length as then e else t, buf', k')
       \<and> trace k' = trace k @ map (Sent fd) (take (Suc n) cmds)"
  using assms(2-4) unfolding n
proof (induction cmds arbitrary: as buf k)
  case (Cons cmd cmds)
  show ?case
  proof (cases as)
    case Nil
    with Cons.prems show ?thesis
      using exchange_timeout [OF assms(1), of k cmd buf] assms(6) by (simp add: mode_step_def)
  next
    case (Cons a as')
    with Cons.prems have a: "answer a" "reads k = Inr a # map Inr as'" by simp_all
    let ?buf = "a @ drop (length a) buf"
    let ?k = "k\<lparr>reads := map Inr as', trace := trace k @ [Sent fd cmd]\<rparr>"
    have step: "mode_step fd cmd e t (buf, k)
        = Some (if take 4 a = CMD_OK_KEY then 0 else e, ?buf, ?k)"
    proof -
      have "strncmp0 CMD_OK_KEY ?buf \<longleftrightarrow> take 4 a = CMD_OK_KEY"
        using a(1) by (simp add: strncmp0_def answer_def)
      moreover have "0 < length a" using a(1) by (auto simp: answer_def)
      ultimately show ?thesis
        using exchange_answer [OF assms(1) a(1) Cons.prems(2) a(2), of cmd] by (simp add: mode_step_def)
    qed
    show ?thesis
    proof (cases "take 4 a = CMD_OK_KEY")
      case True
      have len: "length ?buf = 32" using a(1) Cons.prems(2) by (simp add: answer_def)
      have rds: "reads ?k = map Inr as'" by simp
      from Cons.prems(1) Cons have "\<forall>a\<in>set as'. answer a" by simp
      from Cons.IH [OF this len rds] show ?thesis
        using True step Cons by auto
    next
      case False
      then show ?thesis using step Cons assms(5) by simp
    qed
  qed
qed (simp add: assms)

text \<open>
  Starting the flicker mode over a line that delivers any answers and then stays silent: the
  commands \<^verbatim>\<open>COM,2\<close>, \<^verbatim>\<open>SCS,3\<close> and \<^verbatim>\<open>MDS,6\<close> are sent one after the other, each only after the one before
  was answered with \<^verbatim>\<open>OK00\<close>. Three such answers give \<^verbatim>\<open>PROBE_STATU_OK\<close> and change the probe's mode;
  another answer stops the exchange with an error, a missing one with a time-out, and the mode of
  the probe stays.
\<close>

theorem flick_mode_exchange:
  assumes "length (probes s) = 2" and "ch \<in> {0, 1}" and "0 \<le> uart_fd (probes s ! nat ch)"
    and "reads (kern s) = map Inr as" and "\<forall>a\<in>set as. answer a"
  defines "n \<equiv> length (takeWhile (\<lambda>a. take 4 a = CMD_OK_KEY) (take 3 as))"
  shows "\<exists>s'. ca210_start_flick_mode ch s
      = Some (if n = 3 then PROBE_STATU_OK else if n < length as then PROBE_STATU_OTHER_ERROR
              else PROBE_STATU_TIMEOUT, s')
    \<and> probes s' = (if n = 3 then (probes s)[nat ch := (probes s ! nat ch)\<lparr>work_mode := E_CA210_WORK_MODE_FLICK\<rparr>]
                   else probes s)
    \<and> trace (kern s') = trace (kern s)
        @ map (Sent (uart_fd (probes s ! nat ch))) (take (Suc n) [''COM,2\<newline>'', ''SCS,3\<newline>'', ''MDS,6\<newline>''])"
proof -
  let ?p = "probes s ! nat ch" and ?cmds = "[str_cmd_mode_remote_on, str_cmd_sync, str_cmd_mds_flick]"
  have p: "\<not> bad_channel ch" "probe_at ch s = Some ?p"
    using assms(1,2) by (auto simp: bad_channel_def probe_at_def MAX_LCD_PROBE_NUMS_def)
  have n: "n = length (takeWhile (\<lambda>a. take 4 a = CMD_OK_KEY) (take (length ?cmds) as))"
    by (simp add: n_def numeral_3_eq_3)
  obtain buf' k' where run: "mode_steps (uart_fd ?p) ?cmds PROBE_STATU_OTHER_ERROR PROBE_STATU_TIMEOUT
      (zeros 32, kern s)
      = Some (if n = length ?cmds then 0 else if n < length as then PROBE_STATU_OTHER_ERROR
              else PROBE_STATU_TIMEOUT, buf', k')"
    "trace k' = trace (kern s) @ map (Sent (uart_fd ?p)) (take (Suc n) ?cmds)"
    using mode_steps_run [OF assms(3,5) _ assms(4) _ _ n, of "zeros 32" PROBE_STATU_OTHER_ERROR
        PROBE_STATU_TIMEOUT]
    by (auto simp: zeros_def PROBE_STATU_OTHER_ERROR_def PROBE_STATU_TIMEOUT_def)
  then show ?thesis using p
    by (auto simp: ca210_start_flick_mode_def switch_mode_def Let_def put_probe_def
        PROBE_STATU_OK_def PROBE_STATU_OTHER_ERROR_def PROBE_STATU_TIMEOUT_def numeral_3_eq_3
        str_cmd_mode_remote_on_def str_cmd_sync_def str_cmd_mds_flick_def simp del: mode_steps.simps)
qed

definition line0 :: termios where
  "line0 = \<lparr>c_iflag = 0, c_oflag = 0, c_cflag = 0, c_lflag = 0, c_vtime = 0, c_vmin = 0,
     c_ispeed = 0, c_ospeed = 0\<rparr>"

theorem flick_mode_exchange_witness:
  "\<exists>s'. ca210_start_flick_mode 1
        \<lparr>probes = [probe_zero, probe_zero\<lparr>uart_fd := 5\<rparr>],
         kern = \<lparr>opens = [], reads = [Inr (''OK00'' @ [CHR 0x0D]), Inr (''ER10'' @ [CHR 0x0D])],
           getst = 0, setst = 0, tty = (\<lambda>_. line0), trace = []\<rparr>\<rparr>
      = Some (PROBE_STATU_OTHER_ERROR, s')
    \<and> trace (kern s') = [Sent 5 ''COM,2\<newline>'', Sent 5 ''SCS,3\<newline>'']"
  using flick_mode_exchange [of "\<lparr>probes = [probe_zero, probe_zero\<lparr>uart_fd := 5\<rparr>],
         kern = \<lparr>opens = [], reads = [Inr (''OK00'' @ [CHR 0x0D]), Inr (''ER10'' @ [CHR 0x0D])],
           getst = 0, setst = 0, tty = (\<lambda>_. line0), trace = []\<rparr>\<rparr>" 1
      "[''OK00'' @ [CHR 0x0D], ''ER10'' @ [CHR 0x0D]]"]
  by (simp add: answer_def CMD_OK_KEY_def) blast

text \<open>
  The buffer is kept between the commands of a switch: an answer cut short after the code of the
  one before is taken for that code.
\<close>

theorem truncated_answer_accepted:
  assumes "0 \<le> fd" and "take 4 buf = CMD_OK_KEY" and "length buf = 32"
    and "c \<noteq> []" and "c = take (length c) CMD_OK_KEY" and "reads k = Inr c # Inl r # rs"
  shows "\<exists>k'. mode_step fd cmd e t (buf, k) = Some (0, buf, k')"
proof -
  have len: "length c \<le> 4"
  proof -
    have "length c = min (length CMD_OK_KEY) (length c)" by (metis assms(5) length_take)
    then show ?thesis by simp
  qed
  have "set CMD_OK_KEY \<subseteq> {CHR ''O'', CHR ''K'', CHR ''0''}" by (simp add: CMD_OK_KEY_def)
  moreover have "last c \<in> set CMD_OK_KEY"
    using assms(4,5) by (metis in_set_takeD last_in_set)
  ultimately have "last c \<noteq> CHR 0x0D" by auto
  then have "read_end_loop [] (reads k) = Some (c, rs)"
    using assms(4,6) len by (simp add: Let_def)
  moreover have "mem_write 0 c buf = Some buf"
  proof -
    have "c = take (length c) buf"
      using assms(2,5) len by (metis min.absorb1 take_take)
    then have "c @ drop (length c) buf = buf" by (metis append_take_drop_id)
    then show ?thesis using len assms(3) by (simp add: mem_write_def)
  qed
  moreover have "strncmp0 CMD_OK_KEY buf"
    using assms(2) by (simp add: strncmp0_def)
  ultimately show ?thesis
    using assms(1,4) by (simp add: mode_step_def exchange_def uart_read_end_def uart_write_def)
qed

end
