(* ===== verification/LcdTask.thy ===== *)
theory LcdTask
  imports Ca210
begin

text \<open>
  The task of the colour analysers, \<^verbatim>\<open>hw/lcd/pubLcdTask.c\<close>: USB lines that appear get the lowest
  free channel of four and are opened through the driver (theory \<open>Ca210\<close>), lines that go away free
  it, and the other messages reach the driver only for a channel in the list. The channel is also
  the index into the driver's table, which has two entries.
\<close>

section \<open>State\<close>

record lcd_device =
  name :: string
  channel :: int

definition lcd_zero :: lcd_device where
  "lcd_zero = \<lparr>name = [], channel = 0\<rparr>"

record lcd_state =
  m_lcd_list :: "lcd_device list"
  m_lcd_list_version :: u32
  drv :: ca210

definition MAX_LCD_DEVICE_NUMBER :: nat where "MAX_LCD_DEVICE_NUMBER = 4"

definition initLcd :: "ca210 \<Rightarrow> lcd_state" where
  "initLcd d = \<lparr>m_lcd_list = replicate MAX_LCD_DEVICE_NUMBER lcd_zero, m_lcd_list_version = 0, drv = d\<rparr>"

datatype lcd_message =
    FLICK_START int
  | SET_FLICK int
  | FLICK_END int
  | XYLV_START int
  | XYLV_READ int
  | XYLV_STOP int
  | TTYUSB_ADD string
  | TTYUSB_REMOVE string

section \<open>Queries\<close>

fun lcd_find :: "int \<Rightarrow> lcd_device list \<Rightarrow> bool" where
  "lcd_find ch [] = False"
| "lcd_find ch (lcd # ls) = (if channel lcd > 0 \<and> channel lcd = ch then True else lcd_find ch ls)"

definition lcd_getStatus :: "int \<Rightarrow> lcd_state \<Rightarrow> int" where
  "lcd_getStatus ch s = (if lcd_find ch (m_lcd_list s) then 1 else 0)"

text \<open>The channels in use; the result of the call is their number.\<close>

definition lcd_getList :: "lcd_state \<Rightarrow> int list" where
  "lcd_getList s = map channel (filter (\<lambda>lcd. channel lcd > 0) (m_lcd_list s))"

definition lcd_getListVersion :: "lcd_state \<Rightarrow> u32" where
  "lcd_getListVersion s = m_lcd_list_version s"

section \<open>Messages\<close>

definition next_version :: "u32 \<Rightarrow> u32" where
  "next_version ver = (if ver = 0xffffffff then 1 else ver + 1)"

text \<open>The search for the lowest channel of 1 to 4 not in the list, 0 when there is none.\<close>

fun free_channel :: "int list \<Rightarrow> lcd_device list \<Rightarrow> int" where
  "free_channel [] ls = 0"
| "free_channel (c # cs) ls = (if lcd_find c ls then free_channel cs ls else c)"

fun free_entry :: "nat \<Rightarrow> lcd_device list \<Rightarrow> nat option" where
  "free_entry i [] = None"
| "free_entry i (lcd # ls) = (if channel lcd = 0 then Some i else free_entry (Suc i) ls)"

definition ttyusb_add :: "string \<Rightarrow> lcd_state \<Rightarrow> lcd_state option" where
  "ttyusb_add devname s =
     (if 256 \<le> length devname then None
      else case free_entry 0 (m_lcd_list s) of
        None \<Rightarrow> Some s
      | Some i \<Rightarrow>
          let ch = free_channel [1, 2, 3, 4] (m_lcd_list s) in
          if ch > 0 then do {
            (_, d) \<leftarrow> ca210_reset ch (drv s);
            if 128 \<le> length (''/dev/'' @ devname) then None
            else do {
              let dev_path_name = ''/dev/'' @ devname;
              d \<leftarrow> ca210_test dev_path_name d;
              (ret, d) \<leftarrow> ca210_open ch dev_path_name d;
              if ret = 0 then do {
                (_, d) \<leftarrow> ca210_stop_flick_mode ch d;
                if 64 \<le> length devname then None
                else Some (s\<lparr>m_lcd_list := (m_lcd_list s)[i := \<lparr>name = devname, channel = ch\<rparr>],
                       m_lcd_list_version := next_version (m_lcd_list_version s), drv := d\<rparr>)
              }
              else Some (s\<lparr>drv := d\<rparr>)
            }
          }
          else Some s)"

fun named_entry :: "nat \<Rightarrow> string \<Rightarrow> lcd_device list \<Rightarrow> nat option" where
  "named_entry i devname [] = None"
| "named_entry i devname (lcd # ls) =
     (if channel lcd > 0 \<and> devname = name lcd then Some i else named_entry (Suc i) devname ls)"

definition ttyusb_remove :: "string \<Rightarrow> lcd_state \<Rightarrow> lcd_state option" where
  "ttyusb_remove devname s =
     (if 256 \<le> length devname then None
      else case named_entry 0 devname (m_lcd_list s) of
        None \<Rightarrow> Some s
      | Some i \<Rightarrow> do {
          (_, d) \<leftarrow> ca210_close (channel (m_lcd_list s ! i)) (drv s);
          Some (s\<lparr>m_lcd_list := (m_lcd_list s)[i := lcd_zero],
                  m_lcd_list_version := next_version (m_lcd_list_version s), drv := d\<rparr>)
        })"

text \<open>A request goes to the driver when its channel is in the list.\<close>

definition for_channel ::
  "int \<Rightarrow> (ca210 \<Rightarrow> ca210 option) \<Rightarrow> lcd_state \<Rightarrow> lcd_state option" where
  "for_channel ch f s =
     (if lcd_find ch (m_lcd_list s)
      then map_option (\<lambda>d. s\<lparr>drv := d\<rparr>) (f (drv s)) else Some s)"

text \<open>
  The handler. \<^verbatim>\<open>XYLV_READ\<close> passes a number where the driver takes the address for the luminance,
  which is undefined.
\<close>

fun lcd_message_proc :: "lcd_message \<Rightarrow> lcd_state \<Rightarrow> lcd_state option" where
  "lcd_message_proc (FLICK_START ch) s =
     for_channel ch (\<lambda>d. map_option snd (ca210_start_flick_mode ch d)) s"
| "lcd_message_proc (SET_FLICK ch) s =
     for_channel ch (\<lambda>d. map_option (snd \<circ> snd) (ca210_capture_flick_data ch d)) s"
| "lcd_message_proc (FLICK_END ch) s =
     for_channel ch (\<lambda>d. map_option snd (ca210_stop_flick_mode ch d)) s"
| "lcd_message_proc (XYLV_START ch) s =
     for_channel ch (\<lambda>d. map_option snd (ca210_start_xylv_mode ch d)) s"
| "lcd_message_proc (XYLV_READ ch) s = for_channel ch (\<lambda>d. None) s"
| "lcd_message_proc (XYLV_STOP ch) s =
     for_channel ch (\<lambda>d. map_option snd (ca210_stop_xylv_mode ch d)) s"
| "lcd_message_proc (TTYUSB_ADD devname) s = ttyusb_add devname s"
| "lcd_message_proc (TTYUSB_REMOVE devname) s = ttyusb_remove devname s"

text \<open>The messages the task handles one after the other.\<close>

fun lcd_run :: "lcd_message list \<Rightarrow> lcd_state \<Rightarrow> lcd_state option" where
  "lcd_run [] s = Some s"
| "lcd_run (m # ms) s = Option.bind (lcd_message_proc m s) (lcd_run ms)"

text \<open>
  The search at start-up: the lines among the entries of \<^verbatim>\<open>/dev\<close> (type and name), up to eight of
  them, added in the order of their numbers.
\<close>

definition initLcd_SearchUSB :: "(nat \<times> string) list \<Rightarrow> lcd_message list option" where
  "initLcd_SearchUSB dir =
     (let usbList = map snd (filter (\<lambda>(t, n). t = 2 \<and> take 6 n = ''ttyUSB'') dir) in
      if 8 < length usbList \<or> (\<exists>n\<in>set usbList. 100 \<le> length n) then None
      else Some (map TTYUSB_ADD
        (filter (\<lambda>txt. txt \<in> set usbList)
          [''ttyUSB0'', ''ttyUSB1'', ''ttyUSB2'', ''ttyUSB3'', ''ttyUSB4'', ''ttyUSB5'', ''ttyUSB6'',
           ''ttyUSB7''])))"

section \<open>The types of the state\<close>

definition probe_typed :: "probe \<Rightarrow> bool" where
  "probe_typed p \<longleftrightarrow> work_mode p \<in> {E_CA210_WORK_MODE_IDLE, E_CA210_WORK_MODE_XYLV, E_CA210_WORK_MODE_FLICK}
     \<and> length (dev_name p) < 32 \<and> lcd_channel p \<in> {0, 1}"

definition drv_typed :: "ca210 \<Rightarrow> bool" where
  "drv_typed d \<longleftrightarrow> length (probes d) = 2 \<and> (\<forall>p\<in>set (probes d). probe_typed p)"

definition lcd_typed :: "lcd_state \<Rightarrow> bool" where
  "lcd_typed s \<longleftrightarrow> length (m_lcd_list s) = 4
     \<and> (\<forall>l\<in>set (m_lcd_list s). channel l \<in> {0, 1} \<and> length (name l) < 64)
     \<and> distinct (lcd_getList s)
     \<and> drv_typed (drv s)"

named_theorems drv_keeps \<open>the driver's operations keep its types\<close>

lemma drv_typed_kern [simp]: "drv_typed (d\<lparr>kern := k\<rparr>) = drv_typed d"
  by (simp add: drv_typed_def)

lemma drv_typed_put:
  assumes "drv_typed d" and "probe_typed p"
  shows "drv_typed (put_probe ch p d)"
  using assms by (auto simp: drv_typed_def put_probe_def dest: set_update_subset_insert [THEN subsetD])

lemma probe_at_typed: "drv_typed d \<Longrightarrow> probe_at ch d = Some p \<Longrightarrow> probe_typed p"
  by (auto simp: drv_typed_def probe_at_def split: if_splits)

lemma switch_mode_typed:
  assumes "switch_mode cmds e t mode ch d = Some (r, d')" and "drv_typed d"
    and "mode \<in> {E_CA210_WORK_MODE_IDLE, E_CA210_WORK_MODE_XYLV, E_CA210_WORK_MODE_FLICK}"
  shows "drv_typed d'"
  using assms probe_at_typed [OF assms(2)]
  by (auto simp: switch_mode_def Let_def bind_eq_Some_conv probe_typed_def
      split: if_splits intro!: drv_typed_put)

lemma start_flick_typed [drv_keeps]:
  "ca210_start_flick_mode ch d = Some (r, d') \<Longrightarrow> drv_typed d \<Longrightarrow> drv_typed d'"
  by (auto simp: ca210_start_flick_mode_def split: if_splits intro: switch_mode_typed)

lemma stop_flick_typed [drv_keeps]:
  "ca210_stop_flick_mode ch d = Some (r, d') \<Longrightarrow> drv_typed d \<Longrightarrow> drv_typed d'"
  by (auto simp: ca210_stop_flick_mode_def split: if_splits intro: switch_mode_typed)

lemma start_xylv_typed [drv_keeps]:
  "ca210_start_xylv_mode ch d = Some (r, d') \<Longrightarrow> drv_typed d \<Longrightarrow> drv_typed d'"
  by (auto simp: ca210_start_xylv_mode_def split: if_splits intro: switch_mode_typed)

lemma stop_xylv_typed [drv_keeps]:
  "ca210_stop_xylv_mode ch d = Some (r, d') \<Longrightarrow> drv_typed d \<Longrightarrow> drv_typed d'"
  by (auto simp: ca210_stop_xylv_mode_def split: if_splits intro: switch_mode_typed)

lemma capture_flick_typed [drv_keeps]:
  "ca210_capture_flick_data ch d = Some (r, v, d') \<Longrightarrow> drv_typed d \<Longrightarrow> drv_typed d'"
  by (auto simp: ca210_capture_flick_data_def Let_def bind_eq_Some_conv split: if_splits)

lemma test_typed [drv_keeps]: "ca210_test dev d = Some d' \<Longrightarrow> drv_typed d \<Longrightarrow> drv_typed d'"
  by (auto simp: ca210_test_def Let_def bind_eq_Some_conv split: if_splits prod.splits)

lemma probe_in_range: "probe_at ch d = Some p \<Longrightarrow> drv_typed d \<Longrightarrow> ch \<in> {0, 1}"
  by (auto simp: probe_at_def drv_typed_def split: if_splits)

lemma open_typed [drv_keeps]:
  assumes "ca210_open ch dev d = Some (r, d')" and "drv_typed d"
  shows "drv_typed d'"
  using assms probe_in_range [OF _ assms(2)]
  by (cases "uart_open dev (kern d)") (auto simp: ca210_codes ca210_open_def Let_def bind_eq_Some_conv probe_typed_def
      split: if_splits prod.splits intro!: drv_typed_put)

lemma reset_typed [drv_keeps]:
  assumes "ca210_reset ch d = Some (r, d')" and "drv_typed d"
  shows "drv_typed d'"
  using assms
  by (auto simp: ca210_reset_def Let_def bind_eq_Some_conv probe_typed_def probe_zero_def ca210_codes
      split: if_splits intro!: drv_typed_put)

lemma close_typed [drv_keeps]:
  assumes "ca210_close ch d = Some (r, d')" and "drv_typed d"
  shows "drv_typed d'"
  using assms probe_at_typed [OF assms(2)]
  by (auto simp: ca210_close_def Let_def bind_eq_Some_conv probe_typed_def
      split: if_splits intro!: drv_typed_put)

section \<open>The list\<close>

lemma reset_channel:
  assumes "ca210_reset ch d = Some (r, d')" and "drv_typed d"
  shows "bad_channel ch \<or> ch \<in> {0, 1}"
  using assms probe_in_range by (auto simp: ca210_reset_def bind_eq_Some_conv split: if_splits)

lemma open_channel: "ca210_open ch dev d = Some (0, d') \<Longrightarrow> \<not> bad_channel ch"
  by (auto simp: ca210_open_def split: if_splits)

lemma free_entry_Some:
  "free_entry i ls = Some k \<Longrightarrow> i \<le> k \<and> k - i < length ls \<and> channel (ls ! (k - i)) = 0"
  by (induction i ls rule: free_entry.induct) (auto simp: nth_Cons' split: if_splits)

lemma lcd_find_iff: "lcd_find ch ls \<longleftrightarrow> 0 < ch \<and> ch \<in> channel ` set ls"
  by (induction ch ls rule: lcd_find.induct) auto

lemma free_channel_free: "free_channel cs ls = ch \<Longrightarrow> 0 < ch \<Longrightarrow> ch \<notin> channel ` set ls"
  by (induction cs ls rule: free_channel.induct) (auto simp: lcd_find_iff split: if_splits)

lemma used_update:
  assumes "k < length ls" and "channel (ls ! k) = 0"
  shows "filter (\<lambda>l. channel l > 0) (ls[k := l'])
    = filter (\<lambda>l. channel l > 0) (take k ls) @ (if channel l' > 0 then [l'] else [])
      @ filter (\<lambda>l. channel l > 0) (drop (Suc k) ls)"
    "filter (\<lambda>l. channel l > 0) ls
    = filter (\<lambda>l. channel l > 0) (take k ls) @ filter (\<lambda>l. channel l > 0) (drop (Suc k) ls)"
  using assms id_take_nth_drop [of k ls]
  by (simp_all add: upd_conv_take_nth_drop)
    (metis (no_types, lifting) filter.simps(2) filter_append less_irrefl)

lemma ttyusb_add_cases:
  assumes "ttyusb_add n s = Some s'" and "drv_typed (drv s)"
  obtains (drv) d where "s' = s\<lparr>drv := d\<rparr>" "drv_typed d"
  | (add) i d where "free_entry 0 (m_lcd_list s) = Some i" "length n < 64" "drv_typed d"
      "free_channel [1, 2, 3, 4] (m_lcd_list s) = 1"
      "s' = s\<lparr>m_lcd_list := (m_lcd_list s)[i := \<lparr>name = n, channel = 1\<rparr>],
        m_lcd_list_version := next_version (m_lcd_list_version s), drv := d\<rparr>"
proof -
  define ch where "ch = free_channel [1, 2, 3, 4] (m_lcd_list s)"
  note run = assms(1)[unfolded ttyusb_add_def Let_def ch_def [symmetric]]
  show thesis
  proof (cases "free_entry 0 (m_lcd_list s)")
    case None
    with run assms(2) drv [of "drv s"] show thesis by (auto split: if_splits)
  next
    case (Some i)
    show thesis
    proof (cases "0 < ch")
      case False
      with run Some assms(2) drv [of "drv s"] show thesis by (auto split: if_splits)
    next
      case True
      with run Some obtain r1 d1 d2 r3 d3 where steps: "ca210_reset ch (drv s) = Some (r1, d1)"
        "ca210_test (''/dev/'' @ n) d1 = Some d2" "ca210_open ch (''/dev/'' @ n) d2 = Some (r3, d3)"
        and rest: "(if r3 = 0 then do {
                (_, d) \<leftarrow> ca210_stop_flick_mode ch d3;
                if 64 \<le> length n then None
                else Some (s\<lparr>m_lcd_list := (m_lcd_list s)[i := \<lparr>name = n, channel = ch\<rparr>],
                       m_lcd_list_version := next_version (m_lcd_list_version s), drv := d\<rparr>)
              } else Some (s\<lparr>drv := d3\<rparr>)) = Some s'"
        by (auto simp: bind_eq_Some_conv split: if_splits)
      have d3: "drv_typed d3" using steps assms(2) by (auto dest: drv_keeps)
      show thesis
      proof (cases "r3 = 0")
        case False
        with rest d3 drv [of d3] show thesis by simp
      next
        case 0: True
        with steps assms(2) True have "ch = 1"
          using open_channel reset_channel by fastforce
        from rest 0 obtain r4 d4 where "ca210_stop_flick_mode ch d3 = Some (r4, d4)" "length n < 64"
          "s' = s\<lparr>m_lcd_list := (m_lcd_list s)[i := \<lparr>name = n, channel = ch\<rparr>],
             m_lcd_list_version := next_version (m_lcd_list_version s), drv := d4\<rparr>"
          by (auto simp: bind_eq_Some_conv split: if_splits)
        with add [of i d4] Some \<open>ch = 1\<close> d3 show thesis
          by (simp add: ch_def stop_flick_typed)
      qed
    qed
  qed
qed

lemma entry_update_typed:
  assumes "lcd_typed s" and "k < 4" and "drv_typed d" and "channel l \<in> {0, 1}" and "length (name l) < 64"
    and "channel l = 1 \<Longrightarrow> 1 \<notin> channel ` set (m_lcd_list s)"
  shows "lcd_typed (s\<lparr>m_lcd_list := (m_lcd_list s)[k := l], m_lcd_list_version := v, drv := d\<rparr>)"
proof -
  let ?ls = "m_lcd_list s" and ?P = "\<lambda>l. 0 < channel l"
  have len: "k < length ?ls" using assms(1,2) by (simp add: lcd_typed_def)
  have old: "map channel (filter ?P ?ls)
      = map channel (filter ?P (take k ?ls)) @ map channel (filter ?P [?ls ! k])
        @ map channel (filter ?P (drop (Suc k) ?ls))"
    by (subst id_take_nth_drop [OF len], simp only: filter_append map_append append.assoc)
      (simp add: append_assoc)
  let ?A = "map channel (filter ?P (take k ?ls))" and ?C = "map channel (filter ?P (drop (Suc k) ?ls))"
  have dist: "distinct (?A @ map channel (filter ?P [?ls ! k]) @ ?C)"
    using assms(1) unfolding lcd_typed_def lcd_getList_def old by blast
  have new: "map channel (filter ?P (?ls[k := l])) = ?A @ map channel (filter ?P [l]) @ ?C"
    using len by (simp add: upd_conv_take_nth_drop)
  have "distinct (map channel (filter ?P (?ls[k := l])))"
  proof (cases "channel l = 1")
    case False
    then have "filter ?P [l] = []" using assms(4) by auto
    with dist show ?thesis unfolding new by (simp split: if_splits)
  next
    case True
    have "1 \<notin> channel ` set (take k ?ls)" "1 \<notin> channel ` set (drop (Suc k) ?ls)"
      using assms(6) [OF True] by (meson image_mono set_take_subset set_drop_subset subsetD)+
    then have "1 \<notin> set ?A" "1 \<notin> set ?C" by auto
    with dist True show ?thesis unfolding new by (simp split: if_splits)
  qed
  moreover have "\<forall>l'\<in>set (?ls[k := l]). channel l' \<in> {0, 1} \<and> length (name l') < 64"
    using assms(1,4,5) set_update_subset_insert [of ?ls k l] unfolding lcd_typed_def by blast
  ultimately show ?thesis using assms(1,3)
    by (simp add: lcd_typed_def lcd_getList_def)
qed

lemma add_typed:
  assumes "lcd_typed s" and "ttyusb_add n s = Some s'"
  shows "lcd_typed s'"
proof -
  have d: "drv_typed (drv s)" using assms(1) by (simp add: lcd_typed_def)
  from assms(2) d show ?thesis
  proof (cases rule: ttyusb_add_cases)
    case (drv d)
    with assms(1) show ?thesis by (simp add: lcd_typed_def lcd_getList_def)
  next
    case (add i d)
    then have "i < 4" using free_entry_Some assms(1) by (fastforce simp: lcd_typed_def)
    moreover have "1 \<notin> channel ` set (m_lcd_list s)"
      using add(4) by (rule free_channel_free) simp
    ultimately show ?thesis unfolding add(5) using add assms(1)
      by (intro entry_update_typed) simp_all
  qed
qed

lemma named_entry_Some:
  "named_entry i n ls = Some k \<Longrightarrow> i \<le> k \<and> k - i < length ls \<and> 0 < channel (ls ! (k - i)) \<and> name (ls ! (k - i)) = n"
  by (induction i n ls rule: named_entry.induct) (auto simp: nth_Cons' split: if_splits)

lemma remove_typed:
  assumes "lcd_typed s" and "ttyusb_remove n s = Some s'"
  shows "lcd_typed s'"
proof (cases "named_entry 0 n (m_lcd_list s)")
  case None
  with assms show ?thesis by (auto simp: ttyusb_remove_def split: if_splits)
next
  case (Some i)
  then have "i < 4" using named_entry_Some assms(1) by (fastforce simp: lcd_typed_def)
  with Some assms show ?thesis
    by (auto simp: ttyusb_remove_def bind_eq_Some_conv lcd_zero_def lcd_typed_def [of s]
        split: if_splits intro!: entry_update_typed dest: close_typed)
qed

lemma message_typed:
  assumes "lcd_message_proc m s = Some s'" and "lcd_typed s"
  shows "lcd_typed s'"
proof -
  have fc: "lcd_typed s'" if "for_channel ch f s = Some s'" "\<And>d'. f (drv s) = Some d' \<Longrightarrow> drv_typed d'"
    for ch f
    using that assms(2) by (auto simp: for_channel_def lcd_typed_def lcd_getList_def split: if_splits)
  have d: "drv_typed (drv s)" using assms(2) by (simp add: lcd_typed_def)
  show ?thesis
  proof (cases m)
    case (TTYUSB_ADD n)
    then show ?thesis using assms add_typed by simp
  next
    case (TTYUSB_REMOVE n)
    then show ?thesis using assms remove_typed by simp
  qed (use assms(1) d in \<open>auto intro!: fc dest: drv_keeps\<close>)
qed

definition quiet_kernel :: "int list \<Rightarrow> kernel" where
  "quiet_kernel fds = \<lparr>opens = fds, reads = [], getst = 0, setst = 0, tty = (\<lambda>_. line0), trace = []\<rparr>"

definition ca210_start :: "int list \<Rightarrow> ca210" where
  "ca210_start fds = \<lparr>probes = s_ca210_probe, kern = quiet_kernel fds\<rparr>"

lemma drv_typed_start: "drv_typed (ca210_start fds)"
  by (simp add: ca210_start_def drv_typed_def s_ca210_probe_def MAX_LCD_PROBE_NUMS_def probe_zero_def
      probe_typed_def ca210_codes)

lemma initLcd_typed: "drv_typed d \<Longrightarrow> lcd_typed (initLcd d)"
  by (simp add: initLcd_def lcd_typed_def MAX_LCD_DEVICE_NUMBER_def lcd_zero_def lcd_getList_def)

lemma line_set_kernel [simp]:
  "reads (snd (uart_set_parity fd d st p k)) = reads k"
  "opens (snd (uart_set_parity fd d st p k)) = opens k"
  "trace (snd (uart_set_parity fd d st p k)) = trace k"
  "reads (snd (uart_set_speed fd sp k)) = reads k"
  "opens (snd (uart_set_speed fd sp k)) = opens k"
  "trace (snd (uart_set_speed fd sp k)) = trace k"
  by (simp_all add: uart_set_parity_def uart_set_speed_def case_prod_beta)

lemma silent_read [simp]:
  "0 \<le> fd \<Longrightarrow> reads k = [] \<Longrightarrow> uart_read_end fd buf k = Some (0, buf, k\<lparr>reads := []\<rparr>)"
  by (simp add: uart_read_end_def mem_write_def)

lemma initLcd_list [simp]: "m_lcd_list (initLcd d) = [lcd_zero, lcd_zero, lcd_zero, lcd_zero]"
  "m_lcd_list_version (initLcd d) = 0" "drv (initLcd d) = d"
  by (simp_all add: initLcd_def MAX_LCD_DEVICE_NUMBER_def numeral_eq_Suc)

text \<open>The first probe, on a line that opens and stays silent.\<close>

lemma first_probe:
  assumes "drv_typed d" and "opens (kern d) = [f1, f2]" and "0 < f1" and "0 < f2"
    and "reads (kern d) = []" and "length n < 27"
  obtains d' where "lcd_message_proc (TTYUSB_ADD n) (initLcd d)
      = Some ((initLcd d)\<lparr>m_lcd_list := [\<lparr>name = n, channel = 1\<rparr>, lcd_zero, lcd_zero, lcd_zero],
          m_lcd_list_version := 1, drv := d'\<rparr>)"
    "uart_fd (probes d' ! 1) = f2"
proof -
  have len: "length (probes d) = 2" using assms(1) by (simp add: drv_typed_def)
  note defs = bad_channel_def MAX_LCD_PROBE_NUMS_def probe_at_def put_probe_def Let_def case_prod_beta
  define d1 where "d1 = put_probe 1 (probe_zero\<lparr>uart_fd := -1\<rparr>) d"
  have 1: "ca210_reset 1 d = Some (0, d1)" "length (probes d1) = 2" "kern d1 = kern d"
    by (simp_all add: d1_def ca210_reset_def defs len)
  obtain d2 where 2: "ca210_test (''/dev/'' @ n) d1 = Some d2" "length (probes d2) = 2"
      "opens (kern d2) = [f2]" "reads (kern d2) = []"
    using 1(2,3) assms(2-5) by (simp add: ca210_test_def uart_open_def uart_write_def uart_close_def defs)
  obtain d3 where 3: "ca210_open 1 (''/dev/'' @ n) d2 = Some (0, d3)" "length (probes d3) = 2"
      "uart_fd (probes d3 ! 1) = f2" "reads (kern d3) = []"
    using 2 assms(6) by (simp add: ca210_open_def uart_open_def defs)
  obtain d4 where 4: "ca210_stop_flick_mode 1 d3 = Some (-1, d4)" "uart_fd (probes d4 ! 1) = f2"
    using 3 assms(4) by (simp add: ca210_stop_flick_mode_def switch_mode_def mode_step_def exchange_def
        uart_write_def defs)
  have "lcd_message_proc (TTYUSB_ADD n) (initLcd d)
      = Some ((initLcd d)\<lparr>m_lcd_list := [\<lparr>name = n, channel = 1\<rparr>, lcd_zero, lcd_zero, lcd_zero],
          m_lcd_list_version := 1, drv := d4\<rparr>)"
    using 1(1) 2(1) 3(1) 4(1) assms(6)
    by (simp add: ttyusb_add_def lcd_zero_def Let_def next_version_def)
  then show thesis using that 4(2) by blast
qed

section \<open>One probe and a second one\<close>

lemma lcd_run_typed: "lcd_run ms s = Some s' \<Longrightarrow> lcd_typed s \<Longrightarrow> lcd_typed s'"
  by (induction ms s rule: lcd_run.induct) (auto simp: bind_eq_Some_conv dest: message_typed)

lemma one_used_free:
  assumes "lcd_typed s"
  obtains i where "free_entry 0 (m_lcd_list s) = Some i"
proof (cases "free_entry 0 (m_lcd_list s)")
  case None
  have all: "free_entry i ls = None \<Longrightarrow> \<forall>l\<in>set ls. channel l \<noteq> 0" for i ls
    by (induction i ls rule: free_entry.induct) (auto split: if_splits)
  have "\<forall>l\<in>set (m_lcd_list s). channel l = 1"
    using all [OF None] assms by (auto simp: lcd_typed_def)
  then have "lcd_getList s = replicate (length (m_lcd_list s)) 1"
    by (simp add: lcd_getList_def map_replicate_const [symmetric] cong: filter_cong map_cong)
  then have "lcd_getList s = replicate 4 1" using assms by (simp add: lcd_typed_def)
  then have "\<not> distinct (lcd_getList s)" by (simp add: numeral_eq_Suc)
  with assms show thesis by (simp add: lcd_typed_def)
qed

text \<open>
  C19: a second analyser is written past the end of the driver's table. After any messages that left
  the first one connected, the message for a second is undefined, whatever its name, whatever was
  sent and answered before: it gets channel 2, which the check of the driver lets pass
  (\<^verbatim>\<open>lcd_channel > MAX_LCD_PROBE_NUMS\<close>, where the table has just two entries, 0 and 1).
\<close>

theorem second_probe_undefined:
  assumes "drv_typed d" and "lcd_run ms (initLcd d) = Some s" and "lcd_getStatus 1 s = 1"
  shows "lcd_message_proc (TTYUSB_ADD n) s = None"
proof -
  have t: "lcd_typed s" using lcd_run_typed [OF assms(2) initLcd_typed [OF assms(1)]] .
  obtain i where i: "free_entry 0 (m_lcd_list s) = Some i" using one_used_free [OF t] .
  have "lcd_find 1 (m_lcd_list s)"
    using assms(3) by (simp add: lcd_getStatus_def split: if_splits)
  moreover have "\<not> lcd_find 2 (m_lcd_list s)"
    using t by (auto simp: lcd_find_iff lcd_typed_def)
  ultimately have "free_channel [1, 2, 3, 4] (m_lcd_list s) = 2" by simp
  moreover have "ca210_reset 2 (drv s) = None"
    using t by (simp add: ca210_reset_def bad_channel_def MAX_LCD_PROBE_NUMS_def probe_at_def
        lcd_typed_def drv_typed_def)
  ultimately show ?thesis using i by (simp add: ttyusb_add_def Let_def)
qed

theorem second_probe_undefined_witness:
  "\<exists>s. lcd_run [TTYUSB_ADD ''ttyUSB0''] (initLcd (ca210_start [7, 7])) = Some s
    \<and> lcd_message_proc (TTYUSB_ADD ''ttyUSB1'') s = None"
proof -
  obtain d' where "lcd_message_proc (TTYUSB_ADD ''ttyUSB0'') (initLcd (ca210_start [7, 7]))
      = Some ((initLcd (ca210_start [7, 7]))\<lparr>m_lcd_list :=
          [\<lparr>name = ''ttyUSB0'', channel = 1\<rparr>, lcd_zero, lcd_zero, lcd_zero],
          m_lcd_list_version := 1, drv := d'\<rparr>)" (is "_ = Some ?s")
    by (rule first_probe [OF drv_typed_start, of "[7, 7]" 7 7 "''ttyUSB0''"])
      (simp_all add: ca210_start_def quiet_kernel_def)
  then have "lcd_run [TTYUSB_ADD ''ttyUSB0''] (initLcd (ca210_start [7, 7])) = Some ?s" by simp
  moreover have "lcd_getStatus 1 ?s = 1" by (simp add: lcd_getStatus_def)
  ultimately have "lcd_message_proc (TTYUSB_ADD ''ttyUSB1'') ?s = None"
    by (intro second_probe_undefined [OF drv_typed_start])
  with \<open>lcd_run _ _ = Some ?s\<close> show ?thesis by blast
qed

end
