(* ===== verification/LocalDb.thy ===== *)
theory LocalDb
  imports LoopList CText
begin

text \<open>
  The record of the files of the pattern generator, \<^verbatim>\<open>pgDB/pgLocalDB.c\<close>: a loop queue of file
  records, filled from a table of a database at start-up and kept in step with it. The database is a
  parameter: what the statements of the module do to it, and what they report.
\<close>

section \<open>State\<close>

record local_file_info =
  fileName :: string
  fileTime :: int
  fileSize :: int
  fileStatus :: int

text \<open>
  The four statements and the table query. A number of rows or a table is \<open>None\<close> when the statement
  fails, and a change of the database comes with whether it succeeded.
\<close>

record 'db sqlite =
  sql_table :: "'db \<Rightarrow> string option list list option"
  sql_rows :: "string \<Rightarrow> 'db \<Rightarrow> nat option"
  sql_insert :: "string \<Rightarrow> int \<Rightarrow> int \<Rightarrow> 'db \<Rightarrow> bool \<times> 'db"
  sql_update :: "string \<Rightarrow> int \<Rightarrow> int \<Rightarrow> 'db \<Rightarrow> bool \<times> 'db"
  sql_delete :: "'db \<Rightarrow> bool \<times> 'db"

record 'db local_db =
  gDbLocal :: 'db
  loop_conns :: "local_file_info loop_list"
  cur_conns :: nat

definition MAX_FILES_NUM :: nat where "MAX_FILES_NUM = 1000"
definition LOCAL_FILE_NAME_LEN :: nat where "LOCAL_FILE_NAME_LEN = 128"

text \<open>Before its creation the queue is all zeros: adding to it divides by zero.\<close>

definition push_record :: "local_file_info \<Rightarrow> 'db local_db \<Rightarrow> 'db local_db option" where
  "push_record r s =
     (if ll_size (loop_conns s) = 0 then None
      else Some (s\<lparr>loop_conns := snd (loop_push_to_tail r (loop_conns s)),
                   cur_conns := (cur_conns s + 1) mod 65536\<rparr>))"

section \<open>Start-up\<close>

definition stringtoint :: "string option \<Rightarrow> int \<Rightarrow> int" where
  "stringtoint pString s32Default = (case pString of None \<Rightarrow> s32Default | Some t \<Rightarrow> strtol0 t)"

text \<open>
  The record of a row. A cell that is null does not advance the index, so the columns after it are
  taken from the same cell.
\<close>

definition cell :: "string option list \<Rightarrow> nat \<Rightarrow> string option option" where
  "cell result i = (if i < length result then Some (result ! i) else None)"

definition row_record :: "string option list \<Rightarrow> nat \<Rightarrow> local_file_info option" where
  "row_record result index = do {
     c \<leftarrow> cell result index;
     let (name, index) = (case c of None \<Rightarrow> ([], index) | Some t \<Rightarrow> (t, index + 1));
     c \<leftarrow> cell result index;
     let (tm, index) = (case c of None \<Rightarrow> (0, index) | Some t \<Rightarrow> (stringtoint c 0, index + 1));
     c \<leftarrow> cell result index;
     let (sz, index) = (case c of None \<Rightarrow> (0, index) | Some t \<Rightarrow> (stringtoint c 0, index + 1));
     c \<leftarrow> cell result index;
     let st = (case c of None \<Rightarrow> 0 | Some t \<Rightarrow> stringtoint c 0);
     if LOCAL_FILE_NAME_LEN \<le> length name then None
     else Some \<lparr>fileName = name, fileTime = tm, fileSize = sz, fileStatus = st\<rparr>
   }"

text \<open>The loop over the rows; \<open>column\<close> cells of headings come first.\<close>

fun load_rows :: "string option list \<Rightarrow> nat \<Rightarrow> nat \<Rightarrow> nat \<Rightarrow> 'db local_db \<Rightarrow> 'db local_db option" where
  "load_rows result column i 0 s = Some s"
| "load_rows result column i (Suc n) s = do {
     r \<leftarrow> row_record result ((i + 1) * column);
     s \<leftarrow> push_record r s;
     load_rows result column (i + 1) n s
   }"

text \<open>
  \<^verbatim>\<open>localDBInit\<close>: \<open>opened\<close> and \<open>created\<close> are the outcomes of opening the database and of creating
  the table, \<open>mem\<close> the fresh memory of the queue. The function ends without a value when it
  succeeds; the result is that of the failures, or \<open>0\<close>.
\<close>

definition localDBInit ::
  "'db sqlite \<Rightarrow> bool \<Rightarrow> bool \<Rightarrow> nat \<Rightarrow> local_file_info list \<Rightarrow> 'db local_db \<Rightarrow> (int \<times> 'db local_db) option" where
  "localDBInit q opened created column mem s =
     (let s = s\<lparr>loop_conns := \<lparr>ll_size = 0, ll_head = 0, ll_tail = 0, ll_items = [], ll_del = False\<rparr>, cur_conns := 0\<rparr> in
      if \<not> opened then Some (-1, s)
      else if \<not> created then Some (-2, s)
      else case sql_table q (gDbLocal s) of
        None \<Rightarrow> Some (-3, s)
      | Some rows \<Rightarrow> do {
          s \<leftarrow> load_rows (replicate column None @ concat rows) column 0 (length rows)
                 (s\<lparr>loop_conns := loop_create MAX_FILES_NUM True mem, cur_conns := 0\<rparr>);
          Some (0, s)
        })"

section \<open>Operations\<close>

text \<open>The text of a statement has to fit the buffer of 256 bytes, with room for two numbers.\<close>

definition name_fits :: "string \<Rightarrow> bool" where
  "name_fits n \<longleftrightarrow> length n + 44 < 256"

definition localDBAdd :: "'db sqlite \<Rightarrow> string \<Rightarrow> int \<Rightarrow> int \<Rightarrow> 'db local_db \<Rightarrow> (int \<times> 'db local_db) option" where
  "localDBAdd q pName tm sz s =
     (if \<not> name_fits pName then None
      else case sql_rows q pName (gDbLocal s) of
        None \<Rightarrow> Some (0, s)
      | Some row \<Rightarrow>
          if row > 0 then
            let (ok, db) = sql_update q pName tm sz (gDbLocal s) in Some (0, s\<lparr>gDbLocal := db\<rparr>)
          else
            let (ok, db) = sql_insert q pName tm sz (gDbLocal s); s = s\<lparr>gDbLocal := db\<rparr> in
            if \<not> ok then Some (-1, s)
            else if LOCAL_FILE_NAME_LEN \<le> length pName then None
            else map_option (Pair 0)
              (push_record \<lparr>fileName = pName, fileTime = tm, fileSize = sz, fileStatus = 0\<rparr> s))"

text \<open>The function has no result when it succeeds; the model returns \<open>0\<close>.\<close>

definition localDBUpdate :: "'db sqlite \<Rightarrow> string \<Rightarrow> int \<Rightarrow> int \<Rightarrow> 'db local_db \<Rightarrow> (int \<times> 'db local_db) option" where
  "localDBUpdate q pName tm sz s =
     (if \<not> name_fits pName then None
      else let (ok, db) = sql_update q pName tm sz (gDbLocal s) in
        Some (if ok then 0 else -1, s\<lparr>gDbLocal := db\<rparr>))"

definition searchParternName :: "string \<Rightarrow> local_file_info \<Rightarrow> bool" where
  "searchParternName n r \<longleftrightarrow> fileName r = n"

definition localDBGetRec :: "string \<Rightarrow> 'db local_db \<Rightarrow> local_file_info option option" where
  "localDBGetRec pName s = loop_search (searchParternName pName) (loop_conns s)"

text \<open>\<^verbatim>\<open>localDBDelete\<close> deletes nothing: it reports whether the file is known.\<close>

definition localDBDelete :: "string \<Rightarrow> 'db local_db \<Rightarrow> int option" where
  "localDBDelete pName s =
     map_option (\<lambda>r. if r = None then -1 else 0) (loop_search (searchParternName pName) (loop_conns s))"

text \<open>The queue is emptied, the count stays.\<close>

definition localDBDelAll :: "'db sqlite \<Rightarrow> 'db local_db \<Rightarrow> (int \<times> 'db local_db) option" where
  "localDBDelAll q s =
     (let (ok, db) = sql_delete q (gDbLocal s); s = s\<lparr>gDbLocal := db\<rparr> in
      if \<not> ok then Some (-1, s)
      else do {
        (_, l) \<leftarrow> loop_clear (loop_conns s);
        Some (0, s\<lparr>loop_conns := l\<rparr>)
      })"

text \<open>
  A caller that changes the record it was given changes the one in the queue
  (\<^verbatim>\<open>client_pg_syncFile\<close>).
\<close>

definition update_record ::
  "string \<Rightarrow> (local_file_info \<Rightarrow> local_file_info) \<Rightarrow> 'db local_db \<Rightarrow> 'db local_db option" where
  "update_record pName f s = do {
     i \<leftarrow> search_loop (searchParternName pName) (loop_conns s) (ll_head (loop_conns s));
     let l = loop_conns s;
     Some (if i \<noteq> ll_tail l
           then s\<lparr>loop_conns := l\<lparr>ll_items := (ll_items l)[i := f (ll_items l ! i)]\<rparr>\<rparr> else s)
   }"

section \<open>The records as a list\<close>

definition db_inv :: "'db local_db \<Rightarrow> bool" where
  "db_inv s \<longleftrightarrow> loop_inv (loop_conns s)"

definition records :: "'db local_db \<Rightarrow> local_file_info list" where
  "records s = loop_items (loop_conns s)"

definition room :: "'db local_db \<Rightarrow> nat" where
  "room s = loop_cap (loop_conns s) - length (records s)"

definition known :: "string \<Rightarrow> 'db local_db \<Rightarrow> bool" where
  "known n s \<longleftrightarrow> n \<in> fileName ` set (records s)"

lemma get_rec: "db_inv s \<Longrightarrow> localDBGetRec n s = Some (List.find (\<lambda>r. fileName r = n) (records s))"
  by (simp add: localDBGetRec_def db_inv_def loop_search_law records_def searchParternName_def [abs_def])

lemma push_record_room:
  assumes "db_inv s" and "0 < room s"
  obtains s' where "push_record r s = Some s'" "db_inv s'" "records s' = records s @ [r]"
    "room s' = room s - 1" "gDbLocal s' = gDbLocal s"
proof -
  obtain del l' where p: "loop_push_to_tail r (loop_conns s) = (del, l')" by fastforce
  have "ll_size (loop_conns s) \<noteq> 0"
    using assms(1) loop_invD(1) by (fastforce simp: db_inv_def)
  moreover from push_tail_law [OF _ p] assms have
    "loop_inv l'" "loop_cap l' = loop_cap (loop_conns s)" "loop_items l' = records s @ [r]"
    by (auto simp: db_inv_def room_def records_def)
  ultimately show thesis
    using p that by (simp add: push_record_def db_inv_def records_def room_def)
qed

lemma del_all:
  assumes "db_inv s" and "sql_delete q (gDbLocal s) = (True, db)"
  obtains s' where "localDBDelAll q s = Some (0, s')" "db_inv s'" "records s' = []"
    "room s' = loop_cap (loop_conns s)" "gDbLocal s' = db"
proof -
  let ?l = "loop_conns s"
  have inv: "loop_inv ?l" using assms(1) by (simp add: db_inv_def)
  have "del_loop ?l (ll_head ?l) [] = Some (loop_items ?l)"
    using del_loop_law [OF inv, of 0 "[]"] loop_invD(3) [OF inv] by simp
  then obtain del where "(if ll_del ?l then del_loop ?l (ll_head ?l) [] else Some []) = Some del"
    by (cases "ll_del ?l") simp_all
  then have "loop_clear ?l = Some (del, ?l\<lparr>ll_head := 0, ll_tail := 0\<rparr>)" by (simp only: loop_clear_def bind.simps)
  moreover have "loop_inv (?l\<lparr>ll_head := 0, ll_tail := 0\<rparr>)"
    using inv by (simp add: loop_inv_def)
  ultimately show thesis
    using assms(2) that
    by (simp add: localDBDelAll_def db_inv_def records_def room_def loop_items_def
        loop_len_def loop_cap_def)
qed

text \<open>Changing the record of a file in place.\<close>

fun update_first :: "('a \<Rightarrow> bool) \<Rightarrow> ('a \<Rightarrow> 'a) \<Rightarrow> 'a list \<Rightarrow> 'a list" where
  "update_first P f [] = []"
| "update_first P f (x # xs) = (if P x then f x # xs else x # update_first P f xs)"

lemma update_first_takeWhile:
  "update_first P f xs =
    (let j = length (takeWhile (\<lambda>x. \<not> P x) xs) in if j < length xs then xs[j := f (xs ! j)] else xs)"
  by (induction xs) (auto simp: Let_def)

lemma length_update_first [simp]: "length (update_first P f xs) = length xs"
  by (induction xs) auto

lemma update_record_items:
  assumes "db_inv s"
  obtains s' where "update_record n f s = Some s'" "db_inv s'" "gDbLocal s' = gDbLocal s"
    "records s' = update_first (\<lambda>r. fileName r = n) f (records s)" "room s' = room s"
proof -
  let ?l = "loop_conns s" and ?P = "searchParternName n"
  let ?j = "length (takeWhile (\<lambda>r. \<not> ?P r) (records s))"
  have inv: "loop_inv ?l" using assms by (simp add: db_inv_def)
  note rng = loop_invD [OF inv]
  have s: "search_loop ?P ?l (ll_head ?l) = Some ((ll_head ?l + ?j) mod ll_size ?l)"
    using search_loop_law [OF inv, of 0 ?P] rng(3) by (simp add: records_def)
  have P: "?P = (\<lambda>r. fileName r = n)" by (simp add: searchParternName_def [abs_def])
  have "?j \<le> loop_len ?l" using length_takeWhile_le [of _ "loop_items ?l"] by (simp add: records_def)
  then consider "?j = loop_len ?l" | "?j < loop_len ?l" by linarith
  then show thesis
  proof cases
    case 1
    then have "update_first ?P f (records s) = records s"
      by (simp add: update_first_takeWhile records_def)
    moreover have "update_record n f s = Some s"
      using s 1 loop_len_tail [OF inv] by (simp add: update_record_def Let_def)
    ultimately show thesis using that [of s] assms P by simp
  next
    case 2
    let ?i = "(ll_head ?l + ?j) mod ll_size ?l"
    let ?l' = "?l\<lparr>ll_items := (ll_items ?l)[?i := f (ll_items ?l ! ?i)]\<rparr>"
    note at = walk_at [OF inv 2]
    have inv': "loop_inv ?l'" using inv by (simp add: loop_inv_def)
    have len: "loop_len ?l' = loop_len ?l" by (simp add: loop_len_def)
    have "loop_items ?l' = (loop_items ?l)[?j := f (loop_items ?l ! ?j)]"
    proof (rule nth_equalityI)
      fix k assume "k < length (loop_items ?l')"
      then have k: "k < loop_len ?l" using len by simp
      have "(ll_head ?l + k) mod ll_size ?l = ?i \<longleftrightarrow> k = ?j"
        using ring_index_inj [of "ll_head ?l" "ll_size ?l" k ?j] rng(3) k 2 loop_len_bound [OF inv]
        by auto
      then show "loop_items ?l' ! k = (loop_items ?l)[?j := f (loop_items ?l ! ?j)] ! k"
        using k 2 at(2) rng len
        by (auto simp: loop_items_def nth_list_update)
    qed (simp add: len)
    then have "records (s\<lparr>loop_conns := ?l'\<rparr>) = update_first ?P f (records s)"
      using 2 by (simp add: update_first_takeWhile records_def Let_def)
    moreover have "update_record n f s = Some (s\<lparr>loop_conns := ?l'\<rparr>)"
      using s at(1) by (simp add: update_record_def Let_def)
    ultimately show thesis
      using that [of "s\<lparr>loop_conns := ?l'\<rparr>"] inv' P len
      by (simp add: db_inv_def room_def records_def loop_cap_def)
  qed
qed

end
