(* ===== verification/FileSync.thy ===== *)
theory FileSync
  imports LocalDb
begin

text \<open>
  The synchronisation of files with the server: the list of transfers and the requests
  (\<^verbatim>\<open>client.c\<close>), the messages that start a synchronisation and bring the pieces of a file
  (\<^verbatim>\<open>msgProc\<close> of \<^verbatim>\<open>clirecvcmd5srv.c\<close>), and what is done with a complete file
  (\<^verbatim>\<open>client_pg_syncFile\<close> of \<^verbatim>\<open>clipg.c\<close>), over the record of files (theory \<open>LocalDb\<close>) and the loop
  queue. A message is given with the values its JSON text holds; the
  name of the test module, which goes to a configuration file, is left out. A transfer is a block of the heap;
  its address goes to the server and comes back with the pieces.
\<close>

section \<open>State\<close>

text \<open>
  The buffer of a file is the bytes written to it so far, at the front of a block of \<open>rfiSize\<close>.
\<close>

record recv_file_info =
  rfiName :: string
  rfiSize :: int
  rfiTime :: int
  pFileData :: "u8 list option"
  actRecvSize :: int

datatype recv_fn = client_pg_syncFile | client_pg_downFile string

record recv_file_info_set =
  curNo :: nat
  totalFilesNums :: nat
  pRecv_file_info :: "recv_file_info list"
  fn_recv_file :: recv_fn

datatype sync_event =
    Request string ptr
  | Progress int
  | Converted_picture string
  | Finished

record 'db sync_state =
  sets :: "ptr \<Rightarrow> recv_file_info_set option"
  next_block :: ptr
  s_recv_file_list :: "ptr loop_list"
  local_files :: "'db local_db"
  disk :: "string \<Rightarrow> u8 list option"
  events :: "sync_event list"

type_synonym file_entry = "string \<times> int \<times> int"

datatype srv_msg =
    MSG_SYNCFILE "file_entry list"
  | MSG_COMPLETESYNC "file_entry list"
  | MSG_UPDATEFILE string string string
  | FILE_BEGIN ptr
  | FILE_BODY ptr "u8 list"
  | FILE_OVER ptr

abbreviation emit :: "sync_event \<Rightarrow> 'db sync_state \<Rightarrow> 'db sync_state" where
  "emit e s \<equiv> s\<lparr>events := events s @ [e]\<rparr>"

section \<open>The list of transfers\<close>

definition recv_file_list_init :: "ptr list \<Rightarrow> 'db sync_state \<Rightarrow> 'db sync_state" where
  "recv_file_list_init mem s = s\<lparr>s_recv_file_list := loop_create 10 False mem\<rparr>"

definition recv_file_list_insert :: "ptr \<Rightarrow> 'db sync_state \<Rightarrow> 'db sync_state option" where
  "recv_file_list_insert p s =
     (if ll_size (s_recv_file_list s) = 0 then None
      else Some (s\<lparr>s_recv_file_list := snd (loop_push_to_tail p (s_recv_file_list s))\<rparr>))"

definition searchRecvConn :: "ptr \<Rightarrow> ptr \<Rightarrow> bool" where
  "searchRecvConn precv precvConn \<longleftrightarrow> (if precvConn = 0 \<or> precv = 0 then False else precvConn = precv)"

text \<open>The result \<open>0\<close> is the null pointer.\<close>

definition recv_file_list_get :: "ptr \<Rightarrow> 'db sync_state \<Rightarrow> ptr option" where
  "recv_file_list_get p s =
     map_option (case_option 0 id) (loop_search (searchRecvConn p) (s_recv_file_list s))"

definition recv_file_list_del :: "ptr \<Rightarrow> 'db sync_state \<Rightarrow> 'db sync_state option" where
  "recv_file_list_del pData s = do {
     p \<leftarrow> recv_file_list_get pData s;
     l \<leftarrow> loop_remove p (s_recv_file_list s);
     Some (s\<lparr>s_recv_file_list := l\<rparr>)
   }"

section \<open>Requests\<close>

definition get_cur_file_info :: "recv_file_info_set \<Rightarrow> recv_file_info option" where
  "get_cur_file_info fs =
     (if curNo fs < totalFilesNums fs then Some (pRecv_file_info fs ! curNo fs) else None)"

definition add_file_index :: "recv_file_info_set \<Rightarrow> recv_file_info_set" where
  "add_file_index fs = fs\<lparr>curNo := curNo fs + 1\<rparr>"

definition find_file_from_local_db :: "string \<Rightarrow> int \<Rightarrow> int \<Rightarrow> 'db local_db \<Rightarrow> bool option" where
  "find_file_from_local_db pFileName u32FileSize u32FileTime d = do {
     r \<leftarrow> localDBGetRec pFileName d;
     Some (case r of None \<Rightarrow> False
           | Some r \<Rightarrow> fileTime r = u32FileTime \<and> fileSize r = u32FileSize)
   }"

text \<open>The loop of \<^verbatim>\<open>client_getFileFromSet\<close> over the files that are left, which it counts.\<close>

fun skip_known :: "'db local_db \<Rightarrow> recv_file_info list \<Rightarrow> nat option" where
  "skip_known d [] = Some 0"
| "skip_known d (f # fs) = do {
     found \<leftarrow> find_file_from_local_db (rfiName f) (rfiSize f) (rfiTime f) d;
     if found then map_option Suc (skip_known d fs) else Some 0
   }"

definition client_getFile :: "string \<Rightarrow> ptr \<Rightarrow> 'db sync_state \<Rightarrow> 'db sync_state" where
  "client_getFile pFileName infoSet s = emit (Request pFileName infoSet) s"

definition client_getFileFromSet :: "ptr \<Rightarrow> 'db sync_state \<Rightarrow> (int \<times> 'db sync_state) option" where
  "client_getFileFromSet p s = do {
     fs \<leftarrow> sets s p;
     n \<leftarrow> skip_known (local_files s) (drop (curNo fs) (take (totalFilesNums fs) (pRecv_file_info fs)));
     let fs = fs\<lparr>curNo := curNo fs + n\<rparr>;
     let s = s\<lparr>sets := (sets s)(p := Some fs)\<rparr>;
     Some (case get_cur_file_info fs of
             Some f \<Rightarrow> (0, client_getFile (rfiName f) p s)
           | None \<Rightarrow> (-1, s))
   }"

text \<open>Asking for the next file, or ending the synchronisation.\<close>

definition next_or_finish :: "ptr \<Rightarrow> 'db sync_state \<Rightarrow> 'db sync_state option" where
  "next_or_finish p s = do {
     (ret, s) \<leftarrow> client_getFileFromSet p s;
     if ret \<noteq> 0 then do {
       s \<leftarrow> recv_file_list_del p s;
       Some (emit Finished (s\<lparr>sets := (sets s)(p := None)\<rparr>))
     }
     else Some s
   }"

section \<open>Complete files\<close>

definition dst_name :: "string \<Rightarrow> string" where
  "dst_name n = ''./'' @ n"

fun contains_text :: "string \<Rightarrow> string \<Rightarrow> bool" where
  "contains_text [] key = (key = [])"
| "contains_text (c # t) key = (take (length key) (c # t) = key \<or> contains_text t key)"

text \<open>
  \<^verbatim>\<open>client_pg_syncFile\<close>. Without a current file it frees the transfer and then uses it. The file
  system is assumed to take the file.
\<close>

definition pg_syncFile :: "'db sqlite \<Rightarrow> ptr \<Rightarrow> 'db sync_state \<Rightarrow> 'db sync_state option" where
  "pg_syncFile q p s = do {
     fs \<leftarrow> sets s p;
     f \<leftarrow> get_cur_file_info fs;
     let dst_file = dst_name (rfiName f);
     data \<leftarrow> (if rfiSize f \<le> 0 then Some []
       else case pFileData f of None \<Rightarrow> None
         | Some d \<Rightarrow> if length d = nat (rfiSize f) then Some d else None);
     if 256 \<le> length dst_file then None
     else do {
       let s = s\<lparr>disk := (disk s)(dst_file := Some data)\<rparr>;
       let s = (if contains_text dst_file ''imageOrigin'' then emit (Converted_picture dst_file) s else s);
       r \<leftarrow> localDBGetRec (rfiName f) (local_files s);
       d \<leftarrow> (if r \<noteq> None then do {
           d \<leftarrow> update_record (rfiName f) (\<lambda>r. r\<lparr>fileSize := rfiSize f, fileTime := rfiTime f\<rparr>) (local_files s);
           map_option snd (localDBUpdate q (rfiName f) (rfiTime f) (rfiSize f) d)
         }
         else map_option snd (localDBAdd q (rfiName f) (rfiTime f) (rfiSize f) (local_files s)));
       let s = emit (Progress ((int (curNo fs) + 1) * 100 div int (totalFilesNums fs))) (s\<lparr>local_files := d\<rparr>);
       next_or_finish p (s\<lparr>sets := (sets s)(p := Some (add_file_index fs))\<rparr>)
     }
   }"

definition pg_downFile :: "string \<Rightarrow> ptr \<Rightarrow> 'db sync_state \<Rightarrow> 'db sync_state option" where
  "pg_downFile dst p s = do {
     fs \<leftarrow> sets s p;
     f \<leftarrow> get_cur_file_info fs;
     data \<leftarrow> (if actRecvSize f \<le> 0 then Some [] else pFileData f);
     if 256 \<le> length dst then None
     else Some (s\<lparr>disk := (disk s)(dst := Some data)\<rparr>)
   }"

section \<open>Messages\<close>

definition file_info_of :: "file_entry \<Rightarrow> recv_file_info" where
  "file_info_of e = (case e of (n, sz, tm) \<Rightarrow>
     \<lparr>rfiName = n, rfiSize = sz, rfiTime = tm, pFileData = None, actRecvSize = 0\<rparr>)"

definition new_set :: "file_entry list \<Rightarrow> recv_file_info_set" where
  "new_set es = \<lparr>curNo = 0, totalFilesNums = length es, pRecv_file_info = map file_info_of es,
     fn_recv_file = client_pg_syncFile\<rparr>"

text \<open>A new transfer in the list; the names go to buffers of 256 bytes.\<close>

definition start_set :: "file_entry list \<Rightarrow> 'db sync_state \<Rightarrow> (ptr \<times> 'db sync_state) option" where
  "start_set es s =
     (let p = next_block s in
      if \<exists>e\<in>set es. 256 \<le> length (fst e) then None
      else do {
        s \<leftarrow> recv_file_list_insert p s;
        Some (p, s\<lparr>sets := (sets s)(p := Some (new_set es)), next_block := next_block s + 1\<rparr>)
      })"

definition msg_syncfile :: "file_entry list \<Rightarrow> 'db sync_state \<Rightarrow> 'db sync_state option" where
  "msg_syncfile es s = do {
     (p, s) \<leftarrow> start_set es s;
     next_or_finish p s
   }"

text \<open>\<^verbatim>\<open>rm -rf ./cfg/*\<close>, which spares the names that start with a dot.\<close>

definition remove_cfg :: "(string \<Rightarrow> u8 list option) \<Rightarrow> string \<Rightarrow> u8 list option" where
  "remove_cfg d n = (if take 6 n = ''./cfg/'' \<and> take 1 (drop 6 n) \<noteq> ''.'' then None else d n)"

definition msg_completesync :: "'db sqlite \<Rightarrow> file_entry list \<Rightarrow> 'db sync_state \<Rightarrow> 'db sync_state option" where
  "msg_completesync q es s = do {
     (p, s) \<leftarrow> start_set es s;
     (_, d) \<leftarrow> localDBDelAll q (local_files s);
     next_or_finish p (s\<lparr>disk := remove_cfg (disk s), local_files := d\<rparr>)
   }"

text \<open>A single file is asked for with a transfer that is not in the list. Its type goes to a buffer of 16
  bytes.\<close>

definition msg_updatefile :: "string \<Rightarrow> string \<Rightarrow> string \<Rightarrow> 'db sync_state \<Rightarrow> 'db sync_state option" where
  "msg_updatefile src type dst s =
     (if 256 \<le> length src \<or> 16 \<le> length type \<or> 256 \<le> length dst then None
      else
        let p = next_block s;
            fs = \<lparr>curNo = 0, totalFilesNums = 1, pRecv_file_info = [file_info_of (src, 0, 0)],
                  fn_recv_file = client_pg_downFile dst\<rparr> in
        Some (client_getFile src p (s\<lparr>sets := (sets s)(p := Some fs), next_block := next_block s + 1\<rparr>)))"

definition cur_transfer :: "ptr \<Rightarrow> 'db sync_state \<Rightarrow> (ptr \<times> recv_file_info_set \<times> recv_file_info) option" where
  "cur_transfer ipnum s = do {
     p \<leftarrow> recv_file_list_get ipnum s;
     if p = 0 then None
     else do {
       fs \<leftarrow> sets s p;
       f \<leftarrow> get_cur_file_info fs;
       Some (p, fs, f)
     }
   }"

definition put_info :: "ptr \<Rightarrow> nat \<Rightarrow> recv_file_info \<Rightarrow> 'db sync_state \<Rightarrow> 'db sync_state" where
  "put_info p i f s = s\<lparr>sets := (sets s)(p := map_option
     (\<lambda>fs. fs\<lparr>pRecv_file_info := (pRecv_file_info fs)[i := f]\<rparr>) (sets s p))\<rparr>"

definition msg_file_begin :: "ptr \<Rightarrow> 'db sync_state \<Rightarrow> 'db sync_state option" where
  "msg_file_begin ipnum s = do {
     (p, fs, f) \<leftarrow> cur_transfer ipnum s;
     Some (put_info p (curNo fs)
       (f\<lparr>pFileData := (if rfiSize f < 0 then None else Some []), actRecvSize := 0\<rparr>) s)
   }"

text \<open>The length is unsigned, and so is the comparison with the size.\<close>

definition msg_file_body :: "ptr \<Rightarrow> u8 list \<Rightarrow> 'db sync_state \<Rightarrow> 'db sync_state option" where
  "msg_file_body ipnum body s = do {
     (p, fs, f) \<leftarrow> cur_transfer ipnum s;
     let len = int (length body);
     if (actRecvSize f + len) mod 2 ^ 32 \<le> rfiSize f mod 2 ^ 32 \<or> rfiSize f = 0 then
       case pFileData f of
         None \<Rightarrow> None
       | Some d \<Rightarrow>
           if actRecvSize f + len \<le> rfiSize f
           then Some (put_info p (curNo fs) (f\<lparr>pFileData := Some (d @ body), actRecvSize := actRecvSize f + len\<rparr>) s)
           else None
     else Some s
   }"

definition msg_file_over :: "'db sqlite \<Rightarrow> ptr \<Rightarrow> 'db sync_state \<Rightarrow> 'db sync_state option" where
  "msg_file_over q ipnum s = do {
     (p, fs, f) \<leftarrow> cur_transfer ipnum s;
     if rfiSize f = actRecvSize f \<or> rfiSize f = 0 then do {
       s \<leftarrow> (case fn_recv_file fs of
           client_pg_syncFile \<Rightarrow> pg_syncFile q p s
         | client_pg_downFile dst \<Rightarrow> pg_downFile dst p s);
       Some (put_info p (curNo fs) (f\<lparr>pFileData := None\<rparr>) s)
     }
     else Some s
   }"

fun msgProc :: "'db sqlite \<Rightarrow> srv_msg \<Rightarrow> 'db sync_state \<Rightarrow> 'db sync_state option" where
  "msgProc q (MSG_SYNCFILE es) s = msg_syncfile es s"
| "msgProc q (MSG_COMPLETESYNC es) s = msg_completesync q es s"
| "msgProc q (MSG_UPDATEFILE src type dst) s = msg_updatefile src type dst s"
| "msgProc q (FILE_BEGIN p) s = msg_file_begin p s"
| "msgProc q (FILE_BODY p body) s = msg_file_body p body s"
| "msgProc q (FILE_OVER p) s = msg_file_over q p s"

fun run_msgs :: "'db sqlite \<Rightarrow> srv_msg list \<Rightarrow> 'db sync_state \<Rightarrow> 'db sync_state option" where
  "run_msgs q [] s = Some s"
| "run_msgs q (m # ms) s = Option.bind (msgProc q m s) (run_msgs q ms)"

section \<open>The record of files during a synchronisation\<close>

text \<open>
  What the module relies on of the database, for the names a statement can quote: \<open>has\<close> are the
  names in the table, a query finds them, inserting and updating succeed and keep them.
\<close>

definition plain_name :: "string \<Rightarrow> bool" where
  "plain_name n \<longleftrightarrow> length n < LOCAL_FILE_NAME_LEN \<and> CHR 0x27 \<notin> set n"

definition sql_laws :: "'db sqlite \<Rightarrow> ('db \<Rightarrow> string set) \<Rightarrow> bool" where
  "sql_laws q has \<longleftrightarrow>
     (\<forall>n d. plain_name n \<longrightarrow> sql_rows q n d = Some (if n \<in> has d then 1 else 0))
   \<and> (\<forall>n t z d. plain_name n \<longrightarrow> fst (sql_insert q n t z d) \<and> has (snd (sql_insert q n t z d)) = insert n (has d))
   \<and> (\<forall>n t z d. plain_name n \<longrightarrow> fst (sql_update q n t z d) \<and> has (snd (sql_update q n t z d)) = has d)
   \<and> (\<forall>d. fst (sql_delete q d) \<and> has (snd (sql_delete q d)) = {})"

lemma sql_insert_law:
  assumes "sql_laws q has" and "plain_name n"
  shows "\<exists>d'. sql_insert q n t z d = (True, d') \<and> has d' = insert n (has d)"
proof -
  have "fst (sql_insert q n t z d) \<and> has (snd (sql_insert q n t z d)) = insert n (has d)"
    using assms unfolding sql_laws_def by blast
  then show ?thesis by (cases "sql_insert q n t z d") simp
qed

lemma sql_update_law:
  assumes "sql_laws q has" and "plain_name n"
  shows "\<exists>d'. sql_update q n t z d = (True, d') \<and> has d' = has d"
proof -
  have "fst (sql_update q n t z d) \<and> has (snd (sql_update q n t z d)) = has d"
    using assms unfolding sql_laws_def by blast
  then show ?thesis by (cases "sql_update q n t z d") simp
qed

definition in_step :: "('db \<Rightarrow> string set) \<Rightarrow> 'db local_db \<Rightarrow> bool" where
  "in_step has d \<longleftrightarrow> db_inv d \<and> has (gDbLocal d) = fileName ` set (records d)"

definition current :: "'db local_db \<Rightarrow> file_entry \<Rightarrow> bool" where
  "current d e = (case e of (n, sz, tm) \<Rightarrow>
     (case List.find (\<lambda>r. fileName r = n) (records d) of None \<Rightarrow> False
      | Some r \<Rightarrow> fileTime r = tm \<and> fileSize r = sz))"

definition wanted :: "'db local_db \<Rightarrow> file_entry list \<Rightarrow> file_entry list" where
  "wanted d es = filter (\<lambda>e. \<not> current d e) es"

lemma find_known:
  "db_inv d \<Longrightarrow> find_file_from_local_db n sz tm d = Some (current d (n, sz, tm))"
  by (simp add: find_file_from_local_db_def get_rec current_def)

lemma name_fits_plain: "plain_name n \<Longrightarrow> name_fits n"
  by (simp add: plain_name_def name_fits_def LOCAL_FILE_NAME_LEN_def)

lemma find_update_first:
  assumes "\<And>r. fileName (f r) = fileName r"
  shows "List.find (\<lambda>r. fileName r = n) (update_first (\<lambda>r. fileName r = m) f rs)
       = (if n = m then map_option f (List.find (\<lambda>r. fileName r = n) rs)
          else List.find (\<lambda>r. fileName r = n) rs)"
  using assms by (induction rs) auto

lemma find_append:
  "List.find P (xs @ ys) = (case List.find P xs of None \<Rightarrow> List.find P ys | Some x \<Rightarrow> Some x)"
  by (induction xs) auto

lemma names_update_first:
  assumes "\<And>r. fileName (f r) = fileName r"
  shows "fileName ` set (update_first P f rs) = fileName ` set rs"
  using assms by (induction rs) auto

text \<open>Recording a file, in the queue and in the database.\<close>

definition record_file :: "'db sqlite \<Rightarrow> file_entry \<Rightarrow> 'db local_db \<Rightarrow> 'db local_db option" where
  "record_file q e d = (case e of (n, sz, tm) \<Rightarrow> do {
     r \<leftarrow> localDBGetRec n d;
     if r \<noteq> None then do {
       d \<leftarrow> update_record n (\<lambda>r. r\<lparr>fileSize := sz, fileTime := tm\<rparr>) d;
       map_option snd (localDBUpdate q n tm sz d)
     }
     else map_option snd (localDBAdd q n tm sz d)
   })"

lemma record_file_current:
  assumes "sql_laws q has" and "in_step has d" and "plain_name (fst e)"
    and "room d > 0 \<or> known (fst e) d"
  obtains d' where "record_file q e d = Some d'" "in_step has d'" "current d' e"
    "\<And>e'. fst e' \<noteq> fst e \<Longrightarrow> current d' e' = current d e'"
    "room d \<le> room d' + 1" "\<And>m. known m d \<Longrightarrow> known m d'"
proof -
  obtain n sz tm where e: "e = (n, sz, tm)" by (cases e)
  have inv: "db_inv d" and has: "has (gDbLocal d) = fileName ` set (records d)"
    using assms(2) by (simp_all add: in_step_def)
  have plain: "plain_name n" "name_fits n" using assms(3) e name_fits_plain by auto
  show thesis
  proof (cases "List.find (\<lambda>r. fileName r = n) (records d)")
    case None
    then have new: "n \<notin> fileName ` set (records d)" by (auto simp: find_None_iff)
    then have "room d > 0" using assms(4) e by (simp add: known_def)
    obtain db' where ins: "sql_insert q n tm sz (gDbLocal d) = (True, db')"
        "has db' = insert n (has (gDbLocal d))"
      using sql_insert_law [OF assms(1) plain(1)] by blast
    let ?d = "d\<lparr>gDbLocal := db'\<rparr>" and ?r = "\<lparr>fileName = n, fileTime = tm, fileSize = sz, fileStatus = 0\<rparr>"
    have "db_inv ?d" "room ?d = room d" "records ?d = records d"
      using inv by (simp_all add: db_inv_def room_def records_def)
    with \<open>room d > 0\<close> have pre: "db_inv ?d" "0 < room ?d" by simp_all
    obtain d' where push: "push_record ?r ?d = Some d'" "db_inv d'"
      "records d' = records d @ [?r]" "room d' = room d - 1" "gDbLocal d' = db'"
      using push_record_room [OF pre, of ?r] \<open>records ?d = records d\<close> \<open>room ?d = room d\<close> by auto
    have "sql_rows q n (gDbLocal d) = Some 0"
      using assms(1) plain(1) new has unfolding sql_laws_def by simp
    then have "record_file q e d = Some d'"
      using None inv plain ins push(1)
      by (simp add: record_file_def e get_rec localDBAdd_def plain_name_def)
    moreover have "current d' e' = current d e'" if "fst e' \<noteq> n" for e'
      using that by (cases e') (auto simp: current_def push(3) find_append split: option.splits)
    moreover have "current d' e" using None by (simp add: current_def e push(3) find_append)
    ultimately show thesis
      using that push ins(2) has e by (auto simp: in_step_def known_def)
  next
    case (Some r)
    then have "n \<in> fileName ` set (records d)" by (auto simp: find_Some_iff)
    let ?f = "\<lambda>r. r\<lparr>fileSize := sz, fileTime := tm\<rparr>"
    obtain d1 where upd: "update_record n ?f d = Some d1" "db_inv d1" "gDbLocal d1 = gDbLocal d"
      "records d1 = update_first (\<lambda>r. fileName r = n) ?f (records d)" "room d1 = room d"
      using update_record_items [OF inv] .
    obtain db' where sql: "sql_update q n tm sz (gDbLocal d1) = (True, db')" "has db' = has (gDbLocal d)"
      using sql_update_law [OF assms(1) plain(1)] upd(3) by metis
    let ?d = "d1\<lparr>gDbLocal := db'\<rparr>"
    have d': "db_inv ?d" "room ?d = room d" "records ?d = records d1"
      using upd by (simp_all add: db_inv_def room_def records_def)
    have "record_file q e d = Some ?d"
      using Some inv plain(2) upd(1) sql(1)
      by (simp add: record_file_def e get_rec localDBUpdate_def)
    moreover have "fileName ` set (records ?d) = fileName ` set (records d)"
      by (simp only: d'(3) upd(4)) (rule names_update_first, simp)
    moreover have "current ?d e' = (if fst e' = n then snd e' = (sz, tm) else current d e')" for e'
      using Some by (cases e') (auto simp: current_def d'(3) upd(4) find_update_first)
    ultimately show thesis
      using that [of ?d] d' sql(2) has e by (auto simp: in_step_def known_def)
  qed
qed

section \<open>One file\<close>

definition listed :: "ptr \<Rightarrow> 'db sync_state \<Rightarrow> bool" where
  "listed p s \<longleftrightarrow> p \<noteq> 0 \<and> loop_inv (s_recv_file_list s) \<and> p \<in> set (loop_items (s_recv_file_list s))"

lemma find_conn: "p \<in> set xs \<Longrightarrow> p \<noteq> 0 \<Longrightarrow> List.find (searchRecvConn p) xs = Some p"
  by (induction xs) (auto simp: searchRecvConn_def)

lemma list_get: "listed p s \<Longrightarrow> recv_file_list_get p s = Some p"
proof -
  assume l: "listed p s"
  have "List.find (searchRecvConn p) (loop_items (s_recv_file_list s)) = Some p"
    using l by (simp add: listed_def find_conn)
  then show ?thesis
    using l by (simp add: recv_file_list_get_def listed_def loop_search_law)
qed

lemma list_del:
  assumes "listed p s"
  obtains l where "recv_file_list_del p s = Some (s\<lparr>s_recv_file_list := l\<rparr>)" "loop_inv l"
    "loop_items l = remove1 p (loop_items (s_recv_file_list s))" "loop_cap l = loop_cap (s_recv_file_list s)"
  using loop_remove_law [of "s_recv_file_list s" p] list_get [OF assms] assms that
  by (auto simp: recv_file_list_del_def listed_def)

text \<open>A transfer whose current file is \<open>f\<close>.\<close>

definition transferring :: "ptr \<Rightarrow> recv_file_info_set \<Rightarrow> recv_file_info \<Rightarrow> 'db sync_state \<Rightarrow> bool" where
  "transferring p fs f s \<longleftrightarrow> listed p s \<and> sets s p = Some fs \<and> curNo fs < totalFilesNums fs
     \<and> totalFilesNums fs = length (pRecv_file_info fs) \<and> pRecv_file_info fs ! curNo fs = f"

definition put_file :: "recv_file_info \<Rightarrow> recv_file_info_set \<Rightarrow> recv_file_info_set" where
  "put_file f fs = fs\<lparr>pRecv_file_info := (pRecv_file_info fs)[curNo fs := f]\<rparr>"

lemma put_file_facts [simp]:
  "curNo (put_file f fs) = curNo fs" "totalFilesNums (put_file f fs) = totalFilesNums fs"
  "fn_recv_file (put_file f fs) = fn_recv_file fs"
  "pRecv_file_info (put_file f fs) = (pRecv_file_info fs)[curNo fs := f]"
  "put_file f (put_file g fs) = put_file f fs"
  by (simp_all add: put_file_def)

lemma transferring_cur: "transferring p fs f s \<Longrightarrow> cur_transfer p s = Some (p, fs, f)"
  by (simp add: transferring_def cur_transfer_def list_get listed_def get_cur_file_info_def)

lemma put_info_file:
  "sets s p = Some fs \<Longrightarrow> put_info p (curNo fs) f s = s\<lparr>sets := (sets s)(p := Some (put_file f fs))\<rparr>"
  by (simp add: put_info_def put_file_def)

lemma transferring_put:
  assumes "transferring p fs f s"
  shows "transferring p (put_file g fs) g (s\<lparr>sets := (sets s)(p := Some (put_file g fs))\<rparr>)"
  using assms by (simp add: transferring_def listed_def)

lemma bodies_run:
  assumes "transferring p fs f s" and "pFileData f = Some d" and "actRecvSize f = int (length d)"
    and "int (length d + length (concat bs)) \<le> rfiSize f" and "rfiSize f < 2 ^ 31"
  shows "run_msgs q (map (FILE_BODY p) bs) s = Some (s\<lparr>sets := (sets s)(p := Some (put_file
      (f\<lparr>pFileData := Some (d @ concat bs), actRecvSize := int (length (d @ concat bs))\<rparr>) fs))\<rparr>)"
  using assms
proof (induction bs arbitrary: fs f s d)
  case Nil
  have "put_file (f\<lparr>pFileData := Some d, actRecvSize := int (length d)\<rparr>) fs = fs"
  proof -
    have "f\<lparr>pFileData := Some d, actRecvSize := int (length d)\<rparr> = f" using Nil.prems(2,3) by simp
    moreover have "put_file f fs = fs"
      using Nil.prems(1) by (cases fs) (auto simp: put_file_def transferring_def)
    ultimately show ?thesis by simp
  qed
  then show ?case using Nil.prems(1) by (simp add: transferring_def fun_upd_idem)
next
  case (Cons b bs)
  let ?f = "f\<lparr>pFileData := Some (d @ b), actRecvSize := int (length (d @ b))\<rparr>"
  let ?fs = "put_file ?f fs" and ?s = "s\<lparr>sets := (sets s)(p := Some (put_file ?f fs))\<rparr>"
  have fit: "actRecvSize f + int (length b) \<le> rfiSize f" using Cons.prems(3,4) by simp
  have "0 \<le> actRecvSize f + int (length b)" "0 \<le> rfiSize f"
    using Cons.prems(3) fit by auto
  moreover have "actRecvSize f + int (length b) < 2 ^ 32" "rfiSize f < 2 ^ 32"
    using fit Cons.prems(5) by auto
  ultimately have "(actRecvSize f + int (length b)) mod 2 ^ 32 = actRecvSize f + int (length b)"
    "rfiSize f mod 2 ^ 32 = rfiSize f"
    by (simp_all add: mod_pos_pos_trivial)
  then have "(actRecvSize f + int (length b)) mod 2 ^ 32 \<le> rfiSize f mod 2 ^ 32"
    using fit by simp
  then have step: "msgProc q (FILE_BODY p b) s = Some ?s"
    using transferring_cur [OF Cons.prems(1)] Cons.prems fit
    by (simp add: msg_file_body_def put_info_file transferring_def)
  let ?g = "f\<lparr>pFileData := Some (d @ concat (b # bs)), actRecvSize := int (length (d @ concat (b # bs)))\<rparr>"
  have eq: "?f\<lparr>pFileData := Some ((d @ b) @ concat bs), actRecvSize := int (length ((d @ b) @ concat bs))\<rparr> = ?g"
    by simp
  have upd: "?s\<lparr>sets := (sets ?s)(p := Some (put_file g ?fs))\<rparr>
      = s\<lparr>sets := (sets s)(p := Some (put_file g fs))\<rparr>" for g
    by simp
  have pre: "pFileData ?f = Some (d @ b)" "actRecvSize ?f = int (length (d @ b))"
    "int (length (d @ b) + length (concat bs)) \<le> rfiSize ?f" "rfiSize ?f < 2 ^ 31"
    using Cons.prems(4,5) by simp_all
  have "run_msgs q (map (FILE_BODY p) bs) ?s = Some (s\<lparr>sets := (sets s)(p := Some (put_file ?g fs))\<rparr>)"
    using Cons.IH [OF transferring_put [OF Cons.prems(1), of ?f] pre] by (simp only: eq upd)
  with step show ?case by (simp only: list.map run_msgs.simps bind.bind_lunit)
qed

text \<open>The messages that bring a file.\<close>

definition file_msgs :: "ptr \<Rightarrow> u8 list list \<Rightarrow> srv_msg list" where
  "file_msgs p bs = FILE_BEGIN p # map (FILE_BODY p) bs @ [FILE_OVER p]"

lemma run_msgs_append: "run_msgs q (ms @ ms') s = Option.bind (run_msgs q ms s) (run_msgs q ms')"
  by (induction ms arbitrary: s) (auto split: bind_splits)

lemma run_msgs_end: "Option.bind m (run_msgs q []) = m"
  by (cases m) simp_all

lemma file_received:
  assumes "transferring p fs f s" and "int (length (concat bs)) = rfiSize f" and "rfiSize f < 2 ^ 31"
  shows "\<exists>f'. rfiName f' = rfiName f \<and> rfiSize f' = rfiSize f \<and> rfiTime f' = rfiTime f
    \<and> pFileData f' = Some (concat bs)
    \<and> run_msgs q (file_msgs p bs) s
      = msgProc q (FILE_OVER p) (s\<lparr>sets := (sets s)(p := Some (put_file f' fs))\<rparr>)
    \<and> transferring p (put_file f' fs) f' (s\<lparr>sets := (sets s)(p := Some (put_file f' fs))\<rparr>)
    \<and> actRecvSize f' = rfiSize f"
proof -
  let ?f = "f\<lparr>pFileData := Some [], actRecvSize := 0\<rparr>"
  let ?fs = "put_file ?f fs" and ?s = "s\<lparr>sets := (sets s)(p := Some (put_file ?f fs))\<rparr>"
  let ?f' = "?f\<lparr>pFileData := Some (concat bs), actRecvSize := int (length (concat bs))\<rparr>"
  have "msgProc q (FILE_BEGIN p) s = Some ?s"
    using transferring_cur [OF assms(1)] assms(1,2)
    by (simp add: msg_file_begin_def put_info_file transferring_def)
  moreover have "run_msgs q (map (FILE_BODY p) bs) ?s
      = Some (?s\<lparr>sets := (sets ?s)(p := Some (put_file ?f' ?fs))\<rparr>)"
    using bodies_run [OF transferring_put [OF assms(1)], of ?f "[]" bs] assms(2,3) by simp
  ultimately have "run_msgs q (file_msgs p bs) s
      = msgProc q (FILE_OVER p) (s\<lparr>sets := (sets s)(p := Some (put_file ?f' fs))\<rparr>)"
    by (simp add: file_msgs_def run_msgs_append run_msgs_end)
  with transferring_put [OF assms(1), of ?f'] assms(2) show ?thesis
    by (intro exI [of _ ?f']) simp
qed

section \<open>The whole synchronisation\<close>

definition entry_of :: "recv_file_info \<Rightarrow> file_entry" where
  "entry_of f = (rfiName f, rfiSize f, rfiTime f)"

text \<open>A transfer of which the files from the current one on are \<open>es\<close>.\<close>

definition remaining :: "ptr \<Rightarrow> recv_file_info_set \<Rightarrow> file_entry list \<Rightarrow> 'db sync_state \<Rightarrow> bool" where
  "remaining p fs es s \<longleftrightarrow> listed p s \<and> sets s p = Some fs \<and> fn_recv_file fs = client_pg_syncFile
     \<and> totalFilesNums fs = length (pRecv_file_info fs) \<and> curNo fs \<le> totalFilesNums fs
     \<and> map entry_of (drop (curNo fs) (pRecv_file_info fs)) = es"

lemma remaining_Nil:
  assumes "remaining p fs [] s"
  shows "\<exists>l. next_or_finish p s = Some (emit Finished
      (s\<lparr>sets := (sets s)(p := None), s_recv_file_list := l\<rparr>))
    \<and> loop_inv l \<and> loop_items l = remove1 p (loop_items (s_recv_file_list s))
    \<and> loop_cap l = loop_cap (s_recv_file_list s)"
proof -
  have cur: "curNo fs = totalFilesNums fs" "totalFilesNums fs = length (pRecv_file_info fs)"
    using assms by (auto simp: remaining_def)
  then have "client_getFileFromSet p s = Some (-1, s)"
    using assms by (simp add: client_getFileFromSet_def remaining_def get_cur_file_info_def fun_upd_idem)
  moreover obtain l where "recv_file_list_del p s = Some (s\<lparr>s_recv_file_list := l\<rparr>)" "loop_inv l"
    "loop_items l = remove1 p (loop_items (s_recv_file_list s))" "loop_cap l = loop_cap (s_recv_file_list s)"
    using list_del assms unfolding remaining_def by blast
  ultimately show ?thesis by (intro exI [of _ l]) (simp add: next_or_finish_def)
qed

lemma remaining_Cons:
  assumes "remaining p fs (e # es) s"
  obtains f where "curNo fs < totalFilesNums fs" "pRecv_file_info fs ! curNo fs = f" "entry_of f = e"
    "drop (curNo fs) (pRecv_file_info fs) = f # drop (Suc (curNo fs)) (pRecv_file_info fs)"
    "map entry_of (drop (Suc (curNo fs)) (pRecv_file_info fs)) = es"
proof -
  have lt: "curNo fs < length (pRecv_file_info fs)"
    using assms by (auto simp: remaining_def intro: ccontr)
  from Cons_nth_drop_Suc [OF lt] assms that lt show thesis
    by (auto simp: remaining_def simp flip: Cons_nth_drop_Suc)
qed


lemma remaining_next:
  assumes "remaining p fs (e # es) s" and "curNo fs' = Suc (curNo fs)"
    and "drop (Suc (curNo fs)) (pRecv_file_info fs') = drop (Suc (curNo fs)) (pRecv_file_info fs)"
    and "length (pRecv_file_info fs') = length (pRecv_file_info fs)"
    and "totalFilesNums fs' = totalFilesNums fs" and "fn_recv_file fs' = fn_recv_file fs"
    and "sets s' p = Some fs'" and "s_recv_file_list s' = s_recv_file_list s"
  shows "remaining p fs' es s'"
proof -
  have "curNo fs < totalFilesNums fs" "map entry_of (drop (Suc (curNo fs)) (pRecv_file_info fs)) = es"
    using remaining_Cons [OF assms(1)] by blast+
  then show ?thesis using assms by (simp add: remaining_def listed_def)
qed

text \<open>A file that is recorded already is passed over.\<close>

lemma next_known:
  assumes "remaining p fs (e # es) s" and "db_inv (local_files s)" and "current (local_files s) e"
  shows "next_or_finish p s = next_or_finish p (s\<lparr>sets := (sets s)(p := Some (add_file_index fs))\<rparr>)"
proof -
  let ?s = "s\<lparr>sets := (sets s)(p := Some (add_file_index fs))\<rparr>"
  obtain f where f: "curNo fs < totalFilesNums fs" "entry_of f = e"
    "drop (curNo fs) (pRecv_file_info fs) = f # drop (Suc (curNo fs)) (pRecv_file_info fs)"
    using remaining_Cons [OF assms(1)] by blast
  have set: "sets s p = Some fs" "totalFilesNums fs = length (pRecv_file_info fs)"
    using assms(1) by (simp_all add: remaining_def)
  have "find_file_from_local_db (rfiName f) (rfiSize f) (rfiTime f) (local_files s) = Some True"
    using find_known [OF assms(2)] assms(3) f(2) by (auto simp: entry_of_def)
  then have "client_getFileFromSet p s = client_getFileFromSet p ?s"
    using set f(3)
    by (simp add: client_getFileFromSet_def add_file_index_def Option.map_conv_bind_option
        split: bind_splits)
  then show ?thesis by (simp add: next_or_finish_def)
qed

text \<open>The next file that is not is asked for.\<close>

lemma next_wanted:
  assumes "remaining p fs (e # es) s" and "db_inv (local_files s)" and "\<not> current (local_files s) e"
  shows "next_or_finish p s = Some (emit (Request (fst e) p) s)"
proof -
  obtain f where f: "curNo fs < totalFilesNums fs" "pRecv_file_info fs ! curNo fs = f" "entry_of f = e"
    "drop (curNo fs) (pRecv_file_info fs) = f # drop (Suc (curNo fs)) (pRecv_file_info fs)"
    using remaining_Cons [OF assms(1)] by blast
  have set: "sets s p = Some fs" "totalFilesNums fs = length (pRecv_file_info fs)"
    using assms(1) by (simp_all add: remaining_def)
  have "find_file_from_local_db (rfiName f) (rfiSize f) (rfiTime f) (local_files s) = Some False"
    using find_known [OF assms(2)] assms(3) f(3) by (auto simp: entry_of_def)
  then have "client_getFileFromSet p s = Some (0, emit (Request (rfiName f) p) s)"
    using set f
    by (simp add: client_getFileFromSet_def get_cur_file_info_def client_getFile_def fun_upd_idem)
  then show ?thesis using f(3) by (auto simp: next_or_finish_def entry_of_def)
qed

text \<open>Writing to the files that are passed changes nothing in what comes next.\<close>

lemma set_upd_swap:
  "fs\<lparr>pRecv_file_info := xs, curNo := n\<rparr> = fs\<lparr>curNo := n, pRecv_file_info := xs\<rparr>"
  by (cases fs) simp

lemma state_upd_swap:
  "(s :: 'db sync_state)\<lparr>sets := x, events := y\<rparr> = s\<lparr>events := y, sets := x\<rparr>"
  by (cases s) simp

lemma get_file_passed:
  assumes "sets s p = Some fs" and "i < curNo fs" and "totalFilesNums fs = length (pRecv_file_info fs)"
  shows "client_getFileFromSet p (put_info p i f s)
       = map_option (apsnd (put_info p i f)) (client_getFileFromSet p s)"
proof (cases "skip_known (local_files s) (drop (curNo fs) (pRecv_file_info fs))")
  case None
  with assms show ?thesis by (simp add: client_getFileFromSet_def put_info_def)
next
  case (Some n)
  with assms show ?thesis
    by (simp add: client_getFileFromSet_def put_info_def Let_def get_cur_file_info_def client_getFile_def
        set_upd_swap state_upd_swap)
qed

lemma del_passed:
  "recv_file_list_del p (put_info p i f s) = map_option (put_info p i f) (recv_file_list_del p s)"
  by (simp add: recv_file_list_del_def recv_file_list_get_def put_info_def Option.map_conv_bind_option
      split: bind_splits)

lemma next_passed:
  assumes "sets s p = Some fs" and "i < curNo fs" and "totalFilesNums fs = length (pRecv_file_info fs)"
  shows "next_or_finish p (put_info p i f s) = map_option (put_info p i f) (next_or_finish p s)"
proof (cases "client_getFileFromSet p s")
  case None
  then show ?thesis using get_file_passed [OF assms, of f] by (simp add: next_or_finish_def)
next
  case (Some r)
  obtain ret s1 where r: "r = (ret, s1)" by (cases r)
  have "recv_file_list_del p (put_info p i f s1) = map_option (put_info p i f) (recv_file_list_del p s1)"
    by (rule del_passed)
  then show ?thesis
    using get_file_passed [OF assms, of f] Some r
    by (cases "recv_file_list_del p s1") (auto simp: next_or_finish_def put_info_def)
qed


text \<open>Storing and recording a complete file.\<close>

definition after_store :: "string \<Rightarrow> u8 list \<Rightarrow> ptr \<Rightarrow> recv_file_info_set \<Rightarrow> 'db sync_state \<Rightarrow> 'db local_db \<Rightarrow>
    'db sync_state" where
  "after_store n data p fs s d =
     (let s = s\<lparr>disk := (disk s)(dst_name n := Some data)\<rparr>;
          s = (if contains_text (dst_name n) ''imageOrigin'' then emit (Converted_picture (dst_name n)) s else s);
          s = emit (Progress ((int (curNo fs) + 1) * 100 div int (totalFilesNums fs))) (s\<lparr>local_files := d\<rparr>)
      in s\<lparr>sets := (sets s)(p := Some (add_file_index fs))\<rparr>)"

definition requests :: "sync_event list \<Rightarrow> string list" where
  "requests es = List.map_filter (\<lambda>e. case e of Request n _ \<Rightarrow> Some n | _ \<Rightarrow> None) es"

lemma requests_simps [simp]:
  "requests [] = []" "requests (Request n p # es) = n # requests es"
  "requests (Progress k # es) = requests es" "requests (Converted_picture n # es) = requests es"
  "requests (Finished # es) = requests es" "requests (es @ es') = requests es @ requests es'"
  by (simp_all add: requests_def List.map_filter_def)

lemma after_store_facts [simp]:
  "sets (after_store n data p fs s d) = (sets s)(p := Some (add_file_index fs))"
  "local_files (after_store n data p fs s d) = d"
  "disk (after_store n data p fs s d) = (disk s)(dst_name n := Some data)"
  "s_recv_file_list (after_store n data p fs s d) = s_recv_file_list s"
  "requests (events (after_store n data p fs s d)) = requests (events s)"
  by (simp_all add: after_store_def Let_def)

lemma pg_sync_stores:
  assumes "sets s p = Some fs" and "get_cur_file_info fs = Some f" and "pFileData f = Some data"
    and "int (length data) = rfiSize f" and "plain_name (rfiName f)"
  shows "pg_syncFile q p s = Option.bind (record_file q (entry_of f) (local_files s))
    (\<lambda>d. next_or_finish p (after_store (rfiName f) data p fs s d))"
proof -
  have "length (rfiName f) < 128" using assms(5) by (simp add: plain_name_def LOCAL_FILE_NAME_LEN_def)
  moreover have "data = []" if "rfiSize f \<le> 0" using assms(4) that by (cases data) simp_all
  moreover have "nat (rfiSize f) = length data" using assms(4) by simp
  ultimately show ?thesis
    using assms
    by (cases "contains_text (dst_name (rfiName f)) ''imageOrigin''")
      (simp_all add: pg_syncFile_def record_file_def entry_of_def after_store_def Let_def dst_name_def
        bind_assoc split: bind_splits)
qed

lemma file_run:
  assumes "remaining p fs (e # es) s" and "int (length (concat bs)) = fst (snd e)"
    and "fst (snd e) < 2 ^ 31" and "plain_name (fst e)"
  shows "\<exists>fs' g. run_msgs q (file_msgs p bs) s
      = Option.bind (record_file q e (local_files s)) (\<lambda>d. next_or_finish p (g d))
    \<and> (\<forall>d. remaining p fs' es (g d) \<and> local_files (g d) = d
        \<and> disk (g d) = (disk s)(dst_name (fst e) := Some (concat bs))
        \<and> requests (events (g d)) = requests (events s) \<and> s_recv_file_list (g d) = s_recv_file_list s)"
proof -
  obtain f where f: "curNo fs < totalFilesNums fs" "pRecv_file_info fs ! curNo fs = f" "entry_of f = e"
    using remaining_Cons [OF assms(1)] by blast
  have rem: "listed p s" "sets s p = Some fs" "fn_recv_file fs = client_pg_syncFile"
    "totalFilesNums fs = length (pRecv_file_info fs)"
    using assms(1) by (simp_all add: remaining_def)
  have e: "fst e = rfiName f" "fst (snd e) = rfiSize f" using f(3) by (auto simp: entry_of_def)
  have "transferring p fs f s" using f rem by (simp add: transferring_def)
  then obtain f' where f': "rfiName f' = rfiName f" "rfiSize f' = rfiSize f" "rfiTime f' = rfiTime f"
    "pFileData f' = Some (concat bs)" "actRecvSize f' = rfiSize f"
    "run_msgs q (file_msgs p bs) s = msgProc q (FILE_OVER p) (s\<lparr>sets := (sets s)(p := Some (put_file f' fs))\<rparr>)"
    "transferring p (put_file f' fs) f' (s\<lparr>sets := (sets s)(p := Some (put_file f' fs))\<rparr>)"
    using file_received [of p fs f s bs] assms(2,3) e by metis
  let ?fs = "put_file f' fs" and ?s = "s\<lparr>sets := (sets s)(p := Some (put_file f' fs))\<rparr>"
  let ?g = "\<lambda>d. put_info p (curNo fs) (f'\<lparr>pFileData := None\<rparr>)
    (after_store (rfiName f) (concat bs) p ?fs ?s d)"
  have entry: "entry_of f' = e" using f' f(3) by (simp add: entry_of_def)
  have cur: "get_cur_file_info ?fs = Some f'" using f rem by (simp add: get_cur_file_info_def)
  have "run_msgs q (file_msgs p bs) s
      = map_option (put_info p (curNo fs) (f'\<lparr>pFileData := None\<rparr>)) (pg_syncFile q p ?s)"
    using f'(1-6) transferring_cur [OF f'(7)] rem(3)
    by (simp add: msg_file_over_def Option.map_conv_bind_option comp_def)
  also have "pg_syncFile q p ?s = Option.bind (record_file q e (local_files s))
      (\<lambda>d. next_or_finish p (after_store (rfiName f) (concat bs) p ?fs ?s d))"
    using pg_sync_stores [of ?s p ?fs f' "concat bs" q] cur f' entry assms(2,4) e by simp
  also have "map_option (put_info p (curNo fs) (f'\<lparr>pFileData := None\<rparr>)) \<dots>
      = Option.bind (record_file q e (local_files s)) (\<lambda>d. next_or_finish p (?g d))"
    using next_passed [of "after_store (rfiName f) (concat bs) p ?fs ?s d" p "add_file_index ?fs" "curNo fs"
        "f'\<lparr>pFileData := None\<rparr>" for d] rem(4)
    by (cases "record_file q e (local_files s)") (simp_all add: add_file_index_def)
  finally have run: "run_msgs q (file_msgs p bs) s
      = Option.bind (record_file q e (local_files s)) (\<lambda>d. next_or_finish p (?g d))" .
  let ?fs' = "(add_file_index ?fs)\<lparr>pRecv_file_info := (pRecv_file_info fs)[curNo fs := f'\<lparr>pFileData := None\<rparr>]\<rparr>"
  have "remaining p ?fs' es (?g d)" for d
    by (rule remaining_next [OF assms(1)]) (simp_all add: add_file_index_def put_info_def)
  then show ?thesis
    using run e
    by (intro exI [of _ ?fs'] exI [of _ ?g]) (simp add: put_info_def)
qed


text \<open>The files a server sends: \<open>pieces\<close> are the bodies of each.\<close>

definition sendable :: "(string \<Rightarrow> u8 list list) \<Rightarrow> file_entry \<Rightarrow> bool" where
  "sendable pieces e \<longleftrightarrow> plain_name (fst e)
     \<and> int (length (concat (pieces (fst e)))) = fst (snd e) \<and> fst (snd e) < 2 ^ 31"

definition session :: "ptr \<Rightarrow> (string \<Rightarrow> u8 list list) \<Rightarrow> file_entry list \<Rightarrow> srv_msg list" where
  "session p pieces es = concat (map (\<lambda>e. file_msgs p (pieces (fst e))) es)"

lemma session_simps [simp]:
  "session p pieces [] = []"
  "session p pieces (e # es) = file_msgs p (pieces (fst e)) @ session p pieces es"
  by (simp_all add: session_def)

text \<open>What a synchronisation of the files \<open>es\<close> has done.\<close>

definition synchronised :: "ptr \<Rightarrow> (string \<Rightarrow> u8 list list) \<Rightarrow> file_entry list \<Rightarrow> 'db sync_state \<Rightarrow>
    'db sync_state \<Rightarrow> bool" where
  "synchronised p pieces es s s' \<longleftrightarrow>
     (\<forall>e\<in>set es. current (local_files s') e)
   \<and> (\<forall>n. disk s' n = (if n \<in> dst_name ` fst ` set (wanted (local_files s) es)
        then Some (concat (pieces (drop 2 n))) else disk s n))
   \<and> requests (events s') = requests (events s) @ map fst (wanted (local_files s) es)
   \<and> last (events s') = Finished \<and> sets s' p = None
   \<and> loop_items (s_recv_file_list s') = remove1 p (loop_items (s_recv_file_list s))"

lemma wanted_cong:
  "(\<And>e. e \<in> set es \<Longrightarrow> current d e = current d' e) \<Longrightarrow> wanted d es = wanted d' es"
  by (simp add: wanted_def cong: filter_cong)

lemma dst_name_drop: "drop 2 (dst_name n) = n"
  by (simp add: dst_name_def)

lemma dst_name_eq: "dst_name n = dst_name m \<longleftrightarrow> n = m"
  by (simp add: dst_name_def)

lemma session_completes:
  assumes "sql_laws q has"
  shows "remaining p fs es s \<Longrightarrow> in_step has (local_files s) \<Longrightarrow> distinct (map fst es) \<Longrightarrow>
    \<forall>e\<in>set es. sendable pieces e \<Longrightarrow> length (wanted (local_files s) es) \<le> room (local_files s) \<Longrightarrow>
    \<exists>s'. Option.bind (next_or_finish p s) (run_msgs q (session p pieces (wanted (local_files s) es))) = Some s'
      \<and> synchronised p pieces es s s' \<and> in_step has (local_files s') \<and> loop_inv (s_recv_file_list s')
      \<and> (\<forall>e. fst e \<notin> fst ` set es \<longrightarrow> current (local_files s') e = current (local_files s) e)"
proof (induction es arbitrary: fs s)
  case Nil
  obtain l where "next_or_finish p s = Some (emit Finished (s\<lparr>sets := (sets s)(p := None), s_recv_file_list := l\<rparr>))"
    "loop_inv l" "loop_items l = remove1 p (loop_items (s_recv_file_list s))"
    using remaining_Nil [OF Nil.prems(1)] by blast
  with Nil.prems(2) show ?case by (simp add: wanted_def synchronised_def)
next
  case (Cons e es)
  let ?d = "local_files s"
  have inv: "db_inv ?d" using Cons.prems(2) by (simp add: in_step_def)
  have dist: "distinct (map fst es)" "fst e \<notin> fst ` set es" and send: "\<forall>e\<in>set es. sendable pieces e"
    using Cons.prems(3,4) by auto
  show ?case
  proof (cases "current ?d e")
    case True
    let ?s = "s\<lparr>sets := (sets s)(p := Some (add_file_index fs))\<rparr>"
    have want: "wanted ?d (e # es) = wanted ?d es" using True by (simp add: wanted_def)
    have "remaining p (add_file_index fs) es ?s"
      by (rule remaining_next [OF Cons.prems(1)]) (simp_all add: add_file_index_def)
    from Cons.IH [OF this] Cons.prems(2,5) dist(1) send obtain s' where s':
      "Option.bind (next_or_finish p ?s) (run_msgs q (session p pieces (wanted ?d es))) = Some s'"
      "synchronised p pieces es ?s s'" "in_step has (local_files s')" "loop_inv (s_recv_file_list s')"
      "\<forall>e. fst e \<notin> fst ` set es \<longrightarrow> current (local_files s') e = current ?d e"
      by (auto simp: want)
    have "synchronised p pieces (e # es) s s'"
      using s'(2) s'(5) [rule_format, OF dist(2)] True by (simp add: synchronised_def want)
    then show ?thesis
      using s' next_known [OF Cons.prems(1) inv True] by (intro exI [of _ s']) (simp add: want)
  next
    case False
    let ?s = "emit (Request (fst e) p) s"
    have want: "wanted ?d (e # es) = e # wanted ?d es" using False by (simp add: wanted_def)
    have rem: "remaining p fs (e # es) ?s" using Cons.prems(1) by (simp add: remaining_def listed_def)
    have e: "plain_name (fst e)" "int (length (concat (pieces (fst e)))) = fst (snd e)" "fst (snd e) < 2 ^ 31"
      using Cons.prems(4) by (simp_all add: sendable_def)
    obtain fs' g where run: "run_msgs q (file_msgs p (pieces (fst e))) ?s
        = Option.bind (record_file q e ?d) (\<lambda>d. next_or_finish p (g d))"
      and g: "\<And>d. remaining p fs' es (g d)" "\<And>d. local_files (g d) = d"
        "\<And>d. disk (g d) = (disk s)(dst_name (fst e) := Some (concat (pieces (fst e))))"
        "\<And>d. requests (events (g d)) = requests (events s) @ [fst e]"
        "\<And>d. s_recv_file_list (g d) = s_recv_file_list s"
      using file_run [OF rem e(2,3,1), of q] by auto
    have "room ?d > 0 \<or> known (fst e) ?d" using Cons.prems(5) by (simp add: want)
    then obtain d where d:
      "record_file q e ?d = Some d" "in_step has d" "current d e"
      "\<And>e'. fst e' \<noteq> fst e \<Longrightarrow> current d e' = current ?d e'" "room ?d \<le> room d + 1"
      "\<And>m. known m ?d \<Longrightarrow> known m d"
      using record_file_current [OF assms Cons.prems(2) e(1)] by metis
    have same: "wanted d es = wanted ?d es" by (rule wanted_cong, rule d(4)) (use dist(2) in \<open>metis image_eqI\<close>)
    have pre: "in_step has (local_files (g d))" "length (wanted (local_files (g d)) es) \<le> room (local_files (g d))"
      using d(2,5) Cons.prems(5) by (simp_all add: g(2) want same)
    from Cons.IH [OF g(1) pre(1) dist(1) send pre(2)] obtain s' where s':
      "Option.bind (next_or_finish p (g d)) (run_msgs q (session p pieces (wanted d es))) = Some s'"
      "synchronised p pieces es (g d) s'" "in_step has (local_files s')" "loop_inv (s_recv_file_list s')"
      "\<forall>e. fst e \<notin> fst ` set es \<longrightarrow> current (local_files s') e = current d e"
      unfolding g(2) by blast
    have "Option.bind (next_or_finish p s) (run_msgs q (session p pieces (wanted ?d (e # es)))) = Some s'"
      using s'(1) next_wanted [OF Cons.prems(1) inv False] run d(1)
      by (simp add: want run_msgs_append same)
    moreover have "synchronised p pieces (e # es) s s'"
      using s'(2) s'(5) [rule_format, OF dist(2)] d(3) unfolding synchronised_def g same want
      by (auto simp: dst_name_drop dst_name_eq)
    ultimately show ?thesis using s' d(4) by (intro exI [of _ s']) simp
  qed
qed


text \<open>The list has room for one more transfer, whose address is new.\<close>

definition ready :: "'db sync_state \<Rightarrow> bool" where
  "ready s \<longleftrightarrow> loop_inv (s_recv_file_list s)
     \<and> length (loop_items (s_recv_file_list s)) < loop_cap (s_recv_file_list s)
     \<and> next_block s \<noteq> 0 \<and> next_block s \<notin> set (loop_items (s_recv_file_list s))"

lemma start_remaining:
  assumes "ready s" and "\<forall>e\<in>set es. plain_name (fst e)"
  shows "\<exists>s1. start_set es s = Some (next_block s, s1) \<and> remaining (next_block s) (new_set es) es s1
    \<and> local_files s1 = local_files s \<and> disk s1 = disk s \<and> events s1 = events s
    \<and> loop_items (s_recv_file_list s1) = loop_items (s_recv_file_list s) @ [next_block s]"
proof -
  obtain r l where p: "loop_push_to_tail (next_block s) (s_recv_file_list s) = (r, l)" by fastforce
  from push_tail_law [OF _ p] assms(1) have push: "loop_inv l"
    "loop_items l = loop_items (s_recv_file_list s) @ [next_block s]"
    by (auto simp: ready_def)
  have "ll_size (s_recv_file_list s) \<noteq> 0" using assms(1) loop_invD(1) by (fastforce simp: ready_def)
  moreover have "\<not> (\<exists>e\<in>set es. 256 \<le> length (fst e))"
    using assms(2) by (force simp: plain_name_def LOCAL_FILE_NAME_LEN_def)
  moreover have "map (entry_of \<circ> file_info_of) es = es"
    by (rule map_idI) (auto simp: entry_of_def file_info_of_def)
  ultimately show ?thesis
    using p push assms(1)
    by (simp add: start_set_def recv_file_list_insert_def remaining_def listed_def ready_def new_set_def Let_def)
qed

lemma syncfile_run:
  assumes "sql_laws q has" and "in_step has (local_files s)" and "ready s" and "distinct (map fst es)"
    and "\<forall>e\<in>set es. sendable pieces e" and "length (wanted (local_files s) es) \<le> room (local_files s)"
  shows "\<exists>s' s1. run_msgs q (MSG_SYNCFILE es # session (next_block s) pieces (wanted (local_files s) es)) s = Some s'
    \<and> synchronised (next_block s) pieces es s1 s' \<and> in_step has (local_files s')
    \<and> local_files s1 = local_files s \<and> disk s1 = disk s \<and> events s1 = events s
    \<and> loop_items (s_recv_file_list s1) = loop_items (s_recv_file_list s) @ [next_block s]"
proof -
  have "\<forall>e\<in>set es. plain_name (fst e)" using assms(5) by (simp add: sendable_def)
  from start_remaining [OF assms(3) this] obtain s1 where s1:
    "start_set es s = Some (next_block s, s1)" "remaining (next_block s) (new_set es) es s1"
    "local_files s1 = local_files s" "disk s1 = disk s" "events s1 = events s"
    "loop_items (s_recv_file_list s1) = loop_items (s_recv_file_list s) @ [next_block s]"
    by blast
  from session_completes [OF assms(1) s1(2), of pieces] assms(2,4-6) s1 show ?thesis
    by (auto simp: msg_syncfile_def)
qed



text \<open>
  A file asked for by itself cannot be received. Its transfer is never put in the list of
  transfers, so the first message that brings it is answered through a null pointer.
\<close>
theorem update_file_undefined:
  assumes "ready s" and "length src < 256" and "length type < 16" and "length dst < 256"
  shows "run_msgs q [MSG_UPDATEFILE src type dst, FILE_BEGIN (next_block s)] s = None"
proof -
  let ?P = "searchRecvConn (next_block s)"
  have "List.find ?P (loop_items (s_recv_file_list s)) = None"
    using assms(1) by (auto simp: find_None_iff searchRecvConn_def ready_def)
  then show ?thesis
    using assms
    by (simp add: msg_updatefile_def msg_file_begin_def cur_transfer_def recv_file_list_get_def
        client_getFile_def ready_def loop_search_law Let_def)
qed


text \<open>A table as a list of rows, and a module that has nothing on record yet.\<close>

definition list_table :: "(string \<times> int \<times> int) list sqlite" where
  "list_table = \<lparr>sql_table = (\<lambda>d. Some []),
     sql_rows = (\<lambda>n d. Some (if n \<in> fst ` set d then 1 else 0)),
     sql_insert = (\<lambda>n t z d. (True, (n, t, z) # d)),
     sql_update = (\<lambda>n t z d. (True, map (\<lambda>r. if fst r = n then (n, t, z) else r) d)),
     sql_delete = (\<lambda>d. (True, []))\<rparr>"

definition empty_module :: "(string \<times> int \<times> int) list sync_state" where
  "empty_module = \<lparr>sets = Map.empty, next_block = 1,
     s_recv_file_list = \<lparr>ll_size = 3, ll_head = 0, ll_tail = 0, ll_items = [0, 0, 0], ll_del = False\<rparr>,
     local_files = \<lparr>gDbLocal = [], loop_conns = \<lparr>ll_size = 4, ll_head = 0, ll_tail = 0,
       ll_items = replicate 4 \<lparr>fileName = [], fileTime = 0, fileSize = 0, fileStatus = 0\<rparr>, ll_del = True\<rparr>, cur_conns = 0\<rparr>,
     disk = (\<lambda>_. None), events = []\<rparr>"

lemma list_table_laws: "sql_laws list_table (\<lambda>d. fst ` set d)"
proof -
  have "fst ` set (map (\<lambda>r. if fst r = n then (n, t, z) else r) d) = fst ` set d"
    for n :: string and t z :: int and d :: "(string \<times> int \<times> int) list"
    by (induction d) auto
  then show ?thesis by (simp add: sql_laws_def list_table_def del: image_set set_map)
qed

lemma empty_module_facts:
  "in_step (\<lambda>d. fst ` set d) (local_files empty_module)" "ready empty_module"
  "room (local_files empty_module) = 3" "records (local_files empty_module) = []"
  "next_block empty_module = 1" "disk empty_module = (\<lambda>_. None)" "events empty_module = []"
  by (simp_all add: empty_module_def in_step_def db_inv_def records_def room_def ready_def
      loop_inv_def loop_items_def loop_cap_def loop_len_def)



lemma update_file_undefined_witness:
  "run_msgs list_table [MSG_UPDATEFILE ''a'' ''bmp'' ''b'', FILE_BEGIN (next_block empty_module)] empty_module = None"
  by (rule update_file_undefined) (simp_all add: empty_module_facts)

end
