(* ===== verification/PwrTask.thy ===== *)
theory PwrTask
  imports UartLink
begin

text \<open>
  The power supply task, \<^verbatim>\<open>hw/power/source/pubPwrTask.c\<close> and \<^verbatim>\<open>pubpwr.c\<close>: the requests other
  tasks make, the messages they become, the exchange with the power board over its serial port
  (theory \<open>UartLink\<close>), what an answer is read as, and the upgrade of the board's program. The
  structures are those of \<^verbatim>\<open>comStruct.h\<close>, packed; the processor stores the low byte first.
\<close>

section \<open>Structures\<close>

record pwr_msg_head =
  h_cmd :: u8
  h_type :: u8
  h_len :: u16
  h_dest_addr :: u16
  h_signl_type :: u16
  h_signl_fd :: u16
  h_ipaddr :: u32
  h_ways :: u16
  h_result :: u32

definition head_bytes :: "pwr_msg_head \<Rightarrow> u8 list" where
  "head_bytes h = [h_cmd h, h_type h] @ le16 (h_len h) @ le16 (h_dest_addr h) @ le16 (h_signl_type h)
     @ le16 (h_signl_fd h) @ le32 (h_ipaddr h) @ le16 (h_ways h) @ le32 (h_result h)"

definition zero_head :: pwr_msg_head where
  "zero_head = \<lparr>h_cmd = 0, h_type = 0, h_len = 0, h_dest_addr = 0, h_signl_type = 0, h_signl_fd = 0,
     h_ipaddr = 0, h_ways = 0, h_result = 0\<rparr>"

definition HEAD_LEN :: nat where "HEAD_LEN = 20"

text \<open>One supply in the configuration, and the configuration.\<close>

record rail_cfg =
  rc_volt :: u16
  rc_fly_time :: u16
  rc_over :: u16
  rc_under :: u16
  rc_current_over :: u32
  rc_current_under :: u32
  rc_open_delay :: u16
  rc_close_delay :: u16

record pwr_cfg =
  VDD :: rail_cfg
  VDDIO :: rail_cfg
  ELVDD :: rail_cfg
  ELVSS :: rail_cfg
  VBL :: rail_cfg
  VSP :: rail_cfg
  VSN :: rail_cfg
  MTP :: rail_cfg
  LEDEnable :: u16
  LEDChannel :: u16
  LEDNumber :: u16
  LEDCurrent :: u16
  LEDOVP :: u16
  LEDUVP :: u16
  signalOpenDelay :: u16
  signalCloseDelay :: u16
  pwmOpenDelay :: u16
  pwmCloseDelay :: u16
  pwm :: u16
  pwmDuty :: u16
  pwmFreq :: u16
  vdimOpenDelay :: u16
  vdimCloseDelay :: u16
  vdim :: u16
  invertOpenDelay :: u16
  invertCloseDelay :: u16
  invert :: u16
  gpioPins :: "u16 list"

definition rail_bytes :: "rail_cfg \<Rightarrow> u8 list" where
  "rail_bytes r = le16 (rc_volt r) @ le16 (rc_fly_time r) @ le16 (rc_over r) @ le16 (rc_under r)
     @ le32 (rc_current_over r) @ le32 (rc_current_under r) @ le16 (rc_open_delay r) @ le16 (rc_close_delay r)"

definition cfg_rails :: "pwr_cfg \<Rightarrow> rail_cfg list" where
  "cfg_rails c = [VDD c, VDDIO c, ELVDD c, ELVSS c, VBL c, VSP c, VSN c, MTP c]"

definition cfg_words :: "pwr_cfg \<Rightarrow> u16 list" where
  "cfg_words c = [LEDEnable c, LEDChannel c, LEDNumber c, LEDCurrent c, LEDOVP c, LEDUVP c,
     signalOpenDelay c, signalCloseDelay c, pwmOpenDelay c, pwmCloseDelay c, pwm c, pwmDuty c, pwmFreq c,
     vdimOpenDelay c, vdimCloseDelay c, vdim c, invertOpenDelay c, invertCloseDelay c, invert c]
     @ gpioPins c"

definition cfg_bytes :: "pwr_cfg \<Rightarrow> u8 list" where
  "cfg_bytes c = concat (map rail_bytes (cfg_rails c)) @ concat (map le16 (cfg_words c))"

definition CFG_LEN :: nat where "CFG_LEN = 214"

section \<open>Reading a configuration\<close>

text \<open>
  \<^verbatim>\<open>read_pwr_config\<close>: the file as the function that looks an integer up (with 0 for what is
  missing), or nothing when it cannot be loaded. The structure is the caller's; the pins stay.
\<close>

definition rail_keys :: "(string \<Rightarrow> int) \<Rightarrow> string \<Rightarrow> rail_cfg" where
  "rail_keys getint n =
     \<lparr>rc_volt = of_int (getint (''power:'' @ n)),
      rc_fly_time = of_int (getint (''power:'' @ n @ ''FlyTime'')),
      rc_over = of_int (getint (''power:'' @ n @ ''OverLimit'')),
      rc_under = of_int (getint (''power:'' @ n @ ''UnderLimit'')),
      rc_current_over = of_int (getint (''power:'' @ n @ ''CurrentOverLimit'')),
      rc_current_under = of_int (getint (''power:'' @ n @ ''CurrentUnderLimit'')),
      rc_open_delay = of_int (getint (''power:'' @ n @ ''OpenDelay'')),
      rc_close_delay = of_int (getint (''power:'' @ n @ ''CloseDelay''))\<rparr>"

definition read_pwr_config :: "(string \<Rightarrow> int) option \<Rightarrow> pwr_cfg \<Rightarrow> int \<times> pwr_cfg" where
  "read_pwr_config ini c = (case ini of None \<Rightarrow> (-1, c)
     | Some getint \<Rightarrow> let w = (\<lambda>n. of_int (getint (''power:'' @ n)) :: u16) in
       (0, c\<lparr>VDD := rail_keys getint ''vdd'', VBL := rail_keys getint ''vbl'',
            MTP := rail_keys getint ''vif'', VDDIO := rail_keys getint ''avdd'',
            VSP := rail_keys getint ''vsp'', VSN := rail_keys getint ''vsn'',
            ELVDD := rail_keys getint ''elvdd'', ELVSS := rail_keys getint ''elvss'',
            signalOpenDelay := w ''signalOpenDelay'', signalCloseDelay := w ''signalCloseDelay'',
            vdimOpenDelay := w ''vdimOpenDelay'', vdimCloseDelay := w ''vdimCloseDelay'', vdim := w ''vdim'',
            pwmOpenDelay := w ''pwmOpenDelay'', pwmCloseDelay := w ''pwmCloseDelay'', pwm := w ''pwm'',
            pwmFreq := w ''pwmFreq'', pwmDuty := w ''pwmDuty'',
            invertOpenDelay := w ''invertOpenDelay'', invertCloseDelay := w ''invertCloseDelay'',
            invert := w ''invert'',
            LEDEnable := w ''LEDEnable'', LEDChannel := w ''LEDchannel'', LEDCurrent := w ''LEDdriverCurrent'',
            LEDNumber := w ''LEDnumber'', LEDOVP := w ''LEDdriverOVP'', LEDUVP := w ''LEDdriverUVP''\<rparr>))"

definition check_power_min_volt_is_v1_8 :: "pwr_cfg option \<Rightarrow> int" where
  "check_power_min_volt_is_v1_8 p = (case p of None \<Rightarrow> 1
     | Some c \<Rightarrow>
       if rc_volt (VDD c) > 0 \<and> rc_volt (VDD c) = 1800 then 1
       else if rc_volt (VDDIO c) > 0 \<and> rc_volt (VDDIO c) = 1800 then 1
       else if rc_volt (VSP c) > 0 \<and> rc_volt (VSP c) = 1800 then 1
       else if rc_volt (ELVDD c) > 0 \<and> rc_volt (ELVDD c) = 1800 then 1
       else 0)"


section \<open>Messages\<close>

definition PWR_CMD_POWER_ON :: u8 where "PWR_CMD_POWER_ON = 0x01"
definition PWR_CMD_POWER_OFF :: u8 where "PWR_CMD_POWER_OFF = 0x02"
definition PWR_CMD_CTRL_SWITCH :: u8 where "PWR_CMD_CTRL_SWITCH = 0x03"
definition PWR_CMD_GET_VOL :: u8 where "PWR_CMD_GET_VOL = 0x04"
definition PWR_CMD_GET_POWER_VER :: u8 where "PWR_CMD_GET_POWER_VER = 0x08"
definition PWR_CMD_CFG_POWER_STRUCT :: u8 where "PWR_CMD_CFG_POWER_STRUCT = 0x09"
definition PWR_CMD_ADJUST_VDIM :: u8 where "PWR_CMD_ADJUST_VDIM = 0x0B"
definition PWR_CMD_ADJUST_PWR_FREQ :: u8 where "PWR_CMD_ADJUST_PWR_FREQ = 0x0C"
definition PWR_CMD_ADJUST_INVERT :: u8 where "PWR_CMD_ADJUST_INVERT = 0x0D"
definition PWR_CMD_ON_OFF :: u8 where "PWR_CMD_ON_OFF = 0x0D"
definition PWR_CMD_ADJUST_BY_PTN :: u8 where "PWR_CMD_ADJUST_BY_PTN = 0x0F"
definition PWR_CMD_SET_VOL :: u8 where "PWR_CMD_SET_VOL = 0x12"
definition PWR_CMD_SET_FLY_TIME :: u8 where "PWR_CMD_SET_FLY_TIME = 0x14"
definition PWR_CMD_GET_CABC_PWM :: u8 where "PWR_CMD_GET_CABC_PWM = 0x25"
definition PWR_CMD_SET_BOE_FREQ_ONOFF :: u8 where "PWR_CMD_SET_BOE_FREQ_ONOFF = 0x30"
definition PWR_CMD_POWER_CALIBRATION :: u8 where "PWR_CMD_POWER_CALIBRATION = 0x80"
definition PWR_CMD_UPGRADE :: int where "PWR_CMD_UPGRADE = 0x12345679"
definition MSG_TYPE_POWER :: u8 where "MSG_TYPE_POWER = 0x05"

lemmas pwr_cmds = PWR_CMD_POWER_ON_def PWR_CMD_POWER_OFF_def PWR_CMD_CTRL_SWITCH_def PWR_CMD_GET_VOL_def
  PWR_CMD_GET_POWER_VER_def PWR_CMD_CFG_POWER_STRUCT_def PWR_CMD_ADJUST_VDIM_def PWR_CMD_ADJUST_PWR_FREQ_def
  PWR_CMD_ADJUST_INVERT_def PWR_CMD_ON_OFF_def PWR_CMD_ADJUST_BY_PTN_def PWR_CMD_SET_VOL_def
  PWR_CMD_SET_FLY_TIME_def PWR_CMD_GET_CABC_PWM_def PWR_CMD_SET_BOE_FREQ_ONOFF_def
  PWR_CMD_POWER_CALIBRATION_def PWR_CMD_UPGRADE_def MSG_TYPE_POWER_def

text \<open>
  The buffer a message points to: the sender waits until it is handled, or it is a block of the heap,
  or it was a local array of a function that has returned, whose storage is gone when the task runs.
\<close>

datatype msg_buf = Waiting "u8 list" | Heap_block "u8 list" | Left_behind "u8 list"

record pwr_msg =
  m_id :: int
  m_buf :: msg_buf
  m_len :: nat

datatype pwr_event =
    Board_bytes "u8 list"
  | Report_power "(string \<times> int) list"
  | Report_version int int
  | Node_data "u8 list"

record pwr_state =
  uarts :: "uart_info list"
  pwr_queue :: "pwr_msg list"
  pwrCmdPause :: bool
  pwrSoftwareVersion :: int
  version_request :: bool
  version_sem :: nat
  pwr_timer_on :: bool
  pwr_events :: "pwr_event list"

definition send_message :: "int \<Rightarrow> msg_buf \<Rightarrow> nat \<Rightarrow> pwr_state \<Rightarrow> pwr_state" where
  "send_message i b n s = s\<lparr>pwr_queue := pwr_queue s @ [\<lparr>m_id = i, m_buf = b, m_len = n\<rparr>]\<rparr>"

definition put_at :: "nat \<Rightarrow> u8 list \<Rightarrow> u8 list \<Rightarrow> u8 list" where
  "put_at off xs buf = take off buf @ xs @ drop (off + length xs) buf"

section \<open>Requests\<close>

definition pwrSetOnOff :: "bool \<Rightarrow> u16 \<Rightarrow> pwr_state \<Rightarrow> pwr_state" where
  "pwrSetOnOff bOnoff wChannel s =
     (let ucCmd = (if bOnoff then PWR_CMD_POWER_ON else PWR_CMD_POWER_OFF);
          h = zero_head\<lparr>h_cmd := ucCmd, h_type := MSG_TYPE_POWER, h_signl_type := 3, h_ways := wChannel,
                h_len := 16\<rparr>
      in send_message (uint ucCmd) (Waiting (head_bytes h)) HEAD_LEN s)"

definition pwrEnableMonitor :: "bool \<Rightarrow> pwr_state \<Rightarrow> pwr_state" where
  "pwrEnableMonitor enable s = s\<lparr>pwr_timer_on := enable\<rparr>"

text \<open>\<open>junk\<close> is what an uninitialised structure or array holds.\<close>

definition pwrSetInfo :: "pwr_msg_head \<Rightarrow> u8 list \<Rightarrow> pwr_cfg \<Rightarrow> pwr_state \<Rightarrow> pwr_state" where
  "pwrSetInfo junk_head junk c s =
     (let h = junk_head\<lparr>h_cmd := PWR_CMD_CFG_POWER_STRUCT, h_type := 5, h_len := of_nat (HEAD_LEN + CFG_LEN - 4),
            h_dest_addr := 0xffff, h_ways := 0xff, h_result := 0\<rparr>;
          cmdBuf = put_at HEAD_LEN (cfg_bytes c) (put_at 0 (head_bytes h) junk)
      in send_message (uint PWR_CMD_CFG_POWER_STRUCT) (Waiting cmdBuf) (HEAD_LEN + CFG_LEN) s)"

definition pwrgetInfo :: "u16 \<Rightarrow> pwr_state \<Rightarrow> pwr_state" where
  "pwrgetInfo wChannel s =
     (if pwrCmdPause s then s
      else
        let h = zero_head\<lparr>h_cmd := PWR_CMD_GET_VOL, h_type := 5, h_len := 16, h_ways := wChannel\<rparr>
        in send_message (uint PWR_CMD_GET_VOL) (Heap_block (head_bytes h)) HEAD_LEN s)"

definition pwrTimerCallback :: "pwr_state \<Rightarrow> pwr_state" where
  "pwrTimerCallback s = pwrgetInfo 3 (pwrgetInfo 2 s)"

text \<open>
  \<^verbatim>\<open>power_cmd_calibration_power_item\<close>: the channel that replaces an invalid one is stored in a local
  variable after the header was filled in. \<open>None\<close> is the absolute value of the least integer.
\<close>

definition power_cmd_calibration_power_item :: "u16 \<Rightarrow> u8 \<Rightarrow> u8 \<Rightarrow> int \<Rightarrow> pwr_state \<Rightarrow> pwr_state option" where
  "power_cmd_calibration_power_item wChannel power_type act power_data s =
     (if pwrCmdPause s then Some s
      else if power_data = - (2 ^ 31) then None
      else
        let h = zero_head\<lparr>h_type := MSG_TYPE_POWER, h_cmd := PWR_CMD_POWER_CALIBRATION, h_len := 24,
              h_ways := wChannel\<rparr>;
            direction = (if power_data \<ge> 0 then 1 else 2);
            buf = head_bytes h @ [0, power_type, act, direction] @ le32 (of_int \<bar>power_data\<bar>) @ replicate 100 0
        in Some (send_message (uint PWR_CMD_POWER_CALIBRATION) (Waiting buf) (unat (h_len h) + 4) s))"

definition pwrSetVdim :: "u8 list \<Rightarrow> u16 \<Rightarrow> pwr_state \<Rightarrow> pwr_state" where
  "pwrSetVdim junk v s =
     send_message (uint PWR_CMD_ADJUST_VDIM) (Left_behind (put_at HEAD_LEN (1 # le16 v) junk)) (HEAD_LEN + 3) s"

definition pwrSetPwm :: "pwr_msg_head \<Rightarrow> u16 \<Rightarrow> u16 \<Rightarrow> u8 \<Rightarrow> pwr_state \<Rightarrow> pwr_state" where
  "pwrSetPwm junk_head pwmlevel freq duty s =
     (let h = junk_head\<lparr>h_cmd := PWR_CMD_ADJUST_PWR_FREQ, h_type := MSG_TYPE_POWER, h_len := 21, h_ways := 0\<rparr>;
          cmdBuf = put_at HEAD_LEN (le16 pwmlevel @ le16 freq @ [duty]) (put_at 0 (head_bytes h) (replicate 1024 0))
      in send_message (uint PWR_CMD_ADJUST_PWR_FREQ) (Left_behind cmdBuf) (HEAD_LEN + 5) s)"

definition pwrSetInvert :: "pwr_msg_head \<Rightarrow> u8 list \<Rightarrow> u16 \<Rightarrow> pwr_state \<Rightarrow> pwr_state" where
  "pwrSetInvert junk_head junk v s =
     (let h = junk_head\<lparr>h_cmd := PWR_CMD_ADJUST_INVERT, h_len := 18\<rparr>;
          cmdBuf = put_at HEAD_LEN (le16 v) (put_at 0 (head_bytes h) junk)
      in send_message (uint PWR_CMD_ADJUST_INVERT) (Left_behind cmdBuf) (HEAD_LEN + 3) s)"

text \<open>The setting of a picture is given as its bytes (144 of them).\<close>

definition PTN_PWR_LEN :: nat where "PTN_PWR_LEN = 144"

definition pwrSetAdjust :: "pwr_msg_head \<Rightarrow> u8 list \<Rightarrow> u8 list \<Rightarrow> pwr_state \<Rightarrow> pwr_state" where
  "pwrSetAdjust junk_head junk ptn s =
     (let h = junk_head\<lparr>h_cmd := PWR_CMD_ADJUST_BY_PTN, h_type := MSG_TYPE_POWER, h_signl_type := 3, h_ways := 0xff,
            h_len := of_nat (PTN_PWR_LEN + HEAD_LEN - 4)\<rparr>;
          cmdBuf = put_at HEAD_LEN ptn (put_at 0 (head_bytes h) junk)
      in send_message (uint PWR_CMD_ADJUST_BY_PTN) (Left_behind cmdBuf) (PTN_PWR_LEN + HEAD_LEN) s)"

text \<open>\<^verbatim>\<open>pwrSetVol\<close> fills in a header it does not copy, and posts the message type as the message.\<close>

definition pwrSetVol :: "u8 list \<Rightarrow> pwr_state \<Rightarrow> pwr_state" where
  "pwrSetVol junk s = send_message (uint MSG_TYPE_POWER) (Left_behind junk) (HEAD_LEN + 6) s"

text \<open>One turn of the thread that asks for the version, once its semaphore was obtained.\<close>

definition version_turn :: "pwr_state \<Rightarrow> pwr_state" where
  "version_turn s =
     (if version_request s then
        let h = zero_head\<lparr>h_cmd := PWR_CMD_GET_POWER_VER, h_type := MSG_TYPE_POWER, h_signl_type := 3,
              h_ways := 1, h_len := 16\<rparr>
        in send_message (uint PWR_CMD_GET_POWER_VER) (Waiting (head_bytes h)) HEAD_LEN s
      else s)"


section \<open>Answers\<close>

text \<open>One supply as the board measures it: voltages and currents with their limits.\<close>

record rail_state =
  rs_volt :: int
  rs_volt_h :: int
  rs_volt_l :: int
  rs_current :: int
  rs_current_h :: int
  rs_current_l :: int

definition get_s16 :: "u8 list \<Rightarrow> nat \<Rightarrow> int" where
  "get_s16 b i = sint (get_le16 b i)"

definition get_s32 :: "u8 list \<Rightarrow> nat \<Rightarrow> int" where
  "get_s32 b i = sint (get_le32 b i)"

definition rail_at :: "u8 list \<Rightarrow> nat \<Rightarrow> rail_state" where
  "rail_at b i = \<lparr>rs_volt = get_s16 b i, rs_volt_h = get_s16 b (i + 2), rs_volt_l = get_s16 b (i + 4),
     rs_current = get_s32 b (i + 6), rs_current_h = get_s32 b (i + 10), rs_current_l = get_s32 b (i + 14)\<rparr>"

text \<open>The fields of a supply in the message to the server.\<close>

definition rail_fields :: "string \<Rightarrow> rail_state \<Rightarrow> (string \<times> int) list" where
  "rail_fields n r = [(n, rs_volt r), (n @ ''h'', rs_volt_h r), (n @ ''l'', rs_volt_l r),
     (''i'' @ n, rs_current r), (''i'' @ n @ ''h'', rs_current_h r), (''i'' @ n @ ''l'', rs_current_l r)]"

definition client_sendPower :: "int \<Rightarrow> u8 list \<Rightarrow> nat \<Rightarrow> u8 \<Rightarrow> (string \<times> int) list" where
  "client_sendPower channel b i current_type =
     [(''Channel'', channel)] @ rail_fields ''VDD'' (rail_at b i) @ rail_fields ''VDDIO'' (rail_at b (i + 18))
     @ rail_fields ''ELVDD'' (rail_at b (i + 36)) @ rail_fields ''ELVSS'' (rail_at b (i + 54))
     @ [(''VBL'', uint (get_le16 b (i + 72))), (''iVBL'', get_s16 b (i + 74)), (''VBLh'', 0), (''VBLl'', 0),
        (''iVBLh'', 0), (''iVBLl'', 0)]
     @ rail_fields ''VSP'' (rail_at b (i + 90)) @ rail_fields ''VSN'' (rail_at b (i + 108))
     @ rail_fields ''MTP'' (rail_at b (i + 126)) @ [(''current_type'', uint current_type)]"

text \<open>
  \<^verbatim>\<open>uartWaitRecvData\<close> with the array it reads into: each attempt leaves what it unpacked at the
  front of the array, also when it fails. The value has the return code, the length it stores and
  the array.
\<close>

fun wait_answer :: "int \<Rightarrow> (poll \<times> bool) list \<Rightarrow> u8 list \<Rightarrow> uart_info list \<Rightarrow>
    (int \<times> int \<times> u8 list \<times> uart_info list) option" where
  "wait_answer no [] buf tab = None"
| "wait_answer no ((p, time_left) # turns) buf tab = do {
     (readlen, out, tab) \<leftarrow> uartReadData no p (Some (length buf)) tab;
     let buf = put_at 0 out buf;
     if readlen > 0 then Some (0, readlen, buf, tab)
     else if time_left then wait_answer no turns buf tab
     else Some (1, 0, buf, tab)
   }"

definition version_number :: "u8 list \<Rightarrow> int" where
  "version_number b = uint (b ! 21) * 2 ^ 16 + uint (b ! 22) * 2 ^ 8 + uint (b ! 23)"

abbreviation pwr_emit :: "pwr_event \<Rightarrow> pwr_state \<Rightarrow> pwr_state" where
  "pwr_emit e s \<equiv> s\<lparr>pwr_events := pwr_events s @ [e]\<rparr>"

text \<open>What the array is read as; the return code of the exchange is not looked at.\<close>

definition read_answer :: "u8 list \<Rightarrow> u8 list \<Rightarrow> pwr_state \<Rightarrow> pwr_state" where
  "read_answer pBuf b s =
     (if b ! 1 = 0x85 \<and> b ! 0 = 0x04 then
        let channel = (if get_le16 pBuf 14 = 2 then 1 else 2)
        in pwr_emit (Report_power (client_sendPower channel b 21 (b ! 20))) s
      else if b ! 0 = PWR_CMD_GET_POWER_VER then
        pwr_emit (Report_version 1 (version_number b))
          (s\<lparr>version_request := False, pwrSoftwareVersion := version_number b\<rparr>)
      else s)"

definition pwrCmdTransfer :: "u8 list \<Rightarrow> u16 \<Rightarrow> bool \<Rightarrow> poll \<Rightarrow> (poll \<times> bool) list \<Rightarrow> pwr_state \<Rightarrow>
    (int \<times> pwr_state) option" where
  "pwrCmdTransfer pBuf nLen pNode p turns s = do {
     let no = getPwrUartNo (uarts s);
     (sent, bytes, tab) \<leftarrow> uartSendMsgToBoard no (Some pBuf) nLen p (uarts s);
     if sent = 0 then do {
       (ret, nBufLen, b, tab) \<leftarrow> wait_answer no turns (replicate 1024 0) tab;
       if length pBuf < 16 then None
       else do {
         let s = read_answer pBuf b (pwr_emit (Board_bytes bytes) (s\<lparr>uarts := tab\<rparr>));
         Some (ret, if pNode \<and> ret = 0 then pwr_emit (Node_data (take (nat nBufLen) b)) s else s)
       }
     }
     else Some (1, s\<lparr>uarts := tab\<rparr>)
   }"

section \<open>Upgrading the program of the board\<close>

definition upgrade_start :: "u8 list" where
  "upgrade_start = [0x72, 0x05] @ le16 4 @ le32 0"

definition upgrade_packet :: "nat \<Rightarrow> nat \<Rightarrow> u8 list \<Rightarrow> u8 list" where
  "upgrade_packet file_size offset chunk = [0x73, 0x05] @ le16 (of_nat (12 + length chunk))
     @ le32 (of_nat offset) @ le32 (of_nat (length chunk)) @ le32 (of_nat file_size) @ chunk"

definition send_upgrade :: "poll \<Rightarrow> u8 list \<Rightarrow> pwr_state \<Rightarrow> pwr_state option" where
  "send_upgrade p txt s = do {
     (ret, bytes, tab) \<leftarrow> uartSendMsgToBoard (getPwrUartNo (uarts s)) (Some txt) (of_nat (length txt)) p (uarts s);
     let s = s\<lparr>uarts := tab\<rparr>;
     Some (if ret = 0 then pwr_emit (Board_bytes bytes) s else s)
   }"

text \<open>\<open>ps k\<close> is what the port holds before the packet at offset \<open>k\<close> is sent.\<close>

function (sequential) upgrade_loop :: "(nat \<Rightarrow> poll) \<Rightarrow> nat \<Rightarrow> nat \<Rightarrow> u8 list \<Rightarrow> pwr_state \<Rightarrow> pwr_state option" where
  "upgrade_loop ps file_size offset [] s = Some s"
| "upgrade_loop ps file_size offset buf s = do {
     let datalen = (if length buf \<ge> 1024 then 1024 else length buf);
     s \<leftarrow> send_upgrade (ps offset) (upgrade_packet file_size offset (take datalen buf)) s;
     upgrade_loop ps file_size (offset + datalen) (drop datalen buf) s
   }"
  by pat_completeness auto
termination
  by (relation "measure (\<lambda>(_, _, _, buf, _). length buf)") auto

definition userPwrUpgrade :: "poll \<Rightarrow> (nat \<Rightarrow> poll) \<Rightarrow> u8 list \<Rightarrow> pwr_state \<Rightarrow> pwr_state option" where
  "userPwrUpgrade p ps file s = do {
     s \<leftarrow> send_upgrade p upgrade_start s;
     s \<leftarrow> upgrade_loop ps (length file) 0 file s;
     Some (s\<lparr>pwrSoftwareVersion := 0, version_request := True, version_sem := version_sem s + 1\<rparr>)
   }"

section \<open>The task\<close>

text \<open>
  \<^verbatim>\<open>power_message_proc\<close>. Reading a buffer that was left behind is undefined, and so is freeing one
  that is not a block of the heap. A file to upgrade with is as long as the message says.
\<close>

definition transfer_cmds :: "u8 set" where
  "transfer_cmds = {PWR_CMD_POWER_CALIBRATION, PWR_CMD_POWER_ON, PWR_CMD_POWER_OFF, PWR_CMD_CFG_POWER_STRUCT,
     PWR_CMD_ADJUST_VDIM, PWR_CMD_ADJUST_PWR_FREQ, PWR_CMD_ON_OFF, PWR_CMD_SET_VOL, PWR_CMD_SET_FLY_TIME,
     PWR_CMD_SET_BOE_FREQ_ONOFF, PWR_CMD_CTRL_SWITCH, PWR_CMD_GET_CABC_PWM}"

definition transfer_msg :: "pwr_msg \<Rightarrow> poll \<Rightarrow> (poll \<times> bool) list \<Rightarrow> pwr_state \<Rightarrow> pwr_state option" where
  "transfer_msg m p turns s = (case m_buf m of
       Left_behind b \<Rightarrow> None
     | Waiting b \<Rightarrow> map_option snd (pwrCmdTransfer b (of_nat (m_len m)) False p turns s)
     | Heap_block b \<Rightarrow> map_option snd (pwrCmdTransfer b (of_nat (m_len m)) False p turns s))"

definition power_message_proc :: "pwr_msg \<Rightarrow> poll \<Rightarrow> (poll \<times> bool) list \<Rightarrow> (nat \<Rightarrow> poll) \<Rightarrow> pwr_state \<Rightarrow>
    pwr_state option" where
  "power_message_proc m p turns ps s =
     (if m_id m \<in> uint ` transfer_cmds then transfer_msg m p turns s
      else if m_id m = uint PWR_CMD_GET_POWER_VER then
        (if version_request s then transfer_msg m p turns s else Some s)
      else if m_id m = uint PWR_CMD_GET_VOL then
        (case m_buf m of Heap_block b \<Rightarrow> transfer_msg m p turns s | _ \<Rightarrow> None)
      else if m_id m = PWR_CMD_UPGRADE then
        (case m_buf m of
           Left_behind b \<Rightarrow> None
         | Waiting b \<Rightarrow> map_option (pwrCmdPause_update (\<lambda>_. False)) (userPwrUpgrade p ps b (s\<lparr>pwrCmdPause := True\<rparr>))
         | Heap_block b \<Rightarrow> map_option (pwrCmdPause_update (\<lambda>_. False)) (userPwrUpgrade p ps b (s\<lparr>pwrCmdPause := True\<rparr>)))
      else Some s)"

text \<open>The task takes the messages in the order in which they were sent.\<close>

definition pwr_task_turn :: "poll \<Rightarrow> (poll \<times> bool) list \<Rightarrow> (nat \<Rightarrow> poll) \<Rightarrow> pwr_state \<Rightarrow> pwr_state option" where
  "pwr_task_turn p turns ps s = (case pwr_queue s of [] \<Rightarrow> Some s
     | m # ms \<Rightarrow> power_message_proc m p turns ps (s\<lparr>pwr_queue := ms\<rparr>))"


section \<open>The array of an exchange\<close>

lemma unpack_loop_bound:
  assumes "unpack_loop k ins st cap data = Some r" and "length data \<le> cap"
  shows "case r of Inl (n, d) \<Rightarrow> n = 0 \<and> length d \<le> cap | Inr d \<Rightarrow> length d \<le> cap"
  using assms
  by (induction k ins st cap data rule: unpack_loop.induct) (auto split: unpack_action.splits if_splits)

lemma dataunpack_bound:
  assumes "dataunpack b cap = Some (n, out)"
  shows "length out \<le> cap" and "n \<le> int (length out)"
proof -
  obtain r where "r = Inl (n, out) \<and> n \<le> 0 \<or> r = Inr out \<and> n \<le> int (length out) \<or> out = [] \<and> n = 0"
    "r = Inl (n, out) \<or> r = Inr out \<Longrightarrow>
      unpack_loop (unat (get_le16 b 2)) (drop 4 b) OUTSIDE_FRAME cap [] = Some r"
  proof (cases "length b < 4 \<or> b ! 0 \<noteq> 0x55 \<and> b ! 1 \<noteq> 0xaa")
    case True
    with assms that [of "Inl (0, [0])"] show thesis by (auto simp: dataunpack_def split: if_splits)
  next
    case False
    with assms obtain r where r: "unpack_loop (unat (get_le16 b 2)) (drop 4 b) OUTSIDE_FRAME cap [] = Some r"
      by (auto simp: dataunpack_def simp del: unpack_loop.simps split: bind_splits)
    with unpack_loop_bound [OF r] False assms that [of r] show thesis
      by (cases r) (auto simp: dataunpack_def Let_def split: if_splits)
  qed
  then show "length out \<le> cap" "n \<le> int (length out)"
    using unpack_loop_bound by fastforce+
qed


lemma uartReadData_bound:
  assumes "uartReadData no p (Some cap) tab = Some (n, out, tab')"
  shows "length out \<le> cap" and "n \<le> int (length out)"
proof -
  have "length out \<le> cap \<and> n \<le> int (length out)"
    using assms dataunpack_bound [of _ cap n out]
    by (auto simp: uartReadData_def Let_def split: if_splits bind_splits)
  then show "length out \<le> cap" "n \<le> int (length out)" by auto
qed

lemma length_put_at [simp]: "off + length xs \<le> length b \<Longrightarrow> length (put_at off xs b) = length b"
  by (simp add: put_at_def)

lemma wait_answer_recv:
  "uartWaitRecvData no (length b) turns tab
    = map_option (\<lambda>(ret, n, b, tab). (ret, if ret = 0 then take (nat n) b else [], tab)) (wait_answer no turns b tab)"
proof (induction turns arbitrary: b tab)
  case Nil
  then show ?case by simp
next
  case (Cons t turns)
  obtain p left where t: "t = (p, left)" by (cases t)
  show ?case
  proof (cases "uartReadData no p (Some (length b)) tab")
    case None
    then show ?thesis by (simp add: t)
  next
    case (Some r)
    obtain n out tab1 where r: "r = (n, out, tab1)" by (cases r)
    have "length out \<le> length b" "n \<le> int (length out)"
      using uartReadData_bound Some r by blast+
    then show ?thesis
      using Cons.IH [of "put_at 0 out b" tab1] Some r
      by (auto simp: t Let_def put_at_def)
  qed
qed

text \<open>An answer that arrives whole is at the front of the array.\<close>

lemma wait_answer_whole:
  assumes "uartWaitRecvData no (length b) turns tab = Some (0, d, tab')"
  shows "\<exists>n b'. wait_answer no turns b tab = Some (0, n, b', tab') \<and> take (nat n) b' = d"
  using assms by (auto simp: wait_answer_recv split: if_splits)

section \<open>Reading the answers\<close>

text \<open>The board's side of a supply, and of the answer to a request for the measurements.\<close>

definition rail_wire :: "rail_state \<Rightarrow> u8 list" where
  "rail_wire r = le16 (word_of_int (rs_volt r)) @ le16 (word_of_int (rs_volt_h r)) @ le16 (word_of_int (rs_volt_l r))
     @ le32 (word_of_int (rs_current r)) @ le32 (word_of_int (rs_current_h r)) @ le32 (word_of_int (rs_current_l r))"

definition in_range :: "nat \<Rightarrow> int \<Rightarrow> bool" where
  "in_range n x \<longleftrightarrow> - (2 ^ (n - 1)) \<le> x \<and> x < 2 ^ (n - 1)"

definition rail_ok :: "rail_state \<Rightarrow> bool" where
  "rail_ok r \<longleftrightarrow> in_range 16 (rs_volt r) \<and> in_range 16 (rs_volt_h r) \<and> in_range 16 (rs_volt_l r)
     \<and> in_range 32 (rs_current r) \<and> in_range 32 (rs_current_h r) \<and> in_range 32 (rs_current_l r)"

lemma length_le16 [simp]: "length (le16 w) = 2"
  by (simp add: le16_def)

lemma get_le16_skip: "length xs \<le> i \<Longrightarrow> get_le16 (xs @ ys) i = get_le16 ys (i - length xs)"
  by (simp add: get_le16_def nth_append Suc_diff_le)

lemma get_le32_skip: "length xs \<le> i \<Longrightarrow> get_le32 (xs @ ys) i = get_le32 ys (i - length xs)"
  by (simp add: get_le32_def nth_append Suc_diff_le numeral_3_eq_3)

lemma get_le_Cons:
  "0 < i \<Longrightarrow> get_le16 (x # ys) i = get_le16 ys (i - 1)" "0 < i \<Longrightarrow> get_le32 (x # ys) i = get_le32 ys (i - 1)"
  by (simp_all add: get_le16_def get_le32_def nth_Cons numeral_3_eq_3 split: nat.splits)

lemma sint_in_range16: "in_range 16 x \<Longrightarrow> sint (word_of_int x :: u16) = x"
  by (simp add: in_range_def sint_sbintrunc' signed_take_bit_int_eq_self_iff)

lemma sint_in_range32: "in_range 32 x \<Longrightarrow> sint (word_of_int x :: u32) = x"
  by (simp add: in_range_def sint_sbintrunc' signed_take_bit_int_eq_self_iff)

lemma length_rail_wire [simp]: "length (rail_wire r) = 18"
  by (simp add: rail_wire_def)

lemma rail_at_wire: "rail_ok r \<Longrightarrow> rail_at (rail_wire r @ ys) 0 = r"
  by (cases r) (simp add: rail_at_def rail_wire_def rail_ok_def get_s16_def get_s32_def get_le16_skip get_le32_skip
      get_le16_le16 get_le32_le32 sint_in_range16 sint_in_range32)

lemma rail_at_skip: "length xs \<le> i \<Longrightarrow> rail_at (xs @ ys) i = rail_at ys (i - length xs)"
  by (simp add: rail_at_def get_s16_def get_s32_def get_le16_skip get_le32_skip Suc_diff_le)


text \<open>The port of the board is open and idle.\<close>

definition pwr_ready :: "nat \<Rightarrow> pwr_state \<Rightarrow> bool" where
  "pwr_ready i s \<longleftrightarrow> port_at (getPwrUartNo (uarts s)) i (uarts s) \<and> 0 \<le> getPwrUartNo (uarts s)
     \<and> uart_idle (ui_buf (uarts s ! i)) \<and> ub_leftlen (ui_buf (uarts s ! i)) = 0"

text \<open>The bytes of an answer, in the pieces the polls find, behind some noise.\<close>

definition arrives :: "poll list \<Rightarrow> u8 list \<Rightarrow> bool" where
  "arrives ps F \<longleftrightarrow> (\<forall>p\<in>set ps. length (poll_bytes p) \<le> MAX_BUFF_SIZE)
     \<and> (\<exists>noise. 0x55 \<notin> set noise \<and> concat (map poll_bytes ps) = noise @ F)"

lemma transfer_answer:
  assumes "pwr_ready i s" and "fst p \<le> 0" and "16 \<le> length req" and "length req \<le> 542"
    and "arrives ps (frame_of d)" and "d \<noteq> []" and "length d \<le> 542"
  shows "\<exists>tab b. pwrCmdTransfer req (of_nat (length req)) False p (map (\<lambda>p. (p, True)) ps) s
      = Some (0, read_answer req b (pwr_emit (Board_bytes (frame_of req)) (s\<lparr>uarts := tab\<rparr>)))
    \<and> take (length d) b = d"
proof -
  let ?no = "getPwrUartNo (uarts s)"
  have "length (frame_of req) \<le> UART_BUF_SIZE"
    using frame_of_length(2) [of req] assms(4) by (simp add: UART_BUF_SIZE_def)
  then have sent: "uartSendMsgToBoard ?no (Some req) (of_nat (length req)) p (uarts s) = Some (0, frame_of req, uarts s)"
    using board_sent [of ?no i "uarts s" p req] assms(1,2,4) by (simp add: pwr_ready_def)
  obtain noise where "0x55 \<notin> set noise" "concat (map poll_bytes ps) = noise @ frame_of d"
    "\<forall>p\<in>set ps. length (poll_bytes p) \<le> MAX_BUFF_SIZE"
    using assms(5) by (auto simp: arrives_def)
  then obtain tab where "uartWaitRecvData ?no 1024 (map (\<lambda>p. (p, True)) ps) (uarts s) = Some (0, d, tab)"
    using board_answer [of ?no i "uarts s" noise d ps] assms(1,6,7) by (auto simp: pwr_ready_def)
  then obtain n b where "wait_answer ?no (map (\<lambda>p. (p, True)) ps) (replicate 1024 0) (uarts s) = Some (0, n, b, tab)"
    "take (nat n) b = d"
    using wait_answer_whole [of ?no "replicate 1024 0"] by (metis length_replicate)
  then show ?thesis
    using sent assms(3)
    by (intro exI [of _ tab] exI [of _ b]) (auto simp: pwrCmdTransfer_def Let_def min_def)
qed

text \<open>The answer of the board to a request for its measurements, with the fields between the header and them.\<close>

definition power_answer :: "u8 list \<Rightarrow> u8 \<Rightarrow> rail_state list \<Rightarrow> u16 \<Rightarrow> int \<Rightarrow> u8 list \<Rightarrow> u8 list" where
  "power_answer fill ct rs vbl ivbl led = [0x04, 0x85] @ fill @ [ct] @ rail_wire (rs ! 0) @ rail_wire (rs ! 1)
     @ rail_wire (rs ! 2) @ rail_wire (rs ! 3) @ le16 vbl @ le16 (word_of_int ivbl) @ led
     @ rail_wire (rs ! 4) @ rail_wire (rs ! 5) @ rail_wire (rs ! 6)"

lemma read_power_answer:
  assumes "length fill = 18" and "length led = 14" and "length rs = 7" and "\<forall>r\<in>set rs. rail_ok r"
    and "in_range 16 ivbl"
  shows "client_sendPower ch (power_answer fill ct rs vbl ivbl led) 21 ct
    = [(''Channel'', ch)] @ rail_fields ''VDD'' (rs ! 0) @ rail_fields ''VDDIO'' (rs ! 1)
      @ rail_fields ''ELVDD'' (rs ! 2) @ rail_fields ''ELVSS'' (rs ! 3)
      @ [(''VBL'', uint vbl), (''iVBL'', ivbl), (''VBLh'', 0), (''VBLl'', 0), (''iVBLh'', 0), (''iVBLl'', 0)]
      @ rail_fields ''VSP'' (rs ! 4) @ rail_fields ''VSN'' (rs ! 5) @ rail_fields ''MTP'' (rs ! 6)
      @ [(''current_type'', uint ct)]"
proof -
  have ok: "rail_ok (rs ! 0)" "rail_ok (rs ! 1)" "rail_ok (rs ! 2)" "rail_ok (rs ! 3)" "rail_ok (rs ! 4)"
    "rail_ok (rs ! 5)" "rail_ok (rs ! 6)"
    using assms(3,4) by simp_all
  have last: "rail_at (rail_wire (rs ! 6)) 0 = rs ! 6" using rail_at_wire [OF ok(7), of "[]"] by simp
  define h where "h = [0x04, 0x85] @ fill @ [ct]"
  have ans: "power_answer fill ct rs vbl ivbl led = h @ rail_wire (rs ! 0) @ rail_wire (rs ! 1)
     @ rail_wire (rs ! 2) @ rail_wire (rs ! 3) @ le16 vbl @ le16 (word_of_int ivbl) @ led
     @ rail_wire (rs ! 4) @ rail_wire (rs ! 5) @ rail_wire (rs ! 6)" and h: "length h = 21"
    using assms(1) by (simp_all add: power_answer_def h_def)
  show ?thesis
    unfolding client_sendPower_def ans
    by (simp add: h rail_at_skip get_le16_skip get_s16_def rail_at_wire ok ok(2) [simplified] last assms(2) get_le16_le16
        sint_in_range16 assms(5))
qed


lemma nth_of_take: "take n b = d \<Longrightarrow> n = length d \<Longrightarrow> j < length d \<Longrightarrow> b ! j = d ! j"
  by (metis nth_take)

lemma get_le16_cong: "b ! i = d ! i \<Longrightarrow> b ! Suc i = d ! Suc i \<Longrightarrow> get_le16 b i = get_le16 d i"
  by (simp add: get_le16_def)

lemma rail_at_cong: "\<forall>j<i + 18. b ! j = d ! j \<Longrightarrow> rail_at b i = rail_at d i"
  by (simp add: rail_at_def get_s16_def get_s32_def get_le16_def get_le32_def)

lemma client_sendPower_cong:
  assumes "\<forall>j<165. b ! j = d ! j"
  shows "client_sendPower ch b 21 ct = client_sendPower ch d 21 ct"
  using assms rail_at_cong [of _ b d]
  by (simp add: client_sendPower_def get_s16_def get_le16_def)

lemma length_power_answer:
  "length fill = 18 \<Longrightarrow> length led = 14 \<Longrightarrow> length (power_answer fill ct rs vbl ivbl led) = 165"
  by (simp add: power_answer_def)

lemma get_ways: "get_le16 (head_bytes h) 14 = h_ways h"
  by (simp add: head_bytes_def get_le_Cons get_le16_skip get_le16_le16)

lemma length_head_bytes [simp]: "length (head_bytes h) = 20"
  by (simp add: head_bytes_def)

text \<open>
  C12: What the board measures reaches the server. A request for the measurements of channel \<open>ch\<close>,
  handled by the task, goes out as one frame; when the board answers with its measurements, in
  whatever pieces they come, every voltage and current of the seven supplies and of the backlight is
  reported under its own name with the value the board sent, and the channel and the unit with them.
\<close>
theorem measurements_reported:
  assumes "pwr_ready i s" and "pwr_queue s = []" and "\<not> pwrCmdPause s" and "fst p \<le> 0"
    and "length fill = 18" and "length led = 14" and "length rs = 7" and "\<forall>r\<in>set rs. rail_ok r"
    and "in_range 16 ivbl" and "arrives ps (frame_of (power_answer fill ct rs vbl ivbl led))"
  shows "\<exists>s' req. pwr_task_turn p (map (\<lambda>p. (p, True)) ps) qs (pwrgetInfo ch s) = Some s'
    \<and> length req = 20 \<and> req ! 0 = 0x04 \<and> get_le16 req 14 = ch
    \<and> pwr_events s' = pwr_events s @ [Board_bytes (frame_of req), Report_power
        ([(''Channel'', if ch = 2 then 1 else 2)] @ rail_fields ''VDD'' (rs ! 0) @ rail_fields ''VDDIO'' (rs ! 1)
         @ rail_fields ''ELVDD'' (rs ! 2) @ rail_fields ''ELVSS'' (rs ! 3)
         @ [(''VBL'', uint vbl), (''iVBL'', ivbl), (''VBLh'', 0), (''VBLl'', 0), (''iVBLh'', 0), (''iVBLl'', 0)]
         @ rail_fields ''VSP'' (rs ! 4) @ rail_fields ''VSN'' (rs ! 5) @ rail_fields ''MTP'' (rs ! 6)
         @ [(''current_type'', uint ct)])]"
proof -
  define h where "h = zero_head\<lparr>h_cmd := PWR_CMD_GET_VOL, h_type := 5, h_len := 16, h_ways := ch\<rparr>"
  define d where "d = power_answer fill ct rs vbl ivbl led"
  have d: "length d = 165" "d ! 0 = 0x04" "d ! 1 = 0x85" "d ! 20 = ct"
    using length_power_answer [OF assms(5,6)] assms(5) by (simp_all add: d_def) (simp_all add: power_answer_def nth_append nth_Cons')
  then have dlen: "d \<noteq> []" "length d \<le> 542" by auto
  have "arrives ps (frame_of d)" using assms(10) by (simp add: d_def)
  from transfer_answer [OF _ assms(4) _ _ this dlen, of i s "head_bytes h"] assms(1) obtain tab b where
    tr: "pwrCmdTransfer (head_bytes h) 20 False p (map (\<lambda>p. (p, True)) ps) s
      = Some (0, read_answer (head_bytes h) b (pwr_emit (Board_bytes (frame_of (head_bytes h))) (s\<lparr>uarts := tab\<rparr>)))"
    and b: "take (length d) b = d" by auto
  have same: "\<forall>j<165. b ! j = d ! j" using nth_of_take [OF b refl] d(1) by simp
  have "read_answer (head_bytes h) b s1
      = pwr_emit (Report_power (client_sendPower (if ch = 2 then 1 else 2) d 21 ct)) s1" for s1
    using same d client_sendPower_cong [OF same]
    by (simp add: read_answer_def get_ways) (simp add: h_def)
  moreover have "pwrgetInfo ch s = s\<lparr>pwr_queue := [\<lparr>m_id = 4, m_buf = Heap_block (head_bytes h), m_len = 20\<rparr>]\<rparr>"
    using assms(2,3) by (simp add: pwrgetInfo_def h_def send_message_def PWR_CMD_GET_VOL_def HEAD_LEN_def)
  moreover have "(s\<lparr>pwr_queue := []\<rparr>) = s" using assms(2) by (cases s) simp
  moreover have "head_bytes h ! 0 = 0x04" "get_le16 (head_bytes h) 14 = ch"
    by (simp_all add: get_ways) (simp_all add: head_bytes_def h_def PWR_CMD_GET_VOL_def)
  moreover note tr read_power_answer [OF assms(5-9), of "if ch = 2 then 1 else 2" ct vbl, folded d_def]
    length_head_bytes [of h]
  ultimately show ?thesis
    by (intro exI [of _ "read_answer (head_bytes h) b (pwr_emit (Board_bytes (frame_of (head_bytes h))) (s\<lparr>uarts := tab\<rparr>))"]
        exI [of _ "head_bytes h"])
      (simp add: pwr_task_turn_def power_message_proc_def transfer_cmds_def transfer_msg_def pwr_cmds)
qed


section \<open>The upgrade\<close>

lemma length_stuff: "length (stuff bs) = length bs + length (filter (\<lambda>b. b = 0x7d \<or> b = 0x7e) bs)"
  by (induction bs) (auto simp: stuff_byte_def)

function (sequential) upgrade_packets :: "nat \<Rightarrow> nat \<Rightarrow> u8 list \<Rightarrow> u8 list list" where
  "upgrade_packets fsize offset [] = []"
| "upgrade_packets fsize offset buf = upgrade_packet fsize offset (take 1024 buf)
     # upgrade_packets fsize (offset + length (take 1024 buf)) (drop 1024 buf)"
  by pat_completeness auto
termination
  by (relation "measure (\<lambda>(_, _, buf). length buf)") auto

lemma length_upgrade_packet: "length (upgrade_packet fsize offset c) = 16 + length c"
  by (simp add: upgrade_packet_def)

lemma send_upgrade_fits:
  assumes "pwr_ready i s" and "fst p \<le> 0" and "length txt \<le> 1080" and "length (frame_of txt) \<le> UART_BUF_SIZE"
  shows "send_upgrade p txt s = Some (pwr_emit (Board_bytes (frame_of txt)) s)"
  using board_sent [of "getPwrUartNo (uarts s)" i "uarts s" p "txt"] assms
  by (cases s) (simp add: send_upgrade_def pwr_ready_def Let_def)

lemma upgrade_loop_sends:
  assumes "pwr_ready i s" and "\<And>k. fst (ps k) \<le> 0"
    and "\<forall>pk\<in>set (upgrade_packets fsize offset buf). length (frame_of pk) \<le> UART_BUF_SIZE"
  shows "upgrade_loop ps fsize offset buf s = Some (s\<lparr>pwr_events :=
    pwr_events s @ map (\<lambda>pk. Board_bytes (frame_of pk)) (upgrade_packets fsize offset buf)\<rparr>)"
  using assms(1,3)
proof (induction fsize offset buf arbitrary: s rule: upgrade_packets.induct)
  case (1 fsize offset)
  then show ?case by simp
next
  case (2 fsize offset b bs)
  let ?buf = "b # bs"
  let ?pk = "upgrade_packet fsize offset (take 1024 ?buf)"
  have len: "(if length ?buf \<ge> 1024 then 1024 else length ?buf) = length (take 1024 ?buf)" by simp
  have "length ?pk \<le> 1080" by (simp add: length_upgrade_packet)
  with 2 have "send_upgrade (ps offset) ?pk s = Some (pwr_emit (Board_bytes (frame_of ?pk)) s)"
    by (intro send_upgrade_fits [OF _ assms(2)]) auto
  moreover have "pwr_ready i (pwr_emit (Board_bytes (frame_of ?pk)) s)"
    using "2.prems"(1) by (simp add: pwr_ready_def)
  moreover have "take (length (take 1024 ?buf)) ?buf = take 1024 ?buf"
    "drop (length (take 1024 ?buf)) ?buf = drop 1024 ?buf" by (simp_all add: min_def)
  ultimately show ?case
    using "2.IH" [of "pwr_emit (Board_bytes (frame_of ?pk)) s"] "2.prems"(2)
    by (simp only: upgrade_loop.simps len Let_def upgrade_packets.simps) simp
qed

lemma upgrade_image: "concat (map (drop 16) (upgrade_packets fsize offset buf)) = buf"
  by (induction fsize offset buf rule: upgrade_packets.induct)
    (simp_all add: upgrade_packet_def le16_def le32_def numeral_eq_Suc)


text \<open>What the board takes from a frame.\<close>

definition packet_of :: "u8 list \<Rightarrow> u8 list" where
  "packet_of f = (case dataunpack f 1500 of None \<Rightarrow> [] | Some (n, d) \<Rightarrow> take (nat n) d)"

lemma packet_of_frame: "length d \<le> 1496 \<Longrightarrow> length (frame_of d) \<le> UART_BUF_SIZE \<Longrightarrow> packet_of (frame_of d) = d"
  using unpack_frame [of d 1500 "[]"] by (simp add: packet_of_def UART_BUF_SIZE_def)

lemma upgrade_packet_fields:
  "drop 16 (upgrade_packet fsize offset c) = c" "get_le32 (upgrade_packet fsize offset c) 4 = of_nat offset"
  "get_le32 (upgrade_packet fsize offset c) 8 = of_nat (length c)"
  "get_le32 (upgrade_packet fsize offset c) 12 = of_nat fsize"
  by (simp_all add: upgrade_packet_def get_le_Cons get_le32_skip get_le32_le32)

text \<open>Packet \<open>j\<close> is kilobyte \<open>j\<close> of the program with its header.\<close>

lemma upgrade_packets_nth:
  "length (upgrade_packets fsize offset buf) = (length buf + 1023) div 1024 \<and>
   (\<forall>j < length (upgrade_packets fsize offset buf). upgrade_packets fsize offset buf ! j
      = upgrade_packet fsize (offset + 1024 * j) (take 1024 (drop (1024 * j) buf)))"
proof (induction fsize offset buf rule: upgrade_packets.induct)
  case (1 fsize offset)
  then show ?case by simp
next
  case (2 fsize offset b bs)
  let ?buf = "b # bs"
  note rec = upgrade_packets.simps(2) [of fsize offset b bs]
  have len: "Suc ((length (drop 1024 ?buf) + 1023) div 1024) = (length ?buf + 1023) div 1024"
  proof (cases "1024 \<le> length ?buf")
    case True
    then have "length ?buf + 1023 = (length (drop 1024 ?buf) + 1023) + 1024" by simp
    then show ?thesis by simp
  qed simp
  have nth: "upgrade_packets fsize offset ?buf ! j = upgrade_packet fsize (offset + 1024 * j) (take 1024 (drop (1024 * j) ?buf))"
    if j: "j < length (upgrade_packets fsize offset ?buf)" for j
  proof (cases j)
    case 0
    then show ?thesis by (simp only: rec nth_Cons_0) simp
  next
    case (Suc k)
    have k: "k < length (upgrade_packets fsize (offset + length (take 1024 ?buf)) (drop 1024 ?buf))"
      using j Suc by (simp only: rec) simp
    then have "drop 1024 ?buf \<noteq> []" by (cases "drop 1024 ?buf") auto
    then have "length (take 1024 ?buf) = 1024" by simp
    then show ?thesis
      using 2 k Suc by (simp only: rec nth_Cons_Suc drop_drop) (simp add: algebra_simps)
  qed
  show ?case using 2 len nth by (simp only: rec list.size(4)) simp
qed

lemma upgrade_packets_small: "pk \<in> set (upgrade_packets fsize offset buf) \<Longrightarrow> length pk \<le> 1040"
  using upgrade_packets_nth [of fsize offset buf] by (auto simp: in_set_conv_nth length_upgrade_packet)

text \<open>
  C13: An upgrade delivers the program. When the frames of its packets fit the frame buffer, the task
  sends one frame that starts the upgrade and then one frame for every kilobyte of the program, in
  order, the last one for the rest. The board reads from frame \<open>j\<close> the header of a packet with the offset,
  1024 times \<open>j\<close>, the length of its piece and the length of the program, and then bytes 1024 times \<open>j\<close>
  up to the next offset of the program and nothing else. The version of the board is asked for again afterwards.
\<close>
theorem upgrade_delivers:
  assumes "pwr_ready i s" and "fst p \<le> 0" and "\<And>k. fst (ps k) \<le> 0"
    and "\<forall>pk\<in>set (upgrade_packets (length program) 0 program). length (frame_of pk) \<le> UART_BUF_SIZE"
  shows "\<exists>s' frames. userPwrUpgrade p ps program s = Some s'
    \<and> pwr_events s' = pwr_events s @ map Board_bytes (frame_of [0x72, 0x05, 4, 0, 0, 0, 0, 0] # frames)
    \<and> length frames = (length program + 1023) div 1024
    \<and> (\<forall>j<length frames. \<exists>piece. piece = take 1024 (drop (1024 * j) program) \<and> packet_of (frames ! j) =
         [0x73, 0x05] @ le16 (of_nat (12 + length piece)) @ le32 (of_nat (1024 * j)) @ le32 (of_nat (length piece))
           @ le32 (of_nat (length program)) @ piece)
    \<and> concat (map (\<lambda>f. drop 16 (packet_of f)) frames) = program
    \<and> version_request s' \<and> version_sem s' = version_sem s + 1"
proof -
  let ?pks = "upgrade_packets (length program) 0 program"
  have start: "upgrade_start = [0x72, 0x05, 4, 0, 0, 0, 0, 0]"
    by (simp add: upgrade_start_def le16_def le32_def)
  have "length (frame_of upgrade_start) \<le> UART_BUF_SIZE"
    using frame_of_length(2) [of upgrade_start] by (simp add: start UART_BUF_SIZE_def)
  with assms(1,2) have first: "send_upgrade p upgrade_start s = Some (pwr_emit (Board_bytes (frame_of upgrade_start)) s)"
    by (intro send_upgrade_fits) (simp_all add: start)
  let ?s1 = "pwr_emit (Board_bytes (frame_of upgrade_start)) s"
  have "pwr_ready i ?s1" using assms(1) by (simp add: pwr_ready_def)
  from upgrade_loop_sends [OF this assms(3,4)] first
  have run: "userPwrUpgrade p ps program s = Some (s\<lparr>pwr_events := pwr_events s
      @ map Board_bytes (frame_of upgrade_start # map frame_of ?pks), pwrSoftwareVersion := 0, version_request := True,
      version_sem := version_sem s + 1\<rparr>)"
    by (simp add: userPwrUpgrade_def comp_def)
  have read: "packet_of (frame_of pk) = pk" if "pk \<in> set ?pks" for pk
    using packet_of_frame [of pk] upgrade_packets_small [OF that] assms(4) that by simp
  have image: "concat (map (\<lambda>f. drop 16 (packet_of f)) (map frame_of ?pks)) = program"
  proof -
    have "map (\<lambda>f. drop 16 (packet_of f)) (map frame_of ?pks) = map (drop 16) ?pks"
      using read by simp
    then show ?thesis using upgrade_image [of "length program" 0 program] by (simp only:)
  qed
  have pieces: "packet_of (map frame_of ?pks ! j) = upgrade_packet (length program) (1024 * j) (take 1024 (drop (1024 * j) program))"
    if "j < length (map frame_of ?pks)" for j
  proof -
    have j: "j < length ?pks" using that by simp
    then have "?pks ! j = upgrade_packet (length program) (1024 * j) (take 1024 (drop (1024 * j) program))"
      using upgrade_packets_nth [of "length program" 0 program] by simp
    then show ?thesis using j read [OF nth_mem [OF j]] by simp
  qed
  have "length (map frame_of ?pks) = (length program + 1023) div 1024"
    using upgrade_packets_nth [of "length program" 0 program] by simp
  then show ?thesis
    using run start image pieces
    by (intro exI [of _ "s\<lparr>pwr_events := pwr_events s @ map Board_bytes (frame_of upgrade_start # map frame_of ?pks),
        pwrSoftwareVersion := 0, version_request := True, version_sem := version_sem s + 1\<rparr>"]
      exI [of _ "map frame_of ?pks"]) (simp add: upgrade_packet_def)
qed


text \<open>
  An upgrade can run over the frame buffer. When the first kilobyte of the program holds 49 or
  more bytes that the packing doubles, the frame of the first packet is longer than the local array
  it is packed into.
\<close>
theorem upgrade_overruns_frame:
  assumes "pwr_ready i s" and "fst p \<le> 0" and "\<And>k. fst (ps k) \<le> 0" and "1024 \<le> length program"
    and "49 \<le> length (filter (\<lambda>b. b = 0x7d \<or> b = 0x7e) (take 1024 program))"
  shows "userPwrUpgrade p ps program s = None"
proof -
  let ?no = "getPwrUartNo (uarts s)" and ?c = "take 1024 program"
  let ?pk = "upgrade_packet (length program) 0 ?c"
  have start: "length (frame_of upgrade_start) \<le> UART_BUF_SIZE"
    using frame_of_length(2) [of upgrade_start] by (simp add: upgrade_start_def le16_def UART_BUF_SIZE_def)
  obtain b bs where prog: "program = b # bs" using assms(4) by (cases program) auto
  have len: "length ?pk = 1040" using assms(4) by (simp add: length_upgrade_packet)
  have "49 \<le> length (filter (\<lambda>b. b = 0x7d \<or> b = 0x7e) (?pk @ le32 (uart_fcs ?pk)))"
    using assms(5) by (simp add: upgrade_packet_def)
  then have "UART_BUF_SIZE < length (frame_of ?pk)"
    using len length_stuff [of "?pk @ le32 (uart_fcs ?pk)"]
    by (simp add: length_frame_of UART_BUF_SIZE_def del: filter_append stuff_simps)
  then have "uartWriteData ?no (Some ?pk) 1040 (uarts s) = None"
    using assms(1) len
    by (simp add: uartWriteData_def payload_bytes_def mem_simps datapack_def Let_def port_at_def pwr_ready_def)
  moreover have "uartClearData ?no (ps 0) (uarts s) = Some (0, uarts s)"
    using assms(1,3) by (simp add: uartClearData_def Let_def port_at_def pwr_ready_def)
  ultimately have "send_upgrade (ps 0) ?pk (pwr_emit e s) = None" for e
    using assms(1) len by (simp add: send_upgrade_def uartSendMsgToBoard_def pwr_ready_def)
  moreover have "(if length program \<ge> 1024 then 1024 else length program) = 1024" using assms(4) by simp
  ultimately have "upgrade_loop ps (length program) 0 program (pwr_emit e s) = None" for e
    using assms(4) unfolding prog by (simp only: upgrade_loop.simps Let_def) simp
  moreover have "send_upgrade p upgrade_start s = Some (pwr_emit (Board_bytes (frame_of upgrade_start)) s)"
    using assms(1,2) start by (intro send_upgrade_fits) (simp_all add: upgrade_start_def le16_def)
  ultimately show ?thesis by (simp add: userPwrUpgrade_def)
qed

section \<open>Errors\<close>

lemma corrupt_read:
  assumes "port_at no i tab" and "uart_idle (ui_buf (tab ! i))" and "ub_leftlen (ui_buf (tab ! i)) = 0"
    and "poll_bytes p = frame_with d c" and "c \<noteq> uart_fcs d" and "length d \<le> 542" 
  shows "\<exists>tab'. uartReadData no p (Some 1024) tab = Some (-2, d @ le32 c, tab')"
proof -
  let ?F = "frame_with d c" and ?b = "ui_buf (tab ! i)"
  have tab: "find_serial no tab = i" "i < MAX_UART_CNT" "ui_fd (tab ! i) \<ge> 0"
    using assms(1) by (auto simp: port_at_def)
  have len: "length ?F \<le> UART_BUF_SIZE" "12 \<le> length ?F"
    using frame_with_length [of d c] assms(6) by (simp_all add: UART_BUF_SIZE_def)
  have "recv_pos ?F [] 0 ?b"
    using assms(2) by (simp add: recv_pos_def at_frame_start [OF frame_with_like])
  from process_end [OF this _ len(1), of ?F "[]"] len obtain u where
    u: "uartRevDataProcess ?F (length ?F) ?b = Some u" "at_frame ?F (length ?F) u"
    by (cases "?F = []") (auto simp: UART_BUF_SIZE_def MAX_BUFF_SIZE_def)
  moreover have "poll_bytes p \<noteq> []" using assms(4) len(2) by auto
  ultimately have "feed_poll p ?b = Some u"
    using feed_poll_bytes [OF assms(3), of p] by (simp add: assms(4))
  moreover have "ub_catch u = ?F @ drop (length ?F) (ub_catch u)"
    using u(2) by (metis append_take_drop_id at_frame_def order_refl take_all)
  then have "dataunpack (ub_catch u) 1024 = Some (-2, d @ le32 c)"
    using unpack_frame_with [of d c 1024 "drop (length ?F) (ub_catch u)"] len assms(5,6)
    by (simp add: UART_BUF_SIZE_def)
  moreover have "ub_do u = 1" using u(2) len by (auto simp: at_frame_def uart_inv_def state_at_def)
  ultimately show ?thesis
    using tab by (simp add: uartReadData_def Let_def)
qed

text \<open>
  A damaged answer is taken for the version. When the board answers the request for its version
  with a frame whose checksum is wrong and nothing else comes, the exchange fails, and yet the
  version in the damaged frame is stored, reported to the server, and not asked for again.
\<close>
theorem damaged_version_reported:
  assumes "pwr_ready i s" and "pwr_queue s = []" and "version_request s" and "fst p \<le> 0"
    and "poll_bytes pl = frame_with d c" and "c \<noteq> uart_fcs d" and "24 \<le> length d" and "length d \<le> 542"
    and "d ! 0 = 0x08"
  shows "\<exists>s' req. pwr_task_turn p [(pl, False)] qs (version_turn s) = Some s'
    \<and> pwr_events s' = pwr_events s @ [Board_bytes (frame_of req),
        Report_version 1 (uint (d ! 21) * 2 ^ 16 + uint (d ! 22) * 2 ^ 8 + uint (d ! 23))]
    \<and> pwrSoftwareVersion s' = uint (d ! 21) * 2 ^ 16 + uint (d ! 22) * 2 ^ 8 + uint (d ! 23)
    \<and> \<not> version_request s'"
proof -
  let ?no = "getPwrUartNo (uarts s)"
  define h where "h = zero_head\<lparr>h_cmd := PWR_CMD_GET_POWER_VER, h_type := MSG_TYPE_POWER, h_signl_type := 3,
              h_ways := 1, h_len := 16\<rparr>"
  define b where "b = put_at 0 (d @ le32 c) (replicate 1024 0)"
  have "length (frame_of (head_bytes h)) \<le> UART_BUF_SIZE"
    using frame_of_length(2) [of "head_bytes h"] by (simp add: UART_BUF_SIZE_def)
  then have sent: "uartSendMsgToBoard ?no (Some (head_bytes h)) 20 p (uarts s) = Some (0, frame_of (head_bytes h), uarts s)"
    using board_sent [of ?no i "uarts s" p "head_bytes h"] assms(1,4) by (simp add: pwr_ready_def)
  obtain tab where "uartReadData ?no pl (Some 1024) (uarts s) = Some (-2, d @ le32 c, tab)"
    using corrupt_read [OF _ _ _ assms(5,6,8), of ?no i] assms(1) by (auto simp: pwr_ready_def)
  then have answer: "wait_answer ?no [(pl, False)] (replicate 1024 0) (uarts s) = Some (1, 0, b, tab)"
    by (simp add: b_def)
  have b: "b ! j = d ! j" if "j < length d" for j
    using that by (simp add: b_def put_at_def nth_append)
  have "b ! 0 = d ! 0" "b ! 21 = d ! 21" "b ! 22 = d ! 22" "b ! 23 = d ! 23"
    by (rule b, use assms(7) in linarith)+
  then have "b ! 0 = 0x08" "version_number b = uint (d ! 21) * 2 ^ 16 + uint (d ! 22) * 2 ^ 8 + uint (d ! 23)"
    using assms(9) by (simp_all add: version_number_def)
  then have read: "read_answer (head_bytes h) b s1 = pwr_emit (Report_version 1 (version_number b))
      (s1\<lparr>version_request := False, pwrSoftwareVersion := version_number b\<rparr>)" for s1
    by (simp add: read_answer_def PWR_CMD_GET_POWER_VER_def)
  have tr: "pwrCmdTransfer (head_bytes h) 20 False p [(pl, False)] s = Some (1, read_answer (head_bytes h) b
      (pwr_emit (Board_bytes (frame_of (head_bytes h))) (s\<lparr>uarts := tab\<rparr>)))"
    by (simp add: pwrCmdTransfer_def Let_def sent answer del: wait_answer.simps)
  have "version_turn s = s\<lparr>pwr_queue := [\<lparr>m_id = 8, m_buf = Waiting (head_bytes h), m_len = 20\<rparr>]\<rparr>"
    using assms(2,3) by (simp add: version_turn_def h_def send_message_def PWR_CMD_GET_POWER_VER_def HEAD_LEN_def)
  moreover have "(s\<lparr>pwr_queue := []\<rparr>) = s" using assms(2) by (cases s) simp
  ultimately have "pwr_task_turn p [(pl, False)] qs (version_turn s) = Some (read_answer (head_bytes h) b
      (pwr_emit (Board_bytes (frame_of (head_bytes h))) (s\<lparr>uarts := tab\<rparr>)))"
    using tr assms(3)
    by (simp add: pwr_task_turn_def power_message_proc_def transfer_cmds_def transfer_msg_def pwr_cmds)
  with \<open>version_number b = _\<close> show ?thesis by (auto simp: read)
qed

text \<open>
  Five requests never reach the board. The buffers of the requests for the brightness, the
  dimming signal and its inversion are local arrays of functions that have returned when the task
  reads them; the requests for a picture's setting and for the voltages are messages the task does
  not know.
\<close>
theorem settings_not_sent:
  assumes "pwr_queue s = []"
  shows "pwr_task_turn p turns qs (pwrSetVdim junk v s) = None
    \<and> pwr_task_turn p turns qs (pwrSetPwm junk_head v freq duty s) = None
    \<and> pwr_task_turn p turns qs (pwrSetInvert junk_head junk v s) = None
    \<and> pwr_task_turn p turns qs (pwrSetAdjust junk_head junk ptn s) = Some s
    \<and> pwr_task_turn p turns qs (pwrSetVol junk s) = Some s"
proof -
  have "(s\<lparr>pwr_queue := []\<rparr>) = s" using assms by (cases s) simp
  then show ?thesis
    using assms
    by (simp add: pwr_task_turn_def power_message_proc_def transfer_cmds_def transfer_msg_def pwr_cmds send_message_def
        pwrSetVdim_def pwrSetPwm_def pwrSetInvert_def pwrSetAdjust_def pwrSetVol_def Let_def)
qed


section \<open>Instances\<close>

definition board_open :: pwr_state where
  "board_open = \<lparr>uarts = gsUartInfo_init[1 := (gsUartInfo_init ! 1)\<lparr>ui_fd := 5\<rparr>], pwr_queue = [],
     pwrCmdPause = False, pwrSoftwareVersion = 0, version_request = True, version_sem = 1,
     pwr_timer_on = False, pwr_events = []\<rparr>"

lemma board_open_facts: "pwr_ready 1 board_open" "pwr_queue board_open = []" "\<not> pwrCmdPause board_open"
    "version_request board_open" "pwr_events board_open = []"
  by (simp_all add: board_open_def pwr_ready_def port_at_def getPwrUartNo_def PWR_UART_def gsUartInfo_init_def
      find_serial_def MAX_UART_CNT_def uart_idle_def uart_inv_def ub_zero_def)

lemma measurements_reported_witness:
  "let r = \<lparr>rs_volt = 1800, rs_volt_h = 2000, rs_volt_l = -5, rs_current = 70000, rs_current_h = 0, rs_current_l = -1\<rparr>;
       d = power_answer (replicate 18 0) 4 (replicate 7 r) 9000 (-3) (replicate 14 0)
   in \<exists>s'. pwr_task_turn (0, []) [((1, frame_of d), True)] (\<lambda>_. (0, [])) (pwrgetInfo 3 board_open) = Some s'
        \<and> length (pwr_events s') = 2
        \<and> (case pwr_events s' ! 1 of Report_power fs \<Rightarrow> take 3 fs = [(''Channel'', 2), (''VDD'', 1800), (''VDDh'', 2000)]
           | _ \<Rightarrow> False)"
proof -
  define r where "r = \<lparr>rs_volt = 1800, rs_volt_h = 2000, rs_volt_l = -5, rs_current = 70000, rs_current_h = 0, rs_current_l = -1\<rparr>"
  define d where "d = power_answer (replicate 18 0) 4 (replicate 7 r) 9000 (-3) (replicate 14 0)"
  have "length d = 165" using length_power_answer by (simp add: d_def)
  then have "arrives [(1, frame_of d)] (frame_of d)"
    using frame_of_length(2) [of d] by (simp add: arrives_def poll_bytes_def MAX_BUFF_SIZE_def exI [of _ "[]"])
  moreover have "rail_ok r" by (simp add: r_def rail_ok_def in_range_def)
  ultimately show ?thesis
    using measurements_reported [OF board_open_facts(1-3), of "(0, [])" "replicate 18 0" "replicate 14 0" "replicate 7 r"
        "-3" "[(1, frame_of d)]" 4 9000 "\<lambda>_. (0, [])" 3]
    by (auto simp: Let_def in_range_def d_def [symmetric] r_def [symmetric] board_open_facts rail_fields_def)
      (auto simp: r_def)
qed

lemma upgrade_delivers_witness:
  "\<exists>s' frames. userPwrUpgrade (0, []) (\<lambda>_. (0, [])) [1, 2, 3] board_open = Some s'
    \<and> pwr_events s' = map Board_bytes (frame_of [0x72, 0x05, 4, 0, 0, 0, 0, 0] # frames)
    \<and> concat (map (\<lambda>f. drop 16 (packet_of f)) frames) = [1, 2, 3]"
proof -
  have fits: "\<forall>pk\<in>set (upgrade_packets (length [1, 2, 3 :: u8]) 0 [1, 2, 3]). length (frame_of pk) \<le> UART_BUF_SIZE"
    using frame_of_length(2) [of "upgrade_packet (Suc (Suc (Suc 0))) 0 [1, 2, 3]"]
    by (simp add: length_upgrade_packet UART_BUF_SIZE_def)
  obtain s' frames where "userPwrUpgrade (0, []) (\<lambda>_. (0, [])) [1, 2, 3] board_open = Some s'"
    "pwr_events s' = map Board_bytes (frame_of [0x72, 0x05, 4, 0, 0, 0, 0, 0] # frames)"
    "concat (map (\<lambda>f. drop 16 (packet_of f)) frames) = [1, 2, 3]"
    using upgrade_delivers [OF board_open_facts(1) _ _ fits, of "(0, [])" "\<lambda>_. (0, [])"]
    by (auto simp: board_open_facts)
  then show ?thesis by blast
qed

lemma upgrade_overruns_frame_witness:
  "userPwrUpgrade (0, []) (\<lambda>_. (0, [])) (replicate 2000 0x7e) board_open = None"
  by (rule upgrade_overruns_frame [OF board_open_facts(1)]) simp_all

lemma damaged_version_reported_witness:
  "\<exists>s'. pwr_task_turn (0, []) [((1, frame_with (8 # replicate 23 1) (uart_fcs (8 # replicate 23 1) + 1)), False)]
      (\<lambda>_. (0, [])) (version_turn board_open) = Some s' \<and> pwrSoftwareVersion s' = 0x010101 \<and> \<not> version_request s'"
  using damaged_version_reported [OF board_open_facts(1,2,4), of "(0, [])"
      "(1, frame_with (8 # replicate 23 1) (uart_fcs (8 # replicate 23 1) + 1))" "8 # replicate 23 1"
      "uart_fcs (8 # replicate 23 1) + 1" "\<lambda>_. (0, [])"]
  by (auto simp: poll_bytes_def nth_Cons')

lemma settings_not_sent_witness:
  "pwr_task_turn (0, []) [] (\<lambda>_. (0, [])) (pwrSetVdim [] 5 board_open) = None
    \<and> pwr_task_turn (0, []) [] (\<lambda>_. (0, [])) (pwrSetVol [] board_open) = Some board_open"
  using settings_not_sent [OF board_open_facts(2), of "(0, [])" "[]" "\<lambda>_. (0, [])" "[]" 5 zero_head 0 0 "[]"] by blast

end
