(* ===== verification/PatternDb.thy ===== *)
theory PatternDb
  imports LocalDb
begin

text \<open>
  The patterns of a test module, \<^verbatim>\<open>pgDB/pgDB.c\<close>: two tables of a database file, one row a pattern and
  one for the module, loaded into a loop queue and looked up by number, by position and by what they
  configure; and the list of the modules that are installed. Opening a database and querying a table
  are a parameter: what the file of a name holds.
\<close>

section \<open>State\<close>

definition MAX_FILE_NAME_LEN :: nat where "MAX_FILE_NAME_LEN = 64"

record module_info =
  ptdindex :: int
  ptdpatternname :: string
  ptdpatterntype :: string
  ptdpatternbit :: int
  displayX :: string
  ptddisptime :: int
  timclockfreq :: int
  movefile :: string
  edidfile :: string
  initcodefile :: string
  i3dfile :: string
  videofile :: string
  vcomfile :: string
  powertestfile :: string
  dynamicpattern :: string
  signaltest :: string

record module_set =
  powermainfile :: string
  timingmainfile :: string
  agingtime :: int
  str_ic_name :: string
  ms_conns :: "module_info loop_list"
  ms_max :: nat
  ms_cur :: nat

definition MAX_PATTERN_NUM_IN_MODULE :: nat where "MAX_PATTERN_NUM_IN_MODULE = 200"
definition MAX_MODULE_NUM_IN_PG :: nat where "MAX_MODULE_NUM_IN_PG = 200"

text \<open>A table as a query gives it: the number of columns and the rows; \<open>None\<close> when the query fails.\<close>

type_synonym table = "(nat \<times> string option list list) option"

definition table_cells :: "nat \<times> string option list list \<Rightarrow> string option list" where
  "table_cells t = replicate (fst t) None @ concat (snd t)"

record module_db =
  pattern_config :: table
  global_config :: table

section \<open>Loading\<close>

text \<open>
  A cell of text goes to a buffer of \<open>cap\<close> bytes, and a null cell does not advance the index; a cell
  with a number always does.
\<close>

definition text_cell :: "nat \<Rightarrow> string option list \<Rightarrow> nat \<Rightarrow> (string \<times> nat) option" where
  "text_cell cap result index = do {
     c \<leftarrow> cell result index;
     case c of
       None \<Rightarrow> Some ([], index)
     | Some t \<Rightarrow> if length t < cap then Some (t, index + 1) else None
   }"

definition int_cell :: "string option list \<Rightarrow> nat \<Rightarrow> (int \<times> nat) option" where
  "int_cell result index = do {
     c \<leftarrow> cell result index;
     Some (stringtoint c 0, index + 1)
   }"

definition pattern_row :: "string option list \<Rightarrow> nat \<Rightarrow> module_info option" where
  "pattern_row r i = do {
     (idx, i) \<leftarrow> int_cell r i;
     (name, i) \<leftarrow> text_cell MAX_FILE_NAME_LEN r i;
     (typ, i) \<leftarrow> text_cell (MAX_FILE_NAME_LEN div 2) r i;
     (bits, i) \<leftarrow> int_cell r i;
     (disp, i) \<leftarrow> text_cell (MAX_FILE_NAME_LEN div 2) r i;
     (tm, i) \<leftarrow> int_cell r i;
     (freq, i) \<leftarrow> int_cell r i;
     (move, i) \<leftarrow> text_cell MAX_FILE_NAME_LEN r i;
     (edid, i) \<leftarrow> text_cell MAX_FILE_NAME_LEN r i;
     (code, i) \<leftarrow> text_cell MAX_FILE_NAME_LEN r i;
     (i3d, i) \<leftarrow> text_cell MAX_FILE_NAME_LEN r i;
     (video, i) \<leftarrow> text_cell MAX_FILE_NAME_LEN r i;
     (vcom, i) \<leftarrow> text_cell MAX_FILE_NAME_LEN r i;
     (powr, i) \<leftarrow> text_cell MAX_FILE_NAME_LEN r i;
     (dyn, i) \<leftarrow> text_cell MAX_FILE_NAME_LEN r i;
     (sig, i) \<leftarrow> text_cell MAX_FILE_NAME_LEN r i;
     Some \<lparr>ptdindex = idx, ptdpatternname = name, ptdpatterntype = typ, ptdpatternbit = bits, displayX = disp,
       ptddisptime = tm, timclockfreq = freq, movefile = move, edidfile = edid, initcodefile = code,
       i3dfile = i3d, videofile = video, vcomfile = vcom, powertestfile = powr, dynamicpattern = dyn,
       signaltest = sig\<rparr>
   }"

text \<open>The rows from \<open>i\<close> on, \<open>n\<close> of them; the loop ends early when the count has reached its limit.\<close>

fun pattern_rows :: "string option list \<Rightarrow> nat \<Rightarrow> nat \<Rightarrow> nat \<Rightarrow> module_set \<Rightarrow> module_set option" where
  "pattern_rows result column i 0 m = Some m"
| "pattern_rows result column i (Suc n) m = do {
     p \<leftarrow> pattern_row result ((i + 1) * column);
     if ms_cur m < ms_max m then
       pattern_rows result column (i + 1) n
         (m\<lparr>ms_conns := snd (loop_push_to_tail p (ms_conns m)), ms_cur := ms_cur m + 1\<rparr>)
     else Some m
   }"

definition dbpattern_configLoad :: "table \<Rightarrow> module_set \<Rightarrow> (int \<times> module_set) option" where
  "dbpattern_configLoad t m = (case t of None \<Rightarrow> Some (-1, m)
     | Some t \<Rightarrow> map_option (Pair 0) (pattern_rows (table_cells t) (fst t) 0 (length (snd t)) m))"

text \<open>The columns of the module's own table; here every cell advances the index.\<close>

definition keep_text :: "nat \<Rightarrow> string option list \<Rightarrow> nat \<Rightarrow> string \<Rightarrow> string option" where
  "keep_text cap result index old = do {
     c \<leftarrow> cell result index;
     case c of None \<Rightarrow> Some old | Some t \<Rightarrow> if length t < cap then Some t else None
   }"

definition global_row :: "string option list \<Rightarrow> nat \<Rightarrow> module_set \<Rightarrow> module_set option" where
  "global_row result index m = do {
     p \<leftarrow> keep_text MAX_FILE_NAME_LEN result index (powermainfile m);
     t \<leftarrow> keep_text MAX_FILE_NAME_LEN result (index + 1) (timingmainfile m);
     a \<leftarrow> cell result (index + 2);
     c \<leftarrow> keep_text MAX_FILE_NAME_LEN result (index + 3) (str_ic_name m);
     Some (m\<lparr>powermainfile := p, timingmainfile := t, agingtime := stringtoint a 0, str_ic_name := c\<rparr>)
   }"

fun global_rows :: "string option list \<Rightarrow> nat \<Rightarrow> nat \<Rightarrow> nat \<Rightarrow> module_set \<Rightarrow> module_set option" where
  "global_rows result column i 0 m = Some m"
| "global_rows result column i (Suc n) m =
     Option.bind (global_row result ((i + 1) * column) m) (global_rows result column (i + 1) n)"

definition dbglobal_configLoad :: "table \<Rightarrow> module_set \<Rightarrow> (int \<times> module_set) option" where
  "dbglobal_configLoad t m = (case t of None \<Rightarrow> Some (-1, m)
     | Some t \<Rightarrow> map_option (Pair 0) (global_rows (table_cells t) (fst t) 0 (length (snd t)) m))"

definition empty_set :: "module_info list \<Rightarrow> module_set" where
  "empty_set mem = \<lparr>powermainfile = [], timingmainfile = [], agingtime = 0, str_ic_name = [],
     ms_conns = loop_create MAX_PATTERN_NUM_IN_MODULE True mem, ms_max = MAX_PATTERN_NUM_IN_MODULE, ms_cur = 0\<rparr>"

text \<open>\<open>mem\<close> is the fresh memory of the queue.\<close>

definition dbModuleOpen ::
  "(string \<Rightarrow> module_db option) \<Rightarrow> module_info list \<Rightarrow> string option \<Rightarrow> module_set \<Rightarrow> (int \<times> module_set) option" where
  "dbModuleOpen files mem dbName m = (case dbName of None \<Rightarrow> Some (-1, m)
     | Some n \<Rightarrow> (case files n of None \<Rightarrow> Some (-2, m)
       | Some db \<Rightarrow> do {
           (_, m) \<leftarrow> dbpattern_configLoad (pattern_config db) (empty_set mem);
           (_, m) \<leftarrow> dbglobal_configLoad (global_config db) m;
           Some (0, m)
         }))"

text \<open>
  \<^verbatim>\<open>loop_cleanup\<close> frees the patterns and the array and leaves the addresses and positions in the
  queue. What the array of the module's queue is: nothing yet, allocated, or freed.
\<close>

datatype array_state = Not_allocated | Allocated | Freed

record pattern_db =
  module_set :: module_set
  conns_array :: array_state
  db_init :: bool
  db_name :: string

definition initial_db :: pattern_db where
  "initial_db = \<lparr>module_set = \<lparr>powermainfile = [], timingmainfile = [], agingtime = 0, str_ic_name = [],
     ms_conns = \<lparr>ll_size = 0, ll_head = 0, ll_tail = 0, ll_items = [], ll_del = False\<rparr>, ms_max = 0, ms_cur = 0\<rparr>,
     conns_array = Not_allocated, db_init = False, db_name = []\<rparr>"

definition dbModuleClose :: "pattern_db \<Rightarrow> pattern_db option" where
  "dbModuleClose s = (case conns_array s of
       Not_allocated \<Rightarrow> Some s
     | Allocated \<Rightarrow> map_option (\<lambda>_. s\<lparr>conns_array := Freed\<rparr>) (loop_cleanup (ms_conns (module_set s)))
     | Freed \<Rightarrow> None)"

definition dbModuleInit ::
  "(string \<Rightarrow> module_db option) \<Rightarrow> module_info list \<Rightarrow> string \<Rightarrow> pattern_db \<Rightarrow> (int \<times> pattern_db) option" where
  "dbModuleInit files mem pName s = do {
     s \<leftarrow> dbModuleClose s;
     let s = s\<lparr>db_init := False\<rparr>;
     (ret, m) \<leftarrow> dbModuleOpen files mem (Some pName) (module_set s);
     if ret = 0 then
       (if length pName < 128
        then Some (0, s\<lparr>module_set := m, conns_array := Allocated, db_init := True, db_name := pName\<rparr>)
        else None)
     else Some (-1, s\<lparr>module_set := m\<rparr>)
   }"

definition isdbMoudlelInit :: "pattern_db \<Rightarrow> bool" where
  "isdbMoudlelInit s = db_init s"

section \<open>Looking patterns up\<close>

text \<open>A search in a freed array is undefined, unless the queue was empty.\<close>

definition search_patterns :: "(module_info \<Rightarrow> bool) \<Rightarrow> pattern_db \<Rightarrow> module_info option option" where
  "search_patterns P s =
     (let l = ms_conns (module_set s) in
      if conns_array s = Freed \<and> ll_head l \<noteq> ll_tail l then None else loop_search P l)"

definition searchPattern :: "int \<Rightarrow> module_info \<Rightarrow> bool" where
  "searchPattern ptnId m \<longleftrightarrow> ptdindex m = ptnId"

definition dbModuleGetPatternById :: "int \<Rightarrow> pattern_db \<Rightarrow> module_info option option" where
  "dbModuleGetPatternById ptnId s = search_patterns (searchPattern ptnId) s"

definition search_vcom_pattern :: "module_info \<Rightarrow> bool" where
  "search_vcom_pattern m \<longleftrightarrow> length (vcomfile m) > 0"

definition db_get_vcom_module_info :: "pattern_db \<Rightarrow> module_info option option" where
  "db_get_vcom_module_info s = search_patterns search_vcom_pattern s"

definition search_gamma_pattern :: "module_info \<Rightarrow> bool" where
  "search_gamma_pattern m \<longleftrightarrow> length (signaltest m) > 0"

definition db_get_gamma_module_info :: "pattern_db \<Rightarrow> module_info option option" where
  "db_get_gamma_module_info s = search_patterns search_gamma_pattern s"

definition dbModuleTstPtnNum :: "pattern_db \<Rightarrow> nat" where
  "dbModuleTstPtnNum s = ms_cur (module_set s)"

text \<open>An item that was never stored is an address nobody wrote: using it is undefined.\<close>

definition stored_item :: "'a loop_list \<Rightarrow> nat \<Rightarrow> 'a option" where
  "stored_item l k = (if k < loop_len l then loop_get_from_head l k else None)"

definition dbModuleGetPatternByLoopId :: "nat \<Rightarrow> pattern_db \<Rightarrow> module_info option" where
  "dbModuleGetPatternByLoopId loopId s =
     (if conns_array s = Freed then None else stored_item (ms_conns (module_set s)) loopId)"

text \<open>The names of the module's files; no name is the result -1.\<close>

definition file_name :: "string \<Rightarrow> int \<times> string option" where
  "file_name n = (if length n = 0 then (-1, None) else (0, Some n))"

definition db_module_get_power_cfg_file_name :: "pattern_db \<Rightarrow> int \<times> string option" where
  "db_module_get_power_cfg_file_name s = file_name (powermainfile (module_set s))"

definition db_module_get_timing_cfg_file_name :: "pattern_db \<Rightarrow> int \<times> string option" where
  "db_module_get_timing_cfg_file_name s = file_name (timingmainfile (module_set s))"

definition db_module_get_chip_name :: "pattern_db \<Rightarrow> int \<times> string option" where
  "db_module_get_chip_name s = file_name (str_ic_name (module_set s))"

section \<open>Installed modules\<close>

record module_self =
  self_index :: nat
  totalPattern :: nat
  moduleselfName :: string
  modulePowerName :: string
  patternFirstName :: string

record module_self_set =
  self_conns :: "module_self loop_list"
  self_cur :: nat

text \<open>The entries of the directory, in its order; \<open>None\<close> when it cannot be opened.\<close>

fun add_modules :: "string list \<Rightarrow> module_self_set \<Rightarrow> module_self_set option" where
  "add_modules [] s = Some s"
| "add_modules (n # ns) s =
     (if n = ''.'' \<or> n = ''..'' then add_modules ns s
      else if MAX_FILE_NAME_LEN div 2 \<le> length n then None
      else
        let e = \<lparr>self_index = self_cur s, totalPattern = 0, moduleselfName = n, modulePowerName = [],
              patternFirstName = []\<rparr>
        in add_modules ns (s\<lparr>self_conns := snd (loop_push_to_tail e (self_conns s)),
             self_cur := (self_cur s + 1) mod 65536\<rparr>))"

definition dbInitModuleSelf :: "string list option \<Rightarrow> module_self list \<Rightarrow> (int \<times> module_self_set) option" where
  "dbInitModuleSelf dir mem =
     (let s = \<lparr>self_conns = loop_create MAX_MODULE_NUM_IN_PG False mem, self_cur = 0\<rparr> in
      case dir of None \<Rightarrow> Some (-1, s)
      | Some ns \<Rightarrow> map_option (\<lambda>s. (int (self_cur s), s)) (add_modules ns s))"

definition searchModuleName :: "string \<Rightarrow> module_self \<Rightarrow> bool" where
  "searchModuleName n m \<longleftrightarrow> moduleselfName m = n"

definition searchModuleIndex :: "nat \<Rightarrow> module_self \<Rightarrow> bool" where
  "searchModuleIndex i m \<longleftrightarrow> self_index m = i"

text \<open>
  The description of a module, completed from its database. The first pattern is read from the
  queue whether there is one or not.
\<close>

definition fill_self ::
  "(string \<Rightarrow> module_db option) \<Rightarrow> module_info list \<Rightarrow> module_self \<Rightarrow> module_self option" where
  "fill_self files mem e = do {
     (ret, m) \<leftarrow> dbModuleOpen files mem (Some (''./cfg/tst//'' @ moduleselfName e)) (empty_set mem);
     if ret = 0 then do {
       p \<leftarrow> stored_item (ms_conns m) 0;
       _ \<leftarrow> loop_cleanup (ms_conns m);
       Some (e\<lparr>modulePowerName := take 31 (powermainfile m), patternFirstName := take 31 (ptdpatternname p),
              totalPattern := ms_cur m\<rparr>)
     }
     else Some e
   }"

definition get_self ::
  "(string \<Rightarrow> module_db option) \<Rightarrow> module_info list \<Rightarrow> (module_self \<Rightarrow> bool) \<Rightarrow> module_self_set \<Rightarrow>
     (module_self option \<times> module_self_set) option" where
  "get_self files mem P s = do {
     i \<leftarrow> search_loop P (self_conns s) (ll_head (self_conns s));
     let l = self_conns s;
     if i = ll_tail l then Some (None, s)
     else do {
       e \<leftarrow> fill_self files mem (ll_items l ! i);
       Some (Some e, s\<lparr>self_conns := l\<lparr>ll_items := (ll_items l)[i := e]\<rparr>\<rparr>)
     }
   }"

definition dbModuleSelfGetByName ::
  "(string \<Rightarrow> module_db option) \<Rightarrow> module_info list \<Rightarrow> string \<Rightarrow> module_self_set \<Rightarrow>
     (module_self option \<times> module_self_set) option" where
  "dbModuleSelfGetByName files mem pName s = get_self files mem (searchModuleName pName) s"

definition dbModuleSelfGetByIndex ::
  "(string \<Rightarrow> module_db option) \<Rightarrow> module_info list \<Rightarrow> nat \<Rightarrow> module_self_set \<Rightarrow>
     (module_self option \<times> module_self_set) option" where
  "dbModuleSelfGetByIndex files mem index s = get_self files mem (searchModuleIndex index) s"


section \<open>What is loaded\<close>

text \<open>A row read by column, and the rows that the loader reads so: no null cell, texts that fit.\<close>

definition number_at :: "string option list \<Rightarrow> nat \<Rightarrow> int" where
  "number_at r k = stringtoint (r ! k) 0"

definition text_at :: "string option list \<Rightarrow> nat \<Rightarrow> string" where
  "text_at r k = (case r ! k of None \<Rightarrow> [] | Some t \<Rightarrow> t)"

definition pattern_of :: "string option list \<Rightarrow> module_info" where
  "pattern_of r = \<lparr>ptdindex = number_at r 0, ptdpatternname = text_at r 1, ptdpatterntype = text_at r 2,
     ptdpatternbit = number_at r 3, displayX = text_at r 4, ptddisptime = number_at r 5,
     timclockfreq = number_at r 6, movefile = text_at r 7, edidfile = text_at r 8, initcodefile = text_at r 9,
     i3dfile = text_at r 10, videofile = text_at r 11, vcomfile = text_at r 12, powertestfile = text_at r 13,
     dynamicpattern = text_at r 14, signaltest = text_at r 15\<rparr>"

definition text_fits :: "nat \<Rightarrow> string option \<Rightarrow> bool" where
  "text_fits cap c = (case c of None \<Rightarrow> False | Some t \<Rightarrow> length t < cap)"

definition row_fits :: "nat \<Rightarrow> string option list \<Rightarrow> bool" where
  "row_fits column r \<longleftrightarrow> length r = column \<and> 16 \<le> column
     \<and> list_all (\<lambda>k. text_fits 64 (r ! k)) [1, 7, 8, 9, 10, 11, 12, 13, 14, 15]
     \<and> text_fits 32 (r ! 2) \<and> text_fits 32 (r ! 4)"

lemma text_cell_at:
  assumes "i + k < length cells" and "cells ! (i + k) = r ! k" and "text_fits cap (r ! k)"
  shows "text_cell cap cells (i + k) = Some (text_at r k, i + Suc k)"
  using assms by (auto simp: text_cell_def cell_def text_fits_def text_at_def split: option.splits)

lemma int_cell_at:
  assumes "i + k < length cells" and "cells ! (i + k) = r ! k"
  shows "int_cell cells (i + k) = Some (number_at r k, i + Suc k)"
  using assms by (auto simp: int_cell_def cell_def number_at_def)

lemma pattern_row_at:
  assumes "row_fits c r" and "i + c \<le> length cells" and "\<And>k. k < c \<Longrightarrow> cells ! (i + k) = r ! k"
  shows "pattern_row cells i = Some (pattern_of r)"
proof -
  have k: "i + k < length cells \<and> cells ! (i + k) = r ! k" if "k < 16" for k
    using assms that by (auto simp: row_fits_def)
  have t: "text_cell 64 cells (i + k) = Some (text_at r k, i + Suc k)"
    if "k \<in> {1, 7, 8, 9, 10, 11, 12, 13, 14, 15}" for k
    using text_cell_at [of i k cells r 64] k [of k] that assms(1) by (auto simp: row_fits_def)
  have s: "text_cell 32 cells (i + k) = Some (text_at r k, i + Suc k)" if "k \<in> {2, 4}" for k
    using text_cell_at [of i k cells r 32] k [of k] that assms(1) by (auto simp: row_fits_def)
  have n: "int_cell cells (i + k) = Some (number_at r k, i + Suc k)" if "k < 16" for k
    using int_cell_at [of i k cells r] k [of k] that by blast
  note texts = t [of 1] t [of 7] t [of 8] t [of 9] t [of 10] t [of 11] t [of 12] t [of 13] t [of 14] t [of 15]
    s [of 2] s [of 4] n [of 0] n [of 3] n [of 5] n [of 6]
  show ?thesis
    using texts by (simp add: pattern_row_def MAX_FILE_NAME_LEN_def pattern_of_def)
qed

lemma concat_nth_uniform:
  assumes "\<And>r. r \<in> set rows \<Longrightarrow> length r = c" and "i < length rows" and "k < c"
  shows "concat rows ! (i * c + k) = rows ! i ! k"
  using assms
proof (induction rows arbitrary: i)
  case (Cons r rows)
  then show ?case by (cases i) (auto simp: nth_append)
qed simp

lemma length_concat_uniform:
  "(\<And>r. r \<in> set rows \<Longrightarrow> length r = c) \<Longrightarrow> length (concat rows) = length rows * c"
  by (induction rows) auto

lemma table_row:
  assumes "\<And>r. r \<in> set rows \<Longrightarrow> row_fits c r" and "i < length rows"
  shows "pattern_row (table_cells (c, rows)) ((i + 1) * c) = Some (pattern_of (rows ! i))"
proof (rule pattern_row_at)
  have len: "\<And>r. r \<in> set rows \<Longrightarrow> length r = c" using assms(1) by (auto simp: row_fits_def)
  show "row_fits c (rows ! i)" using assms by simp
  have "(i + 1) * c \<le> length rows * c" using assms(2) by (intro mult_le_mono1) simp
  then show "(i + 1) * c + c \<le> length (table_cells (c, rows))"
    by (simp add: table_cells_def length_concat_uniform [OF len])
  show "table_cells (c, rows) ! ((i + 1) * c + k) = rows ! i ! k" if "k < c" for k
    using concat_nth_uniform [OF len assms(2) that] by (simp add: table_cells_def nth_append add.assoc)
qed

text \<open>The loader pushes the patterns of the rows, in their order, as long as the count allows.\<close>

lemma pattern_rows_push:
  assumes "\<And>r. r \<in> set rows \<Longrightarrow> row_fits c r" and "i + n = length rows" and "ms_cur m \<le> ms_max m"
  shows "pattern_rows (table_cells (c, rows)) c i n m =
    Some (let ps = take (ms_max m - ms_cur m) (map pattern_of (drop i rows)) in
      m\<lparr>ms_conns := snd (pushes loop_push_to_tail ps (ms_conns m)), ms_cur := ms_cur m + length ps\<rparr>)"
  using assms(2,3)
proof (induction n arbitrary: i m)
  case 0
  then show ?case by simp
next
  case (Suc n)
  then have i: "i < length rows" by simp
  have d: "drop i rows = rows ! i # drop (Suc i) rows" using i by (simp add: Cons_nth_drop_Suc)
  note row = table_row [OF assms(1) i]
  show ?case
  proof (cases "ms_cur m < ms_max m")
    case False
    with Suc.prems(2) row show ?thesis by simp
  next
    case True
    let ?p = "pattern_of (rows ! i)"
    let ?m = "m\<lparr>ms_conns := snd (loop_push_to_tail ?p (ms_conns m)), ms_cur := ms_cur m + 1\<rparr>"
    have "pattern_rows (table_cells (c, rows)) c i (Suc n) m =
        pattern_rows (table_cells (c, rows)) c (Suc i) n ?m"
      using row True by simp
    moreover obtain k where k: "ms_max m - ms_cur m = Suc k" "ms_max m - (ms_cur m + 1) = k"
      using True by (cases "ms_max m - ms_cur m") auto
    ultimately show ?thesis
      using Suc.IH [of "Suc i" ?m] Suc.prems True d by (simp add: Let_def split: prod.splits)
  qed
qed

text \<open>As long as nothing is deleted the queue keeps its head.\<close>

lemma pushes_keep_head:
  "pushes loop_push_to_tail xs l = ([], l') \<Longrightarrow> ll_del l \<Longrightarrow> ll_head l' = ll_head l \<and> ll_size l' = ll_size l
     \<and> length (ll_items l') = length (ll_items l)"
proof (induction xs arbitrary: l)
  case (Cons x xs)
  obtain d l1 where one: "loop_push_to_tail x l = (d, l1)" by fastforce
  with Cons.prems(1) have "d = []" and rest: "pushes loop_push_to_tail xs l1 = ([], l')"
    by (auto split: prod.splits)
  with one Cons.prems(2) have "ll_head l1 = ll_head l" "ll_size l1 = ll_size l" "ll_del l1"
    "length (ll_items l1) = length (ll_items l)"
    by (auto simp: loop_push_to_tail_def Let_def split: if_splits)
  with Cons.IH [OF rest] show ?case by simp
qed simp

lemma created_inv:
  "length mem = MAX_PATTERN_NUM_IN_MODULE \<Longrightarrow> loop_inv (loop_create MAX_PATTERN_NUM_IN_MODULE True mem)
     \<and> loop_items (loop_create MAX_PATTERN_NUM_IN_MODULE True mem) = []
     \<and> loop_cap (loop_create MAX_PATTERN_NUM_IN_MODULE True mem) = 199"
  by (simp add: loop_create_def loop_inv_def loop_items_def loop_len_def loop_cap_def
      MAX_PATTERN_NUM_IN_MODULE_def)

text \<open>The queue after up to 199 patterns, and after 200.\<close>

lemma pushed_small:
  assumes "length mem = 200" and "length ps \<le> 199"
  shows "\<exists>l. pushes loop_push_to_tail ps (loop_create 200 True mem) = ([], l) \<and> loop_inv l
    \<and> ll_head l = 0 \<and> loop_items l = ps \<and> ll_size l = 200"
proof -
  let ?q = "loop_create 200 True mem"
  have q: "loop_inv ?q" "loop_items ?q = []" "loop_cap ?q = 199"
    using created_inv [of mem] assms(1) by (simp_all add: MAX_PATTERN_NUM_IN_MODULE_def)
  obtain dels l where p: "pushes loop_push_to_tail ps ?q = (dels, l)" by fastforce
  obtain lost where c: "loop_inv l" "dels = (if ll_del ?q then lost else [])" "lost @ loop_items l = loop_items ?q @ ps"
      "length (loop_items l) = min (loop_cap ?q) (length (loop_items ?q) + length ps)"
    using loop.pushes_conserve [OF q(1) p] by metis
  have own: "ll_del ?q" by (simp add: loop_create_def)
  from c q own assms(2) have "length (loop_items l) = length ps" "dels @ loop_items l = ps" by auto
  then have "dels = []" "loop_items l = ps" by (auto dest: arg_cong [of _ _ length])
  with p c(1) own pushes_keep_head [of ps ?q l] show ?thesis by (auto simp: loop_create_def)
qed

lemma pushed_full:
  assumes "length mem = 200" and "length ps = 199"
  shows "\<exists>l. snd (pushes loop_push_to_tail (ps @ [x]) (loop_create 200 True mem)) = l \<and> loop_inv l
    \<and> ll_head l = 1 \<and> loop_items l = tl ps @ [x] \<and> ll_size l = 200"
proof -
  have split: "snd (pushes loop_push_to_tail (xs @ ys) q) =
      snd (pushes loop_push_to_tail ys (snd (pushes loop_push_to_tail xs q)))"
    for xs ys and q :: "'a loop_list"
    by (induction xs arbitrary: q) (simp_all add: split_beta)
  from pushed_small [OF assms(1), of ps] assms(2) obtain l where
    l: "pushes loop_push_to_tail ps (loop_create 200 True mem) = ([], l)" "loop_inv l" "ll_head l = 0"
      "loop_items l = ps" "ll_size l = 200" by auto
  obtain d l' where p: "loop_push_to_tail x l = (d, l')" by fastforce
  have full: "loop_len l = loop_cap l" using l(4,5) assms(2) by (simp add: loop_cap_def flip: length_loop_items)
  from push_tail_law [OF l(2) p] full l(4) have "loop_inv l'" "loop_items l' = tl ps @ [x]" by auto
  moreover have "ll_head l' = 1" "ll_size l' = 200"
    using p full_tail [OF l(2)] full l(3,5) by (auto simp: loop_push_to_tail_def Let_def)
  ultimately show ?thesis using l(1) p split [of ps "[x]" "loop_create 200 True mem"] by simp
qed

lemma stored_item_at:
  assumes "loop_inv l"
  shows "stored_item l k = (if k < loop_len l \<and> ll_head l + k < ll_size l then Some (loop_items l ! k) else None)"
  using assms loop_invD [OF assms]
  by (auto simp: stored_item_def loop_get_from_head_def loop_items_def)


text \<open>The module's own row: cells may be null and texts must fit.\<close>

definition global_fits :: "nat \<Rightarrow> string option list \<Rightarrow> bool" where
  "global_fits column r \<longleftrightarrow> length r = column \<and> 4 \<le> column
     \<and> list_all (\<lambda>k. r ! k = None \<or> text_fits 64 (r ! k)) [0, 1, 3]"

lemma keep_text_at:
  assumes "i + k < length cells" and "cells ! (i + k) = r ! k" and "r ! k = None \<or> text_fits 64 (r ! k)"
  shows "keep_text 64 cells (i + k) [] = Some (text_at r k)"
  using assms by (auto simp: keep_text_def cell_def text_fits_def text_at_def split: option.splits)

lemma global_one:
  assumes "global_fits c g" and "powermainfile m = []" and "timingmainfile m = []" and "str_ic_name m = []"
  shows "dbglobal_configLoad (Some (c, [g])) m =
    Some (0, m\<lparr>powermainfile := text_at g 0, timingmainfile := text_at g 1, agingtime := number_at g 2,
      str_ic_name := text_at g 3\<rparr>)"
proof -
  have len: "length g = c" "4 \<le> c" using assms(1) by (auto simp: global_fits_def)
  let ?cells = "table_cells (c, [g])"
  have at: "c + k < length ?cells \<and> ?cells ! (c + k) = g ! k" if "k < 4" for k
    using that len by (simp add: table_cells_def nth_append)
  have t: "keep_text 64 ?cells (c + k) [] = Some (text_at g k)" if "k \<in> {0, 1, 3}" for k
    using keep_text_at [of c k ?cells g] at [of k] that assms(1) by (auto simp: global_fits_def)
  have "cell ?cells (c + 2) = Some (g ! 2)" using at [of 2] by (simp add: cell_def)
  with t [of 0] t [of 1] t [of 3] show ?thesis
    using assms(2-4) by (simp add: dbglobal_configLoad_def global_row_def MAX_FILE_NAME_LEN_def number_at_def)
qed

text \<open>The file of a name holds the rows of a module, and the state is one that may be closed.\<close>

definition holds_module ::
  "(string \<Rightarrow> module_db option) \<Rightarrow> string \<Rightarrow> string option list list \<Rightarrow> string option list \<Rightarrow> bool" where
  "holds_module files n rows g \<longleftrightarrow> length n < 128 \<and> (case files n of None \<Rightarrow> False
     | Some db \<Rightarrow> (case pattern_config db of None \<Rightarrow> False
           | Some t \<Rightarrow> snd t = rows \<and> list_all (row_fits (fst t)) rows)
         \<and> (case global_config db of None \<Rightarrow> False
           | Some t \<Rightarrow> snd t = [g] \<and> global_fits (fst t) g))"

definition may_close :: "pattern_db \<Rightarrow> bool" where
  "may_close s \<longleftrightarrow> conns_array s = Not_allocated
     \<or> conns_array s = Allocated \<and> loop_inv (ms_conns (module_set s))"

lemma cleanup_law: "loop_inv l \<Longrightarrow> loop_cleanup l = Some (if ll_del l then loop_items l else [])"
  using del_loop_law [of l 0 "[]"] loop_invD(3) [of l] by (simp add: loop_cleanup_def)

lemma close_law: "may_close s \<Longrightarrow> \<exists>a. dbModuleClose s = Some (s\<lparr>conns_array := a\<rparr>)"
  using cleanup_law [of "ms_conns (module_set s)"]
  by (cases s) (auto simp: may_close_def dbModuleClose_def)

lemma open_law:
  assumes "holds_module files n rows g"
  shows "dbModuleOpen files mem (Some n) m = Some (0,
      (let ps = take 200 (map pattern_of rows) in
       \<lparr>powermainfile = text_at g 0, timingmainfile = text_at g 1, agingtime = number_at g 2,
        str_ic_name = text_at g 3, ms_conns = snd (pushes loop_push_to_tail ps (loop_create 200 True mem)),
        ms_max = 200, ms_cur = length ps\<rparr>))"
proof -
  from assms obtain db c gc where db: "files n = Some db" "pattern_config db = Some (c, rows)"
    "list_all (row_fits c) rows" "global_config db = Some (gc, [g])" "global_fits gc g"
    by (auto simp: holds_module_def split: option.splits)
  have "\<And>r. r \<in> set rows \<Longrightarrow> row_fits c r" using db(3) by (auto simp: list_all_iff)
  note rows = pattern_rows_push [where i = 0 and n = "length rows" and m = "empty_set mem", OF this]
  show ?thesis
    using db rows by (simp add: dbModuleOpen_def dbpattern_configLoad_def empty_set_def
        MAX_PATTERN_NUM_IN_MODULE_def Let_def global_one)
qed

lemma init_law:
  assumes "may_close s" and "holds_module files n rows g"
  shows "dbModuleInit files mem n s = Some (0, \<lparr>module_set =
      (let ps = take 200 (map pattern_of rows) in
       \<lparr>powermainfile = text_at g 0, timingmainfile = text_at g 1, agingtime = number_at g 2,
        str_ic_name = text_at g 3, ms_conns = snd (pushes loop_push_to_tail ps (loop_create 200 True mem)),
        ms_max = 200, ms_cur = length ps\<rparr>),
      conns_array = Allocated, db_init = True, db_name = n\<rparr>)"
proof -
  obtain a where "dbModuleClose s = Some (s\<lparr>conns_array := a\<rparr>)" using close_law [OF assms(1)] by blast
  moreover have "length n < 128" using assms(2) by (simp add: holds_module_def)
  ultimately show ?thesis
    using open_law [OF assms(2)] by (simp add: dbModuleInit_def)
qed

text \<open>A module of two patterns, and its file.\<close>

definition demo_row :: "string \<Rightarrow> string \<Rightarrow> string option list" where
  "demo_row num vcom = map Some [num, ''red'', ''bmp'', ''24'', ''1080x1920'', ''2'', ''148'', [], [], [], [], [],
     vcom, [], [], [], [], [], [], []]"

definition demo_global :: "string option list" where
  "demo_global = [Some ''main.pwr'', Some ''main.tim'', None, Some ''JD9367'', None, None, None]"

definition demo_files :: "string option list list \<Rightarrow> string \<Rightarrow> module_db option" where
  "demo_files rows n = (if n = ''module'' then Some \<lparr>pattern_config = Some (20, rows), global_config = Some (7, [demo_global])\<rparr>
     else None)"

lemma demo_rows_fit: "row_fits 20 (demo_row ''1'' [])" "row_fits 20 (demo_row ''2'' ''vcom.cfg'')"
  by (simp_all add: row_fits_def demo_row_def text_fits_def)

lemma demo_holds:
  "holds_module (demo_files rows) ''module'' rows demo_global \<longleftrightarrow> list_all (row_fits 20) rows"
  by (simp add: holds_module_def demo_files_def global_fits_def demo_global_def text_fits_def)

lemma initial_may_close: "may_close initial_db"
  by (simp add: may_close_def initial_db_def)

text \<open>A full module: the ring drops the first pattern.\<close>

lemma full_module_law:
  assumes "may_close s" and "holds_module files n rows g" and "length mem = 200" and "length rows = 200"
  shows "\<exists>s'. dbModuleInit files mem n s = Some (0, s') \<and> dbModuleTstPtnNum s' = 200
    \<and> dbModuleGetPatternByLoopId 199 s' = None
    \<and> (\<forall>i<199. dbModuleGetPatternByLoopId i s' = Some (pattern_of (rows ! (i + 1))))
    \<and> (\<forall>k. dbModuleGetPatternById k s' = Some (List.find (\<lambda>p. ptdindex p = k) (map pattern_of (tl rows))))"
proof -
  let ?ps = "map pattern_of rows"
  have ne: "?ps \<noteq> []" "rows \<noteq> []" using assms(4) by auto
  then have ps: "take 200 ?ps = butlast ?ps @ [last ?ps]" using assms(4) by simp
  obtain l where l: "snd (pushes loop_push_to_tail (butlast ?ps @ [last ?ps]) (loop_create 200 True mem)) = l"
    "loop_inv l" "ll_head l = 1" "loop_items l = tl (butlast ?ps) @ [last ?ps]" "ll_size l = 200"
    using pushed_full [OF assms(3), of "butlast ?ps" "last ?ps"] assms(4) by auto
  have "tl (butlast ?ps) @ [last ?ps] = tl ?ps"
    using assms(4) ne by (cases rows; cases "tl rows") auto
  then have items: "loop_items l = map pattern_of (tl rows)" using l(4) by (simp add: map_tl)
  then have len: "loop_len l = 199" using assms(4) by (simp flip: length_loop_items)
  have init: "dbModuleInit files mem n s = Some (0, \<lparr>module_set = \<lparr>powermainfile = text_at g 0,
      timingmainfile = text_at g 1, agingtime = number_at g 2, str_ic_name = text_at g 3, ms_conns = l,
      ms_max = 200, ms_cur = 200\<rparr>, conns_array = Allocated, db_init = True, db_name = n\<rparr>)"
    using init_law [OF assms(1,2), of mem] l(1) assms(4) unfolding ps by simp
  show ?thesis
    using init l(2,3,5) items len assms(4) loop_search_law [OF l(2)]
    by (simp add: dbModuleTstPtnNum_def dbModuleGetPatternByLoopId_def stored_item_at
        dbModuleGetPatternById_def search_patterns_def searchPattern_def [abs_def] nth_tl)
qed

section \<open>Properties\<close>

text \<open>
  C31: opening a module whose pattern table has up to 199 rows, none with a null cell and every text
  within its field, loads exactly the rows: the count is their number, position \<open>i\<close> is row \<open>i\<close>, a
  search by number gives the first row that carries it, the pattern with a Vcom or a gamma
  configuration is the first row that names one, and the names of the module's power, timing and
  chip files are those of its own row.
\<close>

theorem patterns_loaded:
  assumes "may_close s" and "holds_module files n rows g" and "length mem = 200" and "length rows \<le> 199"
  shows "\<exists>s'. dbModuleInit files mem n s = Some (0, s') \<and> isdbMoudlelInit s' \<and> may_close s'
    \<and> dbModuleTstPtnNum s' = length rows
    \<and> (\<forall>i. dbModuleGetPatternByLoopId i s' = (if i < length rows then Some (pattern_of (rows ! i)) else None))
    \<and> (\<forall>k. dbModuleGetPatternById k s' = Some (List.find (\<lambda>p. ptdindex p = k) (map pattern_of rows)))
    \<and> db_get_vcom_module_info s' = Some (List.find (\<lambda>p. vcomfile p \<noteq> []) (map pattern_of rows))
    \<and> db_get_gamma_module_info s' = Some (List.find (\<lambda>p. signaltest p \<noteq> []) (map pattern_of rows))
    \<and> db_module_get_power_cfg_file_name s' = file_name (text_at g 0)
    \<and> db_module_get_timing_cfg_file_name s' = file_name (text_at g 1)
    \<and> db_module_get_chip_name s' = file_name (text_at g 3)"
proof -
  let ?ps = "map pattern_of rows"
  have ps: "take 200 ?ps = ?ps" using assms(4) by simp
  obtain l where l: "pushes loop_push_to_tail ?ps (loop_create 200 True mem) = ([], l)" "loop_inv l"
    "ll_head l = 0" "loop_items l = ?ps" "ll_size l = 200"
    using pushed_small [OF assms(3), of ?ps] assms(4) by auto
  have len: "loop_len l = length rows" using l(4) by (simp flip: length_loop_items)
  note search = loop_search_law [OF l(2)]
  show ?thesis
    using init_law [OF assms(1,2), of mem] l ps len assms(4)
    by (simp add: isdbMoudlelInit_def may_close_def dbModuleTstPtnNum_def dbModuleGetPatternByLoopId_def
        stored_item_at dbModuleGetPatternById_def db_get_vcom_module_info_def db_get_gamma_module_info_def
        search_patterns_def search searchPattern_def [abs_def] search_vcom_pattern_def [abs_def]
        search_gamma_pattern_def [abs_def] db_module_get_power_cfg_file_name_def
        db_module_get_timing_cfg_file_name_def db_module_get_chip_name_def)
qed

lemma patterns_loaded_witness:
  "let r1 = demo_row ''1'' []; r2 = demo_row ''2'' ''vcom.cfg'' in
   \<exists>s'. dbModuleInit (demo_files [r1, r2]) (replicate 200 (pattern_of r1)) ''module'' initial_db = Some (0, s')
    \<and> dbModuleTstPtnNum s' = 2 \<and> dbModuleGetPatternByLoopId 1 s' = Some (pattern_of r2)
    \<and> db_get_vcom_module_info s' = Some (Some (pattern_of r2))
    \<and> db_module_get_chip_name s' = (0, Some ''JD9367'')"
proof -
  let ?r1 = "demo_row ''1'' []" and ?r2 = "demo_row ''2'' ''vcom.cfg''"
  have "holds_module (demo_files [?r1, ?r2]) ''module'' [?r1, ?r2] demo_global"
    using demo_rows_fit by (simp add: demo_holds)
  from patterns_loaded [OF initial_may_close this, of "replicate 200 (pattern_of ?r1)"] obtain s' where
    "dbModuleInit (demo_files [?r1, ?r2]) (replicate 200 (pattern_of ?r1)) ''module'' initial_db = Some (0, s')"
    "dbModuleTstPtnNum s' = 2" "dbModuleGetPatternByLoopId 1 s' = Some (pattern_of ?r2)"
    "db_get_vcom_module_info s' = Some (List.find (\<lambda>p. vcomfile p \<noteq> []) [pattern_of ?r1, pattern_of ?r2])"
    "db_module_get_chip_name s' = file_name (text_at demo_global 3)" by auto
  then show ?thesis
    by (simp add: Let_def pattern_of_def demo_row_def text_at_def demo_global_def file_name_def)
qed

text \<open>
  With exactly 200 rows, as many as the module is said to take, the ring of 200 cells drops the
  first pattern: the count is still 200, a search for the number of the first row does not find it
  when no later row carries it, position \<open>i\<close> is row \<open>i + 1\<close>, and reading the last position is past
  the array.
\<close>

theorem full_module_drops_first:
  assumes "may_close s" and "holds_module files n rows g" and "length mem = 200" and "length rows = 200"
  shows "\<exists>s'. dbModuleInit files mem n s = Some (0, s') \<and> dbModuleTstPtnNum s' = 200
    \<and> dbModuleGetPatternByLoopId 199 s' = None
    \<and> (\<forall>i<199. dbModuleGetPatternByLoopId i s' = Some (pattern_of (rows ! (i + 1))))
    \<and> (\<forall>k. dbModuleGetPatternById k s' = Some (List.find (\<lambda>p. ptdindex p = k) (map pattern_of (tl rows))))"
  using full_module_law [OF assms] .

lemma full_module_drops_first_witness:
  "let r1 = demo_row ''1'' []; r2 = demo_row ''2'' ''vcom.cfg''; rows = r1 # replicate 199 r2 in
   \<exists>s'. dbModuleInit (demo_files rows) (replicate 200 (pattern_of r1)) ''module'' initial_db = Some (0, s')
    \<and> dbModuleTstPtnNum s' = 200 \<and> dbModuleGetPatternById (ptdindex (pattern_of r1)) s' = Some None"
proof -
  let ?r1 = "demo_row ''1'' []" and ?r2 = "demo_row ''2'' ''vcom.cfg''"
  let ?rows = "?r1 # replicate 199 ?r2"
  have "holds_module (demo_files ?rows) ''module'' ?rows demo_global"
    using demo_rows_fit by (simp add: demo_holds list_all_iff)
  moreover have "length ?rows = 200" by simp
  ultimately obtain s' where
    s': "dbModuleInit (demo_files ?rows) (replicate 200 (pattern_of ?r1)) ''module'' initial_db = Some (0, s')"
      "dbModuleTstPtnNum s' = 200"
      "\<forall>k. dbModuleGetPatternById k s' = Some (List.find (\<lambda>p. ptdindex p = k) (map pattern_of (tl ?rows)))"
    using full_module_drops_first [OF initial_may_close, of "demo_files ?rows" "''module''" ?rows demo_global
        "replicate 200 (pattern_of ?r1)"] by auto
  have "ptdindex (pattern_of ?r2) \<noteq> ptdindex (pattern_of ?r1)"
    by (simp add: pattern_of_def number_at_def demo_row_def stringtoint_def) code_simp
  then have "List.find (\<lambda>p. ptdindex p = ptdindex (pattern_of ?r1)) (map pattern_of (tl ?rows)) = None"
    by (auto simp: find_None_iff)
  with s' show ?thesis unfolding Let_def by metis
qed

text \<open>
  After an initialisation whose file cannot be opened the old patterns are freed but still
  reachable: searching them is undefined when there were any, and so is the next initialisation,
  whatever its file, which frees them again.
\<close>

theorem failed_init_double_free:
  assumes "conns_array s = Allocated" and "loop_inv (ms_conns (module_set s))" and "files n = None"
  shows "\<exists>s'. dbModuleInit files mem n s = Some (-1, s') \<and> \<not> isdbMoudlelInit s'
    \<and> (loop_items (ms_conns (module_set s)) \<noteq> [] \<longrightarrow> dbModuleGetPatternById k s' = None)
    \<and> dbModuleInit files' mem' n' s' = None"
proof -
  let ?l = "ms_conns (module_set s)"
  have "dbModuleClose s = Some (s\<lparr>conns_array := Freed\<rparr>)"
    using assms(1) cleanup_law [OF assms(2)] by (simp add: dbModuleClose_def)
  moreover have "ll_head ?l = ll_tail ?l \<longrightarrow> loop_items ?l = []"
    using loop_len_0 [OF assms(2)] length_loop_items [of ?l] by (metis length_0_conv)
  ultimately show ?thesis
    using assms(3) by (auto simp: dbModuleInit_def dbModuleOpen_def isdbMoudlelInit_def
        dbModuleGetPatternById_def search_patterns_def dbModuleClose_def Let_def)
qed

lemma failed_init_double_free_witness:
  "let s = initial_db\<lparr>conns_array := Allocated, module_set := empty_set (replicate 200 (pattern_of (demo_row ''1'' [])))\<rparr> in
   \<exists>s'. dbModuleInit (demo_files []) [] ''other'' s = Some (-1, s')
    \<and> dbModuleInit (demo_files []) [] ''module'' s' = None"
proof -
  let ?s = "initial_db\<lparr>conns_array := Allocated, module_set := empty_set (replicate 200 (pattern_of (demo_row ''1'' [])))\<rparr>"
  have "loop_inv (ms_conns (PatternDb.module_set ?s))"
    using created_inv [of "replicate 200 (pattern_of (demo_row ''1'' []))"]
    by (simp add: empty_set_def MAX_PATTERN_NUM_IN_MODULE_def)
  moreover have "demo_files [] ''other'' = None" by (simp add: demo_files_def)
  ultimately show ?thesis
    using failed_init_double_free [of ?s "demo_files []" "''other''" "[]" 1 "demo_files []" "[]" "''module''"]
    unfolding Let_def by (auto simp: initial_db_def)
qed

end
