(* ===== verification/FpgaTask.thy ===== *)
theory FpgaTask
  imports FpgaDrv PatternDb Bitmap
begin

text \<open>
  The task that drives the FPGA, \<^verbatim>\<open>hw/fpga/source/pubFpgaTask.c\<close>, over the requests of the driver
  (theory \<open>FpgaDrv\<close>) and the patterns of the module (theory \<open>PatternDb\<close>); the table of the pictures
  in its memory and the task that fills it, \<^verbatim>\<open>pubmoveptn.c\<close>; and the reading of a timing
  configuration, \<^verbatim>\<open>pubTiming.c\<close>. What the files hold and what the device takes of each write are
  parameters in the state.
\<close>

section \<open>Names of pictures\<close>

fun strstr :: "string \<Rightarrow> string \<Rightarrow> string option" where
  "strstr needle t = (if take (length needle) t = needle then Some t
     else case t of [] \<Rightarrow> None | _ # u \<Rightarrow> strstr needle u)"

declare strstr.simps [simp del]

definition strchr :: "char \<Rightarrow> string \<Rightarrow> string option" where
  "strchr c t = (if c \<in> set t then Some (dropWhile (\<lambda>d. d \<noteq> c) t) else None)"

text \<open>
  \<^verbatim>\<open>loadPtnToMem\<close>: the converted picture lies under \<^verbatim>\<open>cfg/ptn\<close>, by the part of the name after
  \<^verbatim>\<open>imageOrigin/\<close>, which goes through a buffer of 64 bytes. Without the file the buffer stays empty.
\<close>

definition loadPtnToMem :: "(string \<Rightarrow> u8 list option) \<Rightarrow> string \<Rightarrow> u8 list option" where
  "loadPtnToMem files pBmpFullName =
     (case Option.bind (strstr ''imageOrigin'' pBmpFullName) (strchr (CHR ''/'')) of
        None \<Rightarrow> Some []
      | Some pStr2 \<Rightarrow>
          let base = tl pStr2 in
          if 64 \<le> length base then None
          else case files (''cfg/ptn//'' @ base) of None \<Rightarrow> Some [] | Some bytes \<Rightarrow> Some bytes)"

definition image_name :: "module_info \<Rightarrow> string" where
  "image_name m = ''./cfg/imageOrigin/'' @ displayX m @ ''/'' @ ptdpatternname m @ ''.bmp''"

definition ptn_name :: "module_info \<Rightarrow> string" where
  "ptn_name m = ''./cfg/ptn/'' @ displayX m @ ''/'' @ ptdpatternname m @ ''.bmp''"

text \<open>
  \<^verbatim>\<open>sscanf(displayX, "%dX%d", &width, &height)\<close>: what it stores, if it gets that far. A number that
  does not fit is undefined.
\<close>

definition scan_size :: "string \<Rightarrow> (int option \<times> int option) option" where
  "scan_size t = (case scan_d t of
       None \<Rightarrow> Some (None, None)
     | Some (w, t1) \<Rightarrow> if \<not> fits_int w then None
         else (case Option.bind (scan_lit ''X'' t1) scan_d of
             None \<Rightarrow> Some (Some w, None)
           | Some (h, _) \<Rightarrow> if fits_int h then Some (Some w, Some h) else None))"

text \<open>The size of a picture in mebibytes, rounded towards zero.\<close>

definition pic_size :: "int \<Rightarrow> int \<Rightarrow> int option" where
  "pic_size width height =
     (if fits_int (width * height) \<and> fits_int (width * height * 4)
      then Some (c_div (c_div (width * height * 4) 1024) 1024) else None)"

section \<open>The table of pictures\<close>

definition MAX_DOWNLOAD_NUM :: nat where "MAX_DOWNLOAD_NUM = 20"
definition NOT_DOWNLOAD :: int where "NOT_DOWNLOAD = 0"
definition DOWNLOAD_OK :: int where "DOWNLOAD_OK = 1"

record move_ptn_info =
  bmpName :: string
  downLoadStatus :: int
  postion :: int

definition no_picture :: move_ptn_info where
  "no_picture = \<lparr>bmpName = [], downLoadStatus = NOT_DOWNLOAD, postion = 0\<rparr>"

text \<open>
  What the device did with pictures: bytes it took while its download register (5) named a position,
  which are stored there, and the position and size its display register (4) named when a picture was
  switched on.
\<close>

datatype picture_event =
    Transferred u8 "u8 list"
  | Shown u8 u8

definition position_in :: "nat \<Rightarrow> fpga \<Rightarrow> u8" where
  "position_in r f = ucast (regs f r)"

definition size_in :: "nat \<Rightarrow> fpga \<Rightarrow> u8" where
  "size_in r f = ucast (drop_bit 8 (regs f r))"

record fpga_task =
  dev :: fpga
  move_ptn :: "move_ptn_info list"
  s32ForcePostion :: nat
  db :: pattern_db
  files :: "string \<Rightarrow> u8 list option"
  writes :: "nat \<Rightarrow> int list"
  n_transfers :: nat
  trace :: "picture_event list"

definition move_ptn_init :: "fpga_task \<Rightarrow> fpga_task" where
  "move_ptn_init s = s\<lparr>move_ptn := replicate MAX_DOWNLOAD_NUM no_picture\<rparr>"

definition move_ptn_destoryTask :: "fpga_task \<Rightarrow> fpga_task" where
  "move_ptn_destoryTask s = s\<lparr>move_ptn := replicate MAX_DOWNLOAD_NUM no_picture\<rparr>"

text \<open>Under the semaphore: configure the position and send the picture. What the transfer returns is not looked at.\<close>

definition move_ptn_downloading :: "string \<Rightarrow> int \<Rightarrow> int \<Rightarrow> int \<Rightarrow> fpga_task \<Rightarrow> (int \<times> fpga_task) option" where
  "move_ptn_downloading pBmpName width height ucPosition s = do {
     dwPicSize \<leftarrow> pic_size width height;
     (rc, _, f) \<leftarrow> fpga_reg_dev_ioctl (eDOWN_PICTURE \<lparr>ddrCs = 0, hResolution = word_of_int width,
        pictureNo = word_of_int ucPosition, pictureSize = word_of_int dwPicSize, pictureType = 0\<rparr>) (dev s);
     let s = s\<lparr>dev := f\<rparr>;
     if rc \<noteq> 0 then Some (-1, s)
     else do {
       bytes \<leftarrow> loadPtnToMem (files s) pBmpName;
       (_, taken) \<leftarrow> fpga_trans_pic_data bytes (writes s (n_transfers s));
       Some (0, s\<lparr>n_transfers := n_transfers s + 1, trace := trace s @ [Transferred (position_in 5 f) taken]\<rparr>)
     }
   }"

text \<open>What is noted of a download, outside the semaphore; the name goes to a buffer of 128 bytes.\<close>

definition note_download :: "nat \<Rightarrow> string \<Rightarrow> fpga_task \<Rightarrow> fpga_task option" where
  "note_download i pBmpName s =
     (if 128 \<le> length pBmpName then None
      else Some (s\<lparr>move_ptn := (move_ptn s)[i := \<lparr>bmpName = pBmpName, downLoadStatus = DOWNLOAD_OK, postion = int i\<rparr>]\<rparr>))"

fun free_position :: "nat \<Rightarrow> move_ptn_info list \<Rightarrow> nat option" where
  "free_position i [] = None"
| "free_position i (e # es) = (if downLoadStatus e = NOT_DOWNLOAD then Some i else free_position (i + 1) es)"

text \<open>With \<open>bAuto\<close> the first free position, if there is one (without one the function returns no value); otherwise the next in turn.\<close>

definition move_ptn_download :: "string \<Rightarrow> int \<Rightarrow> int \<Rightarrow> bool \<Rightarrow> fpga_task \<Rightarrow> (int option \<times> fpga_task) option" where
  "move_ptn_download pBmpName width height bAuto s =
     (if bAuto then
        (case free_position 0 (move_ptn s) of
           None \<Rightarrow> Some (None, s)
         | Some i \<Rightarrow> do {
             (rc, s) \<leftarrow> move_ptn_downloading pBmpName width height (int i) s;
             if rc = 0 then map_option (Pair (Some 0)) (note_download i pBmpName s) else Some (Some (-1), s)
           })
      else do {
        let p = s32ForcePostion s;
        (rc, s) \<leftarrow> move_ptn_downloading pBmpName width height (int p) s;
        if rc = 0 then do {
          s \<leftarrow> note_download p pBmpName s;
          Some (Some (int p), s\<lparr>s32ForcePostion := (p + 1) mod MAX_DOWNLOAD_NUM\<rparr>)
        }
        else Some (Some (-1), s)
      })"

fun move_ptn_getPostionByName :: "string \<Rightarrow> move_ptn_info list \<Rightarrow> int" where
  "move_ptn_getPostionByName pBmpName [] = -1"
| "move_ptn_getPostionByName pBmpName (e # es) =
     (if downLoadStatus e = DOWNLOAD_OK \<and> bmpName e = pBmpName then postion e
      else move_ptn_getPostionByName pBmpName es)"

text \<open>
  The task that fills the table while no message is served: \<open>n\<close> patterns from \<open>loopId\<close> on, with the
  width and height of the last text that had them.
\<close>

fun move_ptn_loop :: "nat \<Rightarrow> nat \<Rightarrow> int \<Rightarrow> int \<Rightarrow> fpga_task \<Rightarrow> fpga_task option" where
  "move_ptn_loop 0 loopId width height s = Some s"
| "move_ptn_loop (Suc n) loopId width height s = do {
     m \<leftarrow> dbModuleGetPatternByLoopId loopId (db s);
     if files s (image_name m) = None \<or> files s (ptn_name m) = None
     then move_ptn_loop n (loopId + 1) width height s
     else do {
       (w, h) \<leftarrow> scan_size (displayX m);
       let width = (case w of None \<Rightarrow> width | Some x \<Rightarrow> x);
       let height = (case h of None \<Rightarrow> height | Some x \<Rightarrow> x);
       (_, s) \<leftarrow> move_ptn_download (image_name m) width height True s;
       move_ptn_loop n (loopId + 1) width height s
     }
   }"

definition move_ptn_task :: "fpga_task \<Rightarrow> fpga_task option" where
  "move_ptn_task s = move_ptn_loop (dbModuleTstPtnNum (db s)) 0 0 0 s"


section \<open>Messages\<close>

record cursor_state =
  cs_enable :: u8
  cs_x :: u16
  cs_y :: u16
  crossCursorColorRed :: u16
  crossCursorColorGreen :: u16
  crossCursorColorBlue :: u16
  cs_RGBchang :: u8
  cs_startCoordinate :: u8

text \<open>A message with what its parameters are, or point to.\<close>

datatype fpga_message =
    SET_PHOTO int
  | SHOW_RGB u16 u16 u16
  | SET_VESA_JEDA u8
  | SET_CLOCK
  | GET_FPGA_VERSION
  | SET_LINK int
  | SET_BIT int
  | SET_SEQ "u16 \<times> u16 \<times> u16 \<times> u16 \<times> u16 \<times> u16 \<times> u16 \<times> u16"
  | SET_TEST_FILE
  | PIC_MOVE u32 u32
  | SET_REG u32 u32
  | READ_REG u32
  | SET_CROSS_CURSOR cursor_state
  | SET_LINK_MODE u8 "u8 \<times> u8 \<times> u8 \<times> u8"
  | SET_LVDS_TEST
  | SET_NCLK int
  | SET_RGB_ONOFF "u8 \<times> u8 \<times> u8"
  | SET_PHOTO_INDEX
  | SET_FREQ_BY_REFRESH u16
  | ADJUST_RGB rgb_adjust
  | SET_IMAGE_OFFSET u32 u32
  | MOVE_PTN
  | SYN_SIGNAL_LEVEL "u8 \<times> u8 \<times> u8"
  | SET_3D_PIN int
  | SET_TPMODE
  | SET_FPGA_ONEREG u16 u16
  | SET_EDID
  | Other_message

definition fpga_show_color_picture :: "u8 \<Rightarrow> u8 \<Rightarrow> u8 \<Rightarrow> fpga_message" where
  "fpga_show_color_picture r g b = SHOW_RGB (ucast r) (ucast g) (ucast b)"

text \<open>The cursor: a colour is ten bits wide, of which the upper eight are set.\<close>

definition inv8 :: "u16 \<Rightarrow> u16" where
  "inv8 c = NOT c AND 0xFF"

definition colour_word :: "u16 \<Rightarrow> u16 \<Rightarrow> u16 \<Rightarrow> u32" where
  "colour_word r g b = (push_bit 2 (ucast r) OR push_bit 12 (ucast g)) OR push_bit 22 (ucast b)"

text \<open>The green part of the colour of the text is the inverse of itself, which was zero.\<close>

definition cursor_request :: "cursor_state \<Rightarrow> u16 \<Rightarrow> u16 \<Rightarrow> u16 \<Rightarrow> fpga_request" where
  "cursor_request c r g b = eSET_CROSSCURSOR \<lparr>cc_enable = cs_enable c, cc_x = cs_x c, cc_y = cs_y c,
     wordColor = colour_word (inv8 r) (inv8 0) (inv8 b), crossCursorColor = colour_word r g b,
     RGBchang = cs_RGBchang c, startCoordinate = cs_startCoordinate c\<rparr>"

text \<open>
  For green the request is made twice: the inner block declares the variables again, makes a request
  with them and inverts its own blue; the outer blue stays. The case for blue lies in the scope of
  the inner variables and changes only those, which nothing reads any more.
\<close>

definition cursor_requests :: "cursor_state \<Rightarrow> fpga_request list" where
  "cursor_requests c =
     (let r = crossCursorColorRed c AND 0xFF;
          g = crossCursorColorGreen c AND 0xFF;
          b = crossCursorColorBlue c AND 0xFF
      in if cs_RGBchang c = 1 then [cursor_request c r (inv8 g) (inv8 b)]
         else if cs_RGBchang c = 2 then [cursor_request c (inv8 r) g (inv8 b), cursor_request c (inv8 r) g b]
         else [cursor_request c r g b])"

text \<open>Requests whose results are not looked at.\<close>

definition serve :: "fpga_request list \<Rightarrow> fpga_task \<Rightarrow> (int \<times> int option \<times> fpga_task) option" where
  "serve rs s = map_option (\<lambda>f. (0, None, s\<lparr>dev := f\<rparr>)) (fpga_serve rs (dev s))"

text \<open>
  Showing a pattern: by its number to the name of its picture, to a position in the memory of the
  device, where it is sent if it is not there. The position goes to a byte.
\<close>

definition set_photo :: "int \<Rightarrow> fpga_task \<Rightarrow> (int \<times> int option \<times> fpga_task) option" where
  "set_photo ptnId s = do {
     found \<leftarrow> dbModuleGetPatternById ptnId (db s);
     case found of None \<Rightarrow> Some (-1, None, s)
     | Some m \<Rightarrow>
         let ptnImageName = image_name m in
         if files s ptnImageName = None then Some (-1, None, s)
         else do {
           (w, h) \<leftarrow> scan_size (displayX m);
           width \<leftarrow> w;
           height \<leftarrow> h;
           dwPicSize \<leftarrow> pic_size width height;
           let ucPosition = move_ptn_getPostionByName ptnImageName (move_ptn s);
           (pos, s) \<leftarrow> (if ucPosition = -1 then move_ptn_download ptnImageName width height False s
                        else Some (Some ucPosition, s));
           ucPosition \<leftarrow> pos;
           (rc, _, f) \<leftarrow> fpga_reg_dev_ioctl (eSET_FPGA_SHOW_MODE (word_of_int ucPosition) (word_of_int dwPicSize)) (dev s);
           Some (0, None, s\<lparr>dev := f, trace := trace s @ [Shown (position_in 4 f) (size_in 4 f)]\<rparr>)
         }
   }"

definition FPGAVIDEOREG :: u16 where "FPGAVIDEOREG = 0x3b"

text \<open>Bit 11 of the video register, up and down.\<close>

definition set_edid :: "fpga_task \<Rightarrow> (int \<times> int option \<times> fpga_task) option" where
  "set_edid s = do {
     (v, _, f) \<leftarrow> fpga_reg_dev_ioctl (eREAD_FPGA_REG 0x3b) (dev s);
     let up = (word_of_int v :: u16) OR 0x800;
     serve [eSET_FPGA_REG 0x3b up, eSET_FPGA_REG 0x3b (up AND NOT 0x800)] (s\<lparr>dev := f\<rparr>)
   }"

text \<open>
  The result is the return value, what is stored for the sender, and the state. The version is
  asked for with the address of an integer of four bytes, over which the driver writes a structure
  of twelve. \<^verbatim>\<open>FPGA_CMD_SET_FREQ_BY_REFRESH\<close> reads through a pointer that was never set, and
  \<^verbatim>\<open>FPGA_CMD_SET_TPMODE\<close> decides by a variable that was never set.
\<close>

fun fpga_message_proc :: "fpga_message \<Rightarrow> fpga_task \<Rightarrow> (int \<times> int option \<times> fpga_task) option" where
  "fpga_message_proc (SET_PHOTO ptnId) s = set_photo ptnId s"
| "fpga_message_proc (SHOW_RGB r g b) s = serve [eSET_FPGA_RGB r g b] s"
| "fpga_message_proc (SET_VESA_JEDA x) s = serve [eSET_VESA_JEDA x] s"
| "fpga_message_proc SET_CLOCK s = serve [] s"
| "fpga_message_proc GET_FPGA_VERSION s = None"
| "fpga_message_proc (SET_LINK link) s = serve [eSET_LINK link] s"
| "fpga_message_proc (SET_BIT b) s = serve [eSET_BIT b] s"
| "fpga_message_proc (SET_SEQ t) s = serve [eSET_SEQ t] s"
| "fpga_message_proc SET_TEST_FILE s = serve [] s"
| "fpga_message_proc (PIC_MOVE x y) s = serve [ePIC_MOV x y] s"
| "fpga_message_proc (SET_REG p1 p2) s = serve [eSET_FPGA_REG (ucast p1) (ucast p2)] s"
| "fpga_message_proc (READ_REG p1) s =
     map_option (\<lambda>(v, _, f). (v, Some v, s\<lparr>dev := f\<rparr>)) (fpga_reg_dev_ioctl (eREAD_FPGA_REG (ucast p1)) (dev s))"
| "fpga_message_proc (SET_CROSS_CURSOR c) s = serve (cursor_requests c) s"
| "fpga_message_proc (SET_LINK_MODE linkCount module) s =
     (case module of (m0, m1, m2, m3) \<Rightarrow>
        serve [eSET_SIGNAL_MODE (if linkCount = 2 then (m0 - 1, m1 - 1, m0 - 1, m1 - 1)
          else (m0 - 1, m1 - 1, m2 - 1, m3 - 1))] s)"
| "fpga_message_proc SET_LVDS_TEST s = serve [] s"
| "fpga_message_proc (SET_NCLK x) s = serve [eFPGA_CLOCK_ENABLE x] s"
| "fpga_message_proc (SET_RGB_ONOFF x) s = serve [eDISABLE_RGB x] s"
| "fpga_message_proc SET_PHOTO_INDEX s = serve [] s"
| "fpga_message_proc (SET_FREQ_BY_REFRESH freq) s = None"
| "fpga_message_proc (ADJUST_RGB a) s = serve [eGRAY_SCALE_ADJUST a] s"
| "fpga_message_proc (SET_IMAGE_OFFSET x y) s = serve [eIMAGE_OFFSET x y] s"
| "fpga_message_proc MOVE_PTN s = serve [] s"
| "fpga_message_proc (SYN_SIGNAL_LEVEL l) s = serve [eSIGNAL_SYNC_LEVEL l] s"
| "fpga_message_proc (SET_3D_PIN x) s = serve [eFPGA_3D_PIN x] s"
| "fpga_message_proc SET_TPMODE s = None"
| "fpga_message_proc (SET_FPGA_ONEREG offset value) s = serve [eSET_FPGA_REG offset value] s"
| "fpga_message_proc SET_EDID s = set_edid s"
| "fpga_message_proc Other_message s = serve [] s"

definition initFpga :: "fpga_task \<Rightarrow> fpga_task" where
  "initFpga s = s\<lparr>dev := fpgaRightEnable (dev s)\<rparr>"

section \<open>Timing configuration\<close>

record timing_info =
  timsignalmode :: int
  Signal :: int
  timbit :: int
  timvesajeda :: int
  timvsyncpri :: int
  timhsyncpri :: int
  timde :: int
  timvtotaltime :: int
  timhactivetime :: int
  timhtotaltime :: int
  timhbackporch :: int
  timhfrontporch :: int
  timhsyncpulsewidth :: int
  timvactivetime :: int
  timvbackporch :: int
  timvsyncpulsewidth :: int
  timvfrontporch :: int
  timclockfreq :: int
  timMainFreq :: int
  timlink :: "int list"
  timsignaltype :: int
  timmipilanenum :: int
  timmipisyncmode :: int
  timmipicommandenable :: int
  timmipiprd :: int
  timmipivsdelay :: int
  mdlmipidsiclock :: int
  timmipii2cdrivertype :: int
  timmipilinenumber :: int
  timmipirefreshrate :: int
  timinitcodename :: string
  timMipiBurnCodeName :: string
  timdpinterface :: int
  timdpauxrate :: int
  timdphpddelay :: int

text \<open>The characters of a text less that of zero, as the type \<^verbatim>\<open>char\<close> of ARM has it, into the first cells.\<close>

definition link_digits :: "string \<Rightarrow> int list \<Rightarrow> int list" where
  "link_digits t old = map (\<lambda>c. (of_char c - 48) mod 256) t @ drop (length t) old"

text \<open>
  The configuration as the parser gives it: a number and a text for a key, with a default. A text
  of the links longer than eight characters, a file name of 64, or a clock whose multiple by 1000
  does not fit is undefined.
\<close>

definition read_timging_config ::
  "((string \<Rightarrow> int \<Rightarrow> int) \<times> (string \<Rightarrow> string \<Rightarrow> string)) option \<Rightarrow> timing_info \<Rightarrow> (int \<times> timing_info) option" where
  "read_timging_config ini t = (case ini of None \<Rightarrow> Some (-1, t)
     | Some (getint, getstring) \<Rightarrow>
         (let plink = getstring ''timing:timlink'' ''12345678'';
              clk = getint ''timing:mdlmipidsiclock'' 0;
              code = getstring ''timing:timinitcodename'' [];
              mtp = getstring ''timing:timMipiBurnCodeName'' []
          in if 8 < length plink \<or> \<not> fits_int (clk * 1000) \<or> 64 \<le> length code \<or> 64 \<le> length mtp then None
          else Some (0, \<lparr>
            timsignalmode = getint ''timing:timsignalmode'' 1,
            Signal = getint ''timing:Signal'' 0,
            timbit = getint ''timing:timbit'' 0,
            timvesajeda = getint ''timing:timvesajeda'' 0,
            timvsyncpri = getint ''timing:timvsyncpri'' 0,
            timhsyncpri = getint ''timing:timhsyncpri'' 0,
            timde = getint ''timing:timde'' 0,
            timvtotaltime = getint ''timing:timvtotaltime'' 0,
            timhactivetime = getint ''timing:timhactivetime'' 0,
            timhtotaltime = getint ''timing:timhtotaltime'' 0,
            timhbackporch = getint ''timing:timhbackporch'' 0,
            timhfrontporch = getint ''timing:timhfrontporch'' 0,
            timhsyncpulsewidth = getint ''timing:timhsyncpulsewidth'' 0,
            timvactivetime = getint ''timing:timvactivetime'' 0,
            timvbackporch = getint ''timing:timvbackporch'' 0,
            timvsyncpulsewidth = getint ''timing:timvsyncpulsewidth'' 0,
            timvfrontporch = getint ''timing:timvfrontporch'' 0,
            timclockfreq = getint ''timing:timclockfreq'' 0,
            timMainFreq = getint ''timing:timMainFreq'' 0,
            timlink = link_digits plink (timlink t),
            timsignaltype = getint ''timing:timsignaltype'' 0,
            timmipilanenum = getint ''timing:timmipilanenum'' 1,
            timmipisyncmode = getint ''timing:timmipisyncmode'' 0,
            timmipicommandenable = getint ''timing:timmipicommandenable'' 0,
            timmipiprd = getint ''timing:timmipiprd'' 0,
            timmipivsdelay = getint ''timing:timmipivsdelay'' 0,
            mdlmipidsiclock = clk * 1000,
            timmipii2cdrivertype = getint ''timing:timmipii2cdrivertype'' 0,
            timmipilinenumber = getint ''timing:timmipilinenumber'' 0,
            timmipirefreshrate = getint ''timing:timmipirefreshrate'' 0,
            timinitcodename = code,
            timMipiBurnCodeName = mtp,
            timdpinterface = getint ''timing:timdpinterface'' 0,
            timdpauxrate = getint ''timing:timdpauxrate'' 0,
            timdphpddelay = getint ''timing:timdphpddelay'' 0\<rparr>)))"


section \<open>What lies at a position\<close>

text \<open>The bytes that were stored last at a position.\<close>

fun held :: "u8 \<Rightarrow> picture_event list \<Rightarrow> u8 list option" where
  "held p [] = None"
| "held p (e # es) = (case held p es of Some x \<Rightarrow> Some x
     | None \<Rightarrow> (case e of Transferred q b \<Rightarrow> if q = p then Some b else None | Shown _ _ \<Rightarrow> None))"

lemma held_snoc [simp]:
  "held p (tr @ [Transferred q b]) = (if q = p then Some b else held p tr)"
  "held p (tr @ [Shown x y]) = held p tr"
  by (induction tr) (auto split: option.splits)

lemma held_snoc2 [simp]: "held p (tr @ [e, Shown x y]) = held p (tr @ [e])"
  using held_snoc(2) [of p "tr @ [e]" x y] by simp

text \<open>The bytes come from a transfer of the picture of a name, as the files of one of \<open>F\<close> hold it.\<close>

definition sent_from :: "(string \<Rightarrow> u8 list option) set \<Rightarrow> (nat \<Rightarrow> int list) \<Rightarrow> string \<Rightarrow> u8 list \<Rightarrow> bool" where
  "sent_from F ws n b \<longleftrightarrow> (\<exists>fs \<in> F. \<exists>pic k rc. loadPtnToMem fs n = Some pic \<and>
     fpga_trans_pic_data pic (ws k) = Some (rc, b))"

definition task_inv :: "(string \<Rightarrow> u8 list option) set \<Rightarrow> fpga_task \<Rightarrow> bool" where
  "task_inv F s \<longleftrightarrow> files s \<in> F \<and> length (move_ptn s) = MAX_DOWNLOAD_NUM \<and> s32ForcePostion s < MAX_DOWNLOAD_NUM
     \<and> (\<forall>i<MAX_DOWNLOAD_NUM. downLoadStatus (move_ptn s ! i) = DOWNLOAD_OK \<longrightarrow>
          postion (move_ptn s ! i) = int i
          \<and> (\<exists>b. held (of_nat i) (trace s) = Some b \<and> sent_from F (writes s) (bmpName (move_ptn s ! i)) b))"

lemma downloading_law:
  assumes "move_ptn_downloading n w h p s = Some (rc, s')"
  shows "move_ptn s' = move_ptn s" "s32ForcePostion s' = s32ForcePostion s" "db s' = db s" "files s' = files s"
    "writes s' = writes s"
    "rc = 0 \<and> (\<exists>b. trace s' = trace s @ [Transferred (word_of_int p) b] \<and> sent_from {files s} (writes s) n b)
     \<or> rc = -1 \<and> trace s' = trace s"
proof -
  show "move_ptn s' = move_ptn s" "s32ForcePostion s' = s32ForcePostion s" "db s' = db s" "files s' = files s"
    "writes s' = writes s"
    using assms by (auto simp: move_ptn_downloading_def Let_def split: if_splits Option.bind_splits prod.splits)
  let ?d = "\<lambda>z. \<lparr>ddrCs = 0, hResolution = word_of_int w, pictureNo = word_of_int p,
      pictureSize = word_of_int z, pictureType = 0\<rparr>"
  obtain z where z: "pic_size w h = Some z"
    using assms by (auto simp: move_ptn_downloading_def split: Option.bind_splits)
  obtain r f where f: "fpgaPictureDownloadConfig (?d z) (dev s) = (r, f)" by (cases "fpgaPictureDownloadConfig (?d z) (dev s)")
  show "rc = 0 \<and> (\<exists>b. trace s' = trace s @ [Transferred (word_of_int p) b] \<and> sent_from {files s} (writes s) n b)
     \<or> rc = -1 \<and> trace s' = trace s"
  proof (cases "r = 0")
    case True
    have "position_in 5 f = word_of_int p"
      using download_register [OF f [unfolded True]] by (simp add: position_in_def picture_reg_parts)
    then show ?thesis
      using assms z f True
      by (fastforce simp: move_ptn_downloading_def Let_def sent_from_def split: Option.bind_splits prod.splits)
  next
    case False
    then show ?thesis using assms z f by (auto simp: move_ptn_downloading_def Let_def)
  qed
qed

lemma positions_differ:
  assumes "i < MAX_DOWNLOAD_NUM" and "j < MAX_DOWNLOAD_NUM"
  shows "(of_nat i :: u8) = of_nat j \<longleftrightarrow> i = j"
proof -
  have "unat (of_nat k :: u8) = k" if "k < MAX_DOWNLOAD_NUM" for k
    using that by (simp add: unat_of_nat MAX_DOWNLOAD_NUM_def)
  then show ?thesis using assms by metis
qed

lemma sent_from_mono: "sent_from F ws n b \<Longrightarrow> F \<subseteq> G \<Longrightarrow> sent_from G ws n b"
  by (auto simp: sent_from_def)

lemma note_inv:
  assumes "task_inv F s" and "i < MAX_DOWNLOAD_NUM" and "move_ptn t = move_ptn s"
    and "s32ForcePostion t = s32ForcePostion s" and "files t = files s" and "writes t = writes s"
    and "trace t = trace s @ [Transferred (of_nat i) b]" and "sent_from {files s} (writes s) n b"
    and "note_download i n t = Some t'"
  shows "task_inv F t'"
proof -
  have "files s \<in> F" using assms(1) by (simp add: task_inv_def)
  then have "sent_from F (writes s) n b" using sent_from_mono [OF assms(8)] by simp
  then show ?thesis
    using assms(1-7,9) positions_differ [OF assms(2)]
    by (auto simp: task_inv_def note_download_def nth_list_update split: if_splits)
qed

lemma free_position_law:
  "free_position k es = Some i \<Longrightarrow> k \<le> i \<and> i < k + length es \<and> downLoadStatus (es ! (i - k)) = NOT_DOWNLOAD"
proof (induction k es rule: free_position.induct)
  case (2 k e es)
  then show ?case by (auto split: if_splits simp: nth_Cons' Suc_diff_Suc dest: Suc_leD)
qed simp

lemma note_keeps:
  "note_download i n t = Some t' \<Longrightarrow> trace t' = trace t \<and> s32ForcePostion t' = s32ForcePostion t \<and> db t' = db t
     \<and> files t' = files t \<and> writes t' = writes t"
  by (auto simp: note_download_def split: if_splits)

lemma inv_force: "task_inv F s \<Longrightarrow> p < MAX_DOWNLOAD_NUM \<Longrightarrow> task_inv F (s\<lparr>s32ForcePostion := p\<rparr>)"
  by (simp add: task_inv_def)

lemma inv_same: "task_inv F s \<Longrightarrow> move_ptn t = move_ptn s \<Longrightarrow> s32ForcePostion t = s32ForcePostion s
    \<Longrightarrow> files t = files s \<Longrightarrow> writes t = writes s \<Longrightarrow> (\<And>p. held p (trace t) = held p (trace s)) \<Longrightarrow> task_inv F t"
  by (simp add: task_inv_def)

lemma auto_download_law:
  assumes "move_ptn_download n w h True s = Some (r, s')" and "task_inv F s"
  shows "task_inv F s' \<and> db s' = db s \<and> files s' = files s \<and> writes s' = writes s"
proof (cases "free_position 0 (move_ptn s)")
  case None
  then show ?thesis using assms by (simp add: move_ptn_download_def)
next
  case (Some i)
  have i: "i < MAX_DOWNLOAD_NUM" using free_position_law [OF Some] assms(2) by (simp add: task_inv_def)
  from assms(1) Some obtain rc t where t: "move_ptn_downloading n w h (int i) s = Some (rc, t)"
    and rest: "(if rc = 0 then map_option (Pair (Some 0)) (note_download i n t) else Some (Some (-1), t)) = Some (r, s')"
    by (auto simp: move_ptn_download_def split: Option.bind_splits)
  note law = downloading_law [OF t]
  show ?thesis
  proof (cases "rc = 0")
    case True
    then obtain b where b: "trace t = trace s @ [Transferred (of_nat i) b]" "sent_from {files s} (writes s) n b"
      using law(6) by auto
    from rest True obtain "note_download i n t = Some s'" by auto
    with note_inv [OF assms(2) i law(1,2,4,5) b] note_keeps [of i n t s'] law(3-5) show ?thesis by simp
  next
    case False
    with rest law inv_same [OF assms(2), of s'] show ?thesis by auto
  qed
qed

lemma forced_download_law:
  assumes "move_ptn_download n w h False s = Some (r, s')" and "task_inv F s"
  shows "task_inv F s' \<and> db s' = db s \<and> files s' = files s \<and> writes s' = writes s
    \<and> (r = Some (-1) \<and> trace s' = trace s
       \<or> (\<exists>p b. r = Some (int p) \<and> p < 20 \<and> trace s' = trace s @ [Transferred (of_nat p) b]
             \<and> sent_from {files s} (writes s) n b))"
proof -
  let ?p = "s32ForcePostion s"
  have p: "?p < MAX_DOWNLOAD_NUM" using assms(2) by (simp add: task_inv_def)
  from assms(1) obtain rc t where t: "move_ptn_downloading n w h (int ?p) s = Some (rc, t)"
    and rest: "(if rc = 0 then do { t \<leftarrow> note_download ?p n t;
        Some (Some (int ?p), t\<lparr>s32ForcePostion := (?p + 1) mod MAX_DOWNLOAD_NUM\<rparr>) } else Some (Some (-1), t)) = Some (r, s')"
    by (auto simp: move_ptn_download_def Let_def split: Option.bind_splits)
  note law = downloading_law [OF t]
  show ?thesis
  proof (cases "rc = 0")
    case True
    then obtain b where b: "trace t = trace s @ [Transferred (of_nat ?p) b]" "sent_from {files s} (writes s) n b"
      using law(6) by auto
    from rest True obtain u where u: "note_download ?p n t = Some u" "r = Some (int ?p)"
      "s' = u\<lparr>s32ForcePostion := (?p + 1) mod MAX_DOWNLOAD_NUM\<rparr>" by (auto split: Option.bind_splits)
    have "task_inv F s'"
      unfolding u(3) using inv_force [OF note_inv [OF assms(2) p law(1,2,4,5) b u(1)]] by (simp add: MAX_DOWNLOAD_NUM_def)
    with note_keeps [OF u(1)] law(3-5) u b p show ?thesis by (auto simp: MAX_DOWNLOAD_NUM_def)
  next
    case False
    with rest law inv_same [OF assms(2), of s'] show ?thesis by auto
  qed
qed

lemma getPostion_law:
  assumes "move_ptn_getPostionByName n es = p" and "p \<noteq> -1"
  shows "\<exists>i<length es. downLoadStatus (es ! i) = DOWNLOAD_OK \<and> bmpName (es ! i) = n \<and> postion (es ! i) = p"
  using assms
proof (induction n es rule: move_ptn_getPostionByName.induct)
  case (2 n e es)
  then show ?case by (cases "downLoadStatus e = DOWNLOAD_OK \<and> bmpName e = n") auto
qed simp

lemma cached_law:
  assumes "task_inv F s" and "move_ptn_getPostionByName n (move_ptn s) = p" and "p \<noteq> -1"
  shows "\<exists>i b. p = int i \<and> i < 20 \<and> held (of_nat i) (trace s) = Some b \<and> sent_from F (writes s) n b"
proof -
  from getPostion_law [OF assms(2,3)] obtain i where "i < length (move_ptn s)"
    "downLoadStatus (move_ptn s ! i) = DOWNLOAD_OK" "bmpName (move_ptn s ! i) = n" "postion (move_ptn s ! i) = p" by blast
  with assms(1) show ?thesis by (auto simp: task_inv_def MAX_DOWNLOAD_NUM_def intro!: exI [of _ i])
qed

lemma show_mode_law: "\<exists>f. fpga_reg_dev_ioctl (eSET_FPGA_SHOW_MODE a b) d = Some (0, Nothing, f)"
  by simp

lemma serve_law: "serve rs s = Some (rc, v, s') \<Longrightarrow> rc = 0 \<and> move_ptn s' = move_ptn s \<and> trace s' = trace s
    \<and> s32ForcePostion s' = s32ForcePostion s \<and> db s' = db s \<and> files s' = files s \<and> writes s' = writes s"
  by (auto simp: serve_def)

text \<open>Showing a pattern.\<close>

lemma set_photo_law:
  assumes "set_photo k s = Some (rc, v, s')" and "task_inv F s"
  shows "task_inv F s' \<and> writes s' = writes s \<and> (rc = -1 \<and> s' = s
    \<or> (\<exists>m pos sz tr. rc = 0 \<and> dbModuleGetPatternById k (db s) = Some (Some m) \<and> files s (image_name m) \<noteq> None
         \<and> trace s' = tr @ [Shown (word_of_int pos) sz]
         \<and> (if move_ptn_getPostionByName (image_name m) (move_ptn s) \<noteq> -1
            then pos = move_ptn_getPostionByName (image_name m) (move_ptn s) \<and> tr = trace s
            else pos = -1 \<and> tr = trace s
              \<or> (\<exists>p b. pos = int p \<and> p < 20 \<and> tr = trace s @ [Transferred (of_nat p) b]
                    \<and> sent_from {files s} (writes s) (image_name m) b))))"
proof -
  from assms(1) obtain found where fd: "dbModuleGetPatternById k (db s) = Some found"
    by (auto simp: set_photo_def split: Option.bind_splits)
  show ?thesis
  proof (cases "found = None \<or> (\<exists>m. found = Some m \<and> files s (image_name m) = None)")
    case True
    then show ?thesis using assms fd by (auto simp: set_photo_def Let_def)
  next
    case False
    then obtain m where m: "found = Some m" "files s (image_name m) \<noteq> None" by auto
    let ?c = "move_ptn_getPostionByName (image_name m) (move_ptn s)"
    from assms(1) fd m obtain w h z pos t f where
      dl: "(if ?c = -1 then move_ptn_download (image_name m) w h False s else Some (Some ?c, s)) = Some (Some pos, t)"
      and rc: "rc = 0" and s': "s' = t\<lparr>dev := f, trace := trace t @ [Shown (position_in 4 f) (size_in 4 f)]\<rparr>"
      and f: "f = fpgaShowPicture (word_of_int pos) (word_of_int z) (dev t)"
      by (auto simp: set_photo_def Let_def split: Option.bind_splits prod.splits)
    have tr: "trace s' = trace t @ [Shown (word_of_int pos) (size_in 4 f)]"
      by (simp add: s' f position_in_def show_register picture_reg_parts)
    show ?thesis
    proof (cases "?c = -1")
      case True
      with dl have dl': "move_ptn_download (image_name m) w h False s = Some (Some pos, t)" by simp
      note law = forced_download_law [OF dl' assms(2)]
      then have "task_inv F s'" using inv_same [of F t s'] by (simp add: s')
      moreover from law have "pos = -1 \<and> trace t = trace s
              \<or> (\<exists>p b. pos = int p \<and> p < 20 \<and> trace t = trace s @ [Transferred (of_nat p) b]
                    \<and> sent_from {files s} (writes s) (image_name m) b)" by blast
      moreover have "writes s' = writes s" using law by (simp add: s')
      ultimately show ?thesis
        using True fd m rc tr
        by (intro conjI disjI2 exI [of _ m] exI [of _ pos] exI [of _ "size_in 4 f"] exI [of _ "trace t"]) simp_all
    next
      case False
      with dl have "t = s" "pos = ?c" by auto
      then have "task_inv F s'" using inv_same [of F s s'] assms(2) by (simp add: s')
      moreover have "writes s' = writes s" using \<open>t = s\<close> by (simp add: s')
      ultimately show ?thesis using \<open>t = s\<close> \<open>pos = ?c\<close> False fd m rc tr by auto
    qed
  qed
qed

lemma message_inv:
  assumes "fpga_message_proc msg s = Some (rc, v, s')" and "task_inv F s"
  shows "task_inv F s'"
proof -
  have same: "task_inv F s'" if "move_ptn s' = move_ptn s" "trace s' = trace s" "s32ForcePostion s' = s32ForcePostion s"
      "files s' = files s" "writes s' = writes s"
    using inv_same [OF assms(2)] that by simp
  have srv: "task_inv F s'" if "serve rs s = Some (rc, v, s')" for rs
    using serve_law [OF that] same by simp
  show ?thesis
  proof (cases msg)
    case (SET_PHOTO k)
    then show ?thesis using set_photo_law [OF _ assms(2)] assms(1) by simp
  next
    case (READ_REG x)
    then show ?thesis using assms(1) same by auto
  next
    case SET_EDID
    then show ?thesis
      using assms(1) same by (auto simp: set_edid_def Let_def dest!: serve_law split: Option.bind_splits)
  next
    case (SET_LINK_MODE c ms)
    then show ?thesis using assms(1) srv by (cases ms) simp
  qed (use assms(1) srv in auto)
qed


lemma message_writes: "fpga_message_proc msg s = Some (rc, v, s') \<Longrightarrow> task_inv F s \<Longrightarrow> writes s' = writes s"
proof -
  assume m: "fpga_message_proc msg s = Some (rc, v, s')" and inv: "task_inv F s"
  show ?thesis
  proof (cases msg)
    case (SET_PHOTO k)
    then show ?thesis
      using m set_photo_law [OF _ inv, of k rc v s'] by simp
  next
    case SET_EDID
    then show ?thesis using m by (auto simp: set_edid_def Let_def dest!: serve_law split: Option.bind_splits)
  next
    case (SET_LINK_MODE c ms)
    then show ?thesis using m by (cases ms) (auto dest!: serve_law)
  qed (use m in \<open>auto dest!: serve_law\<close>)
qed

lemma preload_inv:
  "move_ptn_loop n k w h s = Some s' \<Longrightarrow> task_inv F s \<Longrightarrow> task_inv F s' \<and> writes s' = writes s"
proof (induction n k w h s rule: move_ptn_loop.induct)
  case (2 n k w h s)
  from 2(3) obtain m where m: "dbModuleGetPatternByLoopId k (db s) = Some m"
    by (auto split: Option.bind_splits)
  show ?case
  proof (cases "files s (image_name m) = None \<or> files s (ptn_name m) = None")
    case True
    then show ?thesis using 2(1) [OF m] 2(3,4) m by simp
  next
    case False
    with 2(3) m obtain wo ho r t where st: "scan_size (displayX m) = Some (wo, ho)"
      "move_ptn_download (image_name m) (case wo of None \<Rightarrow> w | Some x \<Rightarrow> x) (case ho of None \<Rightarrow> h | Some x \<Rightarrow> x) True s
        = Some (r, t)"
      "move_ptn_loop n (k + 1) (case wo of None \<Rightarrow> w | Some x \<Rightarrow> x) (case ho of None \<Rightarrow> h | Some x \<Rightarrow> x) t = Some s'"
      by (auto simp: Let_def split: Option.bind_splits)
    show ?thesis
      using 2(2) [OF m False st(1) refl refl refl st(2) refl st(3)] auto_download_law [OF st(2) 2(4)] by simp
  qed
qed simp

text \<open>Reading the position of a pattern that is not stored ends the filling of the table without a result.\<close>

lemma preload_undefined:
  assumes "dbModuleGetPatternByLoopId j (db s) = None" and "k \<le> j" and "j < k + n" and "task_inv F s"
  shows "move_ptn_loop n k w h s = None"
  using assms
proof (induction n k w h s rule: move_ptn_loop.induct)
  case (2 n k w h s)
  show ?case
  proof (cases "dbModuleGetPatternByLoopId k (db s)")
    case (Some m)
    with 2(3-5) have lt: "k + 1 \<le> j" "j < k + 1 + n" by (auto simp: le_less Suc_le_eq)
    show ?thesis
    proof (cases "files s (image_name m) = None \<or> files s (ptn_name m) = None")
      case True
      then show ?thesis using 2(1) [OF Some True 2(3) lt 2(6)] Some by simp
    next
      case False
      have "move_ptn_loop n (k + 1) w' h' t = None"
        if st: "scan_size (displayX m) = Some (wo, ho)" "w' = (case wo of None \<Rightarrow> w | Some x \<Rightarrow> x)"
          "h' = (case ho of None \<Rightarrow> h | Some x \<Rightarrow> x)" "move_ptn_download (image_name m) w' h' True s = Some (r, t)"
        for wo ho w' h' r t
        using 2(2) [OF Some False st(1) refl st(2,3) st(4) refl] auto_download_law [OF st(4) 2(6)] 2(3) lt by simp
      then show ?thesis using Some False by (auto simp: Let_def split: Option.bind_splits)
    qed
  qed simp
qed simp

text \<open>
  The life of the task: messages, a filling of the table, starting over, another module, files that
  change.
\<close>

datatype fpga_step =
    Message fpga_message
  | Preload
  | Restart
  | Module pattern_db
  | Files "string \<Rightarrow> u8 list option"

fun fpga_run :: "fpga_step list \<Rightarrow> fpga_task \<Rightarrow> fpga_task option" where
  "fpga_run [] s = Some s"
| "fpga_run (Message m # st) s =
     (case fpga_message_proc m s of None \<Rightarrow> None | Some (_, _, s) \<Rightarrow> fpga_run st s)"
| "fpga_run (Preload # st) s = Option.bind (move_ptn_task s) (fpga_run st)"
| "fpga_run (Restart # st) s = fpga_run st (move_ptn_destoryTask s)"
| "fpga_run (Module d # st) s = fpga_run st (s\<lparr>db := d\<rparr>)"
| "fpga_run (Files f # st) s = fpga_run st (s\<lparr>files := f\<rparr>)"

lemma task_inv_more: "task_inv F s \<Longrightarrow> F \<subseteq> G \<Longrightarrow> task_inv G s"
  unfolding task_inv_def using sent_from_mono by blast

lemma run_inv:
  "fpga_run st s = Some s' \<Longrightarrow> task_inv F s \<Longrightarrow> {f. Files f \<in> set st} \<subseteq> F \<Longrightarrow> task_inv F s' \<and> writes s' = writes s"
proof (induction st s rule: fpga_run.induct)
  case (2 m st s)
  then show ?case using message_inv message_writes by (fastforce split: option.splits prod.splits)
next
  case (3 st s)
  then show ?case using preload_inv by (fastforce simp: move_ptn_task_def split: Option.bind_splits)
qed (auto simp: task_inv_def move_ptn_destoryTask_def no_picture_def NOT_DOWNLOAD_def DOWNLOAD_OK_def)

lemma init_inv: "s32ForcePostion s = 0 \<Longrightarrow> task_inv {files s} (move_ptn_init s)"
  by (simp add: task_inv_def move_ptn_init_def no_picture_def NOT_DOWNLOAD_def DOWNLOAD_OK_def MAX_DOWNLOAD_NUM_def)

text \<open>A download with a device that takes the request.\<close>

lemma reset_check_hw: "hw_in (snd (fpgaReg3ResetCheck f)) = hw_in f"
  using reg3_loop_law [of 301 f] by (simp add: fpgaReg3ResetCheck_def split_beta Let_def)

lemma downloading_ok:
  assumes "pic_size w h = Some z" and "\<exists>j<300. bit (hw_in (dev s) 3 (nreads (dev s) + j)) 0"
    and "loadPtnToMem (files s) n = Some bytes"
    and "fpga_trans_pic_data bytes (writes s (n_transfers s)) = Some (r, taken)"
  shows "\<exists>f. move_ptn_downloading n w h p s = Some (0, s\<lparr>dev := f, n_transfers := n_transfers s + 1,
      trace := trace s @ [Transferred (word_of_int p) taken]\<rparr>) \<and> hw_in f = hw_in (dev s)"
proof -
  let ?d = "\<lparr>ddrCs = 0, hResolution = word_of_int w, pictureNo = word_of_int p,
      pictureSize = word_of_int z, pictureType = 0\<rparr>"
  have "fst (fpgaPictureDownloadConfig ?d (dev s)) = 0"
    using assms(2) fpgaReg3ResetCheck_law [of "dev s"]
    by (auto simp: fpgaPictureDownloadConfig_def split_beta Let_def)
  then obtain f where f: "fpgaPictureDownloadConfig ?d (dev s) = (0, f)" by (metis prod.collapse)
  then have "hw_in f = hw_in (dev s)"
    using reset_check_hw [of "dev s"]
    by (auto simp: fpgaPictureDownloadConfig_def fpgaReg2Reset_def fpgaDdrChipSelection_def split_beta Let_def
        split: if_splits)
  moreover have "position_in 5 f = word_of_int p"
    using download_register [OF f] by (simp add: position_in_def picture_reg_parts)
  ultimately show ?thesis
    using f assms(1,3,4) by (intro exI [of _ f]) (simp add: move_ptn_downloading_def Let_def)
qed

text \<open>Showing a pattern whose picture is not in the table, with a device that takes the request.\<close>

lemma set_photo_new:
  assumes "dbModuleGetPatternById k (db s) = Some (Some m)"
    and "files s (image_name m) \<noteq> None" and "move_ptn_getPostionByName (image_name m) (move_ptn s) = -1"
    and "scan_size (displayX m) = Some (Some w, Some h)" and "pic_size w h = Some z"
    and "\<exists>j<300. bit (hw_in (dev s) 3 (nreads (dev s) + j)) 0"
    and "loadPtnToMem (files s) (image_name m) = Some bytes"
    and "fpga_trans_pic_data bytes (writes s (n_transfers s)) = Some (r, taken)"
    and "length (image_name m) < 128"
  defines "p \<equiv> s32ForcePostion s"
  shows "\<exists>f. set_photo k s = Some (0, None, s\<lparr>dev := f, n_transfers := n_transfers s + 1,
    move_ptn := (move_ptn s)[p := \<lparr>bmpName = image_name m, downLoadStatus = DOWNLOAD_OK, postion = int p\<rparr>],
    s32ForcePostion := (p + 1) mod MAX_DOWNLOAD_NUM,
    trace := trace s @ [Transferred (of_nat p) taken, Shown (of_nat p) (word_of_int z)]\<rparr>)"
proof -
  obtain f where "move_ptn_downloading (image_name m) w h (int p) s = Some (0, s\<lparr>dev := f,
      n_transfers := n_transfers s + 1, trace := trace s @ [Transferred (of_nat p) taken]\<rparr>)"
    using downloading_ok [OF assms(5-8), of "int p"] by auto
  then show ?thesis
    using assms(1-5,9) unfolding p_def
    by (cases s) (simp add: set_photo_def move_ptn_download_def note_download_def Let_def position_in_def size_in_def
      show_register picture_reg_parts)
qed

text \<open>Showing a pattern whose picture is in the table.\<close>

lemma set_photo_cached:
  assumes "dbModuleGetPatternById k (db s) = Some (Some m)"
    and "files s (image_name m) \<noteq> None" and "move_ptn_getPostionByName (image_name m) (move_ptn s) = int p"
    and "scan_size (displayX m) = Some (Some w, Some h)" and "pic_size w h = Some z"
  shows "set_photo k s = Some (0, None, s\<lparr>dev := fpgaShowPicture (of_nat p) (word_of_int z) (dev s),
    trace := trace s @ [Shown (of_nat p) (word_of_int z)]\<rparr>)"
  using assms
  by (simp add: set_photo_def Let_def position_in_def size_in_def show_register picture_reg_parts)

lemma getPostion_found:
  assumes "\<forall>e \<in> set es. downLoadStatus e = DOWNLOAD_OK \<longrightarrow> postion e \<noteq> -1"
    and "\<exists>e \<in> set es. downLoadStatus e = DOWNLOAD_OK \<and> bmpName e = n"
  shows "move_ptn_getPostionByName n es \<noteq> -1"
  using assms by (induction n es rule: move_ptn_getPostionByName.induct) auto

lemma getPostion_noted:
  assumes "\<forall>e \<in> set es. downLoadStatus e = DOWNLOAD_OK \<longrightarrow> postion e \<noteq> -1"
    and "move_ptn_getPostionByName n es = -1" and "i < length es"
  shows "move_ptn_getPostionByName n (es[i := \<lparr>bmpName = n, downLoadStatus = DOWNLOAD_OK, postion = j\<rparr>]) = j"
  using assms
proof (induction n es arbitrary: i rule: move_ptn_getPostionByName.induct)
  case (2 n e es)
  then have "\<not> (downLoadStatus e = DOWNLOAD_OK \<and> bmpName e = n)" by (auto split: if_splits)
  with 2 show ?case by (cases i) auto
qed simp

lemma inv_found:
  assumes "task_inv F s" and "i < MAX_DOWNLOAD_NUM" and "downLoadStatus (move_ptn s ! i) = DOWNLOAD_OK"
  shows "move_ptn_getPostionByName (bmpName (move_ptn s ! i)) (move_ptn s) \<noteq> -1"
proof (rule getPostion_found)
  show "\<forall>e \<in> set (move_ptn s). downLoadStatus e = DOWNLOAD_OK \<longrightarrow> postion e \<noteq> -1"
    using assms(1) by (auto simp: task_inv_def in_set_conv_nth)
  show "\<exists>e \<in> set (move_ptn s). downLoadStatus e = DOWNLOAD_OK \<and> bmpName e = bmpName (move_ptn s ! i)"
    using assms by (intro bexI [of _ "move_ptn s ! i"]) (simp_all add: task_inv_def)
qed

text \<open>A task over a module of two patterns whose pictures have four bytes each.\<close>

definition demo_pattern :: "string \<Rightarrow> module_info" where
  "demo_pattern n = (pattern_of (demo_row ''1'' []))\<lparr>ptdpatternname := n, displayX := ''1080X1920''\<rparr>"

definition demo_disk :: "string \<Rightarrow> u8 list option" where
  "demo_disk n = (if n \<in> {''./cfg/imageOrigin/1080X1920/red.bmp'', ''./cfg/ptn/1080X1920/red.bmp'',
       ''cfg/ptn//1080X1920/red.bmp'', ''./cfg/imageOrigin/1080X1920/blue.bmp'',
       ''./cfg/ptn/1080X1920/blue.bmp'', ''cfg/ptn//1080X1920/blue.bmp''} then Some [1, 2, 3, 4] else None)"

definition demo_db :: pattern_db where
  "demo_db = \<lparr>module_set = \<lparr>powermainfile = [], timingmainfile = [], agingtime = 0, str_ic_name = [],
     ms_conns = \<lparr>ll_size = 3, ll_head = 0, ll_tail = 2,
       ll_items = [demo_pattern ''red'', (demo_pattern ''blue'')\<lparr>ptdindex := 2\<rparr>, demo_pattern ''red''], ll_del = True\<rparr>,
     ms_max = 3, ms_cur = 2\<rparr>, conns_array = Allocated, db_init = True, db_name = ''demo''\<rparr>"

definition demo_task :: "int list \<Rightarrow> fpga_task" where
  "demo_task ws = \<lparr>dev = demo_fpga, move_ptn = [], s32ForcePostion = 0, db = demo_db, files = demo_disk,
     writes = (\<lambda>_. ws), n_transfers = 0, trace = []\<rparr>"

lemma demo_names:
  "image_name (demo_pattern ''red'') = ''./cfg/imageOrigin/1080X1920/red.bmp''"
  "image_name (demo_pattern ''blue'') = ''./cfg/imageOrigin/1080X1920/blue.bmp''"
  "displayX (demo_pattern n) = ''1080X1920''"
  by (simp_all add: image_name_def demo_pattern_def)

lemma demo_size: "scan_size ''1080X1920'' = Some (Some 1080, Some 1920)" "pic_size 1080 1920 = Some 7"
  by code_simp+

lemma demo_load: "loadPtnToMem demo_disk ''./cfg/imageOrigin/1080X1920/red.bmp'' = Some [1, 2, 3, 4]"
  "loadPtnToMem demo_disk ''./cfg/imageOrigin/1080X1920/blue.bmp'' = Some [1, 2, 3, 4]"
  by code_simp+

lemma demo_search: "dbModuleGetPatternById (ptdindex (demo_pattern ''red'')) demo_db = Some (Some (demo_pattern ''red''))"
proof -
  let ?l = "ms_conns (PatternDb.module_set demo_db)"
  have "loop_inv ?l" by (simp add: demo_db_def loop_inv_def)
  moreover have "loop_items ?l = [demo_pattern ''red'', (demo_pattern ''blue'')\<lparr>ptdindex := 2\<rparr>]"
    by (simp add: demo_db_def loop_items_def loop_len_def ring_view_def upt_rec)
  ultimately show ?thesis
    using loop_search_law [of ?l]
    by (simp add: dbModuleGetPatternById_def search_patterns_def searchPattern_def [abs_def])
      (simp add: demo_db_def)
qed

lemma demo_start:
  "task_inv {demo_disk} (move_ptn_init (demo_task ws))"
  "\<exists>j<300. bit (hw_in (dev (move_ptn_init (demo_task ws))) 3 (nreads (dev (move_ptn_init (demo_task ws))) + j)) 0"
  "move_ptn_getPostionByName n (move_ptn (move_ptn_init (demo_task ws))) = -1"
proof -
  show "task_inv {demo_disk} (move_ptn_init (demo_task ws))"
    using init_inv [of "demo_task ws"] by (simp add: demo_task_def)
  show "\<exists>j<300. bit (hw_in (dev (move_ptn_init (demo_task ws))) 3 (nreads (dev (move_ptn_init (demo_task ws))) + j)) 0"
    by (intro exI [of _ 0]) (simp add: move_ptn_init_def demo_task_def demo_fpga_def)
  have "move_ptn_getPostionByName n (replicate k no_picture) = -1" for k
    by (induction k) (simp_all add: no_picture_def NOT_DOWNLOAD_def DOWNLOAD_OK_def)
  then show "move_ptn_getPostionByName n (move_ptn (move_ptn_init (demo_task ws))) = -1"
    by (simp add: move_ptn_init_def)
qed

lemma demo_transfer: "fpga_trans_pic_data [1, 2, 3, 4] [4, 64] = Some (0, [1, 2, 3, 4] @ replicate 64 0)"
  by (simp add: fpga_trans_pic_data_def write_picture.simps maxWrite_def)

section \<open>Two threads\<close>

text \<open>
  A call of \<^verbatim>\<open>move_ptn_download\<close> in progress. It chooses a position before it takes the semaphore,
  configures and sends under the semaphore, and notes the name after it has released it.
\<close>

datatype download_phase = Idle | Chosen string int int nat | Loaded string nat

text \<open>
  The task that fills the table (first phase) and the one that serves messages (second phase), each
  with the three steps of its own call.
\<close>

inductive download_step ::
  "fpga_task \<times> download_phase \<times> download_phase \<Rightarrow> fpga_task \<times> download_phase \<times> download_phase \<Rightarrow> bool" where
  filler_chooses: "free_position 0 (move_ptn s) = Some i \<Longrightarrow> download_step (s, Idle, q) (s, Chosen n w h i, q)"
| filler_sends: "move_ptn_downloading n w h (int i) s = Some (rc, s') \<Longrightarrow>
     download_step (s, Chosen n w h i, q) (s', if rc = 0 then Loaded n i else Idle, q)"
| filler_notes: "note_download i n s = Some s' \<Longrightarrow> download_step (s, Loaded n i, q) (s', Idle, q)"
| caller_chooses: "download_step (s, p, Idle) (s, p, Chosen n w h (s32ForcePostion s))"
| caller_sends: "move_ptn_downloading n w h (int i) s = Some (rc, s') \<Longrightarrow>
     download_step (s, p, Chosen n w h i) (s', p, if rc = 0 then Loaded n i else Idle)"
| caller_notes: "note_download i n s = Some s' \<Longrightarrow>
     download_step (s, p, Loaded n i) (s'\<lparr>s32ForcePostion := (i + 1) mod MAX_DOWNLOAD_NUM\<rparr>, p, Idle)"

text \<open>The steps of one thread without the other are the calls.\<close>

lemma caller_alone:
  assumes "move_ptn_download n w h False s = Some (r, s')"
  shows "download_step\<^sup>*\<^sup>* (s, p, Idle) (s', p, Idle)"
proof -
  let ?i = "s32ForcePostion s"
  from assms obtain rc t where t: "move_ptn_downloading n w h (int ?i) s = Some (rc, t)"
    and rest: "(if rc = 0 then do { t \<leftarrow> note_download ?i n t;
        Some (Some (int ?i), t\<lparr>s32ForcePostion := (?i + 1) mod MAX_DOWNLOAD_NUM\<rparr>) } else Some (Some (-1), t)) = Some (r, s')"
    by (auto simp: move_ptn_download_def Let_def split: Option.bind_splits)
  have "download_step\<^sup>*\<^sup>* (s, p, Idle) (t, p, if rc = 0 then Loaded n ?i else Idle)"
    by (rule converse_rtranclp_into_rtranclp, rule caller_chooses, rule r_into_rtranclp, rule caller_sends, rule t)
  then show ?thesis
  proof (cases "rc = 0")
    case True
    then obtain u where "note_download ?i n t = Some u" "s' = u\<lparr>s32ForcePostion := (?i + 1) mod MAX_DOWNLOAD_NUM\<rparr>"
      using rest by (auto split: Option.bind_splits)
    then show ?thesis
      using True \<open>download_step\<^sup>*\<^sup>* _ _\<close> caller_notes [of ?i n t u p] by (simp add: rtranclp.rtrancl_into_rtrancl)
  qed (use rest in simp)
qed

lemma filler_alone:
  assumes "move_ptn_download n w h True s = Some (r, s')"
  shows "download_step\<^sup>*\<^sup>* (s, Idle, q) (s', Idle, q)"
proof (cases "free_position 0 (move_ptn s)")
  case (Some i)
  from assms Some obtain rc t where t: "move_ptn_downloading n w h (int i) s = Some (rc, t)"
    and rest: "(if rc = 0 then map_option (Pair (Some 0)) (note_download i n t) else Some (Some (-1), t)) = Some (r, s')"
    by (auto simp: move_ptn_download_def split: Option.bind_splits)
  have st: "download_step\<^sup>*\<^sup>* (s, Idle, q) (t, if rc = 0 then Loaded n i else Idle, q)"
    by (rule converse_rtranclp_into_rtranclp, rule filler_chooses, rule Some, rule r_into_rtranclp, rule filler_sends, rule t)
  show ?thesis
  proof (cases "rc = 0")
    case True
    then have "note_download i n t = Some s'" using rest by auto
    then show ?thesis using True st filler_notes [of i n t s' q] by (simp add: rtranclp.rtrancl_into_rtrancl)
  qed (use rest st in simp)
qed (use assms in \<open>simp add: move_ptn_download_def\<close>)

section \<open>Properties\<close>



text \<open>
  A transfer that fails is remembered as one that worked. When the device takes the request and
  then fails the first write, the message still succeeds, nothing of the picture has been sent, and
  the name is in the table: it will be shown without another attempt.
\<close>

theorem failed_transfer_remembered:
  assumes "task_inv F s" and "dbModuleGetPatternById k (db s) = Some (Some m)"
    and "files s (image_name m) \<noteq> None" and "move_ptn_getPostionByName (image_name m) (move_ptn s) = -1"
    and "scan_size (displayX m) = Some (Some w, Some h)" and "pic_size w h = Some z"
    and "\<exists>j<300. bit (hw_in (dev s) 3 (nreads (dev s) + j)) 0"
    and "loadPtnToMem (files s) (image_name m) = Some (b # bs)" and "writes s (n_transfers s) = -1 # ws"
    and "length (image_name m) < 128"
  shows "\<exists>s'. fpga_message_proc (SET_PHOTO k) s = Some (0, None, s')
    \<and> held (of_nat (s32ForcePostion s)) (trace s') = Some []
    \<and> downLoadStatus (move_ptn s' ! s32ForcePostion s) = DOWNLOAD_OK
    \<and> bmpName (move_ptn s' ! s32ForcePostion s) = image_name m
    \<and> move_ptn_getPostionByName (image_name m) (move_ptn s') \<noteq> -1"
proof -
  let ?p = "s32ForcePostion s"
  have p: "?p < MAX_DOWNLOAD_NUM" "?p < length (move_ptn s)" using assms(1) by (auto simp: task_inv_def)
  have "fpga_trans_pic_data (b # bs) (writes s (n_transfers s)) = Some (-2, [])"
    using assms(9) by (simp add: fpga_trans_pic_data_def write_picture.simps [of "b # bs"] maxWrite_def)
  from set_photo_new [OF assms(2-8) this assms(10)] obtain f where
    f: "set_photo k s = Some (0, None, s\<lparr>dev := f, n_transfers := n_transfers s + 1,
      move_ptn := (move_ptn s)[?p := \<lparr>bmpName = image_name m, downLoadStatus = DOWNLOAD_OK, postion = int ?p\<rparr>],
      s32ForcePostion := (?p + 1) mod MAX_DOWNLOAD_NUM,
      trace := trace s @ [Transferred (of_nat ?p) [], Shown (of_nat ?p) (word_of_int z)]\<rparr>)"
    (is "_ = Some (0, None, ?s')") by blast
  have "task_inv F ?s'" using set_photo_law [OF f assms(1)] by blast
  from inv_found [OF this p(1)] p(2) have "move_ptn_getPostionByName (image_name m) (move_ptn ?s') \<noteq> -1" by simp
  then show ?thesis using f p(2) by (intro exI [of _ ?s']) simp
qed

lemma failed_transfer_remembered_witness:
  "\<exists>s'. fpga_message_proc (SET_PHOTO (ptdindex (demo_pattern ''red''))) (move_ptn_init (demo_task [-1])) = Some (0, None, s')
    \<and> held 0 (trace s') = Some []"
proof -
  show ?thesis
    using failed_transfer_remembered [OF demo_start(1) [where ws = "[-1]"] _ _ demo_start(3) [where ws = "[-1]"] _ demo_size(2)
        demo_start(2) [where ws = "[-1]"], of "ptdindex (demo_pattern ''red'')" "demo_pattern ''red''" 1 "[2, 3, 4]" "[]"]
      demo_search demo_size(1) demo_load(1)
    by (auto simp: move_ptn_init_def demo_task_def demo_names demo_disk_def)
qed

text \<open>
  C33: filling the table and serving messages at the same time mix pictures up. From any state in which
  both threads would choose the same position, as at the start, the steps of the two calls can be
  interleaved so that afterwards, with both calls ended, the message for the pattern whose picture
  the filling sent is served from the table and switches on a position at which the device
  stored the picture of the other pattern last.
\<close>

theorem preload_race:
  assumes "task_inv F s" and "free_position 0 (move_ptn s) = Some p" and "s32ForcePostion s = p"
    and "move_ptn_downloading (image_name m) w h (int p) s = Some (0, s1)"
    and "move_ptn_downloading b w' h' (int p) s1 = Some (0, s2)"
    and "length (image_name m) < 128" and "length b < 128"
    and "dbModuleGetPatternById k (db s) = Some (Some m)" and "files s (image_name m) \<noteq> None"
    and "scan_size (displayX m) = Some (Some w, Some h)" and "pic_size w h = Some z"
    and "move_ptn_getPostionByName (image_name m) (move_ptn s) = -1"
  shows "\<exists>t t' sent1 sent2. download_step\<^sup>*\<^sup>* (s, Idle, Idle) (t, Idle, Idle)
    \<and> fpga_message_proc (SET_PHOTO k) t = Some (0, None, t')
    \<and> trace t' = trace s @ [Transferred (of_nat p) sent1, Transferred (of_nat p) sent2, Shown (of_nat p) (word_of_int z)]
    \<and> sent_from {files s} (writes s) (image_name m) sent1 \<and> sent_from {files s} (writes s) b sent2"
proof -
  let ?a = "image_name m"
  note d1 = downloading_law [OF assms(4)] and d2 = downloading_law [OF assms(5)]
  obtain sent1 where s1: "trace s1 = trace s @ [Transferred (of_nat p) sent1]" "sent_from {files s} (writes s) ?a sent1"
    using d1(6) by auto
  obtain sent2 where s2: "trace s2 = trace s1 @ [Transferred (of_nat p) sent2]" "sent_from {files s} (writes s) b sent2"
    using d2(6) d1(4,5) by auto
  have p: "p < length (move_ptn s)" using free_position_law [OF assms(2)] by simp
  let ?e = "\<lambda>n. \<lparr>bmpName = n, downLoadStatus = DOWNLOAD_OK, postion = int p\<rparr>"
  define s3 where "s3 = s2\<lparr>move_ptn := (move_ptn s2)[p := ?e b], s32ForcePostion := (p + 1) mod MAX_DOWNLOAD_NUM\<rparr>"
  define t where "t = s3\<lparr>move_ptn := (move_ptn s3)[p := ?e ?a]\<rparr>"
  have n: "note_download p b s2 = Some (s2\<lparr>move_ptn := (move_ptn s2)[p := ?e b]\<rparr>)" "note_download p ?a s3 = Some t"
    using assms(6,7) by (simp_all add: note_download_def t_def)
  have steps: "download_step (s, Idle, Idle) (s, Chosen ?a w h p, Idle)"
    "download_step (s, Chosen ?a w h p, Idle) (s, Chosen ?a w h p, Chosen b w' h' p)"
    "download_step (s, Chosen ?a w h p, Chosen b w' h' p) (s1, Loaded ?a p, Chosen b w' h' p)"
    "download_step (s1, Loaded ?a p, Chosen b w' h' p) (s2, Loaded ?a p, Loaded b p)"
    "download_step (s2, Loaded ?a p, Loaded b p) (s3, Loaded ?a p, Idle)"
    "download_step (s3, Loaded ?a p, Idle) (t, Idle, Idle)"
    using filler_chooses [OF assms(2)] caller_chooses [of s] assms(3) filler_sends [OF assms(4)]
      caller_sends [OF assms(5)] caller_notes [OF n(1)] filler_notes [OF n(2)]
    by (simp_all add: s3_def)
  have run: "download_step\<^sup>*\<^sup>* (s, Idle, Idle) (t, Idle, Idle)"
    by (rule converse_rtranclp_into_rtranclp, rule steps(1), rule converse_rtranclp_into_rtranclp, rule steps(2),
        rule converse_rtranclp_into_rtranclp, rule steps(3), rule converse_rtranclp_into_rtranclp, rule steps(4),
        rule converse_rtranclp_into_rtranclp, rule steps(5), rule r_into_rtranclp, rule steps(6))
  have "move_ptn t = (move_ptn s)[p := ?e ?a]" using d1(1) d2(1) by (simp add: t_def s3_def)
  moreover have "\<forall>e \<in> set (move_ptn s). downLoadStatus e = DOWNLOAD_OK \<longrightarrow> postion e \<noteq> -1"
    using assms(1) by (auto simp: task_inv_def in_set_conv_nth)
  ultimately have pos: "move_ptn_getPostionByName ?a (move_ptn t) = int p"
    using getPostion_noted assms(12) p by simp
  have env: "db t = db s" "files t = files s" "trace t = trace s2"
    using d1(3,4) d2(3,4) by (simp_all add: t_def s3_def)
  obtain t' where "set_photo k t = Some (0, None, t')" "trace t' = trace t @ [Shown (of_nat p) (word_of_int z)]"
    using set_photo_cached [of k t m p w h z] assms(8-11) pos env by simp
  then show ?thesis using run s1 s2 env(3) by (intro exI [of _ t] exI [of _ t']) auto
qed

lemma preload_race_witness:
  "let s = move_ptn_init (demo_task [4, 64]) in
   \<exists>t t' sent1 sent2. download_step\<^sup>*\<^sup>* (s, Idle, Idle) (t, Idle, Idle)
    \<and> fpga_message_proc (SET_PHOTO (ptdindex (demo_pattern ''red''))) t = Some (0, None, t')
    \<and> trace t' = trace s @ [Transferred 0 sent1, Transferred 0 sent2, Shown 0 7]"
proof -
  let ?s = "move_ptn_init (demo_task [4, 64])" and ?k = "ptdindex (demo_pattern ''red'')"
  let ?a = "image_name (demo_pattern ''red'')" and ?b = "''./cfg/imageOrigin/1080X1920/blue.bmp''"
  let ?taken = "[1, 2, 3, 4] @ replicate 64 (0 :: u8)"
  have env: "files ?s = demo_disk" "writes ?s = (\<lambda>_. [4, 64])" "hw_in (dev ?s) = (\<lambda>_ _. 1)" "db ?s = demo_db"
    "s32ForcePostion ?s = 0" "free_position 0 (move_ptn ?s) = Some 0"
    by (simp_all add: move_ptn_init_def demo_task_def demo_fpga_def MAX_DOWNLOAD_NUM_def no_picture_def numeral_eq_Suc)
  have load: "loadPtnToMem (files ?s) ?a = Some [1, 2, 3, 4]" unfolding env demo_names by (rule demo_load)
  have sent: "fpga_trans_pic_data [1, 2, 3, 4] (writes ?s (n_transfers ?s)) = Some (0, ?taken)"
    unfolding env by (rule demo_transfer)
  obtain f where f: "move_ptn_downloading ?a 1080 1920 (int 0) ?s = Some (0, ?s\<lparr>dev := f, n_transfers := n_transfers ?s + 1,
      trace := trace ?s @ [Transferred 0 ?taken]\<rparr>)" "hw_in f = hw_in (dev ?s)"
    using downloading_ok [OF demo_size(2) demo_start(2) load sent, of 0] by auto
  let ?s1 = "?s\<lparr>dev := f, n_transfers := n_transfers ?s + 1, trace := trace ?s @ [Transferred 0 ?taken]\<rparr>"
  have ready: "\<exists>j<300. bit (hw_in (dev ?s1) 3 (nreads (dev ?s1) + j)) 0"
    using f(2) env(3) by (intro exI [of _ 0]) simp
  obtain s2 where s2: "move_ptn_downloading ?b 1080 1920 (int 0) ?s1 = Some (0, s2)"
    using downloading_ok [OF demo_size(2) ready, of ?b "[1, 2, 3, 4]" 0 ?taken 0] env(1,2) demo_load(2) demo_transfer
    by auto
  have size: "scan_size (displayX (demo_pattern ''red'')) = Some (Some 1080, Some 1920)"
    unfolding demo_names by (rule demo_size)
  have db: "dbModuleGetPatternById ?k (db ?s) = Some (Some (demo_pattern ''red''))"
    unfolding env by (rule demo_search)
  have "files ?s ?a \<noteq> None" "length ?a < 128" "length ?b < 128"
    unfolding env demo_names by (simp_all add: demo_disk_def)
  then show ?thesis
    using preload_race [OF demo_start(1) env(6,5) f(1) s2 _ _ db _ size demo_size(2) demo_start(3)]
    unfolding Let_def by auto
qed

text \<open>
  A module of 200 patterns cannot be filled into the table: whatever the pictures and the
  device, the task that reads every pattern by its position ends in undefined behaviour, because
  the loader counted a pattern it had dropped.
\<close>

theorem full_module_stops_preload:
  assumes "may_close d" and "holds_module mods n rows g" and "length mem = 200" and "length rows = 200"
    and "task_inv F s" and "dbModuleInit mods mem n d = Some (0, d')"
  shows "move_ptn_task (s\<lparr>db := d'\<rparr>) = None"
proof -
  have "dbModuleTstPtnNum d' = 200" "dbModuleGetPatternByLoopId 199 d' = None"
    using full_module_law [OF assms(1-4)] assms(6) by auto
  moreover have "task_inv F (s\<lparr>db := d'\<rparr>)" using assms(5) by (simp add: task_inv_def)
  ultimately show ?thesis
    using preload_undefined [of 199 "s\<lparr>db := d'\<rparr>" 0 200] by (simp add: move_ptn_task_def)
qed

lemma full_module_stops_preload_witness:
  "\<exists>d'. dbModuleInit (demo_files (replicate 200 (demo_row ''1'' []))) (replicate 200 (demo_pattern ''red'')) ''module''
      initial_db = Some (0, d')
    \<and> move_ptn_task ((move_ptn_init (demo_task []))\<lparr>db := d'\<rparr>) = None"
proof -
  let ?rows = "replicate 200 (demo_row ''1'' [])" and ?mem = "replicate 200 (demo_pattern ''red'')"
  have "holds_module (demo_files ?rows) ''module'' ?rows demo_global"
    using demo_rows_fit by (simp add: demo_holds list_all_iff)
  note module = initial_may_close this length_replicate [of 200 "demo_pattern ''red''"]
    length_replicate [of 200 "demo_row ''1'' []"]
  obtain d' where "dbModuleInit (demo_files ?rows) ?mem ''module'' initial_db = Some (0, d')"
    using full_module_law [OF module] by blast
  with full_module_stops_preload [OF module demo_start(1) this] show ?thesis by blast
qed

end
