(* ===== verification/MipiScript.thy ===== *)
theory MipiScript
  imports BridgeConfig CText
begin

text \<open>
  The texts of initialisation codes, \<^verbatim>\<open>hw/mipi/pubmipi.c\<close>: \<^verbatim>\<open>mipi_parse_init_code\<close> turns the lines of a
  file into the array that the interpreter runs (theory \<open>InitCode\<close>), and what starts with it: sending
  a code, bringing the bridge up and closing it.
\<close>

section \<open>Lines and words\<close>

text \<open>\<^verbatim>\<open>fgets\<close> with a buffer of 200 bytes: the characters up to a line end, at most 199, and the rest.\<close>

fun fgets :: "nat \<Rightarrow> string \<Rightarrow> string \<times> string" where
  "fgets 0 t = ([], t)"
| "fgets (Suc n) [] = ([], [])"
| "fgets (Suc n) (c # t) =
     (if c = CHR 0x0A then ([c], t) else (let (l, r) = fgets n t in (c # l, r)))"

text \<open>The text before the first place where a mark stands.\<close>

fun cut_at :: "string \<Rightarrow> string \<Rightarrow> string" where
  "cut_at mark [] = []"
| "cut_at mark (c # t) = (if take (length mark) (c # t) = mark then [] else c # cut_at mark t)"

fun has_text :: "string \<Rightarrow> string \<Rightarrow> bool" where
  "has_text mark [] = (mark = [])"
| "has_text mark (c # t) = (take (length mark) (c # t) = mark \<or> has_text mark t)"

definition blank_end :: "char \<Rightarrow> bool" where
  "blank_end c \<longleftrightarrow> c = CHR '' '' \<or> c = CHR 0x0D \<or> c = CHR 0x0A"

definition trim_end :: "string \<Rightarrow> string" where
  "trim_end t = rev (dropWhile blank_end (rev t))"

text \<open>\<^verbatim>\<open>strtok\<close> with a space.\<close>

fun tokens :: "string \<Rightarrow> string \<Rightarrow> string list" where
  "tokens w [] = (if w = [] then [] else [w])"
| "tokens w (c # t) =
     (if c = CHR '' '' then (if w = [] then tokens [] t else w # tokens [] t) else tokens (w @ [c]) t)"

definition kept_token :: "string \<Rightarrow> bool" where
  "kept_token w \<longleftrightarrow> w \<noteq> [] \<and> hd w \<noteq> CHR 0x0D \<and> hd w \<noteq> CHR 0x0A"

text \<open>
  The words of a line go to the first rows of an array of 256 rows of 16 bytes that keeps what
  earlier lines left; a word that does not fit its row is undefined.
\<close>

definition split_line :: "string \<Rightarrow> string list \<Rightarrow> (nat \<times> string list) option" where
  "split_line str dst =
     (let ws = filter kept_token (tokens [] str) in
      if list_all (\<lambda>w. length w < 16) ws \<and> length ws \<le> length dst
      then Some (length ws, ws @ drop (length ws) dst) else None)"

section \<open>Numbers\<close>

definition clamp32 :: "int \<Rightarrow> int" where
  "clamp32 n = max (- (2 ^ 31)) (min (2 ^ 31 - 1) n)"

definition signed_text :: "string \<Rightarrow> bool \<times> string" where
  "signed_text t =
     (let u = skip_white t in
      if take 1 u = ''-'' then (True, tl u) else if take 1 u = ''+'' then (False, tl u) else (False, u))"

definition hex_digits :: "string \<Rightarrow> string" where
  "hex_digits t =
     (if (take 2 t = ''0x'' \<or> take 2 t = ''0X'') \<and> 2 < length t \<and> in_base 16 (t ! 2) then drop 2 t else t)"

definition strtol16 :: "string \<Rightarrow> int" where
  "strtol16 t = (let (neg, u) = signed_text t; n = digits_value 16 (hex_digits u)
     in clamp32 (if neg then - n else n))"

definition strtol10 :: "string \<Rightarrow> int" where
  "strtol10 t = (let (neg, u) = signed_text t; n = digits_value 10 u in clamp32 (if neg then - n else n))"

section \<open>The state of the parser\<close>

record burn_flags =
  gammaBurner :: int
  idBurner :: int
  vcomBurner :: int
  codeBurner :: int

record script_state =
  ps_dst :: "string list"
  ps_code :: "u8 list"
  codeByte :: nat
  gamma_filter :: bool
  id_filter :: bool
  vcom_filter :: bool
  code_filter :: bool

text \<open>Bytes are stored at the current place, which then moves by a count of its own.\<close>

definition put_code :: "u8 list \<Rightarrow> nat \<Rightarrow> script_state \<Rightarrow> script_state option" where
  "put_code vs n s = do {
     c \<leftarrow> mem_write (codeByte s) vs (ps_code s);
     Some (s\<lparr>ps_code := c, codeByte := codeByte s + n\<rparr>)
   }"

definition byte_of :: "int \<Rightarrow> u8" where
  "byte_of n = word_of_int n"

section \<open>The commands\<close>

text \<open>The five types that carry their bytes: with one word only, the count is below zero.\<close>

definition typed_line :: "u8 \<Rightarrow> nat \<Rightarrow> script_state \<Rightarrow> script_state option" where
  "typed_line op n s =
     (let d = ps_dst s in
      put_code (op # byte_of (strtol16 (d ! 1)) # byte_of (int n - 2)
        # map (\<lambda>i. byte_of (strtol16 (d ! (i + 2)))) [0..<n - 2]) (n + 1) s)"

text \<open>A register without a type. The test of its first letter is an assignment, so any word gets here.\<close>

definition register_line :: "nat \<Rightarrow> script_state \<Rightarrow> script_state option" where
  "register_line n s =
     (let d = (ps_dst s)[0 := CHR ''R'' # tl (ps_dst s ! 0)] in
      put_code ((if n = 1 then 0x05 else 0x39) # byte_of (strtol16 (tl (d ! 0))) # byte_of (int n - 1)
        # map (\<lambda>i. byte_of (strtol16 (d ! (i + 1)))) [0..<n - 1]) (n + 2) (s\<lparr>ps_dst := d\<rparr>))"

definition dcsread_line :: "script_state \<Rightarrow> script_state option" where
  "dcsread_line s =
     (let d = ps_dst s; rl = byte_of (strtol16 (d ! 2)); readLen = unat rl;
          flag = (if take 8 (d ! 3) = ''curpolar'' then [0xab]
                  else if take 8 (d ! 3) = ''curflick'' then [0xaa] else [0])
      in put_code (0x06 # byte_of (strtol16 (d ! 1)) # (1 + rl) # rl
           # (if readLen > 0 then flag @ replicate (readLen - 1) 0 else [])) (4 + readLen) s)"

definition genread_line :: "script_state \<Rightarrow> script_state option" where
  "genread_line s =
     (let d = ps_dst s; rl = byte_of (strtol16 (d ! 2)); readLen = unat rl
      in put_code (0x14 # byte_of (strtol16 (d ! 1)) # (1 + rl) # rl # replicate readLen 0) (4 + readLen) s)"

definition starts :: "string \<Rightarrow> string \<Rightarrow> bool" where
  "starts w t \<longleftrightarrow> take (length w) t = w"

text \<open>The line by its first word; \<open>n\<close> is the number of its words.\<close>

definition script_line :: "nat \<Rightarrow> script_state \<Rightarrow> script_state option" where
  "script_line n s =
     (let d = ps_dst s; w = d ! 0 in
      if starts ''channel'' w then put_code [0, 0xFE, 1, byte_of (strtol0 (d ! 1))] 4 s
      else if starts ''chiptype'' w then Some s
      else if starts ''2828read'' w then put_code [0, 0xFD, 3, byte_of (strtol16 (d ! 1)), 0, 0] 6 s
      else if starts ''2828write'' w then
        put_code [0, 0xFC, 3, byte_of (strtol16 (d ! 1)), byte_of (drop_bit 8 (strtol16 (d ! 2))),
          byte_of (strtol16 (d ! 2) AND 0xFF)] 6 s
      else if starts ''vcom_ili9881'' w then put_code [0, 0xE0, 0] 3 s
      else if starts ''otp_ili9881'' w then put_code [0, 0xE1, 0] 3 s
      else if starts ''otp_check'' w then put_code [0, 0xE2, 0] 3 s
      else if starts ''hs'' w then
        (if n = 3 \<and> starts ''mode'' (d ! 1) then
           (if starts ''on'' (d ! 2) then put_code [0, 0xFB, 0] 3 s
            else if starts ''off'' (d ! 2) then put_code [0, 0xFA, 0] 3 s else Some s)
         else Some s)
      else if starts ''mtp'' w then
        (if n = 3 \<and> starts ''power'' (d ! 1) then
           (if starts ''on'' (d ! 2) then put_code [0, 0xF9, 0] 3 s
            else if starts ''off'' (d ! 2) then put_code [0, 0xF8, 0] 3 s else Some s)
         else Some s)
      else if starts ''reset'' w then put_code [0, 0xF7, 0] 3 s
      else if starts ''RGB'' w then
        put_code [0, 0xF6, 3, byte_of (strtol10 (d ! 1)), byte_of (strtol10 (d ! 2)), byte_of (strtol10 (d ! 3))] 6 s
      else if starts ''delay'' w then
        put_code [0, 0, 2, byte_of (strtol0 (d ! 1) AND 0xFF), byte_of (drop_bit 8 (strtol0 (d ! 1)))] 5 s
      else if starts ''dcsread'' w then dcsread_line s
      else if starts ''genread'' w then genread_line s
      else if w = ''05'' then typed_line 0x05 n s
      else if w = ''29'' then typed_line 0x29 n s
      else if w = ''39'' then typed_line 0x39 n s
      else if w = ''15'' then typed_line 0x15 n s
      else if w = ''23'' then typed_line 0x23 n s
      else register_line n s)"

section \<open>The lines of a file\<close>

definition may_skip :: "(burn_flags \<Rightarrow> int) \<Rightarrow> burn_flags option \<Rightarrow> bool" where
  "may_skip f vcom_info \<longleftrightarrow> (case vcom_info of None \<Rightarrow> False | Some v \<Rightarrow> f v > 0)"

text \<open>A line that begins with a semicolon may open or close a part that is left out.\<close>

definition section_line :: "burn_flags option \<Rightarrow> string \<Rightarrow> script_state \<Rightarrow> script_state" where
  "section_line v buf s =
     (if has_text ''**GAMMA**'' buf then (if may_skip gammaBurner v then s\<lparr>gamma_filter := True\<rparr> else s)
      else if has_text ''**GAMMA END**'' buf then s\<lparr>gamma_filter := False\<rparr>
      else if has_text ''**ID**'' buf then (if may_skip idBurner v then s\<lparr>id_filter := True\<rparr> else s)
      else if has_text ''**ID END**'' buf then s\<lparr>id_filter := False\<rparr>
      else if has_text ''**VCOM**'' buf then (if may_skip vcomBurner v then s\<lparr>vcom_filter := True\<rparr> else s)
      else if has_text ''**VCOM END**'' buf then s\<lparr>vcom_filter := False\<rparr>
      else if has_text ''**CODE**'' buf then (if may_skip codeBurner v then s\<lparr>code_filter := True\<rparr> else s)
      else if has_text ''**CODE END**'' buf then s\<lparr>code_filter := False\<rparr>
      else s)"

definition parse_line :: "burn_flags option \<Rightarrow> string \<Rightarrow> script_state \<Rightarrow> script_state option" where
  "parse_line v buf s =
     (let b0 = (case buf of [] \<Rightarrow> NUL | c # _ \<Rightarrow> c);
          b1 = (case buf of _ # c # _ \<Rightarrow> c | _ \<Rightarrow> NUL)
      in if b0 = CHR '';'' then Some (section_line v buf s)
      else if b0 = CHR 0x0D \<or> b0 = CHR 0x0A then Some s
      else if b0 = CHR ''/'' \<or> b1 = CHR ''/'' then Some s
      else if b0 = CHR ''#'' then Some s
      else if id_filter s \<or> vcom_filter s \<or> gamma_filter s \<or> code_filter s then Some s
      else
        let t = trim_end (cut_at ''#'' (cut_at ''//'' (cut_at '';'' buf))) in
        if t = [] then Some s
        else do {
          (n, dst) \<leftarrow> split_line t (ps_dst s);
          script_line n (s\<lparr>ps_dst := dst\<rparr>)
        })"

lemma fgets_shorter: "0 < n \<Longrightarrow> t \<noteq> [] \<Longrightarrow> length (snd (fgets n t)) < length t"
proof (induction n t rule: fgets.induct)
  case (3 n c t)
  then show ?case by (cases n; cases t) (auto simp: split_beta Let_def)
qed auto

function parse_lines :: "burn_flags option \<Rightarrow> string \<Rightarrow> script_state \<Rightarrow> script_state option" where
  "parse_lines v [] s = Some s"
| "parse_lines v (c # t) s =
     (case fgets 199 (c # t) of (l, r) \<Rightarrow>
        Option.bind (parse_line v (takeWhile (\<lambda>x. x \<noteq> NUL) l) s) (parse_lines v r))"
  by pat_completeness auto
termination
proof (relation "measure (\<lambda>(v, t, s). length t)", goal_cases)
  case (2 v c t s x y z)
  have "length (snd (fgets 199 (c # t))) < length (c # t)" by (rule fgets_shorter) simp_all
  moreover have "snd (fgets 199 (c # t)) = y" using 2 by (metis snd_conv)
  ultimately show ?case by simp
qed simp

declare parse_lines.simps(2) [simp del]

text \<open>\<open>junk\<close> is what the array of words holds before the first line. Without the file nothing happens.\<close>

definition mipi_parse_init_code ::
  "string list \<Rightarrow> string option \<Rightarrow> u8 list \<Rightarrow> burn_flags option \<Rightarrow> u8 list option" where
  "mipi_parse_init_code junk file code v = (case file of None \<Rightarrow> Some code
     | Some t \<Rightarrow> map_option ps_code (parse_lines v t \<lparr>ps_dst = junk, ps_code = code, codeByte = 0,
         gamma_filter = False, id_filter = False, vcom_filter = False, code_filter = False\<rparr>))"

section \<open>Sending a text\<close>

text \<open>The digits of \<^verbatim>\<open>printf\<close>, with small and with capital letters.\<close>

definition hex_small :: "nat \<Rightarrow> char" where
  "hex_small d = ''0123456789abcdef'' ! d"

definition hex_capital :: "nat \<Rightarrow> char" where
  "hex_capital d = ''0123456789ABCDEF'' ! d"

definition print02x :: "(nat \<Rightarrow> char) \<Rightarrow> u8 \<Rightarrow> string" where
  "print02x h b = [h (unat b div 16), h (unat b mod 16)]"

text \<open>The text that \<^verbatim>\<open>mipi_send_code2\<close> makes; the array for it has 4096 bytes.\<close>

definition code2_text :: "u8 \<Rightarrow> u8 list \<Rightarrow> string" where
  "code2_text reg d = CHR ''R'' # print02x hex_small reg @ concat (map (\<lambda>b. CHR '' '' # print02x hex_capital b) d)"

definition mipi_send_code2 ::
  "int \<Rightarrow> u8 \<Rightarrow> u8 list \<Rightarrow> nat \<Rightarrow> string list \<Rightarrow> u8 list \<Rightarrow> send_state \<Rightarrow> send_state option" where
  "mipi_send_code2 channel reg p_reg_data len junk_dst junk s = do {
     bytes \<leftarrow> mem_read 0 len p_reg_data;
     let str_mipi_code = code2_text reg bytes;
     if length str_mipi_code < 4096 then do {
       let s = on_bus (mipi_to_lp_mode channel) s;
       temp \<leftarrow> mipi_parse_init_code junk_dst (Some str_mipi_code) (replicate 4096 0xff) None;
       s1 \<leftarrow> SendCode channel junk (s\<lparr>sc_code := temp\<rparr>);
       Some (on_bus (mipi_to_hs_mode channel) (s1\<lparr>sc_code := sc_code s\<rparr>))
     }
     else None
   }"

text \<open>
  \<^verbatim>\<open>mipi_worked\<close>: a text from the network goes through a file to the array of the initialisation code,
  which is run on the channels 1 and 2. \<open>junks\<close> are what the local arrays of the two runs hold.
\<close>

definition mipi_worked ::
  "string option \<Rightarrow> string list \<Rightarrow> u8 list \<Rightarrow> u8 list \<Rightarrow> send_state \<Rightarrow> (int \<times> send_state) option" where
  "mipi_worked pMipiCode junk_dst junk1 junk2 s = (case pMipiCode of None \<Rightarrow> Some (-1, s)
     | Some t \<Rightarrow> do {
         code \<leftarrow> mipi_parse_init_code junk_dst (Some t) (replicate MAX_MIPI_CODE_LEN 0xff) None;
         s \<leftarrow> SendCode 1 junk1 (s\<lparr>sc_code := code\<rparr>);
         s \<leftarrow> SendCode 2 junk2 s;
         Some (0, s)
       })"

section \<open>Bringing the bridge up\<close>

text \<open>The pins of the bridges and of the panels.\<close>

definition mipi_reset :: "int \<Rightarrow> bus \<Rightarrow> bus" where
  "mipi_reset channel b =
     (let n = (if channel = 1 \<or> channel = 2 then 10 else 11)
      in emit (Usleep 100) (emit (Gpio_write n True) (emit (Usleep 10000) (emit (Gpio_write n False) b))))"

definition pulse :: "nat \<Rightarrow> bus \<Rightarrow> bus" where
  "pulse n b = emit (Gpio_write n True) (emit (Usleep 10000) (emit (Gpio_write n False) b))"

definition mipi_gpio_reset :: "int \<Rightarrow> bus \<Rightarrow> bus" where
  "mipi_gpio_reset n b =
     (let (p, q) = (if n = 0 then (74, 10) else (75, 11));
          b = pulse p (emit (Gpio_output p) (emit (Gpio_open p) b));
          b = pulse q (emit (Gpio_output q) (emit (Gpio_open q) b))
      in pulse q (emit (Usleep 100) b))"

definition mipi_gpio_release :: "bus \<Rightarrow> bus" where
  "mipi_gpio_release b = set_pin 11 False (set_pin 75 False (set_pin 10 False (set_pin 74 False b)))"

section \<open>Numbers that were printed\<close>

text \<open>A text of hexadecimal digits, none of which starts a prefix, is its value.\<close>

definition hex_char :: "char \<Rightarrow> bool" where
  "hex_char c \<longleftrightarrow> in_base 16 c \<and> \<not> white c \<and> c \<noteq> CHR ''-'' \<and> c \<noteq> CHR ''+'' \<and> c \<noteq> CHR ''x'' \<and> c \<noteq> CHR ''X''"

text \<open>The digits that a printer of hexadecimal numbers uses.\<close>

definition word_char :: "char \<Rightarrow> bool" where
  "word_char c \<longleftrightarrow> c \<notin> {CHR '' '', CHR 0x0A, CHR 0x0D, CHR '';'', CHR ''/'', CHR ''#'', NUL}"

definition hex_printer :: "(nat \<Rightarrow> char) \<Rightarrow> bool" where
  "hex_printer h \<longleftrightarrow> (\<forall>d \<in> set [0..<16]. digit_val (h d) = Some d \<and> hex_char (h d) \<and> word_char (h d)
     \<and> h d \<noteq> CHR ''G'')"

lemma hex_printers: "hex_printer hex_capital" "hex_printer hex_small"
  by code_simp+

lemma hex_printerD:
  assumes "hex_printer h" and "d < 16"
  shows "digit_val (h d) = Some d" "hex_char (h d)" "word_char (h d)" "h d \<noteq> CHR ''G''" "in_base 16 (h d)"
  using assms by (auto simp: hex_printer_def hex_char_def)

lemma strtol16_hex:
  assumes "u \<noteq> []" and "\<forall>c \<in> set u. hex_char c" and "\<bar>digits_value 16 u\<bar> < 2 ^ 31"
  shows "strtol16 u = digits_value 16 u"
proof -
  obtain c t where u: "u = c # t" using assms(1) by (cases u) auto
  have c: "hex_char c" and t: "\<forall>c \<in> set t. hex_char c" using assms(2) u by auto
  have "signed_text u = (False, u)" using c by (simp add: u signed_text_def skip_white_def hex_char_def)
  moreover have "hex_digits u = u"
    using t by (cases t) (auto simp: u hex_digits_def hex_char_def)
  ultimately show ?thesis using assms(3) by (simp add: strtol16_def clamp32_def)
qed

lemma digits_map:
  assumes "\<forall>d \<in> set ds. digit_val (h d) = Some d \<and> d < b"
  shows "digits_value b (map h ds) = foldl (\<lambda>n d. int b * n + int d) 0 ds"
proof -
  have "takeWhile (in_base b) (map h ds) = map h ds"
    using assms by (auto simp: takeWhile_eq_all_conv in_base_def)
  then have "digits_value b (map h ds) = foldl (\<lambda>n d. int b * n + int (the (digit_val (h d)))) 0 ds"
    by (simp only: digits_value_def foldl_map)
  also have "\<dots> = foldl (\<lambda>n d. int b * n + int d) 0 ds"
    using assms by (intro foldl_cong) auto
  finally show ?thesis .
qed

lemma print02x_digits: "unat (b :: u8) div 16 < 16" "unat b mod 16 < 16"
proof -
  have "unat b < 256" by (rule order_less_le_trans [OF unsigned_less]) simp
  then show "unat b div 16 < 16" "unat b mod 16 < 16" by simp_all
qed

lemma print02x_chars:
  assumes "hex_printer h"
  shows "\<forall>c \<in> set (print02x h b). hex_char c \<and> word_char c \<and> c \<noteq> CHR ''G''"
  using hex_printerD [OF assms print02x_digits(1) [of b]] hex_printerD [OF assms print02x_digits(2) [of b]]
  by (simp add: print02x_def)

lemma uint_u8_bound: "uint (b :: u8) < 256" "0 \<le> uint b"
  using uint_bounded [of b] by simp_all

lemma print02x_number:
  assumes "hex_printer h"
  shows "digits_value 16 (print02x h b) = uint b"
proof -
  let ?n = "unat b"
  have "digits_value 16 (print02x h b) = 16 * int (?n div 16) + int (?n mod 16)"
    using digits_map [of "[?n div 16, ?n mod 16]" h 16] hex_printerD(1) [OF assms] print02x_digits [of b]
    by (simp add: print02x_def)
  also have "\<dots> = int ?n" by presburger
  finally show ?thesis by simp
qed

lemma print02x_value:
  assumes "hex_printer h"
  shows "strtol16 (print02x h b) = uint b"
proof -
  have "print02x h b \<noteq> []" by (simp add: print02x_def)
  moreover have "\<bar>uint b\<bar> < 2 ^ 31" using uint_u8_bound [of b] by simp
  ultimately show ?thesis
    using strtol16_hex [of "print02x h b"] print02x_chars [OF assms, of b] print02x_number [OF assms, of b] by simp
qed

text \<open>Four digits, and the decimal digits of a byte.\<close>

definition print04x :: "u16 \<Rightarrow> string" where
  "print04x w = print02x hex_capital (ucast (drop_bit 8 w)) @ print02x hex_capital (ucast w)"

definition print03d :: "u8 \<Rightarrow> string" where
  "print03d b = map hex_capital [unat b div 100, unat b div 10 mod 10, unat b mod 10]"

lemma len8: "LENGTH(8) = 8"
  by simp

lemma hex_all:
  assumes "\<forall>d \<in> set ds. d < b" and "b \<le> 16"
  shows "digits_value b (map hex_capital ds) = foldl (\<lambda>n d. int b * n + int d) 0 ds"
  using assms hex_printerD(1) [OF hex_printers(1)] by (intro digits_map) auto

lemma nat_halves:
  assumes "n < 65536"
  shows "256 * (n div 256 mod 256) + n mod 256 = (n :: nat)"
proof -
  have "n div 256 < 256" using assms by (simp only: div_less_iff_less_mult)
  then show ?thesis by (simp only: mod_less mult_div_mod_eq)
qed

lemma nat_quarters: "16 * (16 * (16 * (x div 16) + x mod 16) + y div 16) + y mod 16 = 256 * x + (y :: nat)"
proof -
  have "16 * (16 * x + y div 16) + y mod 16 = 256 * x + (16 * (y div 16) + y mod 16)"
    by (simp only: distrib_left mult.assoc [symmetric])
  then show ?thesis by (simp only: mult_div_mod_eq)
qed

lemma nat_thirds: "10 * (10 * (n div 100) + n div 10 mod 10) + n mod 10 = (n :: nat)"
proof -
  have "n div 100 = n div 10 div 10" by (simp add: div_mult2_eq [symmetric])
  then show ?thesis by (simp only: mult_div_mod_eq)
qed

text \<open>The value of three and of four digits.\<close>

lemma three_digits:
  assumes "\<forall>d \<in> {x, y, z}. d < b" and "b \<le> 16"
  shows "digits_value b (map hex_capital [x, y, z]) = int (b * (b * x + y) + z)"
  using hex_all [of "[x, y, z]" b] assms by simp

lemma four_digits:
  assumes "\<forall>d \<in> {w, x, y, z}. d < b" and "b \<le> 16"
  shows "digits_value b (map hex_capital [w, x, y, z]) = int (b * (b * (b * w + x) + y) + z)"
  using hex_all [of "[w, x, y, z]" b] assms by simp

lemma word_halves:
  "256 * unat (ucast (drop_bit 8 (w :: u16)) :: u8) + unat (ucast w :: u8) = unat w"
proof -
  have w: "unat w < 65536" by (rule order_less_le_trans [OF unsigned_less]) simp
  have "unat (ucast (drop_bit 8 w) :: u8) = drop_bit 8 (unat w) mod 2 ^ 8"
    by (simp only: unsigned_ucast_eq take_bit_eq_mod unat_drop_bit_eq len8)
  then have "unat (ucast (drop_bit 8 w) :: u8) = unat w div 256 mod 256"
    by (simp only: drop_bit_eq_div) simp
  moreover have "unat (ucast w :: u8) = unat w mod 2 ^ 8"
    by (simp only: unsigned_ucast_eq take_bit_eq_mod len8)
  then have "unat (ucast w :: u8) = unat w mod 256" by simp
  ultimately show ?thesis by (simp only: nat_halves [OF w])
qed

lemma print04x_digits: "digits_value 16 (print04x w) = uint w"
proof -
  obtain x y where xy: "x = unat (ucast (drop_bit 8 w) :: u8)" "y = unat (ucast w :: u8)" by blast
  have p: "print04x w = map hex_capital [x div 16, x mod 16, y div 16, y mod 16]"
    by (simp only: print04x_def print02x_def xy list.map append.simps)
  have "x div 16 < 16" "x mod 16 < 16" "y div 16 < 16" "y mod 16 < 16"
    unfolding xy by (rule print02x_digits)+
  then have "\<forall>d \<in> {x div 16, x mod 16, y div 16, y mod 16}. d < 16" by simp
  then have "digits_value 16 (print04x w) = int (256 * x + y)"
    unfolding p by (subst four_digits) (simp_all only: nat_quarters order_refl)
  then show ?thesis using word_halves [of w] by (simp only: xy uint_nat)
qed

lemma print04x_value: "strtol16 (print04x w) = uint w"
proof -
  have "\<bar>uint w\<bar> < 2 ^ 31" using uint_bounded [of w] by simp
  moreover have "\<forall>c \<in> set (print04x w). hex_char c"
    using print02x_chars [OF hex_printers(1)] by (auto simp only: print04x_def set_append Un_iff)
  moreover have "print04x w \<noteq> []" by (simp add: print04x_def print02x_def)
  ultimately show ?thesis using strtol16_hex [of "print04x w"] print04x_digits by simp
qed

lemma strtol0_hex:
  assumes "t = c # u" and "in_base 16 c" and "\<bar>digits_value 16 t\<bar> < 2 ^ 31"
  shows "strtol0 (''0x'' @ t) = digits_value 16 t"
  using assms by (simp add: strtol0_def skip_white_def white_def)

lemma print04x_delay: "strtol0 (''0x'' @ print04x w) = uint w"
proof -
  have "\<bar>uint w\<bar> < 2 ^ 31" using uint_bounded [of w] by simp
  then show ?thesis
    using strtol0_hex [of "print04x w" "hex_capital (unat (ucast (drop_bit 8 w) :: u8) div 16)"] print04x_digits [of w]
      hex_printerD(5) [OF hex_printers(1) print02x_digits(1) [of "ucast (drop_bit 8 w)"]]
    by (simp add: print04x_def print02x_def)
qed

lemma print02x_channel: "strtol0 (''0x'' @ print02x hex_capital b) = uint b"
  using strtol0_hex [of "print02x hex_capital b" "hex_capital (unat b div 16)"] uint_u8_bound [of b]
    print02x_number [OF hex_printers(1), of b] hex_printerD(5) [OF hex_printers(1) print02x_digits(1) [of b]]
  by (simp add: print02x_def)

lemma clamp32_byte: "0 \<le> n \<Longrightarrow> n < 256 \<Longrightarrow> clamp32 n = n"
  by (simp add: clamp32_def)

lemma print03d_value: "strtol10 (print03d b) = uint b"
proof -
  let ?n = "unat b"
  have lt: "?n < 256" by (rule order_less_le_trans [OF unsigned_less]) simp
  have digits: "?n div 100 < 10" "?n div 10 mod 10 < 10" "?n mod 10 < 10" using lt by simp_all
  have f: "hex_char (hex_capital (?n div 100))"
    using hex_printerD(2) [OF hex_printers(1), of "?n div 100"] digits(1) by simp
  have "\<forall>d \<in> {?n div 100, ?n div 10 mod 10, ?n mod 10}. d < 10" using digits by simp
  then have "digits_value 10 (print03d b) = int ?n"
    unfolding print03d_def by (subst three_digits) (simp, simp, simp only: nat_thirds)
  then have v: "digits_value 10 (print03d b) = uint b" by simp
  have "signed_text (print03d b) = (False, print03d b)"
    using f by (simp add: print03d_def signed_text_def skip_white_def hex_char_def)
  then show ?thesis using v clamp32_byte [OF uint_u8_bound(2) uint_u8_bound(1), of b] by (simp add: strtol10_def)
qed

section \<open>Lines of words\<close>

fun unwords :: "string list \<Rightarrow> string" where
  "unwords [] = []"
| "unwords [w] = w"
| "unwords (w # ws) = w @ CHR '' '' # unwords ws"

definition clean_word :: "string \<Rightarrow> bool" where
  "clean_word w \<longleftrightarrow> w \<noteq> [] \<and> length w < 16 \<and> (\<forall>c \<in> set w. word_char c)"

lemma unwords_Cons: "ws \<noteq> [] \<Longrightarrow> unwords (w # ws) = w @ CHR '' '' # unwords ws"
  by (cases ws) simp_all

lemma tokens_word:
  "\<forall>c \<in> set w. word_char c \<Longrightarrow> tokens u (w @ t) = tokens (u @ w) t"
  by (induction w arbitrary: u) (simp_all add: word_char_def)

lemma tokens_unwords:
  assumes "ws \<noteq> []" and "\<forall>w \<in> set ws. clean_word w"
  shows "tokens [] (unwords ws) = ws"
  using assms
proof (induction ws rule: list_nonempty_induct)
  case (single w)
  then show ?case using tokens_word [of w "[]" "[]"] by (simp add: clean_word_def)
next
  case (cons w ws)
  then have "tokens [] (unwords (w # ws)) = tokens w (CHR '' '' # unwords ws)"
    using tokens_word [of w "[]"] by (simp add: unwords_Cons clean_word_def)
  then show ?case using cons by (simp add: clean_word_def)
qed

lemma unwords_chars:
  "ws \<noteq> [] \<Longrightarrow> \<forall>w \<in> set ws. clean_word w \<Longrightarrow> \<forall>c \<in> set (unwords ws). word_char c \<or> c = CHR '' ''"
proof (induction ws rule: list_nonempty_induct)
  case (cons w ws)
  then show ?case by (simp add: unwords_Cons clean_word_def ball_Un)
qed (simp add: clean_word_def)

lemma unwords_ends:
  assumes "ws \<noteq> []" and "\<forall>w \<in> set ws. clean_word w"
  shows "unwords ws \<noteq> [] \<and> word_char (hd (unwords ws)) \<and> word_char (last (unwords ws))"
  using assms
proof (induction ws rule: list_nonempty_induct)
  case (cons w ws)
  then have "w \<noteq> []" "word_char (hd w)" by (simp_all add: clean_word_def)
  then show ?case using cons by (simp add: unwords_Cons)
qed (simp add: clean_word_def)

lemma kept_words: "\<forall>w \<in> set ws. clean_word w \<Longrightarrow> filter kept_token ws = ws"
proof (induction ws)
  case (Cons w ws)
  then show ?case by (cases w) (simp_all add: kept_token_def clean_word_def word_char_def)
qed simp

lemma cut_at_absent: "c \<notin> set t \<Longrightarrow> cut_at (c # m) t = t"
  by (induction t) auto

lemma trim_end_clean:
  assumes "t \<noteq> []" and "\<not> blank_end (last t)" and "list_all blank_end e"
  shows "trim_end (t @ e) = t"
proof -
  have "dropWhile blank_end (rev e @ rev t) = dropWhile blank_end (rev t)"
    using assms(3) by (intro dropWhile_append2) (auto simp: list_all_iff)
  also have "\<dots> = rev t" using assms(1,2) by (cases t rule: rev_cases) simp_all
  finally show ?thesis by (simp add: trim_end_def)
qed

definition unfiltered :: "script_state \<Rightarrow> bool" where
  "unfiltered s \<longleftrightarrow> \<not> gamma_filter s \<and> \<not> id_filter s \<and> \<not> vcom_filter s \<and> \<not> code_filter s"

text \<open>A line of clean words, with or without its line end, is the command of these words.\<close>

lemma parse_line_words:
  assumes ws: "ws \<noteq> []" "\<forall>w \<in> set ws. clean_word w" "length ws \<le> length (ps_dst s)"
    and s: "unfiltered s" and e: "e = [] \<or> e = [CHR 0x0A]"
  shows "parse_line v (unwords ws @ e) s =
    script_line (length ws) (s\<lparr>ps_dst := ws @ drop (length ws) (ps_dst s)\<rparr>)"
proof -
  let ?u = "unwords ws"
  note ends = unwords_ends [OF ws(1,2)]
  have chars: "c \<in> set ?u \<Longrightarrow> c \<notin> {CHR '';'', CHR ''/'', CHR ''#''}" for c
    using unwords_chars [OF ws(1,2)] by (auto simp: word_char_def)
  have cut: "cut_at ''#'' (cut_at ''//'' (cut_at '';'' (?u @ e))) = ?u @ e"
    using chars e by (subst (3) cut_at_absent, force, subst (2) cut_at_absent, force, subst cut_at_absent) force+
  have trim: "trim_end (?u @ e) = ?u"
    using ends e by (intro trim_end_clean) (auto simp: blank_end_def word_char_def)
  have split: "split_line ?u (ps_dst s) = Some (length ws, ws @ drop (length ws) (ps_dst s))"
    using ws tokens_unwords [OF ws(1,2)] kept_words [OF ws(2)]
    by (simp add: split_line_def clean_word_def list_all_iff)
  obtain c t where u: "?u = c # t" using ends by (cases ?u) auto
  have c: "word_char c" using ends u by simp
  have b1: "(case c # t @ e of _ # x # _ \<Rightarrow> x | _ \<Rightarrow> NUL) \<noteq> CHR ''/''"
    using chars [unfolded u] e by (cases t) (auto simp: NUL_def)
  show ?thesis
    using s c b1 cut trim split unfolding parse_line_def Let_def
    by (simp add: u word_char_def unfiltered_def)
qed

lemma fgets_line:
  assumes "CHR 0x0A \<notin> set l" and "length l < n"
  shows "fgets n (l @ CHR 0x0A # t) = (l @ [CHR 0x0A], t)"
  using assms
proof (induction l arbitrary: n)
  case (Cons c l)
  then show ?case by (cases n) auto
next
  case Nil
  then show ?case by (cases n) auto
qed

lemma fgets_last:
  assumes "CHR 0x0A \<notin> set l" and "length l \<le> n"
  shows "fgets n l = (l, [])"
  using assms
proof (induction l arbitrary: n)
  case (Cons c l)
  then show ?case by (cases n) auto
next
  case Nil
  then show ?case by (cases n) auto
qed

lemma parse_lines_step:
  assumes "t \<noteq> []" and "fgets 199 t = (l, r)" and "NUL \<notin> set l"
  shows "parse_lines v t s = Option.bind (parse_line v l s) (parse_lines v r)"
proof -
  have l: "takeWhile (\<lambda>x. x \<noteq> NUL) l = l" using assms(3) by (auto simp: takeWhile_eq_all_conv)
  obtain c u where t: "t = c # u" using assms(1) by (cases t) auto
  show ?thesis unfolding t parse_lines.simps(2) assms(2) [unfolded t] prod.case l ..
qed

lemma parse_lines_Nil: "Option.bind x (parse_lines v []) = x"
  by (cases x) simp_all

lemma parse_lines_words:
  assumes ws: "ws \<noteq> []" "\<forall>w \<in> set ws. clean_word w" "length ws \<le> length (ps_dst s)"
    and s: "unfiltered s" and len: "length (unwords ws) < 199"
  shows "parse_lines v (unwords ws @ CHR 0x0A # t) s =
    Option.bind (script_line (length ws) (s\<lparr>ps_dst := ws @ drop (length ws) (ps_dst s)\<rparr>)) (parse_lines v t)"
    and "parse_lines v (unwords ws) s =
    script_line (length ws) (s\<lparr>ps_dst := ws @ drop (length ws) (ps_dst s)\<rparr>)"
proof -
  have nl: "CHR 0x0A \<notin> set (unwords ws)" and nul: "NUL \<notin> set (unwords ws)"
    using unwords_chars [OF ws(1,2)] by (auto simp: word_char_def NUL_def)
  show "parse_lines v (unwords ws @ CHR 0x0A # t) s =
    Option.bind (script_line (length ws) (s\<lparr>ps_dst := ws @ drop (length ws) (ps_dst s)\<rparr>)) (parse_lines v t)"
    using parse_lines_step [OF _ fgets_line [OF nl len]] nul parse_line_words [OF ws s, of "[CHR 0x0A]"]
    by (simp add: NUL_def)
  show "parse_lines v (unwords ws) s =
    script_line (length ws) (s\<lparr>ps_dst := ws @ drop (length ws) (ps_dst s)\<rparr>)"
    using parse_lines_step [OF _ fgets_last [OF nl less_imp_le [OF len]]] nul parse_line_words [OF ws s, of "[]"]
      unwords_ends [OF ws(1,2)] by (simp add: parse_lines_Nil)
qed

section \<open>Scripts\<close>

text \<open>
  The commands a script is made of, the words they are written with, and the commands of the
  interpreter that they stand for.
\<close>

datatype script_cmd =
    Packet_cmd u8 u8 "u8 list"
  | Panel_cmd u8 "u8 list"
  | Delay_cmd u16
  | Hs_cmd bool
  | Mtp_cmd bool
  | Reset_cmd
  | Rgb_cmd u8 u8 u8
  | Channel_cmd u8
  | Bridge_cmd u8 u16

fun script_words :: "script_cmd \<Rightarrow> string list" where
  "script_words (Packet_cmd op reg d) =
     print02x hex_capital op # print02x hex_capital reg # map (print02x hex_capital) d"
| "script_words (Panel_cmd reg d) = (CHR ''R'' # print02x hex_small reg) # map (print02x hex_capital) d"
| "script_words (Delay_cmd w) = [''delay'', ''0x'' @ print04x w]"
| "script_words (Hs_cmd b) = [''hs'', ''mode'', if b then ''on'' else ''off'']"
| "script_words (Mtp_cmd b) = [''mtp'', ''power'', if b then ''on'' else ''off'']"
| "script_words Reset_cmd = [''reset'']"
| "script_words (Rgb_cmd r g b) = [''RGB'', print03d r, print03d g, print03d b]"
| "script_words (Channel_cmd c) = [''channel'', ''0x'' @ print02x hex_capital c]"
| "script_words (Bridge_cmd reg w) = [''2828write'', print02x hex_capital reg, print04x w]"

fun meaning :: "script_cmd \<Rightarrow> mipi_cmd" where
  "meaning (Packet_cmd op reg d) = (op, reg, d)"
| "meaning (Panel_cmd reg d) = (if d = [] then 0x05 else 0x39, reg, d)"
| "meaning (Delay_cmd w) = (0, 0x00, [ucast w, ucast (drop_bit 8 w)])"
| "meaning (Hs_cmd b) = (0, if b then 0xfb else 0xfa, [])"
| "meaning (Mtp_cmd b) = (0, if b then 0xf9 else 0xf8, [])"
| "meaning Reset_cmd = (0, 0xf7, [])"
| "meaning (Rgb_cmd r g b) = (0, 0xf6, [r, g, b])"
| "meaning (Channel_cmd c) = (0, 0xfe, [c])"
| "meaning (Bridge_cmd reg w) = (0, 0xfc, [reg, ucast (drop_bit 8 w), ucast w])"

text \<open>The types a line may begin with; a line has to fit the buffer it is read to.\<close>

fun legal_cmd :: "script_cmd \<Rightarrow> bool" where
  "legal_cmd (Packet_cmd op reg d) \<longleftrightarrow> op \<in> {0x05, 0x15, 0x23, 0x29, 0x39} \<and> length d \<le> 64"
| "legal_cmd (Panel_cmd reg d) \<longleftrightarrow> length d \<le> 65"
| "legal_cmd c \<longleftrightarrow> True"

definition script_text :: "script_cmd list \<Rightarrow> string" where
  "script_text cs = concat (map (\<lambda>c. unwords (script_words c) @ [CHR 0x0A]) cs)"

lemma print02x_clean: "hex_printer h \<Longrightarrow> clean_word (print02x h b)"
  using print02x_chars [of h b] by (simp add: clean_word_def print02x_def)

lemma word_char_letters: "word_char (CHR ''0'')" "word_char (CHR ''x'')" "word_char (CHR ''R'')"
  by code_simp+

lemma print04x_clean: "clean_word (print04x w)" "clean_word (''0x'' @ print04x w)"
  using print02x_chars [OF hex_printers(1), of "ucast (drop_bit 8 w)"]
    print02x_chars [OF hex_printers(1), of "ucast w"]
  by (auto simp: clean_word_def print04x_def print02x_def word_char_letters)

lemma print03d_clean: "clean_word (print03d b)"
proof -
  have "unat b < 256" by (rule order_less_le_trans [OF unsigned_less]) simp
  then have "unat b div 100 < 16" "unat b div 10 mod 10 < 16" "unat b mod 10 < 16" by simp_all
  then have "\<forall>d \<in> {unat b div 100, unat b div 10 mod 10, unat b mod 10}. word_char (hex_capital d)"
    using hex_printerD(3) [OF hex_printers(1)] by simp
  then show ?thesis by (simp add: clean_word_def print03d_def)
qed

lemma prefix_clean:
  "clean_word (''0x'' @ print02x hex_capital b)" "clean_word (CHR ''R'' # print02x hex_small b)"
  using print02x_chars [OF hex_printers(1), of b] print02x_chars [OF hex_printers(2), of b]
  by (auto simp: clean_word_def print02x_def word_char_letters)

lemma script_words_clean: "\<forall>w \<in> set (script_words c). clean_word w"
proof (cases c)
  case (Hs_cmd b)
  then show ?thesis by (cases b) (simp_all add: clean_word_def word_char_def NUL_def)
next
  case (Mtp_cmd b)
  then show ?thesis by (cases b) (simp_all add: clean_word_def word_char_def NUL_def)
next
  case (Delay_cmd w)
  moreover have "clean_word ''delay''" by code_simp
  ultimately show ?thesis using print04x_clean(2) [of w] by simp
next
  case (Rgb_cmd r g b)
  moreover have "clean_word ''RGB''" by code_simp
  ultimately show ?thesis using print03d_clean by simp
next
  case (Channel_cmd x)
  moreover have "clean_word ''channel''" by code_simp
  ultimately show ?thesis using prefix_clean(1) [of x] by simp
next
  case (Bridge_cmd reg w)
  moreover have "clean_word ''2828write''" by code_simp
  ultimately show ?thesis using print04x_clean(1) print02x_clean [OF hex_printers(1)] by simp
next
  case Reset_cmd
  moreover have "clean_word ''reset''" by code_simp
  ultimately show ?thesis by simp
next
  case (Packet_cmd op reg d)
  then show ?thesis using print02x_clean [OF hex_printers(1)] by auto
next
  case (Panel_cmd reg d)
  then show ?thesis using print02x_clean [OF hex_printers(1)] prefix_clean(2) by auto
qed

lemma unwords_length:
  "ws \<noteq> [] \<Longrightarrow> length (unwords ws) = sum_list (map length ws) + length ws - 1"
proof (induction ws rule: list_nonempty_induct)
  case (cons w ws)
  then show ?case by (cases ws) (simp_all add: unwords_Cons)
qed simp

lemma print_lengths: "length (print02x h b) = 2" "length (print04x w) = 4" "length (print03d b) = 3"
  by (simp_all add: print02x_def print04x_def print03d_def)

lemma sum_const: "(\<forall>x \<in> set xs. f x = k) \<Longrightarrow> sum_list (map f xs) = k * length xs"
  for k :: nat
  by (induction xs) simp_all

lemma script_words_size:
  assumes "legal_cmd c"
  shows "script_words c \<noteq> [] \<and> length (script_words c) \<le> 256 \<and> length (unwords (script_words c)) < 199"
proof -
  have d: "sum_list (map length (map (print02x hex_capital) d)) = 2 * length d" for d
    by (simp only: map_map) (rule sum_const, simp add: print_lengths)
  have "sum_list (map length (script_words c)) + length (script_words c) - 1 < 199
      \<and> length (script_words c) \<le> 256"
    using assms d by (cases c) (simp_all add: print_lengths)
  moreover have "script_words c \<noteq> []" by (cases c) simp_all
  ultimately show ?thesis by (simp add: unwords_length)
qed

section \<open>A command of a script\<close>

lemma byte_of_uint [simp]: "byte_of (uint b) = b"
  by (simp add: byte_of_def)

lemma byte_of_nat [simp]: "byte_of (int n) = of_nat n"
  by (simp add: byte_of_def)

lemma byte_of_halves:
  "byte_of (uint (w :: u16) AND 0xFF) = ucast w"
  "byte_of (drop_bit 8 (uint w)) = ucast (drop_bit 8 w)"
  "byte_of (uint w) = ucast w"
proof -
  have m: "(0xFF :: int) = mask 8" by (simp add: mask_eq_exp_minus_1)
  show "byte_of (uint w AND 0xFF) = ucast w"
    unfolding byte_of_def m by (rule bit_word_eqI) (auto simp: bit_simps)
  show "byte_of (drop_bit 8 (uint w)) = ucast (drop_bit 8 w)"
    unfolding byte_of_def by (rule bit_word_eqI) (auto simp: bit_simps)
  show "byte_of (uint w) = ucast w"
    unfolding byte_of_def by (rule bit_word_eqI) (auto simp: bit_simps)
qed

lemma data_words:
  "map (\<lambda>i. byte_of (strtol16 ((ws @ map (print02x hex_capital) d @ rest) ! (i + length ws)))) [0..<length d] = d"
  by (rule nth_equalityI) (simp_all add: nth_append print02x_value [OF hex_printers(1)])

definition store_cmd :: "script_cmd \<Rightarrow> script_state \<Rightarrow> script_state option" where
  "store_cmd c s = put_code (encode_cmd (meaning c)) (length (encode_cmd (meaning c))) s"

lemma typed_lines:
  "ps_dst s ! 0 = ''05'' \<Longrightarrow> script_line n s = typed_line 0x05 n s"
  "ps_dst s ! 0 = ''15'' \<Longrightarrow> script_line n s = typed_line 0x15 n s"
  "ps_dst s ! 0 = ''23'' \<Longrightarrow> script_line n s = typed_line 0x23 n s"
  "ps_dst s ! 0 = ''29'' \<Longrightarrow> script_line n s = typed_line 0x29 n s"
  "ps_dst s ! 0 = ''39'' \<Longrightarrow> script_line n s = typed_line 0x39 n s"
  by (simp_all only: script_line_def Let_def) (simp_all add: starts_def)

lemma script_line_packet:
  assumes "op \<in> {0x05, 0x15, 0x23, 0x29, 0x39}"
    and "ps_dst s = script_words (Packet_cmd op reg d) @ rest"
  shows "script_line (length d + 2) s = store_cmd (Packet_cmd op reg d) s"
proof -
  have t: "typed_line op (length d + 2) s = store_cmd (Packet_cmd op reg d) s"
    using data_words [of "[print02x hex_capital op, print02x hex_capital reg]" d rest]
    by (simp add: typed_line_def store_cmd_def assms(2) print02x_value [OF hex_printers(1)] numeral_2_eq_2)
  have w: "print02x hex_capital 0x05 = ''05''" "print02x hex_capital 0x15 = ''15''"
    "print02x hex_capital 0x23 = ''23''" "print02x hex_capital 0x29 = ''29''" "print02x hex_capital 0x39 = ''39''"
    by code_simp+
  have d: "ps_dst s ! 0 = print02x hex_capital op" using assms(2) by simp
  have "script_line (length d + 2) s = typed_line op (length d + 2) s"
    using assms(1) d w typed_lines [of s] by (elim insertE emptyE) simp_all
  then show ?thesis using t by simp
qed

lemma script_line_panel:
  assumes "ps_dst s = script_words (Panel_cmd reg d) @ rest"
  shows "script_line (length d + 1) s = store_cmd (Panel_cmd reg d) s"
proof -
  obtain a b where w: "print02x hex_small reg = [a, b]" "a \<noteq> CHR ''G''"
    using print02x_chars [OF hex_printers(2), of reg] by (auto simp: print02x_def)
  have d: "ps_dst s ! 0 = [CHR ''R'', a, b]" using assms w by simp
  have e: "(ps_dst s)[0 := CHR ''R'' # tl (ps_dst s ! 0)] = ps_dst s"
    using assms by simp
  have same: "s\<lparr>ps_dst := ps_dst s\<rparr> = s" by simp
  have "script_line (length d + 1) s = register_line (length d + 1) s"
    using w(2) unfolding script_line_def Let_def d by (simp add: starts_def)
  also have "\<dots> = store_cmd (Panel_cmd reg d) s"
    using data_words [of "[CHR ''R'' # print02x hex_small reg]" d rest]
    by (simp only: register_line_def Let_def e same)
      (simp add: store_cmd_def assms print02x_value [OF hex_printers(2)])
  finally show ?thesis .
qed

lemma script_line_cmd:
  assumes "legal_cmd c" and "ps_dst s = script_words c @ rest"
  shows "script_line (length (script_words c)) s = store_cmd c s"
proof (cases c)
  case (Packet_cmd op reg d)
  then show ?thesis using script_line_packet [of op s reg d rest] assms by simp
next
  case (Panel_cmd reg d)
  then show ?thesis using script_line_panel [of s reg d rest] assms by simp
next
  case (Delay_cmd w)
  then show ?thesis using assms(2)
    by (simp add: script_line_def starts_def store_cmd_def print04x_delay [simplified] byte_of_halves)
      (simp add: eval_nat_numeral)
next
  case (Hs_cmd b)
  then show ?thesis using assms(2)
    by (cases b) (simp_all add: script_line_def starts_def store_cmd_def eval_nat_numeral)
next
  case (Mtp_cmd b)
  then show ?thesis using assms(2)
    by (cases b) (simp_all add: script_line_def starts_def store_cmd_def eval_nat_numeral)
next
  case Reset_cmd
  then show ?thesis using assms(2) by (simp add: script_line_def starts_def store_cmd_def eval_nat_numeral)
next
  case (Rgb_cmd r g b)
  then show ?thesis using assms(2)
    by (simp add: script_line_def starts_def store_cmd_def print03d_value eval_nat_numeral)
next
  case (Channel_cmd x)
  then show ?thesis using assms(2)
    by (simp add: script_line_def starts_def store_cmd_def print02x_channel [simplified] eval_nat_numeral)
next
  case (Bridge_cmd reg w)
  then show ?thesis using assms(2)
    by (simp add: script_line_def starts_def store_cmd_def print04x_value byte_of_halves numeral_2_eq_2
        print02x_value [OF hex_printers(1)]) (simp add: eval_nat_numeral)
qed

section \<open>A script is its commands\<close>

definition ready :: "script_state \<Rightarrow> bool" where
  "ready s \<longleftrightarrow> unfiltered s \<and> length (ps_dst s) = 256"

lemma encode_Cons: "encode (c # cs) = encode_cmd c @ encode cs"
  by (simp add: encode_def)

text \<open>The array after bytes were put at the current place, where they fit.\<close>

lemma put_code_ok:
  assumes "codeByte s + length vs \<le> length (ps_code s)"
  shows "put_code vs (length vs) s = Some (s\<lparr>ps_code :=
    take (codeByte s) (ps_code s) @ vs @ drop (codeByte s + length vs) (ps_code s), codeByte := codeByte s + length vs\<rparr>)"
  using assms by (simp add: put_code_def mem_write_def)

lemma parse_cmd:
  assumes "legal_cmd c" and "ready s" and "codeByte s + length (encode_cmd (meaning c)) \<le> length (ps_code s)"
  shows "\<exists>s'. parse_lines v (unwords (script_words c) @ CHR 0x0A # t) s = parse_lines v t s' \<and> ready s' \<and>
    codeByte s' = codeByte s + length (encode_cmd (meaning c)) \<and>
    ps_code s' = take (codeByte s) (ps_code s) @ encode_cmd (meaning c)
      @ drop (codeByte s + length (encode_cmd (meaning c))) (ps_code s)"
proof -
  note w = script_words_size [OF assms(1)]
  let ?d = "script_words c @ drop (length (script_words c)) (ps_dst s)"
  let ?s = "s\<lparr>ps_dst := ?d\<rparr>"
  let ?s2 = "?s\<lparr>ps_code := take (codeByte s) (ps_code s) @ encode_cmd (meaning c)
      @ drop (codeByte s + length (encode_cmd (meaning c))) (ps_code s),
      codeByte := codeByte s + length (encode_cmd (meaning c))\<rparr>"
  have d: "length ?d = 256" using w assms(2) by (simp add: ready_def)
  have "parse_lines v (unwords (script_words c) @ CHR 0x0A # t) s =
      Option.bind (script_line (length (script_words c)) ?s) (parse_lines v t)"
    using w assms(2) by (intro parse_lines_words(1)) (simp_all add: ready_def script_words_clean)
  also have "script_line (length (script_words c)) ?s = store_cmd c ?s"
    by (rule script_line_cmd [OF assms(1)]) simp
  also have "\<dots> = Some ?s2"
    using put_code_ok [of ?s "encode_cmd (meaning c)"] assms(3) by (simp add: store_cmd_def)
  finally have "parse_lines v (unwords (script_words c) @ CHR 0x0A # t) s = parse_lines v t ?s2" by simp
  then show ?thesis using d assms(2) by (intro exI [of _ ?s2]) (simp add: ready_def unfiltered_def)
qed

lemma parse_script:
  assumes "\<forall>c \<in> set cs. legal_cmd c" and "ready s"
    and "codeByte s + length (encode (map meaning cs)) \<le> length (ps_code s)"
  shows "\<exists>s'. parse_lines v (script_text cs @ t) s = parse_lines v t s' \<and> ready s' \<and>
    codeByte s' = codeByte s + length (encode (map meaning cs)) \<and>
    ps_code s' = take (codeByte s) (ps_code s) @ encode (map meaning cs)
      @ drop (codeByte s + length (encode (map meaning cs))) (ps_code s)"
  using assms
proof (induction cs arbitrary: s)
  case Nil
  then show ?case by (auto simp: script_text_def encode_def)
next
  case (Cons c cs)
  let ?n = "length (encode_cmd (meaning c))"
  have c: "legal_cmd c" and cs: "\<forall>c \<in> set cs. legal_cmd c" using Cons.prems(1) by auto
  have fits: "codeByte s + ?n + length (encode (map meaning cs)) \<le> length (ps_code s)"
    using Cons.prems(3) by (simp add: encode_Cons)
  have line: "script_text (c # cs) @ t = unwords (script_words c) @ CHR 0x0A # (script_text cs @ t)"
    by (simp add: script_text_def)
  obtain s1 where s1: "parse_lines v (script_text (c # cs) @ t) s = parse_lines v (script_text cs @ t) s1"
      "ready s1" "codeByte s1 = codeByte s + ?n"
      "ps_code s1 = take (codeByte s) (ps_code s) @ encode_cmd (meaning c) @ drop (codeByte s + ?n) (ps_code s)"
    using parse_cmd [OF c Cons.prems(2), of v "script_text cs @ t"] fits unfolding line by auto
  have len: "length (ps_code s1) = length (ps_code s)" using fits unfolding s1(4) by simp
  have cb: "codeByte s \<le> length (ps_code s)" using fits by simp
  obtain s2 where "parse_lines v (script_text cs @ t) s1 = parse_lines v t s2" "ready s2"
      "codeByte s2 = codeByte s1 + length (encode (map meaning cs))"
      "ps_code s2 = take (codeByte s1) (ps_code s1) @ encode (map meaning cs)
        @ drop (codeByte s1 + length (encode (map meaning cs))) (ps_code s1)"
    using Cons.IH [OF cs s1(2)] fits len s1(3) by auto
  moreover have "take (codeByte s1) (ps_code s1) = take (codeByte s) (ps_code s) @ encode_cmd (meaning c)"
    using cb unfolding s1(3,4) by simp
  moreover have "drop (codeByte s1 + length (encode (map meaning cs))) (ps_code s1)
      = drop (codeByte s + ?n + length (encode (map meaning cs))) (ps_code s)"
    using cb unfolding s1(3,4) by (simp add: ac_simps)
  ultimately show ?case using s1(1,3) by (auto simp: encode_Cons ac_simps)
qed

definition fresh_script :: "string list \<Rightarrow> u8 list \<Rightarrow> script_state" where
  "fresh_script junk code = \<lparr>ps_dst = junk, ps_code = code, codeByte = 0,
     gamma_filter = False, id_filter = False, vcom_filter = False, code_filter = False\<rparr>"

lemma parsed_scripts:
  assumes "\<forall>c \<in> set cs. legal_cmd c" and "length junk = 256"
    and "length (encode (map meaning cs)) \<le> length code"
  shows "mipi_parse_init_code junk (Some (script_text cs)) code v =
    Some (encode (map meaning cs) @ drop (length (encode (map meaning cs))) code)"
  using parse_script [OF assms(1), of "fresh_script junk code" v "[]"] assms(2,3)
  by (auto simp: mipi_parse_init_code_def fresh_script_def [symmetric] ready_def unfiltered_def)
    (auto simp: fresh_script_def)

section \<open>Parts that are left out\<close>

definition section_text :: "string \<Rightarrow> string" where
  "section_text m = '';**'' @ m @ ''**'' @ [CHR 0x0A]"

text \<open>While a part is left out, its commands change nothing.\<close>

lemma parse_filtered:
  assumes "\<forall>c \<in> set cs. legal_cmd c" and "\<not> unfiltered s"
  shows "parse_lines v (script_text cs @ t) s = parse_lines v t s"
  using assms(1)
proof (induction cs)
  case (Cons c cs)
  note w = script_words_size [of c]
  let ?u = "unwords (script_words c)"
  have c: "legal_cmd c" using Cons.prems by simp
  have chars: "x \<in> set ?u \<Longrightarrow> x = CHR '' '' \<or> word_char x" for x
    using unwords_chars [OF conjunct1 [OF w [OF c]] script_words_clean] by auto
  have hd: "?u \<noteq> []" "word_char (hd ?u)"
    using unwords_ends [OF conjunct1 [OF w [OF c]] script_words_clean] by simp_all
  have nl: "CHR 0x0A \<notin> set ?u" "NUL \<notin> set ?u" using chars by (auto simp: word_char_def NUL_def)
  have "parse_line v (?u @ [CHR 0x0A]) s = Some s"
    using hd assms(2) by (cases ?u) (auto simp: parse_line_def Let_def word_char_def unfiltered_def)
  then have "parse_lines v (?u @ CHR 0x0A # (script_text cs @ t)) s = parse_lines v (script_text cs @ t) s"
    using parse_lines_step [OF _ fgets_line [OF nl(1) conjunct2 [OF conjunct2 [OF w [OF c]]]],
        of "script_text cs @ t" v s] nl by (simp add: NUL_def)
  then show ?case using Cons by (simp add: script_text_def)
qed (simp add: script_text_def)

lemma section_line_texts:
  "section_line v (section_text ''GAMMA'') s = (if may_skip gammaBurner v then s\<lparr>gamma_filter := True\<rparr> else s)"
  "section_line v (section_text ''GAMMA END'') s = s\<lparr>gamma_filter := False\<rparr>"
  "section_line v (section_text ''ID'') s = (if may_skip idBurner v then s\<lparr>id_filter := True\<rparr> else s)"
  "section_line v (section_text ''ID END'') s = s\<lparr>id_filter := False\<rparr>"
  "section_line v (section_text ''VCOM'') s = (if may_skip vcomBurner v then s\<lparr>vcom_filter := True\<rparr> else s)"
  "section_line v (section_text ''VCOM END'') s = s\<lparr>vcom_filter := False\<rparr>"
  "section_line v (section_text ''CODE'') s = (if may_skip codeBurner v then s\<lparr>code_filter := True\<rparr> else s)"
  "section_line v (section_text ''CODE END'') s = s\<lparr>code_filter := False\<rparr>"
  by (simp_all add: section_line_def section_text_def)

lemma parse_section_line:
  assumes "length m < 100" and "CHR 0x0A \<notin> set m" and "NUL \<notin> set m"
  shows "parse_lines v (section_text m @ t) s = parse_lines v t (section_line v (section_text m) s)"
proof -
  let ?l = "'';**'' @ m @ ''**''"
  have f: "fgets 199 (?l @ CHR 0x0A # t) = (?l @ [CHR 0x0A], t)"
    using assms by (intro fgets_line) auto
  have n: "NUL \<notin> set (?l @ [CHR 0x0A])" using assms by (auto simp: NUL_def)
  have p: "parse_line v (?l @ [CHR 0x0A]) s = Some (section_line v (?l @ [CHR 0x0A]) s)"
    by (simp add: parse_line_def)
  have "parse_lines v (?l @ CHR 0x0A # t) s = parse_lines v t (section_line v (?l @ [CHR 0x0A]) s)"
    using parse_lines_step [OF _ f n, of v s] p by simp
  then show ?thesis by (simp add: section_text_def)
qed

section \<open>What is sent\<close>

text \<open>
  C34: a script, the lines of which are commands with their arguments printed as numbers, is parsed to
  exactly the commands it stands for, one after the other, and the rest of the array stays as it
  was. It does not matter which parts may be left out, as the script marks none.
\<close>

theorem script_parsed:
  assumes "\<forall>c \<in> set cs. legal_cmd c" and "length junk = 256"
    and "length (encode (map meaning cs)) \<le> length code"
  shows "mipi_parse_init_code junk (Some (script_text cs)) code v =
    Some (encode (map meaning cs) @ drop (length (encode (map meaning cs))) code)"
  by (rule parsed_scripts [OF assms])

lemma script_parsed_witness:
  "mipi_parse_init_code (replicate 256 []) (Some (script_text [Panel_cmd 0xE1 [0x7F, 2], Delay_cmd 0x1234]))
     (replicate 12 0xff) None =
   Some ([0x39, 0xE1, 2, 0x7F, 2, 0, 0, 2, 0x34, 0x12] @ replicate 2 0xff)"
  using script_parsed [of "[Panel_cmd 0xE1 [0x7F, 2], Delay_cmd 0x1234]" "replicate 256 []" "replicate 12 0xff" None]
  by (simp add: encode_def)

lemma put_commands:
  assumes "ready s" and "\<forall>c \<in> set cs. legal_cmd c"
    and "codeByte s + length (encode (map meaning cs)) \<le> length (ps_code s)"
  obtains s' where "parse_lines v (script_text cs @ t) s = parse_lines v t s'" "ready s'"
    "codeByte s' = codeByte s + length (encode (map meaning cs))"
    "ps_code s' = take (codeByte s) (ps_code s) @ encode (map meaning cs)
      @ drop (codeByte s + length (encode (map meaning cs))) (ps_code s)"
  using parse_script [OF assms(2,1,3)] by blast

text \<open>The four kinds of parts, each with the flag that says whether it may be left out.\<close>

definition parts :: "(string \<times> (burn_flags \<Rightarrow> int)) set" where
  "parts = {(''GAMMA'', gammaBurner), (''ID'', idBurner), (''VCOM'', vcomBurner), (''CODE'', codeBurner)}"

lemma part_lines:
  assumes "(m, f) \<in> parts" and "ready s"
  obtains s' where
    "parse_lines v (section_text m @ t) s = parse_lines v t s'"
    "unfiltered s' = (\<not> may_skip f v)" "\<not> may_skip f v \<longrightarrow> s' = s"
    "\<And>t. parse_lines v (section_text (m @ '' END'') @ t) s' = parse_lines v t s"
    "\<not> may_skip f v \<longrightarrow> (\<forall>r t. ready r \<longrightarrow> parse_lines v (section_text (m @ '' END'') @ t) r = parse_lines v t r)"
proof
  let ?s' = "section_line v (section_text m) s"
  have m: "length m < 90" "CHR 0x0A \<notin> set m" "NUL \<notin> set m"
    using assms(1) by (auto simp: parts_def NUL_def)
  have e: "section_line v (section_text (m @ '' END'')) ?s' = s"
    "\<not> may_skip f v \<Longrightarrow> ready r \<Longrightarrow> section_line v (section_text (m @ '' END'')) r = r" for r
    using assms by (auto simp: parts_def section_line_texts ready_def unfiltered_def)
  show "parse_lines v (section_text m @ t) s = parse_lines v t ?s'"
    using m by (intro parse_section_line) auto
  have p: "parse_lines v (section_text (m @ '' END'') @ t) r
      = parse_lines v t (section_line v (section_text (m @ '' END'')) r)" for r t
    using m by (intro parse_section_line) (auto simp: NUL_def)
  show "parse_lines v (section_text (m @ '' END'') @ t) ?s' = parse_lines v t s" for t
    by (simp only: p e)
  show "\<not> may_skip f v \<longrightarrow> (\<forall>r t. ready r \<longrightarrow> parse_lines v (section_text (m @ '' END'') @ t) r = parse_lines v t r)"
    by (simp add: p e(2))
  show "unfiltered ?s' = (\<not> may_skip f v)"
    "\<not> may_skip f v \<longrightarrow> ?s' = s"
    using assms by (auto simp: parts_def section_line_texts ready_def unfiltered_def)
qed

lemma fresh_ready: "length junk = 256 \<Longrightarrow> ready (fresh_script junk code)"
  by (simp add: ready_def unfiltered_def fresh_script_def)

lemma encode_nil: "encode [] = []"
  by (simp add: encode_def)

lemma encode_append: "encode (xs @ ys) = encode xs @ encode ys"
  by (simp add: encode_def)

text \<open>A script with a part in it, up to where the part ends.\<close>

lemma parse_part:
  assumes "(m, f) \<in> parts" and "ready s" and "\<forall>c \<in> set b. legal_cmd c"
    and "codeByte s + length (encode (map meaning b)) \<le> length (ps_code s)"
  obtains s' where
    "parse_lines v (section_text m @ script_text b @ section_text (m @ '' END'') @ t) s = parse_lines v t s'"
    "ready s'" "codeByte s' = codeByte s + length (encode (map meaning (if may_skip f v then [] else b)))"
    "ps_code s' = take (codeByte s) (ps_code s) @ encode (map meaning (if may_skip f v then [] else b))
      @ drop (codeByte s + length (encode (map meaning (if may_skip f v then [] else b)))) (ps_code s)"
proof -
  obtain s1 where s1: "parse_lines v (section_text m @ script_text b @ section_text (m @ '' END'') @ t) s
      = parse_lines v (script_text b @ section_text (m @ '' END'') @ t) s1"
    "unfiltered s1 = (\<not> may_skip f v)" "\<not> may_skip f v \<longrightarrow> s1 = s"
    "\<And>t. parse_lines v (section_text (m @ '' END'') @ t) s1 = parse_lines v t s"
    "\<not> may_skip f v \<longrightarrow> (\<forall>r t. ready r \<longrightarrow> parse_lines v (section_text (m @ '' END'') @ t) r = parse_lines v t r)"
    by (rule part_lines [OF assms(1,2), of v "script_text b @ section_text (m @ '' END'') @ t"]) (rule that)
  show thesis
  proof (cases "may_skip f v")
    case True
    then have "parse_lines v (script_text b @ section_text (m @ '' END'') @ t) s1 = parse_lines v t s"
      using parse_filtered [OF assms(3)] s1(2,4) by simp
    then show thesis using that [of s] s1(1) True assms(2) by (simp add: encode_def)
  next
    case False
    obtain s2 where "parse_lines v (script_text b @ section_text (m @ '' END'') @ t) s
        = parse_lines v (section_text (m @ '' END'') @ t) s2" "ready s2"
      "codeByte s2 = codeByte s + length (encode (map meaning b))"
      "ps_code s2 = take (codeByte s) (ps_code s) @ encode (map meaning b)
        @ drop (codeByte s + length (encode (map meaning b))) (ps_code s)"
      using put_commands [OF assms(2,3,4)] by metis
    then show thesis using that [of s2] s1(1,3,5) False by simp
  qed
qed

text \<open>
  C35: the commands between the marks of a part are left out exactly when the information on what has
  been burned is given and has the flag of that part above zero; otherwise they are parsed like
  those before and behind them.
\<close>

theorem burned_part_left_out:
  assumes "(m, f) \<in> parts" and "\<forall>x \<in> set (a @ b @ c). legal_cmd x" and "length junk = 256"
    and "length (encode (map meaning (a @ b @ c))) \<le> length code"
  shows "mipi_parse_init_code junk (Some (script_text a @ section_text m @ script_text b
      @ section_text (m @ '' END'') @ script_text c)) code v =
    (let ms = map meaning (if may_skip f v then a @ c else a @ b @ c)
     in Some (encode ms @ drop (length (encode ms)) code))"
proof -
  let ?b = "if may_skip f v then [] else b"
  let ?s = "fresh_script junk code"
  have legal: "\<forall>x \<in> set a. legal_cmd x" "\<forall>x \<in> set b. legal_cmd x" "\<forall>x \<in> set c. legal_cmd x"
    using assms(2) by auto
  have fits: "length (encode (map meaning a)) + length (encode (map meaning b)) + length (encode (map meaning c))
      \<le> length code"
    using assms(4) by (simp add: encode_append)
  have s: "codeByte ?s = 0" "ps_code ?s = code" by (simp_all add: fresh_script_def)
  obtain s1 where s1: "parse_lines v (script_text a @ section_text m @ script_text b
      @ section_text (m @ '' END'') @ script_text c) ?s
      = parse_lines v (section_text m @ script_text b @ section_text (m @ '' END'') @ script_text c) s1"
    "ready s1" "codeByte s1 = length (encode (map meaning a))"
    "ps_code s1 = encode (map meaning a) @ drop (length (encode (map meaning a))) code"
    using put_commands [OF fresh_ready [OF assms(3)] legal(1), of code v] fits by (auto simp: s)
  obtain s2 where s2: "parse_lines v (section_text m @ script_text b @ section_text (m @ '' END'') @ script_text c) s1
      = parse_lines v (script_text c) s2"
    "ready s2" "codeByte s2 = codeByte s1 + length (encode (map meaning ?b))"
    "ps_code s2 = take (codeByte s1) (ps_code s1) @ encode (map meaning ?b)
      @ drop (codeByte s1 + length (encode (map meaning ?b))) (ps_code s1)"
    using parse_part [OF assms(1) s1(2) legal(2), of v "script_text c"] fits by (auto simp: s1(3,4))
  have c2: "ps_code s2 = encode (map meaning (a @ ?b)) @ drop (length (encode (map meaning (a @ ?b)))) code"
    "codeByte s2 = length (encode (map meaning (a @ ?b)))"
    unfolding s2(3,4) s1(3,4) by (simp_all add: encode_append ac_simps)
  have fits2: "codeByte s2 + length (encode (map meaning c)) \<le> length (ps_code s2)"
    using fits unfolding c2 by (cases "may_skip f v") (simp_all add: encode_append encode_nil)
  obtain s3 where s3: "parse_lines v (script_text c @ []) s2 = parse_lines v [] s3"
    "ps_code s3 = take (codeByte s2) (ps_code s2) @ encode (map meaning c)
      @ drop (codeByte s2 + length (encode (map meaning c))) (ps_code s2)"
    using put_commands [OF s2(2) legal(3) fits2] by metis
  have "ps_code s3 = encode (map meaning (a @ ?b @ c)) @ drop (length (encode (map meaning (a @ ?b @ c)))) code"
    unfolding s3(2) c2 by (simp add: encode_append ac_simps)
  then show ?thesis
    using s1(1) s2(1) s3(1) by (simp add: mipi_parse_init_code_def fresh_script_def [symmetric] Let_def)
qed

lemma burned_part_left_out_witness:
  "mipi_parse_init_code (replicate 256 []) (Some (script_text [Panel_cmd 0x11 []] @ section_text ''ID''
      @ script_text [Panel_cmd 0xD0 [7]] @ section_text (''ID'' @ '' END'') @ script_text [Reset_cmd]))
     (replicate 12 0xff) (Some \<lparr>gammaBurner = 0, idBurner = 1, vcomBurner = 0, codeBurner = 0\<rparr>) =
   Some ([0x05, 0x11, 0, 0, 0xF7, 0] @ replicate 6 0xff)"
  using burned_part_left_out [of "''ID''" idBurner "[Panel_cmd 0x11 []]" "[Panel_cmd 0xD0 [7]]" "[Reset_cmd]"
      "replicate 256 []" "replicate 12 0xff" "Some \<lparr>gammaBurner = 0, idBurner = 1, vcomBurner = 0, codeBurner = 0\<rparr>"]
  by (simp add: parts_def may_skip_def encode_def)

text \<open>
  C36: a script from the network is parsed to its commands, which are then carried out on channel 1
  and, all of them again, on channel 2; the values of a flicker request are reported after each.
\<close>

theorem script_is_carried_out_twice:
  assumes "\<forall>c \<in> set cs. legal_cmd c \<and> good_cmd (meaning c)" and "length cs \<le> MAX_MIPI_CODE_LEN"
    and "length (encode (map meaning cs)) + 3 \<le> MAX_MIPI_CODE_LEN"
    and "length junk_dst = 256" and "length junk1 = 250" and "length junk2 = 250"
  shows "\<exists>s'. mipi_worked (Some (script_text cs)) junk_dst junk1 junk2 s = Some (0, s') \<and>
    sc_code s' = encode (map meaning cs) @ replicate (MAX_MIPI_CODE_LEN - length (encode (map meaning cs))) 0xff \<and>
    sc_bus s' = report_flick s (run_cmds 2 (map meaning cs) (report_flick s (run_cmds 1 (map meaning cs) (sc_bus s))))"
proof -
  let ?ms = "map meaning cs"
  let ?rest = "replicate (MAX_MIPI_CODE_LEN - length (encode ?ms)) (0xff :: u8)"
  let ?s = "s\<lparr>sc_code := encode ?ms @ ?rest\<rparr>"
  have parse: "mipi_parse_init_code junk_dst (Some (script_text cs)) (replicate MAX_MIPI_CODE_LEN 0xff) None
      = Some (encode ?ms @ ?rest)"
    using parsed_scripts [of cs junk_dst "replicate MAX_MIPI_CODE_LEN 0xff" None] assms(1,3,4) by simp
  have good: "\<forall>c \<in> set ?ms. good_cmd c" "length ?ms \<le> MAX_MIPI_CODE_LEN" "length (encode ?ms) < 65536"
    using assms(1-3) by (auto simp: MAX_MIPI_CODE_LEN_def)
  have rest: "3 \<le> length ?rest" "\<not> ?rest ! 2 \<le> 250" using assms(3) by simp_all
  obtain s1 where s1: "SendCode 1 junk1 ?s = Some s1" "sc_code s1 = encode ?ms @ ?rest"
      "curflick s1 = curflick s" "curpolar s1 = curpolar s" "sc_bus s1 = report_flick s (run_cmds 1 ?ms (sc_bus s))"
    using SendCode_cmds_state [OF _ rest good assms(5), of ?s 1] by (auto simp: report_flick_def)
  obtain s2 where s2: "SendCode 2 junk2 s1 = Some s2" "sc_code s2 = encode ?ms @ ?rest"
      "sc_bus s2 = report_flick s1 (run_cmds 2 ?ms (sc_bus s1))"
    using SendCode_cmds_state [OF s1(2) rest good assms(6), of 2] by (auto simp: s1(2))
  have "report_flick s1 b = report_flick s b" for b by (simp add: report_flick_def s1(3,4))
  then show ?thesis using s1 s2 by (simp add: mipi_worked_def parse)
qed

lemma script_is_carried_out_twice_witness:
  "\<exists>s'. mipi_worked (Some (script_text [Panel_cmd 0x11 [], Delay_cmd 120])) (replicate 256 [])
      (replicate 250 0) (replicate 250 0) (idle_send []) = Some (0, s') \<and>
    sc_bus s' = run_cmds 2 [(0x05, 0x11, []), (0, 0, [120, 0])]
      (run_cmds 1 [(0x05, 0x11, []), (0, 0, [120, 0])] idle_bus)"
  using script_is_carried_out_twice [of "[Panel_cmd 0x11 [], Delay_cmd 120]" "replicate 256 []" "replicate 250 0"
      "replicate 250 0" "idle_send []"]
  by (auto simp: idle_send_def encode_def report_flick_def MAX_MIPI_CODE_LEN_def)

text \<open>The text of one register is a script of one line, without the line end.\<close>

lemma unwords_data: "unwords (w # map f d) = w @ concat (map (\<lambda>b. CHR '' '' # f b) d)"
proof (induction d arbitrary: w)
  case (Cons b d)
  then show ?case by (simp add: unwords_Cons)
qed simp

lemma code2_text_words: "code2_text reg d = unwords (script_words (Panel_cmd reg d))"
  by (simp add: code2_text_def unwords_data)

text \<open>
  A register with up to 65 bytes goes through the text and the parser unchanged: the bridge leaves
  the fast mode, gets the one command of that register, and enters the fast mode again; the array of
  the initialisation code is as before.
\<close>

theorem register_text_sent:
  assumes "length d \<le> 65" and "length junk_dst = 256" and "length junk = 250"
  shows "\<exists>s'. mipi_send_code2 channel reg d (length d) junk_dst junk s = Some s' \<and> sc_code s' = sc_code s \<and>
    sc_bus s' = mipi_to_hs_mode channel (report_flick s
      (cmd_effect channel (if d = [] then 0x05 else 0x39, reg, d) (mipi_to_lp_mode channel (sc_bus s))))"
proof -
  let ?c = "Panel_cmd reg d" and ?m = "meaning (Panel_cmd reg d)"
  let ?rest = "replicate (4096 - length (encode_cmd ?m)) (0xff :: u8)"
  have legal: "legal_cmd ?c" using assms(1) by simp
  note w = script_words_size [OF legal]
  let ?f = "fresh_script junk_dst (replicate 4096 0xff)"
  have n: "length (encode_cmd ?m) \<le> 68" using assms(1) by simp
  let ?d = "script_words ?c @ drop (length (script_words ?c)) junk_dst"
  have "parse_lines None (code2_text reg d) ?f =
      script_line (length (script_words ?c)) (?f\<lparr>ps_dst := ?d\<rparr>)"
    using parse_lines_words(2) [OF _ script_words_clean [of ?c], of ?f None] w assms(2)
    by (simp add: code2_text_words fresh_script_def unfiltered_def)
  also have "\<dots> = store_cmd ?c (?f\<lparr>ps_dst := ?d\<rparr>)"
    by (rule script_line_cmd [OF legal]) simp
  also have "map_option ps_code \<dots> = Some (encode [?m] @ ?rest)"
    using put_code_ok [of "?f\<lparr>ps_dst := ?d\<rparr>" "encode_cmd ?m"] n
    by (simp add: store_cmd_def fresh_script_def encode_def)
  finally have parse: "mipi_parse_init_code junk_dst (Some (code2_text reg d)) (replicate 4096 0xff) None
      = Some (encode [?m] @ ?rest)"
    by (simp add: mipi_parse_init_code_def fresh_script_def)
  let ?s = "(on_bus (mipi_to_lp_mode channel) s)\<lparr>sc_code := encode [?m] @ ?rest\<rparr>"
  have rest: "3 \<le> length ?rest" "\<not> ?rest ! 2 \<le> 250" using n by simp_all
  have good: "\<forall>c \<in> set [?m]. good_cmd c" "length [?m] \<le> MAX_MIPI_CODE_LEN" "length (encode [?m]) < 65536"
    using assms(1) n by (auto simp: MAX_MIPI_CODE_LEN_def encode_def Suc_le_eq)
  obtain s1 where "SendCode channel junk ?s = Some s1"
      "sc_bus s1 = report_flick ?s (run_cmds channel [?m] (sc_bus ?s))"
    using SendCode_cmds_state [OF _ rest good assms(3), of ?s channel] by auto
  moreover have "length (code2_text reg d) < 4096" using w by (simp add: code2_text_words)
  ultimately show ?thesis
    using parse
    by (simp add: mipi_send_code2_def mem_read_def Let_def on_bus_def report_flick_def run_cmds_def)
qed

lemma register_text_sent_witness:
  "\<exists>s'. mipi_send_code2 1 0xE0 [1, 0xAB] 2 (replicate 256 []) (replicate 250 0) (idle_send []) = Some s' \<and>
    sc_bus s' = mipi_to_hs_mode 1 (cmd_effect 1 (0x39, 0xE0, [1, 0xAB]) (mipi_to_lp_mode 1 idle_bus))"
  using register_text_sent [of "[1, 0xAB]" "replicate 256 []" "replicate 250 0" 1 "0xE0" "idle_send []"]
  by (auto simp: idle_send_def report_flick_def numeral_2_eq_2)

end
