(* ===== verification/SpiBus.thy ===== *)
theory SpiBus
  imports MipiScript Jd9367
begin

text \<open>
  The lines to the bridges, \<^verbatim>\<open>hw/spi/hi_unf_spi.c\<close> and \<^verbatim>\<open>hw/gpio/hi_unf_gpio.c\<close>: two buses with
  two bridges each, which are selected by pins that are low while a message is on the bus. What
  the theory \<open>Ssd2828\<close> has as one event, a write on a channel, is here the sequence of pin
  changes and messages that carries it out.
\<close>

section \<open>The lines\<close>

text \<open>
  The steps a transfer is made of. A message is heard on a bus by whatever is selected there; its
  result and what is read are given by the devices.
\<close>

datatype spi_step = Set_pin nat bool | Message nat "u8 list"

record spi_state =
  pins :: "nat \<Rightarrow> bool"
  wire :: "(nat \<times> nat list \<times> u8 list) list"

definition MIPI1_CS_PIN :: nat where "MIPI1_CS_PIN = 90"
definition MIPI2_CS_PIN :: nat where "MIPI2_CS_PIN = 91"
definition MIPI_SP6_CS_PIN :: nat where "MIPI_SP6_CS_PIN = 92"
definition MIPI3_CS_PIN :: nat where "MIPI3_CS_PIN = 78"
definition MIPI4_CS_PIN :: nat where "MIPI4_CS_PIN = 79"
definition TTL_MCU_CS_PIN :: nat where "TTL_MCU_CS_PIN = 80"
definition TTL_SP6_CS_PIN :: nat where "TTL_SP6_CS_PIN = 81"

lemmas cs_pins = MIPI1_CS_PIN_def MIPI2_CS_PIN_def MIPI_SP6_CS_PIN_def MIPI3_CS_PIN_def MIPI4_CS_PIN_def
  TTL_MCU_CS_PIN_def TTL_SP6_CS_PIN_def

definition bus_pins :: "nat \<Rightarrow> nat list" where
  "bus_pins bus = (if bus = 1 then [MIPI1_CS_PIN, MIPI2_CS_PIN, MIPI_SP6_CS_PIN]
     else [MIPI3_CS_PIN, MIPI4_CS_PIN, TTL_MCU_CS_PIN, TTL_SP6_CS_PIN])"

text \<open>\<^verbatim>\<open>gpio_set_output_value\<close> hands the pin to the driver in a byte.\<close>

definition gpio_set_output_value :: "nat \<Rightarrow> bool \<Rightarrow> spi_state \<Rightarrow> spi_state" where
  "gpio_set_output_value pin value s = s\<lparr>pins := (pins s)(pin mod 256 := value)\<rparr>"

definition spi_message :: "nat \<Rightarrow> u8 list \<Rightarrow> spi_state \<Rightarrow> spi_state" where
  "spi_message bus tx s = s\<lparr>wire := wire s @ [(bus, filter (\<lambda>p. \<not> pins s p) (bus_pins bus), tx)]\<rparr>"

fun run_step :: "spi_step \<Rightarrow> spi_state \<Rightarrow> spi_state" where
  "run_step (Set_pin n v) s = gpio_set_output_value n v s"
| "run_step (Message bus tx) s = spi_message bus tx s"

definition spi_run :: "spi_step list \<Rightarrow> spi_state \<Rightarrow> spi_state" where
  "spi_run steps s = fold run_step steps s"

section \<open>Channels\<close>

definition SPI1_CS_MIPI1 :: int where "SPI1_CS_MIPI1 = 0x01"
definition SPI1_CS_MIPI2 :: int where "SPI1_CS_MIPI2 = 0x02"
definition SPI1_CS_ALL :: int where "SPI1_CS_ALL = 0x0F"
definition SPI2_CS_MIPI3 :: int where "SPI2_CS_MIPI3 = 0x03"
definition SPI2_CS_MIPI4 :: int where "SPI2_CS_MIPI4 = 0x04"
definition SPI2_CS_ALL :: int where "SPI2_CS_ALL = 0xF0"

lemmas spi_channels = SPI1_CS_MIPI1_def SPI1_CS_MIPI2_def SPI1_CS_ALL_def SPI2_CS_MIPI3_def SPI2_CS_MIPI4_def
  SPI2_CS_ALL_def SPI_ALL_CS_def

text \<open>One bridge: its neighbour on the bus is deselected first.\<close>

definition one_bridge :: "nat \<Rightarrow> nat \<Rightarrow> nat \<Rightarrow> u8 list \<Rightarrow> spi_step list" where
  "one_bridge bus neighbour pin tx = [Set_pin neighbour True, Set_pin pin False, Message bus tx, Set_pin pin True]"

definition both_bridges :: "nat \<Rightarrow> nat \<Rightarrow> nat \<Rightarrow> u8 list \<Rightarrow> spi_step list" where
  "both_bridges bus p q tx = [Set_pin p False, Set_pin q False, Message bus tx, Set_pin p True, Set_pin q True]"

definition write_steps :: "int \<Rightarrow> u8 list \<Rightarrow> spi_step list" where
  "write_steps spiNo tx =
     (if spiNo = SPI1_CS_MIPI1 then one_bridge 1 MIPI2_CS_PIN MIPI1_CS_PIN tx
      else if spiNo = SPI1_CS_MIPI2 then one_bridge 1 MIPI1_CS_PIN MIPI2_CS_PIN tx
      else if spiNo = SPI1_CS_ALL then both_bridges 1 MIPI1_CS_PIN MIPI2_CS_PIN tx
      else if spiNo = SPI2_CS_MIPI3 then one_bridge 2 MIPI4_CS_PIN MIPI3_CS_PIN tx
      else if spiNo = SPI2_CS_MIPI4 then one_bridge 2 MIPI3_CS_PIN MIPI4_CS_PIN tx
      else if spiNo = SPI2_CS_ALL then both_bridges 2 MIPI3_CS_PIN MIPI4_CS_PIN tx
      else if spiNo = SPI_ALL_CS then both_bridges 1 MIPI1_CS_PIN MIPI2_CS_PIN tx @ both_bridges 2 MIPI3_CS_PIN MIPI4_CS_PIN tx
      else [])"

definition read_steps :: "int \<Rightarrow> u8 list \<Rightarrow> spi_step list" where
  "read_steps spiNo tx =
     (if spiNo = SPI1_CS_MIPI1 then one_bridge 1 MIPI2_CS_PIN MIPI1_CS_PIN tx
      else if spiNo = SPI1_CS_MIPI2 then one_bridge 1 MIPI1_CS_PIN MIPI2_CS_PIN tx
      else if spiNo = SPI2_CS_MIPI3 then one_bridge 2 MIPI4_CS_PIN MIPI3_CS_PIN tx
      else if spiNo = SPI2_CS_MIPI4 then one_bridge 2 MIPI3_CS_PIN MIPI4_CS_PIN tx
      else [])"

text \<open>
  \<open>rets\<close> are the results of the messages; only the last one counts. On a channel that is not one of
  the cases no message is sent, and the variable that is tested was never set.
\<close>

definition HI_UNF_SPI_Write :: "int \<Rightarrow> u8 list \<Rightarrow> int list \<Rightarrow> spi_state \<Rightarrow> (int \<times> spi_state) option" where
  "HI_UNF_SPI_Write spiNo tx rets s =
     (if write_steps spiNo tx = [] \<or> rets = [] then None
      else Some (if last rets < 1 then -1 else 0, spi_run (write_steps spiNo tx) s))"

definition HI_UNF_SPI_Read :: "int \<Rightarrow> u8 list \<Rightarrow> int list \<Rightarrow> spi_state \<Rightarrow> (int \<times> spi_state) option" where
  "HI_UNF_SPI_Read spiNo tx rets s =
     (if read_steps spiNo tx = [] \<or> rets = [] then None
      else Some (if last rets < 1 then -1 else 0, spi_run (read_steps spiNo tx) s))"

definition HI_UNF_SPI_Lock :: "int \<Rightarrow> spi_state \<Rightarrow> int \<times> spi_state" where
  "HI_UNF_SPI_Lock spiNo s = (0, s)"

definition HI_UNF_SPI_UnLock :: "int \<Rightarrow> spi_state \<Rightarrow> int \<times> spi_state" where
  "HI_UNF_SPI_UnLock spiNo s = (0, s)"

text \<open>
  Opening a device: the descriptor, and the results of the six settings, each of which ends it. The
  descriptor is not closed then.
\<close>

definition spi_open :: "int \<Rightarrow> int list \<Rightarrow> int" where
  "spi_open fd rets = (if fd < 0 then -1 else if -1 \<in> set (take 6 rets) then -1 else fd)"

definition HI_UNF_SPI_Init :: "int \<times> int list \<Rightarrow> int \<times> int list \<Rightarrow> spi_state \<Rightarrow> int \<times> int \<times> spi_state" where
  "HI_UNF_SPI_Init dev1 dev2 s =
     (let s = fold (\<lambda>p. gpio_set_output_value p True) [MIPI1_CS_PIN, MIPI2_CS_PIN, MIPI_SP6_CS_PIN,
        MIPI3_CS_PIN, MIPI4_CS_PIN, TTL_MCU_CS_PIN, TTL_SP6_CS_PIN] s
      in (spi_open (fst dev1) (snd dev1), spi_open (fst dev2) (snd dev2), s))"

text \<open>
  The Spartan-6 on the first bus, \<^verbatim>\<open>hw/spi/spi_sp6.c\<close>: what the program calls of that file. A
  register is written with one message and read with one.
\<close>

definition sp6_cs_select :: "nat \<Rightarrow> spi_step" where "sp6_cs_select pin = Set_pin pin False"
definition sp6_cs_deselect :: "nat \<Rightarrow> spi_step" where "sp6_cs_deselect pin = Set_pin pin True"

definition mipi_cmd_init :: "spi_step list" where
  "mipi_cmd_init = map sp6_cs_deselect [MIPI1_CS_PIN, MIPI2_CS_PIN, MIPI_SP6_CS_PIN]"

definition ttl_sp6_read_reg :: "u8 \<Rightarrow> spi_step list" where
  "ttl_sp6_read_reg reg =
     [sp6_cs_select MIPI_SP6_CS_PIN, Message 1 [0x78, reg, 0x00], sp6_cs_deselect MIPI_SP6_CS_PIN]"

definition ttl_sp6_write_reg :: "u8 \<Rightarrow> u8 \<Rightarrow> spi_step list" where
  "ttl_sp6_write_reg reg data =
     [sp6_cs_select MIPI_SP6_CS_PIN, Message 1 [0x70, reg, data], sp6_cs_deselect MIPI_SP6_CS_PIN]"

section \<open>The events of the bridges\<close>

text \<open>
  The steps behind an event of theory \<open>Ssd2828\<close>. Opening a pin and its direction do nothing; the
  event of a reset stands for \<^verbatim>\<open>mipi_gpio_reset\<close>.
\<close>

definition reset_steps :: "nat \<Rightarrow> spi_step list" where
  "reset_steps n = (let (p, q) = (if n = 0 then (74, 10) else (75, 11)) in
     [Set_pin p False, Set_pin p True, Set_pin q False, Set_pin q True, Set_pin q False, Set_pin q True])"

fun event_steps :: "bus_event \<Rightarrow> spi_step list" where
  "event_steps (Spi_write c tx) = write_steps c tx"
| "event_steps (Spi_read c tx) = read_steps c tx"
| "event_steps (Gpio_write n v) = [Set_pin n v]"
| "event_steps (Gpio_reset n) = reset_steps n"
| "event_steps (Usleep n) = []"
| "event_steps (Gpio_open n) = []"
| "event_steps (Gpio_output n) = []"
| "event_steps (Show_rgb r g b) = []"
| "event_steps (Reback_flick x y) = []"

definition on_wire :: "bus_event list \<Rightarrow> spi_state \<Rightarrow> spi_state" where
  "on_wire es s = spi_run (concat (map event_steps es)) s"

lemma reset_events:
  "concat (map event_steps (drop (length (bus_trace b)) (bus_trace (mipi_gpio_reset (int n) b)))) = reset_steps n"
  by (cases "n = 0") (simp_all add: mipi_gpio_reset_def pulse_def emit_def reset_steps_def)

section \<open>Who hears what\<close>

text \<open>The bridges that should hear an event, by their pins.\<close>

definition bridges_of :: "int \<Rightarrow> (nat \<times> nat list) list" where
  "bridges_of c =
     (if c = SPI1_CS_MIPI1 then [(1, [MIPI1_CS_PIN])]
      else if c = SPI1_CS_MIPI2 then [(1, [MIPI2_CS_PIN])]
      else if c = SPI1_CS_ALL then [(1, [MIPI1_CS_PIN, MIPI2_CS_PIN])]
      else if c = SPI2_CS_MIPI3 then [(2, [MIPI3_CS_PIN])]
      else if c = SPI2_CS_MIPI4 then [(2, [MIPI4_CS_PIN])]
      else if c = SPI2_CS_ALL then [(2, [MIPI3_CS_PIN, MIPI4_CS_PIN])]
      else if c = SPI_ALL_CS then [(1, [MIPI1_CS_PIN, MIPI2_CS_PIN]), (2, [MIPI3_CS_PIN, MIPI4_CS_PIN])]
      else [])"

definition should_hear :: "int \<Rightarrow> u8 list \<Rightarrow> (nat \<times> nat list \<times> u8 list) list" where
  "should_hear c tx = map (\<lambda>(bus, ps). (bus, ps, tx)) (bridges_of c)"

fun event_heard :: "bus_event \<Rightarrow> (nat \<times> nat list \<times> u8 list) list" where
  "event_heard (Spi_write c tx) = should_hear c tx"
| "event_heard (Spi_read c tx) = (if c \<in> {1, 2, 3, 4} then should_hear c tx else [])"
| "event_heard e = []"

text \<open>An event that leaves the pins of the buses alone.\<close>

fun tame :: "bus_event \<Rightarrow> bool" where
  "tame (Gpio_write n v) \<longleftrightarrow> n mod 256 \<notin> set (bus_pins 1) \<union> set (bus_pins 2)"
| "tame e \<longleftrightarrow> True"

definition deselected :: "spi_state \<Rightarrow> bool" where
  "deselected s \<longleftrightarrow> (\<forall>p \<in> set (bus_pins 1) \<union> set (bus_pins 2). pins s p)"

lemma write_heard:
  "deselected s \<Longrightarrow> deselected (spi_run (write_steps c tx) s)
     \<and> wire (spi_run (write_steps c tx) s) = wire s @ should_hear c tx"
  by (simp add: write_steps_def spi_run_def one_bridge_def both_bridges_def gpio_set_output_value_def
      spi_message_def deselected_def should_hear_def bridges_of_def bus_pins_def cs_pins spi_channels)

lemma read_heard:
  "deselected s \<Longrightarrow> deselected (spi_run (read_steps c tx) s)
     \<and> wire (spi_run (read_steps c tx) s) = wire s @ event_heard (Spi_read c tx)"
  by (simp add: read_steps_def spi_run_def one_bridge_def gpio_set_output_value_def
      spi_message_def deselected_def should_hear_def bridges_of_def bus_pins_def cs_pins spi_channels)

lemma event_law:
  assumes "deselected s" and "tame e"
  shows "deselected (spi_run (event_steps e) s) \<and> wire (spi_run (event_steps e) s) = wire s @ event_heard e"
  using assms write_heard [OF assms(1)] read_heard [OF assms(1)]
  by (cases e) (auto simp: spi_run_def reset_steps_def gpio_set_output_value_def deselected_def bus_pins_def cs_pins)

lemma events_law:
  assumes "deselected s" and "list_all tame es"
  shows "deselected (on_wire es s) \<and> wire (on_wire es s) = wire s @ concat (map event_heard es)"
  using assms
proof (induction es arbitrary: s)
  case (Cons e es)
  have "on_wire (e # es) s = on_wire es (spi_run (event_steps e) s)"
    by (simp add: on_wire_def spi_run_def)
  then show ?case using Cons event_law [of s e] by simp
qed (simp add: on_wire_def spi_run_def)

text \<open>
  C37: each transfer is heard by the bridges of its channel and by nothing else. After the lines were
  set up, whatever the bridges are sent, read and reset, the messages on the two buses are those of the
  transfers, in their order, every one while exactly the chip selects of its channel are low, and at
  the end no chip is selected.
\<close>

theorem right_bridges_hear:
  assumes "list_all tame es" and "HI_UNF_SPI_Init dev1 dev2 s0 = (h1, h2, s)"
  shows "wire (on_wire es s) = wire s0 @ concat (map event_heard es) \<and> deselected (on_wire es s)"
proof -
  have "deselected s" "wire s = wire s0"
    using assms(2)
    by (auto simp: HI_UNF_SPI_Init_def gpio_set_output_value_def deselected_def bus_pins_def cs_pins)
  then show ?thesis using events_law [OF _ assms(1)] by simp
qed

definition idle_lines :: spi_state where
  "idle_lines = \<lparr>pins = (\<lambda>_. False), wire = []\<rparr>"

lemma right_bridges_hear_witness:
  "wire (on_wire [Spi_write 4 [0x70, 0, 0xB7], Gpio_write 14 True, Spi_write 0xFF [0x72, 3, 0x40]]
     (snd (snd (HI_UNF_SPI_Init (3, replicate 6 0) (4, replicate 6 0) idle_lines)))) =
   [(2, [79], [0x70, 0, 0xB7]), (1, [90, 91], [0x72, 3, 0x40]), (2, [78, 79], [0x72, 3, 0x40])]"
  using right_bridges_hear [of "[Spi_write 4 [0x70, 0, 0xB7], Gpio_write 14 True, Spi_write 0xFF [0x72, 3, 0x40]]"
      "(3, replicate 6 0)" "(4, replicate 6 0)" idle_lines "fst (HI_UNF_SPI_Init (3, replicate 6 0) (4, replicate 6 0) idle_lines)"
      "fst (snd (HI_UNF_SPI_Init (3, replicate 6 0) (4, replicate 6 0) idle_lines))"
      "snd (snd (HI_UNF_SPI_Init (3, replicate 6 0) (4, replicate 6 0) idle_lines))"]
  by (simp add: bus_pins_def cs_pins spi_channels idle_lines_def should_hear_def bridges_of_def)

text \<open>The Spartan-6 is heard by nothing else either.\<close>

lemma sp6_heard:
  assumes "deselected s" and "steps \<in> {ttl_sp6_read_reg reg, ttl_sp6_write_reg reg x}"
  shows "deselected (spi_run steps s) \<and> (\<exists>tx. wire (spi_run steps s) = wire s @ [(1, [MIPI_SP6_CS_PIN], tx)])"
  using assms
  by (auto simp: ttl_sp6_read_reg_def ttl_sp6_write_reg_def sp6_cs_select_def sp6_cs_deselect_def spi_run_def
      gpio_set_output_value_def spi_message_def deselected_def bus_pins_def cs_pins)

lemma on_channel_tame: "on_channel c e \<Longrightarrow> tame e"
  by (cases e) (auto simp: on_channel_def bus_pins_def cs_pins split: if_splits)

lemma event_bridge:
  assumes "on_channel mc e" and "(bus, sel, tx) \<in> set (event_heard e)" and "mc \<in> {1, 2, 3, 4}"
  shows "[(bus, sel)] = bridges_of mc"
proof -
  have "event_heard e = [] \<or> (\<exists>t. event_heard e = should_hear mc t)"
    using assms(1) by (cases e) (auto simp: on_channel_def)
  then show ?thesis using assms(2,3) by (auto simp: should_hear_def bridges_of_def spi_channels)
qed

text \<open>
  C38: a request to the panel chip is heard by the bridge of its channel only. After any requests,
  each of the twenty requests of the manager with the JD9367 on one of the four channels returns, and
  every message that its own commands put on the buses is heard with just the chip select of that
  channel low. Burning an identifier on a bound channel is the one that does more: its own commands
  are exactly its script, heard by that bridge alone, and then it switches the whole display off
  and on, bridges of the other panels included.
\<close>

theorem request_heard_by_own_bridge:
  assumes "reach jd_start jd_step w" and "jd_managed m" and "valid_request rq"
    and "mc \<in> {1, 2, 3, 4}" and "deselected s"
  shows "\<exists>v r v' b es ts. w = Some v \<and> serve_request rq mc m w = Some (r, Some v') \<and>
    jw_bus v' = (case rq of
       Rq_burn_id ids ptn \<Rightarrow> if bound m mc then jw_shutON v True ptn (jw_shutON v False ptn b) else b
     | _ \<Rightarrow> b) \<and>
    bus_trace b = bus_trace (jw_bus v) @ es \<and>
    wire (on_wire es s) = wire s @ ts \<and> deselected (on_wire es s) \<and>
    (\<forall>(bus, sel, tx) \<in> set ts. [(bus, sel)] = bridges_of mc) \<and>
    (\<forall>ids ptn. rq = Rq_burn_id ids ptn \<and> bound m mc \<longrightarrow>
       b = play mc (id_script (ids ! 0) (ids ! 1) (ids ! 2)) (jw_bus v))"
proof -
  obtain r w' where s: "serve_request rq mc m w = Some (r, w')"
    using request_returns [OF assms(2)] by blast
  obtain v v' b es where v: "w = Some v" "serve_request rq mc m w = Some (r, Some v')"
      "jw_bus v' = display_restart rq mc m v b" "bus_trace b = bus_trace (jw_bus v) @ es"
      "\<forall>e \<in> set es. on_channel mc e"
      "\<forall>ids ptn. rq = Rq_burn_id ids ptn \<and> bound m mc \<longrightarrow>
         b = play mc (id_script (ids ! 0) (ids ! 1) (ids ! 2)) (jw_bus v)"
    using request_shape [OF assms(2,3) jd_sys.reach_inv [OF assms(1)] s] s unfolding only_on_def runs_def by blast
  have "list_all tame es" using v(5) on_channel_tame by (auto simp: list_all_iff)
  then have law: "deselected (on_wire es s)" "wire (on_wire es s) = wire s @ concat (map event_heard es)"
    using events_law [OF assms(5)] by simp_all
  have own: "\<forall>(bus, sel, tx) \<in> set (concat (map event_heard es)). [(bus, sel)] = bridges_of mc"
    using event_bridge [OF _ _ assms(4)] v(5) by fastforce
  have end_bus: "jw_bus v' = (case rq of
       Rq_burn_id ids ptn \<Rightarrow> if bound m mc then jw_shutON v True ptn (jw_shutON v False ptn b) else b
     | _ \<Rightarrow> b)" using v(3) by (cases rq) simp_all
  show ?thesis
    by (intro exI conjI) (rule v(1), rule v(2), rule end_bus, rule v(4), rule law(2), rule law(1), rule own, rule v(6))
qed

definition ready_lines :: spi_state where
  "ready_lines = \<lparr>pins = (\<lambda>_. True), wire = []\<rparr>"

lemma request_heard_by_own_bridge_witness:
  "\<exists>r v' es ts. serve_request (Rq_burn_id [1, 2, 3] 0) 4 demo_jd_mgr (Some demo_jd) = Some (r, Some v') \<and>
     bus_trace (jw_bus v') = bus_trace (jw_bus demo_jd) @ es \<and> wire (on_wire es ready_lines) = ts \<and>
     (\<forall>(bus, sel, tx) \<in> set ts. (bus, sel) = (2, [79])) \<and>
     jw_bus v' = play 4 (id_script 1 2 3) (jw_bus demo_jd)"
proof -
  have d: "deselected ready_lines" "wire ready_lines = []" by (simp_all add: deselected_def ready_lines_def)
  have m: "(4 :: int) \<in> {1, 2, 3, 4}" by simp
  have b: "bridges_of 4 = [(2, [79])]" by (simp add: bridges_of_def spi_channels cs_pins)
  have off: "jw_shutON demo_jd f ptn x = x" for f ptn x by (simp add: demo_jd_def)
  obtain r v' bb es ts where
      "serve_request (Rq_burn_id [1, 2, 3] 0) 4 demo_jd_mgr (Some demo_jd) = Some (r, Some v')"
      "jw_bus v' = bb" "bus_trace bb = bus_trace (jw_bus demo_jd) @ es" "wire (on_wire es ready_lines) = ts"
      "\<forall>(bus, sel, tx) \<in> set ts. [(bus, sel)] = bridges_of 4"
      "bb = play 4 (id_script 1 2 3) (jw_bus demo_jd)"
    using request_heard_by_own_bridge
        [OF demo_jd_reach demo_jd_managed(1) _ m d(1), of "Rq_burn_id [1, 2, 3] 0"] demo_jd_managed(2)
    by (auto simp: d(2) off)
  then show ?thesis unfolding b by fastforce
qed

section \<open>Two threads\<close>

text \<open>The steps on one bus.\<close>

fun on_bus_no :: "nat \<Rightarrow> spi_step \<Rightarrow> bool" where
  "on_bus_no k (Set_pin n v) \<longleftrightarrow> n mod 256 \<in> set (bus_pins k)"
| "on_bus_no k (Message bus tx) \<longleftrightarrow> bus = k"

definition heard_on :: "nat \<Rightarrow> spi_state \<Rightarrow> (nat \<times> nat list \<times> u8 list) list" where
  "heard_on k s = filter (\<lambda>(bus, _). bus = k) (wire s)"

lemma run_step_other:
  assumes "\<not> on_bus_no k x"
  shows "heard_on k (run_step x s) = heard_on k s \<and> (\<forall>p \<in> set (bus_pins k). pins (run_step x s) p = pins s p)"
  using assms by (cases x) (auto simp: gpio_set_output_value_def spi_message_def heard_on_def)

lemma run_step_cong:
  assumes "on_bus_no k x" and "heard_on k s = heard_on k t" and "\<forall>p \<in> set (bus_pins k). pins s p = pins t p"
  shows "heard_on k (run_step x s) = heard_on k (run_step x t)
    \<and> (\<forall>p \<in> set (bus_pins k). pins (run_step x s) p = pins (run_step x t) p)"
proof (cases x)
  case (Set_pin n v)
  then show ?thesis using assms by (auto simp: gpio_set_output_value_def heard_on_def)
next
  case (Message bus tx)
  have "filter (\<lambda>p. \<not> pins s p) (bus_pins k) = filter (\<lambda>p. \<not> pins t p) (bus_pins k)"
    using assms(3) by (intro filter_cong) auto
  then show ?thesis using Message assms by (simp add: spi_message_def heard_on_def)
qed

text \<open>What a bus hears depends on the steps on that bus only.\<close>

lemma bus_projection:
  assumes "heard_on k s = heard_on k t" and "\<forall>p \<in> set (bus_pins k). pins s p = pins t p"
  shows "heard_on k (spi_run xs s) = heard_on k (spi_run (filter (on_bus_no k) xs) t)"
  using assms
proof (induction xs arbitrary: s t)
  case (Cons x xs)
  show ?case
  proof (cases "on_bus_no k x")
    case True
    then show ?thesis using Cons.IH run_step_cong [OF True Cons.prems] by (simp add: spi_run_def)
  next
    case False
    have "heard_on k (spi_run xs (run_step x s)) = heard_on k (spi_run (filter (on_bus_no k) xs) t)"
      using run_step_other [OF False, of s] Cons.prems by (intro Cons.IH) simp_all
    then show ?thesis using False by (simp add: spi_run_def)
  qed
qed (simp add: spi_run_def)

lemma write_steps_bus:
  "c \<in> {1, 2, 0x0F} \<Longrightarrow> list_all (on_bus_no 1) (write_steps c tx) \<and> list_all (\<lambda>x. \<not> on_bus_no 2 x) (write_steps c tx)"
  "c \<in> {3, 4, 0xF0} \<Longrightarrow> list_all (on_bus_no 2) (write_steps c tx) \<and> list_all (\<lambda>x. \<not> on_bus_no 1 x) (write_steps c tx)"
  by (auto simp: write_steps_def one_bridge_def both_bridges_def bus_pins_def cs_pins spi_channels)

lemma filter_none: "list_all (\<lambda>x. \<not> P x) xs \<Longrightarrow> filter P xs = []"
  by (simp add: list_all_iff filter_empty_conv)

lemma filter_all: "list_all P xs \<Longrightarrow> filter P xs = xs"
  by (simp add: list_all_iff)

text \<open>
  Threads on different buses do not disturb each other. However the steps of a write on the
  first bus and of one on the second are interleaved, each bus hears what it would have heard if only
  its own write had been made.
\<close>

theorem two_buses_independent:
  assumes "c \<in> {1, 2, 0x0F}" and "d \<in> {3, 4, 0xF0}" and "zs \<in> shuffles (write_steps c a) (write_steps d b)"
  shows "heard_on 1 (spi_run zs s) = heard_on 1 (spi_run (write_steps c a) s) \<and>
    heard_on 2 (spi_run zs s) = heard_on 2 (spi_run (write_steps d b) s)"
proof -
  note w = write_steps_bus(1) [OF assms(1), of a] write_steps_bus(2) [OF assms(2), of b]
  have "filter (on_bus_no 1) zs \<in> shuffles (filter (on_bus_no 1) (write_steps c a)) (filter (on_bus_no 1) (write_steps d b))"
    "filter (on_bus_no 2) zs \<in> shuffles (filter (on_bus_no 2) (write_steps c a)) (filter (on_bus_no 2) (write_steps d b))"
    using assms(3) by (simp_all flip: filter_shuffles)
  then have "filter (on_bus_no 1) zs = write_steps c a" "filter (on_bus_no 2) zs = write_steps d b"
    using w by (simp_all add: filter_none filter_all)
  then show ?thesis using bus_projection [of 1 s s zs] bus_projection [of 2 s s zs] by simp
qed

lemma two_buses_independent_witness:
  "heard_on 1 (spi_run [Set_pin 91 True, Set_pin 78 True, Set_pin 90 False, Set_pin 79 False, Message 2 [5], Message 1 [7],
      Set_pin 90 True, Set_pin 79 True] idle_lines) = heard_on 1 (spi_run (write_steps 1 [7]) idle_lines)"
proof -
  have "[Set_pin 91 True, Set_pin 78 True, Set_pin 90 False, Set_pin 79 False, Message 2 [5], Message 1 [7],
      Set_pin 90 True, Set_pin 79 True] \<in> shuffles (write_steps 1 [7]) (write_steps 4 [5])"
    by (simp add: write_steps_def one_bridge_def cs_pins spi_channels Cons_in_shuffles_iff)
  then show ?thesis using two_buses_independent [of 1 4 _ "[7]" "[5]" idle_lines] by blast
qed

text \<open>
  C39: threads on the same bus do. The lock that a transfer is meant to be protected by does nothing,
  and the steps of a write on channel 1 and one on channel 2 can be interleaved so that the message for
  the first bridge is heard by the second and not by the first.
\<close>

theorem same_bus_race:
  "\<exists>zs \<in> shuffles (write_steps 1 a) (write_steps 2 b).
     HI_UNF_SPI_Lock c s = (0, s) \<and>
     (\<exists>sel. (1, sel, a) \<in> set (drop (length (wire s)) (wire (spi_run zs s))) \<and> 90 \<notin> set sel \<and> 91 \<in> set sel)"
proof (rule bexI)
  let ?zs = "[Set_pin 91 True, Set_pin 90 False, Set_pin 90 True, Set_pin 91 False, Message 1 a,
    Set_pin 90 True, Message 1 b, Set_pin 91 True]"
  show "?zs \<in> shuffles (write_steps 1 a) (write_steps 2 b)"
    by (simp add: write_steps_def one_bridge_def cs_pins spi_channels Cons_in_shuffles_iff)
  show "HI_UNF_SPI_Lock c s = (0, s) \<and>
     (\<exists>sel. (1, sel, a) \<in> set (drop (length (wire s)) (wire (spi_run ?zs s))) \<and> 90 \<notin> set sel \<and> 91 \<in> set sel)"
    by (auto simp: HI_UNF_SPI_Lock_def spi_run_def gpio_set_output_value_def spi_message_def bus_pins_def cs_pins)
qed

end
