(* ===== verification/PanelOn.thy ===== *)
theory PanelOn
  imports MipiScript IcManager FpgaTask PwrTask ClkGen Ca210 PackSocket
begin

text \<open>
  Opening a module and switching the panel on and off, \<^verbatim>\<open>clipg.c\<close> with \<^verbatim>\<open>mipi_working\<close> and
  \<^verbatim>\<open>mipi_close\<close> of \<^verbatim>\<open>hw/mipi/pubmipi.c\<close>: how the database, the power supply, the clock, the FPGA,
  the bridges and the chip manager are used together. A log keeps the order of what the components
  are made to do.
\<close>

section \<open>State\<close>

datatype report =
    Power_status int
  | Error_no int
  | Mipi_code "(int \<times> int \<times> u8 list) list"

datatype pg_event =
    On_bridges "bus_event list"
  | Power_message bool
  | Power_config
  | Clock_written "(u8 \<times> u8) list"
  | Fpga_request fpga_request
  | Fpga_register nat u32
  | Fpga_message fpga_message
  | Preload_started
  | Reported report

text \<open>
  Messages that were posted wait until the FPGA task takes them; \<open>pg_turns\<close> is how many it takes
  before each access that the program makes to the FPGA itself. A message that is sent waits for
  its result, and so for all before it.
\<close>

record 'w pg_state =
  pg_task :: fpga_task
  pg_posted :: "fpga_message list"
  pg_turns :: "nat list"
  pg_mgr :: "'w ic_mgr"
  pg_chips :: 'w
  pg_power :: pwr_state
  s_power_info :: pwr_cfg
  s_timing_info :: timing_info
  pg_clk :: "reg_data list"
  pg_send :: send_state
  pg_config :: ssd_config
  pg_panel :: panel_timing
  pg_probes :: ca210
  g_chip_helitai_8019 :: int
  pg_pwr_status :: int
  pg_cur_ptnId :: int
  pg_log :: "pg_event list"

text \<open>
  What is outside the program: the files, the chips it was built with, and what uninitialised memory
  holds.
\<close>

record 'w pg_env =
  cur_module :: "string option"
  file_exists :: "string \<Rightarrow> bool"
  module_files :: "string \<Rightarrow> module_db option"
  pwr_files :: "string \<Rightarrow> (string \<Rightarrow> int) option"
  tim_files :: "string \<Rightarrow> ((string \<Rightarrow> int \<Rightarrow> int) \<times> (string \<Rightarrow> string \<Rightarrow> string)) option"
  code_files :: "string \<Rightarrow> string option"
  built_chips :: "nat \<Rightarrow> 'w icm_chip option"
  junk_patterns :: "module_info list"
  junk_head :: pwr_msg_head
  junk_power :: "u8 list"
  junk_words :: "string list"
  junk_data :: "u8 list"

definition log_event :: "pg_event \<Rightarrow> 'w pg_state \<Rightarrow> 'w pg_state" where
  "log_event e s = s\<lparr>pg_log := pg_log s @ [e]\<rparr>"

section \<open>The FPGA task\<close>

definition serve_message :: "fpga_message \<Rightarrow> 'w pg_state \<Rightarrow> (int \<times> 'w pg_state) option" where
  "serve_message m s = map_option (\<lambda>(rc, _, t). (rc, log_event (Fpga_message m) (s\<lparr>pg_task := t\<rparr>)))
     (fpga_message_proc m (pg_task s))"

fun serve_posted :: "nat \<Rightarrow> 'w pg_state \<Rightarrow> 'w pg_state option" where
  "serve_posted 0 s = Some s"
| "serve_posted (Suc n) s = (case pg_posted s of [] \<Rightarrow> Some s
     | m # ms \<Rightarrow> Option.bind (serve_message m (s\<lparr>pg_posted := ms\<rparr>)) (\<lambda>(_, s). serve_posted n s))"

definition fpga_post :: "fpga_message \<Rightarrow> 'w pg_state \<Rightarrow> 'w pg_state" where
  "fpga_post m s = s\<lparr>pg_posted := pg_posted s @ [m]\<rparr>"

definition fpga_send :: "fpga_message \<Rightarrow> 'w pg_state \<Rightarrow> (int \<times> 'w pg_state) option" where
  "fpga_send m s = Option.bind (serve_posted (length (pg_posted s)) s) (serve_message m)"

definition task_turn :: "'w pg_state \<Rightarrow> 'w pg_state option" where
  "task_turn s = (case pg_turns s of [] \<Rightarrow> Some s | n # ns \<Rightarrow> serve_posted n (s\<lparr>pg_turns := ns\<rparr>))"

definition fpga_direct :: "fpga_request \<Rightarrow> 'w pg_state \<Rightarrow> 'w pg_state option" where
  "fpga_direct r s = do {
     s \<leftarrow> task_turn s;
     (_, _, f) \<leftarrow> fpga_reg_dev_ioctl r (dev (pg_task s));
     Some (log_event (Fpga_request r) (s\<lparr>pg_task := (pg_task s)\<lparr>dev := f\<rparr>\<rparr>))
   }"

definition fpga_register :: "nat \<Rightarrow> int \<Rightarrow> 'w pg_state \<Rightarrow> 'w pg_state option" where
  "fpga_register r v s = do {
     s \<leftarrow> task_turn s;
     Some (log_event (Fpga_register r (word_of_int v))
       (s\<lparr>pg_task := (pg_task s)\<lparr>dev := set_reg r (word_of_int v) (dev (pg_task s))\<rparr>\<rparr>))
   }"

definition fpga_write_reg :: "u16 \<Rightarrow> u16 \<Rightarrow> 'w pg_state \<Rightarrow> 'w pg_state option" where
  "fpga_write_reg reg val s = fpga_direct (eSET_FPGA_REG reg val) s"

definition client_pg_showPtn :: "int \<Rightarrow> 'w pg_state \<Rightarrow> 'w pg_state option" where
  "client_pg_showPtn ptnId s = do {
     (_, s) \<leftarrow> fpga_send (SET_PHOTO ptnId) s;
     Some (s\<lparr>pg_cur_ptnId := ptnId\<rparr>)
   }"

definition client_pg_readReg :: "int \<Rightarrow> 'w pg_state \<Rightarrow> (int \<times> 'w pg_state) option" where
  "client_pg_readReg regAddr s = fpga_send (READ_REG (word_of_int regAddr)) s"

definition client_pg_writeReg :: "int \<Rightarrow> int \<Rightarrow> 'w pg_state \<Rightarrow> 'w pg_state" where
  "client_pg_writeReg regAddr regValue s = fpga_post (SET_REG (word_of_int regAddr) (word_of_int regValue)) s"

definition set_fpga_text_show :: "int \<Rightarrow> int \<Rightarrow> int \<Rightarrow> int \<Rightarrow> 'w pg_state \<Rightarrow> 'w pg_state" where
  "set_fpga_text_show vcom otp ok ok2 s =
     client_pg_writeReg 0x46 ((if vcom \<noteq> 0 then 1 else 0) + (if otp \<noteq> 0 then 2 else 0)
       + (if ok \<noteq> 0 then 4 else 0) + (if ok2 \<noteq> 0 then 8 else 0)) s"

definition get_module_res :: "'w pg_state \<Rightarrow> int \<times> int" where
  "get_module_res s = (timhactivetime (s_timing_info s), timvactivetime (s_timing_info s))"

definition refresh_lcd_msg_pos :: "'w pg_state \<Rightarrow> 'w pg_state" where
  "refresh_lcd_msg_pos s = set_fpga_text_show 0 0 0 0 s"

text \<open>The cross cursors; only the last one of several stays.\<close>

definition cross_at :: "bool \<Rightarrow> u16 \<Rightarrow> u16 \<Rightarrow> cross_cursor" where
  "cross_at on x y = \<lparr>cc_enable = (if on then 1 else 0), cc_x = x, cc_y = y, wordColor = 0xFFFFFF,
     crossCursorColor = 0, RGBchang = 0, startCoordinate = 0\<rparr>"

fun client_pg_showCrossCur :: "(int \<times> int) list \<Rightarrow> 'w pg_state \<Rightarrow> 'w pg_state option" where
  "client_pg_showCrossCur [] s = Some s"
| "client_pg_showCrossCur ((x, y) # ps) s =
     Option.bind (fpga_direct (eSET_CROSSCURSOR (cross_at True (word_of_int x) (word_of_int y))) s) (client_pg_showCrossCur ps)"

definition client_pg_hideCrossCur :: "'w pg_state \<Rightarrow> 'w pg_state option" where
  "client_pg_hideCrossCur s = fpga_direct (eSET_CROSSCURSOR (cross_at False 0 0)) s"

section \<open>Opening a module\<close>

text \<open>Integers that have to fit at every step.\<close>

fun int_sum :: "int \<Rightarrow> int list \<Rightarrow> int option" where
  "int_sum a [] = Some a"
| "int_sum a (b # bs) = Option.bind (cint (a + b)) (\<lambda>s. int_sum s bs)"

definition int_div :: "int \<Rightarrow> int \<Rightarrow> int option" where
  "int_div a b = (if b = 0 then None else cint (c_div a b))"

text \<open>The times of a line and of a picture as the FPGA counts them, in half words.\<close>

type_synonym fpga_seq = "u16 \<times> u16 \<times> u16 \<times> u16 \<times> u16 \<times> u16 \<times> u16 \<times> u16"

definition timing_seq :: "timing_info \<Rightarrow> fpga_seq option" where
  "timing_seq t = do {
     s0 \<leftarrow> int_sum (timhbackporch t) [timhsyncpulsewidth t, timhactivetime t];
     T0 \<leftarrow> int_div s0 (timsignalmode t);
     T1 \<leftarrow> int_div (timhsyncpulsewidth t) (timsignalmode t);
     s2 \<leftarrow> int_sum (timhsyncpulsewidth t) [timhbackporch t];
     T2 \<leftarrow> int_div s2 (timsignalmode t);
     s3 \<leftarrow> int_sum (timhbackporch t) [timhsyncpulsewidth t, timhfrontporch t, timhactivetime t];
     T3 \<leftarrow> int_div s3 (timsignalmode t);
     T4 \<leftarrow> int_sum (timvbackporch t) [timvsyncpulsewidth t, timvactivetime t];
     T6 \<leftarrow> int_sum (timvbackporch t) [timvsyncpulsewidth t];
     T7 \<leftarrow> int_sum (timvbackporch t) [timvsyncpulsewidth t, timvfrontporch t, timvactivetime t];
     Some (word_of_int T0, word_of_int T1, word_of_int T2, word_of_int T3, word_of_int T4,
       word_of_int (timvsyncpulsewidth t), word_of_int T6, word_of_int T7)
   }"

definition pixel_clock :: "fpga_seq \<Rightarrow> int \<Rightarrow> int option" where
  "pixel_clock q freq = (case q of (T0, T1, T2, T3, T4, T5, T6, T7) \<Rightarrow> do {
     a \<leftarrow> cint (uint T3 * uint T7);
     b \<leftarrow> cint (a * freq);
     int_div b 1000
   })"

text \<open>The messages that set the form of the signal, each posted.\<close>

definition signal_messages :: "timing_info \<Rightarrow> fpga_message list" where
  "signal_messages t =
     [SET_BIT (timbit t), SET_LINK (timsignalmode t),
      SYN_SIGNAL_LEVEL (word_of_int (timhsyncpri t), word_of_int (timvsyncpri t), word_of_int (timde t)),
      SET_VESA_JEDA (word_of_int (timvesajeda t)),
      SET_LINK_MODE (word_of_int (timsignalmode t)) (word_of_int (timlink t ! 0), word_of_int (timlink t ! 1),
        word_of_int (timlink t ! 2), word_of_int (timlink t ! 3))]"

definition TST_PATH :: string where "TST_PATH = ''./cfg/tst/''"
definition INITCODE_PATH :: string where "INITCODE_PATH = ''cfg/initcode/''"
definition SYNC_FILE_ERROR :: int where "SYNC_FILE_ERROR = 0"

text \<open>
  \<^verbatim>\<open>z_parse_init_code\<close> passes a structure of zeros where a pointer is expected; its first word
  arrives as the null pointer.
\<close>

definition z_parse_init_code :: "'w pg_env \<Rightarrow> string \<Rightarrow> 'w pg_state \<Rightarrow> (int \<times> 'w pg_state) option" where
  "z_parse_init_code e name s = do {
     code \<leftarrow> mipi_parse_init_code (junk_words e) (code_files e (INITCODE_PATH @ ''/'' @ name))
       (replicate MAX_MIPI_CODE_LEN 0xff) None;
     Some (0, s\<lparr>pg_send := (pg_send s)\<lparr>sc_code := code\<rparr>\<rparr>)
   }"

text \<open>The signal of the module, once its two configurations were read.\<close>

definition set_signal :: "'w pg_state \<Rightarrow> 'w pg_state option" where
  "set_signal s = do {
     let t = s_timing_info s;
     q \<leftarrow> timing_seq t;
     clock \<leftarrow> pixel_clock q (timing_info.timclockfreq t);
     (clk, ws) \<leftarrow> clock_5338_setFreq clock (pg_clk s);
     let s = log_event (Clock_written ws) (s\<lparr>pg_clk := clk\<rparr>);
     s \<leftarrow> fpga_direct eRESET_FPGA s;
     dpClock \<leftarrow> cint (timsignalmode t * clock);
     s \<leftarrow> fpga_register 0xA4 (drop_bit 16 (dpClock AND 0xff0000)) s;
     s \<leftarrow> fpga_register 0xA5 (drop_bit 8 (dpClock AND 0x00ff00)) s;
     s \<leftarrow> fpga_register 0xA6 (dpClock AND 0xff) s;
     (_, s) \<leftarrow> fpga_send (SET_SEQ q) s;
     let s = fold fpga_post (signal_messages t) s;
     s \<leftarrow> fpga_direct (eRESET_FPGA_TEST 5000) s;
     let s = log_event Preload_started (s\<lparr>pg_task := move_ptn_destoryTask (pg_task s)\<rparr>);
     Some (refresh_lcd_msg_pos s)
   }"

definition select_chip :: "'w pg_env \<Rightarrow> 'w pg_state \<Rightarrow> 'w pg_state" where
  "select_chip e s =
     (let name = (case snd (db_module_get_chip_name (db (pg_task s))) of None \<Rightarrow> ''Unknow'' | Some n \<Rightarrow> n)
      in s\<lparr>g_chip_helitai_8019 := 0, pg_mgr := snd (ic_mgr_set_my_chip_id (built_chips e) name (pg_mgr s))\<rparr>)"

definition load_cur_module :: "'w pg_env \<Rightarrow> 'w pg_state \<Rightarrow> (int \<times> 'w pg_state) option" where
  "load_cur_module e s = (case cur_module e of None \<Rightarrow> Some (-1, s)
     | Some modelName \<Rightarrow>
         let reallyModelName = TST_PATH @ ''/'' @ modelName in
         if \<not> file_exists e reallyModelName then Some (-1, log_event (Reported (Error_no SYNC_FILE_ERROR)) s)
         else do {
           (ret, d) \<leftarrow> dbModuleInit (module_files e) (junk_patterns e) reallyModelName (db (pg_task s));
           let s = s\<lparr>pg_task := (pg_task s)\<lparr>db := d\<rparr>\<rparr>;
           if ret \<noteq> 0 then Some (-1, s)
           else let s = select_chip e s in
             case (snd (db_module_get_power_cfg_file_name d), snd (db_module_get_timing_cfg_file_name d)) of
               (Some pwr, Some tim) \<Rightarrow>
                 (case read_pwr_config (pwr_files e pwr) (s_power_info s) of (rp, p) \<Rightarrow>
                    if rp \<noteq> 0 then Some (-1, s)
                    else do {
                      let s = s\<lparr>s_power_info := p\<rparr>;
                      (rt, t) \<leftarrow> read_timging_config (tim_files e tim) (s_timing_info s);
                      if rt \<noteq> 0 then Some (-1, s)
                      else do {
                        let s = log_event Power_config (s\<lparr>s_timing_info := t,
                          pg_power := pwrSetInfo (junk_head e) (junk_power e) p (pg_power s)\<rparr>);
                        s \<leftarrow> set_signal s;
                        if timinitcodename t = [] then Some (0, s)
                        else map_option (\<lambda>(_, s). (0, s)) (z_parse_init_code e (timinitcodename t) s)
                      }
                    })
             | _ \<Rightarrow> Some (-1, s)
         })"

section \<open>The bridges\<close>

definition on_send :: "(send_state \<Rightarrow> send_state option) \<Rightarrow> 'w pg_state \<Rightarrow> 'w pg_state option" where
  "on_send f s = do {
     t \<leftarrow> f (pg_send s);
     Some (log_event (On_bridges (drop (length (bus_trace (sc_bus (pg_send s)))) (bus_trace (sc_bus t)))) (s\<lparr>pg_send := t\<rparr>))
   }"

definition on_pins :: "(bus \<Rightarrow> bus) \<Rightarrow> 'w pg_state \<Rightarrow> 'w pg_state option" where
  "on_pins f s = on_send (\<lambda>t. Some (on_bus f t)) s"

abbreviation pin_to :: "nat \<Rightarrow> bool \<Rightarrow> bus \<Rightarrow> bus" where
  "pin_to n v b \<equiv> emit (Gpio_write n v) b"

definition mipi_timing_setting :: "timing_info \<Rightarrow> panel_timing" where
  "mipi_timing_setting t = \<lparr>VsCount = word_of_int (timvsyncpulsewidth t), VBPCount = word_of_int (timvbackporch t),
     VFPCount = word_of_int (timvfrontporch t), VDPCount = word_of_int (timvactivetime t),
     HsCount = word_of_int (timhsyncpulsewidth t), HBPCount = word_of_int (timhbackporch t),
     HFPCount = word_of_int (timhfrontporch t), HDPCount = word_of_int (timhactivetime t),
     LaneNum = word_of_int (timmipilanenum t), SyncMode = word_of_int (timmipisyncmode t),
     DSIFRE = nat (mdlmipidsiclock t mod 2 ^ 32), BitNum = word_of_int (timbit t)\<rparr>"

text \<open>Reading the identity of the four bridges; what they answer is only printed.\<close>

definition read_b0 :: "bus \<Rightarrow> bus" where
  "read_b0 b = snd (ReadSSD2828Reg 4 0xb0 (snd (ReadSSD2828Reg 3 0xb0 (snd (ReadSSD2828Reg 2 0xb0
     (snd (ReadSSD2828Reg 1 0xb0 b)))))))"

text \<open>
  \<^verbatim>\<open>mipi_working\<close>: a code from the network, or else the one of the module, for which the burn
  information is not used. A panel in command mode is not configured.
\<close>

definition mipi_working ::
  "'w pg_env \<Rightarrow> timing_info \<Rightarrow> string option \<Rightarrow> burn_flags option \<Rightarrow> 'w pg_state \<Rightarrow> 'w pg_state option" where
  "mipi_working e t pMipiCode vcom_info s = do {
     let s = s\<lparr>pg_panel := mipi_timing_setting t\<rparr>;
     code \<leftarrow> (case pMipiCode of
         Some txt \<Rightarrow> mipi_parse_init_code (junk_words e) (Some txt) (replicate MAX_MIPI_CODE_LEN 0xff) vcom_info
       | None \<Rightarrow> if timinitcodename t = [] then Some (sc_code (pg_send s))
           else mipi_parse_init_code (junk_words e) (code_files e (INITCODE_PATH @ ''/'' @ timinitcodename t))
             (replicate MAX_MIPI_CODE_LEN 0xff) None);
     let s = s\<lparr>pg_send := (pg_send s)\<lparr>sc_code := code\<rparr>\<rparr>;
     s \<leftarrow> on_pins (\<lambda>b. read_b0 (mipi_gpio_reset 1 (mipi_gpio_reset 0 (setHsmode False b)))) s;
     s \<leftarrow> (if timmipicommandenable t \<noteq> 0 then Some s
          else do {
            (_, c, t') \<leftarrow> Set2828_V 0xFF (pg_panel s) (pg_config s) (junk_data e) (pg_send s);
            s \<leftarrow> on_send (\<lambda>_. Some t') s;
            Some (s\<lparr>pg_config := c\<rparr>)
          });
     (_, m, w) \<leftarrow> ic_mgr_set_mipi_channel 0 1 (pg_mgr s) (pg_chips s);
     (_, m, w) \<leftarrow> ic_mgr_set_mipi_channel 1 4 m w;
     Some (s\<lparr>pg_mgr := m, pg_chips := w\<rparr>)
   }"

definition mipi_close :: "'w pg_state \<Rightarrow> 'w pg_state option" where
  "mipi_close s = do {
     (_, m) \<leftarrow> ic_mgr_reset_mipi_channel 0 1 (pg_mgr s);
     (_, m) \<leftarrow> ic_mgr_reset_mipi_channel 1 4 m;
     on_pins (\<lambda>b. mipi_gpio_release (sendCloseCommand (setHsmode False b))) (s\<lparr>pg_mgr := m\<rparr>)
   }"

section \<open>Pins\<close>

text \<open>Pin 7 is the supply of the bridges, 9 the voltage of the signals (high: 1.8 V), 58 and 70 enable the channels.\<close>

definition dp_gpio_config :: "'w pg_state \<Rightarrow> 'w pg_state option" where
  "dp_gpio_config s = do {
     s \<leftarrow> on_pins (\<lambda>b. pin_to 11 True (pin_to 10 True (emit (Usleep 10000) (pin_to 11 False (pin_to 10 False (pin_to 7 True b)))))) s;
     s \<leftarrow> fpga_write_reg 0xa9 0x10 s;
     s \<leftarrow> fpga_write_reg 0xa9 0x12 s;
     s \<leftarrow> fpga_write_reg 0xa9 0x10 s;
     s \<leftarrow> on_pins (\<lambda>b. pin_to 58 False (pin_to 70 False b)) s;
     fpga_write_reg 0x56 0 s
   }"

definition dp_gpio_deconfig :: "'w pg_state \<Rightarrow> 'w pg_state option" where
  "dp_gpio_deconfig s = do {
     s \<leftarrow> fpga_write_reg 0xa9 0x00 s;
     s \<leftarrow> on_pins (\<lambda>b.
       let b = pin_to 75 True (pin_to 74 True (emit (Usleep 10000) (pin_to 75 False (pin_to 74 False b))));
           b = pin_to 11 True (pin_to 10 True (emit (Usleep 10000) (pin_to 11 False (pin_to 10 False b))))
       in pin_to 7 False b) s;
     s \<leftarrow> fpga_write_reg 0x56 1 s;
     on_pins (\<lambda>b. pin_to 58 True (pin_to 70 True b)) s
   }"

definition volt_v33_v18_set_to_v33 :: "'w pg_state \<Rightarrow> 'w pg_state option" where
  "volt_v33_v18_set_to_v33 s = on_pins (pin_to 9 False) s"

definition volt_v33_v18_set_to_v18 :: "'w pg_state \<Rightarrow> 'w pg_state option" where
  "volt_v33_v18_set_to_v18 s = on_pins (pin_to 9 True) s"

definition volt_v33_v18_reset :: "'w pg_state \<Rightarrow> 'w pg_state option" where
  "volt_v33_v18_reset s = volt_v33_v18_set_to_v18 s"

definition dp_gpio_set :: "bus \<Rightarrow> bus" where
  "dp_gpio_set b = set_pin 11 True (pin_to 60 False (fold (\<lambda>i. set_pin i True) [54..<73] b))"

section \<open>Switching on and off\<close>

text \<open>
  \<^verbatim>\<open>client_rebackMipiCode\<close>: the code in pieces of the greatest length of a packet, each with its
  number and the number of the last one, and a last piece for the rest, which may be empty.
\<close>

definition mipi_code_pieces :: "u8 list \<Rightarrow> (int \<times> int \<times> u8 list) list" where
  "mipi_code_pieces code =
     (let packetLen = nat getPackageMaxLen; lastNo = length code div packetLen
      in if code = [] then []
         else map (\<lambda>i. (int i, int lastNo, take packetLen (drop (i * packetLen) code))) [0..<lastNo + 1])"

definition client_rebackMipiCode :: "'w pg_state \<Rightarrow> 'w pg_state" where
  "client_rebackMipiCode s = log_event (Reported (Mipi_code (mipi_code_pieces (sc_code (pg_send s))))) s"

definition client_rebackPower :: "int \<Rightarrow> 'w pg_state \<Rightarrow> 'w pg_state" where
  "client_rebackPower powerOn s = log_event (Reported (Power_status powerOn)) s"

definition switch_power :: "bool \<Rightarrow> 'w pg_state \<Rightarrow> 'w pg_state" where
  "switch_power on s = log_event (Power_message on) (s\<lparr>pg_power := pwrSetOnOff on 1 (pg_power s)\<rparr>)"

definition io_voltage :: "'w pg_state \<Rightarrow> 'w pg_state option" where
  "io_voltage s = do {
     s \<leftarrow> volt_v33_v18_reset s;
     if check_power_min_volt_is_v1_8 (Some (s_power_info s)) \<noteq> 0
     then volt_v33_v18_set_to_v18 s else volt_v33_v18_set_to_v33 s
   }"

definition shut_on :: "'w pg_env \<Rightarrow> burn_flags option \<Rightarrow> int \<Rightarrow> 'w pg_state \<Rightarrow> 'w pg_state option" where
  "shut_on e vcom_info ptn_id s = do {
     let t = s_timing_info s;
     s \<leftarrow> (if timsignaltype t = 1 then on_pins dp_gpio_set s else Some s);
     s \<leftarrow> dp_gpio_config s;
     s \<leftarrow> io_voltage s;
     (_, s) \<leftarrow> fpga_send (fpga_show_color_picture 0 0 0) s;
     let s = client_rebackPower 1 (switch_power True s);
     let s = set_fpga_text_show 0 0 0 0 s;
     s \<leftarrow> (if timsignaltype t = 2 then map_option client_rebackMipiCode (mipi_working e t None vcom_info s) else Some s);
     s \<leftarrow> client_pg_showPtn ptn_id (s\<lparr>pg_pwr_status := 1\<rparr>);
     s \<leftarrow> (if timsignaltype t = 1 then fpga_register 0xA8 1 s else Some s);
     if timsignaltype t = 2 then fpga_register 0xA8 2 s else Some s
   }"

definition shut_off :: "'w pg_state \<Rightarrow> 'w pg_state option" where
  "shut_off s = do {
     s \<leftarrow> mipi_close s;
     s \<leftarrow> fpga_register 0xA8 0 s;
     s \<leftarrow> dp_gpio_deconfig (switch_power False s);
     Some ((client_rebackPower 0 s)\<lparr>pg_pwr_status := 0\<rparr>)
   }"

definition client_pg_shutON ::
  "'w pg_env \<Rightarrow> int \<Rightarrow> string \<Rightarrow> burn_flags option \<Rightarrow> int \<Rightarrow> 'w pg_state \<Rightarrow> 'w pg_state option" where
  "client_pg_shutON e enable pModelName vcom_info ptn_id s =
     (if enable = 1 then do {
        s \<leftarrow> (if file_exists e (TST_PATH @ ''/'' @ pModelName) then shut_on e vcom_info ptn_id s else Some s);
        (_, d) \<leftarrow> ca210_start_flick_mode 0 (pg_probes s);
        Some (s\<lparr>pg_probes := d\<rparr>)
      }
      else shut_off s)"

text \<open>Only the supply and the bridges: neither the status nor the output of the FPGA follows.\<close>

definition client_pg_mipiShutON :: "'w pg_env \<Rightarrow> int \<Rightarrow> string option \<Rightarrow> 'w pg_state \<Rightarrow> 'w pg_state option" where
  "client_pg_mipiShutON e enable pMipiCode s =
     (if enable = 1 then
        if isdbMoudlelInit (db (pg_task s)) then
          map_option client_rebackMipiCode
            (mipi_working e (s_timing_info s) pMipiCode None (client_rebackPower 1 (switch_power True s)))
        else Some s
      else map_option (\<lambda>s. client_rebackPower 0 (switch_power False s)) (mipi_close s))"

section \<open>Steps without waiting messages\<close>

lemma log_event_simps [simp]:
  "pg_log (log_event e s) = pg_log s @ [e]" "pg_task (log_event e s) = pg_task s"
  "pg_posted (log_event e s) = pg_posted s" "pg_turns (log_event e s) = pg_turns s"
  "pg_mgr (log_event e s) = pg_mgr s" "pg_chips (log_event e s) = pg_chips s"
  "pg_power (log_event e s) = pg_power s" "s_power_info (log_event e s) = s_power_info s"
  "s_timing_info (log_event e s) = s_timing_info s" "pg_clk (log_event e s) = pg_clk s"
  "pg_send (log_event e s) = pg_send s" "pg_config (log_event e s) = pg_config s"
  "pg_panel (log_event e s) = pg_panel s" "pg_probes (log_event e s) = pg_probes s"
  "pg_pwr_status (log_event e s) = pg_pwr_status s" "pg_cur_ptnId (log_event e s) = pg_cur_ptnId s"
  by (simp_all add: log_event_def)

lemma serve_none [simp]: "pg_posted s = [] \<Longrightarrow> serve_posted n s = Some s"
  by (cases n) simp_all

lemma turn_none: "pg_posted s = [] \<Longrightarrow> task_turn s = Some (s\<lparr>pg_turns := tl (pg_turns s)\<rparr>)"
  by (cases "pg_turns s") (simp_all add: task_turn_def)

lemma register_none:
  "pg_posted s = [] \<Longrightarrow> fpga_register r v s = Some (log_event (Fpga_register r (word_of_int v))
     (s\<lparr>pg_turns := tl (pg_turns s), pg_task := (pg_task s)\<lparr>dev := set_reg r (word_of_int v) (dev (pg_task s))\<rparr>\<rparr>))"
  by (simp add: fpga_register_def turn_none)

lemma write_reg_none:
  "pg_posted s = [] \<Longrightarrow> reg_mapped (unat r) \<Longrightarrow> fpga_write_reg r v s = Some (log_event (Fpga_request (eSET_FPGA_REG r v))
     (s\<lparr>pg_turns := tl (pg_turns s), pg_task := (pg_task s)\<lparr>dev := set_reg16 (unat r) v (dev (pg_task s))\<rparr>\<rparr>))"
  by (simp add: fpga_write_reg_def fpga_direct_def turn_none fpgaRegisterWrite_def)

lemma on_pins_law:
  assumes "bus_trace (f (sc_bus (pg_send s))) = bus_trace (sc_bus (pg_send s)) @ es"
  shows "on_pins f s = Some (log_event (On_bridges es) (s\<lparr>pg_send := on_bus f (pg_send s)\<rparr>))"
  using assms by (simp add: on_pins_def on_send_def on_bus_def)

lemma bus_emit [simp]:
  "bus_trace (emit e b) = bus_trace b @ [e]" "HsSignalOnFlag (emit e b) = HsSignalOnFlag b"
  by (simp_all add: emit_def)

lemma deconfig_law:
  assumes "pg_posted s = []"
  obtains s' where "dp_gpio_deconfig s = Some s'" "pg_posted s' = []" "pg_mgr s' = pg_mgr s"
    "pg_log s' = pg_log s @ [Fpga_request (eSET_FPGA_REG 0xa9 0),
       On_bridges [Gpio_write 74 False, Gpio_write 75 False, Usleep 10000, Gpio_write 74 True, Gpio_write 75 True,
         Gpio_write 10 False, Gpio_write 11 False, Usleep 10000, Gpio_write 10 True, Gpio_write 11 True, Gpio_write 7 False],
       Fpga_request (eSET_FPGA_REG 0x56 1), On_bridges [Gpio_write 70 True, Gpio_write 58 True]]"
    "regs (dev (pg_task s')) = (regs (dev (pg_task s)))(0xa9 := 0, 0x56 := 1)"
proof -
  have "\<exists>s'. dp_gpio_deconfig s = Some s' \<and> pg_posted s' = [] \<and> pg_mgr s' = pg_mgr s \<and>
    pg_log s' = pg_log s @ [Fpga_request (eSET_FPGA_REG 0xa9 0),
       On_bridges [Gpio_write 74 False, Gpio_write 75 False, Usleep 10000, Gpio_write 74 True, Gpio_write 75 True,
         Gpio_write 10 False, Gpio_write 11 False, Usleep 10000, Gpio_write 10 True, Gpio_write 11 True, Gpio_write 7 False],
       Fpga_request (eSET_FPGA_REG 0x56 1), On_bridges [Gpio_write 70 True, Gpio_write 58 True]] \<and>
    regs (dev (pg_task s')) = (regs (dev (pg_task s)))(0xa9 := 0, 0x56 := 1)"
    using assms by (simp add: dp_gpio_deconfig_def write_reg_none reg_mapped_def on_pins_law Let_def)
  then show thesis using that by blast
qed

text \<open>What closing does on the lines of the bridges: display off, sleep, and the pins low.\<close>

definition dcs_events :: "u8 \<Rightarrow> bus_event list" where
  "dcs_events cmd = [Spi_write 0xFF [0x70, 0, 0xB7], Spi_write 0xFF [0x72, 3, 0x40],
     Spi_write 0xFF [0x70, 0, 0xB8], Spi_write 0xFF [0x72, 0, 0], Spi_write 0xFF [0x70, 0, 0xBC],
     Spi_write 0xFF [0x72, 0, 0], Spi_write 0xFF [0x70, 0, cmd], Usleep 20000]"

definition low_events :: "nat \<Rightarrow> bus_event list" where
  "low_events n = [Gpio_open n, Gpio_output n, Gpio_write n False]"

definition close_events :: "bus_event list" where
  "close_events = dcs_events 0x28 @ dcs_events 0x10
     @ [Spi_write 0xFF [0x70, 0, 0xB7], Spi_write 0xFF [0x72, 3, 0x40], Spi_write 0xFF [0x70, 0, 0xC4],
        Spi_write 0xFF [0x72, 0, 4]]
     @ low_events 74 @ low_events 10 @ low_events 75 @ low_events 11"

lemma close_trace:
  "bus_trace (mipi_gpio_release (sendCloseCommand (setHsmode False b))) = bus_trace b @ close_events"
  by (simp add: close_events_def dcs_events_def low_events_def mipi_gpio_release_def sendCloseCommand_def
      setHsmode_def set_pin_def DCSShortWriteNoPara_def WriteSSD2828_def WriteCMDSSD2828_def Delay_I2C_def
      Let_def SPI_ALL_CS_def)

definition off_log :: "pg_event list" where
  "off_log = [On_bridges close_events, Fpga_register 0xA8 0, Power_message False, Fpga_request (eSET_FPGA_REG 0xa9 0),
     On_bridges [Gpio_write 74 False, Gpio_write 75 False, Usleep 10000, Gpio_write 74 True, Gpio_write 75 True,
       Gpio_write 10 False, Gpio_write 11 False, Usleep 10000, Gpio_write 10 True, Gpio_write 11 True, Gpio_write 7 False],
     Fpga_request (eSET_FPGA_REG 0x56 1), On_bridges [Gpio_write 70 True, Gpio_write 58 True],
     Reported (Power_status 0)]"

lemma unbound_search: "\<forall>c \<in> set cs. ic_mipi_channel c = -1 \<Longrightarrow> mc \<noteq> -1 \<Longrightarrow> channel_search mc cs i = -1"
  by (induction cs arbitrary: i) auto

lemma unbound_channels:
  assumes "\<forall>c \<in> set (im_channel_data m). ic_mipi_channel c = -1" and "mc \<noteq> -1"
  shows "get_chip_channel_by_mipi_channel m mc = -1"
proof -
  have "\<forall>c \<in> set (take (im_channel_nums m) (im_channel_data m)). ic_mipi_channel c = -1"
    using assms(1) by (meson in_set_takeD)
  then show ?thesis using unbound_search [OF _ assms(2)] by (simp add: get_chip_channel_by_mipi_channel_def)
qed


section \<open>Switching on, step by step\<close>

text \<open>What the steps of switching on leave alone.\<close>

definition same_inputs :: "'w pg_state \<Rightarrow> 'w pg_state \<Rightarrow> bool" where
  "same_inputs s s' \<longleftrightarrow> pg_posted s' = pg_posted s \<and> pg_mgr s' = pg_mgr s \<and> pg_chips s' = pg_chips s \<and>
     s_timing_info s' = s_timing_info s \<and> s_power_info s' = s_power_info s \<and> pg_probes s' = pg_probes s \<and>
     pg_config s' = pg_config s \<and> curflick (pg_send s') = curflick (pg_send s) \<and> curpolar (pg_send s') = curpolar (pg_send s) \<and>
     db (pg_task s') = db (pg_task s) \<and> move_ptn (pg_task s') = move_ptn (pg_task s) \<and>
     files (pg_task s') = files (pg_task s) \<and> FpgaTask.trace (pg_task s') = FpgaTask.trace (pg_task s)"

lemma on_bus_keeps [simp]: "curflick (on_bus f t) = curflick t" "curpolar (on_bus f t) = curpolar t"
  "sc_code (on_bus f t) = sc_code t" "sc_bus (on_bus f t) = f (sc_bus t)"
  by (simp_all add: on_bus_def)

definition config_log :: "pg_event list" where
  "config_log = [On_bridges [Gpio_write 7 True, Gpio_write 10 False, Gpio_write 11 False, Usleep 10000,
       Gpio_write 10 True, Gpio_write 11 True],
     Fpga_request (eSET_FPGA_REG 0xa9 0x10), Fpga_request (eSET_FPGA_REG 0xa9 0x12),
     Fpga_request (eSET_FPGA_REG 0xa9 0x10), On_bridges [Gpio_write 70 False, Gpio_write 58 False],
     Fpga_request (eSET_FPGA_REG 0x56 0)]"

lemma config_law:
  assumes "pg_posted s = []"
  obtains s' where "dp_gpio_config s = Some s'" "same_inputs s s'" "pg_log s' = pg_log s @ config_log"
proof -
  have "\<exists>s'. dp_gpio_config s = Some s' \<and> same_inputs s s' \<and> pg_log s' = pg_log s @ config_log"
    using assms by (simp add: dp_gpio_config_def write_reg_none reg_mapped_def on_pins_law config_log_def same_inputs_def)
  then show thesis using that by blast
qed

lemma io_law:
  obtains s' where "io_voltage s = Some s'" "same_inputs s s'"
    "pg_log s' = pg_log s @ [On_bridges [Gpio_write 9 True],
       On_bridges [Gpio_write 9 (check_power_min_volt_is_v1_8 (Some (s_power_info s)) \<noteq> 0)]]"
proof -
  have "\<exists>s'. io_voltage s = Some s' \<and> same_inputs s s' \<and> pg_log s' = pg_log s @ [On_bridges [Gpio_write 9 True],
       On_bridges [Gpio_write 9 (check_power_min_volt_is_v1_8 (Some (s_power_info s)) \<noteq> 0)]]"
    by (simp add: io_voltage_def volt_v33_v18_reset_def volt_v33_v18_set_to_v18_def volt_v33_v18_set_to_v33_def
        on_pins_law same_inputs_def)
  then show thesis using that by blast
qed

lemma send_none: "pg_posted s = [] \<Longrightarrow> fpga_send m s = serve_message m s"
  by (simp add: fpga_send_def)

lemma black_law:
  assumes "pg_posted s = []"
  obtains s' where "fpga_send (fpga_show_color_picture 0 0 0) s = Some (0, s')" "same_inputs s s'"
    "pg_log s' = pg_log s @ [Fpga_message (SHOW_RGB 0 0 0)]"
proof -
  have "\<exists>s'. fpga_send (fpga_show_color_picture 0 0 0) s = Some (0, s') \<and> same_inputs s s' \<and>
      pg_log s' = pg_log s @ [Fpga_message (SHOW_RGB 0 0 0)]"
    using assms by (simp add: send_none serve_message_def fpga_show_color_picture_def serve_def same_inputs_def)
  then show thesis using that by blast
qed

text \<open>The waiting text is taken before the picture that is sent; a picture in the memory is only shown.\<close>

lemma picture_law:
  assumes "pg_posted s = [SET_REG r v]" and "dbModuleGetPatternById k (db (pg_task s)) = Some (Some m)"
    and "files (pg_task s) (image_name m) \<noteq> None" and "scan_size (displayX m) = Some (Some w, Some h)"
    and "pic_size w h = Some z" and "move_ptn_getPostionByName (image_name m) (move_ptn (pg_task s)) = p" and "p \<noteq> -1"
    and "reg_mapped (unat (ucast r :: u16))"
  obtains s' where "client_pg_showPtn k s = Some s'" "pg_posted s' = []" "pg_mgr s' = pg_mgr s"
    "pg_probes s' = pg_probes s" "pg_send s' = pg_send s" "pg_pwr_status s' = pg_pwr_status s"
    "FpgaTask.trace (pg_task s') = FpgaTask.trace (pg_task s) @ [Shown (word_of_int p) (word_of_int z)]"
    "pg_log s' = pg_log s @ [Fpga_message (SET_REG r v), Fpga_message (SET_PHOTO k)]"
proof -
  have "\<exists>s'. client_pg_showPtn k s = Some s' \<and> pg_posted s' = [] \<and> pg_mgr s' = pg_mgr s \<and> pg_probes s' = pg_probes s
     \<and> pg_send s' = pg_send s \<and> pg_pwr_status s' = pg_pwr_status s
     \<and> FpgaTask.trace (pg_task s') = FpgaTask.trace (pg_task s) @ [Shown (word_of_int p) (word_of_int z)]
     \<and> pg_log s' = pg_log s @ [Fpga_message (SET_REG r v), Fpga_message (SET_PHOTO k)]"
    using assms by (auto simp: client_pg_showPtn_def fpga_send_def serve_message_def serve_def set_photo_def
        fpgaRegisterWrite_def log_event_def Let_def position_in_def size_in_def show_register picture_reg_parts)
  then show thesis using that by blast
qed

text \<open>What commands do depends on the bus by its mode only: not on what was sent before, nor on the device.\<close>

definition after_bus :: "bus \<Rightarrow> bus \<Rightarrow> bus" where
  "after_bus b0 b = b\<lparr>bus_trace := bus_trace b0 @ bus_trace b, bus_dev := bus_dev b0\<rparr>"

lemma after_bus_sel:
  "bus_trace (after_bus b0 b) = bus_trace b0 @ bus_trace b" "HsSignalOnFlag (after_bus b0 b) = HsSignalOnFlag b"
  by (simp_all add: after_bus_def)

lemma after_bus_emit: "emit e (after_bus b0 b) = after_bus b0 (emit e b)"
  by (simp add: after_bus_def emit_def)

lemma after_bus_mode: "(after_bus b0 b)\<lparr>HsSignalOnFlag := v\<rparr> = after_bus b0 (b\<lparr>HsSignalOnFlag := v\<rparr>)"
  by (simp add: after_bus_def)

lemma after_bus_data: "fold (WriteDATASSD2828 c) ws (after_bus b0 b) = after_bus b0 (fold (WriteDATASSD2828 c) ws b)"
  by (induction ws arbitrary: b) (simp_all add: WriteDATASSD2828_def after_bus_emit)

lemma after_bus_write: "WriteSSD2828 c a d (after_bus b0 b) = after_bus b0 (WriteSSD2828 c a d b)"
  by (simp add: WriteSSD2828_def after_bus_emit)

lemma after_bus_delay: "Delay_I2C n (after_bus b0 b) = after_bus b0 (Delay_I2C n b)"
  by (simp add: Delay_I2C_def after_bus_emit)

lemma after_bus_short: "DCSShortWriteNoPara c a (after_bus b0 b) = after_bus b0 (DCSShortWriteNoPara c a b)"
  by (simp only: DCSShortWriteNoPara_def Let_def after_bus_sel after_bus_write WriteCMDSSD2828_def after_bus_emit)

lemma after_bus_packet: "send_packet c w bs (after_bus b0 b) = after_bus b0 (send_packet c w bs b)"
  by (cases "words_of bs") (simp_all only: send_packet_def list.case after_bus_write after_bus_data)

lemma after_bus_control: "control_effect c r d (after_bus b0 b) = after_bus b0 (control_effect c r d b)"
  by (simp only: control_effect_def mipi_to_hs_mode_def mipi_to_lp_mode_def time_delay_def after_bus_write
      after_bus_emit after_bus_mode split: if_split) simp

lemma after_bus_cmd: "cmd_effect c x (after_bus b0 b) = after_bus b0 (cmd_effect c x b)"
proof (cases x)
  case (fields op r d)
  show ?thesis
    unfolding fields cmd_effect.simps Let_def after_bus_sel after_bus_control after_bus_short after_bus_packet
      after_bus_delay by (simp only: if_distrib [where f = "after_bus b0"])
qed

lemma after_bus_cmds: "run_cmds c cs (after_bus b0 b) = after_bus b0 (run_cmds c cs b)"
  unfolding run_cmds_def by (induction cs arbitrary: b) (simp_all add: after_bus_cmd)

text \<open>What a script puts on the bus of a bridge in the low-power mode.\<close>

definition script_events :: "script_cmd list \<Rightarrow> bus_event list" where
  "script_events cs = bus_trace (run_cmds 0xFF (map meaning cs)
     \<lparr>bus_trace = [], bus_dev = (\<lambda>_. (0, 0, 0)), HsSignalOnFlag = False\<rparr>)"

lemma script_trace:
  assumes "\<not> HsSignalOnFlag b"
  shows "bus_trace (run_cmds 0xFF (map meaning cs) b) = bus_trace b @ script_events cs"
proof -
  have "b = after_bus b \<lparr>bus_trace = [], bus_dev = (\<lambda>_. (0, 0, 0)), HsSignalOnFlag = False\<rparr>"
    using assms by (simp add: after_bus_def)
  then have "bus_trace (run_cmds 0xFF (map meaning cs) b) = bus_trace (run_cmds 0xFF (map meaning cs)
      (after_bus b \<lparr>bus_trace = [], bus_dev = (\<lambda>_. (0, 0, 0)), HsSignalOnFlag = False\<rparr>))" by (rule arg_cong)
  then show ?thesis by (simp only: after_bus_cmds after_bus_sel script_events_def)
qed

text \<open>The registers of the bridges, all twenty in the order of \<open>config_writes\<close>.\<close>

definition config_events :: "ssd_config \<Rightarrow> bus_event list" where
  "config_events r = concat (map (\<lambda>(a, d). reg_write 0xFF a d) (config_writes r)) @ [Usleep 1000]"

lemma config_trace:
  "bus_trace (time_delay 1 (ConfigSSD2828 0xFF r b)) = bus_trace b @ config_events r"
  "HsSignalOnFlag (time_delay 1 (ConfigSSD2828 0xFF r b)) = HsSignalOnFlag b"
  by (simp_all add: ConfigSSD2828_def config_writes_def time_delay_def config_events_def bus_simps)

text \<open>The bridges are set for the panel and the code of the module is carried out on all of them.\<close>

definition bridge_events :: "ssd_config \<Rightarrow> script_cmd list \<Rightarrow> bus_event list" where
  "bridge_events r cs = config_events r @ script_events cs @ [Usleep 10000] @ reg_write 0xFF 0xB7 0x030b"

lemma bridges_law:
  assumes "80000000 \<le> DSIFRE t" and "DSIFRE t \<le> 1000000000"
    and "sc_code u = encode (map meaning cs) @ rest" and "3 \<le> length rest"
    and "\<not> rest ! 2 \<le> 250" and "\<forall>c \<in> set (map meaning cs). good_cmd c" and "length (map meaning cs) \<le> MAX_MIPI_CODE_LEN"
    and "length (encode (map meaning cs)) < 65536" and "length junk = 250" and "curflick u = 0" and "curpolar u = 0"
    and "\<not> HsSignalOnFlag (sc_bus u)"
  obtains r' u' where "Set2828_V 0xFF t r junk u = Some (module_of t, r', u')" "sc_code u' = sc_code u"
    "GetConfigPara t r = Some (module_of t, r')"
    "bus_trace (sc_bus u') = bus_trace (sc_bus u) @ bridge_events r' cs" "HsSignalOnFlag (sc_bus u')"
proof -
  obtain r' where r': "GetConfigPara t r = Some (module_of t, r')" using GetConfigPara_some [OF assms(1,2)] by blast
  let ?u = "on_bus (\<lambda>b. time_delay 1 (ConfigSSD2828 0xFF r' b)) u"
  obtain u1 where u1: "SendCode 0xFF junk ?u = Some u1" "sc_code u1 = sc_code u"
      "sc_bus u1 = run_cmds 0xFF (map meaning cs) (sc_bus ?u)"
    using SendCode_cmds_state [of ?u "map meaning cs" rest junk "0xFF"] assms(3-11) by (auto simp: report_flick_def)
  let ?u' = "on_bus (\<lambda>b. mipi_to_hs_mode 0xFF (time_delay 10 b)) u1"
  have "Set2828_V 0xFF t r junk u = Some (module_of t, r', ?u')"
    using u1(1) by (simp add: Set2828_V_def r')
  moreover have "bus_trace (sc_bus ?u') = bus_trace (sc_bus u) @ bridge_events r' cs"
  proof -
    have t: "bus_trace (sc_bus ?u) = bus_trace (sc_bus u) @ config_events r'" "\<not> HsSignalOnFlag (sc_bus ?u)"
      using assms(12) by (simp_all only: on_bus_keeps config_trace not_False_eq_True)
    have "bus_trace (sc_bus u1) = bus_trace (sc_bus u) @ config_events r' @ script_events cs"
      unfolding u1(3) script_trace [OF t(2)] t(1) append_assoc ..
    then show ?thesis by (simp add: bridge_events_def mipi_to_hs_mode_def time_delay_def bus_simps)
  qed
  ultimately show thesis using that r' u1(2) by (simp add: mipi_to_hs_mode_def)
qed

text \<open>Before that: the pins of the bridges pulsed, and the identity of each read.\<close>

definition reset_events :: "bus_event list" where
  "reset_events = concat (map (\<lambda>(p, q).
     [Gpio_open p, Gpio_output p, Gpio_write p False, Usleep 10000, Gpio_write p True,
      Gpio_open q, Gpio_output q, Gpio_write q False, Usleep 10000, Gpio_write q True,
      Usleep 100, Gpio_write q False, Usleep 10000, Gpio_write q True]) [(74, 10), (75, 11)])"

definition identity_events :: "bus_event list" where
  "identity_events = concat (map (\<lambda>c. [Spi_write c [0x70, 0, 0xB0], Spi_read c [0x73, 0, 0]]) [1, 2, 3, 4])"

lemma read_reg_trace:
  "bus_trace (snd (ReadSSD2828Reg c a b)) = bus_trace b @ [Spi_write c [0x70, 0, a], Spi_read c [0x73, 0, 0]]"
  "HsSignalOnFlag (snd (ReadSSD2828Reg c a b)) = HsSignalOnFlag b"
  by (simp_all add: ReadSSD2828Reg_def spi_read_def Let_def case_prod_beta)

lemma reset_trace:
  "bus_trace (read_b0 (mipi_gpio_reset 1 (mipi_gpio_reset 0 (setHsmode False b))))
     = bus_trace b @ reset_events @ identity_events"
  "\<not> HsSignalOnFlag (read_b0 (mipi_gpio_reset 1 (mipi_gpio_reset 0 (setHsmode False b))))"
  by (simp_all add: reset_events_def identity_events_def read_b0_def read_reg_trace mipi_gpio_reset_def
      pulse_def setHsmode_def Let_def)

definition can_bind :: "'w ic_mgr \<Rightarrow> bool" where
  "can_bind m \<longleftrightarrow> length (im_channel_data m) = 2 \<and> im_channel_nums m = 2 \<and>
     (case im_current_chip m of None \<Rightarrow> True | Some chip \<Rightarrow> fn_get_and_reset_private_data chip \<noteq> None)"

lemma bind_law:
  assumes "can_bind m"
  obtains m' w' c d where "do {
       (_, m, w) \<leftarrow> ic_mgr_set_mipi_channel 0 1 m w;
       ic_mgr_set_mipi_channel 1 4 m w
     } = Some (0, m', w')" "im_channel_data m' = [c, d]" "ic_mipi_channel c = 1" "ic_mipi_channel d = 4"
    "im_channel_nums m' = im_channel_nums m"
proof -
  obtain c d where cd: "im_channel_data m = [c, d]"
    using assms by (auto simp: can_bind_def numeral_2_eq_2 length_Suc_conv)
  have "\<exists>m' w' c d. do {
       (_, m, w) \<leftarrow> ic_mgr_set_mipi_channel 0 1 m w;
       ic_mgr_set_mipi_channel 1 4 m w
     } = Some (0, m', w') \<and> im_channel_data m' = [c, d] \<and> ic_mipi_channel c = 1 \<and> ic_mipi_channel d = 4
     \<and> im_channel_nums m' = im_channel_nums m"
    using assms cd by (auto simp: can_bind_def ic_mgr_set_mipi_channel_def Let_def split: option.splits prod.split)
  then show thesis using that by blast
qed

definition panel_code :: "script_cmd list \<Rightarrow> u8 list" where
  "panel_code cs = encode (map meaning cs)
     @ replicate (MAX_MIPI_CODE_LEN - length (encode (map meaning cs))) 0xff"

text \<open>A module whose bridges can be started: its clock, its script and its panel chip.\<close>

definition bridges_ready :: "'w pg_env \<Rightarrow> script_cmd list \<Rightarrow> 'w pg_state \<Rightarrow> bool" where
  "bridges_ready e cs s \<longleftrightarrow> (let t = s_timing_info s in
     timmipicommandenable t = 0 \<and> timinitcodename t \<noteq> [] \<and>
     80000000 \<le> mdlmipidsiclock t \<and> mdlmipidsiclock t \<le> 1000000000 \<and>
     code_files e (INITCODE_PATH @ ''/'' @ timinitcodename t) = Some (script_text cs) \<and>
     (\<forall>c \<in> set cs. legal_cmd c \<and> good_cmd (meaning c)) \<and> length cs \<le> MAX_MIPI_CODE_LEN \<and>
     length (encode (map meaning cs)) + 3 \<le> MAX_MIPI_CODE_LEN \<and>
     length (junk_words e) = 256 \<and> length (junk_data e) = 250 \<and>
     curflick (pg_send s) = 0 \<and> curpolar (pg_send s) = 0 \<and> can_bind (pg_mgr s))"

lemma working_law:
  assumes "bridges_ready e cs s"
  obtains s' r' c d where "mipi_working e (s_timing_info s) None v s = Some s'"
    "GetConfigPara (mipi_timing_setting (s_timing_info s)) (pg_config s)
       = Some (module_of (mipi_timing_setting (s_timing_info s)), r')"
    "pg_log s' = pg_log s @ [On_bridges (reset_events @ identity_events), On_bridges (bridge_events r' cs)]"
    "pg_posted s' = pg_posted s"
    "pg_task s' = pg_task s" "pg_probes s' = pg_probes s" "sc_code (pg_send s') = panel_code cs"
    "HsSignalOnFlag (sc_bus (pg_send s'))"
    "im_channel_data (pg_mgr s') = [c, d]" "ic_mipi_channel c = 1" "ic_mipi_channel d = 4"
    "im_channel_nums (pg_mgr s') = 2"
proof -
  let ?t = "s_timing_info s"
  let ?p = "mipi_timing_setting ?t"
  let ?rest = "replicate (MAX_MIPI_CODE_LEN - length (encode (map meaning cs))) (0xff :: u8)"
  have r: "timmipicommandenable ?t = 0" "timinitcodename ?t \<noteq> []" "80000000 \<le> mdlmipidsiclock ?t"
    "mdlmipidsiclock ?t \<le> 1000000000" "code_files e (INITCODE_PATH @ ''/'' @ timinitcodename ?t) = Some (script_text cs)"
    "\<forall>c \<in> set cs. legal_cmd c" "\<forall>c \<in> set (map meaning cs). good_cmd c" "length (map meaning cs) \<le> MAX_MIPI_CODE_LEN"
    "length (encode (map meaning cs)) + 3 \<le> MAX_MIPI_CODE_LEN" "length (junk_words e) = 256"
    "length (junk_data e) = 250" "curflick (pg_send s) = 0" "curpolar (pg_send s) = 0" "can_bind (pg_mgr s)"
    using assms by (auto simp: bridges_ready_def Let_def)
  have parse: "mipi_parse_init_code (junk_words e) (Some (script_text cs)) (replicate MAX_MIPI_CODE_LEN 0xff) None
      = Some (panel_code cs)"
    using parsed_scripts [OF r(6,10), of "replicate MAX_MIPI_CODE_LEN 0xff" None] r(9) by (simp add: panel_code_def)
  have f: "80000000 \<le> DSIFRE ?p" "DSIFRE ?p \<le> 1000000000" using r(3,4) by (simp_all add: mipi_timing_setting_def)
  let ?reads = "\<lambda>b. read_b0 (mipi_gpio_reset 1 (mipi_gpio_reset 0 (setHsmode False b)))"
  let ?s0 = "s\<lparr>pg_panel := ?p, pg_send := (pg_send s)\<lparr>sc_code := panel_code cs\<rparr>\<rparr>"
  let ?es1 = "reset_events @ identity_events"
  let ?s1 = "log_event (On_bridges ?es1) (?s0\<lparr>pg_send := on_bus ?reads (pg_send ?s0)\<rparr>)"
  have s1: "on_pins ?reads ?s0 = Some ?s1" by (rule on_pins_law) (simp add: reset_trace)
  have u: "sc_code (pg_send ?s1) = encode (map meaning cs) @ ?rest" "3 \<le> length ?rest" "\<not> ?rest ! 2 \<le> 250"
      "length (encode (map meaning cs)) < 65536" "curflick (pg_send ?s1) = 0" "curpolar (pg_send ?s1) = 0"
      "\<not> HsSignalOnFlag (sc_bus (pg_send ?s1))"
    using r(9,12,13) by (simp_all add: panel_code_def MAX_MIPI_CODE_LEN_def reset_trace)
  have code: "sc_code (pg_send ?s1) = panel_code cs" by simp
  obtain r' u' where b: "Set2828_V 0xFF ?p (pg_config ?s1) (junk_data e) (pg_send ?s1) = Some (module_of ?p, r', u')"
      "sc_code u' = panel_code cs" "HsSignalOnFlag (sc_bus u')" "GetConfigPara ?p (pg_config s) = Some (module_of ?p, r')"
      "bus_trace (sc_bus u') = bus_trace (sc_bus (pg_send ?s1)) @ bridge_events r' cs"
    by (rule bridges_law [OF f u(1-3) r(7,8) u(4) r(11) u(5-7), where r = "pg_config ?s1"])
      (rule that, simp_all only: code, simp_all)
  obtain m' w' c d where m: "do {
       (_, m, w) \<leftarrow> ic_mgr_set_mipi_channel 0 1 (pg_mgr s) (pg_chips s);
       ic_mgr_set_mipi_channel 1 4 m w
     } = Some (0, m', w')" "im_channel_data m' = [c, d]" "ic_mipi_channel c = 1" "ic_mipi_channel d = 4"
    "im_channel_nums m' = im_channel_nums (pg_mgr s)"
    using bind_law [OF r(14)] by metis
  from m(1) obtain rc1 m1 w1 where m1: "ic_mgr_set_mipi_channel 0 1 (pg_mgr s) (pg_chips s) = Some (rc1, m1, w1)"
      "ic_mgr_set_mipi_channel 1 4 m1 w1 = Some (0, m', w')"
    by (auto split: Option.bind_splits)
  let ?es2 = "drop (length (bus_trace (sc_bus (pg_send ?s1)))) (bus_trace (sc_bus u'))"
  let ?s' = "(log_event (On_bridges ?es2) (?s1\<lparr>pg_send := u'\<rparr>))\<lparr>pg_config := r', pg_mgr := m', pg_chips := w'\<rparr>"
  have nums: "im_channel_nums (pg_mgr s) = 2" using r(14) by (simp add: can_bind_def)
  have "mipi_working e ?t None v s = Some ?s'"
    using b(1) m1 by (simp add: mipi_working_def r(1,2) r(5) [simplified] parse s1 [simplified] on_send_def Let_def)
  then show thesis
    by (rule that [of _ r' c d]) (simp_all add: b m nums)
qed

text \<open>A pattern whose picture, of size \<open>z\<close>, is in position \<open>p\<close> of the memory of the FPGA.\<close>

definition picture_loaded :: "int \<Rightarrow> int \<Rightarrow> int \<Rightarrow> fpga_task \<Rightarrow> bool" where
  "picture_loaded k p z t \<longleftrightarrow> (\<exists>m w h. dbModuleGetPatternById k (db t) = Some (Some m) \<and> files t (image_name m) \<noteq> None \<and>
     scan_size (displayX m) = Some (Some w, Some h) \<and> pic_size w h = Some z \<and>
     move_ptn_getPostionByName (image_name m) (move_ptn t) = p \<and> p \<noteq> -1)"

definition on_log :: "bool \<Rightarrow> ssd_config \<Rightarrow> script_cmd list \<Rightarrow> int \<Rightarrow> pg_event list" where
  "on_log v18 r cs ptn = config_log @ [On_bridges [Gpio_write 9 True], On_bridges [Gpio_write 9 v18],
     Fpga_message (SHOW_RGB 0 0 0), Power_message True, Reported (Power_status 1),
     On_bridges (reset_events @ identity_events), On_bridges (bridge_events r cs),
     Reported (Mipi_code (mipi_code_pieces (panel_code cs))),
     Fpga_message (SET_REG 0x46 0), Fpga_message (SET_PHOTO ptn), Fpga_register 0xA8 2]"


text \<open>
  The other switch: the supply and the bridges follow, but neither the status that is answered to
  the server nor anything the FPGA does.
\<close>

lemma mipi_switch_keeps_status:
  assumes "client_pg_mipiShutON e enable pMipiCode s = Some s'"
  shows "pg_pwr_status s' = pg_pwr_status s \<and> pg_task s' = pg_task s"
  using assms
  by (auto simp: client_pg_mipiShutON_def mipi_working_def mipi_close_def on_pins_def on_send_def client_rebackMipiCode_def
      client_rebackPower_def switch_power_def Let_def split: if_splits option.splits Option.bind_splits)

text \<open>The pieces of the code are the code; when its length is a multiple of a packet the last one is empty.\<close>

lemma chunks_take: "concat (map (\<lambda>i. take p (drop (i * p) xs)) [0..<n]) = take (n * p) xs"
proof (induction n)
  case (Suc n)
  have "Suc n * p = n * p + p" by simp
  then show ?case using Suc by (simp add: take_add del: mult_Suc)
qed simp

lemma pieces_joined: "concat (map (\<lambda>(_, _, d). d) (mipi_code_pieces code)) = code"
proof -
  have "length code \<le> (length code div nat getPackageMaxLen + 1) * nat getPackageMaxLen"
    using dividend_less_div_times [of "nat getPackageMaxLen" "length code"]
    by (simp add: getPackageMaxLen_def PACKAGE_MAX_LEN_def add.commute less_imp_le)
  then show ?thesis
    by (simp add: mipi_code_pieces_def Let_def comp_def chunks_take del: upt_Suc)
qed

text \<open>
  C40: a module that cannot be opened leaves the panel as it was. When loading fails, because no module
  is chosen, its file is missing or damaged, or a configuration cannot be read, the result is -1 and
  nothing was sent to the power board, written to the clock or the FPGA or left for its task; all
  that is reported is a missing file.
\<close>

theorem failed_load_leaves_panel:
  assumes "load_cur_module e s = Some (rc, s')" and "rc \<noteq> 0"
  shows "rc = -1 \<and> dev (pg_task s') = dev (pg_task s) \<and> pg_posted s' = pg_posted s \<and> pg_power s' = pg_power s \<and>
    pg_clk s' = pg_clk s \<and> pg_send s' = pg_send s \<and>
    (pg_log s' = pg_log s \<or> pg_log s' = pg_log s @ [Reported (Error_no SYNC_FILE_ERROR)] \<and>
       (\<exists>n. cur_module e = Some n \<and> \<not> file_exists e (TST_PATH @ ''/'' @ n)))"
  using assms
  by (auto simp: load_cur_module_def select_chip_def Let_def
      split: option.splits if_splits Option.bind_splits prod.splits)

definition zero_rail :: rail_cfg where
  "zero_rail = \<lparr>rc_volt = 0, rc_fly_time = 0, rc_over = 0, rc_under = 0, rc_current_over = 0,
     rc_current_under = 0, rc_open_delay = 0, rc_close_delay = 0\<rparr>"

definition demo_power :: pwr_cfg where
  "demo_power = \<lparr>VDD = zero_rail, VDDIO = zero_rail\<lparr>rc_volt := 1800\<rparr>, ELVDD = zero_rail, ELVSS = zero_rail,
     VBL = zero_rail, VSP = zero_rail, VSN = zero_rail, MTP = zero_rail, LEDEnable = 0, LEDChannel = 0, LEDNumber = 0,
     LEDCurrent = 0, LEDOVP = 0, LEDUVP = 0, signalOpenDelay = 0, signalCloseDelay = 0, pwmOpenDelay = 0,
     pwmCloseDelay = 0, pwm = 0, pwmDuty = 0, pwmFreq = 0, vdimOpenDelay = 0, vdimCloseDelay = 0, vdim = 0,
     invertOpenDelay = 0, invertCloseDelay = 0, invert = 0, gpioPins = []\<rparr>"

definition demo_info :: timing_info where
  "demo_info = \<lparr>timsignalmode = 2, Signal = 0, timbit = 8, timvesajeda = 1, timvsyncpri = 0, timhsyncpri = 1,
     timde = 1, timvtotaltime = 1954, timhactivetime = 1080, timhtotaltime = 1200, timhbackporch = 48,
     timhfrontporch = 52, timhsyncpulsewidth = 20, timvactivetime = 1920, timvbackporch = 14,
     timvsyncpulsewidth = 4, timvfrontporch = 16, timclockfreq = 60, timMainFreq = 0, timlink = [1, 2, 3, 4],
     timsignaltype = 2, timmipilanenum = 4, timmipisyncmode = 0, timmipicommandenable = 0, timmipiprd = 0,
     timmipivsdelay = 0, mdlmipidsiclock = 725000000, timmipii2cdrivertype = 0, timmipilinenumber = 0,
     timmipirefreshrate = 0, timinitcodename = ''panel.txt'', timMipiBurnCodeName = [], timdpinterface = 0,
     timdpauxrate = 0, timdphpddelay = 0\<rparr>"

definition quiet_probes :: ca210 where
  "quiet_probes = \<lparr>probes = s_ca210_probe, kern = \<lparr>opens = [], reads = [], getst = 0, setst = 0,
     tty = (\<lambda>_. line0), trace = []\<rparr>\<rparr>"

definition demo_pg :: "unit pg_state" where
  "demo_pg = \<lparr>pg_task = (demo_task [])\<lparr>move_ptn := [\<lparr>bmpName = ''./cfg/imageOrigin/1080X1920/red.bmp'',
       downLoadStatus = DOWNLOAD_OK, postion = 0\<rparr>]\<rparr>, pg_posted = [], pg_turns = [],
     pg_mgr = snd (ic_mgr_init \<lparr>im_my_chip_id = 0, im_channel_nums = 0, im_channel_data = [],
       im_current_chip = Some default_chip\<rparr>),
     pg_chips = (), pg_power = \<lparr>uarts = [], pwr_queue = [], pwrCmdPause = False, pwrSoftwareVersion = 0,
       version_request = False, version_sem = 0, pwr_timer_on = False, pwr_events = []\<rparr>,
     s_power_info = demo_power, s_timing_info = demo_info, pg_clk = Reg_Store, pg_send = idle_send [],
     pg_config = zero_config, pg_panel = demo_timing 0, pg_probes = quiet_probes, g_chip_helitai_8019 = 0,
     pg_pwr_status = 1, pg_cur_ptnId = 0, pg_log = []\<rparr>"

definition demo_env :: "unit pg_env" where
  "demo_env = \<lparr>cur_module = Some ''m'', file_exists = (\<lambda>n. n = ''./cfg/tst//m''), module_files = (\<lambda>_. None),
     pwr_files = (\<lambda>_. None), tim_files = (\<lambda>_. None),
     code_files = (\<lambda>n. if n = ''cfg/initcode//panel.txt'' then Some (script_text [Panel_cmd 0x11 [], Delay_cmd 120, Panel_cmd 0x29 []]) else None),
     built_chips = (\<lambda>_. None), junk_patterns = [], junk_head = zero_head, junk_power = [],
     junk_words = replicate 256 [], junk_data = replicate 250 0\<rparr>"

lemma demo_channels: "length (im_channel_data (pg_mgr demo_pg)) = 2" "pg_posted demo_pg = []"
  by (simp_all add: demo_pg_def ic_mgr_init_def MAX_CHIP_CHANNEL_NUMS_def)


lemma demo_bridges: "bridges_ready demo_env [Panel_cmd 0x11 [], Delay_cmd 120, Panel_cmd 0x29 []] demo_pg"
  by (simp add: bridges_ready_def demo_pg_def demo_env_def demo_info_def INITCODE_PATH_def encode_def
      MAX_MIPI_CODE_LEN_def idle_send_def can_bind_def ic_mgr_init_def MAX_CHIP_CHANNEL_NUMS_def default_chip_def)

lemma demo_picture: "picture_loaded (ptdindex (demo_pattern ''red'')) 0 7 (pg_task demo_pg)"
proof -
  have "db (pg_task demo_pg) = demo_db" "files (pg_task demo_pg) = demo_disk" "move_ptn (pg_task demo_pg)
      = [\<lparr>bmpName = ''./cfg/imageOrigin/1080X1920/red.bmp'', downLoadStatus = DOWNLOAD_OK, postion = 0\<rparr>]"
    by (simp_all add: demo_pg_def demo_task_def)
  then show ?thesis
    using demo_search demo_size
    by (auto simp: picture_loaded_def demo_names demo_disk_def)
qed

lemma demo_flick: "ca210_start_flick_mode 0 (pg_probes demo_pg) \<noteq> None"
  by (simp add: demo_pg_def quiet_probes_def ca210_start_flick_mode_def switch_mode_def bad_channel_def probe_at_def
      s_ca210_probe_def MAX_LCD_PROBE_NUMS_def probe_zero_def mode_step_def exchange_timeout
      PROBE_STATU_OTHER_ERROR_def PROBE_STATU_TIMEOUT_def Let_def)


lemma failed_load_leaves_panel_witness:
  "pg_clk (snd (the (load_cur_module (demo_env\<lparr>file_exists := \<lambda>_. False\<rparr>) demo_pg))) = pg_clk demo_pg"
proof -
  let ?e = "demo_env\<lparr>file_exists := \<lambda>_. False\<rparr>"
  obtain s' where "load_cur_module ?e demo_pg = Some (-1, s')"
    by (simp add: load_cur_module_def demo_env_def Let_def)
  from failed_load_leaves_panel [OF this] this show ?thesis by simp
qed

end
