(* ===== verification/Spec2Isabelle.thy ===== *)
theory Spec2Isabelle
  imports PackService UartLink LoopList RingBuf IcManager BridgeConfig ThreadPool MsgQueue Jd9367 AutoFlick
    OsTimer FpgaDrv Bitmap ClkGen LcdTask FileSync PwrTask FpgaTask MipiScript SpiBus PanelOn
begin

text \<open>
  A verification of the client program of the ARM pattern generator \<^verbatim>\<open>arm_qunchuang\<close>, which tests
  display panels. A server sends it commands and files over TCP; it drives an FPGA that produces the
  picture signal, an SSD2828 bridge that turns the signal into MIPI, the controller chip of the
  panel, a power board and a key box on serial lines, and a colour analyser on a USB line. The source is
  C for a 32-bit ARM; the theories translate it function by function and keep its names.

  \<^bold>\<open>The parts and how they interact.\<close>

  \<^item> Packets over TCP. \<open>CmdFifo\<close>, \<open>PackList\<close>, \<open>PackSocket\<close> (\<^verbatim>\<open>packsocket/packsocket.c\<close>): frames with
    a header and a checksum, a receive FIFO with wrap-around, a heap list of fragments, and the parser.
    \<open>PackService\<close> (\<^verbatim>\<open>server_start\<close> in \<^verbatim>\<open>client.c\<close>): the loop that feeds the parser with what the
    socket delivers. \<open>Crc\<close>: the checksum of both wire protocols and the byte order.
  \<^item> Files. \<open>LocalDb\<close> (\<^verbatim>\<open>pgDB/pgLocalDB.c\<close>): the record of the files the generator has. \<open>FileSync\<close>
    (\<^verbatim>\<open>client.c\<close>, \<^verbatim>\<open>clirecvcmd5srv.c\<close>, \<^verbatim>\<open>clipg.c\<close>): the list of transfers, the messages that ask for and
    bring files in pieces, and their storing. \<open>PatternDb\<close> (\<^verbatim>\<open>pgDB/pgDB.c\<close>): the patterns of a test
    module. \<open>Bitmap\<close> (\<^verbatim>\<open>util/bitmap.c\<close>): pictures converted for the FPGA. \<open>CText\<close>: the texts of C and the
    library functions that read numbers from them.
  \<^item> Serial lines. \<open>Uart\<close>, \<open>UartRecv\<close>, \<open>UartPort\<close>, \<open>UartLink\<close> (\<^verbatim>\<open>hw/common/source/comUart.c\<close>): packing with
    byte stuffing, the receiving machine, the table of ports, the exchange of a request and an answer.
    \<open>PwrTask\<close> (\<^verbatim>\<open>hw/power/source\<close>): the power board on top of it.
  \<^item> Queues and threads. \<open>LoopList\<close> (\<^verbatim>\<open>loop/loop.c\<close>), \<open>RingBuf\<close> (\<^verbatim>\<open>common/ringBuf.h\<close>), \<open>ThreadPool\<close>
    (\<^verbatim>\<open>threadpool/threadpool.c\<close>), \<open>MsgQueue\<close> and \<open>OsTimer\<close> (\<^verbatim>\<open>pgos/MsOS_queue.c\<close>, \<^verbatim>\<open>MsOS_timer.c\<close>).
  \<^item> The panel. \<open>IcManager\<close> (\<^verbatim>\<open>icm/ic_manager.c\<close>) routes a request to the chip driver, of which \<open>Jd9367\<close>
    (\<^verbatim>\<open>icm/chips/chip_jd9367.c\<close>) is the one the product is built with. \<open>Ssd2828\<close>, \<open>InitCode\<close>,
    \<open>BridgeConfig\<close>, \<open>MipiScript\<close> (\<^verbatim>\<open>hw/mipi\<close>): the bridge, the interpreter of initialisation codes, the timing
    set-up, and the parser that makes codes from the lines of a script. \<open>SpiBus\<close> (\<^verbatim>\<open>hw/spi\<close>, \<^verbatim>\<open>hw/gpio\<close>): the two
    buses under the bridges and their chip selects. \<open>AutoFlick\<close> (\<^verbatim>\<open>hw/mipi/mipiflick.c\<close>): the search for the
    voltage of least flicker. \<open>Ca210\<close>,
    \<open>LcdTask\<close> (\<^verbatim>\<open>hw/lcd\<close>): the analysers and their task. \<open>ClkGen\<close> (\<^verbatim>\<open>hw/clk/clk.c\<close>): the clock generator.
  \<^item> The picture. \<open>FpgaRegs\<close>, \<open>FpgaDrv\<close> (\<^verbatim>\<open>hw/fpgaDrv/fpgaFunc.c\<close>): the registers and every request of the
    driver. \<open>FpgaTask\<close> (\<^verbatim>\<open>hw/fpga/source\<close>): the task that serves messages with them, the table of the
    pictures in the memory of the FPGA, and the timing configuration.
  \<^item> All together. \<open>PanelOn\<close> (\<^verbatim>\<open>clipg.c\<close>, \<^verbatim>\<open>mipi_working\<close> and \<^verbatim>\<open>mipi_close\<close>): opening a module and switching the
    panel on and off, over the states of the database, the power supply, the clock, the FPGA task with the
    messages that wait for it, the bridges, the chip manager and the analysers.

  \<^bold>\<open>How code becomes definitions.\<close> \<open>Prelude\<close> holds the types of fixed width, copies into and out of
  buffers, and the circular view of a buffer. A structure is a record, an enumeration or the
  messages of a task a datatype, a handler one function from the state to the result and the new
  state with the branches of the code. What C leaves undefined (an access outside an array, a freed or
  null pointer, a division by zero, an overflow of \<^verbatim>\<open>int\<close>, the use of a variable that was never set) is
  \<open>None\<close>; an error code is an ordinary value. A plain \<^verbatim>\<open>char\<close> is unsigned, \<^verbatim>\<open>long\<close> has 32 bits. \<^verbatim>\<open>double\<close>s are
  the rationals they stand for, with the rounding written out (\<open>CDouble\<close>). Code outside the
  repository is a parameter: what the kernel answers to calls on sockets, serial lines and devices,
  what the hardware drives, what \<^verbatim>\<open>sqlite\<close> and the configuration parser return, what the disk holds. Delays
  have no effect but in the trace of bus events. Threads are step relations in
  \<open>ThreadPool\<close>, \<open>MsgQueue\<close> and the callers of \<open>Jd9367\<close> (over \<open>Reach\<close>), with any number of threads, and the
  two threads that fill the table of pictures are one in \<open>FpgaTask\<close>; where
  a lock covers a whole operation the operation is atomic.

  \<^bold>\<open>Interfaces.\<close> \<open>byte_queue\<close> (theory \<open>ByteQueue\<close>) is what the FIFO of the socket and the byte ring have in
  common: both refine a list of bytes. \<open>bounded_deque\<close> (\<open>Deque\<close>) is the contract of the loop queue, with or
  without a function that deletes its items, on which the two databases rest. \<open>field_setter\<close> (\<open>FpgaRegs\<close>) is one field of one register, with nine
  interpretations. \<open>chip_contract\<close> (\<open>Jd9367\<close>) is what the chip manager needs of a driver, discharged for the
  driver and for the default chip. \<open>inv_system\<close> (\<open>Reach\<close>) is an invariant of a step relation, interpreted for
  the pool, the message queue and the chip under its callers.

  \<^bold>\<open>What is shown.\<close>

  \<^item> Delivery: for a stream of well-formed messages the server loop hands on exactly the messages, in
    order and however the network cuts them; where it can never deliver again, and how interleaved
    fragments use freed memory. A board on a serial line is heard whatever the reads; the unpacking
    inverts the packing; the machine stays inside its buffers. The whole synchronisation of files ends
    with every file stored and recorded, and a second one fetches nothing.
  \<^item> Queues: no item lost or freed twice, first in first out, refinement of a list; the pool keeps every job,
    is never stuck and drains before it is destroyed, and what happens to a caller that
    is late; the message queue under any interleaving; timers are called as often as they are due.
  \<^item> Hardware: settings of different fields commute but for the colour depth, whose bits cannot be read back; a
    picture that was downloaded is the one shown, with the bytes of its file, also
    through the table of the task and through any sequence of messages, fillings and restarts; the picture
    data arrive complete; the divider written to the clock generator is the wanted one; the interpreter
    of initialisation codes does what its commands mean, a script is parsed to exactly its commands, and a
    script from the network is carried out on both channels; requests reach their channel and no other, on
    the lines of the buses too (burning an identifier also restarts the display), and when two threads use one bus they may not; the search for the voltage ends
    within a bound. Switching the panel on and off returns, with the components used in the order that is safe and the script of the module carried out,
    and a module that cannot be opened leaves the panel as it was.
  \<^item> Errors: each theorem about undefined behaviour or a wrong result names the condition under which the
    code has it (a full module that loses its first pattern and stops the filling task, a database freed
    twice, two threads that mix up pictures, a second analyser, an upgrade that
    overruns its frame, a damaged answer that is reported).

  \<^bold>\<open>Bounds.\<close> Loops that end by construction are structural or have a measure; walks over rings and
  the receive loop are partial functions, and the theorems state that they return. Where the code limits a
  loop the model has its limit: 302, 65536 and 4096 polls of an FPGA register, three reads of a chip
  register, 8192 bytes of initialisation code, 1100 bytes of a serial frame, 1024 bytes of an upgrade packet,
  pieces of 320 KiB of a picture, 10 transfers, 1000 files, 200 patterns, 20 pictures, two analysers. The
  search of the flicker makes at most six measurements for each voltage of its range, and six more. The divider
  is proved for 1449 to 600000 kHz. No fuel of the model's own is used: where results of \<^verbatim>\<open>write\<close> are
  a list, running out of it means the call is still waiting.

  \<^bold>\<open>Not modelled.\<close> Third-party code: cJSON, iniparser, lua, libxml, sqlite and their headers. The text of JSON
  messages, whose values the handlers are given; handlers that only pass values between the network and a
  modelled component. Start-up, sockets and keys of the main program, the display texts and tables of the key
  box. Chip drivers and code of configurations that the Makefile leaves out. Kernel interfaces (SPI, GPIO, I2C)
  but for the sequences of transfers. The measurement of the backlight signal. The manifest lists every part
  with its state and what it leaves out.
\<close>

end
